(* ===== verification/Prelude.thy ===== *)
theory Prelude
  imports Main "HOL-Library.AList" "HOL-Library.Char_ord" "HOL-Library.List_Lexorder"
    "HOL-Library.Sublist"
begin

text \<open>
  Shared material of the development: the JavaScript values and library operations the
  modelled code uses, and the lemmas about them that every component needs.

  \<^item> A JavaScript string is a list of code units; \<^typ>\<open>string\<close> holds the code units below 256,
    and the string operations below are exact on them (\<open>trim\<close>, \<open>toLowerCase\<close>, \<open>split\<close>, \<open>join\<close>,
    \<open>indexOf\<close>; \<open>startsWith\<close>, \<open>endsWith\<close> and \<open>includes\<close> are \<open>prefix\<close>, \<open>suffix\<close> and \<open>sublist\<close>).
  \<^item> A \<open>Map\<close> is an association list in insertion order: \<open>AList.update\<close> overwrites in place or
    appends at the end, as \<open>Map.set\<close> does, and iteration follows the list.
  \<^item> A \<open>Set\<close> is a list without duplicates in insertion order.
  \<^item> The interface of a key-value store is a locale, interpreted on \<open>Map\<close> here and on the
    IndexedDB object store in its own theory.
\<close>

named_theorems js_simps \<open>evaluation rules of the JavaScript library model\<close>
named_theorems frame_simps \<open>what an operation leaves unchanged\<close>

subsection \<open>Strings\<close>

definition js_space :: "char \<Rightarrow> bool" where
  "js_space c \<longleftrightarrow> c \<in> set [CHR 0x09, CHR 0x0A, CHR 0x0B, CHR 0x0C, CHR 0x0D, CHR 0x20, CHR 0xA0]"

definition js_trim :: "string \<Rightarrow> string" where
  "js_trim s = rev (dropWhile js_space (rev (dropWhile js_space s)))"

definition js_lower_char :: "char \<Rightarrow> char" where
  "js_lower_char c =
     (let n = (of_char c :: nat)
      in if (65 \<le> n \<and> n \<le> 90) \<or> (192 \<le> n \<and> n \<le> 222 \<and> n \<noteq> 215) then char_of (n + 32) else c)"

definition js_lower :: "string \<Rightarrow> string" where
  "js_lower s = map js_lower_char s"

fun index_of :: "'a \<Rightarrow> 'a list \<Rightarrow> nat option" where
  "index_of c [] = None"
| "index_of c (x # xs) = (if x = c then Some 0 else map_option Suc (index_of c xs))"

fun split_on :: "'a \<Rightarrow> 'a list \<Rightarrow> 'a list list" where
  "split_on c [] = [[]]"
| "split_on c (x # xs) =
     (if x = c then [] # split_on c xs
      else (case split_on c xs of [] \<Rightarrow> [[x]] | y # ys \<Rightarrow> (x # y) # ys))"

fun join :: "'a list \<Rightarrow> 'a list list \<Rightarrow> 'a list" where
  "join sep [] = []"
| "join sep [x] = x"
| "join sep (x # y # zs) = x @ sep @ join sep (y # zs)"

text \<open>Decimal digits of a natural number, as \<open>String(n)\<close> prints an integer.\<close>

fun nat_to_string :: "nat \<Rightarrow> string" where
  "nat_to_string n =
     (if n < 10 then [char_of (48 + n)] else nat_to_string (n div 10) @ [char_of (48 + n mod 10)])"

declare nat_to_string.simps [simp del]

lemma index_of_None [simp]: "index_of c xs = None \<longleftrightarrow> c \<notin> set xs"
  by (induction xs) auto

lemma index_of_Some_nth: "index_of c xs = Some i \<Longrightarrow> i < length xs \<and> xs ! i = c \<and> c \<notin> set (take i xs)"
  by (induction xs arbitrary: i) (auto split: if_splits)

lemma index_of_nth: "distinct xs \<Longrightarrow> i < length xs \<Longrightarrow> index_of (xs ! i) xs = Some i"
  by (induction xs arbitrary: i) (auto simp: nth_Cons split: nat.splits)

lemma index_of_append: "c \<notin> set xs \<Longrightarrow> index_of c (xs @ c # ys) = Some (length xs)"
  by (induction xs) auto

lemma index_of_Some_split:
  assumes "index_of c xs = Some i"
  shows "xs = take i xs @ c # drop (Suc i) xs"
  using index_of_Some_nth [OF assms] id_take_nth_drop [of i xs] by simp

lemma split_on_not_Nil [simp]: "split_on c xs \<noteq> []"
  by (induction xs) (auto split: list.splits)

lemma join_Cons: "xs \<noteq> [] \<Longrightarrow> join sep (x # xs) = x @ sep @ join sep xs"
  by (cases xs) auto

lemma join_split_on [simp]: "join [c] (split_on c xs) = xs"
proof (induction xs)
  case (Cons x xs)
  then show ?case
    by (cases "split_on c xs") (auto simp: join_Cons, cases "tl (split_on c xs)", auto)
qed simp

lemma split_on_sep_free: "c \<notin> set xs \<Longrightarrow> split_on c xs = [xs]"
  by (induction xs) auto

lemma split_on_append_sep: "c \<notin> set xs \<Longrightarrow> split_on c (xs @ c # ys) = xs # split_on c ys"
  by (induction xs) auto

lemma split_on_join:
  "xs \<noteq> [] \<Longrightarrow> \<forall>x \<in> set xs. c \<notin> set x \<Longrightarrow> split_on c (join [c] xs) = xs"
proof (induction xs)
  case (Cons x xs)
  then show ?case
    by (cases xs) (auto simp: split_on_sep_free split_on_append_sep)
qed simp

lemma dropWhile_idem' [simp]: "dropWhile P (dropWhile P xs) = dropWhile P xs"
  by (induction xs) auto

subsection \<open>Sets in insertion order\<close>

definition set_add :: "'a \<Rightarrow> 'a list \<Rightarrow> 'a list" where
  "set_add x xs = (if x \<in> set xs then xs else xs @ [x])"

definition set_delete :: "'a \<Rightarrow> 'a list \<Rightarrow> 'a list" where
  "set_delete x xs = filter (\<lambda>y. y \<noteq> x) xs"

lemma set_set_add [simp]: "set (set_add x xs) = insert x (set xs)"
  by (auto simp: set_add_def)

lemma set_set_delete [simp]: "set (set_delete x xs) = set xs - {x}"
  by (auto simp: set_delete_def)

lemma distinct_set_add [simp]: "distinct (set_add x xs) \<longleftrightarrow> distinct xs"
  by (auto simp: set_add_def)

lemma distinct_set_delete: "distinct xs \<Longrightarrow> distinct (set_delete x xs)"
  by (simp add: set_delete_def)

lemma set_delete_absent [simp]: "x \<notin> set xs \<Longrightarrow> set_delete x xs = xs"
  by (auto simp: set_delete_def intro: filter_True)

definition set_from :: "'a list \<Rightarrow> 'a list" where
  "set_from xs = foldl (\<lambda>s x. set_add x s) [] xs"

lemma foldl_set_add_set: "set (foldl (\<lambda>s x. set_add x s) acc xs) = set acc \<union> set xs"
  by (induction xs arbitrary: acc) auto

lemma foldl_set_add_distinct: "distinct acc \<Longrightarrow> distinct (foldl (\<lambda>s x. set_add x s) acc xs)"
  by (induction xs arbitrary: acc) auto

lemma set_set_from [simp]: "set (set_from xs) = set xs"
  by (simp add: set_from_def foldl_set_add_set)

lemma distinct_set_from [simp]: "distinct (set_from xs)"
  by (simp add: set_from_def foldl_set_add_distinct)

subsection \<open>The interface of a key-value store\<close>

locale kv_store =
  fixes get :: "'m \<Rightarrow> 'k \<Rightarrow> 'v option"
    and put :: "'k \<Rightarrow> 'v \<Rightarrow> 'm \<Rightarrow> 'm"
    and del :: "'k \<Rightarrow> 'm \<Rightarrow> 'm"
    and keys :: "'m \<Rightarrow> 'k list"
    and inv :: "'m \<Rightarrow> bool"
  assumes get_put: "inv m \<Longrightarrow> get (put k v m) k' = (if k' = k then Some v else get m k')"
    and get_del: "inv m \<Longrightarrow> get (del k m) k' = (if k' = k then None else get m k')"
    and set_keys: "inv m \<Longrightarrow> k \<in> set (keys m) \<longleftrightarrow> get m k \<noteq> None"
    and distinct_keys: "inv m \<Longrightarrow> distinct (keys m)"
    and inv_put: "inv m \<Longrightarrow> inv (put k v m)"
    and inv_del: "inv m \<Longrightarrow> inv (del k m)"
begin

lemma get_put_same [simp]: "inv m \<Longrightarrow> get (put k v m) k = Some v"
  by (simp add: get_put)

lemma get_put_other [simp]: "inv m \<Longrightarrow> k' \<noteq> k \<Longrightarrow> get (put k v m) k' = get m k'"
  by (simp add: get_put)

lemma get_del_same [simp]: "inv m \<Longrightarrow> get (del k m) k = None"
  by (simp add: get_del)

lemma get_del_other [simp]: "inv m \<Longrightarrow> k' \<noteq> k \<Longrightarrow> get (del k m) k' = get m k'"
  by (simp add: get_del)

lemma get_del_put: "inv m \<Longrightarrow> get (del k (put k v m)) k' = (if k' = k then None else get m k')"
  by (simp add: get_put get_del inv_put)

lemma keys_put: "inv m \<Longrightarrow> set (keys (put k v m)) = insert k (set (keys m))"
  by (auto simp: set_keys inv_put get_put split: if_splits)

lemma keys_del: "inv m \<Longrightarrow> set (keys (del k m)) = set (keys m) - {k}"
  by (auto simp: set_keys inv_del get_del split: if_splits)

lemma length_keys_put_new:
  assumes "inv m" "get m k = None"
  shows "length (keys (put k v m)) = Suc (length (keys m))"
proof -
  have "length (keys (put k v m)) = card (insert k (set (keys m)))"
    using assms by (metis distinct_card distinct_keys inv_put keys_put)
  then show ?thesis
    using assms by (simp add: set_keys distinct_card distinct_keys)
qed

end

definition map_get :: "('k \<times> 'v) list \<Rightarrow> 'k \<Rightarrow> 'v option" where
  "map_get m k = map_of m k"

definition map_set :: "'k \<Rightarrow> 'v \<Rightarrow> ('k \<times> 'v) list \<Rightarrow> ('k \<times> 'v) list" where
  "map_set k v m = AList.update k v m"

definition map_delete :: "'k \<Rightarrow> ('k \<times> 'v) list \<Rightarrow> ('k \<times> 'v) list" where
  "map_delete k m = filter (\<lambda>p. fst p \<noteq> k) m"

definition map_keys :: "('k \<times> 'v) list \<Rightarrow> 'k list" where
  "map_keys m = map fst m"

definition map_wf :: "('k \<times> 'v) list \<Rightarrow> bool" where
  "map_wf m \<longleftrightarrow> distinct (map fst m)"

lemma map_get_set: "map_get (map_set k v m) k' = (if k' = k then Some v else map_get m k')"
  by (simp add: map_get_def map_set_def update_conv')

lemma map_get_delete: "map_get (map_delete k m) k' = (if k' = k then None else map_get m k')"
  by (induction m) (auto simp: map_get_def map_delete_def)

interpretation js_map: kv_store map_get map_set map_delete map_keys map_wf
proof unfold_locales
  show "map_wf m \<Longrightarrow> map_wf (map_set k v m)" for k :: 'a and v :: 'b and m
    by (simp add: map_wf_def map_set_def distinct_update)
  show "map_wf m \<Longrightarrow> map_wf (map_delete k m)" for k :: 'a and m :: "('a \<times> 'b) list"
    by (simp add: map_wf_def map_delete_def distinct_map_filter)
  show "k \<in> set (map_keys m) \<longleftrightarrow> map_get m k \<noteq> None" if "map_wf m"
    for k :: 'a and m :: "('a \<times> 'b) list"
    by (force simp: map_keys_def map_get_def map_of_eq_None_iff)
qed (auto simp: map_get_set map_get_delete map_wf_def map_keys_def)

lemmas map_eqs = map_get_set map_get_delete

lemma map_get_Nil [simp]: "map_get [] k = None"
  by (simp add: map_get_def)

subsection \<open>Runs\<close>

text \<open>What every step that fits keeps holds in every run.\<close>

locale run_invariant =
  fixes step :: "'s \<Rightarrow> 'e \<Rightarrow> 's"
    and inv :: "'s \<Rightarrow> bool"
    and fits :: "'e \<Rightarrow> bool"
  assumes inv_step: "inv s \<Longrightarrow> fits e \<Longrightarrow> inv (step s e)"
begin

lemma inv_run: "inv s \<Longrightarrow> \<forall>e \<in> set es. fits e \<Longrightarrow> inv (foldl step s es)"
  by (induction es arbitrary: s) (simp_all add: inv_step)

end

text \<open>A run in which every step is allowed in the state it begins in\<close>

fun guarded_run :: "('s \<Rightarrow> 'e \<Rightarrow> bool) \<Rightarrow> ('s \<Rightarrow> 'e \<Rightarrow> 's) \<Rightarrow> 's \<Rightarrow> 'e list \<Rightarrow> bool" where
  "guarded_run ok step s [] \<longleftrightarrow> True"
| "guarded_run ok step s (e # es) \<longleftrightarrow> ok s e \<and> guarded_run ok step (step s e) es"

text \<open>What every allowed step keeps holds in every such run; \<open>run_invariant\<close> is the case in which what is allowed does
  not depend on the state.\<close>

locale guarded_invariant =
  fixes step :: "'s \<Rightarrow> 'e \<Rightarrow> 's"
    and inv :: "'s \<Rightarrow> bool"
    and ok :: "'s \<Rightarrow> 'e \<Rightarrow> bool"
  assumes step_keeps: "inv s \<Longrightarrow> ok s e \<Longrightarrow> inv (step s e)"
begin

lemma keeps_run: "inv s \<Longrightarrow> guarded_run ok step s es \<Longrightarrow> inv (foldl step s es)"
  by (induction es arbitrary: s) (simp_all add: step_keeps)

end

sublocale run_invariant \<subseteq> unguarded: guarded_invariant step inv "\<lambda>s e. fits e"
  by unfold_locales (rule inv_step)

text \<open>Steps that an abstraction takes to the steps of a specification\<close>

locale functional_refinement = guarded_invariant step inv ok
  for step :: "'s \<Rightarrow> 'e \<Rightarrow> 's" and inv :: "'s \<Rightarrow> bool" and ok :: "'s \<Rightarrow> 'e \<Rightarrow> bool" +
  fixes astep :: "'a \<Rightarrow> 'e \<Rightarrow> 'a"
    and abst :: "'s \<Rightarrow> 'a"
  assumes step_refines: "inv s \<Longrightarrow> ok s e \<Longrightarrow> abst (step s e) = astep (abst s) e"
begin

lemma run_refines:
  "inv s \<Longrightarrow> guarded_run ok step s es \<Longrightarrow> abst (foldl step s es) = foldl astep (abst s) es \<and> inv (foldl step s es)"
  by (induction es arbitrary: s) (simp_all add: step_keeps step_refines)

end

end
