(* ===== verification/Crypto.thy ===== *)
theory Crypto
  imports Prelude "HOL-Library.Word" "HOL-Library.Monad_Syntax"
begin

text \<open>
  The end-to-end encryption module \<^verbatim>\<open>lib/crypto.ts\<close> and the base64 helpers \<^verbatim>\<open>lib/encoding.ts\<close>.

  The primitives are the browser's WebCrypto and the \<^verbatim>\<open>hash-wasm\<close> package, neither under \<^verbatim>\<open>src/\<close>:
  they are the fields of the record \<open>webcrypto\<close>, an argument of every definition that calls them.
  A rejected promise is \<open>None\<close>. Random values (\<^verbatim>\<open>crypto.getRandomValues\<close>, generated key pairs) are
  arguments of the functions that draw them. What the code relies on is stated as the predicates
  \<open>aead_law\<close>, \<open>signing_pair\<close> and \<open>ecdh_pair\<close> of documented behaviour.
\<close>

type_synonym byte = "8 word"
type_synonym bytes = "byte list"

record webcrypto =
  subtle_available :: bool
  aes_gcm_encrypt :: "bytes \<Rightarrow> bytes \<Rightarrow> bytes \<Rightarrow> bytes"
  aes_gcm_decrypt :: "bytes \<Rightarrow> bytes \<Rightarrow> bytes \<Rightarrow> bytes option"
  ecdsa_sign :: "bytes \<Rightarrow> bytes \<Rightarrow> bytes option"
  ecdsa_verify :: "bytes \<Rightarrow> bytes \<Rightarrow> bytes \<Rightarrow> bool option"
  ecdh_bits :: "bytes \<Rightarrow> bytes \<Rightarrow> bytes option"
  hkdf_sha256 :: "bytes \<Rightarrow> bytes \<Rightarrow> bytes \<Rightarrow> bytes"
  digest_sha256 :: "bytes \<Rightarrow> bytes"
  argon2id_hex :: "string \<Rightarrow> bytes \<Rightarrow> nat \<Rightarrow> nat \<Rightarrow> nat \<Rightarrow> nat \<Rightarrow> string"

text \<open>An AES-GCM \<^verbatim>\<open>CryptoKey\<close>: its raw bytes and whether \<^verbatim>\<open>exportKey\<close> is allowed.\<close>

datatype crypto_key = AesKey (key_raw: bytes) (key_extractable: bool)

definition import_aes :: "bytes \<Rightarrow> bool \<Rightarrow> crypto_key option" where
  "import_aes raw extractable =
     (if length raw \<in> {16, 24, 32} then Some (AesKey raw extractable) else None)"

definition export_aes :: "crypto_key \<Rightarrow> bytes option" where
  "export_aes k = (if key_extractable k then Some (key_raw k) else None)"

text \<open>\<^verbatim>\<open>TextEncoder.encode\<close>: UTF-8 of the code units below 256.\<close>

definition utf8_char :: "char \<Rightarrow> bytes" where
  "utf8_char c =
     (let n = (of_char c :: nat)
      in if n < 128 then [of_nat n] else [of_nat (192 + n div 64), of_nat (128 + n mod 64)])"

definition text_encode :: "string \<Rightarrow> bytes" where
  "text_encode s = concat (map utf8_char s)"

subsection \<open>Hexadecimal\<close>

definition hex_digits :: string where
  "hex_digits = ''0123456789abcdef''"

definition hex_digit :: "nat \<Rightarrow> char" where
  "hex_digit n = hex_digits ! n"

definition hex_value :: "char \<Rightarrow> nat option" where
  "hex_value c = index_of (js_lower_char c) hex_digits"

text \<open>\<^verbatim>\<open>parseInt(s, 16)\<close>: leading space, a sign, an optional \<open>0x\<close>, the longest run of digits.\<close>

definition parse_int16 :: "string \<Rightarrow> int option" where
  "parse_int16 s =
     (let s1 = dropWhile js_space s;
          neg = (s1 \<noteq> [] \<and> hd s1 = CHR ''-'');
          s2 = (if s1 \<noteq> [] \<and> (hd s1 = CHR ''-'' \<or> hd s1 = CHR ''+'') then tl s1 else s1);
          s3 = (if js_lower (take 2 s2) = ''0x'' then drop 2 s2 else s2);
          ds = takeWhile (\<lambda>c. hex_value c \<noteq> None) s3;
          v = foldl (\<lambda>a c. 16 * a + int (the (hex_value c))) 0 ds
      in if ds = [] then None else Some (if neg then - v else v))"

text \<open>Storing NaN in a \<^verbatim>\<open>Uint8Array\<close> stores 0; a number is taken modulo 256.\<close>

fun hex_pairs :: "string \<Rightarrow> bytes" where
  "hex_pairs (a # b # r) =
     (case parse_int16 [a, b] of None \<Rightarrow> 0 | Some n \<Rightarrow> of_int n) # hex_pairs r"
| "hex_pairs _ = []"

definition hexToBytes :: "string \<Rightarrow> bytes" where
  "hexToBytes hex = hex_pairs hex"

definition byte_hex :: "byte \<Rightarrow> string" where
  "byte_hex b =
     (let n = unat b; s = (if n < 16 then [hex_digit n] else [hex_digit (n div 16), hex_digit (n mod 16)])
      in replicate (2 - length s) (CHR ''0'') @ s)"

definition bytesToHex :: "bytes \<Rightarrow> string" where
  "bytesToHex bs = concat (map byte_hex bs)"

subsection \<open>Key derivation\<close>

datatype crypto_error = NeedsHttps | Rejected

record derived_keys =
  authHash :: string
  wrappingKey :: crypto_key

definition derive_with :: "webcrypto \<Rightarrow> nat \<Rightarrow> string \<Rightarrow> string \<Rightarrow> crypto_error + derived_keys" where
  "derive_with C iterations username passphrase =
     (let salt = digest_sha256 C (text_encode (js_lower (js_trim username)));
          hexHash = argon2id_hex C passphrase salt iterations 19456 1 64;
          kdf = hexToBytes hexHash;
          authKeyBytes = take 32 kdf;
          wrappingKeyBytes = take 32 (drop 32 kdf);
          hash = bytesToHex (digest_sha256 C authKeyBytes)
      in case import_aes wrappingKeyBytes False of
           None \<Rightarrow> Inl Rejected
         | Some k \<Rightarrow> Inr \<lparr>authHash = hash, wrappingKey = k\<rparr>)"

definition deriveKeys :: "webcrypto \<Rightarrow> string \<Rightarrow> string \<Rightarrow> crypto_error + derived_keys" where
  "deriveKeys C username passphrase =
     (if \<not> subtle_available C then Inl NeedsHttps else derive_with C 3 username passphrase)"

definition deriveKeysLegacy :: "webcrypto \<Rightarrow> string \<Rightarrow> string \<Rightarrow> crypto_error + derived_keys" where
  "deriveKeysLegacy C username passphrase = derive_with C 2 username passphrase"

definition deriveUserId :: "webcrypto \<Rightarrow> string \<Rightarrow> string" where
  "deriveUserId C username =
     bytesToHex (digest_sha256 C (text_encode (''user_id:'' @ js_lower (js_trim username))))"

fun groups4 :: "string \<Rightarrow> string list" where
  "groups4 (a # b # c # d # r) = [a, b, c, d] # groups4 r"
| "groups4 _ = []"

definition keyFingerprint :: "webcrypto \<Rightarrow> bytes \<Rightarrow> string" where
  "keyFingerprint C pub = join '' '' (groups4 (take 16 (bytesToHex (digest_sha256 C pub))))"

subsection \<open>Encryption\<close>

definition encrypt :: "webcrypto \<Rightarrow> bytes \<Rightarrow> bytes \<Rightarrow> crypto_key \<Rightarrow> bytes" where
  "encrypt C iv data key = iv @ aes_gcm_encrypt C (key_raw key) iv data"

definition decrypt :: "webcrypto \<Rightarrow> bytes \<Rightarrow> crypto_key \<Rightarrow> bytes option" where
  "decrypt C data key = aes_gcm_decrypt C (key_raw key) (take 12 data) (drop 12 data)"

subsection \<open>The master key and the private keys wrapped under it\<close>

definition wrapKey :: "webcrypto \<Rightarrow> bytes \<Rightarrow> crypto_key \<Rightarrow> crypto_key \<Rightarrow> bytes option" where
  "wrapKey C iv masterKey wKey = map_option (\<lambda>raw. encrypt C iv raw wKey) (export_aes masterKey)"

definition generateMasterKey :: "webcrypto \<Rightarrow> bytes \<Rightarrow> bytes \<Rightarrow> crypto_key \<Rightarrow> (crypto_key \<times> bytes) option" where
  "generateMasterKey C rawMasterKey iv wKey =
     do { masterKey \<leftarrow> import_aes rawMasterKey True;
          wrapped \<leftarrow> wrapKey C iv masterKey wKey;
          Some (masterKey, wrapped) }"

definition unwrapMasterKey :: "webcrypto \<Rightarrow> bytes \<Rightarrow> crypto_key \<Rightarrow> crypto_key option" where
  "unwrapMasterKey C wrappedMasterKey wKey =
     do { raw \<leftarrow> decrypt C wrappedMasterKey wKey; import_aes raw True }"

definition rewrapMasterKey :: "webcrypto \<Rightarrow> bytes \<Rightarrow> crypto_key \<Rightarrow> crypto_key \<Rightarrow> bytes option" where
  "rewrapMasterKey C iv masterKey newWrappingKey = wrapKey C iv masterKey newWrappingKey"

definition rotateMasterKey :: "webcrypto \<Rightarrow> bytes \<Rightarrow> bytes \<Rightarrow> crypto_key \<Rightarrow> crypto_key \<Rightarrow> (crypto_key \<times> bytes) option" where
  "rotateMasterKey C fresh iv oldMasterKey newWrappingKey = generateMasterKey C fresh iv newWrappingKey"

definition wrapPrivateKey :: "webcrypto \<Rightarrow> bytes \<Rightarrow> bytes \<Rightarrow> crypto_key \<Rightarrow> bytes" where
  "wrapPrivateKey C iv privateKey masterKey = encrypt C iv privateKey masterKey"

definition unwrapPrivateKey :: "webcrypto \<Rightarrow> bytes \<Rightarrow> crypto_key \<Rightarrow> bytes option" where
  "unwrapPrivateKey C wrapped masterKey = decrypt C wrapped masterKey"

definition wrapSigningKey :: "webcrypto \<Rightarrow> bytes \<Rightarrow> bytes \<Rightarrow> crypto_key \<Rightarrow> bytes" where
  "wrapSigningKey C iv privateKey masterKey = encrypt C iv privateKey masterKey"

definition unwrapSigningKey :: "webcrypto \<Rightarrow> bytes \<Rightarrow> crypto_key \<Rightarrow> bytes option" where
  "unwrapSigningKey C wrapped masterKey = decrypt C wrapped masterKey"

subsection \<open>Signed payloads\<close>

definition SIGNED_VERSION :: byte where
  "SIGNED_VERSION = 1"

definition signPayload :: "webcrypto \<Rightarrow> bytes \<Rightarrow> bytes \<Rightarrow> bytes option" where
  "signPayload C plaintext signingPrivateKey =
     (case ecdsa_sign C signingPrivateKey plaintext of
        None \<Rightarrow> None
      | Some signature \<Rightarrow> Some (SIGNED_VERSION # signature @ plaintext))"

definition verifyPayload :: "webcrypto \<Rightarrow> bytes \<Rightarrow> bytes option \<Rightarrow> bytes \<times> bool" where
  "verifyPayload C data signingPublicKey =
     (if data = [] \<or> hd data \<noteq> SIGNED_VERSION \<or> length data < 65 then (data, False)
      else let signature = take 64 (drop 1 data); plaintext = drop 65 data in
        case signingPublicKey of
          None \<Rightarrow> (plaintext, False)
        | Some pk \<Rightarrow>
            (case ecdsa_verify C pk signature plaintext of
               None \<Rightarrow> (plaintext, False)
             | Some valid \<Rightarrow> (plaintext, valid)))"

subsection \<open>Book keys\<close>

definition generateBookKey :: "bytes \<Rightarrow> (crypto_key \<times> bytes) option" where
  "generateBookKey raw = map_option (\<lambda>k. (k, raw)) (import_aes raw True)"

definition importBookKey :: "bytes \<Rightarrow> crypto_key option" where
  "importBookKey raw = import_aes raw True"

definition deriveSharedKey :: "webcrypto \<Rightarrow> bytes \<Rightarrow> bytes \<Rightarrow> crypto_key option" where
  "deriveSharedKey C privateKey publicKey =
     do { sharedBits \<leftarrow> ecdh_bits C privateKey publicKey;
          Some (AesKey (hkdf_sha256 C sharedBits (replicate 32 0) (text_encode ''RecipePWA-vault-key'')) False) }"

definition encryptBookKeyForUser :: "webcrypto \<Rightarrow> bytes \<Rightarrow> bytes \<Rightarrow> bytes \<Rightarrow> bytes \<Rightarrow> bytes option" where
  "encryptBookKeyForUser C iv senderPrivateKey recipientPublicKey bookKeyRaw =
     do { sharedKey \<leftarrow> deriveSharedKey C senderPrivateKey recipientPublicKey;
          Some (encrypt C iv bookKeyRaw sharedKey) }"

definition decryptBookKeyFromUser :: "webcrypto \<Rightarrow> bytes \<Rightarrow> bytes \<Rightarrow> bytes \<Rightarrow> bytes option" where
  "decryptBookKeyFromUser C recipientPrivateKey senderPublicKey encryptedBookKey =
     do { sharedKey \<leftarrow> deriveSharedKey C recipientPrivateKey senderPublicKey;
          decrypt C encryptedBookKey sharedKey }"

subsection \<open>Base64 (\<^verbatim>\<open>lib/encoding.ts\<close>)\<close>

definition b64_alphabet :: string where
  "b64_alphabet = ''ABCDEFGHIJKLMNOPQRSTUVWXYZabcdefghijklmnopqrstuvwxyz0123456789+/''"

definition b64_char :: "nat \<Rightarrow> char" where
  "b64_char n = b64_alphabet ! n"

definition b64_value :: "char \<Rightarrow> nat option" where
  "b64_value c = index_of c b64_alphabet"

fun btoa_groups :: "nat list \<Rightarrow> string" where
  "btoa_groups (x # y # z # r) =
     b64_char (x div 4) # b64_char ((x mod 4) * 16 + y div 16) #
     b64_char ((y mod 16) * 4 + z div 64) # b64_char (z mod 64) # btoa_groups r"
| "btoa_groups [x, y] =
     [b64_char (x div 4), b64_char ((x mod 4) * 16 + y div 16), b64_char ((y mod 16) * 4), CHR ''='']"
| "btoa_groups [x] = [b64_char (x div 4), b64_char ((x mod 4) * 16), CHR ''='', CHR ''='']"
| "btoa_groups [] = []"

definition btoa :: "string \<Rightarrow> string" where
  "btoa s = btoa_groups (map of_char s)"

text \<open>The forgiving-base64 decoder behind \<^verbatim>\<open>atob\<close>; it throws on a bad length or character.\<close>

definition atob_strip :: "string \<Rightarrow> string" where
  "atob_strip s =
     (let t = filter (\<lambda>c. c \<notin> set [CHR 0x09, CHR 0x0A, CHR 0x0C, CHR 0x0D, CHR 0x20]) s
      in if length t mod 4 = 0 then
           (if suffix ''=='' t then take (length t - 2) t
            else if suffix ''='' t then take (length t - 1) t else t)
         else t)"

fun atob_groups :: "nat list \<Rightarrow> nat list option" where
  "atob_groups (a # b # c # d # r) =
     map_option (\<lambda>t. (a * 4 + b div 16) # ((b mod 16) * 16 + c div 4) # ((c mod 4) * 64 + d) # t)
       (atob_groups r)"
| "atob_groups [a, b, c] = Some [a * 4 + b div 16, (b mod 16) * 16 + c div 4]"
| "atob_groups [a, b] = Some [a * 4 + b div 16]"
| "atob_groups [a] = None"
| "atob_groups [] = Some []"

definition atob :: "string \<Rightarrow> string option" where
  "atob s =
     (let t = map b64_value (atob_strip s)
      in if None \<in> set t then None
         else map_option (map char_of) (atob_groups (map the t)))"

definition toBase64 :: "bytes \<Rightarrow> string" where
  "toBase64 bs = btoa (map (\<lambda>b. char_of (unat b)) bs)"

definition fromBase64 :: "string \<Rightarrow> bytes option" where
  "fromBase64 b64 = map_option (map (\<lambda>c. of_nat (of_char c))) (atob b64)"

subsection \<open>What the code relies on\<close>

text \<open>AES-GCM decrypts what it encrypted under the same key and initialisation vector.\<close>

definition aead_law :: "webcrypto \<Rightarrow> bool" where
  "aead_law C \<longleftrightarrow> (\<forall>k iv m. aes_gcm_decrypt C k iv (aes_gcm_encrypt C k iv m) = Some m)"

text \<open>An ECDSA P-256 key pair: signatures have 64 bytes and verify under the public key.\<close>

definition signing_pair :: "webcrypto \<Rightarrow> bytes \<Rightarrow> bytes \<Rightarrow> bool" where
  "signing_pair C sk pk \<longleftrightarrow>
     (\<forall>m. \<exists>s. ecdsa_sign C sk m = Some s \<and> length s = 64 \<and> ecdsa_verify C pk s m = Some True)"

text \<open>Two ECDH P-256 key pairs agree on the shared bits.\<close>

definition ecdh_pair :: "webcrypto \<Rightarrow> bytes \<Rightarrow> bytes \<Rightarrow> bytes \<Rightarrow> bytes \<Rightarrow> bool" where
  "ecdh_pair C a A b B \<longleftrightarrow> ecdh_bits C a B \<noteq> None \<and> ecdh_bits C b A = ecdh_bits C a B"

lemma decrypt_encrypt [simp]:
  "aead_law C \<Longrightarrow> length iv = 12 \<Longrightarrow> decrypt C (encrypt C iv m k) k = Some m"
  by (simp add: decrypt_def encrypt_def aead_law_def)

subsection \<open>Hexadecimal and base64 lemmas\<close>

lemma hex_digit_facts:
  assumes "n < 16"
  shows "hex_value (hex_digit n) = Some n" "\<not> js_space (hex_digit n)"
    "hex_digit n \<noteq> CHR ''-''" "hex_digit n \<noteq> CHR ''+''" "js_lower_char (hex_digit n) \<noteq> CHR ''x''"
proof -
  have mem: "hex_digit n \<in> set hex_digits"
    unfolding hex_digit_def using assms by (intro nth_mem) (simp add: hex_digits_def)
  have low: "\<forall>c \<in> set hex_digits. js_lower_char c = c"
    by (simp add: hex_digits_def js_lower_char_def)
  have "index_of (hex_digits ! n) hex_digits = Some n"
    using assms by (intro index_of_nth) (simp_all add: hex_digits_def)
  then show "hex_value (hex_digit n) = Some n"
    using low mem by (simp add: hex_value_def hex_digit_def)
  have "\<forall>c \<in> set hex_digits. \<not> js_space c \<and> c \<noteq> CHR ''-'' \<and> c \<noteq> CHR ''+'' \<and> c \<noteq> CHR ''x''"
    by (simp add: hex_digits_def js_space_def)
  then show "\<not> js_space (hex_digit n)" "hex_digit n \<noteq> CHR ''-''" "hex_digit n \<noteq> CHR ''+''"
    "js_lower_char (hex_digit n) \<noteq> CHR ''x''"
    using mem low by auto
qed

lemma byte_hex_digits: "byte_hex b = [hex_digit (unat b div 16), hex_digit (unat b mod 16)]"
  by (auto simp: byte_hex_def Let_def hex_digit_def hex_digits_def)

lemma parse_byte_hex: "parse_int16 (byte_hex b) = Some (uint b)"
proof -
  have "unat b < 256"
    using unsigned_less [of b, where ?'a = nat] by simp
  then have lt: "unat b div 16 < 16" "unat b mod 16 < 16" by auto
  have "16 * int (unat b div 16) + int (unat b mod 16) = uint b"
    by (metis div_mult_mod_eq mult.commute of_nat_add of_nat_mult of_nat_numeral uint_nat)
  with hex_digit_facts [OF lt(1)] hex_digit_facts [OF lt(2)] show ?thesis
    by (simp add: parse_int16_def byte_hex_digits Let_def js_lower_def)
qed

lemma hex_pairs_bytes: "hex_pairs (concat (map byte_hex bs)) = bs"
proof (induction bs)
  case (Cons b bs)
  then show ?case
    using parse_byte_hex [of b] by (simp add: byte_hex_digits)
qed simp

lemma b64_char_facts:
  assumes "n < 64"
  shows "b64_value (b64_char n) = Some n" "b64_char n \<noteq> CHR ''=''"
    "b64_char n \<notin> set [CHR 0x09, CHR 0x0A, CHR 0x0C, CHR 0x0D, CHR 0x20]"
proof -
  have mem: "b64_char n \<in> set b64_alphabet"
    unfolding b64_char_def using assms by (intro nth_mem) (simp add: b64_alphabet_def)
  show "b64_value (b64_char n) = Some n"
    unfolding b64_value_def b64_char_def using assms
    by (intro index_of_nth) (simp_all add: b64_alphabet_def)
  have "\<forall>c \<in> set b64_alphabet. c \<noteq> CHR ''='' \<and>
      c \<notin> set [CHR 0x09, CHR 0x0A, CHR 0x0C, CHR 0x0D, CHR 0x20]"
    by (simp add: b64_alphabet_def)
  with mem show "b64_char n \<noteq> CHR ''=''"
    "b64_char n \<notin> set [CHR 0x09, CHR 0x0A, CHR 0x0C, CHR 0x0D, CHR 0x20]"
    by blast+
qed

lemma sextet_bounds:
  fixes x y z :: nat
  assumes "x < 256" "y < 256" "z < 256"
  shows "x div 4 < 64" "(x mod 4) * 16 + y div 16 < 64" "(y mod 16) * 4 + z div 64 < 64" "z mod 64 < 64"
    "(x mod 4) * 16 < 64" "(y mod 16) * 4 < 64"
proof -
  have "x mod 4 < 4" "y mod 16 < 16" "y div 16 < 16" "z div 64 < 4" "x div 4 < 64"
    using assms by auto
  then show "x div 4 < 64" "(x mod 4) * 16 + y div 16 < 64" "(y mod 16) * 4 + z div 64 < 64"
    "z mod 64 < 64" "(x mod 4) * 16 < 64" "(y mod 16) * 4 < 64"
    by auto
qed

lemma pack_div_mod:
  fixes a k m :: nat
  assumes "k < m"
  shows "(a * m + k) div m = a" "(a * m + k) mod m = k"
  using assms by auto

lemma sextet_bytes:
  fixes x y z :: nat
  assumes "x < 256" "y < 256" "z < 256"
  shows "(x div 4) * 4 + ((x mod 4) * 16 + y div 16) div 16 = x"
    "(((x mod 4) * 16 + y div 16) mod 16) * 16 + ((y mod 16) * 4 + z div 64) div 4 = y"
    "(((y mod 16) * 4 + z div 64) mod 4) * 64 + z mod 64 = z"
proof -
  have lt: "y div 16 < 16" "z div 64 < 4" using assms by auto
  show "(x div 4) * 4 + ((x mod 4) * 16 + y div 16) div 16 = x"
    "(((x mod 4) * 16 + y div 16) mod 16) * 16 + ((y mod 16) * 4 + z div 64) div 4 = y"
    "(((y mod 16) * 4 + z div 64) mod 4) * 64 + z mod 64 = z"
    unfolding pack_div_mod [OF lt(1)] pack_div_mod [OF lt(2)] by (simp_all only: div_mult_mod_eq)
qed

lemma sextet_pair:
  fixes x y :: nat
  assumes "y < 256"
  shows "(x div 4) * 4 + ((x mod 4) * 16) div 16 = x"
    "(((x mod 4) * 16 + y div 16) mod 16) * 16 + ((y mod 16) * 4) div 4 = y"
proof -
  have lt: "y div 16 < 16" using assms by auto
  show "(x div 4) * 4 + ((x mod 4) * 16) div 16 = x"
    by simp
  show "(((x mod 4) * 16 + y div 16) mod 16) * 16 + ((y mod 16) * 4) div 4 = y"
    unfolding pack_div_mod [OF lt] by simp
qed

definition pads :: "string list" where
  "pads = [[], ''='', ''=='']"

lemma btoa_groups_split:
  assumes "\<forall>x \<in> set xs. x < 256"
  shows "\<exists>vs pad. btoa_groups xs = map b64_char vs @ pad \<and> (\<forall>v \<in> set vs. v < 64) \<and>
     atob_groups vs = Some xs \<and> pad \<in> set pads \<and> (length vs + length pad) mod 4 = 0"
  using assms
proof (induction xs rule: btoa_groups.induct)
  case (1 x y z r)
  then obtain vs pad where ih: "btoa_groups r = map b64_char vs @ pad" "\<forall>v \<in> set vs. v < 64"
    "atob_groups vs = Some r" "pad \<in> set pads" "(length vs + length pad) mod 4 = 0"
    by auto
  have lt: "x < 256" "y < 256" "z < 256" using "1.prems" by auto
  let ?vs = "(x div 4) # ((x mod 4) * 16 + y div 16) # ((y mod 16) * 4 + z div 64) # (z mod 64) # vs"
  have "btoa_groups (x # y # z # r) = map b64_char ?vs @ pad"
    using ih by simp
  moreover have "\<forall>v \<in> set ?vs. v < 64"
    using ih sextet_bounds [OF lt] by simp
  moreover have "atob_groups ?vs = Some (x # y # z # r)"
    by (simp only: atob_groups.simps ih(3) option.map sextet_bytes [OF lt])
  moreover have "(length ?vs + length pad) mod 4 = 0"
    using ih(5) by simp
  ultimately show ?case using ih(4) by (intro exI [of _ ?vs] exI [of _ pad] conjI)
next
  case (2 x y)
  then have lt: "x < 256" "y < 256" "(0::nat) < 256" by auto
  let ?vs = "[x div 4, (x mod 4) * 16 + y div 16, (y mod 16) * 4]"
  have "btoa_groups [x, y] = map b64_char ?vs @ ''=''" "\<forall>v \<in> set ?vs. v < 64"
    "atob_groups ?vs = Some [x, y]"
    using sextet_bounds [OF lt] sextet_bytes(1) [OF lt] sextet_pair [OF lt(2)]
    by (simp_all del: mod_mult_self3 mod_mult_self4)
  then show ?case by (intro exI [of _ ?vs] exI [of _ "''=''"]) (auto simp: pads_def)
next
  case (3 x)
  then have lt: "x < 256" "(0::nat) < 256" "(0::nat) < 256" by auto
  let ?vs = "[x div 4, (x mod 4) * 16]"
  have "btoa_groups [x] = map b64_char ?vs @ ''==''" "\<forall>v \<in> set ?vs. v < 64"
    "atob_groups ?vs = Some [x]"
    using sextet_bounds [OF lt] sextet_pair(1) [OF lt(2), of x] by simp_all
  then show ?case by (intro exI [of _ ?vs] exI [of _ "''==''"]) (auto simp: pads_def)
next
  case 4
  show ?case by (intro exI [of _ "[]"]) (auto simp: pads_def)
qed

lemma map_b64_value:
  "\<forall>v \<in> set vs. v < 64 \<Longrightarrow> map b64_value (map b64_char vs) = map Some vs"
  by (induction vs) (auto simp: b64_char_facts(1))

lemma atob_strip_padded:
  assumes "\<forall>v \<in> set vs. v < 64" "pad \<in> set pads" "(length vs + length pad) mod 4 = 0"
  shows "atob_strip (map b64_char vs @ pad) = map b64_char vs"
proof -
  let ?ws = "[CHR 0x09, CHR 0x0A, CHR 0x0C, CHR 0x0D, CHR 0x20]"
  have clean: "filter (\<lambda>c. c \<notin> set ?ws) (map b64_char vs @ pad) = map b64_char vs @ pad"
    using assms(1,2) b64_char_facts(3) by (intro filter_True) (auto simp: pads_def)
  have no_eq: "\<not> suffix ''='' (map b64_char vs)" "\<not> suffix ''=='' (map b64_char vs)"
    using assms(1) b64_char_facts(2) by (fastforce dest: set_mono_suffix)+
  consider "pad = []" | "pad = ''=''" | "pad = ''==''"
    using assms(2) by (auto simp: pads_def)
  then show ?thesis
  proof cases
    case 1
    with clean no_eq assms(3) show ?thesis by (simp only: atob_strip_def Let_def) simp
  next
    case 2
    have "\<not> suffix ''=='' (map b64_char vs @ ''='')"
      using no_eq(1) suffix_appendD [of "''=''"]
      by (metis append_Cons append_Nil same_suffix_suffix)
    with clean assms(3) 2 show ?thesis by (simp only: atob_strip_def Let_def) simp
  next
    case 3
    with clean assms(3) show ?thesis by (simp only: atob_strip_def Let_def) (simp add: suffix_def)
  qed
qed

lemma atob_btoa_bytes:
  assumes "\<forall>x \<in> set xs. x < 256"
  shows "atob (btoa_groups xs) = Some (map char_of xs)"
proof -
  obtain vs pad where split: "btoa_groups xs = map b64_char vs @ pad" "\<forall>v \<in> set vs. v < 64"
    "atob_groups vs = Some xs" "pad \<in> set pads" "(length vs + length pad) mod 4 = 0"
    using btoa_groups_split [OF assms] by (elim exE conjE) (rule that)
  have "map b64_value (atob_strip (btoa_groups xs)) = map Some vs"
    unfolding split(1) atob_strip_padded [OF split(2,4,5)] by (rule map_b64_value [OF split(2)])
  then show ?thesis
    using split(3) by (simp add: atob_def comp_def image_iff)
qed

lemma unat_byte_mod [simp]: "unat (b :: byte) mod 256 = unat b"
  using unsigned_less [of b, where ?'a = nat] by simp

lemma byte_char_roundtrip: "of_nat (of_char (char_of (unat b) :: char)) = (b :: byte)"
proof -
  have "unat b < 256" using unsigned_less [of b, where ?'a = nat] by simp
  then show ?thesis by (simp add: of_char_of)
qed

subsection \<open>Properties\<close>

lemma fromBase64_toBase64: "fromBase64 (toBase64 bs) = Some bs"
proof -
  have "btoa (map (\<lambda>b. char_of (unat b)) bs) = btoa_groups (map unat bs)"
    using unsigned_less [where ?'a = nat and ?'b = 8]
    by (simp add: btoa_def comp_def of_char_of)
  moreover have "\<forall>x \<in> set (map unat bs). x < 256"
    using unsigned_less [where ?'a = nat and ?'b = 8] by auto
  ultimately show ?thesis
    by (simp add: fromBase64_def toBase64_def atob_btoa_bytes comp_def byte_char_roundtrip)
qed

text \<open>Base64 decoding undoes base64 encoding on every byte string: nothing the app sends
  or caches as base64 (wrapped keys, public keys, encrypted payloads) is altered on the way,
  and different bytes have different texts.\<close>

theorem base64_roundtrip:
  "fromBase64 (toBase64 bs) = Some bs \<and> (toBase64 bs = toBase64 cs \<longleftrightarrow> bs = cs)"
  by (metis fromBase64_toBase64 option.inject)

text \<open>Hexadecimal decoding undoes hexadecimal encoding on every byte string, and the text
  has two digits per byte.\<close>

theorem hex_roundtrip: "hexToBytes (bytesToHex bs) = bs \<and> length (bytesToHex bs) = 2 * length bs"
proof
  show "hexToBytes (bytesToHex bs) = bs"
    by (simp add: hexToBytes_def bytesToHex_def hex_pairs_bytes)
  show "length (bytesToHex bs) = 2 * length bs"
    by (induction bs) (simp_all add: bytesToHex_def byte_hex_digits)
qed

text \<open>A payload signed with a member's signing key is returned unchanged and marked verified
  when it is checked against that member's public key.\<close>

theorem signed_payload_verifies:
  assumes "signing_pair C sk pk"
  shows "\<exists>signed. signPayload C plaintext sk = Some signed \<and> verifyPayload C signed (Some pk) = (plaintext, True)"
proof -
  obtain s where "ecdsa_sign C sk plaintext = Some s" "length s = 64" "ecdsa_verify C pk s plaintext = Some True"
    using assms by (auto simp: signing_pair_def)
  then show ?thesis
    by (auto simp: signPayload_def verifyPayload_def SIGNED_VERSION_def)
qed

lemma verified_payload:
  assumes "verifyPayload C data pko = (plaintext, True)"
  shows "\<exists>pk signature. pko = Some pk \<and> data = SIGNED_VERSION # signature @ plaintext \<and>
    length signature = 64 \<and> ecdsa_verify C pk signature plaintext = Some True"
proof -
  have d: "data \<noteq> []" "hd data = SIGNED_VERSION" "65 \<le> length data"
    using assms by (auto simp: verifyPayload_def split: if_splits)
  then obtain rest where rest: "data = SIGNED_VERSION # rest" "64 \<le> length rest"
    by (cases data) auto
  with assms obtain pk where "pko = Some pk" "plaintext = drop 64 rest"
    "ecdsa_verify C pk (take 64 rest) (drop 64 rest) = Some True"
    by (auto simp: verifyPayload_def Let_def split: option.splits if_splits)
  with rest show ?thesis
    by (intro exI [of _ pk] exI [of _ "take 64 rest"]) simp
qed

text \<open>A payload is reported as verified only if it has the version byte, a public key was
  given, and the 64 bytes after the version byte are a signature of exactly the bytes returned.\<close>

theorem verified_only_with_signature:
  assumes "verifyPayload C data pko = (plaintext, True)"
  shows "\<exists>pk signature. pko = Some pk \<and> data = SIGNED_VERSION # signature @ plaintext \<and>
    length signature = 64 \<and> ecdsa_verify C pk signature plaintext = Some True"
  using assms by (rule verified_payload)

text \<open>The wrapped master key made at sign-up (32 random bytes, a 12-byte initialisation vector)
  unwraps under the same wrapping key to the same master key.\<close>

theorem master_key_unwraps:
  assumes "aead_law C" "length raw = 32" "length iv = 12"
  shows "\<exists>masterKey wrapped. generateMasterKey C raw iv wKey = Some (masterKey, wrapped) \<and>
    key_raw masterKey = raw \<and> unwrapMasterKey C wrapped wKey = Some masterKey"
  using assms
  by (simp add: generateMasterKey_def wrapKey_def export_aes_def import_aes_def unwrapMasterKey_def)

text \<open>A book key encrypted for a vault member decrypts, with the member's private key and the
  sender's public key, to the same book key.\<close>

theorem book_key_exchange:
  assumes "aead_law C" "ecdh_pair C senderPriv senderPub memberPriv memberPub" "length iv = 12"
  shows "\<exists>enc. encryptBookKeyForUser C iv senderPriv memberPub bookKey = Some enc \<and>
    decryptBookKeyFromUser C memberPriv senderPub enc = Some bookKey"
  using assms
  by (auto simp: encryptBookKeyForUser_def decryptBookKeyFromUser_def deriveSharedKey_def ecdh_pair_def)

subsection \<open>Witnesses\<close>

text \<open>A concrete instance of the platform: \<open>XOR\<close>-free toy primitives that satisfy the laws.\<close>

definition demo_crypto :: webcrypto where
  "demo_crypto = \<lparr>subtle_available = True,
     aes_gcm_encrypt = (\<lambda>k iv m. k @ m),
     aes_gcm_decrypt = (\<lambda>k iv c. if take (length k) c = k then Some (drop (length k) c) else None),
     ecdsa_sign = (\<lambda>sk m. Some (replicate 64 (hd sk))),
     ecdsa_verify = (\<lambda>pk s m. Some (s = replicate 64 (hd pk))),
     ecdh_bits = (\<lambda>a b. Some [hd a + hd b]),
     hkdf_sha256 = (\<lambda>b s i. concat (replicate 32 b)),
     digest_sha256 = (\<lambda>m. take 32 (m @ replicate 32 0)),
     argon2id_hex = (\<lambda>p s i m l n. concat (replicate (2 * n) ''a''))\<rparr>"

lemma demo_aead_law: "aead_law demo_crypto"
  by (simp add: aead_law_def demo_crypto_def)

lemma demo_signing_pair: "signing_pair demo_crypto [7] [7]"
  by (simp add: signing_pair_def demo_crypto_def)

lemma demo_ecdh_pair: "ecdh_pair demo_crypto [3] [3] [4] [4]"
  by (simp add: ecdh_pair_def demo_crypto_def)

theorem signed_payload_verifies_witness:
  "\<exists>signed. signPayload demo_crypto [1, 2, 3] [7] = Some signed \<and>
     verifyPayload demo_crypto signed (Some [7]) = ([1, 2, 3], True)"
  by (rule signed_payload_verifies [OF demo_signing_pair])

theorem verified_only_with_signature_witness:
  "\<exists>pk signature. Some [7] = Some pk \<and>
     SIGNED_VERSION # replicate 64 7 @ [9, 9] = SIGNED_VERSION # signature @ [9, 9] \<and>
     length signature = 64 \<and> ecdsa_verify demo_crypto pk signature [9, 9] = Some True"
  by (rule verified_only_with_signature)
    (simp add: verifyPayload_def SIGNED_VERSION_def demo_crypto_def)

theorem master_key_unwraps_witness:
  "\<exists>masterKey wrapped. generateMasterKey demo_crypto (replicate 32 5) (replicate 12 1) (AesKey (replicate 32 8) False)
      = Some (masterKey, wrapped) \<and> key_raw masterKey = replicate 32 5 \<and>
    unwrapMasterKey demo_crypto wrapped (AesKey (replicate 32 8) False) = Some masterKey"
  by (rule master_key_unwraps [OF demo_aead_law]) simp_all

theorem book_key_exchange_witness:
  "\<exists>enc. encryptBookKeyForUser demo_crypto (replicate 12 1) [3] [4] (replicate 32 5) = Some enc \<and>
    decryptBookKeyFromUser demo_crypto [4] [3] enc = Some (replicate 32 5)"
  by (rule book_key_exchange [OF demo_aead_law demo_ecdh_pair]) simp

end
