(* ===== verification/Idb.thy ===== *)
theory Idb
  imports Crypto
begin

text \<open>
  The IndexedDB object store \<^verbatim>\<open>docs\<close> that \<^verbatim>\<open>lib/automerge-store.ts\<close> and \<^verbatim>\<open>lib/blob-client.ts\<close>
  share, and the helpers both files define over it. A store is the list of its entries in key
  order (string keys compare by code units), so \<^verbatim>\<open>getAllKeys\<close> is the list of the keys. Each helper
  is one transaction; a transaction that fails changes nothing and rejects, which the callers'
  models take as an outcome.
\<close>

record pending_vault =
  pv_vaultId :: string
  pv_encryptedVaultKey :: string
  pv_senderPublicKey :: string

record blob_meta =
  bm_mimeType :: string
  bm_filename :: string
  bm_size :: nat

datatype idb_value =
    VBytes bytes
  | VTrue
  | VHeads "string list"
  | VSeq int
  | VPending pending_vault
  | VMeta blob_meta

type_synonym idb = "(string \<times> idb_value) list"

definition idb_get :: "idb \<Rightarrow> string \<Rightarrow> idb_value option" where
  "idb_get db key = map_of db key"

fun idb_put :: "string \<Rightarrow> idb_value \<Rightarrow> idb \<Rightarrow> idb" where
  "idb_put key v [] = [(key, v)]"
| "idb_put key v ((k, w) # r) =
     (if key = k then (key, v) # r
      else if key < k then (key, v) # (k, w) # r
      else (k, w) # idb_put key v r)"

definition idb_delete :: "string \<Rightarrow> idb \<Rightarrow> idb" where
  "idb_delete key db = filter (\<lambda>e. fst e \<noteq> key) db"

definition idb_getAllKeys :: "idb \<Rightarrow> string list" where
  "idb_getAllKeys db = map fst db"

definition idb_getAllKeysWithPrefix :: "idb \<Rightarrow> string \<Rightarrow> string list" where
  "idb_getAllKeysWithPrefix db p = filter (prefix p) (map fst db)"

definition idb_wf :: "idb \<Rightarrow> bool" where
  "idb_wf db \<longleftrightarrow> sorted_wrt (<) (map fst db)"

lemma idb_get_Nil [simp]: "idb_get [] k = None"
  by (simp add: idb_get_def)

lemma idb_put_keys: "set (map fst (idb_put key v db)) = insert key (set (map fst db))"
  by (induction key v db rule: idb_put.induct) auto

lemma idb_wf_Nil [simp]: "idb_wf []"
  by (simp add: idb_wf_def)

lemma idb_wf_distinct: "idb_wf db \<Longrightarrow> distinct (map fst db)"
  by (simp add: idb_wf_def strict_sorted_iff)

lemma idb_wf_put: "idb_wf db \<Longrightarrow> idb_wf (idb_put key v db)"
proof (induction key v db rule: idb_put.induct)
  case (2 key v k w r)
  then show ?case
    using idb_put_keys [of key v r] by (fastforce simp: idb_wf_def)
qed (simp add: idb_wf_def)

lemma idb_wf_delete: "idb_wf db \<Longrightarrow> idb_wf (idb_delete key db)"
  by (induction db) (auto simp: idb_wf_def idb_delete_def)

lemma idb_get_put [simp]: "idb_get (idb_put key v db) k = (if k = key then Some v else idb_get db k)"
  by (induction key v db rule: idb_put.induct) (auto simp: idb_get_def)

lemma idb_get_delete [simp]: "idb_get (idb_delete key db) k = (if k = key then None else idb_get db k)"
  by (induction db) (auto simp: idb_get_def idb_delete_def)

lemma idb_keys_get: "k \<in> set (map fst db) \<longleftrightarrow> idb_get db k \<noteq> None"
  by (simp add: idb_get_def map_of_eq_None_iff del: not_None_eq)

interpretation idb: kv_store idb_get idb_put idb_delete idb_getAllKeys idb_wf
  by unfold_locales
    (simp_all add: idb_getAllKeys_def idb_keys_get idb_wf_distinct idb_wf_put idb_wf_delete
      del: set_map not_None_eq)

text \<open>The keys the two modules use.\<close>

definition doc_key :: "string \<Rightarrow> string" where
  "doc_key x = ''doc:'' @ x"

definition dirty_key :: "string \<Rightarrow> string" where
  "dirty_key x = ''dirty:'' @ x"

definition heads_key :: "string \<Rightarrow> string" where
  "heads_key x = ''pushHeads:'' @ x"

definition seq_key :: "string \<Rightarrow> string" where
  "seq_key x = ''seq:'' @ x"

definition pending_key :: "string \<Rightarrow> string" where
  "pending_key x = ''pendingVault:'' @ x"

definition blob_key :: "string \<Rightarrow> string" where
  "blob_key x = ''blob:'' @ x"

definition blobMeta_key :: "string \<Rightarrow> string" where
  "blobMeta_key x = ''blobMeta:'' @ x"

definition blobDirty_key :: "string \<Rightarrow> string" where
  "blobDirty_key x = ''blobDirty:'' @ x"

definition LOCAL_CACHE_KEY :: string where
  "LOCAL_CACHE_KEY = ''localCache''"

lemmas key_defs = doc_key_def dirty_key_def heads_key_def seq_key_def pending_key_def blob_key_def blobMeta_key_def blobDirty_key_def LOCAL_CACHE_KEY_def

lemma key_inject [simp]:
  "doc_key a = doc_key b \<longleftrightarrow> a = b"
  "dirty_key a = dirty_key b \<longleftrightarrow> a = b"
  "heads_key a = heads_key b \<longleftrightarrow> a = b"
  "seq_key a = seq_key b \<longleftrightarrow> a = b"
  "pending_key a = pending_key b \<longleftrightarrow> a = b"
  "blob_key a = blob_key b \<longleftrightarrow> a = b"
  "blobMeta_key a = blobMeta_key b \<longleftrightarrow> a = b"
  "blobDirty_key a = blobDirty_key b \<longleftrightarrow> a = b"
  by (simp_all add: key_defs)

lemma key_neq [simp]:
  "doc_key a \<noteq> dirty_key b" "doc_key a \<noteq> heads_key b" "doc_key a \<noteq> seq_key b"
  "doc_key a \<noteq> pending_key b" "doc_key a \<noteq> blob_key b" "doc_key a \<noteq> blobMeta_key b"
  "doc_key a \<noteq> blobDirty_key b" "dirty_key a \<noteq> doc_key b" "dirty_key a \<noteq> heads_key b"
  "dirty_key a \<noteq> seq_key b" "dirty_key a \<noteq> pending_key b" "dirty_key a \<noteq> blob_key b"
  "dirty_key a \<noteq> blobMeta_key b" "dirty_key a \<noteq> blobDirty_key b" "heads_key a \<noteq> doc_key b"
  "heads_key a \<noteq> dirty_key b" "heads_key a \<noteq> seq_key b" "heads_key a \<noteq> pending_key b"
  "heads_key a \<noteq> blob_key b" "heads_key a \<noteq> blobMeta_key b" "heads_key a \<noteq> blobDirty_key b"
  "seq_key a \<noteq> doc_key b" "seq_key a \<noteq> dirty_key b" "seq_key a \<noteq> heads_key b"
  "seq_key a \<noteq> pending_key b" "seq_key a \<noteq> blob_key b" "seq_key a \<noteq> blobMeta_key b"
  "seq_key a \<noteq> blobDirty_key b" "pending_key a \<noteq> doc_key b" "pending_key a \<noteq> dirty_key b"
  "pending_key a \<noteq> heads_key b" "pending_key a \<noteq> seq_key b" "pending_key a \<noteq> blob_key b"
  "pending_key a \<noteq> blobMeta_key b" "pending_key a \<noteq> blobDirty_key b" "blob_key a \<noteq> doc_key b"
  "blob_key a \<noteq> dirty_key b" "blob_key a \<noteq> heads_key b" "blob_key a \<noteq> seq_key b"
  "blob_key a \<noteq> pending_key b" "blob_key a \<noteq> blobMeta_key b" "blob_key a \<noteq> blobDirty_key b"
  "blobMeta_key a \<noteq> doc_key b" "blobMeta_key a \<noteq> dirty_key b" "blobMeta_key a \<noteq> heads_key b"
  "blobMeta_key a \<noteq> seq_key b" "blobMeta_key a \<noteq> pending_key b" "blobMeta_key a \<noteq> blob_key b"
  "blobMeta_key a \<noteq> blobDirty_key b" "blobDirty_key a \<noteq> doc_key b" "blobDirty_key a \<noteq> dirty_key b"
  "blobDirty_key a \<noteq> heads_key b" "blobDirty_key a \<noteq> seq_key b" "blobDirty_key a \<noteq> pending_key b"
  "blobDirty_key a \<noteq> blob_key b" "blobDirty_key a \<noteq> blobMeta_key b" "doc_key a \<noteq> LOCAL_CACHE_KEY"
  "LOCAL_CACHE_KEY \<noteq> doc_key a" "dirty_key a \<noteq> LOCAL_CACHE_KEY" "LOCAL_CACHE_KEY \<noteq> dirty_key a"
  "heads_key a \<noteq> LOCAL_CACHE_KEY" "LOCAL_CACHE_KEY \<noteq> heads_key a" "seq_key a \<noteq> LOCAL_CACHE_KEY"
  "LOCAL_CACHE_KEY \<noteq> seq_key a" "pending_key a \<noteq> LOCAL_CACHE_KEY" "LOCAL_CACHE_KEY \<noteq> pending_key a"
  "blob_key a \<noteq> LOCAL_CACHE_KEY" "LOCAL_CACHE_KEY \<noteq> blob_key a" "blobMeta_key a \<noteq> LOCAL_CACHE_KEY"
  "LOCAL_CACHE_KEY \<noteq> blobMeta_key a" "blobDirty_key a \<noteq> LOCAL_CACHE_KEY" "LOCAL_CACHE_KEY \<noteq> blobDirty_key a"
  by (simp_all add: key_defs)

text \<open>The vault part of a document id: \<^verbatim>\<open>docId.slice(0, docId.indexOf("/"))\<close> when the slash is not the
  first character, the idiom of the push queue and the sync client.\<close>

definition vault_of :: "string \<Rightarrow> string option" where
  "vault_of docId =
     (case index_of (CHR ''/'') docId of
        None \<Rightarrow> None
      | Some i \<Rightarrow> if 0 < i then Some (take i docId) else None)"

lemma vault_of_slash: "v \<noteq> [] \<Longrightarrow> CHR ''/'' \<notin> set v \<Longrightarrow> vault_of (v @ CHR ''/'' # r) = Some v"
  by (simp add: vault_of_def index_of_append)

lemma vault_of_Some:
  assumes "vault_of d = Some v"
  shows "v \<noteq> []" "CHR ''/'' \<notin> set v" "\<exists>r. d = v @ CHR ''/'' # r"
proof -
  from assms obtain i where i: "index_of (CHR ''/'') d = Some i" "0 < i" "v = take i d"
    by (auto simp: vault_of_def split: option.splits if_splits)
  with index_of_Some_nth [OF i(1)] index_of_Some_split [OF i(1)]
  show "v \<noteq> []" "CHR ''/'' \<notin> set v" "\<exists>r. d = v @ CHR ''/'' # r"
    by auto
qed

end
