(* ===== verification/Doc_Store.thy ===== *)
theory Doc_Store
  imports Idb
begin

text \<open>
  The document store \<^verbatim>\<open>lib/automerge-store.ts\<close>: one Automerge document kept in memory and persisted,
  encrypted, in IndexedDB, with its dirty flag, last sequence number and pushed heads.

  Automerge is a package outside \<^verbatim>\<open>src/\<close>: its functions are the fields of the record \<open>automerge\<close>, an
  argument of the definitions that call them. The promise chain \<^verbatim>\<open>pendingWrite\<close> is the list of the
  writes it still has to run; \<open>run_write\<close> runs the first one, which saves the document as it is at
  that moment, and takes the outcome of its transaction (the initialisation vector it drew and
  whether it committed). An initialisation function is the change it makes.
\<close>

record 'd automerge =
  am_init :: 'd
  am_load :: "bytes \<Rightarrow> 'd option"
  am_save :: "'d \<Rightarrow> bytes"
  am_merge :: "'d \<Rightarrow> 'd \<Rightarrow> 'd"
  am_applyChanges :: "'d \<Rightarrow> bytes list \<Rightarrow> 'd option"
  am_change :: "'d \<Rightarrow> ('d \<Rightarrow> 'd) \<Rightarrow> 'd"
  am_getAllChanges :: "'d \<Rightarrow> bytes list"
  am_getHeads :: "'d \<Rightarrow> string list"

text \<open>A saved document loads as the same document.\<close>

definition save_load_law :: "'d automerge \<Rightarrow> bool" where
  "save_load_law A \<longleftrightarrow> (\<forall>d. am_load A (am_save A d) = Some d)"

datatype write_task = Persist | PersistAndMarkDirty

record 'd store =
  st_doc :: 'd
  st_docId :: string
  st_encKey :: crypto_key
  st_initFn :: "('d \<Rightarrow> 'd) option"
  st_pendingWrite :: "write_task list"
  st_writesDone :: nat
  st_listeners :: "nat list"
  st_notified :: "(nat \<times> 'd) list"

datatype store_error = WrongPassphrase | BadChange | DbError

text \<open>The outcome of a transaction that writes an encrypted document.\<close>

datatype outcome = Committed bytes | Failed

subsection \<open>Persistence\<close>

definition persist :: "'d automerge \<Rightarrow> webcrypto \<Rightarrow> bytes \<Rightarrow> 'd store \<Rightarrow> idb \<Rightarrow> idb" where
  "persist A C iv s db =
     idb_put (doc_key (st_docId s)) (VBytes (encrypt C iv (am_save A (st_doc s)) (st_encKey s))) db"

definition persistAndMarkDirty :: "'d automerge \<Rightarrow> webcrypto \<Rightarrow> bytes \<Rightarrow> 'd store \<Rightarrow> idb \<Rightarrow> idb" where
  "persistAndMarkDirty A C iv s db =
     idb_put (dirty_key (st_docId s)) VTrue
       (idb_put (doc_key (st_docId s)) (VBytes (encrypt C iv (am_save A (st_doc s)) (st_encKey s))) db)"

definition enqueuePersist :: "'d store \<Rightarrow> 'd store" where
  "enqueuePersist s = s\<lparr>st_pendingWrite := st_pendingWrite s @ [Persist]\<rparr>"

definition enqueuePersistAndMarkDirty :: "'d store \<Rightarrow> 'd store" where
  "enqueuePersistAndMarkDirty s = s\<lparr>st_pendingWrite := st_pendingWrite s @ [PersistAndMarkDirty]\<rparr>"

fun run_task :: "'d automerge \<Rightarrow> webcrypto \<Rightarrow> outcome \<Rightarrow> write_task \<Rightarrow> 'd store \<Rightarrow> idb \<Rightarrow> idb" where
  "run_task A C Failed t s db = db"
| "run_task A C (Committed iv) Persist s db = persist A C iv s db"
| "run_task A C (Committed iv) PersistAndMarkDirty s db = persistAndMarkDirty A C iv s db"

definition run_write :: "'d automerge \<Rightarrow> webcrypto \<Rightarrow> outcome \<Rightarrow> 'd store \<times> idb \<Rightarrow> 'd store \<times> idb" where
  "run_write A C out p =
     (case p of (s, db) \<Rightarrow>
       (case st_pendingWrite s of
          [] \<Rightarrow> (s, db)
        | t # ts \<Rightarrow> (s\<lparr>st_pendingWrite := ts, st_writesDone := Suc (st_writesDone s)\<rparr>, run_task A C out t s db)))"

definition run_writes :: "'d automerge \<Rightarrow> webcrypto \<Rightarrow> outcome list \<Rightarrow> 'd store \<times> idb \<Rightarrow> 'd store \<times> idb" where
  "run_writes A C outs p = foldl (\<lambda>q out. run_write A C out q) p outs"

text \<open>\<^verbatim>\<open>waitForWrite\<close> resolves once the writes pending at the call have run.\<close>

definition waitForWrite_target :: "'d store \<Rightarrow> nat" where
  "waitForWrite_target s = st_writesDone s + length (st_pendingWrite s)"

subsection \<open>Flags beside the document\<close>

definition markDirty_db :: "string \<Rightarrow> idb \<Rightarrow> idb" where
  "markDirty_db docId db = idb_put (dirty_key docId) VTrue db"

definition clearDirty_db :: "string \<Rightarrow> idb \<Rightarrow> idb" where
  "clearDirty_db docId db = idb_delete (heads_key docId) (idb_delete (dirty_key docId) db)"

definition isDirty_db :: "string \<Rightarrow> idb \<Rightarrow> bool" where
  "isDirty_db docId db \<longleftrightarrow> idb_get db (dirty_key docId) = Some VTrue"

definition setPushHeads_db :: "string \<Rightarrow> string list \<Rightarrow> idb \<Rightarrow> idb" where
  "setPushHeads_db docId heads db = idb_put (heads_key docId) (VHeads heads) db"

definition getPushHeads_db :: "string \<Rightarrow> idb \<Rightarrow> string list option" where
  "getPushHeads_db docId db =
     (case idb_get db (heads_key docId) of Some (VHeads h) \<Rightarrow> Some h | _ \<Rightarrow> None)"

definition clearPushHeads_db :: "string \<Rightarrow> idb \<Rightarrow> idb" where
  "clearPushHeads_db docId db = idb_delete (heads_key docId) db"

definition getLastSeq_db :: "string \<Rightarrow> idb \<Rightarrow> int" where
  "getLastSeq_db docId db = (case idb_get db (seq_key docId) of Some (VSeq n) \<Rightarrow> n | _ \<Rightarrow> 0)"

definition setLastSeq_db :: "string \<Rightarrow> int \<Rightarrow> idb \<Rightarrow> idb" where
  "setLastSeq_db docId seq db = idb_put (seq_key docId) (VSeq seq) db"

text \<open>The functions that work without an open store.\<close>

definition clearDirtyFlag :: "string \<Rightarrow> idb \<Rightarrow> idb" where
  "clearDirtyFlag docId db = idb_delete (heads_key docId) (idb_delete (dirty_key docId) db)"

definition setSeqFlag :: "string \<Rightarrow> int \<Rightarrow> idb \<Rightarrow> idb" where
  "setSeqFlag docId seq db = idb_put (seq_key docId) (VSeq seq) db"

definition getAllDirtyDocIds :: "idb \<Rightarrow> string list" where
  "getAllDirtyDocIds db = map (drop 6) (filter (prefix ''dirty:'') (idb_getAllKeys db))"

definition setPendingVault :: "pending_vault \<Rightarrow> idb \<Rightarrow> idb" where
  "setPendingVault pv db = idb_put (pending_key (pv_vaultId pv)) (VPending pv) db"

definition clearPendingVault_db :: "string \<Rightarrow> idb \<Rightarrow> idb" where
  "clearPendingVault_db vaultId db = idb_delete (pending_key vaultId) db"

definition getAllPendingVaults :: "idb \<Rightarrow> pending_vault list" where
  "getAllPendingVaults db =
     List.map_filter (\<lambda>k. case idb_get db k of Some (VPending pv) \<Rightarrow> Some pv | _ \<Rightarrow> None)
       (filter (prefix ''pendingVault:'') (idb_getAllKeys db))"

subsection \<open>The operations of a store\<close>

definition notify :: "'d store \<Rightarrow> 'd store" where
  "notify s = s\<lparr>st_notified := st_notified s @ map (\<lambda>l. (l, st_doc s)) (st_listeners s)\<rparr>"

definition new_store :: "'d \<Rightarrow> string \<Rightarrow> crypto_key \<Rightarrow> ('d \<Rightarrow> 'd) option \<Rightarrow> 'd store" where
  "new_store doc docId encKey initFn =
     \<lparr>st_doc = doc, st_docId = docId, st_encKey = encKey, st_initFn = initFn, st_pendingWrite = [],
      st_writesDone = 0, st_listeners = [], st_notified = []\<rparr>"

definition store_open ::
  "'d automerge \<Rightarrow> webcrypto \<Rightarrow> outcome \<Rightarrow> idb \<Rightarrow> string \<Rightarrow> crypto_key \<Rightarrow> ('d \<Rightarrow> 'd)
     \<Rightarrow> store_error + 'd store \<times> idb" where
  "store_open A C out db docId encKey initFn =
     (let loaded =
        (case idb_get db (doc_key docId) of
           None \<Rightarrow> Inr (new_store (am_init A) docId encKey (Some initFn))
         | Some (VBytes saved) \<Rightarrow>
             (case decrypt C saved encKey of
                None \<Rightarrow> Inl WrongPassphrase
              | Some plaintext \<Rightarrow>
                  (case am_load A plaintext of
                     None \<Rightarrow> Inl WrongPassphrase
                   | Some doc \<Rightarrow> Inr (new_store doc docId encKey None)))
         | Some _ \<Rightarrow> Inl WrongPassphrase)
      in case loaded of
           Inl e \<Rightarrow> Inl e
         | Inr s \<Rightarrow> (case out of Failed \<Rightarrow> Inl DbError | Committed iv \<Rightarrow> Inr (s, persist A C iv s db)))"

definition ensureInitialized :: "'d automerge \<Rightarrow> 'd store \<Rightarrow> bool \<times> 'd store" where
  "ensureInitialized A s =
     (case st_initFn s of
        None \<Rightarrow> (False, s)
      | Some f \<Rightarrow>
          if am_getAllChanges A (st_doc s) \<noteq> [] then (False, s\<lparr>st_initFn := None\<rparr>)
          else (True, notify (enqueuePersistAndMarkDirty
                  (s\<lparr>st_doc := am_change A (st_doc s) f, st_initFn := None\<rparr>))))"

definition store_change :: "'d automerge \<Rightarrow> ('d \<Rightarrow> 'd) \<Rightarrow> 'd store \<Rightarrow> 'd store" where
  "store_change A f s =
     notify (enqueuePersistAndMarkDirty (s\<lparr>st_doc := am_change A (st_doc s) f\<rparr>))"

definition applyChange :: "'d automerge \<Rightarrow> bytes \<Rightarrow> 'd store \<Rightarrow> store_error + 'd store" where
  "applyChange A c s =
     (case am_applyChanges A (st_doc s) [c] of
        None \<Rightarrow> Inl BadChange
      | Some d \<Rightarrow> Inr (notify (enqueuePersist (s\<lparr>st_doc := d\<rparr>))))"

definition applyChanges :: "'d automerge \<Rightarrow> bytes list \<Rightarrow> 'd store \<Rightarrow> store_error + 'd store" where
  "applyChanges A cs s =
     (if cs = [] then Inr s
      else case am_applyChanges A (st_doc s) cs of
             None \<Rightarrow> Inl BadChange
           | Some d \<Rightarrow> Inr (notify (enqueuePersist (s\<lparr>st_doc := d\<rparr>))))"

definition store_merge :: "'d automerge \<Rightarrow> bytes \<Rightarrow> 'd store \<Rightarrow> store_error + 'd store" where
  "store_merge A otherDoc s =
     (case am_load A otherDoc of
        None \<Rightarrow> Inl BadChange
      | Some other \<Rightarrow> Inr (notify (enqueuePersist (s\<lparr>st_doc := am_merge A (st_doc s) other\<rparr>))))"

definition store_clear :: "'d automerge \<Rightarrow> webcrypto \<Rightarrow> bytes \<Rightarrow> ('d \<Rightarrow> 'd) \<Rightarrow> 'd store \<times> idb \<Rightarrow> 'd store \<times> idb" where
  "store_clear A C iv f p =
     (case p of (s, db) \<Rightarrow>
       let s1 = s\<lparr>st_doc := am_change A (am_init A) f\<rparr>;
           db1 = setLastSeq_db (st_docId s) 0 db;
           db2 = clearDirty_db (st_docId s) db1;
           db3 = persist A C iv s1 db2
       in (notify s1, db3))"

definition onChange :: "nat \<Rightarrow> 'd store \<Rightarrow> 'd store" where
  "onChange l s = s\<lparr>st_listeners := set_add l (st_listeners s)\<rparr>"

definition offChange :: "nat \<Rightarrow> 'd store \<Rightarrow> 'd store" where
  "offChange l s = s\<lparr>st_listeners := set_delete l (st_listeners s)\<rparr>"

subsection \<open>Persist-failure toasts\<close>

text \<open>\<^verbatim>\<open>notifyPersistError\<close>: the time of the last toast, the current time; whether a toast is shown.\<close>

definition notifyPersistError :: "int \<Rightarrow> int \<Rightarrow> int \<times> bool" where
  "notifyPersistError lastToast now =
     (if now - lastToast < 10000 then (lastToast, False) else (now, True))"

subsection \<open>Key rotation and the offline cache\<close>

definition openStoreDB_name :: "string \<Rightarrow> string" where
  "openStoreDB_name userId = ''e2ee-'' @ take 16 userId"

definition saveLocalCache :: "webcrypto \<Rightarrow> bytes \<Rightarrow> ('c \<Rightarrow> bytes) \<Rightarrow> crypto_key \<Rightarrow> 'c \<Rightarrow> idb \<Rightarrow> idb" where
  "saveLocalCache C iv stringify masterKey cache db =
     idb_put LOCAL_CACHE_KEY (VBytes (encrypt C iv (stringify cache) masterKey)) db"

definition loadLocalCache :: "webcrypto \<Rightarrow> (bytes \<Rightarrow> 'c option) \<Rightarrow> crypto_key \<Rightarrow> idb \<Rightarrow> 'c option" where
  "loadLocalCache C parse masterKey db =
     (case idb_get db LOCAL_CACHE_KEY of
        Some (VBytes encrypted) \<Rightarrow> Option.bind (decrypt C encrypted masterKey) parse
      | _ \<Rightarrow> None)"

definition clearLocalCache :: "idb \<Rightarrow> idb" where
  "clearLocalCache db = idb_delete LOCAL_CACHE_KEY db"

text \<open>The loop of \<^verbatim>\<open>reEncryptAllDocs\<close>: each document is rewritten in its own transaction, and the first
  one that does not decrypt under the old key ends the loop with an error.\<close>

fun reEncrypt_loop :: "webcrypto \<Rightarrow> crypto_key \<Rightarrow> crypto_key \<Rightarrow> (string \<Rightarrow> bytes) \<Rightarrow> string list \<Rightarrow> idb \<Rightarrow> bool \<times> idb" where
  "reEncrypt_loop C oldKey newKey iv [] db = (True, db)"
| "reEncrypt_loop C oldKey newKey iv (key # keys) db =
     (case idb_get db key of
        Some (VBytes encrypted) \<Rightarrow>
          (case decrypt C encrypted oldKey of
             None \<Rightarrow> (False, db)
           | Some plaintext \<Rightarrow>
               reEncrypt_loop C oldKey newKey iv keys
                 (idb_put key (VBytes (encrypt C (iv key) plaintext newKey)) db))
      | Some _ \<Rightarrow> (False, db)
      | None \<Rightarrow> reEncrypt_loop C oldKey newKey iv keys db)"

definition reEncryptAllDocs :: "webcrypto \<Rightarrow> crypto_key \<Rightarrow> crypto_key \<Rightarrow> (string \<Rightarrow> bytes) \<Rightarrow> idb \<Rightarrow> bool \<times> idb" where
  "reEncryptAllDocs C oldKey newKey iv db =
     (let docKeys = filter (prefix ''doc:'') (idb_getAllKeys db);
          (ok, db1) = reEncrypt_loop C oldKey newKey iv docKeys db
      in if \<not> ok then (False, db1)
         else case idb_get db1 LOCAL_CACHE_KEY of
                Some (VBytes cacheEncrypted) \<Rightarrow>
                  (case decrypt C cacheEncrypted oldKey of
                     None \<Rightarrow> (True, db1)
                   | Some plaintext \<Rightarrow>
                       (True, idb_put LOCAL_CACHE_KEY
                                (VBytes (encrypt C (iv LOCAL_CACHE_KEY) plaintext newKey)) db1))
              | _ \<Rightarrow> (True, db1))"

subsection \<open>Lemmas\<close>

lemma prefix_dirty_key: "prefix ''dirty:'' k \<longleftrightarrow> (\<exists>d. k = dirty_key d)"
  by (auto simp: prefix_def dirty_key_def)

lemma drop_dirty_key [simp]: "drop 6 (dirty_key d) = d"
  by (simp add: dirty_key_def)

lemma set_getAllDirtyDocIds: "d \<in> set (getAllDirtyDocIds db) \<longleftrightarrow> idb_get db (dirty_key d) \<noteq> None"
proof -
  have "d \<in> set (getAllDirtyDocIds db) \<longleftrightarrow> (\<exists>k \<in> set (map fst db). \<exists>e. k = dirty_key e \<and> d = e)"
    by (force simp: getAllDirtyDocIds_def idb_getAllKeys_def prefix_dirty_key drop_dirty_key)
  also have "\<dots> \<longleftrightarrow> dirty_key d \<in> set (map fst db)"
    by blast
  finally show ?thesis
    by (simp only: idb_keys_get)
qed

lemma run_write_frame [frame_simps]:
  "st_doc (fst (run_write A C out p)) = st_doc (fst p)"
  "st_docId (fst (run_write A C out p)) = st_docId (fst p)"
  "st_encKey (fst (run_write A C out p)) = st_encKey (fst p)"
  "st_pendingWrite (fst (run_write A C out p)) = tl (st_pendingWrite (fst p))"
  by (auto simp: run_write_def split: prod.splits list.splits)

lemma run_writes_frame [frame_simps]:
  "st_doc (fst (run_writes A C outs p)) = st_doc (fst p)"
  "st_docId (fst (run_writes A C outs p)) = st_docId (fst p)"
  "st_encKey (fst (run_writes A C outs p)) = st_encKey (fst p)"
  "st_pendingWrite (fst (run_writes A C outs p)) = drop (length outs) (st_pendingWrite (fst p))"
  by (induction outs arbitrary: p) (simp_all add: run_writes_def frame_simps drop_Suc drop_tl)

lemma run_writes_Nil [simp]: "run_writes A C [] p = p"
  by (simp add: run_writes_def)

lemma run_writes_snoc: "run_writes A C (outs @ [out]) p = run_write A C out (run_writes A C outs p)"
  by (simp add: run_writes_def)

lemma run_writes_Cons: "run_writes A C (out # outs) p = run_writes A C outs (run_write A C out p)"
  by (simp add: run_writes_def)

text \<open>The write that runs last decides what is stored: the document as it is at that time.\<close>

lemma run_writes_last:
  assumes "st_pendingWrite (fst p) = ts @ [t]" "length outs = length ts"
  shows "snd (run_writes A C (outs @ [out]) p) =
    run_task A C out t (fst (run_writes A C outs p)) (snd (run_writes A C outs p))"
proof -
  have "st_pendingWrite (fst (run_writes A C outs p)) = [t]"
    using assms by (simp add: frame_simps)
  then show ?thesis
    by (cases "run_writes A C outs p") (simp add: run_writes_snoc run_write_def)
qed

lemma run_task_stores_doc:
  assumes "aead_law C" "length iv = 12"
  shows "\<exists>b. idb_get (run_task A C (Committed iv) t s db) (doc_key (st_docId s)) = Some (VBytes b) \<and>
    decrypt C b (st_encKey s) = Some (am_save A (st_doc s))"
  using assms by (cases t) (auto simp: persist_def persistAndMarkDirty_def)

lemma store_open_saved:
  assumes "save_load_law A"
    and "idb_get db (doc_key docId) = Some (VBytes b)" "decrypt C b key = Some (am_save A d)"
  shows "store_open A C (Committed iv) db docId key f =
    Inr (new_store d docId key None, persist A C iv (new_store d docId key None) db)"
  using assms by (simp add: store_open_def save_load_law_def)

lemma persist_dirty [simp]:
  "idb_get (persist A C iv s db) (dirty_key d) = idb_get db (dirty_key d)"
  "idb_get (persistAndMarkDirty A C iv s db) (dirty_key d) =
     (if d = st_docId s then Some VTrue else idb_get db (dirty_key d))"
  by (simp_all add: persist_def persistAndMarkDirty_def)

lemma run_task_dirty:
  "idb_get (run_task A C out t s db) (dirty_key d) =
     (if t = PersistAndMarkDirty \<and> (\<exists>iv. out = Committed iv) \<and> d = st_docId s then Some VTrue
      else idb_get db (dirty_key d))"
  by (cases out; cases t) auto

lemma run_writes_dirty_persist_only:
  assumes "set (st_pendingWrite (fst p)) \<subseteq> {Persist}"
  shows "idb_get (snd (run_writes A C outs p)) (dirty_key d) = idb_get (snd p) (dirty_key d)"
  using assms
proof (induction outs arbitrary: p)
  case (Cons out outs)
  have "set (tl (st_pendingWrite (fst p))) \<subseteq> {Persist}"
    using Cons.prems by (cases "st_pendingWrite (fst p)") auto
  then have "idb_get (snd (run_writes A C outs (run_write A C out p))) (dirty_key d) =
      idb_get (snd (run_write A C out p)) (dirty_key d)"
    by (intro Cons.IH) (simp add: frame_simps)
  moreover have "idb_get (snd (run_write A C out p)) (dirty_key d) = idb_get (snd p) (dirty_key d)"
    using Cons.prems by (auto simp: run_write_def run_task_dirty split: prod.splits list.splits)
  ultimately show ?case by (simp add: run_writes_Cons)
qed simp

lemma enqueue_fields [simp]:
  "st_pendingWrite (enqueuePersist s) = st_pendingWrite s @ [Persist]"
  "st_pendingWrite (enqueuePersistAndMarkDirty s) = st_pendingWrite s @ [PersistAndMarkDirty]"
  "st_doc (enqueuePersist s) = st_doc s" "st_doc (enqueuePersistAndMarkDirty s) = st_doc s"
  "st_docId (enqueuePersist s) = st_docId s" "st_docId (enqueuePersistAndMarkDirty s) = st_docId s"
  "st_encKey (enqueuePersist s) = st_encKey s" "st_encKey (enqueuePersistAndMarkDirty s) = st_encKey s"
  "st_initFn (enqueuePersist s) = st_initFn s" "st_initFn (enqueuePersistAndMarkDirty s) = st_initFn s"
  by (simp_all add: enqueuePersist_def enqueuePersistAndMarkDirty_def)

lemma notify_fields [simp]:
  "st_pendingWrite (notify s) = st_pendingWrite s" "st_doc (notify s) = st_doc s"
  "st_docId (notify s) = st_docId s" "st_encKey (notify s) = st_encKey s" "st_initFn (notify s) = st_initFn s"
  by (simp_all add: notify_def)

lemma store_change_fields [simp]:
  "st_pendingWrite (store_change A f s) = st_pendingWrite s @ [PersistAndMarkDirty]"
  "st_doc (store_change A f s) = am_change A (st_doc s) f"
  "st_docId (store_change A f s) = st_docId s" "st_encKey (store_change A f s) = st_encKey s"
  by (simp_all add: store_change_def)

subsection \<open>Properties\<close>

text \<open>Durability. When the last pending write of a store commits, a later \<^verbatim>\<open>open\<close> of the
  document under the same key returns the document as it was in memory (whatever the earlier
  writes did), and does not treat it as a new document.\<close>

theorem drained_store_reopens:
  assumes "save_load_law A" "aead_law C"
    and "length outs + 1 = length (st_pendingWrite s)" "length iv = 12"
    and "run_writes A C (outs @ [Committed iv]) (s, db) = (s', db')"
  shows "\<exists>r db''. store_open A C (Committed iv') db' (st_docId s) (st_encKey s) f = Inr (r, db'') \<and>
    st_doc r = st_doc s \<and> st_initFn r = None"
proof -
  from assms(3) obtain ts t where ts: "st_pendingWrite s = ts @ [t]" "length outs = length ts"
    by (cases "st_pendingWrite s" rule: rev_cases) auto
  let ?p = "run_writes A C outs (s, db)"
  have "db' = run_task A C (Committed iv) t (fst ?p) (snd ?p)"
    using run_writes_last [of "(s, db)" ts t outs A C "Committed iv"] ts assms(5) by simp
  then obtain b where "idb_get db' (doc_key (st_docId s)) = Some (VBytes b)"
    "decrypt C b (st_encKey s) = Some (am_save A (st_doc s))"
    using run_task_stores_doc [OF assms(2,4), of A t "fst ?p" "snd ?p"] by (auto simp: frame_simps)
  from store_open_saved [OF assms(1) this] show ?thesis
    by (simp add: new_store_def)
qed

text \<open>C9: a local change is found again after a restart. Once the write of a change has
  committed, the scan of IndexedDB that the push queue starts from lists the document.\<close>

theorem change_is_rediscovered:
  assumes "length outs = length (st_pendingWrite s)"
    and "run_writes A C (outs @ [Committed iv]) (store_change A f s, db) = (s', db')"
  shows "st_docId s \<in> set (getAllDirtyDocIds db')"
proof -
  let ?p = "run_writes A C outs (store_change A f s, db)"
  have "db' = run_task A C (Committed iv) PersistAndMarkDirty (fst ?p) (snd ?p)"
    using run_writes_last [of "(store_change A f s, db)" "st_pendingWrite s" PersistAndMarkDirty outs A C "Committed iv"]
      assms by simp
  then show ?thesis
    by (simp add: set_getAllDirtyDocIds run_task_dirty frame_simps)
qed

text \<open>A change merged from the server never marks a document dirty: whatever the outcomes of
  the writes, the set of dirty documents is the one before the merge (no push loop).\<close>

theorem remote_merge_marks_nothing:
  assumes "set (st_pendingWrite s) \<subseteq> {Persist}" "store_merge A snapshot s = Inr s1"
    and "run_writes A C outs (s1, db) = (s', db')"
  shows "set (getAllDirtyDocIds db') = set (getAllDirtyDocIds db)"
proof -
  have "set (st_pendingWrite s1) \<subseteq> {Persist}"
    using assms(1,2) by (auto simp: store_merge_def split: option.splits)
  then have "idb_get db' (dirty_key d) = idb_get db (dirty_key d)" for d
    using run_writes_dirty_persist_only [of "(s1, db)" A C outs d] assms(3) by simp
  then show ?thesis
    by (auto simp: set_getAllDirtyDocIds)
qed

text \<open>The window in which a local change can be lost. When a local change follows a merge
  whose write has not run yet, the write queued by the merge already stores the changed document
  but not its dirty flag: a restart at that point loads the change and never pushes it.\<close>

theorem change_stored_before_its_flag:
  assumes "save_load_law A" "aead_law C" "length iv = 12"
    and "st_pendingWrite s = []" "st_docId s \<notin> set (getAllDirtyDocIds db)"
    and "store_merge A snapshot s = Inr s1"
    and "run_write A C (Committed iv) (store_change A f s1, db) = (s2, db2)"
  shows "st_docId s \<notin> set (getAllDirtyDocIds db2) \<and>
    (\<exists>r db3. store_open A C (Committed iv') db2 (st_docId s) (st_encKey s) g = Inr (r, db3) \<and>
       st_doc r = am_change A (st_doc s1) f)"
proof -
  have s1: "st_pendingWrite s1 = [Persist]" "st_docId s1 = st_docId s" "st_encKey s1 = st_encKey s"
    using assms(4,6) by (auto simp: store_merge_def split: option.splits)
  then have db2: "db2 = run_task A C (Committed iv) Persist (store_change A f s1) db"
    using assms(7) by (auto simp: run_write_def)
  then obtain b where "idb_get db2 (doc_key (st_docId s)) = Some (VBytes b)"
    "decrypt C b (st_encKey s) = Some (am_save A (am_change A (st_doc s1) f))"
    using run_task_stores_doc [OF assms(2,3), of A Persist "store_change A f s1" db] s1 by auto
  from store_open_saved [OF assms(1) this] show ?thesis
    using db2 assms(5) s1 by (auto simp: set_getAllDirtyDocIds run_task_dirty new_store_def)
qed

lemma reEncrypt_loop_spec:
  assumes "distinct keys" "reEncrypt_loop C oldKey newKey iv keys db = (True, db')"
  shows "(\<forall>k. k \<notin> set keys \<longrightarrow> idb_get db' k = idb_get db k) \<and>
    (\<forall>k \<in> set keys. \<forall>b. idb_get db k = Some (VBytes b) \<longrightarrow>
       (\<exists>pt. decrypt C b oldKey = Some pt \<and> idb_get db' k = Some (VBytes (encrypt C (iv k) pt newKey))))"
  using assms
proof (induction keys arbitrary: db)
  case (Cons key keys)
  show ?case
  proof (cases "idb_get db key")
    case None
    with Cons show ?thesis by auto
  next
    case (Some v)
    with Cons.prems obtain b pt where b: "v = VBytes b" "decrypt C b oldKey = Some pt"
      "reEncrypt_loop C oldKey newKey iv keys (idb_put key (VBytes (encrypt C (iv key) pt newKey)) db) = (True, db')"
      by (auto split: idb_value.splits option.splits)
    with Some Cons.prems(1) Cons.IH [OF _ b(3)] show ?thesis
      by (auto split: if_splits)
  qed
qed simp

lemma distinct_filter_keys: "idb_wf db \<Longrightarrow> distinct (filter P (idb_getAllKeys db))"
  by (simp add: idb_getAllKeys_def idb_wf_distinct)

text \<open>C11: when the rotation of the master key reports success, every stored document decrypts
  under the new key to what it was under the old one, and no other entry but the offline cache
  has changed (dirty flags, sequence numbers and pushed heads survive a password change).\<close>

theorem reEncrypt_preserves_documents:
  assumes "aead_law C" "idb_wf db" "\<And>k. length (iv k) = 12"
    and ok: "reEncryptAllDocs C oldKey newKey iv db = (True, db')"
  shows "(\<forall>d b. idb_get db (doc_key d) = Some (VBytes b) \<longrightarrow>
      (\<exists>b' pt. idb_get db' (doc_key d) = Some (VBytes b') \<and> decrypt C b oldKey = Some pt \<and>
         decrypt C b' newKey = Some pt)) \<and>
    (\<forall>k. (\<forall>d. k \<noteq> doc_key d) \<longrightarrow> k \<noteq> LOCAL_CACHE_KEY \<longrightarrow> idb_get db' k = idb_get db k)"
proof -
  let ?keys = "filter (prefix ''doc:'') (idb_getAllKeys db)"
  obtain db1 where loop: "reEncrypt_loop C oldKey newKey iv ?keys db = (True, db1)"
    and rest: "\<And>k. k \<noteq> LOCAL_CACHE_KEY \<Longrightarrow> idb_get db' k = idb_get db1 k"
    using ok unfolding reEncryptAllDocs_def Let_def
    by (cases "reEncrypt_loop C oldKey newKey iv ?keys db")
      (auto split: if_splits option.splits idb_value.splits)
  note spec = reEncrypt_loop_spec [OF distinct_filter_keys [OF assms(2)] loop]
  have keys: "doc_key d \<in> set ?keys" if "idb_get db (doc_key d) = Some v" for d v
    using that idb_keys_get [of "doc_key d" db]
    by (auto simp: idb_getAllKeys_def doc_key_def prefix_def)
  have docs: "k \<in> set ?keys \<Longrightarrow> \<exists>d. k = doc_key d" for k
    by (auto simp: doc_key_def prefix_def)
  show ?thesis
  proof (intro conjI allI impI)
    fix d b
    assume get: "idb_get db (doc_key d) = Some (VBytes b)"
    from conjunct2 [OF spec, rule_format, OF keys [OF get] get]
    obtain pt where "decrypt C b oldKey = Some pt"
      "idb_get db1 (doc_key d) = Some (VBytes (encrypt C (iv (doc_key d)) pt newKey))" by blast
    then show "\<exists>b' pt. idb_get db' (doc_key d) = Some (VBytes b') \<and>
        decrypt C b oldKey = Some pt \<and> decrypt C b' newKey = Some pt"
      using assms(1,3) rest by simp
  next
    fix k
    assume "\<forall>d. k \<noteq> doc_key d" "k \<noteq> LOCAL_CACHE_KEY"
    with spec docs rest show "idb_get db' k = idb_get db k" by metis
  qed
qed

text \<open>Deferred initialisation. \<^verbatim>\<open>ensureInitialized\<close> applies the initial content at most once, only
  to a document that was new when opened and has received no change since, and then leaves it
  queued as a local change.\<close>

theorem ensureInitialized_once:
  assumes "ensureInitialized A s = (didInit, s')"
  shows "st_initFn s' = None \<and> ensureInitialized A s' = (False, s') \<and>
    (didInit \<longleftrightarrow> st_initFn s \<noteq> None \<and> am_getAllChanges A (st_doc s) = []) \<and>
    (didInit \<longrightarrow> PersistAndMarkDirty \<in> set (st_pendingWrite s')) \<and>
    (\<not> didInit \<longrightarrow> st_doc s' = st_doc s \<and> st_pendingWrite s' = st_pendingWrite s)"
  using assms by (auto simp: ensureInitialized_def split: option.splits if_splits)

subsection \<open>Witnesses\<close>

text \<open>A toy Automerge: a document is the list of its changes, a change is a byte.\<close>

definition demo_automerge :: "bytes automerge" where
  "demo_automerge = \<lparr>am_init = [], am_load = Some, am_save = id,
     am_merge = (\<lambda>a b. a @ filter (\<lambda>x. x \<notin> set a) b),
     am_applyChanges = (\<lambda>d cs. Some (d @ concat cs)), am_change = (\<lambda>d f. f d),
     am_getAllChanges = map (\<lambda>b. [b]),
     am_getHeads = (\<lambda>d. if d = [] then [] else [[char_of (unat (last d))]])\<rparr>"

definition demo_key :: crypto_key where "demo_key = AesKey (replicate 16 5) False"

definition demo_iv :: bytes where "demo_iv = replicate 12 1"

lemma demo_decrypt_short: "decrypt demo_crypto [1] demo_key = None"
proof -
  have "key_raw demo_key = 5 # replicate 15 5"
    unfolding demo_key_def by (simp add: eval_nat_numeral)
  then show ?thesis by (simp add: decrypt_def demo_crypto_def)
qed

lemma demo_save_load: "save_load_law demo_automerge"
  by (simp add: save_load_law_def demo_automerge_def)

lemma demo_iv_length [simp]: "length demo_iv = 12"
  by (simp add: demo_iv_def)

definition demo_store :: "bytes store" where
  "demo_store = new_store [1, 2] ''v1/catalog'' demo_key None"

theorem drained_store_reopens_witness:
  "\<exists>r db''. store_open demo_automerge demo_crypto (Committed demo_iv)
      (snd (run_writes demo_automerge demo_crypto ([Failed] @ [Committed demo_iv])
         (store_change demo_automerge (\<lambda>d. d @ [3]) (enqueuePersist demo_store), [])))
      (st_docId (store_change demo_automerge (\<lambda>d. d @ [3]) (enqueuePersist demo_store)))
      (st_encKey (store_change demo_automerge (\<lambda>d. d @ [3]) (enqueuePersist demo_store))) id = Inr (r, db'') \<and>
    st_doc r = st_doc (store_change demo_automerge (\<lambda>d. d @ [3]) (enqueuePersist demo_store)) \<and> st_initFn r = None"
  by (rule drained_store_reopens [OF demo_save_load demo_aead_law _ demo_iv_length prod.collapse [symmetric]])
    (simp add: demo_store_def new_store_def)

theorem change_is_rediscovered_witness:
  "st_docId demo_store \<in> set (getAllDirtyDocIds (snd (run_writes demo_automerge demo_crypto ([] @ [Committed demo_iv])
     (store_change demo_automerge (\<lambda>d. d @ [3]) demo_store, []))))"
  by (rule change_is_rediscovered [OF _ prod.collapse [symmetric]]) (simp add: demo_store_def new_store_def)

theorem remote_merge_marks_nothing_witness:
  "set (getAllDirtyDocIds (snd (run_writes demo_automerge demo_crypto [Committed demo_iv]
     (notify (enqueuePersist (demo_store\<lparr>st_doc := [1, 2, 9]\<rparr>)), [(dirty_key ''v1/r'', VTrue)]))))
   = set (getAllDirtyDocIds [(dirty_key ''v1/r'', VTrue)])"
  by (rule remote_merge_marks_nothing [where s = demo_store and snapshot = "[2, 9]" and A = demo_automerge,
        OF _ _ prod.collapse [symmetric]])
    (simp_all add: demo_store_def new_store_def store_merge_def demo_automerge_def)

theorem change_stored_before_its_flag_witness:
  "st_docId demo_store \<notin> set (getAllDirtyDocIds (snd (run_write demo_automerge demo_crypto (Committed demo_iv)
      (store_change demo_automerge (\<lambda>d. d @ [3]) (notify (enqueuePersist (demo_store\<lparr>st_doc := [1, 2, 9]\<rparr>))), [])))) \<and>
    (\<exists>r db3. store_open demo_automerge demo_crypto (Committed demo_iv)
       (snd (run_write demo_automerge demo_crypto (Committed demo_iv)
          (store_change demo_automerge (\<lambda>d. d @ [3]) (notify (enqueuePersist (demo_store\<lparr>st_doc := [1, 2, 9]\<rparr>))), [])))
       (st_docId demo_store) (st_encKey demo_store) id = Inr (r, db3) \<and>
       st_doc r = am_change demo_automerge (st_doc (notify (enqueuePersist (demo_store\<lparr>st_doc := [1, 2, 9]\<rparr>)))) (\<lambda>d. d @ [3]))"
  by (rule change_stored_before_its_flag [where s = demo_store and snapshot = "[2, 9]",
        OF demo_save_load demo_aead_law demo_iv_length _ _ _ prod.collapse [symmetric]])
    (simp_all add: demo_store_def new_store_def store_merge_def demo_automerge_def set_getAllDirtyDocIds)

theorem reEncrypt_preserves_documents_witness:
  "\<exists>db'. reEncryptAllDocs demo_crypto demo_key (AesKey [8] True) (\<lambda>k. demo_iv)
      [(doc_key ''a'', VBytes (encrypt demo_crypto demo_iv [4] demo_key))] = (True, db') \<and>
    (\<exists>b' pt. idb_get db' (doc_key ''a'') = Some (VBytes b') \<and>
       decrypt demo_crypto (encrypt demo_crypto demo_iv [4] demo_key) demo_key = Some pt \<and>
       decrypt demo_crypto b' (AesKey [8] True) = Some pt)"
proof -
  let ?db = "[(doc_key ''a'', VBytes (encrypt demo_crypto demo_iv [4] demo_key))]"
  obtain db' where r: "reEncryptAllDocs demo_crypto demo_key (AesKey [8] True) (\<lambda>k. demo_iv) ?db = (True, db')"
    using demo_aead_law
    by (simp add: reEncryptAllDocs_def idb_getAllKeys_def doc_key_def idb_get_def LOCAL_CACHE_KEY_def)
  moreover have "idb_wf ?db" by (simp add: idb_wf_def)
  ultimately show ?thesis
    using reEncrypt_preserves_documents [OF demo_aead_law _ _ r] by (auto simp: idb_get_def)
qed

theorem ensureInitialized_once_witness:
  "st_initFn (snd (ensureInitialized demo_automerge (new_store [] ''r'' demo_key (Some (\<lambda>d. [7]))))) = None \<and>
   fst (ensureInitialized demo_automerge (new_store [] ''r'' demo_key (Some (\<lambda>d. [7]))))"
  using ensureInitialized_once [OF prod.collapse [symmetric],
      of demo_automerge "new_store [] ''r'' demo_key (Some (\<lambda>d. [7]))"]
  by (simp add: new_store_def demo_automerge_def)

end
