(* ===== verification/Doc_Manager.thy ===== *)
theory Doc_Manager
  imports Doc_Store
begin

text \<open>
  The document manager \<^verbatim>\<open>lib/document-manager.ts\<close>: the open stores of a session and the opens in
  flight. An open that was started is an entry of \<open>dm_opening\<close>; \<open>dm_settle\<close> is the point where its
  promise settles. A store that was closed while writes were still queued keeps running them: it
  moves to \<open>dm_detached\<close>. The operations are also events of a run, \<open>dm_run\<close>, for the properties that
  hold whatever happens later.
\<close>

datatype 'd open_promise = OpenPending crypto_key "'d \<Rightarrow> 'd" | OpenRejected store_error

record 'd doc_mgr =
  dm_encKey :: crypto_key
  dm_stores :: "(string \<times> 'd store) list"
  dm_opening :: "(string \<times> 'd open_promise) list"
  dm_detached :: "'d store list"
  dm_dbClosed :: bool

datatype 'd open_reply = Existing "'d store" | Joined "'d open_promise" | Started

definition dm_init :: "crypto_key \<Rightarrow> 'd doc_mgr" where
  "dm_init encKey = \<lparr>dm_encKey = encKey, dm_stores = [], dm_opening = [], dm_detached = [], dm_dbClosed = False\<rparr>"

definition dm_openWithKey :: "string \<Rightarrow> crypto_key \<Rightarrow> ('d \<Rightarrow> 'd) \<Rightarrow> 'd doc_mgr \<Rightarrow> 'd open_reply \<times> 'd doc_mgr" where
  "dm_openWithKey docId encKey initFn m =
     (case map_get (dm_stores m) docId of
        Some s \<Rightarrow> (Existing s, m)
      | None \<Rightarrow>
          (case map_get (dm_opening m) docId of
             Some p \<Rightarrow> (Joined p, m)
           | None \<Rightarrow> (Started, m\<lparr>dm_opening := map_set docId (OpenPending encKey initFn) (dm_opening m)\<rparr>)))"

definition dm_open :: "string \<Rightarrow> ('d \<Rightarrow> 'd) \<Rightarrow> 'd doc_mgr \<Rightarrow> 'd open_reply \<times> 'd doc_mgr" where
  "dm_open docId initFn m = dm_openWithKey docId (dm_encKey m) initFn m"

text \<open>The \<^verbatim>\<open>then\<close> callback runs only when \<^verbatim>\<open>AutomergeStore.open\<close> succeeded; a rejected promise stays
  in the map.\<close>

definition dm_settle ::
  "'d automerge \<Rightarrow> webcrypto \<Rightarrow> outcome \<Rightarrow> string \<Rightarrow> 'd doc_mgr \<times> idb \<Rightarrow> 'd doc_mgr \<times> idb" where
  "dm_settle A C out docId p =
     (case p of (m, db) \<Rightarrow>
       (case map_get (dm_opening m) docId of
          Some (OpenPending key initFn) \<Rightarrow>
            (case store_open A C out db docId key initFn of
               Inl e \<Rightarrow> (m\<lparr>dm_opening := map_set docId (OpenRejected e) (dm_opening m)\<rparr>, db)
             | Inr (s, db') \<Rightarrow>
                 (m\<lparr>dm_opening := map_delete docId (dm_opening m),
                    dm_stores := map_set docId s (dm_stores m)\<rparr>, db'))
        | _ \<Rightarrow> (m, db)))"

definition dm_get :: "string \<Rightarrow> 'd doc_mgr \<Rightarrow> 'd store option" where
  "dm_get docId m = map_get (dm_stores m) docId"

definition dm_isOpen :: "string \<Rightarrow> 'd doc_mgr \<Rightarrow> bool" where
  "dm_isOpen docId m \<longleftrightarrow> docId \<in> set (map_keys (dm_stores m))"

text \<open>\<^verbatim>\<open>close\<close> up to its await: the number of finished writes it waits for.\<close>

definition dm_close_begin :: "string \<Rightarrow> 'd doc_mgr \<Rightarrow> nat option" where
  "dm_close_begin docId m = map_option waitForWrite_target (map_get (dm_stores m) docId)"

definition dm_close_end :: "string \<Rightarrow> 'd doc_mgr \<Rightarrow> 'd doc_mgr" where
  "dm_close_end docId m =
     m\<lparr>dm_stores := map_delete docId (dm_stores m),
       dm_detached := dm_detached m @
         (case map_get (dm_stores m) docId of
            Some s \<Rightarrow> if st_pendingWrite s = [] then [] else [s]
          | None \<Rightarrow> [])\<rparr>"

definition dm_closeAll_end :: "'d doc_mgr \<Rightarrow> 'd doc_mgr" where
  "dm_closeAll_end m = m\<lparr>dm_stores := [], dm_dbClosed := True\<rparr>"

definition dm_updateEncKey :: "crypto_key \<Rightarrow> 'd doc_mgr \<Rightarrow> 'd doc_mgr" where
  "dm_updateEncKey encKey m = m\<lparr>dm_encKey := encKey\<rparr>"

text \<open>A store's object changes in place: the manager and every holder see the new state.\<close>

definition dm_update :: "string \<Rightarrow> ('d store \<Rightarrow> 'd store) \<Rightarrow> 'd doc_mgr \<Rightarrow> 'd doc_mgr" where
  "dm_update docId f m =
     (case map_get (dm_stores m) docId of
        None \<Rightarrow> m
      | Some s \<Rightarrow> m\<lparr>dm_stores := map_set docId (f s) (dm_stores m)\<rparr>)"

text \<open>One queued write of an open store, or of the first detached one, runs.\<close>

definition dm_write :: "'d automerge \<Rightarrow> webcrypto \<Rightarrow> outcome \<Rightarrow> string \<Rightarrow> 'd doc_mgr \<times> idb \<Rightarrow> 'd doc_mgr \<times> idb" where
  "dm_write A C out docId p =
     (case p of (m, db) \<Rightarrow>
       (case map_get (dm_stores m) docId of
          None \<Rightarrow> (m, db)
        | Some s \<Rightarrow> (case run_write A C out (s, db) of
                       (s', db') \<Rightarrow> (m\<lparr>dm_stores := map_set docId s' (dm_stores m)\<rparr>, db'))))"

definition dm_write_detached :: "'d automerge \<Rightarrow> webcrypto \<Rightarrow> outcome \<Rightarrow> 'd doc_mgr \<times> idb \<Rightarrow> 'd doc_mgr \<times> idb" where
  "dm_write_detached A C out p =
     (case p of (m, db) \<Rightarrow>
       (case dm_detached m of
          [] \<Rightarrow> (m, db)
        | s # r \<Rightarrow> (case run_write A C out (s, db) of
             (s', db') \<Rightarrow> (m\<lparr>dm_detached := (if st_pendingWrite s' = [] then r else s' # r)\<rparr>, db'))))"

datatype 'd dm_event =
    EvOpen string "'d \<Rightarrow> 'd"
  | EvOpenWithKey string crypto_key "'d \<Rightarrow> 'd"
  | EvSettle outcome string
  | EvClose string
  | EvCloseAll
  | EvUpdateEncKey crypto_key
  | EvUpdate string "'d store \<Rightarrow> 'd store"
  | EvWrite outcome string
  | EvWriteDetached outcome
  | EvDb "idb \<Rightarrow> idb"

fun dm_step :: "'d automerge \<Rightarrow> webcrypto \<Rightarrow> 'd dm_event \<Rightarrow> 'd doc_mgr \<times> idb \<Rightarrow> 'd doc_mgr \<times> idb" where
  "dm_step A C (EvOpen d f) (m, db) = (snd (dm_open d f m), db)"
| "dm_step A C (EvOpenWithKey d k f) (m, db) = (snd (dm_openWithKey d k f m), db)"
| "dm_step A C (EvSettle out d) (m, db) = dm_settle A C out d (m, db)"
| "dm_step A C (EvClose d) (m, db) = (dm_close_end d m, db)"
| "dm_step A C EvCloseAll (m, db) = (dm_closeAll_end m, db)"
| "dm_step A C (EvUpdateEncKey k) (m, db) = (dm_updateEncKey k m, db)"
| "dm_step A C (EvUpdate d f) (m, db) = (dm_update d f m, db)"
| "dm_step A C (EvWrite out d) (m, db) = dm_write A C out d (m, db)"
| "dm_step A C (EvWriteDetached out) (m, db) = dm_write_detached A C out (m, db)"
| "dm_step A C (EvDb f) (m, db) = (m, f db)"

definition dm_run :: "'d automerge \<Rightarrow> webcrypto \<Rightarrow> 'd dm_event list \<Rightarrow> 'd doc_mgr \<times> idb \<Rightarrow> 'd doc_mgr \<times> idb" where
  "dm_run A C evs p = foldl (\<lambda>q e. dm_step A C e q) p evs"

subsection \<open>Well-formedness\<close>

text \<open>No document has two stores, and no document that is open is being opened again.\<close>

definition dm_wf :: "'d doc_mgr \<Rightarrow> bool" where
  "dm_wf m \<longleftrightarrow> map_wf (dm_stores m) \<and> map_wf (dm_opening m) \<and>
     (\<forall>d. map_get (dm_stores m) d \<noteq> None \<longrightarrow> map_get (dm_opening m) d = None)"

lemma dm_wf_openWithKey: "dm_wf m \<Longrightarrow> dm_wf (snd (dm_openWithKey d k f m))"
  by (auto simp: dm_wf_def dm_openWithKey_def map_eqs js_map.inv_put split: option.splits)

lemma dm_wf_settle: "dm_wf (fst p) \<Longrightarrow> dm_wf (fst (dm_settle A C out d p))"
  by (auto simp: dm_wf_def dm_settle_def map_eqs js_map.inv_put js_map.inv_del
      split: prod.splits option.splits open_promise.splits sum.splits)

lemma dm_wf_close_end: "dm_wf m \<Longrightarrow> dm_wf (dm_close_end d m)"
  by (auto simp: dm_wf_def dm_close_end_def map_eqs js_map.inv_del)

lemma dm_wf_update: "dm_wf m \<Longrightarrow> dm_wf (dm_update d f m)"
  by (auto simp: dm_wf_def dm_update_def map_eqs js_map.inv_put split: option.splits)

lemma dm_wf_write: "dm_wf (fst p) \<Longrightarrow> dm_wf (fst (dm_write A C out d p))"
  by (auto simp: dm_wf_def dm_write_def map_eqs js_map.inv_put split: prod.splits option.splits)

lemma dm_wf_write_detached: "dm_wf (fst p) \<Longrightarrow> dm_wf (fst (dm_write_detached A C out p))"
  by (auto simp: dm_wf_def dm_write_detached_def split: prod.splits list.splits)

lemma dm_wf_step:
  assumes "dm_wf (fst p)"
  shows "dm_wf (fst (dm_step A C e p))"
  using assms dm_wf_openWithKey dm_wf_settle [of p] dm_wf_close_end dm_wf_update dm_wf_write [of p]
    dm_wf_write_detached [of p]
  by (cases p; cases e)
    (simp_all add: dm_open_def dm_closeAll_end_def dm_updateEncKey_def dm_wf_def map_wf_def)

interpretation dm_wf_steps: run_invariant "\<lambda>p e. dm_step A C e p" "\<lambda>p. dm_wf (fst p)" "\<lambda>e. True" for A C
  by unfold_locales (rule dm_wf_step)

lemma dm_wf_run: "dm_wf (fst p) \<Longrightarrow> dm_wf (fst (dm_run A C evs p))"
  unfolding dm_run_def by (rule dm_wf_steps.inv_run) simp_all

lemma dm_wf_init: "dm_wf (dm_init k)"
  by (simp add: dm_wf_def dm_init_def map_wf_def)

text \<open>Once an open was rejected, its entry stays: no operation of the manager removes it.\<close>

lemma dm_step_keeps_rejection:
  assumes "dm_wf (fst p)" "map_get (dm_opening (fst p)) d = Some (OpenRejected e)"
  shows "map_get (dm_opening (fst (dm_step A C ev p))) d = Some (OpenRejected e)"
proof (cases p; cases ev)
  fix m db out d'
  assume "p = (m, db)" "ev = EvSettle out d'"
  with assms show ?thesis
    by (cases "d' = d") (auto simp: dm_settle_def map_eqs split: option.splits open_promise.splits sum.splits)
qed (use assms in \<open>auto simp: dm_open_def dm_openWithKey_def dm_close_end_def dm_closeAll_end_def
    dm_updateEncKey_def dm_update_def dm_write_def dm_write_detached_def map_eqs
    split: option.splits prod.splits list.splits\<close>)

lemma dm_run_keeps_rejection:
  "dm_wf (fst p) \<Longrightarrow> map_get (dm_opening (fst p)) d = Some (OpenRejected e) \<Longrightarrow>
     map_get (dm_opening (fst (dm_run A C evs p))) d = Some (OpenRejected e)"
  by (induction evs arbitrary: p) (simp_all add: dm_run_def dm_wf_step dm_step_keeps_rejection)

subsection \<open>Properties\<close>

text \<open>C10: the manager keeps one store per document through every sequence of operations: a document
  that is open is not being opened, and while it is being opened a second \<^verbatim>\<open>open\<close> joins the first
  instead of starting another.\<close>

theorem one_store_per_document:
  assumes "dm_run A C evs (dm_init key, db) = (m, db')"
  shows "distinct (map fst (dm_stores m)) \<and> distinct (map fst (dm_opening m)) \<and>
    (dm_isOpen d m \<longrightarrow> map_get (dm_opening m) d = None) \<and>
    (case dm_open d f m of
       (Started, m') \<Rightarrow> dm_open d g m' = (Joined (OpenPending (dm_encKey m) f), m')
     | (_, m') \<Rightarrow> m' = m)"
proof -
  have wf: "dm_wf m"
    using dm_wf_run [of "(dm_init key, db)" A C evs] assms by (simp add: dm_wf_init)
  then show ?thesis
    using js_map.set_keys [of "dm_stores m" d]
    by (auto simp: dm_wf_def map_wf_def dm_isOpen_def dm_open_def dm_openWithKey_def map_eqs
        split: option.splits open_reply.splits prod.splits)
qed

text \<open>An open that failed once is never retried. After it was rejected (data that did not decrypt,
  or a failed transaction), every later \<^verbatim>\<open>open\<close> of that document returns the same rejection, whatever
  happens in between, even if the data would now load.\<close>

theorem failed_open_is_permanent:
  assumes "dm_wf m" "map_get (dm_opening m) d = Some (OpenPending key f)"
    and "store_open A C out db d key f = Inl e"
  shows "fst (dm_open d g (fst (dm_run A C evs (dm_settle A C out d (m, db))))) = Joined (OpenRejected e)"
proof -
  let ?p = "dm_settle A C out d (m, db)"
  have "dm_wf (fst ?p)"
    using assms(1) dm_wf_settle [of "(m, db)"] by simp
  moreover have "map_get (dm_opening (fst ?p)) d = Some (OpenRejected e)"
    using assms(2,3) by (simp add: dm_settle_def map_eqs)
  ultimately have "map_get (dm_opening (fst (dm_run A C evs ?p))) d = Some (OpenRejected e)"
      "dm_wf (fst (dm_run A C evs ?p))"
    by (rule dm_run_keeps_rejection, simp_all add: dm_wf_run)
  then show ?thesis
    by (auto simp: dm_open_def dm_openWithKey_def dm_wf_def split: option.splits)
qed

text \<open>Closing a document loses no queued write. When the writes that \<^verbatim>\<open>close\<close> waited for have run,
  the store is removed, and any write queued meanwhile still runs from the detached store.\<close>

theorem close_keeps_queued_writes:
  assumes "dm_get d m = Some s"
  shows "dm_get d (dm_close_end d m) = None \<and>
    (st_pendingWrite s \<noteq> [] \<longrightarrow> s \<in> set (dm_detached (dm_close_end d m))) \<and>
    set (dm_detached m) \<subseteq> set (dm_detached (dm_close_end d m))"
  using assms by (auto simp: dm_get_def dm_close_end_def map_eqs)

subsection \<open>Witnesses\<close>

theorem one_store_per_document_witness:
  "distinct (map fst (dm_stores (fst (dm_run demo_automerge demo_crypto
     [EvOpen ''a'' id, EvSettle (Committed demo_iv) ''a''] (dm_init demo_key, [])))))"
  using one_store_per_document [OF prod.collapse [symmetric],
      of demo_automerge demo_crypto "[EvOpen ''a'' id, EvSettle (Committed demo_iv) ''a'']" demo_key "[]" "''a''" id id]
  by blast

lemma demo_open_fails:
  "store_open demo_automerge demo_crypto (Committed demo_iv) [(doc_key ''a'', VBytes [1])] ''a'' demo_key id
     = Inl WrongPassphrase"
  by (simp add: store_open_def idb_get_def, simp add: demo_decrypt_short)

theorem failed_open_is_permanent_witness:
  "fst (dm_open ''a'' id (fst (dm_run demo_automerge demo_crypto [EvDb (\<lambda>_. []), EvUpdateEncKey demo_key]
     (dm_settle demo_automerge demo_crypto (Committed demo_iv) ''a''
        ((dm_init demo_key)\<lparr>dm_opening := [(''a'', OpenPending demo_key id)]\<rparr>,
         [(doc_key ''a'', VBytes [1])]))))) = Joined (OpenRejected WrongPassphrase)"
  by (rule failed_open_is_permanent [OF _ _ demo_open_fails])
    (simp_all add: dm_wf_def dm_init_def map_wf_def map_get_def)

theorem close_keeps_queued_writes_witness:
  "dm_get ''a'' (dm_close_end ''a'' ((dm_init demo_key)\<lparr>dm_stores := [(''a'', enqueuePersist demo_store)]\<rparr>)) = None \<and>
   enqueuePersist demo_store \<in> set (dm_detached (dm_close_end ''a'' ((dm_init demo_key)\<lparr>dm_stores := [(''a'', enqueuePersist demo_store)]\<rparr>)))"
  using close_keeps_queued_writes [of "''a''" "(dm_init demo_key)\<lparr>dm_stores := [(''a'', enqueuePersist demo_store)]\<rparr>"
      "enqueuePersist demo_store"]
  by (simp add: dm_get_def map_get_def)

end
