(* ===== verification/Sync_Client.thy ===== *)
theory Sync_Client
  imports Idb
begin

text \<open>
  The WebSocket client \<^verbatim>\<open>lib/sync-client.ts\<close>. \<open>sync_client\<close> is the object's state: the socket's ready
  state, every message it put on the wire (\<open>sc_sent\<close>), every callback of its options it called
  (\<open>sc_calls\<close>), its queues, subscriptions, timers and pending promises. Each method, each socket
  event and each timer is one definition; \<open>sc_step\<close> and \<open>sc_run\<close> run sequences of them.

  Messages are the values that \<^verbatim>\<open>JSON.parse\<close> returns and \<^verbatim>\<open>JSON.stringify\<close> takes (a malformed text is
  \<open>None\<close>); presence data is an opaque value. A handler that awaits a callback takes the function
  \<open>during\<close>: what happens to the client in the meantime.
\<close>

datatype ready_state = CONNECTING | OPEN | CLOSING | CLOSED

datatype sync_status = StConnecting | StConnected | StDisconnected

datatype push_result = Sent | NoKey | NotConnected | Threw

record vault_info =
  vi_vaultId :: string
  vi_encryptedVaultKey :: string
  vi_senderPublicKey :: string
  vi_role :: string

record member_info =
  mi_userId :: string
  mi_role :: string
  mi_publicKey :: "string option"
  mi_signingPublicKey :: "string option"

record key_update =
  ku_userId :: string
  ku_encryptedVaultKey :: string
  ku_senderPublicKey :: string

record 'p server_msg =
  sm_type :: string
  sm_doc_id :: "string option"
  sm_seq :: "int option"
  sm_payload :: "string option"
  sm_from_device :: "string option"
  sm_latest_seq :: "int option"
  sm_message :: "string option"
  sm_retry_after_ms :: "int option"
  sm_presence :: "'p option"
  sm_public_key :: "string option"
  sm_wrapped_private_key :: "string option"
  sm_signing_public_key :: "string option"
  sm_wrapped_signing_private_key :: "string option"
  sm_sender_user_id :: "string option"
  sm_vault_id :: "string option"
  sm_vaults :: "vault_info list option"
  sm_members :: "member_info list option"
  sm_encrypted_vault_key :: "string option"
  sm_role :: "string option"
  sm_new_role :: "string option"
  sm_target_user_id :: "string option"
  sm_target_public_key :: "string option"

datatype 'p client_msg =
    MConnect string string string bool "string option"
  | MSubscribe string int
  | MUnsubscribe string
  | MPush string string "'p option"
  | MPresence string 'p
  | MPing
  | MPurge
  | MListVaults
  | MSetIdentity string string
  | MSetKey string
  | MSetSigningIdentity string string
  | MCreateVault string string string
  | MInvite string string string string string
  | MRemove string string
  | MListMembers string
  | MDeleteVault string
  | MTransfer string string
  | MChangeRole string string string
  | MRotate string "key_update list"
  | MLookup string
  | MChangePassword string string string "string option" "string option"

datatype 'p callback =
    CbStatus sync_status
  | CbConnected "string option" "string option" "string option" "string option" "string option"
  | CbRemoteChange string bytes int "string option"
  | CbCaughtUp string int
  | CbAck string int
  | CbPushError string string
  | CbRateLimited "int option"
  | CbPresence string string 'p "string option"
  | CbPurged
  | CbPasswordChanged
  | CbAuthError string
  | CbVaultList "vault_info list"
  | CbVaultCreated string
  | CbVaultInvited string string string
  | CbVaultRemoved string
  | CbVaultDeleted string
  | CbVaultMembers string "member_info list"
  | CbOwnershipTransferred string string
  | CbOwnershipReceived string string
  | CbRoleChanged string string string
  | CbVaultKeyRotated string

datatype settlement = Resolved "(string \<times> string) option" | RejectedWith string

record 'p sync_client =
  sc_ws :: "ready_state option"
  sc_sent :: "'p client_msg list"
  sc_calls :: "'p callback list"
  sc_userId :: string
  sc_deviceId :: string
  sc_authHash :: string
  sc_isSignup :: bool
  sc_encKey :: "crypto_key option"
  sc_getDocKey :: "(string \<Rightarrow> crypto_key option) option"
  sc_wrappedKey :: "string option"
  sc_reconnectDelay :: nat
  sc_reconnectTimer :: "nat option"
  sc_intentionalClose :: bool
  sc_queues :: "'p server_msg option list list"
  sc_subscriptions :: "string list"
  sc_lastSeqs :: "(string \<times> int) list"
  sc_heartbeatTimer :: bool
  sc_heartbeatTimeout :: "nat option"
  sc_liveTimeouts :: "nat list"
  sc_nextTimeout :: nat
  sc_listening :: bool
  sc_docPresence :: "(string \<times> 'p) list"
  sc_lookupResolvers :: "(string \<times> nat) list"
  sc_lookupTimers :: "(nat \<times> string) list"
  sc_confirmResolvers :: "(string \<times> nat) list"
  sc_confirmTimers :: "(nat \<times> string) list"
  sc_nextPromise :: nat
  sc_settled :: "(nat \<times> settlement) list"

definition HEARTBEAT_INTERVAL :: nat where "HEARTBEAT_INTERVAL = 25000"
definition HEARTBEAT_TIMEOUT :: nat where "HEARTBEAT_TIMEOUT = 3000"

definition sc_new :: "string \<Rightarrow> string \<Rightarrow> string \<Rightarrow> bool \<Rightarrow> crypto_key option \<Rightarrow>
    (string \<Rightarrow> crypto_key option) option \<Rightarrow> string option \<Rightarrow> 'p sync_client" where
  "sc_new userId deviceId hash isSignup encKey getDocKey wrappedKey =
     \<lparr>sc_ws = None, sc_sent = [], sc_calls = [], sc_userId = userId, sc_deviceId = deviceId,
      sc_authHash = hash, sc_isSignup = isSignup, sc_encKey = encKey, sc_getDocKey = getDocKey,
      sc_wrappedKey = wrappedKey, sc_reconnectDelay = 1000, sc_reconnectTimer = None,
      sc_intentionalClose = False, sc_queues = [[]], sc_subscriptions = [], sc_lastSeqs = [],
      sc_heartbeatTimer = False, sc_heartbeatTimeout = None, sc_liveTimeouts = [], sc_nextTimeout = 0, sc_listening = False,
      sc_docPresence = [], sc_lookupResolvers = [], sc_lookupTimers = [], sc_confirmResolvers = [],
      sc_confirmTimers = [], sc_nextPromise = 0, sc_settled = []\<rparr>"

subsection \<open>Truth values of optional strings\<close>

definition truthy :: "string option \<Rightarrow> bool" where
  "truthy x \<longleftrightarrow> x \<noteq> None \<and> x \<noteq> Some []"

definition or_undefined :: "string option \<Rightarrow> string option" where
  "or_undefined x = (if truthy x then x else None)"

definition or_empty :: "string option \<Rightarrow> string" where
  "or_empty x = (case x of None \<Rightarrow> [] | Some s \<Rightarrow> s)"

subsection \<open>The socket\<close>

definition call :: "'p callback \<Rightarrow> 'p sync_client \<Rightarrow> 'p sync_client" where
  "call c s = s\<lparr>sc_calls := sc_calls s @ [c]\<rparr>"

definition isOpen :: "'p sync_client \<Rightarrow> bool" where
  "isOpen s \<longleftrightarrow> sc_ws s = Some OPEN"

text \<open>\<^verbatim>\<open>WebSocket.send\<close> transmits when open, throws while connecting (or on no socket), and drops the
  message when the socket is closing or closed.\<close>

definition ws_send :: "'p client_msg \<Rightarrow> 'p sync_client \<Rightarrow> bool \<times> 'p sync_client" where
  "ws_send m s =
     (case sc_ws s of
        Some OPEN \<Rightarrow> (True, s\<lparr>sc_sent := sc_sent s @ [m]\<rparr>)
      | Some CONNECTING \<Rightarrow> (False, s)
      | None \<Rightarrow> (False, s)
      | Some _ \<Rightarrow> (True, s))"

definition sendMsg :: "'p client_msg \<Rightarrow> 'p sync_client \<Rightarrow> 'p sync_client" where
  "sendMsg m s = (if isOpen s then s\<lparr>sc_sent := sc_sent s @ [m]\<rparr> else s)"

definition ws_close :: "'p sync_client \<Rightarrow> 'p sync_client" where
  "ws_close s =
     (case sc_ws s of
        Some OPEN \<Rightarrow> s\<lparr>sc_ws := Some CLOSING\<rparr>
      | Some CONNECTING \<Rightarrow> s\<lparr>sc_ws := Some CLOSING\<rparr>
      | _ \<Rightarrow> s)"

text \<open>The timeouts that have been armed and neither cleared nor fired are \<open>sc_liveTimeouts\<close>;
  the field \<^verbatim>\<open>heartbeatTimeout\<close> refers to the one armed last. A timeout that fires does not reset it.\<close>

definition clearHeartbeatTimeout :: "'p sync_client \<Rightarrow> 'p sync_client" where
  "clearHeartbeatTimeout s =
     (case sc_heartbeatTimeout s of
        None \<Rightarrow> s
      | Some t \<Rightarrow> s\<lparr>sc_liveTimeouts := filter (\<lambda>u. u \<noteq> t) (sc_liveTimeouts s), sc_heartbeatTimeout := None\<rparr>)"

definition armTimeout :: "'p sync_client \<Rightarrow> 'p sync_client" where
  "armTimeout s =
     s\<lparr>sc_liveTimeouts := sc_liveTimeouts s @ [sc_nextTimeout s],
       sc_heartbeatTimeout := Some (sc_nextTimeout s), sc_nextTimeout := Suc (sc_nextTimeout s)\<rparr>"

definition stopHeartbeat :: "'p sync_client \<Rightarrow> 'p sync_client" where
  "stopHeartbeat s = clearHeartbeatTimeout (s\<lparr>sc_heartbeatTimer := False\<rparr>)"

definition startHeartbeat :: "'p sync_client \<Rightarrow> 'p sync_client" where
  "startHeartbeat s = (stopHeartbeat s)\<lparr>sc_heartbeatTimer := True\<rparr>"

definition heartbeat_tick :: "'p sync_client \<Rightarrow> 'p sync_client" where
  "heartbeat_tick s =
     (if sc_heartbeatTimer s \<and> isOpen s then armTimeout (sendMsg MPing s) else s)"

definition heartbeat_timeout :: "nat \<Rightarrow> 'p sync_client \<Rightarrow> 'p sync_client" where
  "heartbeat_timeout t s =
     (if t \<in> set (sc_liveTimeouts s)
      then ws_close (call (CbStatus StDisconnected)
             (s\<lparr>sc_liveTimeouts := filter (\<lambda>u. u \<noteq> t) (sc_liveTimeouts s)\<rparr>)) else s)"

definition listenBrowserEvents :: "'p sync_client \<Rightarrow> 'p sync_client" where
  "listenBrowserEvents s = (if sc_listening s then s else s\<lparr>sc_listening := True\<rparr>)"

definition unlistenBrowserEvents :: "'p sync_client \<Rightarrow> 'p sync_client" where
  "unlistenBrowserEvents s = s\<lparr>sc_listening := False\<rparr>"

definition probe :: "'p sync_client \<Rightarrow> 'p sync_client" where
  "probe s =
     (if sc_listening s \<and> isOpen s
      then armTimeout (clearHeartbeatTimeout (sendMsg MPing s)) else s)"

definition connect :: "'p sync_client \<Rightarrow> 'p sync_client" where
  "connect s =
     (let s1 = s\<lparr>sc_intentionalClose := False, sc_queues := sc_queues s @ [[]]\<rparr>;
          s2 = listenBrowserEvents (call (CbStatus StConnecting) s1)
      in s2\<lparr>sc_ws := Some CONNECTING\<rparr>)"

definition on_open :: "'p sync_client \<Rightarrow> 'p sync_client" where
  "on_open s =
     (let s1 = s\<lparr>sc_ws := Some OPEN, sc_reconnectDelay := 1000\<rparr>;
          s2 = snd (ws_send (MConnect (sc_userId s1) (sc_deviceId s1) (sc_authHash s1) (sc_isSignup s1)
                 (or_undefined (sc_wrappedKey s1))) s1)
      in startHeartbeat s2)"

definition on_message :: "'p server_msg option \<Rightarrow> 'p sync_client \<Rightarrow> 'p sync_client" where
  "on_message m s =
     (clearHeartbeatTimeout s)\<lparr>sc_queues := butlast (sc_queues s) @ [last (sc_queues s) @ [m]]\<rparr>"

definition scheduleReconnect :: "'p sync_client \<Rightarrow> 'p sync_client" where
  "scheduleReconnect s = s\<lparr>sc_reconnectTimer := Some (sc_reconnectDelay s)\<rparr>"

definition on_close :: "'p sync_client \<Rightarrow> 'p sync_client" where
  "on_close s =
     (let s1 = call (CbStatus StDisconnected) (stopHeartbeat (s\<lparr>sc_ws := Some CLOSED\<rparr>))
      in if \<not> sc_intentionalClose s1 then scheduleReconnect s1 else s1)"

definition reconnect_fire :: "'p sync_client \<Rightarrow> 'p sync_client" where
  "reconnect_fire s =
     (case sc_reconnectTimer s of
        None \<Rightarrow> s
      | Some _ \<Rightarrow> connect (s\<lparr>sc_reconnectTimer := None,
                          sc_reconnectDelay := min (sc_reconnectDelay s * 2) 30000\<rparr>))"

subsection \<open>Promises\<close>

text \<open>A promise settles once; settling it again has no effect.\<close>

definition settle :: "nat \<Rightarrow> settlement \<Rightarrow> 'p sync_client \<Rightarrow> 'p sync_client" where
  "settle p r s =
     (if p \<in> fst ` set (sc_settled s) then s else s\<lparr>sc_settled := sc_settled s @ [(p, r)]\<rparr>)"

text \<open>The \<^verbatim>\<open>resolve\<close> and \<^verbatim>\<open>reject\<close> closures stored for a confirmation: clear the timer of the promise
  they belong to, delete the entry of their type, settle.\<close>

definition confirm_settle :: "string \<Rightarrow> nat \<Rightarrow> settlement \<Rightarrow> 'p sync_client \<Rightarrow> 'p sync_client" where
  "confirm_settle confirmType p r s =
     settle p r (s\<lparr>sc_confirmTimers := map_delete p (sc_confirmTimers s),
                   sc_confirmResolvers := map_delete confirmType (sc_confirmResolvers s)\<rparr>)"

definition confirm_resolve :: "string \<Rightarrow> 'p sync_client \<Rightarrow> 'p sync_client" where
  "confirm_resolve confirmType s =
     (case map_get (sc_confirmResolvers s) confirmType of
        None \<Rightarrow> s
      | Some p \<Rightarrow> confirm_settle confirmType p (Resolved None) s)"

definition awaitConfirmation :: "string \<Rightarrow> 'p client_msg \<Rightarrow> 'p sync_client \<Rightarrow> nat \<times> 'p sync_client" where
  "awaitConfirmation confirmType m s =
     (let p = sc_nextPromise s; s0 = s\<lparr>sc_nextPromise := Suc p\<rparr>
      in if \<not> isOpen s then (p, settle p (RejectedWith (confirmType @ '': not connected'')) s0)
         else (p, sendMsg m (s0\<lparr>sc_confirmTimers := map_set p confirmType (sc_confirmTimers s0),
                                sc_confirmResolvers := map_set confirmType p (sc_confirmResolvers s0)\<rparr>)))"

definition confirm_timeout :: "nat \<Rightarrow> 'p sync_client \<Rightarrow> 'p sync_client" where
  "confirm_timeout p s =
     (case map_get (sc_confirmTimers s) p of
        None \<Rightarrow> s
      | Some confirmType \<Rightarrow>
          settle p (RejectedWith (confirmType @ '' timed out''))
            (s\<lparr>sc_confirmTimers := map_delete p (sc_confirmTimers s),
               sc_confirmResolvers := map_delete confirmType (sc_confirmResolvers s)\<rparr>))"

definition lookupUser :: "string \<Rightarrow> 'p sync_client \<Rightarrow> nat \<times> 'p sync_client" where
  "lookupUser target s =
     (let p = sc_nextPromise s
      in (p, sendMsg (MLookup target)
               (s\<lparr>sc_nextPromise := Suc p, sc_lookupTimers := map_set p target (sc_lookupTimers s),
                  sc_lookupResolvers := map_set target p (sc_lookupResolvers s)\<rparr>)))"

definition lookup_timeout :: "nat \<Rightarrow> 'p sync_client \<Rightarrow> 'p sync_client" where
  "lookup_timeout p s =
     (case map_get (sc_lookupTimers s) p of
        None \<Rightarrow> s
      | Some target \<Rightarrow>
          settle p (RejectedWith ''User lookup timed out'')
            (s\<lparr>sc_lookupTimers := map_delete p (sc_lookupTimers s),
               sc_lookupResolvers := map_delete target (sc_lookupResolvers s)\<rparr>))"

text \<open>Rejecting every pending lookup, as the loops over \<^verbatim>\<open>lookupResolvers\<close> do.\<close>

definition reject_lookup :: "string \<Rightarrow> 'p sync_client \<Rightarrow> string \<times> nat \<Rightarrow> 'p sync_client" where
  "reject_lookup err s e =
     settle (snd e) (RejectedWith err)
       (s\<lparr>sc_lookupTimers := map_delete (snd e) (sc_lookupTimers s),
          sc_lookupResolvers := map_delete (fst e) (sc_lookupResolvers s)\<rparr>)"

definition reject_all_lookups :: "string \<Rightarrow> 'p sync_client \<Rightarrow> 'p sync_client" where
  "reject_all_lookups err s = foldl (reject_lookup err) s (sc_lookupResolvers s)"

definition reject_all_confirms :: "string \<Rightarrow> 'p sync_client \<Rightarrow> 'p sync_client" where
  "reject_all_confirms err s =
     foldl (\<lambda>t e. confirm_settle (fst e) (snd e) (RejectedWith err) t) s (sc_confirmResolvers s)"

subsection \<open>Keys and pushes\<close>

definition resolveKey :: "string \<Rightarrow> 'p sync_client \<Rightarrow> crypto_key option" where
  "resolveKey docId s =
     (case Option.bind (sc_getDocKey s) (\<lambda>f. f docId) of
        Some key \<Rightarrow> Some key
      | None \<Rightarrow>
          let isVaultDoc = (case index_of (CHR ''/'') docId of None \<Rightarrow> False | Some i \<Rightarrow> 0 < i)
          in if isVaultDoc then None else sc_encKey s)"

text \<open>\<^verbatim>\<open>push\<close> up to the await of \<^verbatim>\<open>encrypt\<close>, and after it: in between the socket may have changed.\<close>

definition push_begin :: "string \<Rightarrow> 'p sync_client \<Rightarrow> push_result + crypto_key" where
  "push_begin docId s =
     (case resolveKey docId s of
        None \<Rightarrow> Inl NoKey
      | Some key \<Rightarrow> if \<not> isOpen s then Inl NotConnected else Inr key)"

definition push_end :: "webcrypto \<Rightarrow> bytes \<Rightarrow> crypto_key \<Rightarrow> string \<Rightarrow> bytes \<Rightarrow> 'p sync_client \<Rightarrow> push_result \<times> 'p sync_client" where
  "push_end C iv key docId snapshot s =
     (let presence = map_get (sc_docPresence s) docId;
          s1 = (case presence of None \<Rightarrow> s | Some _ \<Rightarrow> s\<lparr>sc_docPresence := map_delete docId (sc_docPresence s)\<rparr>);
          (sent, s2) = ws_send (MPush docId (toBase64 (encrypt C iv snapshot key)) presence) s1
      in (if sent then Sent else Threw, s2))"

definition push :: "webcrypto \<Rightarrow> bytes \<Rightarrow> ('p sync_client \<Rightarrow> 'p sync_client) \<Rightarrow> string \<Rightarrow> bytes
    \<Rightarrow> 'p sync_client \<Rightarrow> push_result \<times> 'p sync_client" where
  "push C iv during docId snapshot s =
     (case push_begin docId s of
        Inl r \<Rightarrow> (r, s)
      | Inr key \<Rightarrow> push_end C iv key docId snapshot (during s))"

definition subscribe :: "string \<Rightarrow> int option \<Rightarrow> int \<Rightarrow> 'p sync_client \<Rightarrow> 'p sync_client" where
  "subscribe docId lastSeq storedSeq s =
     (let seq = (case lastSeq of Some n \<Rightarrow> n | None \<Rightarrow> storedSeq)
      in sendMsg (MSubscribe docId seq)
           (s\<lparr>sc_subscriptions := set_add docId (sc_subscriptions s),
              sc_lastSeqs := map_set docId seq (sc_lastSeqs s)\<rparr>))"

definition unsubscribe :: "string \<Rightarrow> 'p sync_client \<Rightarrow> 'p sync_client" where
  "unsubscribe docId s =
     sendMsg (MUnsubscribe docId)
       (s\<lparr>sc_subscriptions := set_delete docId (sc_subscriptions s),
          sc_lastSeqs := map_delete docId (sc_lastSeqs s)\<rparr>)"

definition resubscribe_one :: "(string \<Rightarrow> int) \<Rightarrow> 'p sync_client \<Rightarrow> string \<Rightarrow> 'p sync_client" where
  "resubscribe_one getLastSeq s docId =
     sendMsg (MSubscribe docId (case map_get (sc_lastSeqs s) docId of Some n \<Rightarrow> n | None \<Rightarrow> getLastSeq docId)) s"

definition resubscribeAll :: "(string \<Rightarrow> int) \<Rightarrow> 'p sync_client \<Rightarrow> 'p sync_client" where
  "resubscribeAll getLastSeq s = foldl (resubscribe_one getLastSeq) s (sc_subscriptions s)"

definition stagePresence :: "string \<Rightarrow> 'p \<Rightarrow> 'p sync_client \<Rightarrow> 'p sync_client" where
  "stagePresence docId d s = s\<lparr>sc_docPresence := map_set docId d (sc_docPresence s)\<rparr>"

definition sendPresence :: "string \<Rightarrow> 'p \<Rightarrow> 'p sync_client \<Rightarrow> 'p sync_client" where
  "sendPresence docId d s = sendMsg (MPresence docId d) s"

subsection \<open>Requests\<close>

definition changePassword :: "string \<Rightarrow> string \<Rightarrow> string \<Rightarrow> string option \<Rightarrow> string option \<Rightarrow> 'p sync_client \<Rightarrow> nat \<times> 'p sync_client" where
  "changePassword oldHash newHash wrappedKey wrappedPriv wrappedSign s =
     awaitConfirmation ''password_change_ok''
       (MChangePassword oldHash newHash wrappedKey (or_undefined wrappedPriv) (or_undefined wrappedSign)) s"

definition createVault :: "string \<Rightarrow> string \<Rightarrow> string \<Rightarrow> 'p sync_client \<Rightarrow> nat \<times> 'p sync_client" where
  "createVault vaultId encKey senderPub s =
     awaitConfirmation (''vault_created:'' @ vaultId) (MCreateVault vaultId encKey senderPub) s"

definition createVaultFireAndForget :: "string \<Rightarrow> string \<Rightarrow> string \<Rightarrow> 'p sync_client \<Rightarrow> 'p sync_client" where
  "createVaultFireAndForget vaultId encKey senderPub s = sendMsg (MCreateVault vaultId encKey senderPub) s"

definition removeFromVault :: "string \<Rightarrow> string \<Rightarrow> 'p sync_client \<Rightarrow> nat \<times> 'p sync_client" where
  "removeFromVault vaultId target s = awaitConfirmation ''vault_member_removed'' (MRemove vaultId target) s"

definition transferOwnership :: "string \<Rightarrow> string \<Rightarrow> 'p sync_client \<Rightarrow> nat \<times> 'p sync_client" where
  "transferOwnership vaultId newOwner s = awaitConfirmation ''transfer_ok'' (MTransfer vaultId newOwner) s"

definition changeRole :: "string \<Rightarrow> string \<Rightarrow> string \<Rightarrow> 'p sync_client \<Rightarrow> nat \<times> 'p sync_client" where
  "changeRole vaultId target newRole s = awaitConfirmation ''role_change_ok'' (MChangeRole vaultId target newRole) s"

definition setIdentity :: "string \<Rightarrow> string \<Rightarrow> 'p sync_client \<Rightarrow> 'p sync_client" where
  "setIdentity pub wrapped s = sendMsg (MSetIdentity pub wrapped) s"

definition setKey :: "string \<Rightarrow> 'p sync_client \<Rightarrow> 'p sync_client" where
  "setKey wrappedKey s = sendMsg (MSetKey wrappedKey) s"

definition listVaults :: "'p sync_client \<Rightarrow> 'p sync_client" where
  "listVaults s = sendMsg MListVaults s"

definition inviteToVault :: "string \<Rightarrow> string \<Rightarrow> string \<Rightarrow> string \<Rightarrow> string option \<Rightarrow> 'p sync_client \<Rightarrow> 'p sync_client" where
  "inviteToVault vaultId target encKey senderPub role s =
     sendMsg (MInvite vaultId target encKey senderPub (case role of None \<Rightarrow> ''editor'' | Some r \<Rightarrow> r)) s"

definition listVaultMembers :: "string \<Rightarrow> 'p sync_client \<Rightarrow> 'p sync_client" where
  "listVaultMembers vaultId s = sendMsg (MListMembers vaultId) s"

definition deleteVault :: "string \<Rightarrow> 'p sync_client \<Rightarrow> 'p sync_client" where
  "deleteVault vaultId s = sendMsg (MDeleteVault vaultId) s"

definition setSigningIdentity :: "string \<Rightarrow> string \<Rightarrow> 'p sync_client \<Rightarrow> 'p sync_client" where
  "setSigningIdentity pub wrapped s = sendMsg (MSetSigningIdentity pub wrapped) s"

definition sc_rotateVaultKey :: "string \<Rightarrow> key_update list \<Rightarrow> 'p sync_client \<Rightarrow> 'p sync_client" where
  "sc_rotateVaultKey vaultId members s = sendMsg (MRotate vaultId members) s"

definition purge :: "'p sync_client \<Rightarrow> 'p sync_client" where
  "purge s = sendMsg MPurge s"

definition disconnect :: "'p sync_client \<Rightarrow> 'p sync_client" where
  "disconnect s =
     (let s1 = unlistenBrowserEvents (stopHeartbeat (s\<lparr>sc_intentionalClose := True\<rparr>));
          s2 = s1\<lparr>sc_reconnectTimer := None\<rparr>;
          s3 = (reject_all_lookups ''Disconnected'' s2)\<lparr>sc_lookupResolvers := []\<rparr>
      in ws_close s3)"

subsection \<open>Inbound messages\<close>

definition handle_error :: "'p server_msg \<Rightarrow> 'p sync_client \<Rightarrow> 'p sync_client" where
  "handle_error m s =
     (if sm_message m \<in> {Some ''auth_failed'', Some ''user_not_found'', Some ''user_already_exists''} then
        call (CbAuthError (or_empty (sm_message m)))
          (call (CbStatus StDisconnected) (ws_close (s\<lparr>sc_intentionalClose := True\<rparr>)))
      else if sm_message m = Some ''rate_limited'' then call (CbRateLimited (sm_retry_after_ms m)) s
      else
        let err = (case sm_message m of None \<Rightarrow> ''Server error'' | Some e \<Rightarrow> e)
        in reject_all_lookups err (reject_all_confirms err s))"

definition handle_sync :: "webcrypto \<Rightarrow> ('p sync_client \<Rightarrow> 'p sync_client) \<Rightarrow> 'p server_msg \<Rightarrow> 'p sync_client \<Rightarrow> 'p sync_client" where
  "handle_sync C during m s =
     (if truthy (sm_payload m) \<and> sm_seq m \<noteq> None \<and> truthy (sm_doc_id m) then
        let docId = the (sm_doc_id m) in
        case resolveKey docId s of
          None \<Rightarrow> s
        | Some key \<Rightarrow>
            let s1 = (case Option.bind (fromBase64 (the (sm_payload m))) (\<lambda>e. decrypt C e key) of
                        None \<Rightarrow> during s
                      | Some plaintext \<Rightarrow>
                          during (call (CbRemoteChange docId plaintext (the (sm_seq m)) (sm_sender_user_id m)) (during s)))
            in (case sm_presence m of
                  Some d \<Rightarrow> if truthy (sm_from_device m)
                            then call (CbPresence docId (the (sm_from_device m)) d (sm_sender_user_id m)) s1 else s1
                | None \<Rightarrow> s1)
      else s)"

definition handle_lookup :: "'p server_msg \<Rightarrow> 'p sync_client \<Rightarrow> 'p sync_client" where
  "handle_lookup m s =
     (let targetId = or_empty (sm_target_user_id m)
      in case map_get (sc_lookupResolvers s) targetId of
           None \<Rightarrow> s
         | Some p \<Rightarrow>
             settle p (Resolved (Some (targetId, or_empty (sm_target_public_key m))))
               (s\<lparr>sc_lookupTimers := map_delete p (sc_lookupTimers s),
                  sc_lookupResolvers := map_delete targetId (sc_lookupResolvers s)\<rparr>))"

definition handle_connected :: "('p sync_client \<Rightarrow> 'p sync_client) \<Rightarrow> (string \<Rightarrow> int) \<Rightarrow> 'p server_msg \<Rightarrow> 'p sync_client \<Rightarrow> 'p sync_client" where
  "handle_connected during getLastSeq m s =
     (let s1 = call (CbStatus StConnected) (s\<lparr>sc_isSignup := False\<rparr>);
          s2 = during (call (CbConnected (or_undefined (sm_payload m)) (or_undefined (sm_public_key m))
                 (or_undefined (sm_wrapped_private_key m)) (or_undefined (sm_signing_public_key m))
                 (or_undefined (sm_wrapped_signing_private_key m))) s1)
      in resubscribeAll getLastSeq s2)"

definition handleMessage ::
  "webcrypto \<Rightarrow> ('p sync_client \<Rightarrow> 'p sync_client) \<Rightarrow> (string \<Rightarrow> int) \<Rightarrow> 'p server_msg option \<Rightarrow> 'p sync_client \<Rightarrow> 'p sync_client" where
  "handleMessage C during getLastSeq mo s =
     (case mo of None \<Rightarrow> s | Some m \<Rightarrow>
      let t = sm_type m; vid = or_empty (sm_vault_id m) in
      if t = ''connected'' then handle_connected during getLastSeq m s
      else if t = ''sync'' then handle_sync C during m s
      else if t = ''caught_up'' then
        (if truthy (sm_doc_id m) then
           let d = the (sm_doc_id m); n = (case sm_latest_seq m of None \<Rightarrow> 0 | Some n \<Rightarrow> n)
           in call (CbCaughtUp d n) (s\<lparr>sc_lastSeqs := map_set d n (sc_lastSeqs s)\<rparr>)
         else s)
      else if t = ''ack'' then
        (if truthy (sm_doc_id m) \<and> sm_seq m \<noteq> None then call (CbAck (the (sm_doc_id m)) (the (sm_seq m))) s else s)
      else if t = ''push_error'' then
        (if truthy (sm_doc_id m)
         then call (CbPushError (the (sm_doc_id m)) (case sm_message m of None \<Rightarrow> ''unknown'' | Some e \<Rightarrow> e)) s else s)
      else if t = ''purged'' then call CbPurged s
      else if t = ''presence'' then
        (case sm_presence m of
           Some d \<Rightarrow> if truthy (sm_from_device m)
                     then call (CbPresence (or_empty (sm_doc_id m)) (the (sm_from_device m)) d (sm_sender_user_id m)) s
                     else s
         | None \<Rightarrow> s)
      else if t = ''password_changed'' then call CbPasswordChanged s
      else if t = ''password_change_ok'' then confirm_resolve ''password_change_ok'' s
      else if t = ''vault_list'' then
        during (call (CbVaultList (case sm_vaults m of None \<Rightarrow> [] | Some vs \<Rightarrow> vs)) s)
      else if t = ''vault_created'' then
        call (CbVaultCreated vid) (confirm_resolve (''vault_created:'' @ vid) s)
      else if t = ''vault_invited'' then
        call (CbVaultInvited vid (or_empty (sm_encrypted_vault_key m))
               (case sm_role m of None \<Rightarrow> ''editor'' | Some r \<Rightarrow> r)) s
      else if t = ''vault_removed'' then call (CbVaultRemoved vid) s
      else if t = ''vault_deleted'' then call (CbVaultDeleted vid) s
      else if t = ''vault_members'' then
        call (CbVaultMembers vid (case sm_members m of None \<Rightarrow> [] | Some ms \<Rightarrow> ms)) s
      else if t = ''user_lookup'' then handle_lookup m s
      else if t = ''ownership_transferred'' then
        call (CbOwnershipTransferred vid (or_empty (sm_target_user_id m))) (confirm_resolve ''transfer_ok'' s)
      else if t = ''ownership_received'' then call (CbOwnershipReceived vid (or_empty (sm_target_user_id m))) s
      else if t = ''role_changed'' then
        call (CbRoleChanged vid (or_empty (sm_target_user_id m)) (or_empty (sm_new_role m)))
          (confirm_resolve ''role_change_ok'' s)
      else if t = ''vault_key_rotated'' then call (CbVaultKeyRotated vid) s
      else if t = ''vault_member_removed'' then confirm_resolve ''vault_member_removed'' s
      else if t = ''error'' then handle_error m s
      else s)"

text \<open>The next message of a queue is handled: messages of one connection strictly in order.\<close>

definition process_queue ::
  "webcrypto \<Rightarrow> ('p sync_client \<Rightarrow> 'p sync_client) \<Rightarrow> (string \<Rightarrow> int) \<Rightarrow> nat \<Rightarrow> 'p sync_client \<Rightarrow> 'p sync_client" where
  "process_queue C during getLastSeq i s =
     (if i < length (sc_queues s) then
        (case sc_queues s ! i of
           [] \<Rightarrow> s
         | m # r \<Rightarrow> handleMessage C during getLastSeq m (s\<lparr>sc_queues := (sc_queues s)[i := r]\<rparr>))
      else s)"

subsection \<open>Runs\<close>

text \<open>Everything that can happen to a client: calls of its methods, socket events, timers, and the
  handling of a queued message with the events that happen while its handler waits. The socket
  opens only while connecting and delivers only while open or closing. The app calls \<^verbatim>\<open>connect\<close>
  once, on a new client; later sockets come from the reconnect timer, which is only set when
  the previous socket has closed, so a client never has two sockets or two such timers.\<close>

datatype 'p sc_event =
    SeConnect
  | SeWsOpen
  | SeWsMessage "'p server_msg option"
  | SeWsClose
  | SeHeartbeatTick
  | SeHeartbeatTimeout nat
  | SeProbe
  | SeReconnectTimer
  | SeProcess bytes nat "string \<Rightarrow> int" "'p sc_event list"
  | SePush bytes string bytes "'p sc_event list"
  | SeSubscribe string "int option" int
  | SeUnsubscribe string
  | SeStagePresence string 'p
  | SeSend "'p client_msg"
  | SeAwait string "'p client_msg"
  | SeLookup string
  | SeConfirmTimeout nat
  | SeLookupTimeout nat
  | SeSetKeys "crypto_key option" "(string \<Rightarrow> crypto_key option) option"
  | SeDisconnect

fun sc_step :: "webcrypto \<Rightarrow> 'p sc_event \<Rightarrow> 'p sync_client \<Rightarrow> 'p sync_client"
  and sc_run :: "webcrypto \<Rightarrow> 'p sc_event list \<Rightarrow> 'p sync_client \<Rightarrow> 'p sync_client" where
  "sc_step C SeConnect = (\<lambda>s. if sc_ws s = None then connect s else s)"
| "sc_step C SeWsOpen = (\<lambda>s. if sc_ws s = Some CONNECTING then on_open s else s)"
| "sc_step C (SeWsMessage m) =
     (\<lambda>s. if sc_ws s = Some OPEN \<or> sc_ws s = Some CLOSING then on_message m s else s)"
| "sc_step C SeWsClose = (\<lambda>s. if sc_ws s \<in> {None, Some CLOSED} then s else on_close s)"
| "sc_step C SeHeartbeatTick = heartbeat_tick"
| "sc_step C (SeHeartbeatTimeout t) = heartbeat_timeout t"
| "sc_step C SeProbe = probe"
| "sc_step C SeReconnectTimer = reconnect_fire"
| "sc_step C (SeProcess iv i getLastSeq evs) = process_queue C (sc_run C evs) getLastSeq i"
| "sc_step C (SePush iv docId snapshot evs) = (\<lambda>s. snd (push C iv (sc_run C evs) docId snapshot s))"
| "sc_step C (SeSubscribe d lastSeq stored) = subscribe d lastSeq stored"
| "sc_step C (SeUnsubscribe d) = unsubscribe d"
| "sc_step C (SeStagePresence d p) = stagePresence d p"
| "sc_step C (SeSend m) = sendMsg m"
| "sc_step C (SeAwait t m) = (\<lambda>s. snd (awaitConfirmation t m s))"
| "sc_step C (SeLookup u) = (\<lambda>s. snd (lookupUser u s))"
| "sc_step C (SeConfirmTimeout p) = confirm_timeout p"
| "sc_step C (SeLookupTimeout p) = lookup_timeout p"
| "sc_step C (SeSetKeys k f) = (\<lambda>s. s\<lparr>sc_encKey := k, sc_getDocKey := f\<rparr>)"
| "sc_step C SeDisconnect = disconnect"
| "sc_run C [] = (\<lambda>s. s)"
| "sc_run C (e # es) = (\<lambda>s. sc_run C es (sc_step C e s))"

subsection \<open>What the building blocks leave unchanged\<close>


text \<open>The part of the state that belongs to the connection; most operations leave it alone.\<close>

definition link :: "'p sync_client \<Rightarrow> ready_state option \<times> nat \<times> nat option \<times> bool \<times> 'p client_msg list" where
  "link s = (sc_ws s, sc_reconnectDelay s, sc_reconnectTimer s, sc_intentionalClose s, sc_sent s)"

lemma link_update [simp]:
  "link (s\<lparr>sc_lastSeqs := l\<rparr>) = link s" "link (s\<lparr>sc_isSignup := b\<rparr>) = link s"
  "link (s\<lparr>sc_lookupResolvers := r\<rparr>) = link s" "link (s\<lparr>sc_queues := q\<rparr>) = link s"
  "link (s\<lparr>sc_docPresence := d\<rparr>) = link s" "link (s\<lparr>sc_nextPromise := n\<rparr>) = link s"
  "link (s\<lparr>sc_listening := b\<rparr>) = link s" "link (s\<lparr>sc_subscriptions := ss\<rparr>) = link s"
  "link (s\<lparr>sc_lookupTimers := lt\<rparr>) = link s" "link (s\<lparr>sc_confirmTimers := ct\<rparr>) = link s"
  "link (s\<lparr>sc_confirmResolvers := r\<rparr>) = link s" "link (s\<lparr>sc_encKey := k\<rparr>) = link s"
  "link (s\<lparr>sc_getDocKey := f\<rparr>) = link s" "link (s\<lparr>sc_heartbeatTimer := b\<rparr>) = link s"
  "link (s\<lparr>sc_liveTimeouts := ts\<rparr>) = link s" "link (s\<lparr>sc_heartbeatTimeout := ho\<rparr>) = link s"
  "link (s\<lparr>sc_nextTimeout := n\<rparr>) = link s" "link (s\<lparr>sc_settled := st\<rparr>) = link s"
  "link (s\<lparr>sc_calls := cs\<rparr>) = link s"
  by (simp_all add: link_def)

lemma link_call [simp]: "link (call c s) = link s"
  by (simp add: link_def call_def)

lemma link_settle [simp]: "link (settle p r s) = link s"
  by (simp add: link_def settle_def)

lemma link_confirm_settle [simp]: "link (confirm_settle t p r s) = link s"
  by (simp add: confirm_settle_def)

lemma link_confirm_resolve [simp]: "link (confirm_resolve t s) = link s"
  by (simp add: confirm_resolve_def split: option.split)

lemma link_reject_lookup [simp]: "link (reject_lookup e s x) = link s"
  by (simp add: reject_lookup_def)

text \<open>A quantity that each round of a loop leaves alone is left alone by the loop.\<close>

lemma foldl_frame: "(\<And>s x. f (g s x) = f s) \<Longrightarrow> f (foldl g s xs) = f s"
  by (induction xs arbitrary: s) auto

lemma link_reject_all [simp]:
  "link (reject_all_lookups e s) = link s" "link (reject_all_confirms e s) = link s"
  unfolding reject_all_lookups_def reject_all_confirms_def by (rule foldl_frame, simp)+

lemma link_clearHeartbeatTimeout [simp]: "link (clearHeartbeatTimeout s) = link s"
  by (simp add: clearHeartbeatTimeout_def link_def split: option.split)

lemma link_armTimeout [simp]: "link (armTimeout s) = link s"
  by (simp add: armTimeout_def link_def)

lemma link_stopHeartbeat [simp]: "link (stopHeartbeat s) = link s"
  by (simp add: stopHeartbeat_def)

lemma link_startHeartbeat [simp]: "link (startHeartbeat s) = link s"
proof -
  have "link (startHeartbeat s) = link (stopHeartbeat s)"
    by (simp add: startHeartbeat_def link_def)
  then show ?thesis by simp
qed

lemma link_on_message [simp]: "link (on_message m s) = link s"
proof -
  have "link (on_message m s) = link (clearHeartbeatTimeout s)"
    by (simp add: on_message_def link_def)
  then show ?thesis by simp
qed

lemma link_confirm_timeout [simp]: "link (confirm_timeout p s) = link s"
  by (simp add: confirm_timeout_def split: option.split)

lemma link_lookup_timeout [simp]: "link (lookup_timeout p s) = link s"
  by (simp add: lookup_timeout_def split: option.split)

lemma link_handle_lookup [simp]: "link (handle_lookup m s) = link s"
  by (simp add: handle_lookup_def Let_def split: option.split)

subsection \<open>Invariants of the connection\<close>

text \<open>A predicate on the connection that the operations on it keep is kept by every run.\<close>

locale link_invariant =
  fixes P :: "'p sync_client \<Rightarrow> bool"
  assumes frame: "P s \<Longrightarrow> link t = link s \<Longrightarrow> P t"
    and send: "P s \<Longrightarrow> P (snd (ws_send m s))"
    and closing: "P s \<Longrightarrow> P (ws_close s)"
    and intentional: "P s \<Longrightarrow> P (s\<lparr>sc_intentionalClose := True\<rparr>)"
    and no_timer: "P s \<Longrightarrow> P (s\<lparr>sc_reconnectTimer := None\<rparr>)"
    and connecting: "P s \<Longrightarrow> sc_ws s = None \<Longrightarrow> P (connect s)"
    and opened: "P s \<Longrightarrow> sc_ws s = Some CONNECTING \<Longrightarrow> P (on_open s)"
    and closed: "P s \<Longrightarrow> sc_ws s \<in> {Some CONNECTING, Some OPEN, Some CLOSING} \<Longrightarrow> P (on_close s)"
    and reconnecting: "P s \<Longrightarrow> P (reconnect_fire s)"
begin

lemma keep: "link t = link s \<Longrightarrow> P t \<longleftrightarrow> P s"
  using frame [of s t] frame [of t s] by auto

lemma sendMsg: "P s \<Longrightarrow> P (sendMsg m s)"
  using send [of s m] by (cases "isOpen s") (simp_all add: sendMsg_def ws_send_def isOpen_def)

lemma resubscribeAll: "P s \<Longrightarrow> P (resubscribeAll g s)"
proof -
  have "P s \<Longrightarrow> P (foldl (resubscribe_one g) s ds)" for ds
    by (induction ds arbitrary: s) (simp_all add: resubscribe_one_def sendMsg)
  then show "P s \<Longrightarrow> P (resubscribeAll g s)" by (simp add: resubscribeAll_def)
qed

lemma disconnect:
  assumes "P s" shows "P (disconnect s)"
proof -
  define s1 where "s1 = unlistenBrowserEvents (stopHeartbeat (s\<lparr>sc_intentionalClose := True\<rparr>))"
  have "link s1 = link (stopHeartbeat (s\<lparr>sc_intentionalClose := True\<rparr>))"
    by (simp add: s1_def unlistenBrowserEvents_def link_def)
  then have "P s1" by (intro frame [OF intentional [OF assms]]) simp
  define s2 where "s2 = s1\<lparr>sc_reconnectTimer := None\<rparr>"
  have "P s2" using no_timer [OF \<open>P s1\<close>] by (simp add: s2_def)
  have "P ((reject_all_lookups e s2)\<lparr>sc_lookupResolvers := []\<rparr>)" for e
    by (intro frame [OF \<open>P s2\<close>]) simp
  then show ?thesis
    by (simp add: disconnect_def Let_def closing flip: s1_def s2_def)
qed

lemma handleMessage:
  assumes during: "\<And>t. P t \<Longrightarrow> P (during t)" and "P s"
  shows "P (handleMessage C during g mo s)"
proof -
  have *: "P (call c t) \<longleftrightarrow> P t" "P (confirm_resolve x t) \<longleftrightarrow> P t" "P (handle_lookup m t) \<longleftrightarrow> P t"
    "P (reject_all_lookups e t) \<longleftrightarrow> P t" "P (reject_all_confirms e t) \<longleftrightarrow> P t"
    "P (t\<lparr>sc_lastSeqs := l\<rparr>) \<longleftrightarrow> P t" "P (t\<lparr>sc_isSignup := b\<rparr>) \<longleftrightarrow> P t" for c t x m e l b
    by (rule keep, simp)+
  have "P (handle_error m s)" for m
    using \<open>P s\<close> by (simp add: handle_error_def * Let_def closing intentional)
  moreover have "P (handle_sync C during m s)" for m
    using \<open>P s\<close> by (auto simp: handle_sync_def * Let_def during split: option.split)
  moreover have "P (handle_connected during g m s)" for m
    using \<open>P s\<close> by (simp add: handle_connected_def * Let_def during resubscribeAll)
  ultimately show ?thesis
    using \<open>P s\<close> by (simp add: handleMessage_def * Let_def during split: option.split)
qed

lemma step_run:
  fixes e :: "'p sc_event" and es :: "'p sc_event list"
  shows "\<And>s. P s \<Longrightarrow> P (sc_step C e s)" and "\<And>s. P s \<Longrightarrow> P (sc_run C es s)"
proof (induction C e and C es rule: sc_step_sc_run.induct)
  case (4 C)
  then show ?case
    by (cases "sc_ws s"; cases "the (sc_ws s)") (auto intro: closed)
next
  case (5 C)
  have "P (armTimeout (sendMsg MPing s))"
    by (rule frame [OF sendMsg [OF 5]]) simp
  with 5 show ?case by (simp add: heartbeat_tick_def)
next
  case (6 C t)
  have "P (call (CbStatus StDisconnected) (s\<lparr>sc_liveTimeouts := ts\<rparr>))" for ts
    by (rule frame [OF 6]) simp
  then show ?case using 6 by (simp add: heartbeat_timeout_def closing)
next
  case (7 C)
  have "P (armTimeout (clearHeartbeatTimeout (sendMsg MPing s)))"
    by (rule frame [OF sendMsg [OF 7]]) simp
  with 7 show ?case by (simp add: probe_def)
next
  case (9 C iv i g evs)
  have "P (handleMessage C (sc_run C evs) g m (s\<lparr>sc_queues := q\<rparr>))" for m q
    by (rule handleMessage [OF 9(1)], assumption, rule frame [OF 9(2)]) simp
  then show ?case using 9(2) by (simp add: process_queue_def split: list.split)
next
  case (10 C iv d sn evs)
  have "P (snd (push_end C iv key d sn t))" if "P t" for key t
  proof -
    have "P (t\<lparr>sc_docPresence := dp\<rparr>)" for dp
      by (rule frame [OF that]) simp
    then show ?thesis
      using that by (auto simp: push_end_def Let_def case_prod_beta send split: option.split)
  qed
  then show ?case using 10 by (simp add: push_def split: sum.split)
next
  case (11 C d l st)
  show ?case
    unfolding sc_step.simps subscribe_def Let_def by (intro sendMsg frame [OF 11]) simp
next
  case (12 C d)
  show ?case
    unfolding sc_step.simps unsubscribe_def by (intro sendMsg frame [OF 12]) simp
next
  case (13 C d p)
  show ?case by (rule frame [OF 13]) (simp add: stagePresence_def)
next
  case (15 C t m)
  have "P (settle p r (s\<lparr>sc_nextPromise := n\<rparr>))" for p r n
    by (rule frame [OF 15]) simp
  moreover have "P (sendMsg m (s\<lparr>sc_nextPromise := n, sc_confirmTimers := ts, sc_confirmResolvers := rs\<rparr>))" for n ts rs
    by (intro sendMsg frame [OF 15]) simp
  ultimately show ?case by (simp add: awaitConfirmation_def Let_def)
next
  case (16 C u)
  show ?case
    unfolding sc_step.simps lookupUser_def Let_def snd_conv by (intro sendMsg frame [OF 16]) simp
qed (auto intro: frame connecting opened closed reconnecting sendMsg disconnect)

lemmas run = step_run(2)

end

subsection \<open>The reconnect delay\<close>

definition backoff_ok :: "'p sync_client \<Rightarrow> bool" where
  "backoff_ok s \<longleftrightarrow> 1000 \<le> sc_reconnectDelay s \<and> sc_reconnectDelay s \<le> 30000 \<and>
     (case sc_reconnectTimer s of None \<Rightarrow> True | Some d \<Rightarrow> 1000 \<le> d \<and> d \<le> 30000)"

lemma backoff_ok_link:
  "backoff_ok s \<longleftrightarrow> (case link s of (ws, delay, timer, ic, sent) \<Rightarrow>
     1000 \<le> delay \<and> delay \<le> 30000 \<and> (case timer of None \<Rightarrow> True | Some d \<Rightarrow> 1000 \<le> d \<and> d \<le> 30000))"
  by (simp add: backoff_ok_def link_def)

lemma ws_send_cases: "snd (ws_send m s) = s \<or> snd (ws_send m s) = s\<lparr>sc_sent := sc_sent s @ [m]\<rparr>"
  by (simp add: ws_send_def split: option.split ready_state.split)

lemma ws_close_link:
  "link (ws_close s) = (if sc_ws s \<in> {Some OPEN, Some CONNECTING} then Some CLOSING else sc_ws s,
     sc_reconnectDelay s, sc_reconnectTimer s, sc_intentionalClose s, sc_sent s)"
  by (simp add: ws_close_def link_def split: option.split ready_state.split)

lemma link_connect: "link (connect s) = (Some CONNECTING, sc_reconnectDelay s, sc_reconnectTimer s, False, sc_sent s)"
  by (simp add: connect_def Let_def listenBrowserEvents_def call_def link_def)

lemma link_on_open:
  "link (on_open s) = (Some OPEN, 1000, sc_reconnectTimer s, sc_intentionalClose s,
     sc_sent s @ [MConnect (sc_userId s) (sc_deviceId s) (sc_authHash s) (sc_isSignup s)
                   (or_undefined (sc_wrappedKey s))])"
  unfolding on_open_def Let_def link_startHeartbeat by (simp add: ws_send_def link_def)

lemma link_on_close:
  "link (on_close s) = (Some CLOSED, sc_reconnectDelay s,
     if sc_intentionalClose s then sc_reconnectTimer s else Some (sc_reconnectDelay s),
     sc_intentionalClose s, sc_sent s)"
proof -
  have "link (call (CbStatus StDisconnected) (stopHeartbeat (s\<lparr>sc_ws := Some CLOSED\<rparr>)))
        = link (s\<lparr>sc_ws := Some CLOSED\<rparr>)"
    by simp
  then show ?thesis
    by (simp add: on_close_def Let_def scheduleReconnect_def link_def)
qed

interpretation backoff: link_invariant "backoff_ok :: 'p sync_client \<Rightarrow> bool"
proof unfold_locales
  fix s t :: "'p sync_client" and m
  show "backoff_ok s \<Longrightarrow> link t = link s \<Longrightarrow> backoff_ok t" by (simp add: backoff_ok_link)
  show "backoff_ok (snd (ws_send m s))" if "backoff_ok s"
    using ws_send_cases [of m s] that by (auto simp: backoff_ok_def)
  show "backoff_ok s \<Longrightarrow> backoff_ok (ws_close s)"
    by (simp add: backoff_ok_link ws_close_link) (simp add: link_def)
  show "backoff_ok s \<Longrightarrow> backoff_ok (s\<lparr>sc_intentionalClose := True\<rparr>)" by (simp add: backoff_ok_def)
  show "backoff_ok s \<Longrightarrow> backoff_ok (s\<lparr>sc_reconnectTimer := None\<rparr>)" by (simp add: backoff_ok_def)
  show "backoff_ok s \<Longrightarrow> backoff_ok (connect s)"
    by (simp add: backoff_ok_link link_connect) (simp add: link_def)
  show "backoff_ok s \<Longrightarrow> backoff_ok (on_open s)"
    by (simp add: backoff_ok_link link_on_open) (simp add: link_def)
  show "backoff_ok s \<Longrightarrow> backoff_ok (on_close s)"
    by (simp add: backoff_ok_link link_on_close) (simp add: link_def)
  show "backoff_ok s \<Longrightarrow> backoff_ok (reconnect_fire s)"
    by (simp add: reconnect_fire_def backoff_ok_link link_connect split: option.split) (simp add: link_def)
qed

lemma failed_attempt:
  assumes "sc_ws s = Some CONNECTING" "\<not> sc_intentionalClose s"
  shows "sc_ws (sc_run C [SeWsClose, SeReconnectTimer] s) = Some CONNECTING"
    "\<not> sc_intentionalClose (sc_run C [SeWsClose, SeReconnectTimer] s)"
    "sc_reconnectDelay (sc_run C [SeWsClose, SeReconnectTimer] s) = min (2 * sc_reconnectDelay s) 30000"
proof -
  have c: "sc_reconnectTimer (on_close s) = Some (sc_reconnectDelay s)"
    "sc_reconnectDelay (on_close s) = sc_reconnectDelay s"
    using link_on_close [of s] assms(2) by (simp_all add: link_def)
  have "link (sc_run C [SeWsClose, SeReconnectTimer] s)
     = (Some CONNECTING, min (sc_reconnectDelay s * 2) 30000, None, False, sc_sent (on_close s))"
    using assms by (simp add: reconnect_fire_def c link_connect)
  then show "sc_ws (sc_run C [SeWsClose, SeReconnectTimer] s) = Some CONNECTING"
    "\<not> sc_intentionalClose (sc_run C [SeWsClose, SeReconnectTimer] s)"
    "sc_reconnectDelay (sc_run C [SeWsClose, SeReconnectTimer] s) = min (2 * sc_reconnectDelay s) 30000"
    by (simp_all add: link_def mult.commute)
qed

lemma sc_run_append: "sc_run C (es @ fs) s = sc_run C fs (sc_run C es s)"
  by (induction es arbitrary: s) simp_all

fun failed_attempts :: "nat \<Rightarrow> 'p sc_event list" where
  "failed_attempts 0 = []"
| "failed_attempts (Suc n) = failed_attempts n @ [SeWsClose, SeReconnectTimer]"

lemma failed_attempts_run:
  assumes "sc_ws s = Some CONNECTING" "\<not> sc_intentionalClose s" "sc_reconnectDelay s = 1000"
  shows "sc_ws (sc_run C (failed_attempts n) s) = Some CONNECTING \<and>
    \<not> sc_intentionalClose (sc_run C (failed_attempts n) s) \<and>
    sc_reconnectDelay (sc_run C (failed_attempts n) s) = min (1000 * 2 ^ n) 30000"
proof (induction n)
  case 0
  show ?case using assms by simp
next
  case (Suc n)
  then show ?case
    using failed_attempt [of "sc_run C (failed_attempts n) s" C]
    unfolding failed_attempts.simps sc_run_append by (auto simp: min_def)
qed

text \<open>Whatever a client goes through (calls, socket events, timers, messages and all
  interleavings of them), its reconnect delay and the delay of a pending reconnect timer stay
  between one and thirty seconds; \<open>n\<close> failed attempts in a row double it \<open>n\<close> times up to that
  bound, and a connection that opens resets it.\<close>

theorem reconnect_backoff:
  "let s0 = sc_new userId deviceId h isSignup encKey getDocKey wrappedKey :: 'p sync_client in
    backoff_ok (sc_run C evs s0) \<and>
    sc_reconnectDelay (sc_run C (failed_attempts n) (connect s0)) = min (1000 * 2 ^ n) 30000 \<and>
    sc_reconnectDelay (sc_run C (failed_attempts n @ [SeWsOpen]) (connect s0)) = 1000"
proof -
  define s0 :: "'p sync_client" where "s0 = sc_new userId deviceId h isSignup encKey getDocKey wrappedKey"
  have s0: "backoff_ok s0" by (simp add: backoff_ok_def s0_def sc_new_def)
  have c: "link (connect s0) = (Some CONNECTING, 1000, None, False, [])"
    unfolding link_connect by (simp add: s0_def sc_new_def)
  then have *: "sc_ws (connect s0) = Some CONNECTING" "\<not> sc_intentionalClose (connect s0)"
    "sc_reconnectDelay (connect s0) = 1000"
    by (simp_all add: link_def)
  have "link (sc_run C (failed_attempts n @ [SeWsOpen]) (connect s0))
      = link (on_open (sc_run C (failed_attempts n) (connect s0)))"
    using failed_attempts_run [OF *, of C n] by (simp add: sc_run_append)
  then have "sc_reconnectDelay (sc_run C (failed_attempts n @ [SeWsOpen]) (connect s0)) = 1000"
    unfolding link_on_open by (simp add: link_def)
  with backoff.run [OF s0] failed_attempts_run [OF *, of C n] show ?thesis
    by (simp add: s0_def Let_def)
qed

subsection \<open>After a disconnect\<close>

definition stopped :: "'p client_msg list \<Rightarrow> 'p sync_client \<Rightarrow> bool" where
  "stopped sent s \<longleftrightarrow> sc_ws s \<in> {Some CLOSING, Some CLOSED} \<and> sc_intentionalClose s \<and>
     sc_reconnectTimer s = None \<and> sc_sent s = sent"

lemma stopped_link:
  "stopped sent s \<longleftrightarrow> (case link s of (ws, delay, timer, ic, out) \<Rightarrow>
     ws \<in> {Some CLOSING, Some CLOSED} \<and> ic \<and> timer = None \<and> out = sent)"
  by (simp add: stopped_def link_def)

interpretation stopped: link_invariant "stopped sent :: 'p sync_client \<Rightarrow> bool" for sent
proof unfold_locales
  fix s t :: "'p sync_client" and m
  show "stopped sent s \<Longrightarrow> link t = link s \<Longrightarrow> stopped sent t" by (simp add: stopped_link)
  show "stopped sent s \<Longrightarrow> stopped sent (snd (ws_send m s))"
    by (auto simp: stopped_def ws_send_def)
  show "stopped sent s \<Longrightarrow> stopped sent (ws_close s)"
    by (auto simp: stopped_link ws_close_link) (auto simp: link_def)
  show "stopped sent s \<Longrightarrow> stopped sent (s\<lparr>sc_intentionalClose := True\<rparr>)" by (simp add: stopped_def)
  show "stopped sent s \<Longrightarrow> stopped sent (s\<lparr>sc_reconnectTimer := None\<rparr>)" by (simp add: stopped_def)
  show "stopped sent s \<Longrightarrow> sc_ws s = None \<Longrightarrow> stopped sent (connect s)" by (simp add: stopped_def)
  show "stopped sent s \<Longrightarrow> sc_ws s = Some CONNECTING \<Longrightarrow> stopped sent (on_open s)" by (simp add: stopped_def)
  show "stopped sent s \<Longrightarrow> stopped sent (on_close s)"
    by (simp add: stopped_link link_on_close) (simp add: link_def)
  show "stopped sent s \<Longrightarrow> stopped sent (reconnect_fire s)"
    by (simp add: reconnect_fire_def stopped_def)
qed

lemma disconnect_stops:
  assumes "sc_ws s \<noteq> None"
  shows "stopped (sc_sent s) (disconnect s)"
proof -
  define s2 where "s2 = (unlistenBrowserEvents (stopHeartbeat (s\<lparr>sc_intentionalClose := True\<rparr>)))\<lparr>sc_reconnectTimer := None\<rparr>"
  define s3 where "s3 = (reject_all_lookups ''Disconnected'' s2)\<lparr>sc_lookupResolvers := []\<rparr>"
  have "link (unlistenBrowserEvents (stopHeartbeat (s\<lparr>sc_intentionalClose := True\<rparr>)))
      = link (s\<lparr>sc_intentionalClose := True\<rparr>)"
    by (simp add: unlistenBrowserEvents_def)
  then have "link s2 = (sc_ws s, sc_reconnectDelay s, None, True, sc_sent s)"
    by (simp add: s2_def link_def)
  then have l3: "link s3 = (sc_ws s, sc_reconnectDelay s, None, True, sc_sent s)"
    by (simp add: s3_def)
  have "disconnect s = ws_close s3"
    by (simp add: disconnect_def Let_def s3_def s2_def)
  moreover have "stopped (sc_sent s) (ws_close s3)"
    using assms l3 unfolding stopped_link ws_close_link
    by (cases "the (sc_ws s)") (auto simp: link_def)
  ultimately show ?thesis by simp
qed

text \<open>After \<^verbatim>\<open>disconnect\<close> (sign-out) a client is finished: whatever happens next, messages still
  queued, pushes still encrypting, timers, network events, it transmits nothing more, its socket
  is closing or closed and no reconnect is scheduled.\<close>

theorem disconnect_is_final:
  assumes "sc_ws s \<noteq> None"
  shows "stopped (sc_sent s) (sc_run C (SeDisconnect # evs) s)"
  using stopped.run [OF disconnect_stops [OF assms]] by simp

theorem disconnect_is_final_witness:
  "stopped [MConnect ''u'' ''d'' ''h'' False None]
     (sc_run demo_crypto [SeDisconnect, SeWsClose, SeReconnectTimer, SeSend (MPresence ''doc'' (1 :: nat))]
       (sc_run demo_crypto [SeConnect, SeWsOpen] (sc_new ''u'' ''d'' ''h'' False None None None)))"
proof -
  let ?s = "sc_run demo_crypto [SeConnect, SeWsOpen]
    (sc_new ''u'' ''d'' ''h'' False None None None :: nat sync_client)"
  have l: "link ?s = (Some OPEN, 1000, None, False, [MConnect ''u'' ''d'' ''h'' False None])"
    by code_simp
  then have "sc_ws ?s \<noteq> None" "sc_sent ?s = [MConnect ''u'' ''d'' ''h'' False None]"
    by (simp_all add: link_def)
  with disconnect_is_final [of ?s demo_crypto "[SeWsClose, SeReconnectTimer, SeSend (MPresence ''doc'' 1)]"]
  show ?thesis by simp
qed

subsection \<open>Promises settle\<close>

text \<open>The promises that have settled, those a resolver entry refers to, those with a timer.\<close>

definition settled_ids :: "'p sync_client \<Rightarrow> nat set" where
  "settled_ids s = fst ` set (sc_settled s)"

definition resolver_ids :: "'p sync_client \<Rightarrow> nat set" where
  "resolver_ids s = snd ` set (sc_confirmResolvers s) \<union> snd ` set (sc_lookupResolvers s)"

definition timer_ids :: "'p sync_client \<Rightarrow> nat set" where
  "timer_ids s = fst ` set (sc_confirmTimers s) \<union> fst ` set (sc_lookupTimers s)"

definition pending_ok :: "'p sync_client \<Rightarrow> bool" where
  "pending_ok s \<longleftrightarrow> distinct (map fst (sc_settled s)) \<and>
     settled_ids s \<union> resolver_ids s \<union> timer_ids s \<subseteq> {..<sc_nextPromise s} \<and>
     {..<sc_nextPromise s} \<subseteq> settled_ids s \<union> timer_ids s"

text \<open>The part of the state that belongs to promises.\<close>

definition promises :: "'p sync_client \<Rightarrow> nat \<times> (nat \<times> settlement) list \<times> (string \<times> nat) list \<times>
    (nat \<times> string) list \<times> (string \<times> nat) list \<times> (nat \<times> string) list" where
  "promises s = (sc_nextPromise s, sc_settled s, sc_confirmResolvers s, sc_confirmTimers s,
     sc_lookupResolvers s, sc_lookupTimers s)"

lemma pending_ok_promises: "promises t = promises s \<Longrightarrow> pending_ok t \<longleftrightarrow> pending_ok s"
  by (simp add: promises_def pending_ok_def settled_ids_def resolver_ids_def timer_ids_def)

lemma promises_update [simp]:
  "promises (s\<lparr>sc_lastSeqs := l\<rparr>) = promises s" "promises (s\<lparr>sc_isSignup := b\<rparr>) = promises s"
  "promises (s\<lparr>sc_queues := q\<rparr>) = promises s" "promises (s\<lparr>sc_docPresence := d\<rparr>) = promises s"
  "promises (s\<lparr>sc_listening := b\<rparr>) = promises s" "promises (s\<lparr>sc_subscriptions := ss\<rparr>) = promises s"
  "promises (s\<lparr>sc_encKey := k\<rparr>) = promises s" "promises (s\<lparr>sc_getDocKey := f\<rparr>) = promises s"
  "promises (s\<lparr>sc_heartbeatTimer := b\<rparr>) = promises s" "promises (s\<lparr>sc_liveTimeouts := ts\<rparr>) = promises s"
  "promises (s\<lparr>sc_heartbeatTimeout := ho\<rparr>) = promises s" "promises (s\<lparr>sc_nextTimeout := n\<rparr>) = promises s"
  "promises (s\<lparr>sc_calls := cs\<rparr>) = promises s" "promises (s\<lparr>sc_ws := w\<rparr>) = promises s"
  "promises (s\<lparr>sc_sent := ms\<rparr>) = promises s" "promises (s\<lparr>sc_intentionalClose := b\<rparr>) = promises s"
  "promises (s\<lparr>sc_reconnectDelay := n\<rparr>) = promises s" "promises (s\<lparr>sc_reconnectTimer := rt\<rparr>) = promises s"
  by (simp_all add: promises_def)

lemma promises_simple [simp]:
  "promises (call c s) = promises s" "promises (sendMsg m s) = promises s"
  "promises (snd (ws_send m s)) = promises s" "promises (ws_close s) = promises s"
  "promises (clearHeartbeatTimeout s) = promises s" "promises (armTimeout s) = promises s"
  "promises (stopHeartbeat s) = promises s" "promises (startHeartbeat s) = promises s"
  "promises (heartbeat_tick s) = promises s" "promises (heartbeat_timeout t s) = promises s"
  "promises (probe s) = promises s" "promises (connect s) = promises s"
  "promises (on_open s) = promises s" "promises (on_close s) = promises s"
  "promises (on_message mo s) = promises s" "promises (reconnect_fire s) = promises s"
  by (simp_all add: promises_def call_def sendMsg_def ws_send_def ws_close_def clearHeartbeatTimeout_def
      armTimeout_def stopHeartbeat_def startHeartbeat_def heartbeat_tick_def heartbeat_timeout_def
      probe_def connect_def listenBrowserEvents_def on_open_def on_close_def scheduleReconnect_def
      on_message_def reconnect_fire_def Let_def split: option.split ready_state.split)

lemma promises_requests [simp]:
  "promises (resubscribeAll g s) = promises s" "promises (subscribe d l n s) = promises s"
  "promises (unsubscribe d s) = promises s" "promises (stagePresence d p s) = promises s"
proof -
  show "promises (resubscribeAll g s) = promises s"
    unfolding resubscribeAll_def by (rule foldl_frame) (simp add: resubscribe_one_def)
  show "promises (subscribe d l n s) = promises s" "promises (unsubscribe d s) = promises s"
    "promises (stagePresence d p s) = promises s"
    by (simp_all add: subscribe_def unsubscribe_def stagePresence_def Let_def)
qed

lemma promises_push [simp]: "promises (snd (push_end C iv key d sn s)) = promises s"
  by (simp add: push_end_def Let_def case_prod_beta split: option.split)

lemma map_set_mem: "x \<in> set (map_set k v m) \<Longrightarrow> x = (k, v) \<or> x \<in> set m"
  by (induction m) (auto simp: map_set_def split: if_splits)

lemma map_set_keys: "fst ` set (map_set k v m) = insert k (fst ` set m)"
  by (simp add: map_set_def dom_update [unfolded dom_map_of_conv_image_fst])

lemma map_get_mem: "map_get m k = Some v \<Longrightarrow> (k, v) \<in> set m"
  by (simp add: map_get_def map_of_SomeD)

text \<open>What may happen to a promise: its timer is cleared, resolver entries go and it settles; or it
  is created, with its timer armed or already rejected.\<close>

lemma settle_ids:
  "settled_ids (settle p r s) = insert p (settled_ids s)" "resolver_ids (settle p r s) = resolver_ids s"
  "timer_ids (settle p r s) = timer_ids s" "sc_nextPromise (settle p r s) = sc_nextPromise s"
  "distinct (map fst (sc_settled (settle p r s))) \<longleftrightarrow> distinct (map fst (sc_settled s))"
  by (auto simp: settled_ids_def resolver_ids_def timer_ids_def settle_def)

lemma pending_settle:
  assumes "pending_ok s" "p < sc_nextPromise s"
    and "sc_nextPromise t = sc_nextPromise s" "sc_settled t = sc_settled s"
    and "resolver_ids t \<subseteq> resolver_ids s" "timer_ids t \<subseteq> timer_ids s" "timer_ids s - {p} \<subseteq> timer_ids t"
  shows "pending_ok (settle p r t)"
proof -
  have "settled_ids t = settled_ids s" using assms(4) by (simp add: settled_ids_def)
  then show ?thesis
    using assms unfolding pending_ok_def settle_ids by (simp only: lessThan_iff) blast
qed

lemma ids_delete:
  "resolver_ids (s\<lparr>sc_confirmTimers := ct, sc_confirmResolvers := map_delete t (sc_confirmResolvers s)\<rparr>) \<subseteq> resolver_ids s"
  "resolver_ids (s\<lparr>sc_lookupTimers := lt, sc_lookupResolvers := map_delete t (sc_lookupResolvers s)\<rparr>) \<subseteq> resolver_ids s"
  "timer_ids (s\<lparr>sc_confirmTimers := map_delete p (sc_confirmTimers s), sc_confirmResolvers := cr\<rparr>) \<subseteq> timer_ids s"
  "timer_ids (s\<lparr>sc_lookupTimers := map_delete p (sc_lookupTimers s), sc_lookupResolvers := lr\<rparr>) \<subseteq> timer_ids s"
  "timer_ids s - {p} \<subseteq> timer_ids (s\<lparr>sc_confirmTimers := map_delete p (sc_confirmTimers s), sc_confirmResolvers := cr\<rparr>)"
  "timer_ids s - {p} \<subseteq> timer_ids (s\<lparr>sc_lookupTimers := map_delete p (sc_lookupTimers s), sc_lookupResolvers := lr\<rparr>)"
  by (auto simp: resolver_ids_def timer_ids_def map_delete_def)

lemma pending_known:
  assumes "pending_ok s"
  shows "map_get (sc_confirmResolvers s) t = Some p \<Longrightarrow> p < sc_nextPromise s"
    "map_get (sc_lookupResolvers s) t = Some p \<Longrightarrow> p < sc_nextPromise s"
    "map_get (sc_confirmTimers s) p = Some x \<Longrightarrow> p < sc_nextPromise s"
    "map_get (sc_lookupTimers s) p = Some x \<Longrightarrow> p < sc_nextPromise s"
    "e \<in> set (sc_confirmResolvers s) \<Longrightarrow> snd e < sc_nextPromise s"
    "e \<in> set (sc_lookupResolvers s) \<Longrightarrow> snd e < sc_nextPromise s"
  using assms by (force simp: pending_ok_def resolver_ids_def timer_ids_def dest: map_get_mem)+

lemma pending_drop:
  assumes "pending_ok s" "p < sc_nextPromise s"
  shows "pending_ok (settle p r (s\<lparr>sc_confirmTimers := map_delete p (sc_confirmTimers s),
           sc_confirmResolvers := map_delete t (sc_confirmResolvers s)\<rparr>))"
    and "pending_ok (settle p r (s\<lparr>sc_lookupTimers := map_delete p (sc_lookupTimers s),
           sc_lookupResolvers := map_delete t (sc_lookupResolvers s)\<rparr>))"
  by (rule pending_settle [OF assms], simp_all add: ids_delete)+

lemma pending_confirm_settle:
  "pending_ok s \<Longrightarrow> p < sc_nextPromise s \<Longrightarrow> pending_ok (confirm_settle t p r s)"
  by (simp add: confirm_settle_def pending_drop)

lemma pending_confirm_resolve: "pending_ok s \<Longrightarrow> pending_ok (confirm_resolve t s)"
  by (simp add: confirm_resolve_def pending_confirm_settle pending_known split: option.split)

lemma pending_reject_lookup:
  "pending_ok s \<Longrightarrow> snd e < sc_nextPromise s \<Longrightarrow> pending_ok (reject_lookup err s e)"
  by (simp add: reject_lookup_def pending_drop)

lemma pending_fold:
  assumes "\<And>t e. pending_ok t \<Longrightarrow> snd e < sc_nextPromise t \<Longrightarrow> pending_ok (g t e)"
    and "\<And>t e. sc_nextPromise (g t e) = sc_nextPromise t"
    and "pending_ok s" "\<And>e. e \<in> set es \<Longrightarrow> snd e < sc_nextPromise s"
  shows "pending_ok (foldl g s es)"
  using assms(3,4) by (induction es arbitrary: s) (auto simp: assms(1,2))

lemma pending_reject_all_lookups: "pending_ok s \<Longrightarrow> pending_ok (reject_all_lookups e s)"
  unfolding reject_all_lookups_def
  by (rule pending_fold)
    (simp_all add: pending_reject_lookup pending_known, simp add: reject_lookup_def settle_ids)

lemma pending_reject_all_confirms: "pending_ok s \<Longrightarrow> pending_ok (reject_all_confirms e s)"
  unfolding reject_all_confirms_def
  by (rule pending_fold)
    (simp_all add: pending_confirm_settle pending_known, simp add: confirm_settle_def settle_ids)

lemma pending_timeouts:
  "pending_ok s \<Longrightarrow> pending_ok (confirm_timeout p s)" "pending_ok s \<Longrightarrow> pending_ok (lookup_timeout p s)"
  by (simp_all add: confirm_timeout_def lookup_timeout_def pending_drop pending_known split: option.split)

lemma pending_handle_lookup: "pending_ok s \<Longrightarrow> pending_ok (handle_lookup m s)"
  by (simp add: handle_lookup_def Let_def pending_drop pending_known split: option.split)

lemma pending_cong: "pending_ok s \<Longrightarrow> promises t = promises s \<Longrightarrow> pending_ok t"
  using pending_ok_promises by blast

lemma pending_sub:
  "pending_ok s \<Longrightarrow> pending_ok (s\<lparr>sc_lookupResolvers := []\<rparr>)"
  by (auto simp: pending_ok_def settled_ids_def resolver_ids_def timer_ids_def)

lemma map_set_vals: "snd ` set (map_set k v m) \<subseteq> insert v (snd ` set m)"
proof
  fix x assume "x \<in> snd ` set (map_set k v m)"
  then obtain a where "(a, x) \<in> set (map_set k v m)" by force
  from map_set_mem [OF this] show "x \<in> insert v (snd ` set m)" by force
qed

lemma pending_new:
  assumes "pending_ok s" "sc_nextPromise t = Suc (sc_nextPromise s)"
    and "distinct (map fst (sc_settled t))"
    and "settled_ids t \<subseteq> insert (sc_nextPromise s) (settled_ids s)" "settled_ids s \<subseteq> settled_ids t"
    and "resolver_ids t \<subseteq> insert (sc_nextPromise s) (resolver_ids s)"
    and "timer_ids t \<subseteq> insert (sc_nextPromise s) (timer_ids s)" "timer_ids s \<subseteq> timer_ids t"
    and "sc_nextPromise s \<in> settled_ids t \<union> timer_ids t"
  shows "pending_ok t"
  unfolding pending_ok_def assms(2) lessThan_Suc
  using assms(1) [unfolded pending_ok_def] assms(3-9) by blast

lemma pending_await: "pending_ok s \<Longrightarrow> pending_ok (snd (awaitConfirmation t m s))"
proof -
  assume s: "pending_ok s"
  then have d: "distinct (map fst (sc_settled s))" by (simp add: pending_ok_def)
  let ?p = "sc_nextPromise s"
  let ?t = "s\<lparr>sc_nextPromise := Suc ?p, sc_confirmTimers := map_set ?p t (sc_confirmTimers s),
              sc_confirmResolvers := map_set t ?p (sc_confirmResolvers s)\<rparr>"
  have "pending_ok ?t"
    using map_set_vals [of t ?p "sc_confirmResolvers s"] d
    by (intro pending_new [OF s]) (auto simp: settled_ids_def resolver_ids_def timer_ids_def map_set_keys)
  then have "pending_ok (sendMsg m ?t)" by (rule pending_cong) simp
  moreover have "pending_ok (settle ?p r (s\<lparr>sc_nextPromise := Suc ?p\<rparr>))" for r
    using d by (intro pending_new [OF s], unfold settle_ids)
      (auto simp: settled_ids_def resolver_ids_def timer_ids_def)
  ultimately show ?thesis by (simp add: awaitConfirmation_def Let_def)
qed

lemma pending_lookupUser: "pending_ok s \<Longrightarrow> pending_ok (snd (lookupUser u s))"
proof -
  assume s: "pending_ok s"
  then have d: "distinct (map fst (sc_settled s))" by (simp add: pending_ok_def)
  let ?p = "sc_nextPromise s"
  let ?t = "s\<lparr>sc_nextPromise := Suc ?p, sc_lookupTimers := map_set ?p u (sc_lookupTimers s),
              sc_lookupResolvers := map_set u ?p (sc_lookupResolvers s)\<rparr>"
  have "pending_ok ?t"
    using map_set_vals [of u ?p "sc_lookupResolvers s"] d
    by (intro pending_new [OF s]) (auto simp: settled_ids_def resolver_ids_def timer_ids_def map_set_keys)
  then have "pending_ok (sendMsg m ?t)" for m by (rule pending_cong) simp
  then show ?thesis by (simp add: lookupUser_def Let_def)
qed

lemma pending_disconnect:
  assumes "pending_ok s" shows "pending_ok (disconnect s)"
proof -
  define s2 where "s2 = (unlistenBrowserEvents (stopHeartbeat (s\<lparr>sc_intentionalClose := True\<rparr>)))\<lparr>sc_reconnectTimer := None\<rparr>"
  have "pending_ok s2"
    using assms by (rule pending_cong) (simp add: s2_def unlistenBrowserEvents_def)
  then have "pending_ok ((reject_all_lookups ''Disconnected'' s2)\<lparr>sc_lookupResolvers := []\<rparr>)"
    by (intro pending_sub pending_reject_all_lookups)
  then have "pending_ok (ws_close ((reject_all_lookups ''Disconnected'' s2)\<lparr>sc_lookupResolvers := []\<rparr>))"
    by (rule pending_cong) simp
  then show ?thesis by (simp add: disconnect_def Let_def s2_def)
qed

lemma pending_handleMessage:
  assumes during: "\<And>t. pending_ok t \<Longrightarrow> pending_ok (during t)" and s: "pending_ok s"
  shows "pending_ok (handleMessage C during g mo s)"
proof -
  have * [simp]: "pending_ok (call c t) \<longleftrightarrow> pending_ok t" "pending_ok (t\<lparr>sc_lastSeqs := l\<rparr>) \<longleftrightarrow> pending_ok t"
    "pending_ok (t\<lparr>sc_isSignup := b\<rparr>) \<longleftrightarrow> pending_ok t" "pending_ok (resubscribeAll g' t) \<longleftrightarrow> pending_ok t"
    "pending_ok (ws_close t) \<longleftrightarrow> pending_ok t" "pending_ok (t\<lparr>sc_intentionalClose := b\<rparr>) \<longleftrightarrow> pending_ok t"
    for c t l b g'
    by (rule pending_ok_promises, simp)+
  have "pending_ok (handle_error m s)" for m
    using s by (simp add: handle_error_def Let_def pending_reject_all_lookups pending_reject_all_confirms)
  moreover have "pending_ok (handle_sync C during m s)" for m
    using s by (simp add: handle_sync_def Let_def during split: option.split)
  moreover have "pending_ok (handle_connected during g m s)" for m
    using s by (simp add: handle_connected_def Let_def during)
  ultimately show ?thesis
    using s by (simp add: handleMessage_def Let_def during pending_confirm_resolve pending_handle_lookup
        split: option.split)
qed

lemma pending_step_run:
  fixes e :: "'p sc_event" and es :: "'p sc_event list"
  shows "\<And>s. pending_ok s \<Longrightarrow> pending_ok (sc_step C e s)" and "\<And>s. pending_ok s \<Longrightarrow> pending_ok (sc_run C es s)"
proof (induction C e and C es rule: sc_step_sc_run.induct)
  case (9 C iv i g evs)
  have "pending_ok (handleMessage C (sc_run C evs) g m (s\<lparr>sc_queues := q\<rparr>))" for m q
    by (rule pending_handleMessage [OF 9(1)], assumption, rule pending_cong [OF 9(2)]) simp
  then show ?case using 9(2) by (simp add: process_queue_def split: list.split)
next
  case (10 C iv d sn evs)
  have "pending_ok t \<Longrightarrow> pending_ok (snd (push_end C iv key d sn t))" for key and t :: "'p sync_client"
    by (erule pending_cong) simp
  then show ?case using 10 by (simp add: push_def split: sum.split)
qed (auto intro: pending_await pending_lookupUser pending_disconnect pending_timeouts
      elim: pending_cong)

text \<open>Settling is for good: the list of settled promises only grows.\<close>

lemma prefix_settle: "prefix (sc_settled s) (sc_settled (settle p r s))"
  by (simp add: settle_def)

text \<open>Once the timers that are still running have fired, every promise has settled.\<close>

definition fire_timers :: "'p sync_client \<Rightarrow> 'p sc_event list" where
  "fire_timers s = map (SeConfirmTimeout \<circ> fst) (sc_confirmTimers s) @ map (SeLookupTimeout \<circ> fst) (sc_lookupTimers s)"

lemma timers_after:
  "sc_confirmTimers (confirm_timeout p s) = map_delete p (sc_confirmTimers s)"
  "sc_lookupTimers (confirm_timeout p s) = sc_lookupTimers s"
  "sc_lookupTimers (lookup_timeout p s) = map_delete p (sc_lookupTimers s)"
  "sc_confirmTimers (lookup_timeout p s) = sc_confirmTimers s"
  by (auto simp: confirm_timeout_def lookup_timeout_def settle_def map_delete_def map_get_def
      map_of_eq_None_iff intro!: filter_True [symmetric] split: option.split)

lemma timers_run:
  "sc_confirmTimers (sc_run C (map (SeConfirmTimeout \<circ> fst) es) s)
     = filter (\<lambda>e. fst e \<notin> fst ` set es) (sc_confirmTimers s)"
  "sc_lookupTimers (sc_run C (map (SeConfirmTimeout \<circ> fst) es) s) = sc_lookupTimers s"
  "sc_lookupTimers (sc_run C (map (SeLookupTimeout \<circ> fst) es) s)
     = filter (\<lambda>e. fst e \<notin> fst ` set es) (sc_lookupTimers s)"
  "sc_confirmTimers (sc_run C (map (SeLookupTimeout \<circ> fst) es) s) = sc_confirmTimers s"
  by (induction es arbitrary: s) (auto simp: timers_after map_delete_def intro!: filter_cong)

lemma next_run_timers [simp]:
  "sc_nextPromise (sc_run C (map (SeConfirmTimeout \<circ> fst) es) s) = sc_nextPromise s"
  "sc_nextPromise (sc_run C (map (SeLookupTimeout \<circ> fst) es) s) = sc_nextPromise s"
  by (induction es arbitrary: s)
    (auto simp: confirm_timeout_def lookup_timeout_def settle_ids split: option.split)

lemma fire_timers_settle:
  assumes "pending_ok s"
  shows "settled_ids (sc_run C (fire_timers s) s) = {..<sc_nextPromise s}"
proof -
  let ?t = "sc_run C (fire_timers s) s"
  have "sc_confirmTimers ?t = []" "sc_lookupTimers ?t = []" "sc_nextPromise ?t = sc_nextPromise s"
    by (auto simp: fire_timers_def sc_run_append timers_run filter_empty_conv)
  moreover have "pending_ok ?t" using assms by (rule pending_step_run(2))
  ultimately show ?thesis by (auto simp: pending_ok_def timer_ids_def)
qed

text \<open>C8: in every run of a new client each promise it hands out (an awaited confirmation, a user
  lookup) settles at most once, resolver entries and timers belong to promises handed out, and no
  promise hangs: once the timers still running have fired, every promise has been resolved or
  rejected, even after dropped connections, errors and requests that replaced each other's entries.\<close>

theorem promises_settle_once:
  "let s = sc_run C evs (sc_new userId deviceId h isSignup encKey getDocKey wrappedKey :: 'p sync_client) in
    pending_ok s \<and> distinct (map fst (sc_settled s)) \<and>
    settled_ids (sc_run C (fire_timers s) s) = {..<sc_nextPromise s}"
proof -
  define s0 :: "'p sync_client" where "s0 = sc_new userId deviceId h isSignup encKey getDocKey wrappedKey"
  have "pending_ok s0"
    by (simp add: s0_def sc_new_def pending_ok_def settled_ids_def resolver_ids_def timer_ids_def)
  then have "pending_ok (sc_run C evs s0)" by (rule pending_step_run(2))
  then show ?thesis
    by (simp add: s0_def [symmetric] Let_def fire_timers_settle) (simp add: pending_ok_def)
qed

text \<open>The confirmation entries are keyed by the type of the confirmation alone.\<close>

lemma open_await:
  assumes "isOpen s"
  shows "snd (awaitConfirmation t m s) = sendMsg m (s\<lparr>sc_nextPromise := Suc (sc_nextPromise s),
     sc_confirmTimers := map_set (sc_nextPromise s) t (sc_confirmTimers s),
     sc_confirmResolvers := map_set t (sc_nextPromise s) (sc_confirmResolvers s)\<rparr>)"
  using assms by (simp add: awaitConfirmation_def Let_def)

lemma handle_removed:
  "sm_type m = ''vault_member_removed'' \<Longrightarrow>
     handleMessage C during g (Some m) s = confirm_resolve ''vault_member_removed'' s"
  by (simp add: handleMessage_def)

lemma fresh_promise: "pending_ok s \<Longrightarrow> sc_nextPromise s \<le> p \<Longrightarrow> p \<notin> fst ` set (sc_settled s)"
  by (auto simp: pending_ok_def settled_ids_def)

text \<open>Two member removals in flight at once are confused. The server confirms both, in order:
  the first confirmation resolves the promise of the second removal, the second confirmation
  resolves nothing, and the first removal's promise is rejected by its timer although the server
  confirmed it.\<close>

theorem crossed_confirmations:
  assumes "pending_ok s" "isOpen s" "sm_type m = ''vault_member_removed''"
  shows "let p = sc_nextPromise s;
      s2 = snd (removeFromVault v b (snd (removeFromVault v a s)));
      s3 = handleMessage C during g (Some m) s2;
      s4 = handleMessage C during g (Some m) s3
    in sc_sent s2 = sc_sent s @ [MRemove v a, MRemove v b] \<and>
      sc_settled s3 = sc_settled s @ [(Suc p, Resolved None)] \<and> sc_settled s4 = sc_settled s3 \<and>
      sc_settled (confirm_timeout p s4) = sc_settled s3 @ [(p, RejectedWith ''vault_member_removed timed out'')]"
proof -
  define p s2 where "p = sc_nextPromise s"
    and "s2 = snd (removeFromVault v b (snd (removeFromVault v a s)))"
  define s3 where "s3 = handleMessage C during g (Some m) s2"
  define s4 where "s4 = handleMessage C during g (Some m) s3"
  note defs = p_def s2_def s3_def s4_def
  let ?k = "''vault_member_removed''"
  define s1 where "s1 = snd (removeFromVault v a s)"
  have s1: "s1 = sendMsg (MRemove v a) (s\<lparr>sc_nextPromise := Suc p,
      sc_confirmTimers := map_set p ?k (sc_confirmTimers s), sc_confirmResolvers := map_set ?k p (sc_confirmResolvers s)\<rparr>)"
    using open_await [OF assms(2)] by (simp add: s1_def removeFromVault_def p_def)
  then have "isOpen s1" using assms(2) by (simp add: isOpen_def sendMsg_def)
  then have s2: "s2 = sendMsg (MRemove v b) (s1\<lparr>sc_nextPromise := Suc (Suc p),
      sc_confirmTimers := map_set (Suc p) ?k (sc_confirmTimers s1),
      sc_confirmResolvers := map_set ?k (Suc p) (sc_confirmResolvers s1)\<rparr>)"
  proof -
    have "sc_nextPromise s1 = Suc p" using s1 by (simp add: sendMsg_def)
    then show ?thesis
      using open_await [OF \<open>isOpen s1\<close>, of ?k "MRemove v b"]
      by (simp add: s2_def s1_def [symmetric]) (simp add: removeFromVault_def)
  qed
  have o: "sc_ws s = Some OPEN" using assms(2) by (simp add: isOpen_def)
  have f: "sc_sent s2 = sc_sent s @ [MRemove v a, MRemove v b]" "sc_settled s2 = sc_settled s"
    "map_get (sc_confirmResolvers s2) ?k = Some (Suc p)"
    "map_get (sc_confirmTimers s2) p = Some ?k"
    by (simp_all add: s2 s1 sendMsg_def isOpen_def o map_get_set)
  have fresh: "p \<notin> fst ` set (sc_settled s)" "Suc p \<notin> fst ` set (sc_settled s)"
    using fresh_promise [OF assms(1)] by (simp_all add: p_def)
  have s3: "s3 = confirm_settle ?k (Suc p) (Resolved None) s2"
    using f(3) by (simp add: s3_def handle_removed [OF assms(3)] confirm_resolve_def)
  have "map_get (sc_confirmResolvers s3) ?k = None" "map_get (sc_confirmTimers s3) p = Some ?k"
    using f(4) by (simp_all add: s3 confirm_settle_def settle_def map_get_delete)
  then have s4: "s4 = s3" "map_get (sc_confirmTimers s4) p = Some ?k"
    by (simp_all add: s4_def handle_removed [OF assms(3)] confirm_resolve_def)
  have "sc_settled s3 = sc_settled s @ [(Suc p, Resolved None)]"
    using f(2) fresh by (simp add: s3 confirm_settle_def settle_def)
  then have "sc_sent s2 = sc_sent s @ [MRemove v a, MRemove v b] \<and>
      sc_settled s3 = sc_settled s @ [(Suc p, Resolved None)] \<and> sc_settled s4 = sc_settled s3 \<and>
      sc_settled (confirm_timeout p s4) = sc_settled s3 @ [(p, RejectedWith ''vault_member_removed timed out'')]"
    using f(1) s4 fresh by (simp add: confirm_timeout_def settle_def)
  then show ?thesis by (simp only: Let_def defs)
qed

definition blank_msg :: "string \<Rightarrow> 'p server_msg" where
  "blank_msg t = \<lparr>sm_type = t, sm_doc_id = None, sm_seq = None, sm_payload = None, sm_from_device = None,
     sm_latest_seq = None, sm_message = None, sm_retry_after_ms = None, sm_presence = None,
     sm_public_key = None, sm_wrapped_private_key = None, sm_signing_public_key = None,
     sm_wrapped_signing_private_key = None, sm_sender_user_id = None, sm_vault_id = None,
     sm_vaults = None, sm_members = None, sm_encrypted_vault_key = None, sm_role = None,
     sm_new_role = None, sm_target_user_id = None, sm_target_public_key = None\<rparr>"

definition demo_online :: "nat sync_client" where
  "demo_online = (sc_new ''u'' ''d'' ''h'' False None None None)\<lparr>sc_ws := Some OPEN\<rparr>"

lemma demo_online_facts: "pending_ok demo_online" "isOpen demo_online" "sc_nextPromise demo_online = 0"
  "sc_settled demo_online = []"
  by (simp_all add: demo_online_def sc_new_def pending_ok_def settled_ids_def resolver_ids_def
      timer_ids_def isOpen_def)

theorem crossed_confirmations_witness:
  "sc_settled (handleMessage demo_crypto id (\<lambda>d. 0) (Some (blank_msg ''vault_member_removed''))
     (snd (removeFromVault ''v'' ''bob'' (snd (removeFromVault ''v'' ''alice'' demo_online)))))
   = [(1, Resolved None)]"
  using crossed_confirmations [OF demo_online_facts(1,2), of "blank_msg ''vault_member_removed''"]
  by (simp add: blank_msg_def demo_online_facts Let_def)

subsection \<open>Subscriptions survive a dropped connection\<close>

lemma subs_frame [simp]:
  "sc_subscriptions (call c s) = sc_subscriptions s" "sc_lastSeqs (call c s) = sc_lastSeqs s"
  "sc_subscriptions (connect s) = sc_subscriptions s" "sc_lastSeqs (connect s) = sc_lastSeqs s"
  "sc_subscriptions (on_open s) = sc_subscriptions s" "sc_lastSeqs (on_open s) = sc_lastSeqs s"
  "sc_subscriptions (on_close s) = sc_subscriptions s" "sc_lastSeqs (on_close s) = sc_lastSeqs s"
  "sc_subscriptions (reconnect_fire s) = sc_subscriptions s" "sc_lastSeqs (reconnect_fire s) = sc_lastSeqs s"
  by (simp_all add: call_def connect_def on_open_def on_close_def reconnect_fire_def Let_def ws_send_def
      listenBrowserEvents_def startHeartbeat_def stopHeartbeat_def clearHeartbeatTimeout_def
      scheduleReconnect_def split: option.split ready_state.split)

definition seq_for :: "(string \<Rightarrow> int) \<Rightarrow> 'p sync_client \<Rightarrow> string \<Rightarrow> int" where
  "seq_for g s d = (case map_get (sc_lastSeqs s) d of Some n \<Rightarrow> n | None \<Rightarrow> g d)"

lemma resubscribeAll_sent:
  fixes s :: "'p sync_client"
  assumes "isOpen s"
  shows "sc_sent (resubscribeAll g s) = sc_sent s @ map (\<lambda>d. MSubscribe d (seq_for g s d)) (sc_subscriptions s)"
proof -
  have "isOpen t \<Longrightarrow> sc_lastSeqs t = sc_lastSeqs s \<Longrightarrow>
      sc_sent (foldl (resubscribe_one g) t ds) = sc_sent t @ map (\<lambda>d. MSubscribe d (seq_for g s d)) ds" for t :: "'p sync_client" and ds
    by (induction ds arbitrary: t) (simp_all add: resubscribe_one_def sendMsg_def isOpen_def seq_for_def)
  with assms show ?thesis by (simp add: resubscribeAll_def)
qed

lemma handle_caught_up:
  "sm_type m = ''caught_up'' \<Longrightarrow> sm_doc_id m = Some d \<Longrightarrow> d \<noteq> [] \<Longrightarrow> sm_latest_seq m = Some n \<Longrightarrow>
     handleMessage C during g (Some m) s = call (CbCaughtUp d n) (s\<lparr>sc_lastSeqs := map_set d n (sc_lastSeqs s)\<rparr>)"
  by (simp add: handleMessage_def truthy_def)

lemma handle_connected_sent:
  assumes "isOpen s"
  shows "sc_sent (handle_connected (\<lambda>t. t) g m s)
    = sc_sent s @ map (\<lambda>d. MSubscribe d (seq_for g s d)) (sc_subscriptions s)"
proof -
  let ?t = "call (CbConnected (or_undefined (sm_payload m)) (or_undefined (sm_public_key m))
    (or_undefined (sm_wrapped_private_key m)) (or_undefined (sm_signing_public_key m))
    (or_undefined (sm_wrapped_signing_private_key m))) (call (CbStatus StConnected) (s\<lparr>sc_isSignup := False\<rparr>))"
  have "isOpen ?t" "seq_for g ?t = seq_for g s" "sc_subscriptions ?t = sc_subscriptions s" "sc_sent ?t = sc_sent s"
    using assms by (auto simp: isOpen_def seq_for_def call_def)
  with resubscribeAll_sent [OF \<open>isOpen ?t\<close>, of g] show ?thesis
    by (simp add: handle_connected_def Let_def)
qed

lemma reopened:
  assumes "isOpen t" "\<not> sc_intentionalClose t"
  shows "link (sc_run C [SeWsClose, SeReconnectTimer, SeWsOpen] t)
    = (Some OPEN, 1000, None, False, sc_sent t @
        [MConnect (sc_userId t) (sc_deviceId t) (sc_authHash t) (sc_isSignup t) (or_undefined (sc_wrappedKey t))])"
proof -
  have o: "sc_ws t = Some OPEN" using assms(1) by (simp add: isOpen_def)
  define u where "u = on_close t"
  have lu: "sc_reconnectTimer u = Some (sc_reconnectDelay t)" "sc_reconnectDelay u = sc_reconnectDelay t"
    "sc_sent u = sc_sent t"
    using link_on_close [of t] assms(2) by (simp_all add: u_def link_def)
  define w where "w = reconnect_fire u"
  have lw: "link w = (Some CONNECTING, min (sc_reconnectDelay t * 2) 30000, None, False, sc_sent t)"
    unfolding w_def reconnect_fire_def lu using lu by (simp add: link_connect)
  have cred: "sc_userId w = sc_userId t" "sc_deviceId w = sc_deviceId t" "sc_authHash w = sc_authHash t"
    "sc_isSignup w = sc_isSignup t" "sc_wrappedKey w = sc_wrappedKey t"
    by (simp_all add: w_def u_def reconnect_fire_def on_close_def connect_def Let_def call_def
        listenBrowserEvents_def stopHeartbeat_def clearHeartbeatTimeout_def scheduleReconnect_def
        split: option.split)
  have *: "sc_run C [SeWsClose, SeReconnectTimer, SeWsOpen] t = on_open w"
    using o lw by (simp add: u_def w_def link_def)
  show ?thesis using lw cred unfolding * link_on_open by (simp add: link_def)
qed

text \<open>C6: when the connection drops and comes back, the client sends its credentials and then renews
  every subscription in order, asking for each document from the last sequence number the server
  reported for it (the stored one when none was reported): nothing is missed, nothing is skipped.\<close>

theorem resume_from_last_seq:
  assumes "isOpen s" "\<not> sc_intentionalClose s"
    and "sm_type m = ''caught_up''" "sm_doc_id m = Some d" "d \<noteq> []" "sm_latest_seq m = Some n"
  shows "let t = handleMessage C during g (Some m) s;
      u = sc_run C [SeWsClose, SeReconnectTimer, SeWsOpen] t;
      w = handle_connected (\<lambda>t. t) g cm u
    in sc_sent w = sc_sent s @
      MConnect (sc_userId s) (sc_deviceId s) (sc_authHash s) (sc_isSignup s) (or_undefined (sc_wrappedKey s)) #
      map (\<lambda>x. MSubscribe x (if x = d then n else seq_for g s x)) (sc_subscriptions s)"
proof -
  define t u where "t = handleMessage C during g (Some m) s"
    and "u = sc_run C [SeWsClose, SeReconnectTimer, SeWsOpen] t"
  have t: "t = call (CbCaughtUp d n) (s\<lparr>sc_lastSeqs := map_set d n (sc_lastSeqs s)\<rparr>)"
    using handle_caught_up [OF assms(3-6)] by (simp add: t_def)
  have "isOpen t" "\<not> sc_intentionalClose t" using assms(1,2) by (simp_all add: t isOpen_def call_def)
  note l = reopened [OF this, of C, folded u_def]
  have "isOpen u" using l by (simp add: link_def isOpen_def)
  have o: "sc_ws t = Some OPEN" using \<open>isOpen t\<close> by (simp add: isOpen_def)
  have "sc_ws (on_close t) = Some CLOSED" using link_on_close [of t] by (simp add: link_def)
  have "sc_lastSeqs u = sc_lastSeqs t" "sc_subscriptions u = sc_subscriptions t"
    by (simp_all add: u_def)
  then have "seq_for g u = (\<lambda>x. if x = d then n else seq_for g s x)" "sc_subscriptions u = sc_subscriptions s"
    by (auto simp: seq_for_def t call_def map_get_set)
  moreover have "sc_sent u = sc_sent s @
      [MConnect (sc_userId s) (sc_deviceId s) (sc_authHash s) (sc_isSignup s) (or_undefined (sc_wrappedKey s))]"
    using l by (simp add: t link_def call_def)
  ultimately show ?thesis
    using handle_connected_sent [OF \<open>isOpen u\<close>, of g cm] unfolding Let_def t_def [symmetric] u_def [symmetric]
    by simp
qed

theorem resume_from_last_seq_witness:
  "sc_sent (handle_connected (\<lambda>t. t) (\<lambda>d. 0) (blank_msg ''connected'')
     (sc_run demo_crypto [SeWsClose, SeReconnectTimer, SeWsOpen]
       (handleMessage demo_crypto id (\<lambda>d. 0)
          (Some ((blank_msg ''caught_up'')\<lparr>sm_doc_id := Some ''a'', sm_latest_seq := Some 7\<rparr>))
          (demo_online\<lparr>sc_subscriptions := [''a'', ''b'']\<rparr>))))
   = [MConnect ''u'' ''d'' ''h'' False None, MSubscribe ''a'' 7, MSubscribe ''b'' 0]"
  using resume_from_last_seq [of "demo_online\<lparr>sc_subscriptions := [''a'', ''b'']\<rparr>"
      "(blank_msg ''caught_up'')\<lparr>sm_doc_id := Some ''a'', sm_latest_seq := Some 7\<rparr>" "''a''" 7
      demo_crypto id "\<lambda>d. 0" "blank_msg ''connected''"]
  by (simp add: demo_online_def sc_new_def isOpen_def blank_msg_def Let_def seq_for_def or_undefined_def
      truthy_def map_get_def)

subsection \<open>The heartbeat\<close>

text \<open>A heartbeat alone is harmless: any message from the server cancels its timeout. A network
  event that probes the connection shortly before a heartbeat arms a second timeout and loses the
  first: no message can cancel that one any more, and when it fires it closes the healthy
  connection.\<close>

theorem probe_timeout_is_lost:
  assumes "isOpen s" "sc_heartbeatTimer s" "sc_listening s"
    and "sc_heartbeatTimeout s = None" "sc_liveTimeouts s = []"
  shows "sc_liveTimeouts (sc_run C [SeHeartbeatTick, SeWsMessage m] s) = [] \<and>
    (let t = sc_run C [SeProbe, SeHeartbeatTick, SeWsMessage m, SeWsMessage m'] s in
      sc_liveTimeouts t = [sc_nextTimeout s] \<and> isOpen t \<and>
      sc_ws (sc_step C (SeHeartbeatTimeout (sc_nextTimeout s)) t) = Some CLOSING)"
proof -
  have o: "sc_ws s = Some OPEN" using assms(1) by (simp add: isOpen_def)
  show ?thesis
    using assms(2-5) o
    by (simp add: heartbeat_tick_def probe_def armTimeout_def clearHeartbeatTimeout_def on_message_def
        sendMsg_def isOpen_def heartbeat_timeout_def ws_close_def call_def Let_def)
qed

theorem probe_timeout_is_lost_witness:
  "sc_ws (sc_run demo_crypto [SeProbe, SeHeartbeatTick, SeWsMessage None, SeWsMessage None, SeHeartbeatTimeout 0]
     (demo_online\<lparr>sc_heartbeatTimer := True, sc_listening := True\<rparr>)) = Some CLOSING"
proof -
  let ?s = "demo_online\<lparr>sc_heartbeatTimer := True, sc_listening := True\<rparr>"
  have "isOpen ?s" "sc_heartbeatTimer ?s" "sc_listening ?s" "sc_heartbeatTimeout ?s = None"
    "sc_liveTimeouts ?s = []" and n: "sc_nextTimeout ?s = 0"
    by (simp_all add: demo_online_def sc_new_def isOpen_def)
  from probe_timeout_is_lost [OF this(1-5), of demo_crypto None None] n show ?thesis
    by (simp add: Let_def)
qed

subsection \<open>Keys\<close>

lemma toBase64_nonempty: "bs \<noteq> [] \<Longrightarrow> toBase64 bs \<noteq> []"
proof
  assume "bs \<noteq> []" "toBase64 bs = []"
  moreover have "fromBase64 (toBase64 []) = Some []" "fromBase64 (toBase64 bs) = Some bs"
    by (rule fromBase64_toBase64)+
  ultimately show False by (simp add: toBase64_def btoa_def)
qed

text \<open>C7: a document of a vault is encrypted and decrypted with the vault's key or not at all: while
  that key is missing a push is refused and an incoming change ignored, and nothing changes.
  Documents outside vaults fall back on the master key.\<close>

theorem vault_docs_need_the_vault_key:
  assumes "index_of (CHR ''/'') docId = Some i" "0 < i"
    and "case sc_getDocKey s of None \<Rightarrow> True | Some f \<Rightarrow> f docId = None"
    and "sm_type m = ''sync''" "sm_doc_id m = Some docId"
  shows "push C iv during docId snapshot s = (NoKey, s) \<and> handleMessage C during g (Some m) s = s"
proof -
  have "resolveKey docId s = None"
    using assms(1-3) by (auto simp: resolveKey_def split: option.splits)
  then show ?thesis
    using assms(4,5) by (simp add: push_def push_begin_def handleMessage_def handle_sync_def)
qed

definition demo_keys :: "string \<Rightarrow> crypto_key option" where
  "demo_keys d = (if d = ''v/r'' then Some (AesKey (replicate 32 9) True) else None)"

theorem vault_docs_need_the_vault_key_witness:
  "fst (push demo_crypto (replicate 12 0) id ''w/r'' [1]
     (demo_online\<lparr>sc_encKey := Some (AesKey [1] True), sc_getDocKey := Some demo_keys\<rparr>)) = NoKey"
  using vault_docs_need_the_vault_key [of "''w/r''" 1
      "demo_online\<lparr>sc_encKey := Some (AesKey [1] True), sc_getDocKey := Some demo_keys\<rparr>"
      "(blank_msg ''sync'')\<lparr>sm_doc_id := Some ''w/r''\<rparr>"]
  by (simp add: demo_keys_def blank_msg_def)

text \<open>C5: end to end: what one client pushes, another client that has the same key hands to its app
  unchanged, under the same document and the sequence number the server gave it.\<close>

theorem pushed_change_arrives:
  assumes "aead_law C" "length iv = 12" "docId \<noteq> []"
    and "resolveKey docId s = Some key" "isOpen s" "isOpen (during s)"
    and "resolveKey docId r = Some key"
  shows "\<exists>payload presence s'. push C iv during docId snapshot s = (Sent, s') \<and>
    sc_sent s' = sc_sent (during s) @ [MPush docId payload presence] \<and>
    sc_calls (handleMessage C (\<lambda>t. t) g (Some ((blank_msg ''sync'')\<lparr>sm_doc_id := Some docId,
        sm_payload := Some payload, sm_seq := Some n, sm_sender_user_id := Some user\<rparr>)) r)
      = sc_calls r @ [CbRemoteChange docId snapshot n (Some user)]"
proof -
  let ?payload = "toBase64 (encrypt C iv snapshot key)"
  have "encrypt C iv snapshot key \<noteq> []"
    using assms(2) by (cases key) (auto simp: encrypt_def)
  then have "truthy (Some ?payload)" by (simp add: truthy_def toBase64_nonempty)
  moreover have "truthy (Some docId)" using assms(3) by (simp add: truthy_def)
  ultimately have "sc_calls (handleMessage C (\<lambda>t. t) g (Some ((blank_msg ''sync'')\<lparr>sm_doc_id := Some docId,
        sm_payload := Some ?payload, sm_seq := Some n, sm_sender_user_id := Some user\<rparr>)) r)
      = sc_calls r @ [CbRemoteChange docId snapshot n (Some user)]"
    using assms(7) decrypt_encrypt [OF assms(1,2)]
    by (simp add: handleMessage_def handle_sync_def blank_msg_def fromBase64_toBase64 call_def)
  moreover have "push C iv during docId snapshot s = (Sent, snd (push C iv during docId snapshot s))"
    "\<exists>presence. sc_sent (snd (push C iv during docId snapshot s))
       = sc_sent (during s) @ [MPush docId ?payload presence]"
    using assms(4-6)
    by (auto simp: push_def push_begin_def push_end_def ws_send_def isOpen_def Let_def split: option.split)
  ultimately show ?thesis by blast
qed

theorem pushed_change_arrives_witness:
  "\<exists>payload presence s'. push demo_crypto (replicate 12 0) id ''v/r'' [1, 2]
      (demo_online\<lparr>sc_getDocKey := Some demo_keys\<rparr>) = (Sent, s') \<and>
    sc_sent s' = [MPush ''v/r'' payload presence] \<and>
    sc_calls (handleMessage demo_crypto (\<lambda>t. t) (\<lambda>d. 0) (Some ((blank_msg ''sync'')\<lparr>sm_doc_id := Some ''v/r'',
        sm_payload := Some payload, sm_seq := Some 4, sm_sender_user_id := Some ''bob''\<rparr>))
        (demo_online\<lparr>sc_getDocKey := Some demo_keys\<rparr>))
      = [CbRemoteChange ''v/r'' [1, 2] 4 (Some ''bob'')]"
proof -
  let ?s = "demo_online\<lparr>sc_getDocKey := Some demo_keys\<rparr>"
  have "resolveKey ''v/r'' ?s = Some (AesKey (replicate 32 9) True)" "isOpen ?s" "sc_sent ?s = []" "sc_calls ?s = []"
    by (simp_all add: resolveKey_def demo_keys_def demo_online_def sc_new_def isOpen_def)
  then show ?thesis
    using pushed_change_arrives [OF demo_aead_law, of "replicate 12 0" "''v/r''" ?s
        "AesKey (replicate 32 9) True" id ?s "[1, 2]" "\<lambda>d. 0"]
    by simp
qed

end
