(* ===== verification/Push_Queue.thy ===== *)
theory Push_Queue
  imports Doc_Manager Sync_Client
begin

text \<open>
  The push queue \<^verbatim>\<open>sync/push-queue.ts\<close>. \<open>push_queue\<close> is the object's state. The queue runs beside the
  document manager, the database and the sync client: \<open>world\<close> holds them all, with the asynchronous
  calls that are under way. An asynchronous method is cut at its awaits: the part up to the first
  await is a definition named after the method, each await is a constructor of \<open>task\<close>, and
  \<open>resume\<close> performs the awaited operation and runs on to the next await. Anything may happen between
  two such parts: \<open>pq_step\<close> and \<open>pq_run\<close> interleave calls, timers, server replies and resumed tasks in
  any order.

  A task refers to a store by its document id; the copy it carries stands for the object once the
  manager has closed it. Times are milliseconds.
\<close>

definition DEBOUNCE_MS :: int where "DEBOUNCE_MS = 200"
definition MAX_WAIT_MS :: int where "MAX_WAIT_MS = 1500"
definition BACKOFF_INITIAL :: nat where "BACKOFF_INITIAL = 2000"
definition BACKOFF_MAX :: nat where "BACKOFF_MAX = 30000"
definition MAX_PUSH_ERRORS :: nat where "MAX_PUSH_ERRORS = 5"

type_synonym sign_fn = "bytes \<Rightarrow> bytes option"

record push_queue =
  pq_signFn :: "sign_fn option"
  pq_dirtySet :: "string list"
  pq_timers :: "(string \<times> int) list"
  pq_firstChange :: "(string \<times> int) list"
  pq_flushing :: bool
  pq_ratePaused :: bool
  pq_backoffMs :: nat
  pq_backoffTimer :: "nat option"
  pq_errorCounts :: "(string \<times> nat) list"
  pq_deferredNoKey :: "string list"
  pq_failedVaults :: "string list"
  pq_pendingVaultIds :: "string list"
  pq_ready :: bool
  pq_pollTimer :: bool
  pq_dirtyChanges :: nat

definition new_push_queue :: "sign_fn option \<Rightarrow> push_queue" where
  "new_push_queue signFn =
     \<lparr>pq_signFn = signFn, pq_dirtySet = [], pq_timers = [], pq_firstChange = [], pq_flushing = False,
      pq_ratePaused = False, pq_backoffMs = BACKOFF_INITIAL, pq_backoffTimer = None,
      pq_errorCounts = [], pq_deferredNoKey = [], pq_failedVaults = [], pq_pendingVaultIds = [],
      pq_ready = True, pq_pollTimer = False, pq_dirtyChanges = 0\<rparr>"

text \<open>What waits for the result of \<^verbatim>\<open>pushDoc\<close>: the loop of \<^verbatim>\<open>flushAllDirty\<close> with the ids it has left and
  its counts, \<^verbatim>\<open>flushNow\<close>, or a debounce timer.\<close>

datatype push_caller = ByFlush "string list" nat nat | ByFlushNow | ByDebounce

datatype 'd task =
    AtStart
  | AtPoll
  | AtAckOpen string int nat
  | AtAckClosed string int nat
  | AtConfirmDiscard "string list"
  | AtDiscard string "string list" "string list option"
  | AtGiveUp string
  | AtPushOpen string push_caller
  | AtPushClear string push_caller
  | AtPushCloseEmpty string push_caller nat
  | AtPushWait string push_caller bool "'d store" nat
  | AtPushSign string push_caller bool "string list" bytes
  | AtPushEncrypt string push_caller bool "string list" crypto_key bytes
  | AtPushClose string push_caller nat push_result
  | AtSetHeads string "string list"
  | AtTryHeads string "'d store"
  | AtTryClear string nat
  | AtPurge string "string list" "string list" nat
  | AtPending "string list"
  | AtPendingClear string "pending_vault list" "string list"

record ('d, 'p) world =
  w_pq :: push_queue
  w_dm :: "'d doc_mgr"
  w_db :: idb
  w_sc :: "'p sync_client option"
  w_tasks :: "'d task list"

definition on_pq :: "(push_queue \<Rightarrow> push_queue) \<Rightarrow> ('d, 'p) world \<Rightarrow> ('d, 'p) world" where
  "on_pq f w = w\<lparr>w_pq := f (w_pq w)\<rparr>"

definition on_db :: "(idb \<Rightarrow> idb) \<Rightarrow> ('d, 'p) world \<Rightarrow> ('d, 'p) world" where
  "on_db f w = w\<lparr>w_db := f (w_db w)\<rparr>"

definition await :: "'d task \<Rightarrow> ('d, 'p) world \<Rightarrow> ('d, 'p) world" where
  "await t w = w\<lparr>w_tasks := w_tasks w @ [t]\<rparr>"

definition isConnected :: "('d, 'p) world \<Rightarrow> bool" where
  "isConnected w = (case w_sc w of None \<Rightarrow> False | Some s \<Rightarrow> isOpen s)"

subsection \<open>The dirty set\<close>

definition onDirtyChange :: "push_queue \<Rightarrow> push_queue" where
  "onDirtyChange q = q\<lparr>pq_dirtyChanges := Suc (pq_dirtyChanges q)\<rparr>"

definition add_dirty :: "string \<Rightarrow> push_queue \<Rightarrow> push_queue" where
  "add_dirty docId q = q\<lparr>pq_dirtySet := set_add docId (pq_dirtySet q)\<rparr>"

definition delete_dirty :: "string \<Rightarrow> push_queue \<Rightarrow> push_queue" where
  "delete_dirty docId q = q\<lparr>pq_dirtySet := set_delete docId (pq_dirtySet q)\<rparr>"

text \<open>A document's vault is in a set of vaults; a document outside vaults has none.\<close>

definition vault_in :: "string list \<Rightarrow> string \<Rightarrow> bool" where
  "vault_in vs docId = (case vault_of docId of None \<Rightarrow> False | Some v \<Rightarrow> v \<in> set vs)"

definition pushable :: "push_queue \<Rightarrow> string \<Rightarrow> bool" where
  "pushable q docId \<longleftrightarrow>
     (if docId \<in> set (pq_deferredNoKey q) then False
      else if vault_in (pq_pendingVaultIds q) docId then False
      else if vault_in (pq_failedVaults q) docId then False
      else True)"

definition hasDirty :: "push_queue \<Rightarrow> bool" where
  "hasDirty q \<longleftrightarrow> 0 < length (pq_dirtySet q)"

definition dirtyCount :: "push_queue \<Rightarrow> nat" where
  "dirtyCount q = length (pq_dirtySet q)"

definition pushableCount :: "push_queue \<Rightarrow> nat" where
  "pushableCount q = foldl (\<lambda>n docId. if pushable q docId then Suc n else n) 0 (pq_dirtySet q)"

definition pq_isDirty :: "push_queue \<Rightarrow> string \<Rightarrow> bool" where
  "pq_isDirty q docId \<longleftrightarrow> docId \<in> set (pq_dirtySet q)"

definition setPendingVaultIds :: "string list \<Rightarrow> push_queue \<Rightarrow> push_queue" where
  "setPendingVaultIds ids q = q\<lparr>pq_pendingVaultIds := ids\<rparr>"

definition clearPendingVault :: "string \<Rightarrow> push_queue \<Rightarrow> push_queue" where
  "clearPendingVault vaultId q = q\<lparr>pq_pendingVaultIds := set_delete vaultId (pq_pendingVaultIds q)\<rparr>"

definition onVaultsChanged :: "push_queue \<Rightarrow> push_queue" where
  "onVaultsChanged q = q\<lparr>pq_ready := True, pq_deferredNoKey := [], pq_failedVaults := []\<rparr>"

definition updateRefs :: "sign_fn option \<Rightarrow> push_queue \<Rightarrow> push_queue" where
  "updateRefs signFn q =
     q\<lparr>pq_ready := False, pq_signFn := (case signFn of None \<Rightarrow> pq_signFn q | Some f \<Rightarrow> Some f)\<rparr>"

definition stop :: "push_queue \<Rightarrow> push_queue" where
  "stop q = q\<lparr>pq_pollTimer := False, pq_backoffTimer := None, pq_timers := [], pq_firstChange := []\<rparr>"

definition scheduleBackoffFlush :: "push_queue \<Rightarrow> push_queue" where
  "scheduleBackoffFlush q =
     (case pq_backoffTimer q of Some _ \<Rightarrow> q | None \<Rightarrow> q\<lparr>pq_backoffTimer := Some (pq_backoffMs q)\<rparr>)"

definition onRateLimited :: "nat option \<Rightarrow> push_queue \<Rightarrow> push_queue" where
  "onRateLimited retryAfterMs q =
     (let q1 = q\<lparr>pq_ratePaused := True\<rparr>;
          q2 = (case retryAfterMs of
                  None \<Rightarrow> q1
                | Some r \<Rightarrow> if 0 < r then q1\<lparr>pq_backoffMs := max (pq_backoffMs q1) r\<rparr> else q1)
      in case pq_backoffTimer q2 of None \<Rightarrow> scheduleBackoffFlush q2 | Some _ \<Rightarrow> q2)"

definition cancelTimer :: "string \<Rightarrow> push_queue \<Rightarrow> push_queue" where
  "cancelTimer docId q =
     q\<lparr>pq_timers := map_delete docId (pq_timers q), pq_firstChange := map_delete docId (pq_firstChange q)\<rparr>"

subsection \<open>Pushing one document\<close>

text \<open>A part of \<^verbatim>\<open>pushDoc\<close> either returns, throws, or waits.\<close>

datatype push_step = Returns push_result | Waits

definition pushDoc :: "string \<Rightarrow> push_caller \<Rightarrow> ('d, 'p) world \<Rightarrow> push_step \<times> ('d, 'p) world" where
  "pushDoc docId caller w =
     (if \<not> isConnected w then (Returns NotConnected, w)
      else case dm_get docId (w_dm w) of
             Some s \<Rightarrow> (Waits, await (AtPushWait docId caller False s (waitForWrite_target s)) w)
           | None \<Rightarrow> (Waits, await (AtPushOpen docId caller)
                       (w\<lparr>w_dm := snd (dm_open docId (\<lambda>d. d) (w_dm w))\<rparr>)))"

definition hasPushable :: "push_queue \<Rightarrow> bool" where
  "hasPushable q \<longleftrightarrow> (\<exists>docId \<in> set (pq_dirtySet q). pushable q docId)"

subsection \<open>Flushing\<close>

text \<open>The loop of \<^verbatim>\<open>flushAllDirty\<close> up to the next document it pushes.\<close>

datatype flush_next = FlushOver | FlushPush string "string list" nat

fun flush_scan :: "push_queue \<Rightarrow> bool \<Rightarrow> string list \<Rightarrow> nat \<Rightarrow> flush_next" where
  "flush_scan q connected [] skipped = FlushOver"
| "flush_scan q connected (docId # docIds) skipped =
     (if \<not> connected \<or> pq_ratePaused q then FlushOver
      else if docId \<notin> set (pq_dirtySet q) then flush_scan q connected docIds (Suc skipped)
      else if docId \<in> set (pq_deferredNoKey q) then flush_scan q connected docIds (Suc skipped)
      else if vault_in (pq_pendingVaultIds q) docId then flush_scan q connected docIds (Suc skipped)
      else if vault_in (pq_failedVaults q) docId then flush_scan q connected docIds (Suc skipped)
      else FlushPush docId docIds skipped)"

definition flush_end :: "('d, 'p) world \<Rightarrow> ('d, 'p) world" where
  "flush_end w =
     (let w1 = on_pq (\<lambda>q. q\<lparr>pq_flushing := False\<rparr>) w; q = w_pq w1
      in if hasPushable q \<and> isConnected w1 \<and> pq_backoffTimer q = None then on_pq scheduleBackoffFlush w1 else w1)"

definition flush_continue :: "string list \<Rightarrow> nat \<Rightarrow> nat \<Rightarrow> ('d, 'p) world \<Rightarrow> ('d, 'p) world" where
  "flush_continue docIds sent skipped w =
     (case flush_scan (w_pq w) (isConnected w) docIds skipped of
        FlushOver \<Rightarrow> flush_end w
      | FlushPush docId rest skipped' \<Rightarrow>
          (case pushDoc docId (ByFlush rest sent skipped') w of
             (Waits, w1) \<Rightarrow> w1
           | (Returns _, w1) \<Rightarrow> flush_end w1))"

definition flushAllDirty :: "('d, 'p) world \<Rightarrow> ('d, 'p) world" where
  "flushAllDirty w =
     (if pq_flushing (w_pq w) \<or> \<not> isConnected w \<or> \<not> pq_ready (w_pq w) then w
      else
        let w1 = on_pq (\<lambda>q. q\<lparr>pq_flushing := True, pq_ratePaused := False\<rparr>) w;
            docIds = pq_dirtySet (w_pq w1)
        in if docIds = [] then on_pq (\<lambda>q. q\<lparr>pq_flushing := False\<rparr>) w1
           else flush_continue docIds 0 0 w1)"

text \<open>What the caller does with the result of \<^verbatim>\<open>pushDoc\<close>; an exception leaves the loop through its
  \<^verbatim>\<open>finally\<close> block.\<close>

definition push_returns :: "push_caller \<Rightarrow> push_result \<Rightarrow> ('d, 'p) world \<Rightarrow> ('d, 'p) world" where
  "push_returns caller result w =
     (case caller of
        ByFlush rest sent skipped \<Rightarrow>
          (case result of
             NotConnected \<Rightarrow> flush_end w
           | NoKey \<Rightarrow> flush_continue rest sent (Suc skipped) w
           | Sent \<Rightarrow> flush_continue rest (Suc sent) skipped w
           | Threw \<Rightarrow> on_pq (\<lambda>q. q\<lparr>pq_flushing := False\<rparr>) w)
      | _ \<Rightarrow> w)"

definition flushNow :: "string \<Rightarrow> ('d, 'p) world \<Rightarrow> ('d, 'p) world" where
  "flushNow docId w = snd (pushDoc docId ByFlushNow (on_pq (\<lambda>q. add_dirty docId (cancelTimer docId q)) w))"

definition fireDebounce :: "string \<Rightarrow> ('d, 'p) world \<Rightarrow> ('d, 'p) world" where
  "fireDebounce docId w =
     (let w1 = on_pq (cancelTimer docId) w
      in if \<not> isConnected w1 then w1 else snd (pushDoc docId ByDebounce w1))"

definition schedulePush :: "int \<Rightarrow> string \<Rightarrow> ('d, 'p) world \<Rightarrow> ('d, 'p) world" where
  "schedulePush now docId w =
     (let q = w_pq w;
          first = (case map_get (pq_firstChange q) docId of None \<Rightarrow> now | Some f \<Rightarrow> f);
          w1 = on_pq (\<lambda>q. q\<lparr>pq_firstChange := map_set docId first (pq_firstChange q)\<rparr>) w;
          elapsed = now - first
      in if MAX_WAIT_MS \<le> elapsed then fireDebounce docId w1
         else on_pq (\<lambda>q. q\<lparr>pq_timers :=
                map_set docId (now + min DEBOUNCE_MS (MAX_WAIT_MS - elapsed)) (pq_timers q)\<rparr>) w1)"

definition markDirty :: "int \<Rightarrow> string \<Rightarrow> ('d, 'p) world \<Rightarrow> ('d, 'p) world" where
  "markDirty now docId w = schedulePush now docId (on_pq (\<lambda>q. onDirtyChange (add_dirty docId q)) w)"

definition backoff_fires :: "('d, 'p) world \<Rightarrow> ('d, 'p) world" where
  "backoff_fires w =
     flushAllDirty (on_pq (\<lambda>q. q\<lparr>pq_backoffTimer := None, pq_ratePaused := False,
       pq_backoffMs := min (pq_backoffMs q * 2) BACKOFF_MAX\<rparr>) w)"

definition poll :: "('d, 'p) world \<Rightarrow> ('d, 'p) world" where
  "poll w = (if pq_flushing (w_pq w) \<or> \<not> isConnected w then w else await AtPoll w)"

definition start :: "('d, 'p) world \<Rightarrow> ('d, 'p) world" where
  "start w = await AtStart w"

subsection \<open>Server responses\<close>

definition onAck :: "string \<Rightarrow> int \<Rightarrow> ('d, 'p) world \<Rightarrow> ('d, 'p) world" where
  "onAck docId seq w =
     (case dm_get docId (w_dm w) of
        Some _ \<Rightarrow> await (AtAckOpen docId seq 0) w
      | None \<Rightarrow> await (AtAckClosed docId seq 0) w)"

definition ack_done :: "string \<Rightarrow> push_queue \<Rightarrow> push_queue" where
  "ack_done docId q =
     (let wasDirty = docId \<in> set (pq_dirtySet q);
          q1 = (delete_dirty docId q)\<lparr>pq_errorCounts := map_delete docId (pq_errorCounts q)\<rparr>
      in onDirtyChange (if wasDirty then q1\<lparr>pq_backoffMs := BACKOFF_INITIAL\<rparr> else q1))"

definition push_rejected :: "string \<Rightarrow> ('d, 'p) world \<Rightarrow> ('d, 'p) world" where
  "push_rejected docId w =
     (let count = (case map_get (pq_errorCounts (w_pq w)) docId of None \<Rightarrow> 0 | Some n \<Rightarrow> n) + 1;
          w1 = on_pq (\<lambda>q. delete_dirty docId (q\<lparr>pq_errorCounts := map_set docId count (pq_errorCounts q)\<rparr>)) w
      in if MAX_PUSH_ERRORS \<le> count then await (AtGiveUp docId) w1 else on_pq onDirtyChange w1)"

definition onPushError :: "string \<Rightarrow> string \<Rightarrow> ('d, 'p) world \<Rightarrow> ('d, 'p) world" where
  "onPushError docId message w =
     (case (if sublist ''insufficient permissions'' message then vault_of docId else None) of
        None \<Rightarrow> push_rejected docId w
      | Some vaultId \<Rightarrow>
          if vaultId \<in> set (pq_pendingVaultIds (w_pq w)) then on_pq (\<lambda>q. onDirtyChange (delete_dirty docId q)) w
          else if vaultId \<notin> set (pq_failedVaults (w_pq w)) then
            (let w1 = on_pq (\<lambda>q. q\<lparr>pq_failedVaults := set_add vaultId (pq_failedVaults q)\<rparr>) w;
                 vaultDirtyIds = filter (prefix (vaultId @ ''/'')) (pq_dirtySet (w_pq w1))
             in if vaultDirtyIds = [] then on_pq onDirtyChange w1
                else await (AtConfirmDiscard vaultDirtyIds) w1)
          else on_pq onDirtyChange w)"

text \<open>\<^verbatim>\<open>discardAll\<close>: the next document leaves the dirty set and its flag is awaited. The last argument
  is the whole list while the dialog's \<^verbatim>\<open>try\<close> block is running: a failure there discards again from
  its start, in the \<^verbatim>\<open>catch\<close> block.\<close>

definition discard_from :: "string list \<Rightarrow> string list option \<Rightarrow> ('d, 'p) world \<Rightarrow> ('d, 'p) world" where
  "discard_from ids trying w =
     (case ids of
        [] \<Rightarrow> on_pq (\<lambda>q. onDirtyChange (if trying \<noteq> None then onDirtyChange (onDirtyChange q) else onDirtyChange q)) w
      | docId # rest \<Rightarrow> await (AtDiscard docId rest trying) (on_pq (delete_dirty docId) w))"

definition tryClearDirtyOnCaughtUp :: "string \<Rightarrow> ('d, 'p) world \<Rightarrow> ('d, 'p) world" where
  "tryClearDirtyOnCaughtUp docId w =
     (if docId \<notin> set (pq_dirtySet (w_pq w)) then w
      else case dm_get docId (w_dm w) of
             None \<Rightarrow> w
           | Some s \<Rightarrow> await (AtTryHeads docId s) w)"

text \<open>The loop of \<^verbatim>\<open>purgeOrphanedDirty\<close> up to its next await.\<close>

fun purge_from :: "string list \<Rightarrow> string list \<Rightarrow> nat \<Rightarrow> ('d, 'p) world \<Rightarrow> ('d, 'p) world" where
  "purge_from known [] purged w = (if 0 < purged then on_pq onDirtyChange w else w)"
| "purge_from known (docId # rest) purged w =
     (case vault_of docId of
        None \<Rightarrow> purge_from known rest purged w
      | Some vaultId \<Rightarrow>
          if vaultId \<in> set known then purge_from known rest purged w
          else await (AtPurge docId rest known purged) (on_pq (delete_dirty docId) w))"

definition purgeOrphanedDirty :: "string list \<Rightarrow> ('d, 'p) world \<Rightarrow> ('d, 'p) world" where
  "purgeOrphanedDirty known w = purge_from known (pq_dirtySet (w_pq w)) 0 w"

text \<open>The loop of \<^verbatim>\<open>createPendingVaults\<close> up to its next await.\<close>

fun pending_from :: "string list \<Rightarrow> pending_vault list \<Rightarrow> ('d, 'p) world \<Rightarrow> ('d, 'p) world" where
  "pending_from known [] w = w"
| "pending_from known (pv # rest) w =
     (if pv_vaultId pv \<in> set known then await (AtPendingClear (pv_vaultId pv) rest known) w
      else case w_sc w of
             None \<Rightarrow> w
           | Some s \<Rightarrow> pending_from known rest
               (w\<lparr>w_sc := Some (createVaultFireAndForget (pv_vaultId pv) (pv_encryptedVaultKey pv) (pv_senderPublicKey pv) s)\<rparr>))"

definition createPendingVaults :: "string list \<Rightarrow> ('d, 'p) world \<Rightarrow> ('d, 'p) world" where
  "createPendingVaults known w = await (AtPending known) w"

subsection \<open>Resuming\<close>

text \<open>What the awaited operation delivers: success, a rejected database operation, the outcome of the
  write of an opened document, the initialisation vector of an encryption, the answer of a dialog
  (none without a DOM).\<close>

datatype input = InOk | InFail | InOutcome outcome | InIv bytes | InAnswer "bool option"

definition store_now :: "string \<Rightarrow> 'd store \<Rightarrow> ('d, 'p) world \<Rightarrow> 'd store" where
  "store_now docId copy w = (case dm_get docId (w_dm w) of Some s \<Rightarrow> s | None \<Rightarrow> copy)"

text \<open>\<^verbatim>\<open>pushDoc\<close> from the point where the payload is known to its return or next await.\<close>

definition push_close :: "string \<Rightarrow> push_caller \<Rightarrow> bool \<Rightarrow> push_result \<Rightarrow> ('d, 'p) world \<Rightarrow> ('d, 'p) world" where
  "push_close docId caller tempOpened result w =
     (case (if tempOpened then dm_close_begin docId (w_dm w) else None) of
        Some target \<Rightarrow> await (AtPushClose docId caller target result) w
      | None \<Rightarrow> push_returns caller result w)"

definition push_result_part ::
  "string \<Rightarrow> push_caller \<Rightarrow> bool \<Rightarrow> string list \<Rightarrow> push_result \<Rightarrow> ('d, 'p) world \<Rightarrow> ('d, 'p) world" where
  "push_result_part docId caller tempOpened heads result w =
     (case result of
        Threw \<Rightarrow> push_returns caller Threw w
      | Sent \<Rightarrow> push_close docId caller tempOpened result (await (AtSetHeads docId heads) w)
      | NoKey \<Rightarrow> push_close docId caller tempOpened result
                   (on_pq (\<lambda>q. q\<lparr>pq_deferredNoKey := set_add docId (pq_deferredNoKey q)\<rparr>) w)
      | NotConnected \<Rightarrow> push_close docId caller tempOpened result w)"

text \<open>The call of \<^verbatim>\<open>syncClient.push\<close>, up to its await of \<^verbatim>\<open>encrypt\<close>.\<close>

definition push_payload :: "string \<Rightarrow> push_caller \<Rightarrow> bool \<Rightarrow> string list \<Rightarrow> bytes \<Rightarrow> ('d, 'p) world \<Rightarrow> ('d, 'p) world" where
  "push_payload docId caller tempOpened heads payload w =
     (case w_sc w of
        None \<Rightarrow> push_returns caller Threw w
      | Some s \<Rightarrow>
          (case push_begin docId s of
             Inl r \<Rightarrow> push_result_part docId caller tempOpened heads r w
           | Inr key \<Rightarrow> await (AtPushEncrypt docId caller tempOpened heads key payload) w))"

definition push_store :: "'d automerge \<Rightarrow> string \<Rightarrow> push_caller \<Rightarrow> bool \<Rightarrow> 'd store \<Rightarrow> ('d, 'p) world \<Rightarrow> ('d, 'p) world" where
  "push_store A docId caller tempOpened s w =
     (let heads = am_getHeads A (st_doc s); raw = am_save A (st_doc s)
      in case pq_signFn (w_pq w) of
           None \<Rightarrow> push_payload docId caller tempOpened heads raw w
         | Some _ \<Rightarrow> await (AtPushSign docId caller tempOpened heads raw) w)"

text \<open>\<^verbatim>\<open>pushDoc\<close> after the awaited open: a document without changes is dropped from the dirty set, an open
  that failed is reported as sent.\<close>

definition push_opened :: "'d automerge \<Rightarrow> string \<Rightarrow> push_caller \<Rightarrow> ('d, 'p) world \<Rightarrow> ('d, 'p) world" where
  "push_opened A docId caller w =
     (case dm_get docId (w_dm w) of
        Some s \<Rightarrow>
          if am_getAllChanges A (st_doc s) = [] then await (AtPushClear docId caller) w
          else await (AtPushWait docId caller True s (waitForWrite_target s)) w
      | None \<Rightarrow>
          (case map_get (dm_opening (w_dm w)) docId of
             Some (OpenRejected e) \<Rightarrow> push_returns caller Sent w
           | _ \<Rightarrow> await (AtPushOpen docId caller) w))"

definition poll_found :: "idb \<Rightarrow> push_queue \<Rightarrow> push_queue" where
  "poll_found db q =
     (let found = filter (\<lambda>docId. docId \<notin> set (pq_dirtySet q) \<and> \<not> vault_in (pq_failedVaults q) docId)
                    (getAllDirtyDocIds db);
          q1 = foldl (\<lambda>q docId. add_dirty docId q) q found
      in if found = [] then q1 else onDirtyChange q1)"

definition heads_match :: "string list \<Rightarrow> string list \<Rightarrow> bool" where
  "heads_match pushHeads currentHeads \<longleftrightarrow>
     length pushHeads = length currentHeads \<and>
     list_all (\<lambda>(h, c). h = c) (zip pushHeads currentHeads)"

text \<open>A rejected database operation ends the method it is awaited in. An operation whose result is not
  there yet (an open still pending, writes still queued) leaves its task waiting.\<close>

fun resume :: "'d automerge \<Rightarrow> webcrypto \<Rightarrow> input \<Rightarrow> 'd task \<Rightarrow> ('d, 'p) world \<Rightarrow> ('d, 'p) world" where
  "resume A C i AtStart w =
     (if i = InFail then w
      else on_pq (\<lambda>q. (foldl (\<lambda>q docId. add_dirty docId q) q (getAllDirtyDocIds (w_db w)))\<lparr>pq_pollTimer := True\<rparr>) w)"
| "resume A C i AtPoll w =
     (if i = InFail then w
      else
        let w1 = on_pq (poll_found (w_db w)) w
        in if pq_dirtySet (w_pq w1) \<noteq> [] \<and> pq_backoffTimer (w_pq w1) = None then flushAllDirty w1 else w1)"
| "resume A C i (AtAckOpen docId seq n) w =
     (if i = InFail then w
      else if n = 0 then await (AtAckOpen docId seq 1) (on_db (idb_delete (dirty_key docId)) w)
      else if n = 1 then await (AtAckOpen docId seq 2) (on_db (idb_delete (heads_key docId)) w)
      else on_pq (ack_done docId) (on_db (setLastSeq_db docId seq) w))"
| "resume A C i (AtAckClosed docId seq n) w =
     (if i = InFail then w
      else if n = 0 then await (AtAckClosed docId seq 1) (on_db (clearDirtyFlag docId) w)
      else on_pq (ack_done docId) (on_db (setSeqFlag docId seq) w))"
| "resume A C i (AtConfirmDiscard ids) w =
     (case i of
        InAnswer (Some True) \<Rightarrow> discard_from ids (Some ids) w
      | InAnswer (Some False) \<Rightarrow> on_pq (\<lambda>q. onDirtyChange (onDirtyChange q)) w
      | _ \<Rightarrow> discard_from ids None w)"
| "resume A C i (AtDiscard docId rest trying) w =
     (if i = InFail then (case trying of None \<Rightarrow> w | Some ids \<Rightarrow> discard_from ids None w)
      else discard_from rest trying (on_db (clearDirtyFlag docId) w))"
| "resume A C i (AtGiveUp docId) w =
     (if i = InFail then w
      else on_pq (\<lambda>q. onDirtyChange (q\<lparr>pq_errorCounts := map_delete docId (pq_errorCounts q)\<rparr>))
             (on_db (clearDirtyFlag docId) w))"
| "resume A C i (AtPushOpen docId caller) w =
     (case i of
        InOutcome out \<Rightarrow>
          (case dm_settle A C out docId (w_dm w, w_db w) of
             (m, db) \<Rightarrow> push_opened A docId caller (w\<lparr>w_dm := m, w_db := db\<rparr>))
      | _ \<Rightarrow> await (AtPushOpen docId caller) w)"
| "resume A C i (AtPushClear docId caller) w =
     (if i = InFail then push_returns caller Sent w
      else
        let w1 = on_pq (delete_dirty docId) (on_db (clearDirtyFlag docId) w)
        in case dm_close_begin docId (w_dm w1) of
             Some target \<Rightarrow> await (AtPushCloseEmpty docId caller target) w1
           | None \<Rightarrow> push_returns caller Sent (on_pq onDirtyChange w1))"
| "resume A C i (AtPushCloseEmpty docId caller target) w =
     (case dm_get docId (w_dm w) of
        Some s \<Rightarrow>
          if st_writesDone s < target then await (AtPushCloseEmpty docId caller target) w
          else push_returns caller Sent (on_pq onDirtyChange (w\<lparr>w_dm := dm_close_end docId (w_dm w)\<rparr>))
      | None \<Rightarrow> push_returns caller Sent (on_pq onDirtyChange w))"
| "resume A C i (AtPushWait docId caller tempOpened copy target) w =
     (case dm_get docId (w_dm w) of
        Some s \<Rightarrow>
          if st_writesDone s < target then await (AtPushWait docId caller tempOpened copy target) w
          else push_store A docId caller tempOpened s w
      | None \<Rightarrow> push_store A docId caller tempOpened copy w)"
| "resume A C i (AtPushSign docId caller tempOpened heads raw) w =
     (case Option.bind (pq_signFn (w_pq w)) (\<lambda>f. f raw) of
        None \<Rightarrow> push_returns caller Threw w
      | Some payload \<Rightarrow> push_payload docId caller tempOpened heads payload w)"
| "resume A C i (AtPushEncrypt docId caller tempOpened heads key payload) w =
     (case (w_sc w, i) of
        (Some s, InIv iv) \<Rightarrow>
          (case push_end C iv key docId payload s of
             (result, s') \<Rightarrow> push_result_part docId caller tempOpened heads result (w\<lparr>w_sc := Some s'\<rparr>))
      | _ \<Rightarrow> await (AtPushEncrypt docId caller tempOpened heads key payload) w)"
| "resume A C i (AtPushClose docId caller target result) w =
     (case dm_get docId (w_dm w) of
        Some s \<Rightarrow>
          if st_writesDone s < target then await (AtPushClose docId caller target result) w
          else push_returns caller result (w\<lparr>w_dm := dm_close_end docId (w_dm w)\<rparr>)
      | None \<Rightarrow> push_returns caller result w)"
| "resume A C i (AtSetHeads docId heads) w =
     (if i = InFail then w else on_db (setPushHeads_db docId heads) w)"
| "resume A C i (AtTryHeads docId copy) w =
     (if i = InFail then w
      else case getPushHeads_db docId (w_db w) of
             None \<Rightarrow> w
           | Some pushHeads \<Rightarrow>
               if heads_match pushHeads (am_getHeads A (st_doc (store_now docId copy w)))
               then await (AtTryClear docId 0) w else w)"
| "resume A C i (AtTryClear docId n) w =
     (if i = InFail then w
      else if n = 0 then await (AtTryClear docId 1) (on_db (idb_delete (dirty_key docId)) w)
      else on_pq (\<lambda>q. onDirtyChange (delete_dirty docId q)) (on_db (idb_delete (heads_key docId)) w))"
| "resume A C i (AtPurge docId rest known purged) w =
     (if i = InFail then w else purge_from known rest (Suc purged) (on_db (clearDirtyFlag docId) w))"
| "resume A C i (AtPending known) w =
     (if i = InFail then w else pending_from known (getAllPendingVaults (w_db w)) w)"
| "resume A C i (AtPendingClear vaultId rest known) w =
     (if i = InFail then w else pending_from known rest (on_db (clearPendingVault_db vaultId) w))"

text \<open>A task is taken from the list and resumed.\<close>

definition resume_at :: "'d automerge \<Rightarrow> webcrypto \<Rightarrow> input \<Rightarrow> nat \<Rightarrow> ('d, 'p) world \<Rightarrow> ('d, 'p) world" where
  "resume_at A C i n w =
     (if n < length (w_tasks w)
      then resume A C i (w_tasks w ! n) (w\<lparr>w_tasks := take n (w_tasks w) @ drop (Suc n) (w_tasks w)\<rparr>)
      else w)"

subsection \<open>Runs\<close>

text \<open>A debounce, backoff or poll timer fires when it is set. The documents, the database and the sync
  client move on their own: local edits, remote changes and queued writes are events of the document
  manager, socket events those of the client. \<^verbatim>\<open>updateRefs\<close> passes the manager and the client that
  the queue has (they live as long as the session).\<close>

datatype ('d, 'p) pq_event =
    PeStart
  | PeStop
  | PeMarkDirty int string
  | PeAck string int
  | PePushError string string
  | PeRateLimited "nat option"
  | PeFlush
  | PeFlushNow string
  | PeCaughtUp string
  | PePurge "string list"
  | PePending "string list"
  | PeSetPending "string list"
  | PeClearPending string
  | PeVaultsChanged
  | PeUpdateRefs "sign_fn option"
  | PePoll
  | PeDebounce string
  | PeBackoff
  | PeResume input nat
  | PeDocs "'d dm_event"
  | PeClient "'p sc_event"

fun pq_step :: "'d automerge \<Rightarrow> webcrypto \<Rightarrow> ('d, 'p) pq_event \<Rightarrow> ('d, 'p) world \<Rightarrow> ('d, 'p) world" where
  "pq_step A C PeStart w = start w"
| "pq_step A C PeStop w = on_pq stop w"
| "pq_step A C (PeMarkDirty now d) w = markDirty now d w"
| "pq_step A C (PeAck d seq) w = onAck d seq w"
| "pq_step A C (PePushError d m) w = onPushError d m w"
| "pq_step A C (PeRateLimited r) w = on_pq (onRateLimited r) w"
| "pq_step A C PeFlush w = flushAllDirty w"
| "pq_step A C (PeFlushNow d) w = flushNow d w"
| "pq_step A C (PeCaughtUp d) w = tryClearDirtyOnCaughtUp d w"
| "pq_step A C (PePurge known) w = purgeOrphanedDirty known w"
| "pq_step A C (PePending known) w = createPendingVaults known w"
| "pq_step A C (PeSetPending vs) w = on_pq (setPendingVaultIds vs) w"
| "pq_step A C (PeClearPending v) w = on_pq (clearPendingVault v) w"
| "pq_step A C PeVaultsChanged w = on_pq onVaultsChanged w"
| "pq_step A C (PeUpdateRefs f) w = on_pq (updateRefs f) w"
| "pq_step A C PePoll w = (if pq_pollTimer (w_pq w) then poll w else w)"
| "pq_step A C (PeDebounce d) w =
     (if map_get (pq_timers (w_pq w)) d \<noteq> None then fireDebounce d w else w)"
| "pq_step A C PeBackoff w = (if pq_backoffTimer (w_pq w) \<noteq> None then backoff_fires w else w)"
| "pq_step A C (PeResume i n) w = resume_at A C i n w"
| "pq_step A C (PeDocs e) w =
     (case dm_step A C e (w_dm w, w_db w) of (m, db) \<Rightarrow> w\<lparr>w_dm := m, w_db := db\<rparr>)"
| "pq_step A C (PeClient e) w = w\<lparr>w_sc := map_option (sc_step C e) (w_sc w)\<rparr>"

definition pq_run :: "'d automerge \<Rightarrow> webcrypto \<Rightarrow> ('d, 'p) pq_event list \<Rightarrow> ('d, 'p) world \<Rightarrow> ('d, 'p) world" where
  "pq_run A C evs w = foldl (\<lambda>v e. pq_step A C e v) w evs"

definition new_world :: "sign_fn option \<Rightarrow> 'd doc_mgr \<Rightarrow> idb \<Rightarrow> 'p sync_client option \<Rightarrow> ('d, 'p) world" where
  "new_world signFn m db sc =
     \<lparr>w_pq = new_push_queue signFn, w_dm = m, w_db = db, w_sc = sc, w_tasks = []\<rparr>"

subsection \<open>Basic lemmas\<close>

lemma world_simps [simp]:
  "w_pq (on_pq f w) = f (w_pq w)" "w_dm (on_pq f w) = w_dm w" "w_db (on_pq f w) = w_db w"
  "w_sc (on_pq f w) = w_sc w" "w_tasks (on_pq f w) = w_tasks w"
  "w_pq (on_db g w) = w_pq w" "w_dm (on_db g w) = w_dm w" "w_db (on_db g w) = g (w_db w)"
  "w_sc (on_db g w) = w_sc w" "w_tasks (on_db g w) = w_tasks w"
  "w_pq (await t w) = w_pq w" "w_dm (await t w) = w_dm w" "w_db (await t w) = w_db w"
  "w_sc (await t w) = w_sc w" "w_tasks (await t w) = w_tasks w @ [t]"
  by (simp_all add: on_pq_def on_db_def await_def)

lemma isConnected_simps [simp]:
  "isConnected (on_pq f w) = isConnected w" "isConnected (on_db g w) = isConnected w"
  "isConnected (await t w) = isConnected w" "isConnected (w\<lparr>w_dm := m\<rparr>) = isConnected w"
  "isConnected (w\<lparr>w_tasks := ts\<rparr>) = isConnected w" "isConnected (w\<lparr>w_db := db\<rparr>) = isConnected w"
  by (simp_all add: isConnected_def on_pq_def on_db_def await_def)

lemma flushing_simps [simp]:
  "pq_flushing (onDirtyChange q) = pq_flushing q" "pq_flushing (add_dirty d q) = pq_flushing q"
  "pq_flushing (delete_dirty d q) = pq_flushing q" "pq_flushing (cancelTimer d q) = pq_flushing q"
  "pq_flushing (scheduleBackoffFlush q) = pq_flushing q" "pq_flushing (onRateLimited r q) = pq_flushing q"
  "pq_flushing (stop q) = pq_flushing q" "pq_flushing (setPendingVaultIds vs q) = pq_flushing q"
  "pq_flushing (clearPendingVault v q) = pq_flushing q" "pq_flushing (onVaultsChanged q) = pq_flushing q"
  "pq_flushing (updateRefs f q) = pq_flushing q" "pq_flushing (ack_done d q) = pq_flushing q"
  by (auto simp: onDirtyChange_def add_dirty_def delete_dirty_def cancelTimer_def scheduleBackoffFlush_def
      onRateLimited_def stop_def setPendingVaultIds_def clearPendingVault_def onVaultsChanged_def
      updateRefs_def ack_done_def Let_def split: option.splits)

lemma flushing_fold [simp]: "pq_flushing (foldl (\<lambda>q d. add_dirty d q) q ds) = pq_flushing q"
  by (induction ds arbitrary: q) simp_all

lemma flushing_poll_found [simp]: "pq_flushing (poll_found db q) = pq_flushing q"
  by (simp add: poll_found_def Let_def)

subsection \<open>One flush at a time\<close>

text \<open>The calls of \<^verbatim>\<open>pushDoc\<close> that the loop of \<^verbatim>\<open>flushAllDirty\<close> waits for.\<close>

fun of_flush :: "push_caller \<Rightarrow> bool" where
  "of_flush (ByFlush ds sent skipped) = True"
| "of_flush ByFlushNow = False"
| "of_flush ByDebounce = False"

fun is_flush :: "'d task \<Rightarrow> bool" where
  "is_flush (AtPushOpen d c) = of_flush c"
| "is_flush (AtPushClear d c) = of_flush c"
| "is_flush (AtPushCloseEmpty d c n) = of_flush c"
| "is_flush (AtPushWait d c b s n) = of_flush c"
| "is_flush (AtPushSign d c b hs raw) = of_flush c"
| "is_flush (AtPushEncrypt d c b hs k p) = of_flush c"
| "is_flush (AtPushClose d c n r) = of_flush c"
| "is_flush _ = False"

definition flush_frames :: "('d, 'p) world \<Rightarrow> nat" where
  "flush_frames w = length (filter is_flush (w_tasks w))"

text \<open>The flag \<^verbatim>\<open>flushing\<close> is set exactly while a flush is under way, and then there is one. \<open>owing b\<close> is
  that with one more flush waiting if \<open>b\<close>: the state while a task is being resumed.\<close>

definition owing :: "bool \<Rightarrow> ('d, 'p) world \<Rightarrow> bool" where
  "owing b w \<longleftrightarrow> flush_frames w + of_bool b = of_bool (pq_flushing (w_pq w))"

definition flush_ok :: "('d, 'p) world \<Rightarrow> bool" where
  "flush_ok w \<longleftrightarrow> flush_frames w = of_bool (pq_flushing (w_pq w))"

lemma owing_False [simp]: "owing False w \<longleftrightarrow> flush_ok w"
  by (simp add: flush_ok_def owing_def)

lemma owing_True: "owing True w \<longleftrightarrow> flush_frames w = 0 \<and> pq_flushing (w_pq w)"
  by (cases "pq_flushing (w_pq w)") (simp_all add: owing_def)

lemma frames_simps [simp]:
  "flush_frames (on_pq f w) = flush_frames w" "flush_frames (on_db g w) = flush_frames w"
  "flush_frames (await t w) = flush_frames w + of_bool (is_flush t)"
  "flush_frames (w\<lparr>w_dm := m\<rparr>) = flush_frames w" "flush_frames (w\<lparr>w_db := db\<rparr>) = flush_frames w"
  "flush_frames (w\<lparr>w_sc := sc\<rparr>) = flush_frames w"
  by (simp_all add: flush_frames_def on_pq_def on_db_def await_def)

text \<open>Only the tasks and the flag matter.\<close>

lemma owing_update [simp]:
  "owing b (on_db g w) = owing b w" "owing b (w\<lparr>w_dm := m\<rparr>) = owing b w"
  "owing b (w\<lparr>w_db := db\<rparr>) = owing b w" "owing b (w\<lparr>w_sc := sc\<rparr>) = owing b w"
  by (simp_all add: owing_def)

lemma owing_on_pq [simp]:
  "(\<And>q. pq_flushing (f q) = pq_flushing q) \<Longrightarrow> owing b (on_pq f w) = owing b w"
  by (simp add: owing_def)

lemma flush_ok_update [simp]:
  "flush_ok (on_db g w) = flush_ok w" "flush_ok (w\<lparr>w_dm := m\<rparr>) = flush_ok w"
  "flush_ok (w\<lparr>w_db := db\<rparr>) = flush_ok w" "flush_ok (w\<lparr>w_sc := sc\<rparr>) = flush_ok w"
  by (simp_all add: flush_ok_def)

lemma flush_ok_on_pq [simp]:
  "(\<And>q. pq_flushing (f q) = pq_flushing q) \<Longrightarrow> flush_ok (on_pq f w) = flush_ok w"
  by (simp add: flush_ok_def)

lemma owing_await: "owing (is_flush t) w \<Longrightarrow> flush_ok (await t w)"
  by (simp add: owing_def flush_ok_def)

lemma flush_end_ok: "owing True w \<Longrightarrow> flush_ok (flush_end w)"
  by (auto simp: owing_True flush_ok_def flush_end_def Let_def)

lemma pushDoc_ok:
  assumes "owing (of_flush caller) w"
  shows "case pushDoc d caller w of (Waits, w1) \<Rightarrow> flush_ok w1 | (Returns r, w1) \<Rightarrow> w1 = w"
  using assms by (auto simp: pushDoc_def owing_def flush_ok_def split: option.split)

lemma flush_continue_ok: "owing True w \<Longrightarrow> flush_ok (flush_continue ds sent skipped w)"
  using pushDoc_ok [of "ByFlush _ sent _" w]
  by (fastforce simp: flush_continue_def flush_end_ok split: flush_next.split push_step.splits prod.splits)

lemma flushAllDirty_ok: "flush_ok w \<Longrightarrow> flush_ok (flushAllDirty w)"
proof (cases "pq_flushing (w_pq w)")
  case False
  assume "flush_ok w"
  with False have "owing True (on_pq (\<lambda>q. q\<lparr>pq_flushing := True, pq_ratePaused := False\<rparr>) w)"
    by (simp add: owing_True flush_ok_def)
  from flush_continue_ok [OF this] \<open>flush_ok w\<close> False show ?thesis
    by (simp add: flushAllDirty_def Let_def) (simp add: flush_ok_def)
qed (simp add: flushAllDirty_def)

lemma push_returns_ok: "owing (of_flush caller) w \<Longrightarrow> flush_ok (push_returns caller r w)"
  by (cases caller; cases r)
    (simp_all add: push_returns_def flush_end_ok flush_continue_ok, simp_all add: owing_True flush_ok_def)

lemma push_close_ok: "owing (of_flush caller) w \<Longrightarrow> flush_ok (push_close d caller b r w)"
  by (simp add: push_close_def push_returns_ok owing_await split: option.split)

lemma push_result_part_ok: "owing (of_flush caller) w \<Longrightarrow> flush_ok (push_result_part d caller b hs r w)"
  by (cases r) (auto simp: push_result_part_def push_returns_ok owing_def intro!: push_close_ok)

lemma push_payload_ok: "owing (of_flush caller) w \<Longrightarrow> flush_ok (push_payload d caller b hs p w)"
  by (simp add: push_payload_def push_returns_ok push_result_part_ok owing_await split: option.split sum.split)

lemma push_store_ok: "owing (of_flush caller) w \<Longrightarrow> flush_ok (push_store A d caller b s w)"
  by (simp add: push_store_def Let_def push_payload_ok owing_await split: option.split)

lemma push_opened_ok: "owing (of_flush caller) w \<Longrightarrow> flush_ok (push_opened A d caller w)"
  by (simp add: push_opened_def push_returns_ok owing_await split: option.split open_promise.split)

lemma purge_from_ok: "flush_ok w \<Longrightarrow> flush_ok (purge_from known ds n w)"
  by (induction known ds n w rule: purge_from.induct)
    (auto simp: flush_ok_def split: option.split)

lemma pending_from_ok: "flush_ok w \<Longrightarrow> flush_ok (pending_from known pvs w)"
  by (induction known pvs w rule: pending_from.induct)
    (auto simp: flush_ok_def split: option.split)

lemma discard_from_ok: "flush_ok w \<Longrightarrow> flush_ok (discard_from ds tr w)"
  by (auto simp: discard_from_def flush_ok_def split: list.split)

lemma resume_ok: "owing (is_flush t) w \<Longrightarrow> flush_ok (resume A C i t w)"
  by (cases t)
    (simp_all add: Let_def discard_from_ok purge_from_ok pending_from_ok flushAllDirty_ok push_returns_ok
      push_opened_ok push_store_ok push_payload_ok push_result_part_ok owing_await
      split: input.split option.split prod.split bool.split)

lemma pushDoc_free_ok: "flush_ok w \<Longrightarrow> \<not> of_flush caller \<Longrightarrow> flush_ok (snd (pushDoc d caller w))"
  by (auto simp: pushDoc_def flush_ok_def split: option.split)

lemma flush_count_member: "n < length ts \<Longrightarrow>
    length (filter P (take n ts @ drop (Suc n) ts)) + of_bool (P (ts ! n)) = length (filter P ts)"
proof -
  assume "n < length ts"
  from id_take_nth_drop [OF this] have "filter P ts = filter P (take n ts) @ filter P (ts ! n # drop (Suc n) ts)"
    by (metis filter_append)
  then show ?thesis by simp
qed

lemma resume_at_ok:
  assumes "flush_ok w" shows "flush_ok (resume_at A C i n w)"
proof (cases "n < length (w_tasks w)")
  case True
  let ?w = "w\<lparr>w_tasks := take n (w_tasks w) @ drop (Suc n) (w_tasks w)\<rparr>"
  have "owing (is_flush (w_tasks w ! n)) ?w"
    using assms flush_count_member [OF True, of is_flush]
    by (simp add: owing_def flush_ok_def flush_frames_def)
  with True show ?thesis by (simp add: resume_at_def resume_ok)
qed (use assms in \<open>simp add: resume_at_def\<close>)

lemma fireDebounce_ok: "flush_ok w \<Longrightarrow> flush_ok (fireDebounce d w)"
  by (simp add: fireDebounce_def Let_def pushDoc_free_ok)

lemma onPushError_ok: "flush_ok w \<Longrightarrow> flush_ok (onPushError d m w)"
  by (auto simp: onPushError_def push_rejected_def Let_def split: option.split intro!: owing_await)

lemma flush_ok_step: "flush_ok w \<Longrightarrow> flush_ok (pq_step A C e w)"
  by (cases e)
    (auto simp: start_def markDirty_def schedulePush_def Let_def onAck_def flushAllDirty_ok flushNow_def
      tryClearDirtyOnCaughtUp_def purgeOrphanedDirty_def createPendingVaults_def poll_def backoff_fires_def
      fireDebounce_ok onPushError_ok resume_at_ok pushDoc_free_ok purge_from_ok
      split: option.split prod.split intro!: owing_await flushAllDirty_ok)

lemma pq_run_induct:
  assumes "P w" "\<And>w e. P w \<Longrightarrow> P (pq_step A C e w)"
  shows "P (pq_run A C evs w)"
  using assms(1) unfolding pq_run_def by (induction evs arbitrary: w) (simp_all add: assms(2))

subsection \<open>Timers and backoff\<close>

definition timer_ok :: "int option \<Rightarrow> int option \<Rightarrow> bool" where
  "timer_ok first due =
     (case (first, due) of
        (None, None) \<Rightarrow> True
      | (Some f, Some t) \<Rightarrow> t \<le> f + MAX_WAIT_MS
      | _ \<Rightarrow> False)"

definition pq_ok :: "push_queue \<Rightarrow> bool" where
  "pq_ok q \<longleftrightarrow> distinct (pq_dirtySet q) \<and> BACKOFF_INITIAL \<le> pq_backoffMs q \<and>
     (case pq_backoffTimer q of None \<Rightarrow> True | Some d \<Rightarrow> BACKOFF_INITIAL \<le> d) \<and>
     (\<forall>d. timer_ok (map_get (pq_firstChange q) d) (map_get (pq_timers q) d))"

lemma timer_ok_simps [simp]:
  "timer_ok None None" "timer_ok (Some f) (Some t) \<longleftrightarrow> t \<le> f + MAX_WAIT_MS"
  by (simp_all add: timer_ok_def)

lemma pq_ok_updates [simp]:
  "pq_ok q \<Longrightarrow> pq_ok (onDirtyChange q)" "pq_ok q \<Longrightarrow> pq_ok (add_dirty d q)" "pq_ok q \<Longrightarrow> pq_ok (delete_dirty d q)"
  "pq_ok q \<Longrightarrow> pq_ok (cancelTimer d q)" "pq_ok q \<Longrightarrow> pq_ok (scheduleBackoffFlush q)"
  "pq_ok q \<Longrightarrow> pq_ok (onRateLimited r q)" "pq_ok q \<Longrightarrow> pq_ok (stop q)"
  "pq_ok q \<Longrightarrow> pq_ok (setPendingVaultIds vs q)" "pq_ok q \<Longrightarrow> pq_ok (clearPendingVault v q)"
  "pq_ok q \<Longrightarrow> pq_ok (onVaultsChanged q)" "pq_ok q \<Longrightarrow> pq_ok (updateRefs f q)"
  "pq_ok q \<Longrightarrow> pq_ok (q\<lparr>pq_flushing := b\<rparr>)" "pq_ok q \<Longrightarrow> pq_ok (q\<lparr>pq_pollTimer := b\<rparr>)"
  "pq_ok q \<Longrightarrow> pq_ok (q\<lparr>pq_flushing := b, pq_ratePaused := b'\<rparr>)" "pq_ok q \<Longrightarrow> pq_ok (q\<lparr>pq_ratePaused := b\<rparr>)"
  "pq_ok q \<Longrightarrow> pq_ok (q\<lparr>pq_deferredNoKey := ds\<rparr>)" "pq_ok q \<Longrightarrow> pq_ok (q\<lparr>pq_failedVaults := vs\<rparr>)"
  "pq_ok q \<Longrightarrow> pq_ok (q\<lparr>pq_errorCounts := es\<rparr>)"
  by (auto simp: pq_ok_def onDirtyChange_def add_dirty_def delete_dirty_def cancelTimer_def
      scheduleBackoffFlush_def onRateLimited_def stop_def setPendingVaultIds_def clearPendingVault_def
      onVaultsChanged_def updateRefs_def Let_def map_eqs distinct_set_add distinct_set_delete
      split: option.splits)

lemma pq_ok_ack [simp]: "pq_ok q \<Longrightarrow> pq_ok (ack_done d q)"
proof -
  assume "pq_ok q"
  then have "pq_ok ((delete_dirty d q)\<lparr>pq_errorCounts := map_delete d (pq_errorCounts q)\<rparr>)" by simp
  then have "pq_ok ((delete_dirty d q)\<lparr>pq_errorCounts := map_delete d (pq_errorCounts q), pq_backoffMs := BACKOFF_INITIAL\<rparr>)"
    by (simp add: pq_ok_def)
  with \<open>pq_ok q\<close> show ?thesis by (simp add: ack_done_def Let_def)
qed

lemma pq_ok_fold [simp]: "pq_ok q \<Longrightarrow> pq_ok (foldl (\<lambda>q d. add_dirty d q) q ds)"
  by (induction ds arbitrary: q) simp_all

lemma pq_ok_poll_found [simp]: "pq_ok q \<Longrightarrow> pq_ok (poll_found db q)"
  by (simp add: poll_found_def Let_def)

lemma pushDoc_pq [simp]: "w_pq (snd (pushDoc d c w)) = w_pq w"
  by (simp add: pushDoc_def split: option.split)

lemma pq_ok_flush_end: "pq_ok (w_pq w) \<Longrightarrow> pq_ok (w_pq (flush_end w))"
  by (simp add: flush_end_def Let_def)

lemma pq_ok_flush_continue: "pq_ok (w_pq w) \<Longrightarrow> pq_ok (w_pq (flush_continue ds n k w))"
  using pushDoc_pq [of _ "ByFlush _ n _" w]
  by (auto simp: flush_continue_def pq_ok_flush_end split: flush_next.split push_step.splits prod.splits)
    (metis pq_ok_flush_end pushDoc_pq snd_conv)+

lemma pq_ok_flush: "pq_ok (w_pq w) \<Longrightarrow> pq_ok (w_pq (flushAllDirty w))"
  by (simp add: flushAllDirty_def Let_def pq_ok_flush_continue)

lemma pq_ok_push_returns: "pq_ok (w_pq w) \<Longrightarrow> pq_ok (w_pq (push_returns c r w))"
  by (simp add: push_returns_def pq_ok_flush_end pq_ok_flush_continue split: push_caller.split push_result.split)

lemma pq_ok_push_close: "pq_ok (w_pq w) \<Longrightarrow> pq_ok (w_pq (push_close d c b r w))"
  by (simp add: push_close_def pq_ok_push_returns split: option.split)

lemma pq_ok_push_result_part: "pq_ok (w_pq w) \<Longrightarrow> pq_ok (w_pq (push_result_part d c b hs r w))"
  by (simp add: push_result_part_def pq_ok_push_returns pq_ok_push_close split: push_result.split)

lemma pq_ok_push_payload: "pq_ok (w_pq w) \<Longrightarrow> pq_ok (w_pq (push_payload d c b hs p w))"
  by (simp add: push_payload_def pq_ok_push_returns pq_ok_push_result_part split: option.split sum.split)

lemma pq_ok_push_store: "pq_ok (w_pq w) \<Longrightarrow> pq_ok (w_pq (push_store A d c b s w))"
  by (simp add: push_store_def Let_def pq_ok_push_payload split: option.split)

lemma pq_ok_push_opened: "pq_ok (w_pq w) \<Longrightarrow> pq_ok (w_pq (push_opened A d c w))"
  by (simp add: push_opened_def pq_ok_push_returns split: option.split open_promise.split)

lemma pq_ok_purge_from: "pq_ok (w_pq w) \<Longrightarrow> pq_ok (w_pq (purge_from known ds n w))"
  by (induction known ds n w rule: purge_from.induct) (auto split: option.split)

lemma pq_pending_from [simp]: "w_pq (pending_from known pvs w) = w_pq w"
  by (induction known pvs w rule: pending_from.induct) (auto split: option.split)

lemma pq_ok_discard_from: "pq_ok (w_pq w) \<Longrightarrow> pq_ok (w_pq (discard_from ds tr w))"
  by (simp add: discard_from_def split: list.split)

lemma pq_ok_resume: "pq_ok (w_pq w) \<Longrightarrow> pq_ok (w_pq (resume A C i t w))"
  by (cases t)
    (simp_all add: Let_def pq_ok_discard_from pq_ok_purge_from pq_ok_flush pq_ok_push_returns
      pq_ok_push_opened pq_ok_push_store pq_ok_push_payload pq_ok_push_result_part
      split: input.split option.split prod.split bool.split)

lemma pq_ok_fireDebounce: "pq_ok (cancelTimer d (w_pq w)) \<Longrightarrow> pq_ok (w_pq (fireDebounce d w))"
  by (simp add: fireDebounce_def Let_def)

lemma pq_ok_schedulePush: "pq_ok (w_pq w) \<Longrightarrow> pq_ok (w_pq (schedulePush now d w))"
proof -
  assume ok: "pq_ok (w_pq w)"
  define f where "f = (case map_get (pq_firstChange (w_pq w)) d of None \<Rightarrow> now | Some f \<Rightarrow> f)"
  let ?w = "on_pq (\<lambda>q. q\<lparr>pq_firstChange := map_set d f (pq_firstChange q)\<rparr>) w"
  have "pq_ok (cancelTimer d (w_pq ?w))"
    using ok by (auto simp: pq_ok_def cancelTimer_def map_eqs)
  from pq_ok_fireDebounce [OF this] have 1: "pq_ok (w_pq (fireDebounce d ?w))" .
  have "now - f < MAX_WAIT_MS \<Longrightarrow>
      pq_ok ((w_pq ?w)\<lparr>pq_timers := map_set d (now + min DEBOUNCE_MS (MAX_WAIT_MS - (now - f))) (pq_timers (w_pq ?w))\<rparr>)"
    using ok by (auto simp: pq_ok_def map_eqs)
  with 1 show ?thesis
    by (simp add: schedulePush_def Let_def f_def [symmetric])
qed

lemma pq_ok_onPushError: "pq_ok (w_pq w) \<Longrightarrow> pq_ok (w_pq (onPushError d m w))"
  by (auto simp: onPushError_def push_rejected_def Let_def split: option.split)

lemma pq_ok_backoff: "pq_ok (w_pq w) \<Longrightarrow> pq_ok (w_pq (backoff_fires w))"
  unfolding backoff_fires_def by (rule pq_ok_flush) (simp add: pq_ok_def BACKOFF_INITIAL_def BACKOFF_MAX_def)

lemma pq_ok_step: "pq_ok (w_pq w) \<Longrightarrow> pq_ok (w_pq (pq_step A C e w))"
  by (cases e)
    (simp_all add: start_def markDirty_def pq_ok_schedulePush onAck_def pq_ok_onPushError pq_ok_flush
      flushNow_def tryClearDirtyOnCaughtUp_def purgeOrphanedDirty_def pq_ok_purge_from
      createPendingVaults_def poll_def pq_ok_fireDebounce pq_ok_backoff resume_at_def pq_ok_resume
      split: option.split prod.split)

text \<open>C3: in every run of the queue, with its calls, timers, server replies and pushes interleaved in any
  order and with any failures, the flag that locks out a second flush is set exactly while one flush
  is waiting for a document: two flushes never run at once, and the flag is never left set by a flush
  that returned early, was cut short by a dropped connection or ended with an exception.\<close>

theorem one_flush_at_a_time:
  "flush_frames (pq_run A C evs (new_world signFn m db sc))
     = (if pq_flushing (w_pq (pq_run A C evs (new_world signFn m db sc))) then 1 else 0)"
proof -
  have "flush_ok (new_world signFn m db sc)"
    by (simp add: flush_ok_def flush_frames_def new_world_def new_push_queue_def)
  then have "flush_ok (pq_run A C evs (new_world signFn m db sc))"
    by (rule pq_run_induct) (rule flush_ok_step)
  then show ?thesis by (simp add: flush_ok_def)
qed

text \<open>In every run the dirty set has no duplicates, the backoff never falls below its initial value
  (neither do the delays of pending backoff timers), and a document that waits for its debounced push
  has a timer due at most a second and a half after the first change it waits for, however often it
  is marked again; no other document has a timer or a first change recorded.\<close>

theorem queue_timers_bounded: "pq_ok (w_pq (pq_run A C evs (new_world signFn m db sc)))"
  by (rule pq_run_induct [of "\<lambda>w. pq_ok (w_pq w)"])
    (simp_all add: pq_ok_step, simp add: new_world_def new_push_queue_def pq_ok_def)

subsection \<open>A flush pushes every pushable document\<close>

lemma hasPushable_count: "hasPushable q \<longleftrightarrow> 0 < pushableCount q"
proof -
  have "foldl (\<lambda>n d. if pushable q d then Suc n else n) n ds = n + length (filter (pushable q) ds)" for n ds
    by (induction ds arbitrary: n) simp_all
  then show ?thesis by (auto simp: hasPushable_def pushableCount_def filter_empty_conv)
qed


definition flush_world :: "('d, 'p) world \<Rightarrow> push_queue \<Rightarrow> 'p sync_client \<Rightarrow> 'd task list \<Rightarrow> ('d, 'p) world" where
  "flush_world w q s ts = w\<lparr>w_pq := q, w_sc := Some s, w_tasks := ts\<rparr>"

lemma flush_world_simps [simp]:
  "w_pq (flush_world w q s ts) = q" "w_sc (flush_world w q s ts) = Some s"
  "w_tasks (flush_world w q s ts) = ts" "w_dm (flush_world w q s ts) = w_dm w"
  "await t (flush_world w q s ts) = flush_world w q s (ts @ [t])"
  "isConnected (flush_world w q s ts) = isOpen s"
  "flush_world w q s ts\<lparr>w_tasks := ts'\<rparr> = flush_world w q s ts'"
  "flush_world w q s ts\<lparr>w_sc := Some s'\<rparr> = flush_world w q s' ts"
  by (simp_all add: flush_world_def await_def isConnected_def)

text \<open>The pushes of a flush: the document's store, its key, and what the client does.\<close>

definition doc_bytes :: "'d automerge \<Rightarrow> 'd doc_mgr \<Rightarrow> string \<Rightarrow> bytes" where
  "doc_bytes A m d = am_save A (st_doc (the (dm_get d m)))"


definition push_one :: "'d automerge \<Rightarrow> webcrypto \<Rightarrow> 'd doc_mgr \<Rightarrow> bytes \<Rightarrow> string \<Rightarrow> 'p sync_client \<Rightarrow> 'p sync_client" where
  "push_one A C m iv d s = snd (push_end C iv (the (resolveKey d s)) d (doc_bytes A m d) s)"



lemma push_one_frame [simp]:
  "resolveKey d' (push_one A C m iv d s) = resolveKey d' s"
  "isOpen (push_one A C m iv d s) = isOpen s"
  by (auto simp: push_one_def push_end_def Let_def ws_send_def isOpen_def resolveKey_def case_prod_beta
      split: option.split ready_state.split)




lemma pq_run_Cons: "pq_run A C (e # es) w = pq_run A C es (pq_step A C e w)"
  by (simp add: pq_run_def)






lemma pushable_flags [simp]:
  "pushable (q\<lparr>pq_flushing := b\<rparr>) = pushable q" "pushable (q\<lparr>pq_ratePaused := b\<rparr>) = pushable q"
  by (simp_all add: pushable_def fun_eq_iff)


subsection \<open>Acknowledgements and newer changes\<close>

lemma dm_get_set [simp]: "dm_get d (m\<lparr>dm_stores := map_set d s ss\<rparr>) = Some s"
  by (simp add: dm_get_def map_eqs)

text \<open>An edit of an open document through its store, the mark, and the queued write.\<close>

definition edit_events :: "'d automerge \<Rightarrow> ('d \<Rightarrow> 'd) \<Rightarrow> int \<Rightarrow> bytes \<Rightarrow> string \<Rightarrow> ('d, 'p) pq_event list" where
  "edit_events A f now iv d =
     [PeDocs (EvUpdate d (store_change A f)), PeMarkDirty now d, PeDocs (EvWrite (Committed iv) d)]"

definition ack_events :: "string \<Rightarrow> int \<Rightarrow> ('d, 'p) pq_event list" where
  "ack_events d seq = [PeAck d seq, PeResume InOk 0, PeResume InOk 0, PeResume InOk 0]"

lemma after_edit:
  assumes "dm_get d (w_dm w) = Some st" "st_pendingWrite st = []" "st_docId st = d"
    and "map_get (pq_firstChange (w_pq w)) d = None" "w_tasks w = []"
  shows "let v = pq_run A C (edit_events A f now iv d) w in
    (\<exists>st'. dm_get d (w_dm v) = Some st' \<and> st_pendingWrite st' = [] \<and> st_doc st' = am_change A (st_doc st) f) \<and>
    w_sc v = w_sc w \<and> w_tasks v = [] \<and> d \<in> set (pq_dirtySet (w_pq v)) \<and>
    map_get (pq_timers (w_pq v)) d = Some (now + DEBOUNCE_MS)"
proof -
  define st1 where "st1 = store_change A f st"
  have st1: "st_pendingWrite st1 = [PersistAndMarkDirty]" "st_docId st1 = d" "st_doc st1 = am_change A (st_doc st) f"
    using assms(2,3)
    by (simp_all add: st1_def store_change_def notify_def enqueuePersistAndMarkDirty_def)
  have "map_get (dm_stores (w_dm w)) d = Some st" using assms(1) by (simp add: dm_get_def)
  then show ?thesis
    using assms(4,5) st1
    by (simp add: edit_events_def pq_run_def dm_update_def markDirty_def schedulePush_def Let_def
        onDirtyChange_def add_dirty_def dm_write_def run_write_def dm_get_def map_eqs st1_def [symmetric]
        MAX_WAIT_MS_def DEBOUNCE_MS_def)
qed

lemma after_ack:
  assumes "dm_get d (w_dm w) = Some st" "w_tasks w = []"
  shows "let v = pq_run A C (ack_events d seq) w in
    w_dm v = w_dm w \<and> w_sc v = w_sc w \<and> w_tasks v = [] \<and> w_pq v = ack_done d (w_pq w) \<and>
    w_db v = setLastSeq_db d seq (clearDirty_db d (w_db w))"
  using assms
  by (simp add: ack_events_def pq_run_def onAck_def resume_at_def clearDirty_db_def)

lemma ack_done_facts [simp]:
  "set (pq_dirtySet (ack_done d q)) = set (pq_dirtySet q) - {d}"
  "pq_timers (ack_done d q) = pq_timers q" "pq_firstChange (ack_done d q) = pq_firstChange q"
  by (auto simp: ack_done_def Let_def onDirtyChange_def delete_dirty_def)

lemma pq_run_append: "pq_run A C (es @ fs) w = pq_run A C fs (pq_run A C es w)"
  by (simp add: pq_run_def)

lemma poll_ignores_clean:
  "idb_get db (dirty_key d) = None \<Longrightarrow> d \<notin> set (pq_dirtySet q) \<Longrightarrow> d \<notin> set (pq_dirtySet (poll_found db q))"
proof -
  have fold: "set (pq_dirtySet (foldl (\<lambda>q d. add_dirty d q) q ds)) = set (pq_dirtySet q) \<union> set ds" for ds q
    by (induction ds arbitrary: q) (auto simp: add_dirty_def)
  assume "idb_get db (dirty_key d) = None" "d \<notin> set (pq_dirtySet q)"
  then show ?thesis
    by (auto simp: poll_found_def Let_def fold set_getAllDirtyDocIds onDirtyChange_def)
qed

text \<open>C4: an acknowledgement clears the dirty mark of changes it does not cover. The document is edited
  and marked while an earlier push of it is unanswered; that push's acknowledgement arrives before
  the debounce timer, and the connection drops before it fires. In the end the edit is in the store
  and was never sent, but nothing remembers it: the document is not in the dirty set, its flag in the
  database is gone, no timer and no task is left, and a poll does not find it.\<close>

theorem ack_discards_newer_change:
  assumes "dm_get d (w_dm w) = Some st" "st_pendingWrite st = []" "st_docId st = d"
    and "map_get (pq_firstChange (w_pq w)) d = None" "w_tasks w = []" "w_sc w = Some s" "isOpen s"
  shows "let v = pq_run A C (edit_events A f now iv d @ ack_events d seq @ [PeClient SeWsClose, PeDebounce d]) w
    in map_option st_doc (dm_get d (w_dm v)) = Some (am_change A (st_doc st) f) \<and>
       map_option sc_sent (w_sc v) = Some (sc_sent s) \<and>
       d \<notin> set (pq_dirtySet (w_pq v)) \<and> idb_get (w_db v) (dirty_key d) = None \<and>
       map_get (pq_timers (w_pq v)) d = None \<and> w_tasks v = [] \<and>
       d \<notin> set (pq_dirtySet (poll_found (w_db v) (w_pq v)))"
proof -
  define v1 where "v1 = pq_run A C (edit_events A f now iv d) w"
  from after_edit [OF assms(1-5), of A C f now iv]
  obtain st' where v1: "dm_get d (w_dm v1) = Some st'" "st_doc st' = am_change A (st_doc st) f"
    "w_sc v1 = Some s" "w_tasks v1 = []" "map_get (pq_timers (w_pq v1)) d \<noteq> None"
    using assms(6) by (auto simp: v1_def Let_def)
  define v2 where "v2 = pq_run A C (ack_events d seq) v1"
  have v2: "w_dm v2 = w_dm v1" "w_sc v2 = w_sc v1" "w_tasks v2 = []" "w_pq v2 = ack_done d (w_pq v1)"
    "w_db v2 = setLastSeq_db d seq (clearDirty_db d (w_db v1))"
    using after_ack [OF v1(1,4), of A C seq] by (simp_all add: v2_def Let_def)
  define s' where "s' = on_close s"
  have s': "\<not> isOpen s'" "sc_sent s' = sc_sent s"
    using link_on_close [of s] by (simp_all add: s'_def link_def isOpen_def)
  have "sc_step C SeWsClose s = s'"
    using assms(7) by (simp add: s'_def isOpen_def)
  define v3 where "v3 = v2\<lparr>w_sc := Some s'\<rparr>"
  have v3: "pq_step A C (PeClient SeWsClose) v2 = v3"
    using \<open>sc_step C SeWsClose s = s'\<close> by (simp add: v3_def v2(2) v1(3))
  have v4: "pq_step A C (PeDebounce d) v3 = on_pq (cancelTimer d) v3"
    using v1(5) s'(1) v2(4) by (simp add: v3_def fireDebounce_def Let_def isConnected_def)
  have run: "pq_run A C (edit_events A f now iv d @ ack_events d seq @ [PeClient SeWsClose, PeDebounce d]) w
      = on_pq (cancelTimer d) v3"
    unfolding pq_run_append v1_def [symmetric] v2_def [symmetric] pq_run_Cons v3 v4 by (simp add: pq_run_def)
  have "idb_get (w_db v3) (dirty_key d) = None"
    by (simp add: v3_def v2(5) setLastSeq_db_def clearDirty_db_def)
  moreover have "d \<notin> set (pq_dirtySet (cancelTimer d (w_pq v3)))"
    by (simp add: v3_def v2(4) cancelTimer_def)
  ultimately show ?thesis
    unfolding run Let_def using v1(1,2) v2 s'(2) poll_ignores_clean
    by (simp add: v3_def cancelTimer_def map_eqs)
qed

subsection \<open>Purging and giving up\<close>

definition orphaned :: "string list \<Rightarrow> string \<Rightarrow> bool" where
  "orphaned known d = (case vault_of d of None \<Rightarrow> False | Some v \<Rightarrow> v \<notin> set known)"

lemma purge_from_orphaned:
  "purge_from known (d # ds) n w =
     (if orphaned known d then await (AtPurge d ds known n) (on_pq (delete_dirty d) w)
      else purge_from known ds n w)"
  by (simp add: orphaned_def split: option.split)

lemma clearDirtyFlag_dirty [simp]:
  "idb_get (clearDirtyFlag d db) (dirty_key x) = (if x = d then None else idb_get db (dirty_key x))"
  by (simp add: clearDirtyFlag_def)

lemma purge_from_run:
  assumes "w_tasks w = []"
  shows "let v = pq_run A C (replicate (length (filter (orphaned known) ds)) (PeResume InOk 0)) (purge_from known ds n w)
    in w_tasks v = [] \<and>
       set (pq_dirtySet (w_pq v)) = set (pq_dirtySet (w_pq w)) - {d \<in> set ds. orphaned known d} \<and>
       (\<forall>x. idb_get (w_db v) (dirty_key x)
          = (if x \<in> set ds \<and> orphaned known x then None else idb_get (w_db w) (dirty_key x)))"
  using assms
proof (induction ds arbitrary: n w)
  case Nil
  then show ?case by (simp add: pq_run_def onDirtyChange_def)
next
  case (Cons d ds)
  show ?case
  proof (cases "orphaned known d")
    case False
    with Cons.IH [OF Cons.prems, of n] show ?thesis
      unfolding purge_from_orphaned Let_def by auto
  next
    case True
    let ?w = "on_db (clearDirtyFlag d) (on_pq (delete_dirty d) w)"
    have "pq_step A C (PeResume InOk 0) (purge_from known (d # ds) n w) = purge_from known ds (Suc n) ?w"
      using Cons.prems True unfolding purge_from_orphaned
      by (cases w) (simp add: resume_at_def on_db_def on_pq_def await_def)
    with Cons.IH [of ?w "Suc n"] Cons.prems True show ?thesis
      by (auto simp: pq_run_Cons Let_def delete_dirty_def simp del: pq_step.simps purge_from.simps)
  qed
qed

text \<open>Purging after a vault list drops exactly the orphans: when it has run, the documents of the
  dirty set whose vault is no longer known have left the set and lost their flags in the database,
  and every other document, personal ones included, keeps its place and its flag.\<close>

theorem purge_drops_exactly_the_orphans:
  assumes "w_tasks w = []"
  shows "let orphans = filter (orphaned known) (pq_dirtySet (w_pq w));
      v = pq_run A C (PePurge known # replicate (length orphans) (PeResume InOk 0)) w
    in w_tasks v = [] \<and> set (pq_dirtySet (w_pq v)) = set (pq_dirtySet (w_pq w)) - set orphans \<and>
       (\<forall>x. idb_get (w_db v) (dirty_key x)
          = (if x \<in> set orphans then None else idb_get (w_db w) (dirty_key x)))"
  using purge_from_run [OF assms, of A C known "pq_dirtySet (w_pq w)" 0]
  by (auto simp: Let_def pq_run_Cons purgeOrphanedDirty_def)

definition plain_rejection :: "string \<Rightarrow> string \<Rightarrow> bool" where
  "plain_rejection d m \<longleftrightarrow> \<not> sublist ''insufficient permissions'' m \<or> vault_of d = None"

lemma onPushError_plain: "plain_rejection d m \<Longrightarrow> onPushError d m w = push_rejected d w"
  by (auto simp: onPushError_def plain_rejection_def split: option.split)

lemma pq_run_replicate_Suc:
  "pq_run A C (replicate (Suc n) e) w = pq_step A C e (pq_run A C (replicate n e) w)"
  by (induction n arbitrary: w) (simp_all add: pq_run_def)

lemma rejections:
  assumes "plain_rejection d m" "map_get (pq_errorCounts (w_pq w)) d = None" "n < 5"
  shows "let v = pq_run A C (replicate n (PePushError d m)) w in
    w_db v = w_db w \<and> w_tasks v = w_tasks w \<and>
    map_get (pq_errorCounts (w_pq v)) d = (if n = 0 then None else Some n)"
  using assms(3)
proof (induction n)
  case 0
  show ?case using assms(2) by (simp add: pq_run_def)
next
  case (Suc n)
  define v where "v = pq_run A C (replicate n (PePushError d m)) w"
  have "w_db v = w_db w" "w_tasks v = w_tasks w"
    "map_get (pq_errorCounts (w_pq v)) d = (if n = 0 then None else Some n)"
    using Suc by (simp_all add: v_def Let_def)
  then show ?case
    using Suc.prems unfolding pq_run_replicate_Suc v_def [symmetric]
    by (simp add: Let_def onPushError_plain [OF assms(1)] push_rejected_def
        MAX_PUSH_ERRORS_def onDirtyChange_def delete_dirty_def map_eqs)
qed

text \<open>A document whose pushes the server rejects is retried and then abandoned. The first four
  rejections leave its flag in the database, so that the next poll finds it again; the fifth clears
  the flag and the count, and the change stays on this device only.\<close>

theorem rejected_document_is_abandoned:
  assumes "plain_rejection d m" "map_get (pq_errorCounts (w_pq w)) d = None" "w_tasks w = []"
  shows "(\<forall>n < 5. w_db (pq_run A C (replicate n (PePushError d m)) w) = w_db w) \<and>
    (let v = pq_run A C (replicate 5 (PePushError d m) @ [PeResume InOk 0]) w in
      idb_get (w_db v) (dirty_key d) = None \<and> d \<notin> set (pq_dirtySet (w_pq v)) \<and>
      map_get (pq_errorCounts (w_pq v)) d = None \<and> w_tasks v = [])"
proof -
  define u where "u = pq_run A C (replicate 4 (PePushError d m)) w"
  have u: "w_tasks u = []" "map_get (pq_errorCounts (w_pq u)) d = Some 4"
    using rejections [OF assms(1,2), of 4 A C] assms(3) by (simp_all add: u_def Let_def)
  have "replicate 5 (PePushError d m) @ [PeResume InOk 0]
      = replicate 4 (PePushError d m) @ [PePushError d m, PeResume InOk 0]"
    by (simp add: eval_nat_numeral)
  then have "pq_run A C (replicate 5 (PePushError d m) @ [PeResume InOk 0]) w
      = pq_run A C [PePushError d m, PeResume InOk 0] u"
    unfolding u_def by (metis pq_run_append)
  moreover have "let v = pq_run A C [PePushError d m, PeResume InOk 0] u in
      idb_get (w_db v) (dirty_key d) = None \<and> d \<notin> set (pq_dirtySet (w_pq v)) \<and>
      map_get (pq_errorCounts (w_pq v)) d = None \<and> w_tasks v = []"
    using u by (simp add: pq_run_def onPushError_plain [OF assms(1)] push_rejected_def MAX_PUSH_ERRORS_def
        resume_at_def onDirtyChange_def delete_dirty_def map_eqs Let_def)
  ultimately show ?thesis using rejections [OF assms(1,2)] by (simp add: Let_def)
qed

subsection \<open>Witnesses\<close>

text \<open>A document outside vaults with an unsent change, one in a vault the server has not confirmed yet,
  and a connected client.\<close>

definition demo_docs :: "bytes doc_mgr" where
  "demo_docs = (dm_init demo_key)\<lparr>dm_stores := [(''a'', new_store [1] ''a'' demo_key None),
     (''v/r'', new_store [2] ''v/r'' demo_key None)]\<rparr>"

definition demo_client :: "nat sync_client" where
  "demo_client = demo_online\<lparr>sc_encKey := Some demo_key, sc_getDocKey := Some demo_keys\<rparr>"

definition demo_world :: "(bytes, nat) world" where
  "demo_world = \<lparr>w_pq = (new_push_queue None)\<lparr>pq_dirtySet := [''v/r'', ''a''], pq_pendingVaultIds := [''v'']\<rparr>,
     w_dm = demo_docs, w_db = [(dirty_key ''a'', VTrue)], w_sc = Some demo_client, w_tasks = []\<rparr>"

lemma demo_world_facts:
  "pq_ok (w_pq demo_world)" "pq_ready (w_pq demo_world)" "\<not> pq_flushing (w_pq demo_world)"
  "pq_signFn (w_pq demo_world) = None" "w_tasks demo_world = []" "w_sc demo_world = Some demo_client"
  "isOpen demo_client" "sc_sent demo_client = []" "sc_docPresence demo_client = []"
  "pq_dirtySet (w_pq demo_world) = [''v/r'', ''a'']" "pq_errorCounts (w_pq demo_world) = []"
  "pq_firstChange (w_pq demo_world) = []" "w_dm demo_world = demo_docs"
  "dm_get ''a'' demo_docs = Some (new_store [1] ''a'' demo_key None)"
  "dm_get ''v/r'' demo_docs = Some (new_store [2] ''v/r'' demo_key None)"
  "vault_of ''v/r'' = Some ''v''" "vault_of ''a'' = None"
  "resolveKey ''a'' demo_client = Some demo_key"
  "resolveKey ''v/r'' demo_client = Some (AesKey (replicate 32 9) True)"
  by (simp_all add: demo_world_def new_push_queue_def pq_ok_def demo_client_def demo_online_def sc_new_def
      isOpen_def demo_docs_def dm_init_def dm_get_def map_get_def vault_of_def resolveKey_def demo_keys_def)



theorem ack_discards_newer_change_witness:
  "idb_get (w_db (pq_run demo_automerge demo_crypto (edit_events demo_automerge (\<lambda>d. d @ [7]) 1000 demo_iv ''a''
      @ ack_events ''a'' 5 @ [PeClient SeWsClose, PeDebounce ''a'']) demo_world)) (dirty_key ''a'') = None"
  using ack_discards_newer_change [where w = demo_world and d = "''a''" and s = demo_client
      and A = demo_automerge and C = demo_crypto and f = "\<lambda>d. d @ [7]" and now = 1000 and iv = demo_iv and seq = 5]
  by (simp add: demo_world_facts Let_def new_store_def)

theorem purge_drops_exactly_the_orphans_witness:
  "set (pq_dirtySet (w_pq (pq_run demo_automerge demo_crypto [PePurge [''w''], PeResume InOk 0] demo_world))) = {''a''}"
proof -
  have "filter (orphaned [''w'']) [''v/r'', ''a''] = [''v/r'']"
    by (simp add: orphaned_def demo_world_facts)
  with purge_drops_exactly_the_orphans [OF demo_world_facts(5), of "[''w'']" demo_automerge demo_crypto]
  show ?thesis by (auto simp: Let_def demo_world_facts simp del: pq_step.simps)
qed

theorem rejected_document_is_abandoned_witness:
  "idb_get (w_db (pq_run demo_automerge demo_crypto
      (replicate 5 (PePushError ''a'' ''too large'') @ [PeResume InOk 0]) demo_world)) (dirty_key ''a'') = None"
  using rejected_document_is_abandoned [of "''a''" "''too large''" demo_world demo_automerge demo_crypto]
  by (simp add: plain_rejection_def demo_world_facts Let_def)

end
