(* ===== verification/Vaults.thy ===== *)
theory Vaults
  imports Push_Queue
begin

text \<open>
  Books (vaults), their keys and roles: the callbacks that \<^verbatim>\<open>connect.ts\<close> gives the sync client, and
  the key rotation of \<^verbatim>\<open>sync/vault-helpers.ts\<close>. \<open>session\<close> is the part of the page's state they read
  and write, with the \<open>world\<close> of the documents, the database, the client and the push queue. Random
  bytes, initialisation vectors and the server's answers are arguments. Rendering and the events sent
  to the user interface are not modelled.
\<close>

record book =
  bk_vaultId :: string
  bk_name :: string
  bk_role :: string
  bk_encKey :: "crypto_key option"

record vault_cache_entry =
  vce_vaultId :: string
  vce_name :: string
  vce_role :: string
  vce_wrappedVaultKey :: string

record ('d, 'p) session =
  ss_userId :: string
  ss_books :: "book list"
  ss_activeBook :: "string option"
  ss_masterKey :: "crypto_key option"
  ss_wrappedMasterKey :: "bytes option"
  ss_identity :: "(bytes \<times> bytes) option"
  ss_signing :: "(bytes \<times> bytes) option"
  ss_signingKeyCache :: "(string \<times> bytes) list"
  ss_world :: "('d, 'p) world"

subsection \<open>Books\<close>

definition find_book :: "string \<Rightarrow> book list \<Rightarrow> book option" where
  "find_book vaultId books = find (\<lambda>b. bk_vaultId b = vaultId) books"

definition set_role :: "string \<Rightarrow> string \<Rightarrow> book list \<Rightarrow> book list" where
  "set_role vaultId role books =
     (case index_of True (map (\<lambda>b. bk_vaultId b = vaultId) books) of
        None \<Rightarrow> books
      | Some i \<Rightarrow> books[i := (books ! i)\<lparr>bk_role := role\<rparr>])"

definition set_book_key :: "string \<Rightarrow> crypto_key \<Rightarrow> book list \<Rightarrow> book list" where
  "set_book_key vaultId key books =
     (case index_of True (map (\<lambda>b. bk_vaultId b = vaultId) books) of
        None \<Rightarrow> books
      | Some i \<Rightarrow> books[i := (books ! i)\<lparr>bk_encKey := Some key\<rparr>])"

definition getDocKey :: "book list \<Rightarrow> string \<Rightarrow> crypto_key option" where
  "getDocKey books docId =
     (case vault_of docId of
        None \<Rightarrow> None
      | Some vaultId \<Rightarrow> Option.bind (find_book vaultId books) bk_encKey)"

definition canEditActiveBook :: "('d, 'p) session \<Rightarrow> bool" where
  "canEditActiveBook s =
     (case Option.bind (ss_activeBook s) (\<lambda>v. find_book v (ss_books s)) of
        None \<Rightarrow> False
      | Some b \<Rightarrow> bk_role b = ''owner'' \<or> bk_role b = ''editor'')"

definition on_client :: "('p sync_client \<Rightarrow> 'p sync_client) \<Rightarrow> ('d, 'p) session \<Rightarrow> ('d, 'p) session" where
  "on_client f s = s\<lparr>ss_world := (ss_world s)\<lparr>w_sc := map_option f (w_sc (ss_world s))\<rparr>\<rparr>"

definition on_world :: "(('d, 'p) world \<Rightarrow> ('d, 'p) world) \<Rightarrow> ('d, 'p) session \<Rightarrow> ('d, 'p) session" where
  "on_world f s = s\<lparr>ss_world := f (ss_world s)\<rparr>"

definition onOwnershipReceived :: "string \<Rightarrow> ('d, 'p) session \<Rightarrow> ('d, 'p) session" where
  "onOwnershipReceived vid s = on_client listVaults (s\<lparr>ss_books := set_role vid ''owner'' (ss_books s)\<rparr>)"

definition onRoleChanged :: "string \<Rightarrow> string \<Rightarrow> string \<Rightarrow> ('d, 'p) session \<Rightarrow> ('d, 'p) session" where
  "onRoleChanged vid targetUserId newRole s =
     on_client listVaults
       (if (targetUserId = ss_userId s \<or> targetUserId = []) \<and> newRole \<noteq> []
        then s\<lparr>ss_books := set_role vid newRole (ss_books s)\<rparr> else s)"

text \<open>The book a user sees after the active one went: the first one left.\<close>

definition drop_book :: "string \<Rightarrow> ('d, 'p) session \<Rightarrow> ('d, 'p) session" where
  "drop_book vid s =
     (let books = filter (\<lambda>b. bk_vaultId b \<noteq> vid) (ss_books s)
      in s\<lparr>ss_books := books,
           ss_activeBook := (if ss_activeBook s = Some vid
                             then (case books of [] \<Rightarrow> None | b # _ \<Rightarrow> Some (bk_vaultId b))
                             else ss_activeBook s)\<rparr>)"

definition onVaultDeleted :: "string \<Rightarrow> ('d, 'p) session \<Rightarrow> ('d, 'p) session" where
  "onVaultDeleted vid s = drop_book vid s"

definition catalog_id :: "string \<Rightarrow> string" where
  "catalog_id vid = vid @ ''/catalog''"

text \<open>The store of a document is closed once its writes have run.\<close>

definition close_doc :: "string \<Rightarrow> ('d, 'p) world \<Rightarrow> ('d, 'p) world" where
  "close_doc d w = w\<lparr>w_dm := dm_close_end d (w_dm w)\<rparr>"

definition onVaultRemoved :: "string option \<Rightarrow> string \<Rightarrow> ('d, 'p) session \<Rightarrow> ('d, 'p) session" where
  "onVaultRemoved selectedRecipe vid s =
     (let wasActive = (ss_activeBook s = Some vid);
          s1 = (case (if wasActive then selectedRecipe else None) of
                  None \<Rightarrow> s
                | Some r \<Rightarrow>
                    on_world (close_doc (vid @ ''/'' @ r)) (on_client (unsubscribe (vid @ ''/'' @ r)) s))
      in drop_book vid (on_world (close_doc (catalog_id vid)) (on_client (unsubscribe (catalog_id vid)) s1)))"

definition onVaultMembers :: "member_info list \<Rightarrow> ('d, 'p) session \<Rightarrow> ('d, 'p) session" where
  "onVaultMembers members s =
     s\<lparr>ss_signingKeyCache :=
         foldl (\<lambda>c m. case mi_signingPublicKey m of
                       None \<Rightarrow> c
                     | Some k \<Rightarrow> if k = [] then c
                                 else (case fromBase64 k of None \<Rightarrow> c | Some b \<Rightarrow> map_set (mi_userId m) b c))
           (ss_signingKeyCache s) members\<rparr>"

definition onVaultCreated :: "string \<Rightarrow> ('d, 'p) session \<Rightarrow> ('d, 'p) session" where
  "onVaultCreated vid s =
     on_client listVaults
       (on_world (\<lambda>w. on_pq (clearPendingVault vid) (on_db (clearPendingVault_db vid) w)) s)"

subsection \<open>The vault list\<close>

text \<open>The vaults whose keys decrypt become books; a failure is logged and the vault is left out. The
  second result is the offline cache, whose keys are wrapped under the master key.\<close>

definition vault_book :: "webcrypto \<Rightarrow> bytes \<Rightarrow> book list \<Rightarrow> vault_info \<Rightarrow> (book \<times> bytes) option" where
  "vault_book C privKey books vi =
     (case (fromBase64 (vi_encryptedVaultKey vi), fromBase64 (vi_senderPublicKey vi)) of
        (Some ek, Some sp) \<Rightarrow>
          (case decryptBookKeyFromUser C privKey sp ek of
             None \<Rightarrow> None
           | Some raw \<Rightarrow>
               (case importBookKey raw of
                  None \<Rightarrow> None
                | Some bk \<Rightarrow>
                    let name = (case find_book (vi_vaultId vi) books of
                                  Some b \<Rightarrow> bk_name b | None \<Rightarrow> take 8 (vi_vaultId vi))
                    in Some (\<lparr>bk_vaultId = vi_vaultId vi, bk_name = name, bk_role = vi_role vi,
                              bk_encKey = Some bk\<rparr>, raw)))
      | _ \<Rightarrow> None)"

definition server_books :: "webcrypto \<Rightarrow> bytes \<Rightarrow> book list \<Rightarrow> vault_info list \<Rightarrow> book list" where
  "server_books C privKey books infos = map fst (List.map_filter (vault_book C privKey books) infos)"

definition cache_entries ::
  "webcrypto \<Rightarrow> (string \<Rightarrow> bytes) \<Rightarrow> bytes \<Rightarrow> crypto_key option \<Rightarrow> book list \<Rightarrow> vault_info list \<Rightarrow> vault_cache_entry list" where
  "cache_entries C iv privKey masterKey books infos =
     (case masterKey of
        None \<Rightarrow> []
      | Some mk \<Rightarrow>
          map (\<lambda>(b, raw). \<lparr>vce_vaultId = bk_vaultId b, vce_name = bk_name b, vce_role = bk_role b,
                 vce_wrappedVaultKey = toBase64 (encrypt C (iv (bk_vaultId b)) raw mk)\<rparr>)
            (List.map_filter (vault_book C privKey books) infos))"

text \<open>Books that the server does not list stay while their creation is pending; the others are removed:
  their catalogs are unsubscribed and closed.\<close>

definition kept_books :: "string list \<Rightarrow> book list \<Rightarrow> book list \<Rightarrow> book list" where
  "kept_books pendingIds newBooks oldBooks =
     newBooks @ filter (\<lambda>b. bk_vaultId b \<notin> bk_vaultId ` set newBooks \<and> bk_vaultId b \<in> set pendingIds) oldBooks"

definition removed_books :: "string list \<Rightarrow> book list \<Rightarrow> book list \<Rightarrow> book list" where
  "removed_books pendingIds newBooks oldBooks =
     filter (\<lambda>b. bk_vaultId b \<notin> bk_vaultId ` set newBooks \<and> bk_vaultId b \<notin> set pendingIds) oldBooks"

definition onVaultList_books :: "webcrypto \<Rightarrow> vault_info list \<Rightarrow> ('d, 'p) session \<Rightarrow> ('d, 'p) session" where
  "onVaultList_books C infos s =
     (case ss_identity s of
        None \<Rightarrow> s
      | Some (pub, privKey) \<Rightarrow>
          let newBooks = server_books C privKey (ss_books s) infos;
              pendingIds = map pv_vaultId (getAllPendingVaults (w_db (ss_world s)));
              s1 = foldl (\<lambda>t b. on_world (close_doc (catalog_id (bk_vaultId b)))
                                  (on_client (unsubscribe (catalog_id (bk_vaultId b))) t))
                     s (removed_books pendingIds newBooks (ss_books s))
          in s1\<lparr>ss_books := kept_books pendingIds newBooks (ss_books s)\<rparr>)"

text \<open>What the handler then asks of the push queue, in this order, each call finished before the next.\<close>

definition onVaultList_queue :: "vault_info list \<Rightarrow> string list \<Rightarrow> book list \<Rightarrow> ('d, 'p) pq_event list list" where
  "onVaultList_queue infos pendingIds books =
     [[PeVaultsChanged], [PeSetPending pendingIds], [PePending (map vi_vaultId infos)],
      [PePurge (map bk_vaultId books)], [PeFlush]]"

subsection \<open>Remote changes\<close>

definition onRemoteChange ::
  "'d automerge \<Rightarrow> webcrypto \<Rightarrow> string \<Rightarrow> bytes \<Rightarrow> int \<Rightarrow> string option \<Rightarrow> ('d, 'p) session \<Rightarrow> ('d, 'p) session" where
  "onRemoteChange A C docId snapshot seq senderUserId s =
     (case dm_get docId (w_dm (ss_world s)) of
        None \<Rightarrow> s
      | Some st \<Rightarrow>
          let senderSignKey = (if truthy senderUserId then map_get (ss_signingKeyCache s) (the senderUserId) else None);
              (plaintext, verified) = verifyPayload C snapshot senderSignKey
          in if \<not> verified \<and> senderSignKey \<noteq> None then on_world (on_db (setLastSeq_db docId seq)) s
             else (case store_merge A plaintext st of
                     Inl e \<Rightarrow> s
                   | Inr st' \<Rightarrow>
                       on_world (\<lambda>w. on_db (setLastSeq_db docId seq)
                         (w\<lparr>w_dm := dm_update docId (\<lambda>_. st') (w_dm w)\<rparr>)) s))"

definition onCaughtUp :: "'d automerge \<Rightarrow> int \<Rightarrow> string \<Rightarrow> int \<Rightarrow> ('d, 'p) session \<Rightarrow> ('d, 'p) session" where
  "onCaughtUp A now docId latestSeq s =
     (case dm_get docId (w_dm (ss_world s)) of
        None \<Rightarrow> s
      | Some st \<Rightarrow>
          let s1 = on_world (on_db (setLastSeq_db docId latestSeq)) s;
              s2 = on_world (tryClearDirtyOnCaughtUp docId) s1;
              (didInit, st') = ensureInitialized A st;
              s3 = on_world (\<lambda>w. w\<lparr>w_dm := dm_update docId (\<lambda>_. st') (w_dm w)\<rparr>) s2
          in if didInit then on_world (markDirty now docId) s3 else s3)"

subsection \<open>Rotating a vault's key\<close>

text \<open>The updates for the members that have a public key. An exception (a key that does not decode or a
  failing key exchange) ends the rotation.\<close>

fun rotation_updates ::
  "webcrypto \<Rightarrow> (string \<Rightarrow> bytes) \<Rightarrow> bytes \<Rightarrow> bytes \<Rightarrow> bytes \<Rightarrow> member_info list \<Rightarrow> key_update list option" where
  "rotation_updates C iv privKey pubKey raw [] = Some []"
| "rotation_updates C iv privKey pubKey raw (m # ms) =
     (if \<not> truthy (mi_publicKey m) then rotation_updates C iv privKey pubKey raw ms
      else
        case Option.bind (fromBase64 (the (mi_publicKey m)))
               (\<lambda>memberPub. encryptBookKeyForUser C (iv (mi_userId m)) privKey memberPub raw) of
          None \<Rightarrow> None
        | Some encKey \<Rightarrow>
            map_option ((#) \<lparr>ku_userId = mi_userId m, ku_encryptedVaultKey = toBase64 encKey,
                            ku_senderPublicKey = toBase64 pubKey\<rparr>)
              (rotation_updates C iv privKey pubKey raw ms))"

text \<open>\<^verbatim>\<open>rotateVaultKey\<close> from the member list on (empty after its timeout).\<close>

definition rotateVaultKey ::
  "webcrypto \<Rightarrow> (string \<Rightarrow> bytes) \<Rightarrow> bytes \<Rightarrow> string \<Rightarrow> member_info list \<Rightarrow> ('d, 'p) session \<Rightarrow> ('d, 'p) session" where
  "rotateVaultKey C iv raw vaultId members s =
     (case (w_sc (ss_world s), ss_identity s, generateBookKey raw) of
        (Some sc, Some (pubKey, privKey), Some (bookKey, bookKeyRaw)) \<Rightarrow>
          (case rotation_updates C iv privKey pubKey bookKeyRaw members of
             None \<Rightarrow> s
           | Some [] \<Rightarrow> s
           | Some (u # us) \<Rightarrow>
               (on_client (sc_rotateVaultKey vaultId (u # us)) s)
                 \<lparr>ss_books := set_book_key vaultId bookKey (ss_books s)\<rparr>)
      | _ \<Rightarrow> s)"

subsection \<open>Keys at sign-in\<close>

datatype connect_error = WrongServerPassphrase | KeyRejected

text \<open>The master key: the one the page has, the server's unwrapped under the wrapping key, or a new one
  from the random bytes \<open>raw\<close>; with it the wrapped form and whether the server is to store it.\<close>

definition master_key_step ::
  "webcrypto \<Rightarrow> bytes \<Rightarrow> bytes \<Rightarrow> crypto_key \<Rightarrow> string option \<Rightarrow> ('d, 'p) session
     \<Rightarrow> connect_error option \<times> ('d, 'p) session" where
  "master_key_step C raw iv wKey serverWrappedKey s =
     (let r =
        (case ss_masterKey s of
           Some mk \<Rightarrow> Inr (mk, ss_wrappedMasterKey s)
         | None \<Rightarrow>
             if truthy serverWrappedKey then
               (case Option.bind (fromBase64 (the serverWrappedKey))
                       (\<lambda>sb. map_option (\<lambda>mk. (mk, Some sb)) (unwrapMasterKey C sb wKey)) of
                  None \<Rightarrow> Inl WrongServerPassphrase
                | Some q \<Rightarrow> Inr q)
             else
               (case generateMasterKey C raw iv wKey of
                  None \<Rightarrow> Inl KeyRejected
                | Some (mk, wrapped) \<Rightarrow> Inr (mk, Some wrapped)))
      in case r of
           Inl e \<Rightarrow> (Some e, s)
         | Inr (mk, wrapped) \<Rightarrow>
             let s1 = on_client (\<lambda>c. c\<lparr>sc_encKey := Some mk\<rparr>) (s\<lparr>ss_masterKey := Some mk, ss_wrappedMasterKey := wrapped\<rparr>)
             in (None, if wrapped \<noteq> None \<and> \<not> truthy serverWrappedKey
                       then on_client (setKey (toBase64 (the wrapped))) s1 else s1))"

text \<open>A key pair: the server's, unwrapped under the master key, or a new one, which is sent to it.\<close>

definition key_pair_step ::
  "webcrypto \<Rightarrow> bytes \<Rightarrow> bytes \<times> bytes \<Rightarrow> crypto_key \<Rightarrow> string option \<Rightarrow> string option
     \<Rightarrow> (connect_error + (bytes \<times> bytes) \<times> (string \<times> string) option)" where
  "key_pair_step C iv fresh masterKey serverPub serverWrapped =
     (if truthy serverPub \<and> truthy serverWrapped then
        (case (fromBase64 (the serverPub),
               Option.bind (fromBase64 (the serverWrapped)) (\<lambda>b. unwrapPrivateKey C b masterKey)) of
           (Some pub, Some priv) \<Rightarrow> Inr ((pub, priv), None)
         | _ \<Rightarrow> Inl KeyRejected)
      else (case fresh of
              (pub, priv) \<Rightarrow>
                Inr ((pub, priv), Some (toBase64 pub, toBase64 (wrapPrivateKey C iv priv masterKey)))))"

text \<open>The keys part of \<^verbatim>\<open>onConnected\<close>. A key that is rejected ends it with what was done so far.\<close>

definition onConnected_keys ::
  "webcrypto \<Rightarrow> bytes \<Rightarrow> bytes \<Rightarrow> bytes \<times> bytes \<Rightarrow> bytes \<times> bytes \<Rightarrow> crypto_key
     \<Rightarrow> string option \<times> string option \<times> string option \<times> string option \<times> string option
     \<Rightarrow> ('d, 'p) session \<Rightarrow> connect_error option \<times> ('d, 'p) session" where
  "onConnected_keys C raw iv freshIdentity freshSigning wKey server s =
     (case server of (wrappedKey, pub, wrappedPriv, signPub, wrappedSign) \<Rightarrow>
       (case master_key_step C raw iv wKey wrappedKey s of
          (Some e, s1) \<Rightarrow> (Some e, s1)
        | (None, s1) \<Rightarrow>
            let mk = the (ss_masterKey s1) in
            (case key_pair_step C iv freshIdentity mk pub wrappedPriv of
               Inl e \<Rightarrow> (Some e, s1)
             | Inr (idk, sendId) \<Rightarrow>
                 let s2 = s1\<lparr>ss_identity := Some idk\<rparr>;
                     s3 = (case sendId of None \<Rightarrow> s2 | Some (p, w) \<Rightarrow> on_client (setIdentity p w) s2)
                 in (case key_pair_step C iv freshSigning mk signPub wrappedSign of
                       Inl e \<Rightarrow> (Some e, s3)
                     | Inr (sgk, sendSg) \<Rightarrow>
                         let s4 = s3\<lparr>ss_signing := Some sgk\<rparr>;
                             s5 = (case sendSg of None \<Rightarrow> s4 | Some (p, w) \<Rightarrow> on_client (setSigningIdentity p w) s4);
                             s6 = s5\<lparr>ss_signingKeyCache := map_set (ss_userId s5) (fst sgk) (ss_signingKeyCache s5)\<rparr>
                         in (None, on_client listVaults s6)))))"

subsection \<open>Properties\<close>

lemma find_book_id: "find_book v bs = Some b \<Longrightarrow> bk_vaultId b = v \<and> b \<in> set bs"
  by (induction bs) (auto simp: find_book_def split: if_splits)

lemma on_client_simps [simp]:
  "ss_masterKey (on_client f s) = ss_masterKey s" "ss_identity (on_client f s) = ss_identity s"
  "ss_signing (on_client f s) = ss_signing s" "ss_books (on_client f s) = ss_books s"
  "ss_wrappedMasterKey (on_client f s) = ss_wrappedMasterKey s" "ss_userId (on_client f s) = ss_userId s"
  "ss_signingKeyCache (on_client f s) = ss_signingKeyCache s"
  "w_sc (ss_world (on_client f s)) = map_option f (w_sc (ss_world s))"
  "w_dm (ss_world (on_client f s)) = w_dm (ss_world s)" "w_db (ss_world (on_client f s)) = w_db (ss_world s)"
  "ss_world (on_world g s) = g (ss_world s)" "ss_books (on_world g s) = ss_books s"
  "ss_signingKeyCache (on_world g s) = ss_signingKeyCache s"
  by (simp_all add: on_client_def on_world_def)

lemma unwrap_wrapped:
  "aead_law C \<Longrightarrow> length iv = 12 \<Longrightarrow> unwrapPrivateKey C (wrapPrivateKey C iv priv mk) mk = Some priv"
  by (simp add: unwrapPrivateKey_def wrapPrivateKey_def)

lemma toBase64_Nil_iff [simp]: "toBase64 b = [] \<longleftrightarrow> b = []"
proof
  assume "toBase64 b = []"
  then have "toBase64 b = toBase64 []" by (simp add: toBase64_def btoa_def)
  then show "b = []" using fromBase64_toBase64 [of b] fromBase64_toBase64 [of "[]"] by simp
qed (simp add: toBase64_def btoa_def)

lemma truthy_simps [simp]:
  "\<not> truthy None" "truthy (Some x) \<longleftrightarrow> x \<noteq> []"
  by (simp_all add: truthy_def)

text \<open>C12: the keys made at sign-up on one device are the keys of the next one. The first device sends its
  wrapped master key and its public and wrapped private keys; a device that signs in with the same
  passphrase and gets them back from the server ends with the same master key, identity and signing
  keys, and sends none of its own.\<close>

theorem second_device_has_the_same_keys:
  assumes "aead_law C" "length iv = 12" "length raw = 32"
    and "ss_masterKey s = None" "w_sc (ss_world s) = Some c" "isOpen c"
    and "ss_masterKey t = None" "w_sc (ss_world t) = Some c'" "isOpen c'"
    and "fst idk \<noteq> []" "fst sgk \<noteq> []"
  shows "\<exists>wk pub wp sp ws s'. onConnected_keys C raw iv idk sgk wKey (None, None, None, None, None) s = (None, s') \<and>
    map_option sc_sent (w_sc (ss_world s')) = Some (sc_sent c @
      [MSetKey wk, MSetIdentity pub wp, MSetSigningIdentity sp ws, MListVaults]) \<and>
    (\<exists>t'. onConnected_keys C raw' iv' idk' sgk' wKey (Some wk, Some pub, Some wp, Some sp, Some ws) t = (None, t') \<and>
      ss_masterKey t' = ss_masterKey s' \<and> ss_identity t' = ss_identity s' \<and> ss_signing t' = ss_signing s' \<and>
      map_option sc_sent (w_sc (ss_world t')) = Some (sc_sent c' @ [MListVaults]))"
proof -
  let ?mk = "AesKey raw True"
  obtain wrapped where g: "generateMasterKey C raw iv wKey = Some (?mk, wrapped)"
    and u: "unwrapMasterKey C wrapped wKey = Some ?mk"
    using assms(1-3) by (auto simp: generateMasterKey_def unwrapMasterKey_def wrapKey_def import_aes_def export_aes_def)
  have o: "sc_ws c = Some OPEN" "sc_ws c' = Some OPEN" using assms(6,9) by (simp_all add: isOpen_def)
  have ne: "wrapped \<noteq> []" "wrapPrivateKey C iv x ?mk \<noteq> []" for x
    using g assms(2)
    by (auto simp: generateMasterKey_def wrapKey_def encrypt_def wrapPrivateKey_def bind_eq_Some_conv)
  obtain pub priv spub spriv where k: "idk = (pub, priv)" "sgk = (spub, spriv)" "pub \<noteq> []" "spub \<noteq> []"
    using assms(10,11) by (cases idk; cases sgk) simp
  show ?thesis
    apply (rule exI [of _ "toBase64 wrapped"], rule exI [of _ "toBase64 pub"],
        rule exI [of _ "toBase64 (wrapPrivateKey C iv priv ?mk)"], rule exI [of _ "toBase64 spub"],
        rule exI [of _ "toBase64 (wrapPrivateKey C iv spriv ?mk)"])
    using assms(4,5,7,8) o
    by (simp add: onConnected_keys_def master_key_step_def key_pair_step_def g u k ne Let_def fromBase64_toBase64
        unwrap_wrapped [OF assms(1,2)] setKey_def setIdentity_def setSigningIdentity_def listVaults_def
        sendMsg_def isOpen_def)
qed

text \<open>C13: while the page holds a sender's signing key, a remote change of that sender reaches a document
  only with a signature that verifies under the key: whatever the server delivers, either no document
  changes or the payload is a signed one and its plaintext is merged into the document it is for.
  Books, keys and the client stay as they were.\<close>

theorem remote_changes_are_authenticated:
  assumes "map_get (ss_signingKeyCache s) sender = Some pk" "sender \<noteq> []"
  shows "let t = onRemoteChange A C d snapshot seq (Some sender) s in
    ss_books t = ss_books s \<and> ss_signingKeyCache t = ss_signingKeyCache s \<and> w_sc (ss_world t) = w_sc (ss_world s) \<and>
    (w_dm (ss_world t) = w_dm (ss_world s) \<or>
     (\<exists>signature plain st st'. snapshot = SIGNED_VERSION # signature @ plain \<and> length signature = 64 \<and>
        ecdsa_verify C pk signature plain = Some True \<and> dm_get d (w_dm (ss_world s)) = Some st \<and>
        store_merge A plain st = Inr st' \<and> w_dm (ss_world t) = dm_update d (\<lambda>_. st') (w_dm (ss_world s))))"
proof (cases "dm_get d (w_dm (ss_world s))")
  case None
  then show ?thesis by (simp add: onRemoteChange_def Let_def)
next
  case (Some st)
  obtain plain v where p: "verifyPayload C snapshot (Some pk) = (plain, v)" by (cases "verifyPayload C snapshot (Some pk)")
  show ?thesis
  proof (cases v)
    case True
    with p Some assms show ?thesis
      using verified_payload [of C snapshot "Some pk" plain]
      by (cases "store_merge A plain st") (auto simp: onRemoteChange_def Let_def)
  next
    case False
    with p Some assms show ?thesis by (simp add: onRemoteChange_def)
  qed
qed

subsection \<open>A vault whose key does not decrypt\<close>

lemma drop_books_world:
  "w_pq (ss_world (foldl (\<lambda>t b. on_world (close_doc (f b)) (on_client (unsubscribe (f b)) t)) s bs)) = w_pq (ss_world s) \<and>
   w_db (ss_world (foldl (\<lambda>t b. on_world (close_doc (f b)) (on_client (unsubscribe (f b)) t)) s bs)) = w_db (ss_world s) \<and>
   w_tasks (ss_world (foldl (\<lambda>t b. on_world (close_doc (f b)) (on_client (unsubscribe (f b)) t)) s bs)) = w_tasks (ss_world s)"
  by (induction bs arbitrary: s) (simp_all add: on_world_def on_client_def close_doc_def)

lemma onVaultList_books_world:
  "w_pq (ss_world (onVaultList_books C infos s)) = w_pq (ss_world s)"
  "w_db (ss_world (onVaultList_books C infos s)) = w_db (ss_world s)"
  "w_tasks (ss_world (onVaultList_books C infos s)) = w_tasks (ss_world s)"
  by (auto simp: onVaultList_books_def Let_def drop_books_world split: option.split)

lemma vault_book_id: "vault_book C p bs vi = Some (b, raw) \<Longrightarrow> bk_vaultId b = vi_vaultId vi"
  by (auto simp: vault_book_def Let_def split: option.splits)

lemma server_books_id:
  "b \<in> set (server_books C p bs infos) \<Longrightarrow> \<exists>vi \<in> set infos. vault_book C p bs vi \<noteq> None \<and> bk_vaultId b = vi_vaultId vi"
  by (induction infos)
    (auto simp: server_books_def map_filter_simps dest: vault_book_id split: option.splits)

definition undecryptable :: "webcrypto \<Rightarrow> bytes \<Rightarrow> book list \<Rightarrow> vault_info list \<Rightarrow> string \<Rightarrow> bool" where
  "undecryptable C privKey books infos v \<longleftrightarrow>
     v \<in> vi_vaultId ` set infos \<and> (\<forall>vi \<in> set infos. vi_vaultId vi = v \<longrightarrow> vault_book C privKey books vi = None)"

text \<open>The queue's part of the handler, with each awaited operation succeeding and no vault pending.\<close>

definition vault_list_events :: "vault_info list \<Rightarrow> book list \<Rightarrow> nat \<Rightarrow> ('d, 'p) pq_event list" where
  "vault_list_events infos books n =
     (case onVaultList_queue infos [] books of
        [e1, e2, e3, e4, e5] \<Rightarrow>
          e1 @ e2 @ e3 @ [PeResume InOk 0] @ e4 @ replicate n (PeResume InOk 0)
      | _ \<Rightarrow> [])"

text \<open>A vault that the server lists and whose key does not decrypt (the user may have to be invited
  again) is left out of the books, and the purge that follows takes the documents of unlisted books for
  orphans: an unsent change in such a vault loses its dirty flag, in memory and in the database, so it
  is not pushed after the key is repaired.\<close>

theorem undecryptable_vault_loses_unsent_changes:
  assumes "ss_identity s = Some (pub, privKey)" "undecryptable C privKey (ss_books s) infos v"
    and "getAllPendingVaults (w_db (ss_world s)) = []" "w_tasks (ss_world s) = []"
    and "vault_of d = Some v" "d \<in> set (pq_dirtySet (w_pq (ss_world s)))"
  shows "\<exists>n. let t = onVaultList_books C infos s;
      w = pq_run A C (vault_list_events infos (ss_books t) n) (ss_world t)
    in getDocKey (ss_books t) d = None \<and> d \<notin> set (pq_dirtySet (w_pq w)) \<and> idb_get (w_db w) (dirty_key d) = None"
proof -
  let ?t = "onVaultList_books C infos s"
  have b: "ss_books ?t = server_books C privKey (ss_books s) infos"
    using assms(1,3) by (simp add: onVaultList_books_def kept_books_def Let_def)
  have v: "v \<notin> bk_vaultId ` set (ss_books ?t)"
    using assms(2) by (auto simp: b undecryptable_def dest!: server_books_id)
  let ?known = "map bk_vaultId (ss_books ?t)"
  let ?w = "pq_run A C [PeVaultsChanged, PeSetPending [], PePending (map vi_vaultId infos), PeResume InOk 0] (ss_world ?t)"
  have w: "w_tasks ?w = []" "pq_dirtySet (w_pq ?w) = pq_dirtySet (w_pq (ss_world s))"
    using assms(3,4)
    by (simp_all add: pq_run_def createPendingVaults_def resume_at_def onVaultsChanged_def setPendingVaultIds_def
        onVaultList_books_world)
  have o: "orphaned ?known d" using v assms(5) by (simp add: orphaned_def)
  define n where "n = length (filter (orphaned ?known) (pq_dirtySet (w_pq ?w)))"
  have "find_book v (ss_books ?t) = None"
    using v by (auto simp: find_book_def find_None_iff)
  then have "getDocKey (ss_books ?t) d = None" by (simp add: getDocKey_def assms(5))
  moreover have "pq_run A C (vault_list_events infos (ss_books ?t) n) (ss_world ?t)
      = pq_run A C (replicate n (PeResume InOk 0)) (purge_from ?known (pq_dirtySet (w_pq ?w)) 0 ?w)"
    by (simp add: vault_list_events_def onVaultList_queue_def pq_run_Cons purgeOrphanedDirty_def pq_run_def)
  ultimately show ?thesis
    using purge_from_run [OF w(1), of A C ?known "pq_dirtySet (w_pq ?w)" 0] o assms(6)
    unfolding n_def [symmetric] by (intro exI [of _ n]) (simp add: Let_def w(2))
qed

subsection \<open>Key rotation\<close>

lemma rotation_updates_ids:
  "rotation_updates C iv privKey pubKey raw ms = Some us
     \<Longrightarrow> map ku_userId us = map mi_userId (filter (\<lambda>m. truthy (mi_publicKey m)) ms)"
  by (induction ms arbitrary: us) (auto split: if_splits option.splits)

lemma rotation_updates_member:
  assumes "aead_law C" "\<forall>x. length (iv x) = 12" "rotation_updates C iv privKey pubKey raw ms = Some us"
    and "m \<in> set ms" "mi_publicKey m = Some (toBase64 memberPub)" "memberPub \<noteq> []"
    and "ecdh_pair C privKey pubKey memberPriv memberPub"
  shows "\<exists>u \<in> set us. ku_userId u = mi_userId m \<and> ku_senderPublicKey u = toBase64 pubKey \<and>
    (\<exists>enc. ku_encryptedVaultKey u = toBase64 enc \<and> decryptBookKeyFromUser C memberPriv pubKey enc = Some raw)"
  using assms
proof (induction ms arbitrary: us)
  case (Cons a ms)
  from Cons.prems(3) obtain us' where us': "rotation_updates C iv privKey pubKey raw ms = Some us'" "set us' \<subseteq> set us"
    by (auto split: if_splits option.splits intro!: that)
  show ?case
  proof (cases "a = m")
    case True
    obtain enc where e: "encryptBookKeyForUser C (iv (mi_userId m)) privKey memberPub raw = Some enc"
      "decryptBookKeyFromUser C memberPriv pubKey enc = Some raw"
      using assms(1,2,7)
      by (auto simp: encryptBookKeyForUser_def decryptBookKeyFromUser_def deriveSharedKey_def ecdh_pair_def)
    from Cons.prems(3) show ?thesis
      by (auto simp: True assms(5,6) fromBase64_toBase64 e(1) intro!: exI [of _ enc] e(2))
  next
    case False
    with Cons.prems(4) have "m \<in> set ms" by simp
    from Cons.IH [OF assms(1,2) us'(1) this assms(5-7)] us'(2) show ?thesis by blast
  qed
qed simp

lemma find_update_found:
  "index_of True (map P xs) = Some i \<Longrightarrow> P y \<Longrightarrow> find P (xs[i := y]) = Some y"
  by (induction xs arbitrary: i) (auto split: if_splits)

lemma set_book_key_get:
  assumes "find_book v bs = Some b" "vault_of d = Some v"
  shows "getDocKey (set_book_key v k bs) d = Some k"
proof -
  have "True \<in> set (map (\<lambda>b. bk_vaultId b = v) bs)"
    using assms(1) by (auto simp: find_book_def find_Some_iff)
  then obtain i where i: "index_of True (map (\<lambda>b. bk_vaultId b = v) bs) = Some i"
    by (cases "index_of True (map (\<lambda>b. bk_vaultId b = v) bs)") auto
  from index_of_Some_nth [OF i] have "bk_vaultId (bs ! i) = v" by (auto simp: nth_map)
  with i show ?thesis
    by (simp add: getDocKey_def set_book_key_def find_book_def assms(2) find_update_found)
qed

text \<open>C14: a key rotation reaches the members. With an open connection one message goes out, with an update
  for exactly the members that have a public key, in the order of the list; a member whose key pair
  agrees with the sender's gets an update from whose entry in the next vault list the new key decrypts,
  and the sender's own book has the same key: its documents are pushed under it from now on.\<close>

theorem rotation_reaches_members:
  assumes "aead_law C" "\<forall>x. length (iv x) = 12" "length raw = 32"
    and "ss_identity s = Some (pubKey, privKey)" "w_sc (ss_world s) = Some c" "isOpen c"
    and "rotation_updates C iv privKey pubKey raw members = Some us"
    and "m \<in> set members" "mi_publicKey m = Some (toBase64 memberPub)" "memberPub \<noteq> []"
    and "ecdh_pair C privKey pubKey memberPriv memberPub"
  shows "let t = rotateVaultKey C iv raw v members s in
    map_option sc_sent (w_sc (ss_world t)) = Some (sc_sent c @ [MRotate v us]) \<and>
    map ku_userId us = map mi_userId (filter (\<lambda>m. truthy (mi_publicKey m)) members) \<and>
    (\<exists>u \<in> set us. ku_userId u = mi_userId m \<and>
       (\<forall>role books. \<exists>b r. vault_book C memberPriv books \<lparr>vi_vaultId = v, vi_encryptedVaultKey = ku_encryptedVaultKey u,
            vi_senderPublicKey = ku_senderPublicKey u, vi_role = role\<rparr> = Some (b, r) \<and>
          bk_vaultId b = v \<and> bk_encKey b = Some (AesKey raw True))) \<and>
    (\<forall>b d. find_book v (ss_books s) = Some b \<longrightarrow> vault_of d = Some v
       \<longrightarrow> getDocKey (ss_books t) d = Some (AesKey raw True))"
proof -
  obtain u enc where u: "u \<in> set us" "ku_userId u = mi_userId m" "ku_senderPublicKey u = toBase64 pubKey"
    "ku_encryptedVaultKey u = toBase64 enc" "decryptBookKeyFromUser C memberPriv pubKey enc = Some raw"
    using rotation_updates_member [OF assms(1,2,7-11)] by blast
  then obtain u1 us1 where us: "us = u1 # us1" by (cases us) auto
  have k: "import_aes raw True = Some (AesKey raw True)" using assms(3) by (simp add: import_aes_def)
  have t: "rotateVaultKey C iv raw v members s
      = (on_client (sc_rotateVaultKey v us) s)\<lparr>ss_books := set_book_key v (AesKey raw True) (ss_books s)\<rparr>"
    using assms(4,5,7) by (simp add: rotateVaultKey_def generateBookKey_def k us)
  have b: "\<exists>b r. vault_book C memberPriv books \<lparr>vi_vaultId = v, vi_encryptedVaultKey = ku_encryptedVaultKey u,
            vi_senderPublicKey = ku_senderPublicKey u, vi_role = role\<rparr> = Some (b, r) \<and>
          bk_vaultId b = v \<and> bk_encKey b = Some (AesKey raw True)" for books role
    by (simp add: vault_book_def u fromBase64_toBase64 importBookKey_def k Let_def)
  show ?thesis
    unfolding Let_def t
    using assms(5,6) u(1,2) b rotation_updates_ids [OF assms(7)] set_book_key_get [of v "ss_books s"]
    by (auto simp: sc_rotateVaultKey_def sendMsg_def)
qed

text \<open>A rotation whose connection has dropped meanwhile is lost for the others only: no message goes out
  (a closed socket drops it silently), yet the book takes the new key, so the rotating device encrypts
  under a key that no other member has been given.\<close>

theorem rotation_without_connection:
  assumes "ss_identity s = Some (pubKey, privKey)" "w_sc (ss_world s) = Some c" "\<not> isOpen c" "length raw = 32"
    and "rotation_updates C iv privKey pubKey raw members = Some us" "us \<noteq> []"
    and "find_book v (ss_books s) = Some b" "vault_of d = Some v"
  shows "let t = rotateVaultKey C iv raw v members s in
    w_sc (ss_world t) = Some c \<and> getDocKey (ss_books t) d = Some (AesKey raw True)"
  using assms set_book_key_get [OF assms(7,8)]
  by (cases us) (simp_all add: rotateVaultKey_def generateBookKey_def import_aes_def sc_rotateVaultKey_def sendMsg_def)

subsection \<open>Witnesses\<close>

definition demo_session :: "(bytes, nat) session" where
  "demo_session = \<lparr>ss_userId = ''u'', ss_books = [\<lparr>bk_vaultId = ''v'', bk_name = ''b'', bk_role = ''owner'',
       bk_encKey = None\<rparr>], ss_activeBook = None, ss_masterKey = None, ss_wrappedMasterKey = None,
     ss_identity = Some ([3], [3]), ss_signing = None, ss_signingKeyCache = [(''x'', [7])], ss_world = demo_world\<rparr>"

lemma demo_session_simps [simp]:
  "ss_identity demo_session = Some ([3], [3])" "ss_masterKey demo_session = None"
  "ss_world demo_session = demo_world" "ss_signingKeyCache demo_session = [(''x'', [7])]"
  "find_book ''v'' (ss_books demo_session) = Some \<lparr>bk_vaultId = ''v'', bk_name = ''b'', bk_role = ''owner'', bk_encKey = None\<rparr>"
  by (simp_all add: demo_session_def find_book_def)

definition demo_member :: member_info where
  "demo_member = \<lparr>mi_userId = ''m'', mi_role = ''editor'', mi_publicKey = Some (toBase64 [4]), mi_signingPublicKey = None\<rparr>"

definition demo_update :: key_update where
  "demo_update = \<lparr>ku_userId = ''m'',
     ku_encryptedVaultKey = toBase64 (the (encryptBookKeyForUser demo_crypto demo_iv [3] [4] (replicate 32 5))),
     ku_senderPublicKey = toBase64 [3]\<rparr>"

lemma demo_rotation:
  "rotation_updates demo_crypto (\<lambda>x. demo_iv) [3] [3] (replicate 32 5) [demo_member]
     = Some [demo_update]"
  by (simp add: demo_member_def demo_update_def fromBase64_toBase64 encryptBookKeyForUser_def deriveSharedKey_def
      demo_crypto_def)

theorem second_device_has_the_same_keys_witness:
  "\<exists>wk pub wp sp ws s' t'. onConnected_keys demo_crypto (replicate 32 5) demo_iv ([1], [2]) ([3], [4]) demo_key
      (None, None, None, None, None) demo_session = (None, s') \<and>
    onConnected_keys demo_crypto (replicate 32 6) demo_iv ([5], [6]) ([7], [8]) demo_key
      (Some wk, Some pub, Some wp, Some sp, Some ws) demo_session = (None, t') \<and> ss_masterKey t' = ss_masterKey s'"
  using second_device_has_the_same_keys [OF demo_aead_law, of demo_iv "replicate 32 5" demo_session demo_client
      demo_session demo_client "([1], [2])" "([3], [4])" demo_key "replicate 32 6" demo_iv "([5], [6])" "([7], [8])"]
  by (simp add: demo_world_facts demo_iv_def) blast

theorem remote_changes_are_authenticated_witness:
  "let t = onRemoteChange demo_automerge demo_crypto ''a'' (SIGNED_VERSION # replicate 64 9 @ [1]) 4 (Some ''x'') demo_session
   in w_sc (ss_world t) = Some demo_client"
  using remote_changes_are_authenticated [of demo_session "''x''" "[7]" demo_automerge demo_crypto "''a''"
      "SIGNED_VERSION # replicate 64 9 @ [1]" 4]
  by (simp add: map_get_def Let_def demo_world_facts)

theorem undecryptable_vault_loses_unsent_changes_witness:
  "\<exists>n. let infos = [\<lparr>vi_vaultId = ''v'', vi_encryptedVaultKey = toBase64 [9], vi_senderPublicKey = toBase64 [9], vi_role = ''owner''\<rparr>];
      t = onVaultList_books demo_crypto infos demo_session;
      w = pq_run demo_automerge demo_crypto (vault_list_events infos (ss_books t) n) (ss_world t)
    in ''v/r'' \<notin> set (pq_dirtySet (w_pq w))"
proof -
  have "decryptBookKeyFromUser demo_crypto [3] [9] [9] = None"
    by (simp add: decryptBookKeyFromUser_def deriveSharedKey_def decrypt_def demo_crypto_def numeral_eq_Suc)
  then have "undecryptable demo_crypto [3] (ss_books demo_session)
      [\<lparr>vi_vaultId = ''v'', vi_encryptedVaultKey = toBase64 [9], vi_senderPublicKey = toBase64 [9], vi_role = ''owner''\<rparr>] ''v''"
    by (simp add: undecryptable_def vault_book_def fromBase64_toBase64)
  moreover have "getAllPendingVaults (w_db demo_world) = []"
    by (simp add: getAllPendingVaults_def demo_world_def dirty_key_def idb_getAllKeys_def map_filter_simps)
  ultimately show ?thesis
    using undecryptable_vault_loses_unsent_changes [of demo_session "[3]" "[3]" demo_crypto _ "''v''" "''v/r''" demo_automerge]
    by (fastforce simp: demo_world_facts Let_def)
qed

theorem rotation_reaches_members_witness:
  "map_option sc_sent (w_sc (ss_world (rotateVaultKey demo_crypto (\<lambda>x. demo_iv) (replicate 32 5) ''v'' [demo_member] demo_session)))
     = Some [MRotate ''v'' [demo_update]]"
  using rotation_reaches_members [OF demo_aead_law _ _ _ _ _ demo_rotation, of demo_session demo_client demo_member "[4]" "[4]" "''v''"]
  by (simp add: demo_world_facts demo_iv_def Let_def demo_ecdh_pair) (simp add: demo_member_def)

theorem rotation_without_connection_witness:
  "let s = on_client ws_close demo_session; t = rotateVaultKey demo_crypto (\<lambda>x. demo_iv) (replicate 32 5) ''v'' [demo_member] s in
    w_sc (ss_world t) = Some (ws_close demo_client) \<and> getDocKey (ss_books t) ''v/r'' = Some (AesKey (replicate 32 5) True)"
  using rotation_without_connection [OF _ _ _ _ demo_rotation, of "on_client ws_close demo_session" "ws_close demo_client" "''v''" _ "''v/r''"]
  by (simp add: demo_world_facts demo_client_def demo_online_def sc_new_def ws_close_def isOpen_def)

end
