(* ===== verification/Json.thy ===== *)
theory Json
  imports Crypto
begin

text \<open>
  \<^verbatim>\<open>JSON.stringify\<close>, \<^verbatim>\<open>JSON.parse\<close>, \<^verbatim>\<open>TextEncoder\<close> and \<^verbatim>\<open>TextDecoder\<close> as the code uses them. A number is the
  text of its literal. Strings hold the code units below 256: a text with a character outside that
  range, escaped or not, is outside the model and does not parse here.
\<close>

datatype json =
    JNull
  | JBool bool
  | JNum string
  | JStr string
  | JArr "json list"
  | JObj "(string \<times> json) list"

subsection \<open>Text\<close>

definition decode_cont :: "byte \<Rightarrow> nat option" where
  "decode_cont b = (if 128 \<le> unat b \<and> unat b < 192 then Some (unat b - 128) else None)"

fun text_decode :: "bytes \<Rightarrow> string option" where
  "text_decode [] = Some []"
| "text_decode (b # r) =
     (if unat b < 128 then map_option ((#) (char_of (unat b))) (text_decode r)
      else if unat b = 194 \<or> unat b = 195 then
        (case r of
           [] \<Rightarrow> None
         | d # r' \<Rightarrow>
             (case decode_cont d of
                None \<Rightarrow> None
              | Some n \<Rightarrow> map_option ((#) (char_of ((unat b - 192) * 64 + n))) (text_decode r')))
      else None)"

lemma unat_of_nat_byte: "m < 256 \<Longrightarrow> unat (of_nat m :: byte) = m"
  by (simp add: unat_of_nat take_bit_nat_def)

lemma text_decode_char: "text_decode (utf8_char c @ bs) = map_option ((#) c) (text_decode bs)"
proof -
  let ?n = "of_char c :: nat"
  have n: "?n < 256" by (metis of_char_mod_256 mod_less_divisor zero_less_numeral)
  show ?thesis
  proof (cases "?n < 128")
    case True
    then have "unat (of_nat ?n :: byte) = ?n" by (intro unat_of_nat_byte) simp
    with True show ?thesis by (simp add: utf8_char_def Let_def)
  next
    case False
    define q m where "q = ?n div 64" and "m = ?n mod 64"
    have "?n = q * 64 + m" "m < 64" by (simp_all add: q_def m_def)
    have "q < 4" unfolding q_def by (rule less_mult_imp_div_less) (use n in linarith)
    moreover have "2 \<le> q" using div_le_mono [of 128 ?n 64] False by (simp add: q_def)
    ultimately have "q = 2 \<or> q = 3" by linarith
    have u: "unat (of_nat (192 + q) :: byte) = 192 + q" "unat (of_nat (128 + m) :: byte) = 128 + m"
      using \<open>q = 2 \<or> q = 3\<close> \<open>m < 64\<close> unat_of_nat_byte [of "192 + q"] unat_of_nat_byte [of "128 + m"]
      by linarith+
    have "utf8_char c = [of_nat (192 + q), of_nat (128 + m)]"
      using False by (simp add: utf8_char_def Let_def q_def m_def)
    moreover have "decode_cont (of_nat (128 + m)) = Some m"
      using \<open>m < 64\<close> unfolding decode_cont_def u by simp
    moreover have "char_of ((192 + q - 192) * 64 + m) = c"
      using \<open>?n = q * 64 + m\<close> by (metis char_of_char add_diff_cancel_left')
    ultimately show ?thesis
      using \<open>q = 2 \<or> q = 3\<close> u by (simp del: of_nat_add)
  qed
qed

lemma text_decode_encode [simp]: "text_decode (text_encode s) = Some s"
proof (induction s)
  case (Cons c s)
  then show ?case using text_decode_char [of c "text_encode s"] by (simp add: text_encode_def)
qed (simp add: text_encode_def)

subsection \<open>Printing\<close>

definition BSLASH :: char where "BSLASH = CHR 0x5C"
definition QUOTE :: char where "QUOTE = CHR 0x22"

text \<open>The two-character escapes.\<close>

definition json_short :: "(char \<times> char) list" where
  "json_short = [(QUOTE, QUOTE), (BSLASH, BSLASH), (CHR 0x08, CHR ''b''), (CHR 0x0C, CHR ''f''),
     (CHR 0x0A, CHR ''n''), (CHR 0x0D, CHR ''r''), (CHR 0x09, CHR ''t'')]"

definition json_escape :: "char \<Rightarrow> string" where
  "json_escape c =
     (case map_of json_short c of
        Some e \<Rightarrow> [BSLASH, e]
      | None \<Rightarrow>
          let n = (of_char c :: nat)
          in if n < 32 then BSLASH # ''u00'' @ [hex_digit (n div 16), hex_digit (n mod 16)] else [c])"

definition json_quote :: "string \<Rightarrow> string" where
  "json_quote s = QUOTE # concat (map json_escape s) @ [QUOTE]"

fun stringify :: "json \<Rightarrow> string" where
  "stringify JNull = ''null''"
| "stringify (JBool b) = (if b then ''true'' else ''false'')"
| "stringify (JNum n) = n"
| "stringify (JStr s) = json_quote s"
| "stringify (JArr vs) = ''['' @ join '','' (map stringify vs) @ '']''"
| "stringify (JObj ms) = ''{'' @ join '','' (map (\<lambda>(k, v). json_quote k @ '':'' @ stringify v) ms) @ ''}''"

subsection \<open>Parsing\<close>

text \<open>One character of a string literal, escaped or not.\<close>

definition json_unshort :: "(char \<times> char) list" where
  "json_unshort = (CHR ''/'', CHR ''/'') # map (\<lambda>(c, e). (e, c)) json_short"

definition json_hex4 :: "string \<Rightarrow> (char \<times> string) option" where
  "json_hex4 s =
     (case s of
        a # b # c # d # r \<Rightarrow>
          (case (hex_value a, hex_value b, hex_value c, hex_value d) of
             (Some w, Some x, Some y, Some z) \<Rightarrow>
               let n = ((w * 16 + x) * 16 + y) * 16 + z
               in if n < 256 then Some (char_of n, r) else None
           | _ \<Rightarrow> None)
      | _ \<Rightarrow> None)"

definition json_char :: "string \<Rightarrow> (char \<times> string) option" where
  "json_char s =
     (case s of
        [] \<Rightarrow> None
      | c # r \<Rightarrow>
          if c \<noteq> BSLASH then (if (of_char c :: nat) < 32 then None else Some (c, r))
          else (case r of
                  [] \<Rightarrow> None
                | e # r' \<Rightarrow>
                    if e = CHR ''u'' then json_hex4 r'
                    else map_option (\<lambda>x. (x, r')) (map_of json_unshort e)))"

lemma json_char_shorter: "json_char s = Some (c, r) \<Longrightarrow> length r < length s"
  by (auto simp: json_char_def json_hex4_def Let_def split: list.splits if_splits option.splits prod.splits)

function parse_str :: "string \<Rightarrow> (string \<times> string) option" where
  "parse_str s =
     (case s of
        [] \<Rightarrow> None
      | c # r \<Rightarrow>
          if c = QUOTE then Some ([], r)
          else (case json_char s of
                  None \<Rightarrow> None
                | Some (x, r') \<Rightarrow> map_option (\<lambda>(t, r''). (x # t, r'')) (parse_str r')))"
  by pat_completeness auto
termination
  by (relation "measure length") (auto dest: json_char_shorter)

declare parse_str.simps [simp del]

definition json_space :: "char \<Rightarrow> bool" where
  "json_space c \<longleftrightarrow> c \<in> set [CHR 0x20, CHR 0x09, CHR 0x0A, CHR 0x0D]"

definition skip_ws :: "string \<Rightarrow> string" where
  "skip_ws s = dropWhile json_space s"

definition digit :: "char \<Rightarrow> bool" where
  "digit c \<longleftrightarrow> 48 \<le> (of_char c :: nat) \<and> (of_char c :: nat) \<le> 57"

text \<open>The grammar of a number literal: sign, integer part without leading zeros, fraction, exponent.\<close>

definition digits1 :: "string \<Rightarrow> (string \<times> string) option" where
  "digits1 s = (let d = takeWhile digit s in if d = [] then None else Some (d, dropWhile digit s))"

definition num_int :: "string \<Rightarrow> (string \<times> string) option" where
  "num_int s =
     (case s of
        c # r \<Rightarrow> if c = CHR ''0'' then Some ([c], r) else digits1 s
      | [] \<Rightarrow> None)"

definition num_frac :: "string \<Rightarrow> (string \<times> string) option" where
  "num_frac s =
     (case s of
        c # r \<Rightarrow> if c = CHR ''.'' then map_option (\<lambda>(d, r'). (c # d, r')) (digits1 r) else Some ([], s)
      | [] \<Rightarrow> Some ([], []))"

definition num_exp :: "string \<Rightarrow> (string \<times> string) option" where
  "num_exp s =
     (case s of
        c # r \<Rightarrow>
          if c = CHR ''e'' \<or> c = CHR ''E'' then
            (case r of
               g # r1 \<Rightarrow>
                 if g = CHR ''+'' \<or> g = CHR ''-'' then map_option (\<lambda>(d, r'). (c # g # d, r')) (digits1 r1)
                 else map_option (\<lambda>(d, r'). (c # d, r')) (digits1 r)
             | [] \<Rightarrow> None)
          else Some ([], s)
      | [] \<Rightarrow> Some ([], []))"

definition parse_num :: "string \<Rightarrow> (string \<times> string) option" where
  "parse_num s =
     (let (sign, s1) = (case s of c # r \<Rightarrow> if c = CHR ''-'' then ([c], r) else ([], s) | [] \<Rightarrow> ([], s))
      in case num_int s1 of
           None \<Rightarrow> None
         | Some (a, s2) \<Rightarrow>
             (case num_frac s2 of
                None \<Rightarrow> None
              | Some (b, s3) \<Rightarrow>
                  (case num_exp s3 of
                     None \<Rightarrow> None
                   | Some (c, s4) \<Rightarrow> Some (sign @ a @ b @ c, s4))))"

definition literal :: "string \<Rightarrow> json \<Rightarrow> string \<Rightarrow> (json \<times> string) option" where
  "literal w v s = (if prefix w s then Some (v, drop (length w) s) else None)"

text \<open>Recursive descent; each call has one unit of fuel less. A repeated key keeps its first place and
  takes the last value.\<close>

fun parse_val :: "nat \<Rightarrow> string \<Rightarrow> (json \<times> string) option"
  and parse_elems :: "nat \<Rightarrow> string \<Rightarrow> (json list \<times> string) option"
  and parse_members :: "nat \<Rightarrow> (string \<times> json) list \<Rightarrow> string \<Rightarrow> ((string \<times> json) list \<times> string) option" where
  "parse_val 0 s = None"
| "parse_val (Suc n) s =
     (case skip_ws s of
        [] \<Rightarrow> None
      | c # r \<Rightarrow>
          if c = QUOTE then map_option (\<lambda>(t, r'). (JStr t, r')) (parse_str r)
          else if c = CHR ''['' then
            (case skip_ws r of
               [] \<Rightarrow> None
             | d # r1 \<Rightarrow> if d = CHR '']'' then Some (JArr [], r1)
                         else map_option (\<lambda>(vs, r'). (JArr vs, r')) (parse_elems n r))
          else if c = CHR ''{'' then
            (case skip_ws r of
               [] \<Rightarrow> None
             | d # r1 \<Rightarrow> if d = CHR ''}'' then Some (JObj [], r1)
                         else map_option (\<lambda>(ms, r'). (JObj ms, r')) (parse_members n [] r))
          else if c = CHR ''t'' then literal ''true'' (JBool True) (c # r)
          else if c = CHR ''f'' then literal ''false'' (JBool False) (c # r)
          else if c = CHR ''n'' then literal ''null'' JNull (c # r)
          else map_option (\<lambda>(t, r'). (JNum t, r')) (parse_num (c # r)))"
| "parse_elems 0 s = None"
| "parse_elems (Suc n) s =
     (case parse_val n s of
        None \<Rightarrow> None
      | Some (v, r) \<Rightarrow>
          (case skip_ws r of
             [] \<Rightarrow> None
           | d # r1 \<Rightarrow>
               if d = CHR '','' then map_option (\<lambda>(vs, r'). (v # vs, r')) (parse_elems n r1)
               else if d = CHR '']'' then Some ([v], r1) else None))"
| "parse_members 0 ms s = None"
| "parse_members (Suc n) ms s =
     (case skip_ws s of
        [] \<Rightarrow> None
      | q # r0 \<Rightarrow>
          if q \<noteq> QUOTE then None
          else
            (case parse_str r0 of
               None \<Rightarrow> None
             | Some (k, r) \<Rightarrow>
                 (case skip_ws r of
                    [] \<Rightarrow> None
                  | e # r1 \<Rightarrow>
                      if e \<noteq> CHR '':'' then None
                      else
                        (case parse_val n r1 of
                           None \<Rightarrow> None
                         | Some (v, r2) \<Rightarrow>
                             (case skip_ws r2 of
                                [] \<Rightarrow> None
                              | d # r3 \<Rightarrow>
                                  if d = CHR '','' then parse_members n (map_set k v ms) r3
                                  else if d = CHR ''}'' then Some (map_set k v ms, r3) else None)))))"

definition parse_json :: "string \<Rightarrow> json option" where
  "parse_json s =
     (case parse_val (Suc (length s)) s of
        None \<Rightarrow> None
      | Some (v, r) \<Rightarrow> if skip_ws r = [] then Some v else None)"

text \<open>A property of a parsed value: nothing of the values that are not objects.\<close>

definition json_field :: "string \<Rightarrow> json \<Rightarrow> json option" where
  "json_field k v = (case v of JObj ms \<Rightarrow> map_get ms k | _ \<Rightarrow> None)"

subsection \<open>Round trips\<close>

lemma hex_value_digit: "n < 16 \<Longrightarrow> hex_value (hex_digit n) = Some n"
  using hex_digit_facts by blast

lemma json_char_escape: "json_char (json_escape c @ r) = Some (c, r)"
proof (cases "map_of json_short c")
  case (Some e)
  then have "(c, e) \<in> set json_short" by (rule map_of_SomeD)
  then have "e \<noteq> CHR ''u'' \<and> map_of json_unshort e = Some c"
    by (auto simp: json_short_def json_unshort_def QUOTE_def BSLASH_def)
  with Some show ?thesis by (simp add: json_escape_def json_char_def)
next
  case None
  let ?n = "of_char c :: nat"
  from None have ne: "c \<noteq> BSLASH" by (auto simp: json_short_def split: if_splits)
  show ?thesis
  proof (cases "?n < 32")
    case True
    then have "?n div 16 < 16" "?n mod 16 < 16" by simp_all
    moreover have "hex_value (CHR ''0'') = Some 0" using hex_value_digit [of 0] by (simp add: hex_digit_def hex_digits_def)
    ultimately show ?thesis
      using None True by (simp add: json_escape_def json_char_def json_hex4_def Let_def hex_value_digit)
  next
    case False
    with None ne show ?thesis by (simp add: json_escape_def json_char_def Let_def)
  qed
qed

lemma json_escape_start: "\<exists>d ds. json_escape c = d # ds \<and> d \<noteq> QUOTE"
proof -
  have "c = QUOTE \<Longrightarrow> map_of json_short c = Some QUOTE" by (simp add: json_short_def)
  moreover have "BSLASH \<noteq> QUOTE" by (simp add: BSLASH_def QUOTE_def)
  ultimately show ?thesis by (auto simp: json_escape_def Let_def split: option.split)
qed

lemma parse_str_quote: "parse_str (concat (map json_escape s) @ QUOTE # r) = Some (s, r)"
proof (induction s)
  case Nil
  show ?case by (simp add: parse_str.simps)
next
  case (Cons c s)
  obtain d ds where d: "json_escape c = d # ds" "d \<noteq> QUOTE" using json_escape_start by blast
  show ?case
    using d Cons json_char_escape [of c "concat (map json_escape s) @ QUOTE # r"]
    by (subst parse_str.simps) simp
qed

text \<open>An object whose members are strings parses back.\<close>

definition string_object :: "(string \<times> string) list \<Rightarrow> json" where
  "string_object ms = JObj (map (\<lambda>(k, s). (k, JStr s)) ms)"

lemma skip_ws_visible: "c \<notin> {CHR 0x20, CHR 0x09, CHR 0x0A, CHR 0x0D} \<Longrightarrow> skip_ws (c # r) = c # r"
  by (simp add: skip_ws_def json_space_def)

lemma parse_val_quote: "parse_val (Suc n) (json_quote s @ r) = Some (JStr s, r)"
proof -
  have "skip_ws (json_quote s @ r) = QUOTE # concat (map json_escape s) @ QUOTE # r"
    by (simp add: json_quote_def skip_ws_visible QUOTE_def)
  then show ?thesis by (simp add: parse_str_quote)
qed

fun string_members :: "(string \<times> string) list \<Rightarrow> string" where
  "string_members [] = ''}''"
| "string_members [(k, s)] = json_quote k @ '':'' @ json_quote s @ ''}''"
| "string_members ((k, s) # m # ms) = json_quote k @ '':'' @ json_quote s @ '','' @ string_members (m # ms)"

lemma stringify_members: "stringify (string_object ms) = CHR ''{'' # string_members ms"
  by (induction ms rule: string_members.induct) (simp_all add: string_object_def)

lemma map_set_new: "k \<notin> fst ` set m \<Longrightarrow> map_set k v m = m @ [(k, v)]"
  by (induction m) (auto simp: map_set_def)

lemma json_quote_skip: "skip_ws (json_quote k @ r) = QUOTE # concat (map json_escape k) @ QUOTE # r"
  by (simp add: json_quote_def skip_ws_visible QUOTE_def)

lemma parse_member:
  "parse_members (Suc (Suc n)) ms (json_quote k @ '':'' @ json_quote s @ r)
    = (case skip_ws r of
         [] \<Rightarrow> None
       | d # r3 \<Rightarrow>
           if d = CHR '','' then parse_members (Suc n) (map_set k (JStr s) ms) r3
           else if d = CHR ''}'' then Some (map_set k (JStr s) ms, r3) else None)"
  by (simp add: json_quote_skip parse_str_quote skip_ws_visible parse_val_quote del: parse_val.simps)

lemma parse_string_members:
  assumes "distinct (map fst acc @ map fst ms)" "ms \<noteq> []" "length ms < n"
  shows "parse_members n acc (string_members ms @ r) = Some (acc @ map (\<lambda>(k, s). (k, JStr s)) ms, r)"
  using assms
proof (induction ms arbitrary: acc n rule: string_members.induct)
  case (2 k s)
  then obtain m where n: "n = Suc (Suc m)" by (cases n; cases "n - 1") auto
  have "map_set k (JStr s) acc = acc @ [(k, JStr s)]" using 2(1) by (intro map_set_new) auto
  then show ?case
    unfolding n string_members.simps append_assoc parse_member by (simp add: skip_ws_visible)
next
  case (3 k s m ms)
  then obtain l where n: "n = Suc (Suc l)" "length (m # ms) < Suc l" by (cases n; cases "n - 1") auto
  have acc: "map_set k (JStr s) acc = acc @ [(k, JStr s)]" using 3(2) by (intro map_set_new) auto
  have "distinct (map fst (acc @ [(k, JStr s)]) @ map fst (m # ms))" using 3(2) by auto
  from 3(1) [OF this _ n(2)] show ?case
    unfolding n(1) string_members.simps append_assoc parse_member
    by (simp add: skip_ws_visible acc del: parse_members.simps)
qed simp_all

lemma string_members_length: "length ms < length (string_members ms)"
  by (induction ms rule: string_members.induct) (auto simp: json_quote_def)

lemma parse_string_object:
  assumes "distinct (map fst ms)"
  shows "parse_json (stringify (string_object ms)) = Some (string_object ms)"
proof (cases "ms = []")
  case True
  then show ?thesis
    by (simp add: string_object_def parse_json_def skip_ws_visible QUOTE_def) (simp add: skip_ws_def)
next
  case False
  obtain k s ms' where ms: "ms = (k, s) # ms'" using False by (cases ms) auto
  obtain t where t: "string_members ms = QUOTE # t"
    by (cases ms') (auto simp: ms json_quote_def)
  have "parse_members (length (string_members ms) + 1) [] (string_members ms @ []) = Some ([] @ map (\<lambda>(k, s). (k, JStr s)) ms, [])"
    using assms False string_members_length [of ms] by (intro parse_string_members) auto
  then show ?thesis
    unfolding parse_json_def stringify_members
    by (simp add: skip_ws_visible QUOTE_def t string_object_def del: parse_members.simps) (simp add: skip_ws_def)
qed

subsection \<open>Fuel\<close>

lemma skip_ws_shorter: "skip_ws s = c # r \<Longrightarrow> length r < length s"
  using length_dropWhile_le [of json_space s] by (simp add: skip_ws_def)

lemma digits1_shorter: "digits1 s = Some (d, r) \<Longrightarrow> length r < length s"
proof -
  assume d: "digits1 s = Some (d, r)"
  have "length s = length (takeWhile digit s) + length (dropWhile digit s)"
    by (simp only: takeWhile_dropWhile_id flip: length_append)
  then show ?thesis using d by (auto simp: digits1_def Let_def split: if_splits)
qed

lemma num_int_shorter: "num_int s = Some (d, r) \<Longrightarrow> length r < length s"
  using digits1_shorter [of s d r] by (auto simp: num_int_def split: list.splits if_splits)

lemma num_frac_shorter: "num_frac s = Some (d, r) \<Longrightarrow> length r \<le> length s"
  by (force simp: num_frac_def split: list.splits if_splits dest: digits1_shorter)

lemma num_exp_shorter: "num_exp s = Some (d, r) \<Longrightarrow> length r \<le> length s"
  by (force simp: num_exp_def split: list.splits if_splits dest: digits1_shorter)

lemma parse_num_shorter: "parse_num s = Some (t, r) \<Longrightarrow> length r < length s"
  by (fastforce simp: parse_num_def Let_def split: list.splits if_splits option.splits prod.splits
      dest: num_int_shorter num_frac_shorter num_exp_shorter)

lemma parse_str_shorter: "parse_str s = Some (t, r) \<Longrightarrow> length r < length s"
proof (induction "length s" arbitrary: s t rule: less_induct)
  case less
  show ?case
  proof (cases s)
    case Nil
    then show ?thesis using less.prems by (simp add: parse_str.simps)
  next
    case (Cons c cs)
    show ?thesis
    proof (cases "c = QUOTE")
      case True
      then show ?thesis using less.prems Cons by (simp add: parse_str.simps)
    next
      case False
      then obtain x s' t' where "json_char s = Some (x, s')" "parse_str s' = Some (t', r)"
        using less.prems by (subst (asm) parse_str.simps) (auto simp: Cons split: option.splits)
      then show ?thesis using less.hyps [of s' t'] json_char_shorter [of s x s'] by simp
    qed
  qed
qed

lemma literal_shorter: "literal w v s = Some (x, r) \<Longrightarrow> w \<noteq> [] \<Longrightarrow> length r < length s"
  by (auto simp: literal_def prefix_def split: if_splits)

text \<open>A value that is parsed with some fuel is parsed with any fuel from the number of its characters on.\<close>

lemma parse_fuel:
  "(\<forall>s v r. parse_val m s = Some (v, r) \<longrightarrow>
      length r < length s \<and> (\<forall>n. length s \<le> n + length r \<longrightarrow> parse_val n s = Some (v, r))) \<and>
   (\<forall>s vs r. parse_elems m s = Some (vs, r) \<longrightarrow>
      length r < length s \<and> (\<forall>n. length s \<le> n + length r \<longrightarrow> parse_elems n s = Some (vs, r))) \<and>
   (\<forall>ms s ms' r. parse_members m ms s = Some (ms', r) \<longrightarrow>
      length r < length s \<and> (\<forall>n. length s \<le> n + length r \<longrightarrow> parse_members n ms s = Some (ms', r)))"
proof (induction m)
  case (Suc m)
  have V: "parse_val m s = Some (v, r) \<Longrightarrow> length r < length s"
    "parse_val m s = Some (v, r) \<Longrightarrow> length s \<le> n + length r \<Longrightarrow> parse_val n s = Some (v, r)" for s v r n
    using Suc by blast+
  have E: "parse_elems m s = Some (vs, r) \<Longrightarrow> length r < length s"
    "parse_elems m s = Some (vs, r) \<Longrightarrow> length s \<le> n + length r \<Longrightarrow> parse_elems n s = Some (vs, r)" for s vs r n
    using Suc by blast+
  have M: "parse_members m ms s = Some (ms', r) \<Longrightarrow> length r < length s"
    "parse_members m ms s = Some (ms', r) \<Longrightarrow> length s \<le> n + length r \<Longrightarrow> parse_members n ms s = Some (ms', r)" for ms s ms' r n
    using Suc by blast+
  have "length r < length s \<and> (\<forall>n. length s \<le> n + length r \<longrightarrow> parse_val n s = Some (v, r))"
    if p: "parse_val (Suc m) s = Some (v, r)" for s v r
  proof -
    obtain c cs where c: "skip_ws s = c # cs" using p by (auto split: list.splits)
    note l = skip_ws_shorter [OF c]
    have less: "length r < length s"
      using p l by (auto simp: c split: list.splits if_splits
          dest!: parse_str_shorter E(1) M(1) literal_shorter parse_num_shorter skip_ws_shorter)
    have "parse_val (Suc k) s = Some (v, r)" if k: "length s \<le> Suc k + length r" for k
    proof -
      have e: "parse_elems k cs = Some (vs, r)" if "parse_elems m cs = Some (vs, r)" for vs
        using E(2) [OF that] l k by simp
      have o: "parse_members k [] cs = Some (ms, r)" if "parse_members m [] cs = Some (ms, r)" for ms
        using M(2) [OF that] l k by simp
      show ?thesis using p by (cases "skip_ws cs") (auto simp: c split: if_splits intro: e o)
    qed
    then show ?thesis using less by (metis add_0 leD not0_implies_Suc)
  qed
  moreover have "length r < length s \<and> (\<forall>n. length s \<le> n + length r \<longrightarrow> parse_elems n s = Some (vs, r))"
    if p: "parse_elems (Suc m) s = Some (vs, r)" for s vs r
  proof -
    obtain v s1 d s2 where v: "parse_val m s = Some (v, s1)" "skip_ws s1 = d # s2"
      using p by (auto split: option.splits list.splits)
    note l = V(1) [OF v(1)] skip_ws_shorter [OF v(2)]
    have less: "length r < length s" using p l by (auto simp: v split: if_splits dest!: E(1))
    have "parse_elems (Suc k) s = Some (vs, r)" if k: "length s \<le> Suc k + length r" for k
    proof (cases "d = CHR '',''")
      case True
      then obtain ws where ws: "parse_elems m s2 = Some (ws, r)" "vs = v # ws" using p by (auto simp: v)
      have "parse_val k s = Some (v, s1)" using V(2) [OF v(1)] E(1) [OF ws(1)] l k by simp
      moreover have "parse_elems k s2 = Some (ws, r)" using E(2) [OF ws(1)] l k by simp
      ultimately show ?thesis using True ws by (simp add: v)
    next
      case False
      then have "d = CHR '']''" "vs = [v]" "r = s2" using p by (auto simp: v split: if_splits)
      moreover have "parse_val k s = Some (v, s1)" using V(2) [OF v(1)] l k calculation by simp
      ultimately show ?thesis by (simp add: v)
    qed
    then show ?thesis using less by (metis add_0 leD not0_implies_Suc)
  qed
  moreover have "length r < length s \<and> (\<forall>n. length s \<le> n + length r \<longrightarrow> parse_members n ms s = Some (ms', r))"
    if p: "parse_members (Suc m) ms s = Some (ms', r)" for ms s ms' r
  proof -
    obtain s0 key s1 s2 v s3 d s4 where v: "skip_ws s = QUOTE # s0" "parse_str s0 = Some (key, s1)" "skip_ws s1 = CHR '':'' # s2"
        "parse_val m s2 = Some (v, s3)" "skip_ws s3 = d # s4"
      using p by (auto split: option.splits list.splits if_splits)
    note l = skip_ws_shorter [OF v(1)] parse_str_shorter [OF v(2)] skip_ws_shorter [OF v(3)] V(1) [OF v(4)] skip_ws_shorter [OF v(5)]
    have less: "length r < length s" using p l by (auto simp: v split: if_splits dest!: M(1))
    have "parse_members (Suc k) ms s = Some (ms', r)" if k: "length s \<le> Suc k + length r" for k
    proof (cases "d = CHR '',''")
      case True
      then have ms: "parse_members m (map_set key v ms) s4 = Some (ms', r)" using p by (simp add: v)
      have "parse_val k s2 = Some (v, s3)" using V(2) [OF v(4)] M(1) [OF ms] l k by simp
      moreover have "parse_members k (map_set key v ms) s4 = Some (ms', r)" using M(2) [OF ms] l k by simp
      ultimately show ?thesis using True by (simp add: v)
    next
      case False
      then have "d = CHR ''}''" "ms' = map_set key v ms" "r = s4" using p by (auto simp: v split: if_splits)
      moreover have "parse_val k s2 = Some (v, s3)" using V(2) [OF v(4)] l k calculation by simp
      ultimately show ?thesis by (simp add: v)
    qed
    then show ?thesis using less by (metis add_0 leD not0_implies_Suc)
  qed
  ultimately show ?case by blast
qed simp

text \<open>So the fuel of \<open>parse_json\<close> is enough: more of it accepts no other text and reads nothing else.\<close>

lemma parse_json_enough:
  assumes "parse_val n s = Some (v, r)"
  shows "parse_json s = (if skip_ws r = [] then Some v else None)"
proof -
  note f = parse_fuel [of n, THEN conjunct1, rule_format, OF assms]
  have "parse_val (Suc (length s)) s = Some (v, r)" by (rule f [THEN conjunct2, rule_format]) simp
  then show ?thesis by (simp only: parse_json_def option.case prod.case)
qed

end
