(* ===== verification/Blob_Client.thy ===== *)
theory Blob_Client
  imports Idb Json
begin

text \<open>
  The encrypted blob client \<^verbatim>\<open>lib/blob-client.ts\<close>: the packed format of a stored blob, the blobs and
  their flags in the object store that the documents use, the cache of object URLs, the upload of
  dirty blobs. The server's answers (whether an upload was accepted, what a fetch returned) are
  arguments; an object URL is the number of the object it was made for.
\<close>

definition BLOB_META_VERSION :: byte where "BLOB_META_VERSION = 2"

datatype blob_error = DecryptFailed | StoreFailed

text \<open>\<^verbatim>\<open>DataView.setUint32\<close> and \<^verbatim>\<open>getUint32\<close>, big-endian; a number is stored modulo \<open>2 ^ 32\<close>.\<close>

definition put_uint32 :: "nat \<Rightarrow> bytes" where
  "put_uint32 n = [of_nat (n div 16777216), of_nat (n div 65536), of_nat (n div 256), of_nat n]"

definition get_uint32 :: "bytes \<Rightarrow> nat \<Rightarrow> nat" where
  "get_uint32 bs i =
     ((unat (bs ! i) * 256 + unat (bs ! (i + 1))) * 256 + unat (bs ! (i + 2))) * 256 + unat (bs ! (i + 3))"

definition js_slice :: "nat \<Rightarrow> nat \<Rightarrow> 'a list \<Rightarrow> 'a list" where
  "js_slice i j xs = take (j - i) (drop i xs)"

definition sha256Hex :: "webcrypto \<Rightarrow> bytes \<Rightarrow> string" where
  "sha256Hex C bs = bytesToHex (digest_sha256 C bs)"

definition blob_id :: "string \<Rightarrow> string \<Rightarrow> string" where
  "blob_id vaultId checksum = vaultId @ ''/'' @ checksum"

subsection \<open>The packed format\<close>

definition meta_json :: "string \<Rightarrow> string \<Rightarrow> bytes" where
  "meta_json mimeType filename =
     text_encode (stringify (string_object [(''mimeType'', mimeType), (''filename'', filename)]))"

definition packEncryptedBlob :: "webcrypto \<Rightarrow> bytes \<Rightarrow> bytes \<Rightarrow> bytes \<Rightarrow> string \<Rightarrow> string \<Rightarrow> crypto_key \<Rightarrow> bytes" where
  "packEncryptedBlob C ivMeta ivBlob plaintext mimeType filename encKey =
     (let encMeta = encrypt C ivMeta (meta_json mimeType filename) encKey;
          encBlob = encrypt C ivBlob plaintext encKey
      in BLOB_META_VERSION # put_uint32 (length encMeta) @ encMeta @ encBlob)"

definition is_packed :: "bytes \<Rightarrow> bool" where
  "is_packed raw \<longleftrightarrow> raw \<noteq> [] \<and> hd raw = BLOB_META_VERSION \<and> 5 < length raw"

definition packed_meta :: "bytes \<Rightarrow> bytes" where
  "packed_meta raw = js_slice 5 (5 + get_uint32 raw 1) raw"

definition packed_blob :: "bytes \<Rightarrow> bytes" where
  "packed_blob raw = drop (5 + get_uint32 raw 1) raw"

text \<open>Decrypting and parsing the metadata; an exception on the way is \<open>None\<close>. A property of \<^verbatim>\<open>null\<close>
  throws; a member that is missing, \<^verbatim>\<open>null\<close> or no string is \<open>None\<close> in the result.\<close>

definition string_field :: "string \<Rightarrow> json \<Rightarrow> string option" where
  "string_field k v = (case json_field k v of Some (JStr s) \<Rightarrow> Some s | _ \<Rightarrow> None)"

definition parse_meta :: "webcrypto \<Rightarrow> bytes \<Rightarrow> crypto_key \<Rightarrow> (string option \<times> string option) option" where
  "parse_meta C encMeta encKey =
     (case Option.bind (Option.bind (decrypt C encMeta encKey) text_decode) parse_json of
        None \<Rightarrow> None
      | Some JNull \<Rightarrow> None
      | Some v \<Rightarrow> Some (string_field ''mimeType'' v, string_field ''filename'' v))"

subsection \<open>Loading\<close>

definition OCTET_STREAM :: string where "OCTET_STREAM = ''application/octet-stream''"

text \<open>The blob's bytes from the store or from the server, which are then stored.\<close>

definition blob_bytes :: "string \<Rightarrow> bytes option \<Rightarrow> idb \<Rightarrow> (bytes \<times> idb) option" where
  "blob_bytes key remote db =
     (case idb_get db (blob_key key) of
        Some (VBytes raw) \<Rightarrow> Some (raw, db)
      | _ \<Rightarrow> map_option (\<lambda>r. (r, idb_put (blob_key key) (VBytes r) db)) remote)"

definition loadBlobMeta :: "idb \<Rightarrow> string \<Rightarrow> string \<Rightarrow> blob_meta option" where
  "loadBlobMeta db vaultId checksum =
     (case idb_get db (blobMeta_key (blob_id vaultId checksum)) of Some (VMeta m) \<Rightarrow> Some m | _ \<Rightarrow> None)"

definition loadBlobDecrypted ::
  "webcrypto \<Rightarrow> bytes option \<Rightarrow> idb \<Rightarrow> string \<Rightarrow> string \<Rightarrow> crypto_key \<Rightarrow> (blob_error + (bytes \<times> blob_meta) option) \<times> idb" where
  "loadBlobDecrypted C remote db vaultId checksum encKey =
     (case blob_bytes (blob_id vaultId checksum) remote db of
        None \<Rightarrow> (Inr None, db)
      | Some (raw, db1) \<Rightarrow>
          if is_packed raw then
            (case decrypt C (packed_blob raw) encKey of
               None \<Rightarrow> (Inl DecryptFailed, db1)
             | Some plaintext \<Rightarrow>
                 let meta =
                   (case parse_meta C (packed_meta raw) encKey of
                      None \<Rightarrow> \<lparr>bm_mimeType = OCTET_STREAM, bm_filename = '''', bm_size = length plaintext\<rparr>
                    | Some (mt, fn) \<Rightarrow>
                        \<lparr>bm_mimeType = (case mt of None \<Rightarrow> OCTET_STREAM | Some t \<Rightarrow> t),
                         bm_filename = (case fn of None \<Rightarrow> '''' | Some f \<Rightarrow> f), bm_size = length plaintext\<rparr>)
                 in (Inr (Some (plaintext, meta)), db1))
          else
            (case decrypt C raw encKey of
               None \<Rightarrow> (Inl DecryptFailed, db1)
             | Some plaintext \<Rightarrow>
                 let meta =
                   (case loadBlobMeta db1 vaultId checksum of
                      Some m \<Rightarrow> m
                    | None \<Rightarrow> \<lparr>bm_mimeType = OCTET_STREAM, bm_filename = '''', bm_size = length plaintext\<rparr>)
                 in (Inr (Some (plaintext, meta)), db1)))"

text \<open>The cache of object URLs and the objects made so far.\<close>

record url_cache =
  uc_cache :: "(string \<times> nat) list"
  uc_objects :: "(nat \<times> bytes) list"
  uc_next :: nat

definition revokeObjectUrls :: "url_cache \<Rightarrow> url_cache" where
  "revokeObjectUrls u =
     u\<lparr>uc_objects := filter (\<lambda>(n, _). n \<notin> snd ` set (uc_cache u)) (uc_objects u), uc_cache := []\<rparr>"

definition createObjectURL :: "bytes \<Rightarrow> url_cache \<Rightarrow> nat \<times> url_cache" where
  "createObjectURL bs u =
     (uc_next u, u\<lparr>uc_objects := uc_objects u @ [(uc_next u, bs)], uc_next := Suc (uc_next u)\<rparr>)"

definition cache_url :: "string \<Rightarrow> bytes \<Rightarrow> url_cache \<Rightarrow> nat \<times> url_cache" where
  "cache_url key plaintext u =
     (case createObjectURL plaintext u of
        (url, u1) \<Rightarrow> (url, u1\<lparr>uc_cache := map_set key url (uc_cache u1)\<rparr>))"

text \<open>The metadata found in a packed blob is stored when none is there; a member that is not a string
  is stored as the empty string here.\<close>

definition cache_meta :: "string \<Rightarrow> string option \<Rightarrow> string option \<Rightarrow> nat \<Rightarrow> idb \<Rightarrow> idb" where
  "cache_meta key mimeType filename n db =
     (case idb_get db (blobMeta_key key) of
        Some _ \<Rightarrow> db
      | None \<Rightarrow> idb_put (blobMeta_key key)
          (VMeta \<lparr>bm_mimeType = (case mimeType of None \<Rightarrow> '''' | Some t \<Rightarrow> t),
                  bm_filename = (case filename of None \<Rightarrow> '''' | Some f \<Rightarrow> f), bm_size = n\<rparr>) db)"

definition unpackAndCache ::
  "webcrypto \<Rightarrow> string \<Rightarrow> bytes \<Rightarrow> crypto_key \<Rightarrow> idb \<times> url_cache \<Rightarrow> (blob_error + nat) \<times> idb \<times> url_cache" where
  "unpackAndCache C key data encKey p =
     (case p of (db, u) \<Rightarrow>
       if is_packed data then
         (case decrypt C (packed_blob data) encKey of
            None \<Rightarrow> (Inl DecryptFailed, db, u)
          | Some plaintext \<Rightarrow>
              let db1 = (case parse_meta C (packed_meta data) encKey of
                           None \<Rightarrow> db
                         | Some (mt, fn) \<Rightarrow> cache_meta key mt fn (length plaintext) db);
                  (url, u1) = cache_url key plaintext u
              in (Inr url, db1, u1))
       else
         (case decrypt C data encKey of
            None \<Rightarrow> (Inl DecryptFailed, db, u)
          | Some plaintext \<Rightarrow> let (url, u1) = cache_url key plaintext u in (Inr url, db, u1)))"

definition loadBlobUrl ::
  "webcrypto \<Rightarrow> bytes option \<Rightarrow> string \<Rightarrow> string \<Rightarrow> crypto_key \<Rightarrow> idb \<times> url_cache
     \<Rightarrow> (blob_error + nat option) \<times> idb \<times> url_cache" where
  "loadBlobUrl C remote vaultId checksum encKey p =
     (case p of (db, u) \<Rightarrow>
       let key = blob_id vaultId checksum in
       case map_get (uc_cache u) key of
         Some url \<Rightarrow> (Inr (Some url), db, u)
       | None \<Rightarrow>
           (case blob_bytes key remote db of
              None \<Rightarrow> (Inr None, db, u)
            | Some (raw, db1) \<Rightarrow>
                (case unpackAndCache C key raw encKey (db1, u) of
                   (Inl e, q) \<Rightarrow> (Inl e, q)
                 | (Inr url, q) \<Rightarrow> (Inr (Some url), q))))"

subsection \<open>Storing and uploading\<close>

text \<open>\<^verbatim>\<open>storeBlob\<close> up to the upload it starts: the three entries are written by transactions of their own,
  each of which may fail; then nothing is uploaded.\<close>

definition put_if :: "bool \<Rightarrow> string \<Rightarrow> idb_value \<Rightarrow> idb \<Rightarrow> idb" where
  "put_if ok k v db = (if ok then idb_put k v db else db)"

definition storeBlob ::
  "webcrypto \<Rightarrow> bytes \<Rightarrow> bytes \<Rightarrow> bool \<times> bool \<times> bool \<Rightarrow> string \<Rightarrow> bytes \<Rightarrow> string \<Rightarrow> string \<Rightarrow> crypto_key \<Rightarrow> idb
     \<Rightarrow> (blob_error + string \<times> bytes) \<times> idb" where
  "storeBlob C ivMeta ivBlob committed vaultId plaintext mimeType filename encKey db =
     (case committed of (c1, c2, c3) \<Rightarrow>
       let checksum = sha256Hex C plaintext;
           combined = packEncryptedBlob C ivMeta ivBlob plaintext mimeType filename encKey;
           key = blob_id vaultId checksum;
           db1 = put_if c1 (blob_key key) (VBytes combined) db;
           db2 = put_if c2 (blobMeta_key key)
                   (VMeta \<lparr>bm_mimeType = mimeType, bm_filename = filename, bm_size = length plaintext\<rparr>) db1;
           db3 = put_if c3 (blobDirty_key key) VTrue db2
       in (if c1 \<and> c2 \<and> c3 then Inr (checksum, combined) else Inl StoreFailed, db3))"

definition upload_done :: "bool \<Rightarrow> string \<Rightarrow> idb \<Rightarrow> idb" where
  "upload_done ok key db = (if ok then idb_delete (blobDirty_key key) db else db)"

text \<open>The loop over the dirty keys: the uploads it makes and the store. \<open>upload\<close> is the server's answer.\<close>

fun flush_blobs ::
  "(string \<Rightarrow> string \<Rightarrow> bytes \<Rightarrow> bool) \<Rightarrow> string list \<Rightarrow> (string \<times> string \<times> bytes) list \<times> idb
     \<Rightarrow> (string \<times> string \<times> bytes) list \<times> idb" where
  "flush_blobs upload [] p = p"
| "flush_blobs upload (dirtyKey # rest) (sent, db) =
     (let bk = drop (length ''blobDirty:'') dirtyKey in
      case index_of (CHR ''/'') bk of
        None \<Rightarrow> flush_blobs upload rest (sent, db)
      | Some slash \<Rightarrow>
          let vaultId = take slash bk; checksum = drop (Suc slash) bk in
          case idb_get db (blob_key bk) of
            Some (VBytes blobData) \<Rightarrow>
              let db1 = (if upload vaultId checksum blobData then idb_delete dirtyKey db else db)
              in flush_blobs upload rest (sent @ [(vaultId, checksum, blobData)], db1)
          | _ \<Rightarrow> flush_blobs upload rest (sent, idb_delete dirtyKey db))"

definition flushDirtyBlobs ::
  "(string \<Rightarrow> string \<Rightarrow> bytes \<Rightarrow> bool) \<Rightarrow> idb \<Rightarrow> (string \<times> string \<times> bytes) list \<times> idb" where
  "flushDirtyBlobs upload db = flush_blobs upload (idb_getAllKeysWithPrefix db ''blobDirty:'') ([], db)"

subsection \<open>Lemmas\<close>

lemma get_put_uint32:
  assumes "n < 4294967296"
  shows "get_uint32 (b # put_uint32 n @ r) 1 = n"
proof -
  have u: "unat (of_nat m :: byte) = m mod 256" for m :: nat
    by (simp add: unat_of_nat take_bit_eq_mod)
  have "n div 16777216 mod 256 = n div 16777216"
    using assms by (simp add: less_mult_imp_div_less)
  moreover have "n div 16777216 = n div 65536 div 256" "n div 65536 = n div 256 div 256"
    by (simp_all flip: div_mult2_eq)
  ultimately show ?thesis
    by (simp add: get_uint32_def put_uint32_def u)
qed

lemma packed_parts:
  assumes "length encMeta < 4294967296"
  shows "packed_meta (BLOB_META_VERSION # put_uint32 (length encMeta) @ encMeta @ encBlob) = encMeta"
    "packed_blob (BLOB_META_VERSION # put_uint32 (length encMeta) @ encMeta @ encBlob) = encBlob"
proof -
  have l: "length (put_uint32 n) = 4" for n by (simp add: put_uint32_def)
  show "packed_meta (BLOB_META_VERSION # put_uint32 (length encMeta) @ encMeta @ encBlob) = encMeta"
    "packed_blob (BLOB_META_VERSION # put_uint32 (length encMeta) @ encMeta @ encBlob) = encBlob"
    unfolding packed_meta_def packed_blob_def get_put_uint32 [OF assms] by (simp_all add: js_slice_def l drop_Cons')
qed

lemma parse_meta_json:
  assumes "aead_law C" "length iv = 12"
  shows "parse_meta C (encrypt C iv (meta_json mt fn) key) key = Some (Some mt, Some fn)"
proof -
  have "parse_json (stringify (string_object [(''mimeType'', mt), (''filename'', fn)]))
      = Some (string_object [(''mimeType'', mt), (''filename'', fn)])"
    by (rule parse_string_object) simp
  then show ?thesis
    using assms by (simp add: parse_meta_def meta_json_def string_field_def json_field_def string_object_def map_get_def)
qed

text \<open>A blob stored on one device and loaded on another, through the server, with the same vault key
  comes back with its bytes, its type, its file name and its size.\<close>

theorem blob_roundtrip:
  assumes "aead_law C" "length ivMeta = 12" "length ivBlob = 12"
    and "length (encrypt C ivMeta (meta_json mimeType filename) key) < 4294967296"
    and "storeBlob C ivMeta ivBlob committed vaultId plaintext mimeType filename key db = (Inr (checksum, uploaded), db1)"
    and "idb_get db2 (blob_key (blob_id vaultId checksum)) = None"
  shows "fst (loadBlobDecrypted C (Some uploaded) db2 vaultId checksum key)
      = Inr (Some (plaintext, \<lparr>bm_mimeType = mimeType, bm_filename = filename, bm_size = length plaintext\<rparr>)) \<and>
    idb_get db1 (blob_key (blob_id vaultId checksum)) = Some (VBytes uploaded) \<and>
    idb_get db1 (blobDirty_key (blob_id vaultId checksum)) = Some VTrue"
proof -
  have up: "uploaded = packEncryptedBlob C ivMeta ivBlob plaintext mimeType filename key"
    and ck: "idb_get db1 (blob_key (blob_id vaultId checksum)) = Some (VBytes uploaded)"
      "idb_get db1 (blobDirty_key (blob_id vaultId checksum)) = Some VTrue"
    using assms(5) by (auto simp: storeBlob_def Let_def put_if_def split: prod.splits if_splits)
  have "is_packed uploaded"
    using assms(2) by (simp add: up packEncryptedBlob_def is_packed_def Let_def put_uint32_def encrypt_def)
  moreover have "packed_blob uploaded = encrypt C ivBlob plaintext key"
    "packed_meta uploaded = encrypt C ivMeta (meta_json mimeType filename) key"
    by (simp_all add: up packEncryptedBlob_def Let_def packed_parts [OF assms(4)])
  ultimately show ?thesis
    using assms(6) ck parse_meta_json [OF assms(1,2), of mimeType filename key]
      decrypt_encrypt [OF assms(1,3), of plaintext key]
    by (simp add: loadBlobDecrypted_def blob_bytes_def)
qed

text \<open>A blob in the old format (the encrypted bytes alone) can be misread: the two formats are told
  apart by the first byte, which in the old one is a random byte of the initialisation vector. When
  that byte is 2, the next four are taken for a length, and when that passes the end of the blob
  (authenticated decryption refuses texts shorter than its tag) the blob does not load although its
  key decrypts it.\<close>

theorem legacy_blob_misread:
  assumes "aead_law C" "length iv = 12" "hd iv = 2"
    and "\<forall>iv c. length c < 16 \<longrightarrow> aes_gcm_decrypt C (key_raw key) iv c = None"
    and "idb_get db (blob_key (blob_id vaultId checksum)) = Some (VBytes (encrypt C iv plaintext key))"
    and "length (encrypt C iv plaintext key) \<le> 5 + get_uint32 iv 1"
  shows "decrypt C (encrypt C iv plaintext key) key = Some plaintext \<and>
    fst (loadBlobDecrypted C remote db vaultId checksum key) = Inl DecryptFailed \<and>
    fst (unpackAndCache C (blob_id vaultId checksum) (encrypt C iv plaintext key) key (db, u)) = Inl DecryptFailed"
proof -
  let ?raw = "encrypt C iv plaintext key"
  obtain a b c d e r where iv: "iv = a # b # c # d # e # r"
    using assms(2) by (auto simp: eval_nat_numeral length_Suc_conv)
  have "get_uint32 ?raw 1 = get_uint32 iv 1" by (simp add: get_uint32_def encrypt_def iv)
  then have "packed_blob ?raw = []" using assms(6) by (simp add: packed_blob_def)
  moreover have "decrypt C [] key = None" using assms(4) by (simp add: decrypt_def)
  moreover have "is_packed ?raw"
    using assms(2,3) by (simp add: is_packed_def encrypt_def iv BLOB_META_VERSION_def)
  ultimately show ?thesis
    using assms(1,2,5) by (simp add: loadBlobDecrypted_def unpackAndCache_def blob_bytes_def)
qed

subsection \<open>Uploading dirty blobs\<close>

definition blob_vault :: "string \<Rightarrow> string" where
  "blob_vault bk = takeWhile (\<lambda>c. c \<noteq> CHR ''/'') bk"

definition blob_checksum :: "string \<Rightarrow> string" where
  "blob_checksum bk = drop (Suc (length (blob_vault bk))) bk"

definition stored_blob :: "idb \<Rightarrow> string \<Rightarrow> bytes option" where
  "stored_blob db bk = (case idb_get db (blob_key bk) of Some (VBytes b) \<Rightarrow> Some b | _ \<Rightarrow> None)"

text \<open>Whether the flag of a dirty blob goes: its data is missing or its upload is accepted.\<close>

definition flag_goes :: "(string \<Rightarrow> string \<Rightarrow> bytes \<Rightarrow> bool) \<Rightarrow> idb \<Rightarrow> string \<Rightarrow> bool" where
  "flag_goes upload db bk \<longleftrightarrow> CHR ''/'' \<in> set bk \<and>
     (case stored_blob db bk of None \<Rightarrow> True | Some b \<Rightarrow> upload (blob_vault bk) (blob_checksum bk) b)"

definition upload_of :: "idb \<Rightarrow> string \<Rightarrow> (string \<times> string \<times> bytes) option" where
  "upload_of db bk =
     (if CHR ''/'' \<in> set bk then map_option (\<lambda>b. (blob_vault bk, blob_checksum bk, b)) (stored_blob db bk) else None)"

lemma index_takeWhile: "index_of c xs = Some i \<Longrightarrow> take i xs = takeWhile (\<lambda>x. x \<noteq> c) xs"
  by (induction xs arbitrary: i) (auto split: if_splits)

lemma drop_blobDirty: "drop (length ''blobDirty:'') (blobDirty_key bk) = bk"
  by (simp add: blobDirty_key_def)

lemma flush_blobs_Cons:
  "flush_blobs upload (blobDirty_key bk # rest) (sent, db) =
     flush_blobs upload rest (sent @ (case upload_of db bk of None \<Rightarrow> [] | Some u \<Rightarrow> [u]),
       if flag_goes upload db bk then idb_delete (blobDirty_key bk) db else db)"
proof (cases "index_of (CHR ''/'') bk")
  case None
  then have "CHR ''/'' \<notin> set bk" by simp
  with None show ?thesis
    unfolding flush_blobs.simps drop_blobDirty by (simp add: upload_of_def flag_goes_def del: index_of_None)
next
  case (Some i)
  then have "CHR ''/'' \<in> set bk" using index_of_None [of "CHR ''/''" bk] by auto
  moreover have "take i bk = blob_vault bk" using index_takeWhile [OF Some] by (simp add: blob_vault_def)
  moreover from this have "drop (Suc i) bk = blob_checksum bk"
    using index_of_Some_nth [OF Some] by (simp add: blob_checksum_def flip: \<open>take i bk = blob_vault bk\<close>)
  ultimately show ?thesis
    using Some unfolding flush_blobs.simps drop_blobDirty
    by (simp add: upload_of_def flag_goes_def stored_blob_def Let_def
        split: option.split idb_value.split)
qed

lemma stored_blob_delete [simp]: "stored_blob (idb_delete (blobDirty_key x) db) = stored_blob db"
  by (rule ext) (simp add: stored_blob_def)

lemma flush_blobs_run:
  assumes "distinct bks"
  shows "flush_blobs upload (map blobDirty_key bks) (sent, db)
    = (sent @ List.map_filter (upload_of db) bks,
       foldl (\<lambda>d bk. idb_delete (blobDirty_key bk) d) db (filter (flag_goes upload db) bks))"
  using assms
proof (induction bks arbitrary: sent db)
  case (Cons bk bks)
  have same: "upload_of (idb_delete (blobDirty_key bk) db) = upload_of db"
    "flag_goes upload (idb_delete (blobDirty_key bk) db) = flag_goes upload db"
    by (auto simp: fun_eq_iff upload_of_def flag_goes_def)
  show ?case
    unfolding list.map(2) flush_blobs_Cons using Cons
    by (auto simp: same List.map_filter_simps split: option.split)
qed (simp add: List.map_filter_simps)

lemma foldl_delete_get:
  "idb_get (foldl (\<lambda>d bk. idb_delete (f bk) d) db bks) k = (if k \<in> f ` set bks then None else idb_get db k)"
  by (induction bks arbitrary: db) auto

lemma dirty_blob_keys: "\<exists>bks. idb_getAllKeysWithPrefix db ''blobDirty:'' = map blobDirty_key bks"
proof -
  have "\<forall>k \<in> set (idb_getAllKeysWithPrefix db ''blobDirty:''). \<exists>bk. k = blobDirty_key bk"
  proof
    fix k assume "k \<in> set (idb_getAllKeysWithPrefix db ''blobDirty:'')"
    then have "prefix ''blobDirty:'' k" unfolding idb_getAllKeysWithPrefix_def by simp
    then obtain x where "k = ''blobDirty:'' @ x" by (rule prefixE)
    then show "\<exists>bk. k = blobDirty_key bk" unfolding blobDirty_key_def by blast
  qed
  then show ?thesis unfolding ex_map_conv .
qed

text \<open>Flushing uploads every dirty blob that is stored, under its own vault and checksum, and clears
  exactly the flags of the blobs the server accepted or that are gone: a refused upload keeps its
  flag for the next flush, and no blob is touched.\<close>

theorem flush_uploads_dirty_blobs:
  assumes "idb_wf db"
  shows "let (sent, db') = flushDirtyBlobs upload db in
    (\<forall>bk. stored_blob db' bk = stored_blob db bk) \<and>
    (\<forall>bk. idb_get db' (blobDirty_key bk)
       = (if flag_goes upload db bk then None else idb_get db (blobDirty_key bk))) \<and>
    (\<forall>bk b. idb_get db (blobDirty_key bk) \<noteq> None \<and> CHR ''/'' \<in> set bk \<and> stored_blob db bk = Some b
       \<longrightarrow> (blob_vault bk, blob_checksum bk, b) \<in> set sent)"
proof -
  obtain bks where bks: "idb_getAllKeysWithPrefix db ''blobDirty:'' = map blobDirty_key bks"
    using dirty_blob_keys by blast
  have inj: "inj blobDirty_key" by (simp add: inj_def)
  have "distinct (map blobDirty_key bks)"
    using assms by (simp flip: bks add: idb_getAllKeysWithPrefix_def idb_wf_distinct)
  then have d: "distinct bks" by (simp add: distinct_map)
  have mem: "bk \<in> set bks \<longleftrightarrow> idb_get db (blobDirty_key bk) \<noteq> None" for bk
  proof -
    have "bk \<in> set bks \<longleftrightarrow> blobDirty_key bk \<in> set (idb_getAllKeysWithPrefix db ''blobDirty:'')"
      unfolding bks using inj by (auto simp: inj_def)
    also have "\<dots> \<longleftrightarrow> blobDirty_key bk \<in> set (map fst db)"
      by (simp add: idb_getAllKeysWithPrefix_def blobDirty_key_def)
    finally show ?thesis by (simp only: idb_keys_get)
  qed
  let ?db = "foldl (\<lambda>d bk. idb_delete (blobDirty_key bk) d) db (filter (flag_goes upload db) bks)"
  have run: "flushDirtyBlobs upload db = (List.map_filter (upload_of db) bks, ?db)"
    by (simp add: flushDirtyBlobs_def bks flush_blobs_run [OF d])
  have "stored_blob ?db bk = stored_blob db bk" for bk
    by (auto simp: stored_blob_def foldl_delete_get)
  moreover have "idb_get ?db (blobDirty_key bk)
      = (if flag_goes upload db bk then None else idb_get db (blobDirty_key bk))" for bk
    using mem [of bk] inj by (auto simp: foldl_delete_get inj_def image_def)
  moreover have "(blob_vault bk, blob_checksum bk, b) \<in> set (List.map_filter (upload_of db) bks)"
    if "idb_get db (blobDirty_key bk) \<noteq> None" "CHR ''/'' \<in> set bk" "stored_blob db bk = Some b" for bk b
    using that mem [of bk] by (force simp: List.map_filter_def upload_of_def)
  ultimately show ?thesis unfolding run by simp
qed

subsection \<open>Witnesses\<close>

definition demo_blob_key :: crypto_key where "demo_blob_key = AesKey (replicate 16 5) False"

lemma demo_meta_length:
  "length (encrypt demo_crypto (replicate 12 1) (meta_json ''image/png'' ''a.png'') demo_blob_key) < 4294967296"
proof -
  have "length (meta_json ''image/png'' ''a.png'') \<le> 2 * length (stringify (string_object
      [(''mimeType'', ''image/png''), (''filename'', ''a.png'')]))"
  proof -
    have "length (utf8_char c) \<le> 2" for c by (simp add: utf8_char_def Let_def)
    then have "length (text_encode s) \<le> 2 * length s" for s
      by (induction s) (auto simp: text_encode_def intro: add_mono order_trans)
    then show ?thesis by (simp only: meta_json_def)
  qed
  moreover have "length (stringify (string_object [(''mimeType'', ''image/png''), (''filename'', ''a.png'')])) = 43"
    by code_simp
  ultimately show ?thesis by (simp add: encrypt_def demo_crypto_def demo_blob_key_def)
qed

theorem blob_roundtrip_witness:
  "\<exists>checksum uploaded db1. storeBlob demo_crypto (replicate 12 1) (replicate 12 2) (True, True, True) ''v''
      [7, 8] ''image/png'' ''a.png'' demo_blob_key [] = (Inr (checksum, uploaded), db1) \<and>
    fst (loadBlobDecrypted demo_crypto (Some uploaded) [] ''v'' checksum demo_blob_key)
      = Inr (Some ([7, 8], \<lparr>bm_mimeType = ''image/png'', bm_filename = ''a.png'', bm_size = 2\<rparr>))"
proof -
  obtain checksum uploaded db1 where s: "storeBlob demo_crypto (replicate 12 1) (replicate 12 2) (True, True, True) ''v''
      [7, 8] ''image/png'' ''a.png'' demo_blob_key [] = (Inr (checksum, uploaded), db1)"
    by (simp add: storeBlob_def Let_def)
  from blob_roundtrip [OF demo_aead_law _ _ demo_meta_length s, of "[]"] s show ?thesis
    by auto
qed

theorem legacy_blob_misread_witness:
  "fst (loadBlobDecrypted demo_crypto None
      [(blob_key (blob_id ''v'' ''c''), VBytes (encrypt demo_crypto (2 # 9 # 9 # 9 # 9 # replicate 7 9) [1, 2, 3] demo_blob_key))]
      ''v'' ''c'' demo_blob_key) = Inl DecryptFailed"
proof -
  let ?iv = "2 # 9 # 9 # 9 # 9 # replicate 7 9 :: bytes"
  let ?db = "[(blob_key (blob_id ''v'' ''c''), VBytes (encrypt demo_crypto ?iv [1, 2, 3] demo_blob_key))]"
  have "\<forall>iv c. length c < 16 \<longrightarrow> aes_gcm_decrypt demo_crypto (key_raw demo_blob_key) iv c = None"
  proof (intro allI impI)
    fix iv c :: bytes
    assume "length c < 16"
    then have "take 16 c \<noteq> replicate 16 5" by (metis length_replicate nat_less_le take_all)
    then show "aes_gcm_decrypt demo_crypto (key_raw demo_blob_key) iv c = None"
      by (simp add: demo_crypto_def demo_blob_key_def)
  qed
  moreover have "length (encrypt demo_crypto ?iv [1, 2, 3] demo_blob_key) \<le> 5 + get_uint32 ?iv 1"
  proof -
    have "get_uint32 ?iv 1 = ((9 * 256 + 9) * 256 + 9) * 256 + 9"
      by (simp add: get_uint32_def nth_Cons')
    then show ?thesis by (simp add: encrypt_def demo_crypto_def demo_blob_key_def)
  qed
  moreover have "idb_get ?db (blob_key (blob_id ''v'' ''c''))
      = Some (VBytes (encrypt demo_crypto ?iv [1, 2, 3] demo_blob_key))"
    by (simp add: idb_get_def)
  ultimately show ?thesis
    using legacy_blob_misread [OF demo_aead_law, of ?iv demo_blob_key ?db "''v''" "''c''" "[1, 2, 3]" None
        "\<lparr>uc_cache = [], uc_objects = [], uc_next = 0\<rparr>"]
    by simp
qed

definition demo_blob_id :: string where "demo_blob_id = blob_id ''v'' ''c''"

theorem flush_uploads_dirty_blobs_witness:
  "idb_get (snd (flushDirtyBlobs (\<lambda>v c b. True) [(blobDirty_key demo_blob_id, VTrue)])) (blobDirty_key demo_blob_id)
     = None"
proof -
  have "idb_wf [(blobDirty_key demo_blob_id, VTrue)]" by (simp add: idb_wf_def)
  then have "idb_get (snd (flushDirtyBlobs (\<lambda>v c b. True) [(blobDirty_key demo_blob_id, VTrue)])) (blobDirty_key demo_blob_id)
      = (if flag_goes (\<lambda>v c b. True) [(blobDirty_key demo_blob_id, VTrue)] demo_blob_id then None
         else idb_get [(blobDirty_key demo_blob_id, VTrue)] (blobDirty_key demo_blob_id))"
    using flush_uploads_dirty_blobs [of "[(blobDirty_key demo_blob_id, VTrue)]" "\<lambda>v c b. True"]
    by (simp only: Let_def case_prod_beta)
  moreover have "CHR ''/'' \<in> set demo_blob_id" by (simp add: demo_blob_id_def blob_id_def)
  ultimately show ?thesis by (simp add: flag_goes_def stored_blob_def idb_get_def)
qed

end
