(* ===== verification/Js_Text.thy ===== *)
theory Js_Text
  imports Prelude
begin

text \<open>
  Text operations of JavaScript that the recipe formats use: replacing, cutting and scanning with the
  regular expressions of the sources, each written as the function it computes on code units below 256.
\<close>

definition NL :: char where "NL = CHR 0x0A"
definition CR :: char where "CR = CHR 0x0D"
definition DQ :: char where "DQ = CHR 0x22"

definition is_digit :: "char \<Rightarrow> bool" where
  "is_digit c \<longleftrightarrow> 48 \<le> (of_char c :: nat) \<and> (of_char c :: nat) \<le> 57"

text \<open>\<^verbatim>\<open>\w\<close>\<close>

definition is_word :: "char \<Rightarrow> bool" where
  "is_word c \<longleftrightarrow> is_digit c \<or> c = CHR ''_'' \<or> (65 \<le> (of_char c :: nat) \<and> (of_char c :: nat) \<le> 90)
     \<or> (97 \<le> (of_char c :: nat) \<and> (of_char c :: nat) \<le> 122)"

text \<open>The text before and after the first occurrence of a pattern.\<close>

fun cut_at :: "string \<Rightarrow> string \<Rightarrow> (string \<times> string) option" where
  "cut_at pat [] = (if pat = [] then Some ([], []) else None)"
| "cut_at pat (c # cs) =
     (if prefix pat (c # cs) then Some ([], drop (length pat) (c # cs))
      else map_option (\<lambda>(a, b). (c # a, b)) (cut_at pat cs))"

text \<open>Replacing every occurrence of a non-empty pattern, from the left.\<close>

function replace_all :: "string \<Rightarrow> string \<Rightarrow> string \<Rightarrow> string" where
  "replace_all pat new s =
     (case s of
        [] \<Rightarrow> []
      | c # cs \<Rightarrow> if pat \<noteq> [] \<and> prefix pat s then new @ replace_all pat new (drop (length pat) s)
                   else c # replace_all pat new cs)"
  by pat_completeness auto
termination by (relation "measure (\<lambda>(pat, new, s). length s)") auto

declare replace_all.simps [simp del]

lemma replace_all_Nil [simp]: "replace_all pat new [] = []"
  by (simp add: replace_all.simps)

lemma replace_all_Cons:
  "replace_all pat new (c # cs) =
     (if pat \<noteq> [] \<and> prefix pat (c # cs) then new @ replace_all pat new (drop (length pat) (c # cs))
      else c # replace_all pat new cs)"
  by (subst replace_all.simps) simp

lemma replace_all_absent: "c \<notin> set s \<Longrightarrow> replace_all (c # pat) new s = s"
  by (induction s) (auto simp: replace_all_Cons)

text \<open>\<^verbatim>\<open>split(/\s+/)\<close>\<close>

function split_white :: "string \<Rightarrow> string list" where
  "split_white s =
     (case dropWhile (\<lambda>c. \<not> js_space c) s of
        [] \<Rightarrow> [s]
      | _ # r \<Rightarrow> takeWhile (\<lambda>c. \<not> js_space c) s # split_white (dropWhile js_space r))"
  by pat_completeness auto
termination
proof (relation "measure length", simp)
  fix s r :: string and c :: char
  assume "dropWhile (\<lambda>c. \<not> js_space c) s = c # r"
  then have "Suc (length r) \<le> length s" by (metis length_Cons length_dropWhile_le)
  with length_dropWhile_le [of js_space r] show "(dropWhile js_space r, s) \<in> measure length" by simp
qed

declare split_white.simps [simp del]

text \<open>\<^verbatim>\<open>parseInt\<close>: white space, a sign, a hexadecimal prefix, then the digits there are; no digit is \<^verbatim>\<open>NaN\<close>.\<close>

definition digit_val :: "char \<Rightarrow> nat" where
  "digit_val c =
     (let n = (of_char c :: nat) in
      if 97 \<le> n then n - 87 else if 65 \<le> n then n - 55 else n - 48)"

definition is_hex :: "char \<Rightarrow> bool" where
  "is_hex c \<longleftrightarrow> is_digit c \<or> (65 \<le> (of_char c :: nat) \<and> (of_char c :: nat) \<le> 70)
     \<or> (97 \<le> (of_char c :: nat) \<and> (of_char c :: nat) \<le> 102)"

definition digits_value :: "nat \<Rightarrow> string \<Rightarrow> nat" where
  "digits_value b ds = foldl (\<lambda>n c. n * b + digit_val c) 0 ds"

definition parseInt :: "string \<Rightarrow> int option" where
  "parseInt s =
     (let s1 = dropWhile js_space s;
          (neg, s2) = (case s1 of c # r \<Rightarrow> if c = CHR ''-'' then (True, r) else if c = CHR ''+'' then (False, r) else (False, s1)
                       | [] \<Rightarrow> (False, s1));
          (b, ds) = (if prefix ''0x'' s2 \<or> prefix ''0X'' s2 then (16, takeWhile is_hex (drop 2 s2))
                     else (10, takeWhile is_digit s2))
      in if ds = [] then None
         else Some (if neg then - int (digits_value b ds) else int (digits_value b ds)))"

text \<open>\<^verbatim>\<open>String\<close> of an integer\<close>

definition int_to_string :: "int \<Rightarrow> string" where
  "int_to_string i = (if i < 0 then ''-'' @ nat_to_string (nat (- i)) else nat_to_string (nat i))"

subsection \<open>Lemmas\<close>

lemma of_char_48 [simp]: "n < 10 \<Longrightarrow> (of_char (char_of (48 + n) :: char) :: nat) = 48 + n"
  by (simp add: of_char_of)

lemma nat_digits: "list_all is_digit (nat_to_string n) \<and> nat_to_string n \<noteq> []"
proof (induction n rule: nat_to_string.induct)
  case (1 n)
  show ?case
  proof (cases "n < 10")
    case True
    then show ?thesis by (subst (1 2) nat_to_string.simps) (simp add: is_digit_def of_char_of)
  next
    case False
    have "n mod 10 < 10" by simp
    then have "is_digit (char_of (48 + n mod 10))" by (simp add: is_digit_def of_char_of)
    with "1.IH" False show ?thesis by (subst (1 2) nat_to_string.simps) simp
  qed
qed

lemma digit_val_char: "n < 10 \<Longrightarrow> digit_val (char_of (48 + n)) = n"
  by (simp add: digit_val_def Let_def of_char_of)

lemma digits_value_print: "digits_value 10 (nat_to_string n) = n"
proof (induction n rule: nat_to_string.induct)
  case (1 n)
  show ?case
  proof (cases "n < 10")
    case True
    then show ?thesis by (subst nat_to_string.simps) (simp add: digits_value_def digit_val_char)
  next
    case False
    with "1.IH" show ?thesis
      by (subst nat_to_string.simps) (simp add: digits_value_def digit_val_char)
  qed
qed

lemma nat_to_string_inject: "nat_to_string m = nat_to_string n \<Longrightarrow> m = n"
  by (metis digits_value_print)

lemma digit_no_space: "is_digit c \<Longrightarrow> \<not> js_space c \<and> c \<noteq> CHR ''-'' \<and> c \<noteq> CHR ''+'' \<and> c \<noteq> CHR ''x'' \<and> c \<noteq> CHR ''X''"
  by (auto simp: is_digit_def js_space_def)

lemma parseInt_print: "parseInt (nat_to_string n) = Some (int n)"
proof -
  obtain c cs where s: "nat_to_string n = c # cs" using nat_digits [of n] by (cases "nat_to_string n") auto
  have d: "is_digit c" "\<forall>x \<in> set cs. is_digit x" using nat_digits [of n] by (auto simp: s list_all_iff)
  have p: "\<not> prefix ''x'' cs" "\<not> prefix ''X'' cs"
    using d(2) digit_no_space by (cases cs; auto)+
  have t: "takeWhile is_digit (c # cs) = c # cs" using d by (simp add: takeWhile_eq_all_conv)
  have v: "digits_value 10 (c # cs) = n" using digits_value_print [of n] by (simp add: s)
  have "\<not> prefix ''0x'' (c # cs)" "\<not> prefix ''0X'' (c # cs)" using p by auto
  with digit_no_space [OF d(1)] t v show ?thesis
    by (simp only: parseInt_def s Let_def dropWhile.simps list.case if_False prod.case) simp
qed

lemma parseInt_negative: "parseInt (''-'' @ nat_to_string n) = Some (- int n)"
proof -
  obtain c cs where s: "nat_to_string n = c # cs" using nat_digits [of n] by (cases "nat_to_string n") auto
  have d: "is_digit c" "\<forall>x \<in> set cs. is_digit x" using nat_digits [of n] by (auto simp: s list_all_iff)
  have p: "\<not> prefix ''x'' cs" "\<not> prefix ''X'' cs"
    using d(2) digit_no_space by (cases cs; auto)+
  have t: "takeWhile is_digit (c # cs) = c # cs" using d by (simp add: takeWhile_eq_all_conv)
  have v: "digits_value 10 (c # cs) = n" using digits_value_print [of n] by (simp add: s)
  have "\<not> prefix ''0x'' (c # cs)" "\<not> prefix ''0X'' (c # cs)" using p by auto
  moreover have "js_space (CHR ''-'') = False" by (simp add: js_space_def)
  ultimately show ?thesis using t v p
    by (simp only: parseInt_def s Let_def append.simps dropWhile.simps list.case if_False if_True prod.case) simp
qed

lemma parseInt_int: "parseInt (int_to_string i) = Some i"
  using parseInt_negative [of "nat (- i)"] parseInt_print [of "nat i"] by (simp add: int_to_string_def)

definition trimmed :: "string \<Rightarrow> bool" where
  "trimmed s \<longleftrightarrow> s = [] \<or> (\<not> js_space (hd s) \<and> \<not> js_space (last s))"

lemma dropWhile_hd: "s \<noteq> [] \<Longrightarrow> \<not> P (hd s) \<Longrightarrow> dropWhile P s = s"
  by (cases s) auto

lemma trim_id: "trimmed s \<Longrightarrow> js_trim s = s"
  by (cases "s = []") (simp_all add: js_trim_def trimmed_def dropWhile_hd hd_rev)

lemma trimmed_trim [simp]: "trimmed (js_trim s)"
proof (cases "js_trim s = []")
  case False
  define d where "d = dropWhile js_space s"
  define e where "e = dropWhile js_space (rev d)"
  have t: "js_trim s = rev e" by (simp add: js_trim_def d_def e_def)
  with False have ne: "e \<noteq> []" by simp
  then have "\<not> js_space (hd e)" by (simp add: e_def hd_dropWhile)
  moreover have "rev d = takeWhile js_space (rev d) @ e" by (simp add: e_def)
  then have "last (rev d) = last e" using ne by (metis last_appendR)
  moreover have "d \<noteq> []" using ne by (auto simp: e_def)
  then have "\<not> js_space (hd d)" by (simp add: d_def hd_dropWhile)
  moreover have "last (rev d) = hd d" using \<open>d \<noteq> []\<close> by (simp add: last_rev)
  ultimately show ?thesis by (simp add: t trimmed_def hd_rev last_rev)
qed (simp add: trimmed_def)

lemma trim_trim [simp]: "js_trim (js_trim s) = js_trim s"
  by (simp add: trim_id)

lemma trim_fixed: "js_trim s = s \<longleftrightarrow> trimmed s"
  using trim_id trimmed_trim by metis

text \<open>White space around a text goes.\<close>

lemma trim_around:
  assumes "list_all js_space a" "list_all js_space b" "trimmed s"
  shows "js_trim (a @ s @ b) = s"
proof (cases "s = []")
  case True
  have "dropWhile js_space (a @ b) = []" using assms(1,2) by (auto simp: list_all_iff dropWhile_eq_Nil_conv)
  with True show ?thesis by (auto simp: js_trim_def dropWhile_eq_Nil_conv dest: set_dropWhileD)
next
  case False
  have "dropWhile js_space (a @ s @ b) = dropWhile js_space (s @ b)"
    using assms(1) by (induction a) simp_all
  also have "\<dots> = s @ b" using assms(3) False by (intro dropWhile_hd) (auto simp: trimmed_def)
  finally have 1: "dropWhile js_space (a @ s @ b) = s @ b" .
  have "dropWhile js_space (rev b @ rev s) = dropWhile js_space (rev s)"
  proof -
    have "list_all js_space (rev b)" using assms(2) by simp
    then show ?thesis by (intro dropWhile_append2) (simp add: list_all_iff)
  qed
  also have "\<dots> = rev s" using assms(3) False by (intro dropWhile_hd) (auto simp: trimmed_def hd_rev)
  finally show ?thesis by (simp add: js_trim_def 1)
qed

text \<open>A run of digits, and a scan over one\<close>

definition digits :: "string \<Rightarrow> bool" where
  "digits s \<longleftrightarrow> s \<noteq> [] \<and> list_all is_digit s"

lemma take_digits: "digits n \<Longrightarrow> r = [] \<or> \<not> is_digit (hd r) \<Longrightarrow> takeWhile is_digit (n @ r) = n"
proof -
  assume "digits n" and r: "r = [] \<or> \<not> is_digit (hd r)"
  then have "\<And>c. c \<in> set n \<Longrightarrow> is_digit c" by (simp add: digits_def list_all_iff)
  moreover have "takeWhile is_digit r = []" using r by (cases r) auto
  ultimately show ?thesis by (simp add: takeWhile_append2)
qed

lemma sep_not_digit [simp]: "\<not> is_digit (CHR '' '')" "\<not> is_digit (CHR ''.'')" "\<not> is_digit (CHR ''/'')"
  by (simp_all add: is_digit_def)

lemma sep_space [simp]: "js_space (CHR '' '')" "\<not> js_space (CHR ''.'')" "\<not> js_space (CHR ''/'')"
  by (simp_all add: js_space_def)

lemma digits_hd: "digits n \<Longrightarrow> n \<noteq> [] \<and> is_digit (hd n) \<and> \<not> js_space (hd n)"
  using digit_no_space by (cases n) (auto simp: digits_def)

lemma digits_last: "digits n \<Longrightarrow> \<not> js_space (last n)"
  using digit_no_space last_in_set by (auto simp: digits_def list_all_iff)

end
