(* ===== verification/Search.thy ===== *)
theory Search
  imports Js_Text "HOL-Library.Sublist"
begin

text \<open>
  \<^verbatim>\<open>lib/search.ts\<close>: the fuzzy score of a token against a text, the index of recipes and the two searches
  over it. A text is scanned by structural recursion over what is left of it; \<open>p\<close> is the pattern, \<open>t\<close>
  the text. The results of the vector search are an argument of \<open>hybridSearch\<close>.
\<close>

subsection \<open>Scoring\<close>

definition SCORE_MATCH :: int where "SCORE_MATCH = 16"
definition SCORE_GAP_START :: int where "SCORE_GAP_START = - 3"
definition SCORE_GAP_EXTENSION :: int where "SCORE_GAP_EXTENSION = - 1"
definition BONUS_BOUNDARY :: int where "BONUS_BOUNDARY = 8"
definition BONUS_BOUNDARY_WHITE :: int where "BONUS_BOUNDARY_WHITE = 10"
definition BONUS_BOUNDARY_DELIMITER :: int where "BONUS_BOUNDARY_DELIMITER = 9"
definition BONUS_CAMEL_123 :: int where "BONUS_CAMEL_123 = 7"
definition BONUS_CONSECUTIVE :: int where "BONUS_CONSECUTIVE = 4"
definition BONUS_NON_WORD :: int where "BONUS_NON_WORD = 8"
definition BONUS_FIRST_CHAR_MULTIPLIER :: int where "BONUS_FIRST_CHAR_MULTIPLIER = 2"

datatype char_class = CH_WHITE | CH_NON_WORD | CH_DELIM | CH_LOWER | CH_UPPER | CH_NUMBER

definition charClass :: "char \<Rightarrow> char_class" where
  "charClass c =
     (if c \<in> {CHR '' '', CHR 0x09, CHR 0x0A, CHR 0x0D} then CH_WHITE
      else if CHR ''a'' \<le> c \<and> c \<le> CHR ''z'' then CH_LOWER
      else if CHR ''A'' \<le> c \<and> c \<le> CHR ''Z'' then CH_UPPER
      else if CHR ''0'' \<le> c \<and> c \<le> CHR ''9'' then CH_NUMBER
      else if c \<in> set '',;:|/'' then CH_DELIM
      else CH_NON_WORD)"

definition bonusFor :: "char_class \<Rightarrow> char_class \<Rightarrow> int" where
  "bonusFor prevClass curClass =
     (if curClass = CH_WHITE then BONUS_BOUNDARY_WHITE
      else if curClass = CH_NON_WORD \<or> curClass = CH_DELIM then BONUS_NON_WORD
      else if prevClass = CH_WHITE then BONUS_BOUNDARY_WHITE
      else if prevClass = CH_DELIM then BONUS_BOUNDARY_DELIMITER
      else if prevClass = CH_NON_WORD then BONUS_BOUNDARY
      else if prevClass = CH_LOWER \<and> curClass = CH_UPPER then BONUS_CAMEL_123
      else if prevClass \<noteq> CH_NUMBER \<and> curClass = CH_NUMBER then BONUS_CAMEL_123
      else 0)"

text \<open>The forward pass from position \<open>ti\<close>, with the pattern index, start and end so far. The start and
  the end are set when the first and the last character of the pattern are found; they are 0 before,
  where the source has -1, and are not read then.\<close>

fun fzf_forward :: "string \<Rightarrow> string \<Rightarrow> nat \<Rightarrow> nat \<times> nat \<times> nat \<Rightarrow> nat \<times> nat \<times> nat" where
  "fzf_forward p [] ti st = st"
| "fzf_forward p (c # cs) ti (pi, startIdx, endIdx) =
     (if length p \<le> pi then (pi, startIdx, endIdx)
      else if js_lower_char c = p ! pi
           then fzf_forward p cs (Suc ti)
                  (Suc pi, if pi = 0 then ti else startIdx, if Suc pi = length p then Suc ti else endIdx)
           else fzf_forward p cs (Suc ti) (pi, startIdx, endIdx))"

text \<open>The backward pass: \<open>k\<close> is one more than the position, \<open>n\<close> the number of pattern characters left
  (one more than the pattern index). The result is the new start.\<close>

fun fzf_backward :: "string \<Rightarrow> string \<Rightarrow> nat \<Rightarrow> nat \<Rightarrow> nat \<Rightarrow> nat" where
  "fzf_backward p t startIdx 0 n = startIdx"
| "fzf_backward p t startIdx (Suc ti) n =
     (if ti < startIdx \<or> n = 0 then startIdx
      else if js_lower_char (t ! ti) = p ! (n - 1)
           then (if n = 1 then ti else fzf_backward p t startIdx ti (n - 1))
           else fzf_backward p t startIdx ti n)"

record score_state =
  sco_score :: int
  sco_consecutive :: nat
  sco_firstBonus :: int
  sco_gapLen :: nat
  sco_prevClass :: char_class
  sco_pi :: nat

definition score_matched :: "char_class \<Rightarrow> score_state \<Rightarrow> score_state" where
  "score_matched curClass s =
     (let bonus = bonusFor (sco_prevClass s) curClass;
          (gain, fb) =
            (if sco_pi s = 0 then (bonus * BONUS_FIRST_CHAR_MULTIPLIER, bonus)
             else if 0 < sco_consecutive s
                  then (max bonus (max BONUS_CONSECUTIVE (sco_firstBonus s)), sco_firstBonus s)
                  else (bonus, bonus))
      in \<lparr>sco_score = sco_score s + SCORE_MATCH + gain,
          sco_consecutive = Suc (sco_consecutive s),
          sco_firstBonus = (if sco_consecutive s = 0 \<or> fb < bonus then bonus else fb),
          sco_gapLen = 0, sco_prevClass = curClass, sco_pi = Suc (sco_pi s)\<rparr>)"

definition score_gap :: "char_class \<Rightarrow> score_state \<Rightarrow> score_state" where
  "score_gap curClass s =
     s\<lparr>sco_gapLen := Suc (sco_gapLen s),
       sco_score := sco_score s + (if 0 < sco_consecutive s then SCORE_GAP_START else SCORE_GAP_EXTENSION),
       sco_consecutive := 0, sco_prevClass := curClass\<rparr>"

definition maxGap :: nat where "maxGap = 16"

text \<open>The scoring loop over the match region; \<open>None\<close> is the early return of 0 at a large gap.\<close>

fun score_loop :: "string \<Rightarrow> string \<Rightarrow> score_state \<Rightarrow> score_state option" where
  "score_loop p [] s = Some s"
| "score_loop p (c # cs) s =
     (if length p \<le> sco_pi s then Some s
      else if js_lower_char c = p ! sco_pi s
           then (if 0 < sco_pi s \<and> maxGap < sco_gapLen s then None
                 else score_loop p cs (score_matched (charClass c) s))
           else score_loop p cs (score_gap (charClass c) s))"

definition score_region :: "string \<Rightarrow> string \<Rightarrow> nat \<Rightarrow> nat \<Rightarrow> int" where
  "score_region p t startIdx endIdx =
     (case score_loop p (take (endIdx - startIdx) (drop startIdx t))
             \<lparr>sco_score = 0, sco_consecutive = 0, sco_firstBonus = 0, sco_gapLen = 0,
              sco_prevClass = (if 0 < startIdx then charClass (t ! (startIdx - 1)) else CH_WHITE), sco_pi = 0\<rparr> of
        None \<Rightarrow> 0
      | Some s \<Rightarrow> max (sco_score s) 0)"

definition fzfScore :: "string \<Rightarrow> string \<Rightarrow> int" where
  "fzfScore pattern t =
     (if pattern = [] then 0
      else if length t < length pattern then 0
      else case fzf_forward pattern t 0 (0, 0, 0) of
             (pi, start0, endIdx) \<Rightarrow>
               if pi < length pattern then 0
               else let startIdx = fzf_backward pattern t start0 endIdx (length pattern)
                    in if length pattern * 8 < endIdx - startIdx then 0
                       else score_region pattern t startIdx endIdx)"

subsection \<open>The index\<close>

record search_entry =
  se_recipeId :: string
  se_vaultId :: string
  se_bookName :: string
  se_title :: string
  se_tags :: "string list"

type_synonym search_index = "(string \<times> search_entry) list"

definition entry_key :: "string \<Rightarrow> string \<Rightarrow> string" where
  "entry_key vaultId recipeId = vaultId @ ''/'' @ recipeId"

definition indexRecipe :: "search_entry \<Rightarrow> search_index \<Rightarrow> search_index" where
  "indexRecipe e ix = map_set (entry_key (se_vaultId e) (se_recipeId e)) e ix"

definition removeBookFromIndex :: "string \<Rightarrow> search_index \<Rightarrow> search_index" where
  "removeBookFromIndex vaultId ix = filter (\<lambda>(k, e). \<not> prefix (vaultId @ ''/'') k) ix"

definition clearIndex :: "search_index \<Rightarrow> search_index" where "clearIndex ix = []"

definition getIndexSize :: "search_index \<Rightarrow> nat" where "getIndexSize ix = length ix"

subsection \<open>Searching\<close>

datatype match_field = FTitle | FTag string | FBook

record search_result =
  sr_entry :: search_entry
  sr_score :: int
  sr_field :: match_field

text \<open>The best score of a token and the field it comes from (a tag match carries the tag). The source
  keeps the tag of an earlier, weaker match when the book's name wins; it is not read then.\<close>

definition scoreToken :: "string \<Rightarrow> search_entry \<Rightarrow> int \<times> match_field" where
  "scoreToken token e =
     (let titleScore = fzfScore token (se_title e) * 4;
          b0 = (if 0 < titleScore then (titleScore, FTitle) else (0, FTitle));
          b1 = foldl (\<lambda>b t. let s = fzfScore token t * 3 in if fst b < s then (s, FTag t) else b) b0 (se_tags e);
          bookScore = fzfScore token (se_bookName e)
      in if fst b1 < bookScore then (bookScore, FBook) else b1)"

definition query_tokens :: "string \<Rightarrow> string list" where
  "query_tokens query = filter (\<lambda>t. t \<noteq> []) (split_white (js_lower query))"

definition best_token :: "string list \<Rightarrow> search_entry \<Rightarrow> int \<times> int \<times> match_field" where
  "best_token tokens e =
     foldl (\<lambda>(tot, best, field) token.
              case scoreToken token e of (s, f) \<Rightarrow>
                (tot + s, if best < s then (s, f) else (best, field)))
       (0, 0, FTitle) tokens"

definition score_entry :: "string list \<Rightarrow> search_entry \<Rightarrow> search_result option" where
  "score_entry tokens e =
     (case best_token tokens e of
        (tot, _, field) \<Rightarrow>
          let (tot', field') =
                (if 1 < length tokens \<and> 0 < tot
                 then (case scoreToken (join '' '' tokens) e of
                         (ps, f) \<Rightarrow> if 0 < ps then (tot + ps, f) else (tot, field))
                 else (tot, field))
          in if 0 < tot' then Some \<lparr>sr_entry = e, sr_score = tot', sr_field = field'\<rparr> else None)"

definition search_all :: "string \<Rightarrow> search_index \<Rightarrow> search_result list" where
  "search_all query ix =
     (let tokens = query_tokens query
      in if tokens = [] then []
         else sort_key (\<lambda>r. - sr_score r) (List.map_filter (score_entry tokens) (map snd ix)))"

definition search :: "string \<Rightarrow> nat \<Rightarrow> search_index \<Rightarrow> search_result list" where
  "search query limit ix = (if query = [] then [] else take limit (search_all query ix))"

text \<open>\<open>hits\<close> are the keys the vector search returns, \<open>None\<close> when it throws.\<close>

definition vector_result :: "string list \<Rightarrow> search_index \<Rightarrow> string \<Rightarrow> search_result option" where
  "vector_result tokens ix key =
     map_option (\<lambda>e. \<lparr>sr_entry = e, sr_score = 0, sr_field = snd (snd (best_token tokens e))\<rparr>) (map_get ix key)"

definition hybridSearch ::
  "bool \<Rightarrow> string list option \<Rightarrow> string \<Rightarrow> nat \<Rightarrow> search_index \<Rightarrow> search_result list" where
  "hybridSearch ready hits query limit ix =
     (if \<not> ready then search query limit ix
      else case hits of
             None \<Rightarrow> search query limit ix
           | Some keys \<Rightarrow>
               if keys = [] then search query limit ix
               else List.map_filter (vector_result (query_tokens query) ix) keys)"

subsection \<open>What a match means\<close>

text \<open>Where the forward pass ends: the pattern lies between the start and the end it reports.\<close>

lemma fzf_forward_region:
  assumes "fzf_forward p (drop ti t) ti (pi, s, e) = (length p, s', e')" "pi < length p" "ti \<le> length t"
  shows "ti < e' \<and> e' \<le> length t \<and> subseq (drop pi p) (map js_lower_char (take (e' - ti) (drop ti t)))
    \<and> (if pi = 0 then ti \<le> s' \<and> s' < e' else s' = s)
    \<and> (pi = 0 \<longrightarrow> subseq p (map js_lower_char (take (e' - s') (drop s' t))))"
  using assms
proof (induction "drop ti t" arbitrary: ti pi s e)
  case (Cons c cs)
  then have ti: "ti < length t" by (metis drop_all list.distinct(1) not_le)
  then have t: "drop ti t = t ! ti # drop (Suc ti) t" by (simp add: Cons_nth_drop_Suc)
  with Cons.hyps(2) have c: "c = t ! ti" "cs = drop (Suc ti) t" by simp_all
  have p: "drop pi p = p ! pi # drop (Suc pi) p" using Cons.prems(2) by (simp add: Cons_nth_drop_Suc)
  have tk: "ti < k \<Longrightarrow> take (k - ti) (drop ti t) = t ! ti # take (k - Suc ti) (drop (Suc ti) t)" for k
    by (simp add: t Suc_diff_Suc [symmetric] del: diff_Suc_Suc)
  show ?case
  proof (cases "js_lower_char c = p ! pi")
    case m: True
    show ?thesis
    proof (cases "Suc pi = length p")
      case True
      have "fzf_forward p (drop (Suc ti) t) (Suc ti) (length p, (if pi = 0 then ti else s), Suc ti)
          = (length p, s', e')"
        using Cons.prems(1,2) m True by (simp add: t c)
      moreover have "fzf_forward p xs k (length p, y) = (length p, y)" for xs k y
        by (cases xs; cases y) simp_all
      ultimately have e: "e' = Suc ti" "s' = (if pi = 0 then ti else s)" by simp_all
      have "drop pi p = [p ! pi]" using p True by simp
      moreover have "pi = 0 \<Longrightarrow> p = [p ! 0]" using True by (cases p) auto
      ultimately show ?thesis using e ti m by (auto simp: t c)
    next
      case False
      with Cons.prems(2) have l: "Suc pi < length p" by simp
      have f: "fzf_forward p (drop (Suc ti) t) (Suc ti) (Suc pi, (if pi = 0 then ti else s), e) = (length p, s', e')"
        using Cons.prems(1,2) m False by (simp add: t c)
      have r: "Suc ti < e' \<and> e' \<le> length t
          \<and> subseq (drop (Suc pi) p) (map js_lower_char (take (e' - Suc ti) (drop (Suc ti) t)))
          \<and> s' = (if pi = 0 then ti else s)"
        using Cons.hyps(1) [OF c(2) f l] ti by simp
      then have "subseq (drop pi p) (map js_lower_char (take (e' - ti) (drop ti t)))"
        using m by (simp add: tk p c)
      with r show ?thesis by auto
    qed
  next
    case False
    then have f: "fzf_forward p (drop (Suc ti) t) (Suc ti) (pi, s, e) = (length p, s', e')"
      using Cons.prems(1,2) by (simp add: t c)
    from Cons.hyps(1) [OF c(2) f Cons.prems(2)] ti show ?thesis
      by (auto simp: tk)
  qed
qed auto

lemma subseq_snoc_skip:
  assumes "subseq (xs @ [a]) (ys @ [b])" "a \<noteq> b"
  shows "subseq (xs @ [a]) ys"
proof -
  from assms(1) obtain us vs where uv: "xs @ [a] = us @ vs" "subseq us ys" "subseq vs [b]"
    by (auto simp: subseq_append_iff)
  from uv(3) have "vs = [] \<or> vs = [b]" by (cases vs) (auto split: if_splits elim: list_emb.cases)
  with uv assms(2) show ?thesis by auto
qed

lemma fzf_backward_region:
  assumes "subseq (take n p) (map js_lower_char (take (k - s0) (drop s0 t)))" "s0 \<le> k" "k \<le> length t" "n \<le> length p"
  shows "let s = fzf_backward p t s0 k n in
    s0 \<le> s \<and> s \<le> k \<and> subseq (take n p) (map js_lower_char (take (k - s) (drop s t)))"
  using assms
proof (induction p t s0 k n rule: fzf_backward.induct)
  case (2 p t s0 ti n)
  show ?case
  proof (cases "ti < s0 \<or> n = 0")
    case False
    then have s: "s0 \<le> ti" and n: "0 < n" by auto
    have snoc: "take (Suc ti - s) (drop s t) = take (ti - s) (drop s t) @ [t ! ti]" if "s \<le> ti" for s
      using that 2(5) by (simp add: Suc_diff_le take_Suc_conv_app_nth)
    have tn: "take n p = take (n - 1) p @ [p ! (n - 1)]"
      using n 2(6) by (cases n) (simp_all add: take_Suc_conv_app_nth)
    show ?thesis
    proof (cases "js_lower_char (t ! ti) = p ! (n - 1)")
      case m: True
      show ?thesis
      proof (cases "n = 1")
        case True
        then have "take n p = [js_lower_char (t ! ti)]" using tn m by simp
        moreover have "take (Suc 0) (drop ti t) = [t ! ti]" using 2(5) by (simp flip: Cons_nth_drop_Suc)
        ultimately show ?thesis using False True m s by (simp add: Let_def)
      next
        case n1: False
        have "subseq (take (n - 1) p) (map js_lower_char (take (ti - s0) (drop s0 t)))"
          using 2(3) m unfolding snoc [OF s] tn by simp
        from "2.IH"(1) [OF False m n1 this s] 2(5,6) False m n1 s
        show ?thesis by (auto simp: Let_def snoc tn intro: le_SucI)
      qed
    next
      case m: False
      have "subseq (take n p) (map js_lower_char (take (ti - s0) (drop s0 t)))"
        using 2(3) m unfolding snoc [OF s] tn
        by (auto dest: subseq_snoc_skip)
      from "2.IH"(2) [OF False m this s] 2(5,6) False m s
      show ?thesis by (auto simp: Let_def snoc)
    qed
  qed (use 2 in \<open>auto simp: Let_def\<close>)
qed simp

lemma fzf_forward_le:
  "pi \<le> length p \<Longrightarrow> fst (fzf_forward p cs ti (pi, s, e)) \<le> length p"
  by (induction cs arbitrary: ti pi s e) auto

lemma sublist_take_drop_map: "sublist (map f (take n (drop k xs))) (map f xs)"
  by (intro map_mono_sublist) (meson sublist_take sublist_drop sublist_order.order_trans)

lemma fzf_window:
  assumes "0 < fzfScore p t"
  obtains w where "sublist w (js_lower t)" "length w \<le> 8 * length p" "subseq p w"
proof -
  obtain pi s0 e where f: "fzf_forward p t 0 (0, 0, 0) = (pi, s0, e)" by (cases "fzf_forward p t 0 (0, 0, 0)")
  define s where "s = fzf_backward p t s0 e (length p)"
  have pi: "length p \<le> pi" and p: "p \<noteq> []" and span: "e - s \<le> length p * 8"
    using assms by (auto simp: fzfScore_def f s_def Let_def split: if_splits)
  have "pi \<le> length p"
    using fzf_forward_le [where p = p and pi = 0 and cs = t and ti = 0 and s = 0 and e = 0] f by simp
  with pi f p have r: "s0 < e" "e \<le> length t" "subseq p (map js_lower_char (take (e - s0) (drop s0 t)))"
    using fzf_forward_region [where p = p and ti = 0 and t = t and pi = 0 and s = 0 and e = 0] by auto
  then have "subseq p (map js_lower_char (take (e - s) (drop s t)))"
    using fzf_backward_region [of "length p" p e s0 t] by (simp add: Let_def s_def)
  moreover have "sublist (map js_lower_char (take (e - s) (drop s t))) (js_lower t)"
    by (simp add: js_lower_def sublist_take_drop_map)
  ultimately show ?thesis using span r(2) by (intro that) auto
qed

text \<open>A text that scores matches: the token's characters occur in it in order (ignoring the case of
  letters), within a window of at most eight times the token's length.\<close>

theorem fzf_match_is_a_subsequence:
  assumes "0 < fzfScore token t"
  shows "\<exists>w. sublist w (js_lower t) \<and> length w \<le> 8 * length token \<and> subseq token w"
  using fzf_window [OF assms] by blast

subsection \<open>A text that begins with the token\<close>

lemma bonusFor_nonneg: "0 \<le> bonusFor a b"
  by (simp add: bonusFor_def BONUS_BOUNDARY_WHITE_def BONUS_NON_WORD_def BONUS_BOUNDARY_DELIMITER_def
      BONUS_BOUNDARY_def BONUS_CAMEL_123_def)

lemma score_matched_gain: "sco_score s + 16 \<le> sco_score (score_matched k s)"
  using bonusFor_nonneg [of "sco_prevClass s" k]
  by (simp add: score_matched_def Let_def SCORE_MATCH_def BONUS_FIRST_CHAR_MULTIPLIER_def BONUS_CONSECUTIVE_def
      le_max_iff_disj)

lemma score_matched_simps [simp]:
  "sco_pi (score_matched k s) = Suc (sco_pi s)" "sco_gapLen (score_matched k s) = 0"
  by (simp_all add: score_matched_def Let_def split: prod.split)

lemma prefix_nth_lower: "prefix p (js_lower t) \<Longrightarrow> i < length p \<Longrightarrow> i < length t \<and> js_lower_char (t ! i) = p ! i"
  by (auto simp: js_lower_def prefix_def) (metis length_append length_map nth_append nth_map trans_less_add1)+

lemma fzf_forward_prefix:
  assumes "prefix p (js_lower t)" "i < length p"
  shows "fzf_forward p (drop i t) i (i, 0, 0) = (length p, 0, length p)"
  using assms(2)
proof (induction "length p - i" arbitrary: i)
  case (Suc n)
  from prefix_nth_lower [OF assms(1) Suc.prems] have t: "drop i t = t ! i # drop (Suc i) t" "js_lower_char (t ! i) = p ! i"
    by (simp_all add: Cons_nth_drop_Suc)
  show ?case
  proof (cases "Suc i = length p")
    case True
    have "fzf_forward p cs k (length p, 0, length p) = (length p, 0, length p)" for cs k by (cases cs) simp_all
    then show ?thesis using t Suc.prems True by (simp add: t)
  next
    case False
    with Suc.prems have "Suc i < length p" by simp
    with Suc.hyps(1) [of "Suc i"] Suc.hyps(2) t(2) False Suc.prems show ?thesis
      unfolding t(1) by (cases "i = 0") simp_all
  qed
qed simp

lemma fzf_backward_prefix:
  "prefix p (js_lower t) \<Longrightarrow> 0 < n \<Longrightarrow> n \<le> length p \<Longrightarrow> fzf_backward p t 0 n n = 0"
  by (induction n) (auto simp: prefix_nth_lower)

lemma score_loop_prefix:
  assumes "prefix p (js_lower t)"
  shows "i \<le> length p \<Longrightarrow> sco_pi s = i \<Longrightarrow> sco_gapLen s = 0 \<Longrightarrow> 16 * int i \<le> sco_score s
    \<Longrightarrow> \<exists>s'. score_loop p (drop i (take (length p) t)) s = Some s' \<and> 16 * int (length p) \<le> sco_score s'"
proof (induction "length p - i" arbitrary: i s)
  case (Suc n)
  then have i: "i < length p" by simp
  note m = prefix_nth_lower [OF assms i]
  have d: "drop i (take (length p) t) = t ! i # drop (Suc i) (take (length p) t)"
    using m i by (simp flip: Cons_nth_drop_Suc [of i "take (length p) t"])
  have "16 * int (Suc i) \<le> sco_score (score_matched (charClass (t ! i)) s)"
    using score_matched_gain [of s "charClass (t ! i)"] Suc.prems(4) by simp
  then show ?case
    using Suc.hyps(1) [of "Suc i" "score_matched (charClass (t ! i)) s"] Suc.hyps(2) Suc.prems i m
    by (simp add: d)
qed simp

lemma fzfScore_prefix:
  assumes "prefix p (js_lower t)" "p \<noteq> []"
  shows "16 * int (length p) \<le> fzfScore p t"
proof -
  have l: "length p \<le> length t" using prefix_length_le [OF assms(1)] by (simp add: js_lower_def)
  have "fzf_forward p t 0 (0, 0, 0) = (length p, 0, length p)"
    using fzf_forward_prefix [OF assms(1), of 0] assms(2) by simp
  moreover have "fzf_backward p t 0 (length p) (length p) = 0"
    using fzf_backward_prefix [OF assms(1), of "length p"] assms(2) by simp
  ultimately show ?thesis
    using l assms(2) score_loop_prefix [OF assms(1), of 0
        "\<lparr>sco_score = 0, sco_consecutive = 0, sco_firstBonus = 0, sco_gapLen = 0, sco_prevClass = CH_WHITE, sco_pi = 0\<rparr>"]
    by (auto simp: fzfScore_def score_region_def)
qed

lemma fzfScore_nonneg: "0 \<le> fzfScore p t"
  by (auto simp: fzfScore_def score_region_def Let_def split: prod.split option.split)

subsection \<open>The results\<close>

lemma scoreToken_title: "4 * fzfScore p (se_title e) \<le> fst (scoreToken p e)"
proof -
  have fold: "fst b \<le> fst (foldl (\<lambda>b t. let s = fzfScore p t * 3 in if fst b < s then (s, FTag t) else b) b ts)" for b ts
  proof (induction ts arbitrary: b)
    case (Cons a ts)
    from Cons.IH [of "(fzfScore p a * 3, FTag a)"] Cons.IH [of b] show ?case by (auto simp: Let_def)
  qed simp
  let ?b = "if 0 < fzfScore p (se_title e) * 4 then (fzfScore p (se_title e) * 4, FTitle) else (0, FTitle)"
  have "4 * fzfScore p (se_title e) \<le> fst ?b" by simp
  with fold [of ?b "se_tags e"] show ?thesis
    unfolding scoreToken_def Let_def by (auto split: if_splits)
qed

lemma set_search_all:
  "r \<in> set (search_all query ix)
     \<longleftrightarrow> query_tokens query \<noteq> [] \<and> (\<exists>k e. (k, e) \<in> set ix \<and> score_entry (query_tokens query) e = Some r)"
  by (force simp: search_all_def Let_def List.map_filter_def)

lemma score_entry_facts: "score_entry tokens e = Some r \<Longrightarrow> sr_entry r = e \<and> 0 < sr_score r"
  by (auto simp: score_entry_def Let_def split: prod.splits if_splits)

definition descending :: "search_result list \<Rightarrow> bool" where
  "descending rs \<longleftrightarrow> sorted_wrt (\<lambda>a b. sr_score b \<le> sr_score a) rs"

lemma descending_search_all: "descending (search_all query ix)"
proof -
  have "sorted (map (\<lambda>r. - sr_score r) (search_all query ix))"
    by (simp add: search_all_def Let_def)
  then show ?thesis by (simp add: descending_def sorted_map)
qed

lemma descending_take: "descending rs \<Longrightarrow> descending (take n rs)"
  by (simp add: descending_def sorted_wrt_take)

lemma take_or_beaten:
  assumes "descending rs" "r \<in> set rs"
  shows "r \<in> set (take n rs) \<or> length (take n rs) = n \<and> (\<forall>r' \<in> set (take n rs). sr_score r \<le> sr_score r')"
proof -
  have "rs = take n rs @ drop n rs" by simp
  with assms show ?thesis
    by (metis (no_types, lifting) Un_iff descending_def length_take min.absorb2 nle_le drop_all
        set_append sorted_wrt_append empty_iff list.set(1))
qed

lemma search_keeps:
  assumes "query \<noteq> []" "(k, e) \<in> set ix" "query_tokens query \<noteq> []" "score_entry (query_tokens query) e = Some r"
  shows "r \<in> set (search query limit ix) \<or>
    length (search query limit ix) = limit \<and> (\<forall>r' \<in> set (search query limit ix). sr_score r \<le> sr_score r')"
proof -
  have "r \<in> set (search_all query ix)" using assms(2-4) by (auto simp: set_search_all)
  from take_or_beaten [OF descending_search_all this] show ?thesis using assms(1) by (simp add: search_def)
qed

lemma search_sound:
  assumes "r \<in> set (search query limit ix)"
  shows "0 < sr_score r \<and> sr_entry r \<in> snd ` set ix \<and> score_entry (query_tokens query) (sr_entry r) = Some r"
proof -
  have "r \<in> set (search_all query ix)" using assms by (auto simp: search_def dest: in_set_takeD split: if_splits)
  then obtain k e where e: "(k, e) \<in> set ix" "score_entry (query_tokens query) e = Some r"
    by (auto simp: set_search_all)
  from score_entry_facts [OF e(2)] e show ?thesis by (auto intro: image_eqI [of _ _ "(k, e)"])
qed

lemma search_ranked: "length (search query limit ix) \<le> limit \<and> descending (search query limit ix)"
  by (simp add: search_def descending_take [OF descending_search_all]) (simp add: descending_def)

text \<open>C15: the results of a search are ranked and none is dropped for a worse one: they are at most
  \<open>limit\<close> entries of the index that match, in the order of descending scores, and an entry that
  matches is among them unless there are \<open>limit\<close> results of no smaller score.\<close>

theorem search_ranks_the_matches:
  assumes "query \<noteq> []" "query_tokens query \<noteq> []"
  shows "let rs = search query limit ix in
    length rs \<le> limit \<and> descending rs \<and>
    (\<forall>r \<in> set rs. 0 < sr_score r \<and> sr_entry r \<in> snd ` set ix \<and> score_entry (query_tokens query) (sr_entry r) = Some r) \<and>
    (\<forall>k e r. (k, e) \<in> set ix \<longrightarrow> score_entry (query_tokens query) e = Some r \<longrightarrow>
       r \<in> set rs \<or> (length rs = limit \<and> (\<forall>r' \<in> set rs. sr_score r \<le> sr_score r')))"
  using search_ranked search_sound search_keeps [OF assms(1) _ assms(2)] unfolding Let_def by blast

lemma fzf_sum_best: "fst (foldl (\<lambda>(t, b, f) token. case scoreToken token e of (s, g) \<Rightarrow>
    (t + s, if b < s then (s, g) else (b, f))) acc tokens) = fst acc + sum_list (map (\<lambda>t. fst (scoreToken t e)) tokens)"
  by (induction tokens arbitrary: acc) (auto simp: add.assoc split: prod.split)

lemma scoreToken_nonneg: "0 \<le> fst (scoreToken p e)"
  using scoreToken_title [of p e] fzfScore_nonneg [of p "se_title e"] by linarith

lemma score_entry_of_token:
  assumes "token \<in> set tokens" "0 < fst (scoreToken token e)"
  shows "\<exists>r. score_entry tokens e = Some r \<and> sr_entry r = e \<and> fst (scoreToken token e) \<le> sr_score r"
proof -
  obtain tot b f where t: "best_token tokens e = (tot, b, f)" by (cases "best_token tokens e")
  have "tot = sum_list (map (\<lambda>t. fst (scoreToken t e)) tokens)"
    using fzf_sum_best [of e "(0, 0, FTitle)" tokens] t by (simp add: best_token_def)
  moreover have "fst (scoreToken token e) \<le> sum_list (map (\<lambda>t. fst (scoreToken t e)) tokens)"
    using assms(1) by (intro member_le_sum_list) (auto simp: scoreToken_nonneg)
  ultimately have "fst (scoreToken token e) \<le> tot" by simp
  with assms(2) show ?thesis by (auto simp: score_entry_def t Let_def split: prod.split)
qed

text \<open>A recipe is found by the beginning of its title: when the title begins with a word of the query,
  in whatever case, the recipe is a result, with a score of at least 64 per character, unless there are
  \<open>limit\<close> results that score no less.\<close>

theorem title_prefix_is_found:
  assumes "query \<noteq> []" "token \<in> set (query_tokens query)" "(k, e) \<in> set ix" "prefix token (js_lower (se_title e))"
  shows "\<exists>r. sr_entry r = e \<and> 64 * int (length token) \<le> sr_score r \<and>
    (r \<in> set (search query limit ix) \<or>
     length (search query limit ix) = limit \<and> (\<forall>r' \<in> set (search query limit ix). sr_score r \<le> sr_score r'))"
proof -
  have ne: "token \<noteq> []" using assms(2) by (simp add: query_tokens_def)
  have s: "64 * int (length token) \<le> fst (scoreToken token e)"
    using fzfScore_prefix [OF assms(4) ne] scoreToken_title [of token e] by linarith
  with ne have "0 < fst (scoreToken token e)" by (cases token) auto
  from score_entry_of_token [OF assms(2) this] s obtain r where
    "score_entry (query_tokens query) e = Some r" "sr_entry r = e" "64 * int (length token) \<le> sr_score r"
    by auto
  with search_keeps [OF assms(1,3)] assms(2) show ?thesis by (metis list.set(1) empty_iff)
qed

text \<open>A word of the title can be missed. The forward pass takes the first characters that fit, the
  contraction does not look beyond the end it found, and a gap of more than 16 characters rejects the
  match: the recipe ''Spicy Moroccan lamb stew pie'' is not found by its word ''pie''.\<close>

definition pie :: search_entry where
  "pie = \<lparr>se_recipeId = ''r'', se_vaultId = ''v'', se_bookName = ''Dinner'',
     se_title = ''Spicy Moroccan lamb stew pie'', se_tags = []\<rparr>"

theorem word_of_the_title_is_missed:
  "''pie'' \<in> set (query_tokens (se_title pie)) \<and> fzfScore ''pie'' (se_title pie) = 0 \<and>
   search ''pie'' 15 (indexRecipe pie []) = []"
  by code_simp

subsection \<open>The index and the books\<close>

definition index_ok :: "search_index \<Rightarrow> bool" where
  "index_ok ix \<longleftrightarrow> distinct (map fst ix) \<and>
     (\<forall>(k, e) \<in> set ix. k = entry_key (se_vaultId e) (se_recipeId e) \<and> CHR ''/'' \<notin> set (se_vaultId e))"

lemma map_set_entries: "set (map_set k v m) \<subseteq> insert (k, v) (set m)" "distinct (map fst m) \<Longrightarrow> distinct (map fst (map_set k v m))"
  by (induction m) (auto simp: map_set_def)

lemma index_ok_steps:
  "index_ok []" "index_ok ix \<Longrightarrow> CHR ''/'' \<notin> set (se_vaultId e) \<Longrightarrow> index_ok (indexRecipe e ix)"
  "index_ok ix \<Longrightarrow> index_ok (removeBookFromIndex v ix)"
  using map_set_entries(1) [of "entry_key (se_vaultId e) (se_recipeId e)" e ix]
    map_set_entries(2) [of ix "entry_key (se_vaultId e) (se_recipeId e)" e]
  by (auto simp: index_ok_def indexRecipe_def removeBookFromIndex_def distinct_map_filter)

lemma vault_prefix:
  assumes "CHR ''/'' \<notin> set v" "CHR ''/'' \<notin> set w"
  shows "prefix (v @ ''/'') (entry_key w r) \<longleftrightarrow> v = w"
proof
  assume "prefix (v @ ''/'') (entry_key w r)"
  then obtain z where "v @ CHR ''/'' # z = w @ CHR ''/'' # r" by (auto simp: prefix_def entry_key_def)
  then have "hd (split_on (CHR ''/'') (v @ CHR ''/'' # z)) = hd (split_on (CHR ''/'') (w @ CHR ''/'' # r))" by simp
  then show "v = w" by (simp add: split_on_append_sep assms)
qed (simp add: entry_key_def)

datatype index_op = Index search_entry | RemoveBook string | Clear

fun index_step :: "search_index \<Rightarrow> index_op \<Rightarrow> search_index" where
  "index_step ix (Index e) = indexRecipe e ix"
| "index_step ix (RemoveBook v) = removeBookFromIndex v ix"
| "index_step ix Clear = clearIndex ix"

definition op_ok :: "index_op \<Rightarrow> bool" where
  "op_ok x = (case x of Index e \<Rightarrow> CHR ''/'' \<notin> set (se_vaultId e) | _ \<Rightarrow> True)"

lemma index_ok_run: "list_all op_ok ops \<Longrightarrow> index_ok ix \<Longrightarrow> index_ok (foldl index_step ix ops)"
proof (induction ops arbitrary: ix)
  case (Cons x ops)
  then show ?case by (cases x) (simp_all add: op_ok_def index_ok_steps clearIndex_def)
qed simp

text \<open>The index follows the books. In every sequence of operations from the empty index (for books
  whose ids have no slash) an entry is filed once, under its own key; removing a book then removes
  exactly its entries, and indexing a recipe replaces the entry of its key and no other.\<close>

theorem index_follows_the_books:
  assumes "list_all op_ok ops" "CHR ''/'' \<notin> set v"
  shows "let ix = foldl index_step [] ops in
    index_ok ix \<and> removeBookFromIndex v ix = filter (\<lambda>(k, e). se_vaultId e \<noteq> v) ix \<and>
    (\<forall>e k. map_get (indexRecipe e ix) k
       = (if k = entry_key (se_vaultId e) (se_recipeId e) then Some e else map_get ix k))"
proof -
  let ?ix = "foldl index_step [] ops"
  have ok: "index_ok ?ix" by (rule index_ok_run [OF assms(1) index_ok_steps(1)])
  have "removeBookFromIndex v ?ix = filter (\<lambda>(k, e). se_vaultId e \<noteq> v) ?ix"
    unfolding removeBookFromIndex_def
  proof (rule filter_cong [OF refl], clarify)
    fix k e assume "(k, e) \<in> set ?ix"
    with ok have "k = entry_key (se_vaultId e) (se_recipeId e)" "CHR ''/'' \<notin> set (se_vaultId e)"
      by (auto simp: index_ok_def)
    with vault_prefix [OF assms(2)] show "(\<not> prefix (v @ ''/'') k) = (se_vaultId e \<noteq> v)" by auto
  qed
  with ok show ?thesis by (simp add: Let_def indexRecipe_def map_eqs)
qed

subsection \<open>Witnesses\<close>

theorem fzf_match_is_a_subsequence_witness:
  "\<exists>w. sublist w (js_lower ''Apple pie'') \<and> length w \<le> 8 * length ''pie'' \<and> subseq ''pie'' w"
  by (rule fzf_match_is_a_subsequence) code_simp

theorem search_ranks_the_matches_witness:
  "descending (search ''lamb'' 15 (indexRecipe pie []))"
proof -
  have "query_tokens ''lamb'' \<noteq> []" by code_simp
  then show ?thesis using search_ranks_the_matches [of "''lamb''" 15 "indexRecipe pie []"] by (simp add: Let_def)
qed

theorem title_prefix_is_found_witness:
  "\<exists>r. sr_entry r = pie \<and> r \<in> set (search ''Spicy'' 15 (indexRecipe pie []))"
proof -
  have "''spicy'' \<in> set (query_tokens ''Spicy'')" "prefix ''spicy'' (js_lower (se_title pie))" by code_simp+
  moreover have "length (search ''Spicy'' 15 (indexRecipe pie [])) \<noteq> 15" by code_simp
  ultimately show ?thesis
    using title_prefix_is_found [of "''Spicy''" "''spicy''" "entry_key ''v'' ''r''" pie "indexRecipe pie []" 15]
    by (auto simp: indexRecipe_def map_set_def pie_def)
qed

theorem index_follows_the_books_witness:
  "removeBookFromIndex ''w'' (foldl index_step [] [Index pie, RemoveBook ''x'']) = [(''v/r'', pie)]"
proof -
  have "list_all op_ok [Index pie, RemoveBook ''x'']" by (simp add: op_ok_def pie_def)
  from index_follows_the_books [OF this, of "''w''"] have "removeBookFromIndex ''w'' (foldl index_step [] [Index pie, RemoveBook ''x''])
      = filter (\<lambda>(k, e). se_vaultId e \<noteq> ''w'') (foldl index_step [] [Index pie, RemoveBook ''x''])"
    by (simp add: Let_def)
  also have "\<dots> = [(''v/r'', pie)]"
    by (simp add: indexRecipe_def removeBookFromIndex_def map_set_def pie_def entry_key_def)
  finally show ?thesis .
qed

end
