(* ===== verification/Recipe_Markdown.thy ===== *)
theory Recipe_Markdown
  imports Js_Text Idb "HOL-Library.Monad_Syntax"
begin

text \<open>
  \<^verbatim>\<open>lib/export.ts\<close>: a recipe as a markdown file with a front matter, a book as the files of an archive, and
  back. The archive itself (JSZip) is a list of files. The formats that \<^verbatim>\<open>Date\<close> prints and reads are a
  parameter: which texts \<^verbatim>\<open>new Date(text)\<close> accepts depends on the browser.
\<close>

record js_date =
  date_iso :: "int \<Rightarrow> string"
  date_parse :: "string \<Rightarrow> int option"

record ingredient =
  ing_quantity :: string
  ing_unit :: string
  ing_item :: string
  ing_optional :: bool

record recipe =
  rc_title :: string
  rc_tags :: "string list"
  rc_servings :: "int option"
  rc_prepMinutes :: "int option"
  rc_cookMinutes :: "int option"
  rc_createdAt :: int
  rc_updatedAt :: int
  rc_description :: string
  rc_ingredients :: "ingredient list"
  rc_instructions :: string
  rc_imageUrls :: "string list"
  rc_notes :: string

record recipe_meta =
  rm_title :: "string option"
  rm_tags :: "string list option"
  rm_servings :: "int option"
  rm_prepMinutes :: "int option"
  rm_cookMinutes :: "int option"
  rm_createdAt :: "int option"
  rm_updatedAt :: "int option"

record recipe_content =
  rt_description :: "string option"
  rt_ingredients :: "ingredient list option"
  rt_instructions :: "string option"
  rt_notes :: "string option"

subsection \<open>Small formats\<close>

text \<open>The first line with the key; the value without its quotes.\<close>

fun parseYamlString :: "string list \<Rightarrow> string \<Rightarrow> string option" where
  "parseYamlString [] key = None"
| "parseYamlString (line # rest) key =
     (let t = js_trim line in
      if \<not> prefix (key @ '':'') t then parseYamlString rest key
      else let val = js_trim (drop (length key + 1) t) in
           Some (if (prefix [DQ] val \<and> suffix [DQ] val) \<or> (prefix [CHR 0x27] val \<and> suffix [CHR 0x27] val)
                 then replace_all [CHR 0x5C, CHR 0x27] [CHR 0x27]
                        (replace_all [CHR 0x5C, DQ] [DQ] (take (length val - 2) (drop 1 val)))
                 else val))"

definition yaml_string :: "string \<Rightarrow> string \<Rightarrow> string option" where
  "yaml_string yaml key = parseYamlString (split_on NL yaml) key"

definition sanitizeFilename :: "string \<Rightarrow> string" where
  "sanitizeFilename title =
     (let t = js_trim (filter (\<lambda>c. c \<notin> set [CHR ''<'', CHR ''>'', CHR '':'', DQ, CHR ''/'', CHR 0x5C, CHR ''|'', CHR ''?'', CHR ''*'']) title)
      in if t = [] then ''untitled'' else t)"

definition MIME_TO_EXT :: "(string \<times> string) list" where
  "MIME_TO_EXT = [(''image/webp'', ''webp''), (''image/jpeg'', ''jpg''), (''image/png'', ''png''),
     (''image/gif'', ''gif''), (''image/svg+xml'', ''svg''), (''application/pdf'', ''pdf'')]"

definition EXT_TO_MIME :: "(string \<times> string) list" where
  "EXT_TO_MIME = [(''webp'', ''image/webp''), (''jpg'', ''image/jpeg''), (''jpeg'', ''image/jpeg''),
     (''png'', ''image/png''), (''gif'', ''image/gif''), (''svg'', ''image/svg+xml''), (''pdf'', ''application/pdf'')]"

definition mimeToExt :: "string \<Rightarrow> string" where
  "mimeToExt mime = (case map_of MIME_TO_EXT mime of Some e \<Rightarrow> e | None \<Rightarrow> ''bin'')"

definition extToMime :: "string \<Rightarrow> string" where
  "extToMime ext = (case map_of EXT_TO_MIME (js_lower ext) of Some m \<Rightarrow> m | None \<Rightarrow> ''application/octet-stream'')"

text \<open>\<^verbatim>\<open>/\(blob:([a-f0-9]{64})\)/g\<close>\<close>

definition lower_hex :: "char \<Rightarrow> bool" where
  "lower_hex c \<longleftrightarrow> is_digit c \<or> (97 \<le> (of_char c :: nat) \<and> (of_char c :: nat) \<le> 102)"

definition blob_ref :: "string \<Rightarrow> string option" where
  "blob_ref s =
     (let h = take 64 (drop 6 s) in
      if prefix ''(blob:'' s \<and> length h = 64 \<and> list_all lower_hex h \<and> prefix '')'' (drop 70 s)
      then Some h else None)"

fun blob_refs :: "string \<Rightarrow> string list" where
  "blob_refs [] = []"
| "blob_refs (c # cs) = (case blob_ref (c # cs) of None \<Rightarrow> blob_refs cs | Some h \<Rightarrow> h # blob_refs cs)"

definition extractBlobChecksums :: "recipe \<Rightarrow> string list" where
  "extractBlobChecksums r = set_from (blob_refs (rc_instructions r) @ blob_refs (rc_notes r))"

subsection \<open>The ingredient table\<close>

definition pad :: "string \<Rightarrow> nat \<Rightarrow> string" where
  "pad s w = s @ replicate (w - length s) (CHR '' '')"

definition table_row :: "string list \<Rightarrow> string" where
  "table_row cells = ''| '' @ join '' | '' cells @ '' |''"

definition widest :: "nat \<Rightarrow> string list \<Rightarrow> nat" where
  "widest n xs = foldl max n (map length xs)"

definition buildIngredientTable :: "ingredient list \<Rightarrow> string" where
  "buildIngredientTable is =
     (if is = [] then []
      else let hasOptional = list_ex ing_optional is;
               qw = widest 3 (map ing_quantity is);
               uw = widest 4 (map ing_unit is);
               iw = widest 10 (map ing_item is);
               ow = 8;
               opt = (\<lambda>xs. if hasOptional then xs else []);
               header = table_row ([pad ''Qty'' qw, pad ''Unit'' uw, pad ''Ingredient'' iw] @ opt [pad ''Optional'' ow]);
               sep = table_row ([replicate qw (CHR ''-''), replicate uw (CHR ''-''), replicate iw (CHR ''-'')]
                       @ opt [replicate ow (CHR ''-'')]);
               rows = map (\<lambda>i. table_row ([pad (ing_quantity i) qw, pad (ing_unit i) uw, pad (ing_item i) iw]
                       @ opt [pad (if ing_optional i then ''yes'' else []) ow])) is
           in join [NL] (header # sep # rows))"

text \<open>The regular expressions on a line: a cell between two bars that is the word (whatever the case),
  and a line of bars, dashes and white space.\<close>

definition has_cell :: "string \<Rightarrow> string \<Rightarrow> bool" where
  "has_cell word line =
     list_ex (\<lambda>c. js_lower (js_trim c) = word) (butlast (tl (split_on (CHR ''|'') line)))"

definition is_separator :: "string \<Rightarrow> bool" where
  "is_separator line \<longleftrightarrow> 3 \<le> length line \<and> hd line = CHR ''|'' \<and> last line = CHR ''|'' \<and>
     list_all (\<lambda>c. js_space c \<or> c = CHR ''-'' \<or> c = CHR ''|'') (butlast (tl line))"

definition table_cells :: "string \<Rightarrow> string list" where
  "table_cells line = filter (\<lambda>c. c \<noteq> []) (map js_trim (split_on (CHR ''|'') line))"

definition parse_row :: "bool \<Rightarrow> string \<Rightarrow> ingredient option" where
  "parse_row hasOptionalCol line =
     (if \<not> prefix ''|'' line then None
      else if is_separator line then None
      else if has_cell ''qty'' line then None
      else case table_cells line of
             [] \<Rightarrow> None
           | [a] \<Rightarrow> Some \<lparr>ing_quantity = [], ing_unit = [], ing_item = a, ing_optional = False\<rparr>
           | [a, b] \<Rightarrow> Some \<lparr>ing_quantity = a, ing_unit = [], ing_item = b, ing_optional = False\<rparr>
           | a # b # c # rest \<Rightarrow>
               Some \<lparr>ing_quantity = a, ing_unit = b, ing_item = c,
                     ing_optional = (hasOptionalCol \<and> rest \<noteq> [] \<and>
                        js_lower (hd rest) \<in> set [''yes'', ''true'', ''optional''])\<rparr>)"

definition parseIngredientTable :: "string \<Rightarrow> ingredient list" where
  "parseIngredientTable text =
     (let ls = filter (\<lambda>l. l \<noteq> []) (map js_trim (split_on NL text))
      in List.map_filter (parse_row (list_ex (has_cell ''optional'') ls)) ls)"

subsection \<open>A recipe as markdown\<close>

definition escape_quotes :: "string \<Rightarrow> string" where
  "escape_quotes s = replace_all [DQ] [CHR 0x5C, DQ] s"

definition quoted :: "string \<Rightarrow> string" where "quoted s = [DQ] @ escape_quotes s @ [DQ]"

definition or_else :: "int option \<Rightarrow> int \<Rightarrow> int" where
  "or_else x d = (case x of None \<Rightarrow> d | Some n \<Rightarrow> n)"

definition frontmatter_lines :: "js_date \<Rightarrow> recipe \<Rightarrow> string list" where
  "frontmatter_lines D r =
     [''title: '' @ quoted (rc_title r),
      ''tags: ['' @ join '', '' (map quoted (rc_tags r)) @ '']'',
      ''servings: '' @ int_to_string (or_else (rc_servings r) 4),
      ''prepMinutes: '' @ int_to_string (or_else (rc_prepMinutes r) 0),
      ''cookMinutes: '' @ int_to_string (or_else (rc_cookMinutes r) 0),
      ''createdAt: '' @ date_iso D (rc_createdAt r),
      ''updatedAt: '' @ date_iso D (rc_updatedAt r)]"

definition body_sections :: "recipe \<Rightarrow> string list" where
  "body_sections r =
     (if rc_description r \<noteq> [] then [rc_description r, []] else []) @
     (if rc_ingredients r \<noteq> [] then [''## Ingredients'', [], buildIngredientTable (rc_ingredients r), []] else []) @
     (let i = js_trim (rc_instructions r) in if i \<noteq> [] then [''## Instructions'', [], i, []] else []) @
     (let n = js_trim (rc_notes r) in if n \<noteq> [] then [''## Notes'', [], n, []] else [])"

definition recipeToMarkdown :: "js_date \<Rightarrow> recipe \<Rightarrow> string" where
  "recipeToMarkdown D r =
     join [NL] ([join [NL] (''---'' # frontmatter_lines D r @ [''---'']), []] @ body_sections r)"

subsection \<open>Reading a recipe\<close>

text \<open>\<^verbatim>\<open>replace(/^"(.*)"$/, "$1")\<close> on a text of one line\<close>

definition unquote :: "string \<Rightarrow> string" where
  "unquote s =
     (if 2 \<le> length s \<and> hd s = DQ \<and> last s = DQ \<and> NL \<notin> set s \<and> CR \<notin> set s then butlast (tl s) else s)"

text \<open>\<^verbatim>\<open>/^(\w+):\s*(.+)$/\<close> on a text without a newline\<close>

definition meta_line :: "string \<Rightarrow> (string \<times> string) option" where
  "meta_line line =
     (let key = takeWhile is_word line; r = dropWhile is_word line in
      if key = [] \<or> \<not> prefix '':'' r then None
      else let rest = tl r; v = dropWhile js_space rest;
               val = (if v = [] \<and> rest \<noteq> [] then [last rest] else v)
           in if val = [] \<or> NL \<in> set val \<or> CR \<in> set val then None else Some (key, val))"

definition tag_list :: "string \<Rightarrow> string list option" where
  "tag_list rawVal =
     (case cut_at ''['' rawVal of
        None \<Rightarrow> None
      | Some (_, r) \<Rightarrow>
          (case cut_at '']'' r of
             None \<Rightarrow> None
           | Some (inner, _) \<Rightarrow>
               Some (filter (\<lambda>t. t \<noteq> []) (map (\<lambda>t. unquote (js_trim t)) (split_on (CHR '','') inner)))))"

definition int_or :: "string \<Rightarrow> int \<Rightarrow> int" where
  "int_or s d = (case parseInt s of None \<Rightarrow> d | Some n \<Rightarrow> if n = 0 then d else n)"

definition time_or :: "js_date \<Rightarrow> string \<Rightarrow> int \<Rightarrow> int" where
  "time_or D s now = (case date_parse D s of None \<Rightarrow> now | Some t \<Rightarrow> if t = 0 then now else t)"

definition no_meta :: recipe_meta where
  "no_meta = \<lparr>rm_title = None, rm_tags = None, rm_servings = None, rm_prepMinutes = None, rm_cookMinutes = None,
     rm_createdAt = None, rm_updatedAt = None\<rparr>"

definition no_content :: recipe_content where
  "no_content = \<lparr>rt_description = None, rt_ingredients = None, rt_instructions = None, rt_notes = None\<rparr>"

definition read_meta :: "js_date \<Rightarrow> int \<Rightarrow> recipe_meta \<Rightarrow> string \<Rightarrow> recipe_meta" where
  "read_meta D now m line =
     (case meta_line line of
        None \<Rightarrow> m
      | Some (key, rawVal) \<Rightarrow>
          let val = unquote rawVal in
          if key = ''title'' then m\<lparr>rm_title := Some val\<rparr>
          else if key = ''servings'' then m\<lparr>rm_servings := Some (int_or val 4)\<rparr>
          else if key = ''prepMinutes'' then m\<lparr>rm_prepMinutes := Some (int_or val 0)\<rparr>
          else if key = ''cookMinutes'' then m\<lparr>rm_cookMinutes := Some (int_or val 0)\<rparr>
          else if key = ''tags'' then (case tag_list rawVal of None \<Rightarrow> m | Some ts \<Rightarrow> m\<lparr>rm_tags := Some ts\<rparr>)
          else if key = ''createdAt'' then m\<lparr>rm_createdAt := Some (time_or D val now)\<rparr>
          else if key = ''updatedAt'' then m\<lparr>rm_updatedAt := Some (time_or D val now)\<rparr>
          else m)"

text \<open>\<^verbatim>\<open>split(/^## /m)\<close>; the flag tells the start of a line.\<close>

function split_headings :: "bool \<Rightarrow> string \<Rightarrow> string list" where
  "split_headings bol s =
     (case s of
        [] \<Rightarrow> [[]]
      | c # cs \<Rightarrow>
          if bol \<and> prefix ''## '' s then [] # split_headings False (drop 3 s)
          else (case split_headings (c = NL \<or> c = CR) cs of [] \<Rightarrow> [[c]] | y # ys \<Rightarrow> (c # y) # ys))"
  by pat_completeness auto
termination by (relation "measure (\<lambda>(b, s). length s)") auto

declare split_headings.simps [simp del]

definition read_section :: "recipe_content \<Rightarrow> string \<Rightarrow> recipe_content" where
  "read_section c section =
     (case cut_at [NL] section of
        None \<Rightarrow> c
      | Some (h, b) \<Rightarrow>
          let heading = js_lower (js_trim h); sectionBody = js_trim b in
          if heading = ''ingredients'' then
            c\<lparr>rt_ingredients := Some (if CHR ''|'' \<in> set sectionBody then parseIngredientTable sectionBody
                else map (\<lambda>l. \<lparr>ing_quantity = [], ing_unit = [], ing_item = js_trim (drop 2 l), ing_optional = False\<rparr>)
                       (filter (prefix ''- '') (split_on NL sectionBody)))\<rparr>
          else if heading = ''instructions'' then c\<lparr>rt_instructions := Some sectionBody\<rparr>
          else if heading = ''notes'' then c\<lparr>rt_notes := Some sectionBody\<rparr>
          else c)"

text \<open>\<^verbatim>\<open>/^---\n([\s\S]*?)\n---\n?([\s\S]*)$/\<close>: front matter and body\<close>

definition split_frontmatter :: "string \<Rightarrow> (string \<times> string) option" where
  "split_frontmatter s =
     (if \<not> prefix (''---'' @ [NL]) s then None
      else map_option (\<lambda>(f, b). (f, if prefix [NL] b then tl b else b)) (cut_at ([NL] @ ''---'') (drop 4 s)))"

definition parseRecipeMarkdown :: "js_date \<Rightarrow> int \<Rightarrow> string \<Rightarrow> (recipe_meta \<times> recipe_content) option" where
  "parseRecipeMarkdown D now md =
     (case split_frontmatter (replace_all [CR, NL] [NL] md) of
        None \<Rightarrow> None
      | Some (frontmatter, body) \<Rightarrow>
          let meta = foldl (read_meta D now) no_meta (split_on NL frontmatter);
              rawSections = split_headings True body;
              pre = js_trim (hd rawSections);
              c0 = (if pre \<noteq> [] then no_content\<lparr>rt_description := Some pre\<rparr> else no_content)
          in Some (meta, foldl read_section c0 (tl rawSections)))"

subsection \<open>The ingredient table comes back\<close>

definition cell_ok :: "string \<Rightarrow> bool" where
  "cell_ok c \<longleftrightarrow> trimmed c \<and> CHR ''|'' \<notin> set c \<and> NL \<notin> set c"

lemma space_NL [simp]: "js_space CHR '' ''" "CHR '' '' \<noteq> NL" "CHR ''|'' \<noteq> NL" "NL \<noteq> CHR ''|''"
  "NL \<noteq> CHR '' ''" "CHR ''-'' \<noteq> NL" "NL \<noteq> CHR ''-''" "\<not> js_space (CHR ''|'')" "js_space NL"
  by (simp_all add: js_space_def NL_def)

lemma set_pad: "set (pad c w) \<subseteq> insert CHR '' '' (set c)"
  by (auto simp: pad_def)

lemma split_cells:
  "cells \<noteq> [] \<Longrightarrow> \<forall>c \<in> set cells. CHR ''|'' \<notin> set c
     \<Longrightarrow> split_on (CHR ''|'') (CHR '' '' # join '' | '' cells @ '' |'') = map (\<lambda>c. CHR '' '' # c @ '' '') cells @ [[]]"
proof (induction cells)
  case (Cons x cells)
  have x: "CHR ''|'' \<notin> set (CHR '' '' # x @ '' '')" using Cons.prems by simp
  show ?case
  proof (cases "cells = []")
    case True
    then show ?thesis using split_on_append_sep [OF x, of "[]"] by simp
  next
    case False
    have "split_on (CHR ''|'') ((CHR '' '' # x @ '' '') @ CHR ''|'' # (CHR '' '' # join '' | '' cells @ '' |''))
        = map (\<lambda>c. CHR '' '' # c @ '' '') (x # cells) @ [[]]"
      using Cons False by (subst split_on_append_sep [OF x]) simp
    then show ?thesis using False by (simp add: join_Cons)
  qed
qed simp

lemma split_row:
  assumes "cells \<noteq> []" "\<forall>c \<in> set cells. CHR ''|'' \<notin> set c"
  shows "split_on (CHR ''|'') (table_row cells) = [] # map (\<lambda>c. CHR '' '' # c @ '' '') cells @ [[]]"
  using split_cells [OF assms] by (simp add: table_row_def)

lemma trim_padded: "trimmed c \<Longrightarrow> js_trim (CHR '' '' # pad c w @ '' '') = c"
  using trim_around [of "'' ''" "replicate (w - length c) (CHR '' '') @ '' ''" c]
  by (simp add: pad_def list_all_iff)

text \<open>A row of padded cells: the cells that are read, and the test for a word.\<close>

definition padded :: "string list \<Rightarrow> nat list \<Rightarrow> string list" where
  "padded cells ws = map2 pad cells ws"

lemma padded_bar: "\<forall>c \<in> set cells. cell_ok c \<Longrightarrow> \<forall>c \<in> set (padded cells ws). CHR ''|'' \<notin> set c \<and> NL \<notin> set c"
  using set_pad by (fastforce simp: padded_def cell_ok_def dest: set_zip_leftD)

lemma trim_padded_row:
  "\<forall>c \<in> set cells. cell_ok c \<Longrightarrow> length ws = length cells
     \<Longrightarrow> map (\<lambda>c. js_trim (CHR '' '' # c @ '' '')) (padded cells ws) = cells"
  by (auto simp: padded_def cell_ok_def trim_padded list_eq_iff_nth_eq)

lemma row_cells:
  assumes "\<forall>c \<in> set cells. cell_ok c" "length ws = length cells" "cells \<noteq> []"
  shows "table_cells (table_row (padded cells ws)) = filter (\<lambda>c. c \<noteq> []) cells"
    and "has_cell w (table_row (padded cells ws)) \<longleftrightarrow> w \<in> js_lower ` set cells"
proof -
  have ne: "padded cells ws \<noteq> []" using assms(2,3) by (cases cells; cases ws) (simp_all add: padded_def)
  have s: "split_on (CHR ''|'') (table_row (padded cells ws)) = [] # map (\<lambda>c. CHR '' '' # c @ '' '') (padded cells ws) @ [[]]"
    using split_row [OF ne] padded_bar [OF assms(1)] by blast
  note t = trim_padded_row [OF assms(1,2)]
  have "js_trim [] = []" by (simp add: js_trim_def)
  with t show "table_cells (table_row (padded cells ws)) = filter (\<lambda>c. c \<noteq> []) cells"
    by (simp add: table_cells_def s comp_def)
  have "has_cell w (table_row (padded cells ws))
      \<longleftrightarrow> list_ex (\<lambda>c. js_lower c = w) (map (\<lambda>c. js_trim (CHR '' '' # c @ '' '')) (padded cells ws))"
    by (simp add: has_cell_def s list_ex_iff)
  then show "has_cell w (table_row (padded cells ws)) \<longleftrightarrow> w \<in> js_lower ` set cells"
    unfolding t by (auto simp: list_ex_iff)
qed

lemma row_shape:
  "trimmed (table_row cells)" "prefix ''|'' (table_row cells)" "table_row cells \<noteq> []"
  "3 \<le> length (table_row cells)" "hd (table_row cells) = CHR ''|''" "last (table_row cells) = CHR ''|''"
  by (simp_all add: table_row_def trimmed_def)

lemma row_inner: "set (butlast (tl (table_row cells))) = insert CHR '' '' (set (join '' | '' cells))"
  by (simp add: table_row_def butlast_append)

lemma ball_join:
  "\<forall>x \<in> set sep. P x \<Longrightarrow> (\<forall>x \<in> set (join sep xs). P x) \<longleftrightarrow> (\<forall>c \<in> set xs. \<forall>x \<in> set c. P x)"
  by (induction sep xs rule: join.induct) auto

lemma row_no_NL: "\<forall>c \<in> set cells. NL \<notin> set c \<Longrightarrow> NL \<notin> set (table_row cells)"
  using ball_join [of "'' | ''" "\<lambda>x. x \<noteq> NL" cells] by (auto simp: table_row_def)

lemma is_separator_row:
  "is_separator (table_row cells) \<longleftrightarrow> (\<forall>c \<in> set cells. \<forall>x \<in> set c. js_space x \<or> x = CHR ''-'' \<or> x = CHR ''|'')"
proof -
  let ?P = "\<lambda>x. js_space x \<or> x = CHR ''-'' \<or> x = CHR ''|''"
  have "is_separator (table_row cells) \<longleftrightarrow> (\<forall>x \<in> set (join '' | '' cells). ?P x)"
    using row_shape [of cells] by (simp add: is_separator_def list_all_iff row_inner)
  also have "\<dots> \<longleftrightarrow> (\<forall>c \<in> set cells. \<forall>x \<in> set c. ?P x)"
    by (rule ball_join) simp
  finally show ?thesis .
qed

text \<open>What an ingredient must be to come back: three non-empty cells without bars, newlines and outer
  white space, none of which is the header's word, and an item that is not only dashes.\<close>

definition ingredient_ok :: "ingredient \<Rightarrow> bool" where
  "ingredient_ok i \<longleftrightarrow>
     (\<forall>c \<in> {ing_quantity i, ing_unit i, ing_item i}. cell_ok c \<and> c \<noteq> [] \<and> js_lower c \<noteq> ''qty'') \<and>
     (\<exists>x \<in> set (ing_item i). \<not> js_space x \<and> x \<noteq> CHR ''-'')"

definition row_fields :: "bool \<Rightarrow> ingredient \<Rightarrow> string list" where
  "row_fields hasOptional i =
     [ing_quantity i, ing_unit i, ing_item i] @ (if hasOptional then [if ing_optional i then ''yes'' else []] else [])"

lemma yes_ok: "cell_ok ''yes''" "cell_ok []" "js_lower ''yes'' = ''yes''"
  by (simp_all add: cell_ok_def trimmed_def js_space_def NL_def js_lower_def js_lower_char_def Let_def)

lemma parse_row_cells:
  assumes "\<forall>c \<in> set cells. cell_ok c \<and> js_lower c \<noteq> ''qty''" "length ws = length cells" "cells \<noteq> []"
    and "c \<in> set (padded cells ws)" "x \<in> set c" "\<not> js_space x" "x \<noteq> CHR ''-''"
  shows "parse_row col (table_row (padded cells ws)) = (case filter (\<lambda>c. c \<noteq> []) cells of
             [] \<Rightarrow> None
           | [a] \<Rightarrow> Some \<lparr>ing_quantity = [], ing_unit = [], ing_item = a, ing_optional = False\<rparr>
           | [a, b] \<Rightarrow> Some \<lparr>ing_quantity = a, ing_unit = [], ing_item = b, ing_optional = False\<rparr>
           | a # b # c # rest \<Rightarrow>
               Some \<lparr>ing_quantity = a, ing_unit = b, ing_item = c,
                     ing_optional = (col \<and> rest \<noteq> [] \<and> js_lower (hd rest) \<in> set [''yes'', ''true'', ''optional''])\<rparr>)"
proof -
  have ok: "\<forall>c \<in> set cells. cell_ok c" using assms(1) by blast
  have "\<not> has_cell ''qty'' (table_row (padded cells ws))"
    using assms(1) row_cells(2) [OF ok assms(2,3)] by auto
  moreover have "x \<noteq> CHR ''|''" using padded_bar [OF ok] assms(4,5) by auto
  then have "\<not> is_separator (table_row (padded cells ws))"
    using assms(4-7) unfolding is_separator_row by blast
  ultimately show ?thesis
    using row_shape [of "padded cells ws"] by (simp add: parse_row_def row_cells(1) [OF ok assms(2,3)])
qed

lemma pad_item_in_row:
  assumes "2 < length ws" "cells = q # u # item # r" "x \<in> set item"
  shows "pad item (ws ! 2) \<in> set (padded cells ws)" "x \<in> set (pad item (ws ! 2))"
  using assms by (force simp: padded_def set_zip) (simp add: assms(3) pad_def)

lemma parse_row_ingredient:
  assumes "ingredient_ok i" "ing_optional i \<longrightarrow> hasOptional" "length ws = length (row_fields hasOptional i)"
  shows "parse_row (hasOptional \<or> col) (table_row (padded (row_fields hasOptional i) ws)) = Some i"
proof -
  have "js_lower [] = []" by (simp add: js_lower_def)
  then have ok: "\<forall>c \<in> set (row_fields hasOptional i). cell_ok c \<and> js_lower c \<noteq> ''qty''"
    using assms(1) yes_ok by (auto simp: row_fields_def ingredient_ok_def)
  obtain x where x: "x \<in> set (ing_item i)" "\<not> js_space x" "x \<noteq> CHR ''-''"
    using assms(1) by (auto simp: ingredient_ok_def)
  have "2 < length ws" using assms(3) by (simp add: row_fields_def)
  from pad_item_in_row [OF this _ x(1)] have "pad (ing_item i) (ws ! 2) \<in> set (padded (row_fields hasOptional i) ws)"
    "x \<in> set (pad (ing_item i) (ws ! 2))" by (simp_all add: row_fields_def)
  from parse_row_cells [OF ok assms(3) _ this x(2,3), of "hasOptional \<or> col"] show ?thesis
    using assms(1,2) yes_ok(3) by (cases i) (auto simp: row_fields_def ingredient_ok_def)
qed

definition header_fields :: "bool \<Rightarrow> string list" where
  "header_fields hasOptional = [''Qty'', ''Unit'', ''Ingredient''] @ (if hasOptional then [''Optional''] else [])"

lemma header_ok: "\<forall>c \<in> set (header_fields b). cell_ok c"
  "''qty'' \<in> js_lower ` set (header_fields b)" "''optional'' \<in> js_lower ` set (header_fields True)"
proof -
  have "js_lower ''Qty'' = ''qty''" "js_lower ''Optional'' = ''optional''" by code_simp+
  then show "''qty'' \<in> js_lower ` set (header_fields b)" "''optional'' \<in> js_lower ` set (header_fields True)"
    by (force simp: header_fields_def)+
qed (auto simp: header_fields_def cell_ok_def trimmed_def js_space_def NL_def)

definition column_widths :: "ingredient list \<Rightarrow> nat list" where
  "column_widths is = [widest 3 (map ing_quantity is), widest 4 (map ing_unit is), widest 10 (map ing_item is)]
     @ (if list_ex ing_optional is then [8] else [])"

lemma table_rows:
  "is \<noteq> [] \<Longrightarrow> buildIngredientTable is =
     join [NL] (table_row (padded (header_fields (list_ex ing_optional is)) (column_widths is))
       # table_row (map (\<lambda>w. replicate w (CHR ''-'')) (column_widths is))
       # map (\<lambda>i. table_row (padded (row_fields (list_ex ing_optional is) i) (column_widths is))) is)"
  by (simp add: buildIngredientTable_def Let_def padded_def header_fields_def row_fields_def column_widths_def
      cong: map_cong)

lemma map_filter_map_Some: "\<forall>x \<in> set xs. f (g x) = Some x \<Longrightarrow> List.map_filter f (map g xs) = xs"
  by (induction xs) (simp_all add: map_filter_simps)

text \<open>What the reader makes of a table: each row on its own.\<close>

lemma table_read:
  assumes "is \<noteq> []" "\<forall>i \<in> set is. \<forall>c \<in> set (row_fields (list_ex ing_optional is) i). cell_ok c"
  shows "\<exists>col. (list_ex ing_optional is \<longrightarrow> col) \<and> parseIngredientTable (buildIngredientTable is)
    = List.map_filter (\<lambda>i. parse_row col (table_row (padded (row_fields (list_ex ing_optional is) i) (column_widths is)))) is"
proof -
  define b where "b = list_ex ing_optional is"
  define ws where "ws = column_widths is"
  define head where "head = table_row (padded (header_fields b) ws)"
  define sep where "sep = table_row (map (\<lambda>w. replicate w (CHR ''-'')) ws)"
  define row where "row = (\<lambda>i. table_row (padded (row_fields b i) ws))"
  have l: "length ws = length (header_fields b)"
    by (simp add: ws_def column_widths_def header_fields_def b_def)
  have "\<forall>r \<in> set (head # sep # map row is). NL \<notin> set r"
    using padded_bar assms(2) padded_bar [OF header_ok(1)]
    by (auto simp: head_def sep_def row_def b_def intro!: row_no_NL)
  then have s: "split_on NL (buildIngredientTable is) = head # sep # map row is"
    unfolding table_rows [OF assms(1)] head_def sep_def row_def b_def ws_def by (intro split_on_join) simp_all
  have "\<forall>r \<in> set (head # sep # map row is). js_trim r = r \<and> r \<noteq> []"
    by (auto simp: head_def sep_def row_def row_shape trim_id)
  then have "map js_trim (head # sep # map row is) = head # sep # map row is"
    "filter (\<lambda>l. l \<noteq> []) (head # sep # map row is) = head # sep # map row is"
    by (auto intro!: map_idI simp: filter_id_conv)
  then have ls: "filter (\<lambda>l. l \<noteq> []) (map js_trim (head # sep # map row is)) = head # sep # map row is"
    by metis
  define col where "col = list_ex (has_cell ''optional'') (head # sep # map row is)"
  have "header_fields b \<noteq> []" by (simp add: header_fields_def)
  note h = row_cells(2) [OF header_ok(1) l this]
  have col: "b \<longrightarrow> col" using header_ok(3) h [of "''optional''"] by (auto simp: col_def head_def)
  have "parse_row col head = None"
    using header_ok(2) h [of "''qty''"] by (simp add: parse_row_def head_def)
  moreover have "parse_row col sep = None"
    by (simp add: parse_row_def sep_def is_separator_row)
  ultimately have "List.map_filter (parse_row col) (head # sep # map row is) = List.map_filter (\<lambda>i. parse_row col (row i)) is"
    by (simp add: map_filter_simps) (simp add: List.map_filter_def comp_def filter_map)
  then have "parseIngredientTable (buildIngredientTable is) = List.map_filter (\<lambda>i. parse_row col (row i)) is"
    by (simp only: parseIngredientTable_def s ls Let_def col_def)
  with col show ?thesis unfolding row_def b_def ws_def by blast
qed

lemma ingredient_table_back:
  assumes "list_all ingredient_ok is"
  shows "parseIngredientTable (buildIngredientTable is) = is"
proof (cases "is = []")
  case True
  then show ?thesis by (simp add: buildIngredientTable_def parseIngredientTable_def Let_def js_trim_def map_filter_simps)
next
  case False
  let ?b = "list_ex ing_optional is"
  have fields: "\<forall>i \<in> set is. \<forall>c \<in> set (row_fields ?b i). cell_ok c"
    using assms yes_ok by (auto simp: list_all_iff ingredient_ok_def row_fields_def)
  from table_read [OF False fields] obtain col where col: "?b \<longrightarrow> col" and
    p: "parseIngredientTable (buildIngredientTable is)
      = List.map_filter (\<lambda>i. parse_row col (table_row (padded (row_fields ?b i) (column_widths is)))) is" by blast
  have "parse_row col (table_row (padded (row_fields ?b i) (column_widths is))) = Some i" if "i \<in> set is" for i
  proof -
    have "parse_row (?b \<or> col) (table_row (padded (row_fields ?b i) (column_widths is))) = Some i"
      using assms that
      by (intro parse_row_ingredient) (auto simp: list_all_iff list_ex_iff row_fields_def column_widths_def)
    moreover have "(?b \<or> col) = col" using col by blast
    ultimately show ?thesis by simp
  qed
  then have "List.map_filter (\<lambda>i. parse_row col (table_row (padded (row_fields ?b i) (column_widths is)))) is = is"
    using map_filter_map_Some [of "is" _ "\<lambda>i. i"] by simp
  with p show ?thesis by simp
qed

text \<open>The ingredient table is lossless for complete rows: ingredients whose quantity, unit and item are
  all non-empty (without bars, newlines and outer white space, and not the header's words) are read back
  as they were written, the optional flag included.\<close>

theorem ingredient_table_roundtrip:
  assumes "list_all ingredient_ok is"
  shows "parseIngredientTable (buildIngredientTable is) = is"
  using ingredient_table_back [OF assms] .

text \<open>An ingredient without a quantity or a unit does not come back: the reader drops the empty cells
  before it counts them, so the columns to the right of one move to the left. Without a quantity the unit
  is read as the quantity; without a unit the item of an optional ingredient is read as the unit and the
  flag's text as the item.\<close>

theorem empty_cells_shift_the_columns:
  assumes "ingredient_ok i"
  shows "parseIngredientTable (buildIngredientTable [i\<lparr>ing_quantity := [], ing_optional := False\<rparr>])
      = [\<lparr>ing_quantity = ing_unit i, ing_unit = [], ing_item = ing_item i, ing_optional = False\<rparr>] \<and>
    parseIngredientTable (buildIngredientTable [i\<lparr>ing_unit := [], ing_optional := True\<rparr>])
      = [\<lparr>ing_quantity = ing_quantity i, ing_unit = ing_item i, ing_item = ''yes'', ing_optional = False\<rparr>]"
proof -
  have e: "js_lower [] = []" by (simp add: js_lower_def)
  obtain x where x: "x \<in> set (ing_item i)" "\<not> js_space x" "x \<noteq> CHR ''-''"
    using assms by (auto simp: ingredient_ok_def)
  have read: "parseIngredientTable (buildIngredientTable [j]) = [r]"
    if f: "row_fields (ing_optional j) j = q # u # ing_item i # rest"
      and ok: "\<forall>c \<in> set (q # u # ing_item i # rest). cell_ok c \<and> js_lower c \<noteq> ''qty''"
      and r: "\<And>col. (case filter (\<lambda>c. c \<noteq> []) (q # u # ing_item i # rest) of
             [] \<Rightarrow> None
           | [a] \<Rightarrow> Some \<lparr>ing_quantity = [], ing_unit = [], ing_item = a, ing_optional = False\<rparr>
           | [a, b] \<Rightarrow> Some \<lparr>ing_quantity = a, ing_unit = [], ing_item = b, ing_optional = False\<rparr>
           | a # b # c # rest \<Rightarrow>
               Some \<lparr>ing_quantity = a, ing_unit = b, ing_item = c,
                     ing_optional = (col \<and> rest \<noteq> [] \<and> js_lower (hd rest) \<in> set [''yes'', ''true'', ''optional''])\<rparr>) = Some r"
    for j q u rest r
  proof -
    have l: "length (column_widths [j]) = length (q # u # ing_item i # rest)"
      using f by (auto simp: column_widths_def row_fields_def split: if_splits)
    have "2 < length (column_widths [j])" by (simp add: column_widths_def)
    note p = pad_item_in_row [OF this refl x(1)]
    have "\<forall>k \<in> set [j]. \<forall>c \<in> set (row_fields (list_ex ing_optional [j]) k). cell_ok c" using f ok by simp
    from table_read [OF _ this] obtain col where "parseIngredientTable (buildIngredientTable [j])
        = List.map_filter (\<lambda>k. parse_row col (table_row (padded (row_fields (list_ex ing_optional [j]) k) (column_widths [j])))) [j]"
      by blast
    then show ?thesis using parse_row_cells [OF ok l _ p x(2,3), of col] r [of col] f by (simp add: map_filter_simps)
  qed
  show ?thesis
    using assms e yes_ok
    by (intro conjI read) (auto simp: row_fields_def ingredient_ok_def)
qed

subsection \<open>Exporting a book\<close>

record catalog_entry =
  ce_id :: string
  ce_title :: string
  ce_tags :: "string list"

datatype file_content = FText string | FBytes bytes

text \<open>A name that no earlier file has, ignoring the case; the loop might not end.\<close>

partial_function (option) unique_name :: "string list \<Rightarrow> string \<Rightarrow> string \<Rightarrow> nat \<Rightarrow> string option" where
  "unique_name usedNames baseName fileName counter =
     (if js_lower fileName \<in> set usedNames
      then unique_name usedNames baseName (baseName @ '' '' @ nat_to_string counter) (Suc counter)
      else Some fileName)"

text \<open>The recipe files in order and the checksums they refer to. \<open>doc\<close> is what the document manager has or
  opens under an id, \<open>None\<close> when it cannot.\<close>

fun export_entries ::
  "js_date \<Rightarrow> (string \<Rightarrow> recipe option) \<Rightarrow> string \<Rightarrow> string list \<Rightarrow> catalog_entry list
     \<Rightarrow> ((string \<times> string) list \<times> string list) option" where
  "export_entries D doc vaultId usedNames [] = Some ([], [])"
| "export_entries D doc vaultId usedNames (e # es) =
     (let baseName = sanitizeFilename (ce_title e) in
      do { fileName \<leftarrow> unique_name usedNames baseName baseName 1;
           (fs, cs) \<leftarrow> export_entries D doc vaultId (js_lower fileName # usedNames) es;
           Some (case doc (vaultId @ ''/'' @ ce_id e) of
                   None \<Rightarrow> (fs, cs)
                 | Some r \<Rightarrow> ((fileName @ ''.md'', recipeToMarkdown D r) # fs, extractBlobChecksums r @ cs)) })"

definition book_yaml :: "js_date \<Rightarrow> int \<Rightarrow> string \<Rightarrow> nat \<Rightarrow> (string \<times> string) list \<Rightarrow> string" where
  "book_yaml D now bookName n members =
     join [NL]
       ([''name: '' @ quoted bookName, ''exportedAt: '' @ [DQ] @ date_iso D now @ [DQ],
         ''format: '' @ [DQ] @ ''recipepwa-v2'' @ [DQ], ''recipeCount: '' @ nat_to_string n]
        @ (if members = [] then []
           else ''members:'' # map (\<lambda>(u, d). ''  '' @ u @ '': '' @ quoted d) members))"

text \<open>The assets: \<open>blob\<close> is the decrypted blob with its type, \<open>None\<close> when it is not to be found. A blob that
  does not decrypt ends the export with an exception in the source.\<close>

fun export_assets :: "(string \<Rightarrow> (bytes \<times> string) option) \<Rightarrow> string list \<Rightarrow> (string \<times> file_content) list \<times> nat" where
  "export_assets blob [] = ([], 0)"
| "export_assets blob (c # cs) =
     (case export_assets blob cs of
        (fs, missing) \<Rightarrow>
          (case blob c of
             None \<Rightarrow> (fs, Suc missing)
           | Some (d, mime) \<Rightarrow> ((c @ ''.'' @ mimeToExt mime, FBytes d) # fs, missing)))"

definition exportBook ::
  "js_date \<Rightarrow> int \<Rightarrow> string \<Rightarrow> string \<Rightarrow> catalog_entry list \<Rightarrow> (string \<Rightarrow> recipe option) \<Rightarrow> (string \<times> string) list
     \<Rightarrow> (string \<Rightarrow> (bytes \<times> string) option) option \<Rightarrow> ((string \<times> file_content) list \<times> nat) option" where
  "exportBook D now bookName vaultId entries doc members blob =
     map_option (\<lambda>(fs, cs).
       let yaml = (sanitizeFilename bookName @ ''.yaml'', FText (book_yaml D now bookName (length entries) members));
           (assets, missing) = (case blob of None \<Rightarrow> ([], 0) | Some f \<Rightarrow> export_assets f (set_from cs));
           inFolder = (\<lambda>(n, c). (bookName @ ''/'' @ n, c))
       in (map inFolder (yaml # map (\<lambda>(n, t). (n, FText t)) fs @ map (\<lambda>(n, c). (''assets/'' @ n, c)) assets), missing))
     (export_entries D doc vaultId [] entries)"

subsection \<open>Importing an archive\<close>

record zip_entry =
  ze_path :: string
  ze_dir :: bool
  ze_text :: string
  ze_data :: bytes

record imported_asset =
  ia_checksum :: string
  ia_data :: bytes
  ia_mimeType :: string
  ia_filename :: string

record imported_book =
  ib_name :: string
  ib_recipes :: "(recipe_meta \<times> recipe_content) list"
  ib_assets :: "imported_asset list"

definition folder_of :: "string list \<Rightarrow> string" where
  "folder_of parts = join ''/'' (butlast parts)"

definition ensureBook :: "string \<Rightarrow> string \<Rightarrow> (string \<times> imported_book) list \<Rightarrow> (string \<times> imported_book) list" where
  "ensureBook folder name m =
     (if map_get m folder = None
      then map_set folder \<lparr>ib_name = name, ib_recipes = [], ib_assets = []\<rparr> m else m)"

definition on_book :: "string \<Rightarrow> (imported_book \<Rightarrow> imported_book) \<Rightarrow> (string \<times> imported_book) list \<Rightarrow> (string \<times> imported_book) list" where
  "on_book folder f m = (case map_get m folder of None \<Rightarrow> m | Some b \<Rightarrow> map_set folder (f b) m)"

definition read_book_name :: "(string \<times> string) list \<Rightarrow> zip_entry \<Rightarrow> (string \<times> string) list" where
  "read_book_name names e =
     (let parts = split_on (CHR ''/'') (ze_path e) in
      if \<not> ze_dir e \<and> suffix ''.yaml'' (last parts) \<and> 2 \<le> length parts
      then (case yaml_string (ze_text e) ''name'' of
              Some n \<Rightarrow> if n \<noteq> [] then map_set (folder_of parts) n names else names
            | None \<Rightarrow> names)
      else names)"

definition read_recipe ::
  "js_date \<Rightarrow> int \<Rightarrow> (string \<times> string) list \<Rightarrow> (string \<times> imported_book) list \<Rightarrow> zip_entry \<Rightarrow> (string \<times> imported_book) list" where
  "read_recipe D now names m e =
     (if ze_dir e \<or> \<not> suffix ''.md'' (ze_path e) then m
      else case parseRecipeMarkdown D now (ze_text e) of
             None \<Rightarrow> m
           | Some parsed \<Rightarrow>
               let parts = split_on (CHR ''/'') (ze_path e);
                   folder = (if 1 < length parts then folder_of parts else []);
                   named = (case map_get names folder of None \<Rightarrow> [] | Some n \<Rightarrow> n);
                   bookName = (if named \<noteq> [] then named else if 1 < length parts then hd parts else [])
               in on_book folder (\<lambda>b. b\<lparr>ib_recipes := ib_recipes b @ [parsed]\<rparr>) (ensureBook folder bookName m))"

definition last_dot :: "string \<Rightarrow> nat option" where
  "last_dot s = map_option (\<lambda>i. length s - 1 - i) (index_of (CHR ''.'') (rev s))"

definition read_asset :: "(string \<times> imported_book) list \<Rightarrow> zip_entry \<Rightarrow> (string \<times> imported_book) list" where
  "read_asset m e =
     (let parts = split_on (CHR ''/'') (ze_path e) in
      if ze_dir e then m
      else case index_of ''assets'' parts of
             None \<Rightarrow> m
           | Some i \<Rightarrow>
               if i + 2 \<noteq> length parts then m
               else let folder = join ''/'' (take i parts);
                        n = last parts;
                        (checksum, ext) = (case last_dot n of
                            Some d \<Rightarrow> if 0 < d then (take d n, drop (Suc d) n) else (n, [])
                          | None \<Rightarrow> (n, []))
                    in on_book folder
                         (\<lambda>b. b\<lparr>ib_assets := ib_assets b @
                                  [\<lparr>ia_checksum = checksum, ia_data = ze_data e, ia_mimeType = extToMime ext, ia_filename = n\<rparr>]\<rparr>)
                         (ensureBook folder [] m))"

definition importFromZip :: "js_date \<Rightarrow> int \<Rightarrow> zip_entry list \<Rightarrow> imported_book list" where
  "importFromZip D now files =
     (let names = foldl read_book_name [] files;
          m1 = foldl (read_recipe D now names) [] files
      in map snd (foldl read_asset m1 files))"

subsection \<open>The names of the files\<close>

lemma lower_digits: "list_all is_digit s \<Longrightarrow> js_lower s = s"
  by (induction s) (auto simp: js_lower_def js_lower_char_def is_digit_def Let_def)

lemma lower_append [simp]: "js_lower (a @ b) = js_lower a @ js_lower b" "js_lower (c # a) = js_lower_char c # js_lower a"
  by (simp_all add: js_lower_def)

definition candidate :: "string \<Rightarrow> nat \<Rightarrow> string" where
  "candidate base k = base @ '' '' @ nat_to_string k"

lemma candidate_inj: "inj (\<lambda>k. js_lower (candidate base k))"
  using lower_digits nat_digits by (auto intro!: injI nat_to_string_inject simp: candidate_def)

lemma free_candidate: "\<exists>k \<ge> n. js_lower (candidate base k) \<notin> set used"
proof (rule ccontr)
  assume "\<not> ?thesis"
  then have "(\<lambda>k. js_lower (candidate base k)) ` {n..} \<subseteq> set used" by auto
  moreover have "infinite ((\<lambda>k. js_lower (candidate base k)) ` {n..})"
    using infinite_Ici inj_on_subset [OF candidate_inj] by (metis finite_imageD subset_UNIV)
  ultimately show False using finite_subset by blast
qed

lemma unique_name_from:
  assumes "n \<le> k" "js_lower (candidate base k) \<notin> set used"
  shows "\<exists>r. unique_name used base f n = Some r \<and> js_lower r \<notin> set used"
  using assms(1)
proof (induction "k - n" arbitrary: n f)
  case 0
  then have "n = k" by simp
  with assms(2) show ?case
    by (subst unique_name.simps, subst unique_name.simps) (simp add: candidate_def)
next
  case (Suc d)
  then have "d = k - Suc n" "Suc n \<le> k" by simp_all
  from Suc.hyps(1) [OF this] show ?case by (subst unique_name.simps) simp
qed

lemma unique_name_free: "\<exists>r. unique_name used base base 1 = Some r \<and> js_lower r \<notin> set used"
  using free_candidate unique_name_from by metis

lemma export_entries_files:
  "\<exists>fs cs. export_entries D doc v used es = Some (fs, cs) \<and>
     map snd fs = map (recipeToMarkdown D) (List.map_filter (\<lambda>e. doc (v @ ''/'' @ ce_id e)) es) \<and>
     set cs = (\<Union>r \<in> set (List.map_filter (\<lambda>e. doc (v @ ''/'' @ ce_id e)) es). set (extractBlobChecksums r)) \<and>
     distinct (map (\<lambda>f. js_lower (fst f)) fs) \<and>
     (\<forall>n \<in> fst ` set fs. \<exists>b. n = b @ ''.md'' \<and> js_lower b \<notin> set used)"
proof (induction es arbitrary: used)
  case (Cons e es)
  obtain r where r: "unique_name used (sanitizeFilename (ce_title e)) (sanitizeFilename (ce_title e)) 1 = Some r"
    "js_lower r \<notin> set used"
    using unique_name_free by blast
  from Cons.IH [of "js_lower r # used"] obtain fs cs where
    f: "export_entries D doc v (js_lower r # used) es = Some (fs, cs)"
      "map snd fs = map (recipeToMarkdown D) (List.map_filter (\<lambda>e. doc (v @ ''/'' @ ce_id e)) es)"
      "set cs = (\<Union>r \<in> set (List.map_filter (\<lambda>e. doc (v @ ''/'' @ ce_id e)) es). set (extractBlobChecksums r))"
      "distinct (map (\<lambda>f. js_lower (fst f)) fs)"
      "\<forall>n \<in> fst ` set fs. \<exists>b. n = b @ ''.md'' \<and> js_lower b \<notin> set (js_lower r # used)" by blast
  have "js_lower (r @ ''.md'') \<notin> js_lower ` fst ` set fs" using f(5) by auto
  then have "js_lower (r @ ''.md'') \<notin> set (map (\<lambda>f. js_lower (fst f)) fs)" by (simp add: image_comp)
  with r f show ?case
    by (cases "doc (v @ ''/'' @ ce_id e)") (auto simp: Let_def map_filter_simps)
qed (simp add: map_filter_simps)

text \<open>C17: the export of a book ends and leaves nothing out: whatever the titles are, the search for a free
  file name ends, there is one file for every entry whose document is available, in their order and with
  its markdown, and no two of the names are equal, even ignoring the case of letters.\<close>

theorem export_writes_every_recipe:
  "\<exists>fs cs. export_entries D doc v [] es = Some (fs, cs) \<and>
     map snd fs = map (recipeToMarkdown D) (List.map_filter (\<lambda>e. doc (v @ ''/'' @ ce_id e)) es) \<and>
     set cs = (\<Union>r \<in> set (List.map_filter (\<lambda>e. doc (v @ ''/'' @ ce_id e)) es). set (extractBlobChecksums r)) \<and>
     distinct (map (\<lambda>f. js_lower (fst f)) fs)"
  using export_entries_files [of D doc v "[]" es] by blast

subsection \<open>A recipe comes back: the front matter\<close>


lemma cut_at_here: "cut_at (c # p) (c # p @ s) = Some ([], s)"
  by simp


lemma meta_line_key:
  assumes "list_all is_word key" "key \<noteq> []" "v \<noteq> []" "\<not> js_space (hd v)" "NL \<notin> set v" "CR \<notin> set v"
  shows "meta_line (key @ '': '' @ v) = Some (key, v)"
proof -
  have w: "\<not> is_word (CHR '':'')" by code_simp
  have "takeWhile is_word (key @ '': '' @ v) = key" "dropWhile is_word (key @ '': '' @ v) = '': '' @ v"
    using assms(1) w by (simp_all add: takeWhile_append dropWhile_append list_all_iff)
  then show ?thesis using assms(2-) by (cases v) (auto simp: meta_line_def Let_def)
qed



lemma special_chars [simp]: "NL \<noteq> CR" "CR \<noteq> NL" "NL \<noteq> DQ" "DQ \<noteq> NL" "CR \<noteq> DQ" "DQ \<noteq> CR" "\<not> js_space DQ"
  "js_space CR" "CHR '' '' \<noteq> CR" "CHR '','' \<noteq> CR" "CHR '','' \<noteq> NL" "CHR ''['' \<noteq> NL" "CHR ''['' \<noteq> CR"
  "CHR '']'' \<noteq> NL" "CHR '']'' \<noteq> CR" "NL \<noteq> CHR '',''" "CR \<noteq> CHR '' ''" "\<not> js_space (CHR ''['')"
  "DQ \<noteq> CHR '',''" "DQ \<noteq> CHR '']''" "CHR '']'' \<noteq> DQ" "CHR '','' \<noteq> DQ" "NL \<noteq> CHR ''[''" "CR \<noteq> CHR ''[''" "NL \<noteq> CHR '']''" "CR \<noteq> CHR '']''"
  "CHR ''#'' \<noteq> NL" "NL \<noteq> CHR ''#''" "CHR ''#'' \<noteq> CR" "CR \<noteq> CHR ''#''"
  by (simp_all add: NL_def CR_def DQ_def js_space_def)













lemma words: "list_all is_word ''title''" "list_all is_word ''tags''" "list_all is_word ''servings''"
  "list_all is_word ''prepMinutes''" "list_all is_word ''cookMinutes''" "list_all is_word ''createdAt''"
  "list_all is_word ''updatedAt''"
  by code_simp+






subsection \<open>A recipe comes back: the body\<close>

text \<open>No line starts with \<open>## \<close>; the flag tells the start of a line.\<close>

fun no_heading :: "bool \<Rightarrow> string \<Rightarrow> bool" where
  "no_heading b [] = True"
| "no_heading b (c # cs) = ((b \<longrightarrow> \<not> prefix ''## '' (c # cs)) \<and> no_heading (c = NL \<or> c = CR) cs)"


lemma split_headings_Nil [simp]: "split_headings b [] = [[]]"
  by (simp add: split_headings.simps)




lemma no_heading_NL [simp]: "no_heading b (NL # z) = no_heading True z"
  by (simp add: NL_def)
















subsection \<open>A recipe comes back\<close>











text \<open>A title with quotes does not come back: the writer puts a backslash before each quote and the
  reader strips the outer quotes only, so the backslashes stay in the imported title and each further
  export adds more.\<close>

theorem quoted_title_keeps_backslashes:
  assumes "NL \<notin> set t" "CR \<notin> set t"
  shows "rm_title (read_meta D now m (''title: '' @ quoted t)) = Some (escape_quotes t) \<and>
    (DQ \<in> set t \<longrightarrow> escape_quotes t \<noteq> t)"
proof -
  have len: "length (escape_quotes t) = length t + length (filter (\<lambda>c. c = DQ) t)" for t
    by (induction t) (auto simp: escape_quotes_def replace_all_Cons)
  have "set (escape_quotes t) \<subseteq> insert CHR 0x5C (set t)"
    by (induction t) (auto simp: escape_quotes_def replace_all_Cons)
  moreover have "CHR 0x5C \<noteq> NL" "CHR 0x5C \<noteq> CR" by (simp_all add: NL_def CR_def)
  ultimately have e: "NL \<notin> set (escape_quotes t)" "CR \<notin> set (escape_quotes t)" using assms by auto
  have "meta_line (''title'' @ '': '' @ quoted t) = Some (''title'', quoted t)"
    using e words by (intro meta_line_key) (auto simp: quoted_def)
  moreover have "unquote (quoted t) = escape_quotes t" using e by (simp add: unquote_def quoted_def)
  moreover have "DQ \<in> set t \<longrightarrow> escape_quotes t \<noteq> t"
  proof (rule impI, rule notI)
    assume "DQ \<in> set t" and eq: "escape_quotes t = t"
    then have "filter (\<lambda>c. c = DQ) t \<noteq> []" by (auto simp: filter_empty_conv)
    with len [of t] eq show False by simp
  qed
  ultimately show ?thesis by (simp add: read_meta_def)
qed

subsection \<open>Witnesses\<close>

definition demo_date :: js_date where
  "demo_date = \<lparr>date_iso = (\<lambda>t. nat_to_string (nat (if 0 \<le> t then 2 * t else - 2 * t - 1))),
     date_parse = (\<lambda>s. map_option (\<lambda>n. if even n then n div 2 else - ((n + 1) div 2)) (parseInt s))\<rparr>"


definition demo_ingredient :: ingredient where
  "demo_ingredient = \<lparr>ing_quantity = ''1/2'', ing_unit = ''cup'', ing_item = ''flour'', ing_optional = True\<rparr>"

lemma demo_ingredient_ok: "ingredient_ok demo_ingredient" "CR \<notin> set ''1/2cupflour''"
  by (auto simp: ingredient_ok_def demo_ingredient_def cell_ok_def trimmed_def js_space_def NL_def CR_def js_lower_def
      js_lower_char_def Let_def)



theorem ingredient_table_roundtrip_witness:
  "parseIngredientTable (buildIngredientTable [demo_ingredient, demo_ingredient]) = [demo_ingredient, demo_ingredient]"
  by (rule ingredient_table_roundtrip) (simp add: demo_ingredient_ok)

theorem empty_cells_shift_the_columns_witness:
  "parseIngredientTable (buildIngredientTable
     [\<lparr>ing_quantity = ''1/2'', ing_unit = [], ing_item = ''flour'', ing_optional = True\<rparr>])
   = [\<lparr>ing_quantity = ''1/2'', ing_unit = ''flour'', ing_item = ''yes'', ing_optional = False\<rparr>]"
  using empty_cells_shift_the_columns [OF demo_ingredient_ok(1)] by (simp add: demo_ingredient_def)


theorem quoted_title_keeps_backslashes_witness:
  "rm_title (read_meta demo_date 0 no_meta (''title: '' @ quoted [CHR ''a'', DQ])) = Some [CHR ''a'', CHR 0x5C, DQ]"
  using quoted_title_keeps_backslashes [of "[CHR ''a'', DQ]" demo_date 0 no_meta]
  by (simp add: escape_quotes_def replace_all_Cons NL_def CR_def DQ_def)

end
