(* ===== verification/Units.thy ===== *)
theory Units
  imports Complex_Main Js_Text
begin

text \<open>
  The unit tables of \<^verbatim>\<open>lib/units.ts\<close> and the lookups in them. A factor is the exact decimal of the source;
  the conversions that compute with floating-point numbers are not modelled. The lookup object of the
  source also answers for the inherited names \<open>constructor\<close> and \<open>__proto__\<close>; they are outside the model.
\<close>

datatype dimension = Volume | Weight
datatype unit_system = Metric | Imperial

record unit_def =
  ud_canonical :: string
  ud_dimension :: dimension
  ud_system :: unit_system
  ud_toBase :: rat
  ud_sourceOnly :: bool

definition udef :: "string \<Rightarrow> dimension \<Rightarrow> unit_system \<Rightarrow> rat \<Rightarrow> bool \<Rightarrow> unit_def" where
  "udef c d s b o' = \<lparr>ud_canonical = c, ud_dimension = d, ud_system = s, ud_toBase = b, ud_sourceOnly = o'\<rparr>"

definition UNIT_DEFS :: "unit_def list" where
  "UNIT_DEFS =
     [udef ''pinch'' Volume Imperial (308 / 1000) True, udef ''dash'' Volume Imperial (616 / 1000) True,
      udef ''tsp'' Volume Imperial (4929 / 1000) False, udef ''tbsp'' Volume Imperial (14787 / 1000) False,
      udef ''fl oz'' Volume Imperial (29574 / 1000) False, udef ''cup'' Volume Imperial (236588 / 1000) False,
      udef ''pint'' Volume Imperial (473176 / 1000) False, udef ''quart'' Volume Imperial (946353 / 1000) False,
      udef ''gallon'' Volume Imperial (378541 / 100) False,
      udef ''ml'' Volume Metric 1 False, udef ''dl'' Volume Metric 100 False, udef ''l'' Volume Metric 1000 False,
      udef ''stick'' Volume Imperial (118294 / 1000) True,
      udef ''oz'' Weight Imperial (283495 / 10000) False, udef ''lb'' Weight Imperial (453592 / 1000) False,
      udef ''g'' Weight Metric 1 False, udef ''kg'' Weight Metric 1000 False]"

definition ALIAS_MAP :: "(string \<times> string list) list" where
  "ALIAS_MAP =
     [(''pinch'', [''pinches'', ''pinch of'']), (''dash'', [''dashes'', ''dash of'']),
      (''tsp'', [''teaspoon'', ''teaspoons'', ''tsps'', ''tsp.'']),
      (''tbsp'', [''tablespoon'', ''tablespoons'', ''tbsps'', ''tbs'', ''tbsp.'', ''tbs.'']),
      (''fl oz'', [''fluid ounce'', ''fluid ounces'', ''fl. oz.'', ''fl oz.'']),
      (''cup'', [''cups'', ''c'', ''cup of'', ''cups of'']), (''pint'', [''pints'', ''pt'', ''pt.'']),
      (''quart'', [''quarts'', ''qt'', ''qts'', ''qt.'']), (''gallon'', [''gallons'', ''gal'', ''gal.'']),
      (''ml'', [''milliliter'', ''milliliters'', ''millilitre'', ''millilitres'', ''ml.'']),
      (''dl'', [''deciliter'', ''deciliters'', ''decilitre'', ''decilitres'']),
      (''l'', [''liter'', ''liters'', ''litre'', ''litres'']), (''oz'', [''ounce'', ''ounces'', ''oz.'']),
      (''lb'', [''lbs'', ''pound'', ''pounds'', ''lb.'', ''lbs.'']),
      (''stick'', [''sticks'', ''stick of'', ''sticks of'']), (''g'', [''gram'', ''grams'', ''g.'']),
      (''kg'', [''kilogram'', ''kilograms'', ''kg.''])]"

definition COUNT_ALIASES :: "(string \<times> string list) list" where
  "COUNT_ALIASES =
     [(''piece'', [''pieces'', ''pc'', ''pcs'']), (''clove'', [''cloves'']), (''can'', [''cans'']),
      (''bunch'', [''bunches'']), (''stalk'', [''stalks'']), (''sprig'', [''sprigs'']), (''slice'', [''slices'']),
      (''head'', [''heads'']), (''whole'', [])]"

definition ALIASES :: "(string \<times> string) list" where
  "ALIASES = foldl (\<lambda>m (c, as). foldl (\<lambda>m a. map_set a c m) (map_set c c m) as) [] (ALIAS_MAP @ COUNT_ALIASES)"

definition DECIMAL_UNITS :: "string list" where
  "DECIMAL_UNITS = [''ml'', ''dl'', ''l'', ''g'', ''kg'']"

definition isDecimalUnit :: "string \<Rightarrow> bool" where
  "isDecimalUnit u = ((if prefix ''~'' u then tl u else u) \<in> set DECIMAL_UNITS)"

definition canonicalUnitName :: "string \<Rightarrow> string option" where
  "canonicalUnitName raw = (let key = js_lower (js_trim raw) in if key = [] then None else map_get ALIASES key)"

definition def_by_canonical :: "string \<Rightarrow> unit_def option" where
  "def_by_canonical c = find (\<lambda>d. ud_canonical d = c) UNIT_DEFS"

definition resolveUnit :: "string \<Rightarrow> unit_def option" where
  "resolveUnit raw =
     (let key = js_lower (js_trim raw) in
      if key = [] then None
      else case map_get ALIASES key of None \<Rightarrow> None | Some c \<Rightarrow> def_by_canonical c)"

definition getConversionTargets :: "string \<Rightarrow> (string \<times> unit_system) list" where
  "getConversionTargets fromUnit =
     (case resolveUnit fromUnit of
        None \<Rightarrow> []
      | Some d \<Rightarrow>
          map (\<lambda>t. (ud_canonical t, ud_system t))
            (filter (\<lambda>t. ud_dimension t = ud_dimension d \<and> ud_canonical t \<noteq> ud_canonical d \<and> \<not> ud_sourceOnly t) UNIT_DEFS))"

subsection \<open>Lemmas\<close>

lemma defs_distinct: "distinct (map ud_canonical UNIT_DEFS)"
  by (simp add: UNIT_DEFS_def udef_def)

lemma def_by_canonical_iff: "def_by_canonical c = Some d \<longleftrightarrow> d \<in> set UNIT_DEFS \<and> ud_canonical d = c"
proof
  assume "def_by_canonical c = Some d"
  then show "d \<in> set UNIT_DEFS \<and> ud_canonical d = c" by (auto simp: def_by_canonical_def find_Some_iff)
next
  assume d: "d \<in> set UNIT_DEFS \<and> ud_canonical d = c"
  then obtain e where e: "def_by_canonical c = Some e"
    by (cases "def_by_canonical c") (auto simp: def_by_canonical_def find_None_iff)
  then have "e \<in> set UNIT_DEFS" "ud_canonical e = c" by (auto simp: def_by_canonical_def find_Some_iff)
  with d defs_distinct have "e = d" by (metis distinct_map inj_on_def)
  with e show "def_by_canonical c = Some d" by simp
qed

text \<open>The lookup object holds the last pair set for a key.\<close>

definition alias_pairs :: "(string \<times> string list) list \<Rightarrow> (string \<times> string) list" where
  "alias_pairs m = concat (map (\<lambda>(c, as). (c, c) # map (\<lambda>a. (a, c)) as) m)"

lemma map_get_alias_fold:
  "map_get (foldl (\<lambda>m (c, as). foldl (\<lambda>m a. map_set a c m) (map_set c c m) as) m0 xs) k
     = (case map_of (rev (alias_pairs xs)) k of Some v \<Rightarrow> Some v | None \<Rightarrow> map_get m0 k)"
proof -
  have inner: "map_get (foldl (\<lambda>m a. map_set a c m) m as) k
      = (case map_of (rev (map (\<lambda>a. (a, c)) as)) k of Some v \<Rightarrow> Some v | None \<Rightarrow> map_get m k)" for c m as
    by (induction as arbitrary: m) (auto simp: map_eqs map_add_def split: option.split)
  show ?thesis
    by (induction xs arbitrary: m0)
      (auto simp: alias_pairs_def inner map_eqs map_add_def split: option.split prod.split)
qed

lemma alias_lookup: "map_get ALIASES k = map_of (rev (alias_pairs (ALIAS_MAP @ COUNT_ALIASES))) k"
  unfolding ALIASES_def map_get_alias_fold by (simp del: foldl_append split: option.split)

lemma canonicalUnitName_lookup:
  "canonicalUnitName raw = (let key = js_lower (js_trim raw) in
     if key = [] then None else map_of (rev (alias_pairs (ALIAS_MAP @ COUNT_ALIASES))) key)"
  by (simp only: canonicalUnitName_def alias_lookup)

lemma canonical_names: "list_all (\<lambda>d. canonicalUnitName (ud_canonical d) = Some (ud_canonical d)) UNIT_DEFS"
  unfolding canonicalUnitName_lookup by code_simp

lemma resolve_canonical: "d \<in> set UNIT_DEFS \<Longrightarrow> resolveUnit (ud_canonical d) = Some d"
  using canonical_names
  by (auto simp: list_all_iff canonicalUnitName_def resolveUnit_def Let_def def_by_canonical_iff split: if_splits)

lemma resolve_in_defs: "resolveUnit u = Some d \<Longrightarrow> d \<in> set UNIT_DEFS"
  by (auto simp: resolveUnit_def Let_def def_by_canonical_iff split: if_splits option.splits)

text \<open>The conversion picker offers only conversions that exist and offers them both ways: every target of
  a unit is another unit of the same dimension that resolves to itself, and when the unit is not one to
  convert from only, it is in turn a target of each of its targets.\<close>

theorem conversion_targets_symmetric:
  assumes "resolveUnit u = Some d" "(t, s) \<in> set (getConversionTargets u)"
  shows "\<exists>e. resolveUnit t = Some e \<and> ud_canonical e = t \<and> ud_system e = s \<and> ud_dimension e = ud_dimension d \<and> e \<noteq> d \<and>
    \<not> ud_sourceOnly e \<and> (\<not> ud_sourceOnly d \<longrightarrow> (ud_canonical d, ud_system d) \<in> set (getConversionTargets t))"
proof -
  from assms obtain e where e: "e \<in> set UNIT_DEFS" "ud_canonical e = t" "ud_system e = s" "ud_dimension e = ud_dimension d"
    "ud_canonical e \<noteq> ud_canonical d" "\<not> ud_sourceOnly e"
    by (auto simp: getConversionTargets_def)
  from resolve_canonical [OF e(1)] e(2) have r: "resolveUnit t = Some e" by simp
  moreover have "\<not> ud_sourceOnly d \<longrightarrow> (ud_canonical d, ud_system d) \<in> set (getConversionTargets t)"
    using resolve_in_defs [OF assms(1)] e by (auto simp: getConversionTargets_def r intro!: image_eqI [of _ _ d])
  ultimately show ?thesis using e by auto
qed

theorem conversion_targets_symmetric_witness:
  "\<exists>e. resolveUnit ''lb'' = Some e \<and> (''oz'', Imperial) \<in> set (getConversionTargets ''lb'')"
proof -
  have "\<exists>d. resolveUnit '' Ounces'' = Some d \<and> ud_canonical d = ''oz'' \<and> ud_system d = Imperial \<and> \<not> ud_sourceOnly d"
    by (rule exI [of _ "udef ''oz'' Weight Imperial (283495 / 10000) False"]) code_simp
  then obtain d where d: "resolveUnit '' Ounces'' = Some d" "ud_canonical d = ''oz''" "ud_system d = Imperial" "\<not> ud_sourceOnly d"
    by blast
  have "list_ex (\<lambda>x. x = (''lb'', Imperial)) (getConversionTargets '' Ounces'')" by code_simp
  then have "(''lb'', Imperial) \<in> set (getConversionTargets '' Ounces'')" by (auto simp: list_ex_iff)
  from conversion_targets_symmetric [OF d(1) this] d show ?thesis by auto
qed

end
