(* ===== verification/Recipe_Scraper.thy ===== *)
theory Recipe_Scraper
  imports Json Units
begin

text \<open>
  \<^verbatim>\<open>lib/recipe-scraper.ts\<close>: structured recipe data from a page. The page itself (\<^verbatim>\<open>DOMParser\<close>) is given by what the
  code reads of it: the texts of its JSON-LD scripts, the attributes of its images. Values are parsed
  JSON; a number is held as the text that \<^verbatim>\<open>String\<close> prints for it.
\<close>

subsection \<open>JavaScript values\<close>

text \<open>A literal whose digits before the exponent are all zero\<close>

definition zero_text :: "string \<Rightarrow> bool" where
  "zero_text t = list_all (\<lambda>c. is_digit c \<longrightarrow> c = CHR ''0'') (takeWhile (\<lambda>c. c \<noteq> CHR ''e'' \<and> c \<noteq> CHR ''E'') t)"

fun js_truthy :: "json option \<Rightarrow> bool" where
  "js_truthy None = False"
| "js_truthy (Some JNull) = False"
| "js_truthy (Some (JBool b)) = b"
| "js_truthy (Some (JNum t)) = (\<not> zero_text t)"
| "js_truthy (Some (JStr s)) = (s \<noteq> [])"
| "js_truthy (Some (JArr xs)) = True"
| "js_truthy (Some (JObj ms)) = True"

text \<open>A named property; strings, numbers and arrays have none of the names the code asks for.\<close>

definition json_prop :: "string \<Rightarrow> json \<Rightarrow> json option" where
  "json_prop k v = (case v of JObj ms \<Rightarrow> map_of (rev ms) k | _ \<Rightarrow> None)"

fun js_String :: "json \<Rightarrow> string" and js_Strings :: "json list \<Rightarrow> string list" where
  "js_String JNull = ''null''"
| "js_String (JBool b) = (if b then ''true'' else ''false'')"
| "js_String (JNum t) = t"
| "js_String (JStr s) = s"
| "js_String (JArr xs) = join '','' (js_Strings xs)"
| "js_String (JObj ms) = ''[object Object]''"
| "js_Strings [] = []"
| "js_Strings (x # xs) = (if x = JNull then [] else js_String x) # js_Strings xs"

text \<open>\<^verbatim>\<open>String(val ?? "")\<close>\<close>

definition str :: "json option \<Rightarrow> string" where
  "str v = (case v of None \<Rightarrow> [] | Some JNull \<Rightarrow> [] | Some x \<Rightarrow> js_String x)"

subsection \<open>HTML to text\<close>

text \<open>\<^verbatim>\<open>replace(re, new)\<close> with the flag \<^verbatim>\<open>g\<close>: \<open>m\<close> gives the length of the match at a place.\<close>

function replace_re :: "(string \<Rightarrow> nat option) \<Rightarrow> string \<Rightarrow> string \<Rightarrow> string" where
  "replace_re m new s =
     (case s of
        [] \<Rightarrow> []
      | c # cs \<Rightarrow>
          (case m s of
             Some (Suc n) \<Rightarrow> new @ replace_re m new (drop n cs)
           | _ \<Rightarrow> c # replace_re m new cs))"
  by pat_completeness auto
termination by (relation "measure (\<lambda>(m, new, s). length s)") auto

declare replace_re.simps [simp del]

definition br_tag :: "string \<Rightarrow> nat option" where
  "br_tag s =
     (if js_lower (take 3 s) \<noteq> ''<br'' then None
      else let r = dropWhile js_space (drop 3 s);
               r' = (if prefix ''/'' r then tl r else r)
           in if prefix ''>'' r' then Some (length s - length (tl r')) else None)"

definition block_end :: "string \<Rightarrow> nat option" where
  "block_end s =
     (let names = [''p'', ''div'', ''li'', ''h1'', ''h2'', ''h3'', ''h4'', ''h5'', ''h6''];
          inner = takeWhile (\<lambda>c. c \<noteq> CHR ''>'') (drop 2 s)
      in if prefix ''</'' s \<and> js_lower inner \<in> set names \<and> prefix ''>'' (drop (2 + length inner) s)
         then Some (length inner + 3) else None)"

definition any_tag :: "string \<Rightarrow> nat option" where
  "any_tag s =
     (let inner = takeWhile (\<lambda>c. c \<noteq> CHR ''>'') (drop 1 s)
      in if prefix ''<'' s \<and> inner \<noteq> [] \<and> prefix ''>'' (drop (1 + length inner) s) then Some (length inner + 2) else None)"

definition blanks :: "string \<Rightarrow> nat option" where
  "blanks s = (let n = length (takeWhile (\<lambda>c. c = CHR '' '' \<or> c = CHR 0x09) s) in if n = 0 then None else Some n)"

definition many_newlines :: "string \<Rightarrow> nat option" where
  "many_newlines s = (let n = length (takeWhile (\<lambda>c. c = NL) s) in if n < 3 then None else Some n)"

definition decode_entities :: "string \<Rightarrow> string" where
  "decode_entities s =
     replace_all ''&nbsp;'' '' '' (replace_all ''&#39;'' [CHR 0x27] (replace_all ''&quot;'' [DQ]
       (replace_all ''&gt;'' ''>'' (replace_all ''&lt;'' ''<'' (replace_all ''&amp;'' ''&'' s)))))"

definition stripHtml :: "string \<Rightarrow> string" where
  "stripHtml html =
     (let s1 = replace_re block_end [NL] (replace_re br_tag [NL] html);
          s2 = decode_entities (replace_re any_tag [] s1)
      in js_trim (replace_re many_newlines [NL, NL] (replace_re blanks '' '' s2)))"

subsection \<open>Ingredient texts\<close>

definition fraction_of :: "char \<Rightarrow> string option" where
  "fraction_of c = (if c = CHR 0xBC then Some ''1/4'' else if c = CHR 0xBD then Some ''1/2''
     else if c = CHR 0xBE then Some ''3/4'' else None)"

definition normalizeUnicodeFractions :: "string \<Rightarrow> string" where
  "normalizeUnicodeFractions s = concat (map (\<lambda>c. case fraction_of c of None \<Rightarrow> [c] | Some f \<Rightarrow> f) s)"

text \<open>\<^verbatim>\<open>QTY_RE\<close>: digits, then a mixed fraction, decimals or a fraction if there is one; the quantity and the
  rest of the text.\<close>

definition slash_digits :: "string \<Rightarrow> string option" where
  "slash_digits s =
     (let d = takeWhile is_digit (drop 1 s) in if prefix ''/'' s \<and> d \<noteq> [] then Some (''/'' @ d) else None)"

definition mixed_part :: "string \<Rightarrow> string option" where
  "mixed_part s =
     (let w = takeWhile js_space s; d = takeWhile is_digit (drop (length w) s)
      in if w = [] \<or> d = [] then None
         else map_option (\<lambda>f. w @ d @ f) (slash_digits (drop (length w + length d) s)))"

definition decimal_part :: "string \<Rightarrow> string option" where
  "decimal_part s =
     (let d = takeWhile is_digit (drop 1 s) in if prefix ''.'' s \<and> d \<noteq> [] then Some (''.'' @ d) else None)"

definition qty_match :: "string \<Rightarrow> (string \<times> string) option" where
  "qty_match s =
     (let n = takeWhile is_digit s; r = drop (length n) s;
          tail = (case mixed_part r of Some t \<Rightarrow> t
                  | None \<Rightarrow> (case decimal_part r of Some t \<Rightarrow> t
                             | None \<Rightarrow> (case slash_digits r of Some t \<Rightarrow> t | None \<Rightarrow> [])))
      in if n = [] then None else Some (n @ tail, dropWhile js_space (drop (length tail) r)))"

record scraped_ingredient =
  si_quantity :: string
  si_unit :: string
  si_item :: string

definition strip_of :: "string \<Rightarrow> string" where
  "strip_of s =
     (if js_lower (take 2 s) = ''of'' \<and> js_space (hd (drop 2 s @ ''x''))
      then dropWhile js_space (drop 2 s) else s)"

definition parseIngredientString :: "string \<Rightarrow> scraped_ingredient" where
  "parseIngredientString raw =
     (let s0 = js_trim (normalizeUnicodeFractions raw);
          (quantity, s1) = (case qty_match s0 of None \<Rightarrow> ([], s0) | Some (q, r) \<Rightarrow> (js_trim q, js_trim r));
          ws = split_white s1;
          two = (if 2 \<le> length ws then canonicalUnitName (ws ! 0 @ '' '' @ ws ! 1) else None);
          one = canonicalUnitName (let w = hd ws in if suffix ''.'' w then butlast w else w);
          (u, s2) = (case two of
                       Some c \<Rightarrow> (c, js_trim (join '' '' (drop 2 ws)))
                     | None \<Rightarrow>
                         (case one of Some c \<Rightarrow> (c, js_trim (join '' '' (drop 1 ws))) | None \<Rightarrow> ([], s1)));
          item = js_trim (strip_of s2)
      in \<lparr>si_quantity = quantity, si_unit = u, si_item = (if item = [] then js_trim raw else item)\<rparr>)"

definition parseIngredientList :: "json option \<Rightarrow> scraped_ingredient list" where
  "parseIngredientList data =
     (case data of
        Some (JArr xs) \<Rightarrow>
          List.map_filter (\<lambda>x. case x of JStr s \<Rightarrow> if js_trim s = [] then None else Some (parseIngredientString s)
                                  | _ \<Rightarrow> None) xs
      | _ \<Rightarrow> [])"

subsection \<open>Numbers and tags\<close>

text \<open>\<^verbatim>\<open>/PT(?:(\d+)H)?(?:(\d+)M)?(?:(\d+)S)?/i\<close>, at the first \<^verbatim>\<open>PT\<close>: an optional number with a letter.\<close>

definition unit_number :: "string \<Rightarrow> string \<Rightarrow> nat \<times> string" where
  "unit_number letter s =
     (let d = takeWhile is_digit s; r = drop (length d) s
      in if d \<noteq> [] \<and> js_lower (take 1 r) = letter then (digits_value 10 d, drop 1 r) else (0, s))"

fun after_PT :: "string \<Rightarrow> string option" where
  "after_PT [] = None"
| "after_PT (c # cs) = (if js_lower (take 2 (c # cs)) = ''pt'' then Some (drop 2 (c # cs)) else after_PT cs)"

definition parseISO8601Duration :: "string \<Rightarrow> nat" where
  "parseISO8601Duration s =
     (case after_PT s of
        None \<Rightarrow> 0
      | Some r \<Rightarrow> (case unit_number ''h'' r of (hours, r') \<Rightarrow> (case unit_number ''m'' r' of (mins, _) \<Rightarrow> hours * 60 + mins)))"

text \<open>The servings, as printed: a number is taken as it is, of a text the first digits.\<close>

definition parseRecipeYield :: "json option \<Rightarrow> string" where
  "parseRecipeYield val =
     (case val of
        Some (JNum t) \<Rightarrow> t
      | _ \<Rightarrow> (let d = takeWhile is_digit (dropWhile (\<lambda>c. \<not> is_digit c) (str val))
             in if d = [] then ''4'' else nat_to_string (digits_value 10 d)))"

text \<open>\<^verbatim>\<open>split(/,\s*/)\<close>\<close>

definition split_comma :: "string \<Rightarrow> string list" where
  "split_comma s = (case split_on (CHR '','') s of [] \<Rightarrow> [] | x # xs \<Rightarrow> x # map (dropWhile js_space) xs)"

definition add_tag :: "string list \<Rightarrow> string \<Rightarrow> string list" where
  "add_tag tags t = (let x = js_lower (js_trim t) in if x = [] then tags else set_add x tags)"

fun add_tags :: "string list \<Rightarrow> json \<Rightarrow> string list" and add_tags_list :: "string list \<Rightarrow> json list \<Rightarrow> string list" where
  "add_tags tags (JStr s) = foldl add_tag tags (split_comma s)"
| "add_tags tags (JArr xs) = add_tags_list tags xs"
| "add_tags tags JNull = tags"
| "add_tags tags (JBool b) = tags"
| "add_tags tags (JNum t) = tags"
| "add_tags tags (JObj ms) = tags"
| "add_tags_list tags [] = tags"
| "add_tags_list tags (x # xs) = add_tags_list (add_tags tags x) xs"

definition add_tags_opt :: "string list \<Rightarrow> json option \<Rightarrow> string list" where
  "add_tags_opt tags v = (case v of None \<Rightarrow> tags | Some x \<Rightarrow> add_tags tags x)"

definition parseTags :: "json option \<Rightarrow> json option \<Rightarrow> string list" where
  "parseTags category keywords = add_tags_opt (add_tags_opt [] category) keywords"

subsection \<open>Recipes of JSON-LD\<close>

definition is_recipe :: "json \<Rightarrow> bool" where
  "is_recipe v =
     (case json_prop ''@type'' v of
        Some (JStr t) \<Rightarrow> t = ''Recipe''
      | Some (JArr ts) \<Rightarrow> JStr ''Recipe'' \<in> set ts
      | _ \<Rightarrow> False)"

lemma member_size: "(k, w) \<in> set ms \<Longrightarrow> size w < size (JObj ms)"
  by (induction ms) auto

lemma json_prop_size: "json_prop k v = Some w \<Longrightarrow> size w < size v"
  using member_size by (cases v) (auto simp: json_prop_def simp del: json.size dest!: map_of_SomeD)

text \<open>The values searched next: the elements of \<^verbatim>\<open>@graph\<close>, the elements of a list\<close>

definition json_kids :: "json \<Rightarrow> json list" where
  "json_kids v =
     (case json_prop ''@graph'' v of Some (JArr xs) \<Rightarrow> xs | _ \<Rightarrow> []) @ (case v of JArr xs \<Rightarrow> xs | _ \<Rightarrow> [])"

lemma json_kids_size: "x \<in> set (json_kids v) \<Longrightarrow> size x < size v"
proof -
  have el: "x \<in> set xs \<Longrightarrow> size x < size (JArr xs)" for xs
    by (induction xs) auto
  have "Some (JArr xs) = json_prop k v \<Longrightarrow> x \<in> set xs \<Longrightarrow> size x < size v" for k xs
    using el [of xs] json_prop_size [of k v "JArr xs"] by (auto simp del: json.size dest: less_trans)
  with el show "x \<in> set (json_kids v) \<Longrightarrow> size x < size v"
    by (auto simp: json_kids_def simp del: json.size split: option.splits json.splits)
qed

text \<open>The first result there is\<close>

fun find_map :: "('a \<Rightarrow> 'b option) \<Rightarrow> 'a list \<Rightarrow> 'b option" where
  "find_map f [] = None"
| "find_map f (x # xs) = (case f x of Some r \<Rightarrow> Some r | None \<Rightarrow> find_map f xs)"

lemma find_map_cong [fundef_cong]:
  "xs = ys \<Longrightarrow> (\<And>x. x \<in> set ys \<Longrightarrow> f x = g x) \<Longrightarrow> find_map f xs = find_map g ys"
  by (induction ys arbitrary: xs) (auto split: option.split)

lemma find_map_Some: "find_map f xs = Some r \<Longrightarrow> \<exists>x \<in> set xs. f x = Some r"
  by (induction xs) (auto split: option.splits)

lemma find_map_None: "find_map f xs = None \<longleftrightarrow> (\<forall>x \<in> set xs. f x = None)"
  by (induction xs) (auto split: option.splits)

function findRecipeInJsonLd :: "json \<Rightarrow> json option" where
  "findRecipeInJsonLd v =
     (if \<not> js_truthy (Some v) then None
      else if is_recipe v then Some v
      else find_map findRecipeInJsonLd (json_kids v))"
  by pat_completeness auto
termination by (relation "measure size") (auto dest: json_kids_size)

declare findRecipeInJsonLd.simps [simp del]

text \<open>The JSON-LD scripts in turn: those that do not parse are skipped.\<close>

definition first_recipe :: "string list \<Rightarrow> json option" where
  "first_recipe scripts =
     find_map (\<lambda>t. case parse_json t of None \<Rightarrow> None | Some data \<Rightarrow> findRecipeInJsonLd data) scripts"

definition hasJsonLdRecipe :: "string list \<Rightarrow> bool" where
  "hasJsonLdRecipe scripts = (first_recipe scripts \<noteq> None)"

fun first_image :: "json list \<Rightarrow> string option" where
  "first_image [] = None"
| "first_image (x # xs) =
     (case x of
        JStr s \<Rightarrow> Some s
      | _ \<Rightarrow> if js_truthy (json_prop ''url'' x) then Some (str (json_prop ''url'' x)) else first_image xs)"

definition extractStepImageUrl :: "json option \<Rightarrow> string option" where
  "extractStepImageUrl img =
     (if \<not> js_truthy img then None
      else case the img of
             JStr s \<Rightarrow> Some s
           | v \<Rightarrow> if js_truthy (json_prop ''url'' v) then Some (str (json_prop ''url'' v))
                  else (case v of JArr xs \<Rightarrow> first_image xs | _ \<Rightarrow> None))"

subsection \<open>Instructions\<close>

record steps =
  st_lines :: "string list"
  st_urls :: "string list"
  st_num :: nat

definition addStep :: "string \<Rightarrow> string option \<Rightarrow> steps \<Rightarrow> steps" where
  "addStep txt imageUrl s =
     (let s1 = s\<lparr>st_lines := st_lines s @ [nat_to_string (st_num s) @ ''. '' @ txt], st_num := Suc (st_num s)\<rparr>
      in case imageUrl of
           Some (c # u) \<Rightarrow>
             s1\<lparr>st_lines := st_lines s1 @ [''![]('' @ (c # u) @ '')''], st_urls := st_urls s1 @ [c # u]\<rparr>
         | _ \<Rightarrow> s1)"

definition html_prop :: "string \<Rightarrow> json \<Rightarrow> string" where
  "html_prop k v = stripHtml (str (json_prop k v))"

definition image_of :: "json \<Rightarrow> string option" where
  "image_of v = extractStepImageUrl (json_prop ''image'' v)"

definition norm_sub :: "steps \<Rightarrow> json \<Rightarrow> steps" where
  "norm_sub s sub =
     (case sub of
        JStr t \<Rightarrow> addStep (stripHtml t) None s
      | _ \<Rightarrow> if js_truthy (json_prop ''text'' sub) then addStep (html_prop ''text'' sub) (image_of sub) s else s)"

definition sub_items :: "json \<Rightarrow> json list" where
  "sub_items item = (case json_prop ''itemListElement'' item of Some (JArr xs) \<Rightarrow> xs | _ \<Rightarrow> [])"

definition norm_item :: "steps \<Rightarrow> json \<Rightarrow> steps" where
  "norm_item s item =
     (case item of
        JStr t \<Rightarrow> addStep (stripHtml t) None s
      | _ \<Rightarrow>
          let s1 = (if js_truthy (json_prop ''text'' item) then addStep (html_prop ''text'' item) (image_of item) s
                    else if js_truthy (json_prop ''name'' item) \<and> \<not> js_truthy (json_prop ''itemListElement'' item)
                    then addStep (html_prop ''name'' item) (image_of item) s
                    else s)
          in foldl norm_sub s1 (sub_items item))"

definition no_steps :: steps where
  "no_steps = \<lparr>st_lines = [], st_urls = [], st_num = 1\<rparr>"

definition normalizeInstructions :: "json option \<Rightarrow> string \<times> string list" where
  "normalizeInstructions data =
     (case data of
        Some (JStr s) \<Rightarrow> (if s = [] then [] else stripHtml s, [])
      | Some (JArr xs) \<Rightarrow> (let s = foldl norm_item no_steps xs in (join [NL] (st_lines s), st_urls s))
      | _ \<Rightarrow> ([], []))"

record scraped_recipe =
  sr_title :: string
  sr_description :: string
  sr_servings :: string
  sr_prepMinutes :: nat
  sr_cookMinutes :: nat
  sr_ingredients :: "scraped_ingredient list"
  sr_instructions :: string
  sr_tags :: "string list"
  sr_imageUrls :: "string list"

definition mapSchemaOrgToRecipe :: "json \<Rightarrow> scraped_recipe" where
  "mapSchemaOrgToRecipe data =
     (case normalizeInstructions (json_prop ''recipeInstructions'' data) of
        (instructions, stepImageUrls) \<Rightarrow>
          \<lparr>sr_title = str (json_prop ''name'' data),
           sr_description = html_prop ''description'' data,
           sr_servings = parseRecipeYield (json_prop ''recipeYield'' data),
           sr_prepMinutes = parseISO8601Duration (str (json_prop ''prepTime'' data)),
           sr_cookMinutes = parseISO8601Duration (str (json_prop ''cookTime'' data)),
           sr_ingredients = parseIngredientList (json_prop ''recipeIngredient'' data),
           sr_instructions = instructions,
           sr_tags = parseTags (json_prop ''recipeCategory'' data) (json_prop ''keywords'' data),
           sr_imageUrls = stepImageUrls\<rparr>)"

definition extractFromJsonLd :: "string list \<Rightarrow> scraped_recipe option" where
  "extractFromJsonLd scripts = map_option mapSchemaOrgToRecipe (first_recipe scripts)"

subsection \<open>The text format for the language model\<close>

text \<open>A list of lines, the number of the next step and the image URLs used so far\<close>

definition say_step :: "string \<Rightarrow> steps \<Rightarrow> steps" where
  "say_step txt s = (if txt = [] then s else addStep txt None s)"

definition name_or_text :: "json \<Rightarrow> string" where
  "name_or_text v =
     (if js_truthy (json_prop ''text'' v) then html_prop ''text'' v
      else if js_truthy (json_prop ''name'' v) then html_prop ''name'' v else [])"

definition say_image :: "json \<Rightarrow> steps \<Rightarrow> steps" where
  "say_image v s =
     (case image_of v of
        Some (c # u) \<Rightarrow>
          let alt = (if js_truthy (json_prop ''name'' v) then html_prop ''name'' v else [])
          in s\<lparr>st_lines := st_lines s @ [''!['' @ alt @ '']('' @ (c # u) @ '')''], st_urls := set_add (c # u) (st_urls s)\<rparr>
      | _ \<Rightarrow> s)"

definition simple_item :: "steps \<Rightarrow> json \<Rightarrow> steps" where
  "simple_item s item =
     (case item of
        JStr t \<Rightarrow> addStep (stripHtml t) None s
      | _ \<Rightarrow> foldl (\<lambda>s sub. say_image sub (say_step (name_or_text sub) s))
               (say_image item (say_step (name_or_text item) s)) (sub_items item))"

definition simple_instructions :: "json option \<Rightarrow> steps" where
  "simple_instructions data =
     (case data of
        Some (JArr xs) \<Rightarrow> foldl simple_item no_steps xs
      | Some (JStr s) \<Rightarrow> no_steps\<lparr>st_lines := [stripHtml s]\<rparr>
      | _ \<Rightarrow> no_steps)"

text \<open>The URL of an image line: what \<^verbatim>\<open>/\]\((.+)\)$/\<close> captures at the first place where it matches\<close>

fun image_line_url :: "string \<Rightarrow> string option" where
  "image_line_url [] = None"
| "image_line_url (c # cs) =
     (let r = drop 1 cs
      in if prefix '']('' (c # cs) \<and> 2 \<le> length r \<and> last r = CHR '')'' \<and> NL \<notin> set (butlast r) \<and> CR \<notin> set (butlast r)
         then Some (butlast r) else image_line_url cs)"

definition unused_images :: "string list \<Rightarrow> string list \<Rightarrow> string list" where
  "unused_images used imgs =
     filter (\<lambda>i. case image_line_url i of Some u \<Rightarrow> u \<notin> set used | None \<Rightarrow> True) imgs"

definition add_cuisine :: "string list \<Rightarrow> json \<Rightarrow> string list" where
  "add_cuisine tags c = (let t = js_trim (js_lower (js_String c)) in if t = [] then tags else set_add t tags)"

definition simple_tags :: "json \<Rightarrow> string list" where
  "simple_tags recipe =
     (let tags = parseTags (json_prop ''recipeCategory'' recipe) (json_prop ''keywords'' recipe)
      in case json_prop ''recipeCuisine'' recipe of
           Some (JArr cs) \<Rightarrow> foldl add_cuisine tags cs
         | c \<Rightarrow> if js_truthy c then add_cuisine tags (the c) else tags)"

definition simple_ingredients :: "json \<Rightarrow> string list" where
  "simple_ingredients recipe =
     (case json_prop ''recipeIngredient'' recipe of
        Some (JArr xs) \<Rightarrow>
          List.map_filter (\<lambda>x. case x of
              JStr s \<Rightarrow> (let p = parseIngredientString s
                         in Some (si_quantity p @ '' | '' @ si_unit p @ '' | '' @ si_item p))
            | _ \<Rightarrow> None) xs
      | _ \<Rightarrow> [])"

definition buildSimpleFormat :: "string list \<Rightarrow> string list \<Rightarrow> string option" where
  "buildSimpleFormat scripts pageImages =
     (case first_recipe scripts of
        None \<Rightarrow> None
      | Some recipe \<Rightarrow>
          let ins = simple_instructions (json_prop ''recipeInstructions'' recipe);
              unused = unused_images (st_urls ins) pageImages
          in Some (join [NL]
               ([''TITLE: '' @ str (json_prop ''name'' recipe),
                 ''DESC: '' @ html_prop ''description'' recipe,
                 ''SERVINGS: '' @ parseRecipeYield (json_prop ''recipeYield'' recipe),
                 ''PREP: '' @ nat_to_string (parseISO8601Duration (str (json_prop ''prepTime'' recipe))),
                 ''COOK: '' @ nat_to_string (parseISO8601Duration (str (json_prop ''cookTime'' recipe))),
                 ''TAGS: '' @ join '', '' (simple_tags recipe), [], ''INGREDIENTS:'']
                @ simple_ingredients recipe @ [[], ''INSTRUCTIONS:''] @ st_lines ins
                @ (if unused = [] then [] else [[], ''ADDITIONAL IMAGES:''] @ unused))))"

subsection \<open>Images of the page\<close>

text \<open>What the code reads of an image: its attributes, absent or not\<close>

record html_img =
  hi_src :: string
  hi_width :: "string option"
  hi_height :: "string option"
  hi_alt :: "string option"

text \<open>\<^verbatim>\<open>parseInt(t, 10)\<close>\<close>

definition parseInt10 :: "string \<Rightarrow> int option" where
  "parseInt10 s =
     (let s1 = dropWhile js_space s;
          (neg, s2) = (case s1 of c # r \<Rightarrow> if c = CHR ''-'' then (True, r) else if c = CHR ''+'' then (False, r) else (False, s1)
                       | [] \<Rightarrow> (False, s1));
          ds = takeWhile is_digit s2
      in if ds = [] then None else Some (if neg then - int (digits_value 10 ds) else int (digits_value 10 ds)))"

definition tiny :: "string option \<Rightarrow> bool" where
  "tiny a = (case a of None \<Rightarrow> False | Some t \<Rightarrow> (case parseInt10 t of None \<Rightarrow> False | Some n \<Rightarrow> 0 < n \<and> n < 100))"

definition skip_img :: "string list \<Rightarrow> html_img \<Rightarrow> bool" where
  "skip_img seen i =
     (let src = hi_src i; l = js_lower src
      in src = [] \<or> prefix ''data:'' src \<or> src \<in> set seen \<or> sublist ''logo'' l \<or> sublist ''icon'' l
         \<or> sublist ''avatar'' l \<or> sublist ''badge'' l \<or> tiny (hi_width i) \<or> tiny (hi_height i))"

definition img_line :: "string \<Rightarrow> string \<Rightarrow> string" where
  "img_line alt u = ''!['' @ alt @ '']('' @ u @ '')''"

fun collect_imgs :: "string list \<Rightarrow> string list \<Rightarrow> html_img list \<Rightarrow> string list" where
  "collect_imgs images seen [] = images"
| "collect_imgs images seen (i # is) =
     (if skip_img seen i then collect_imgs images seen is
      else let images' = images @ [img_line (case hi_alt i of None \<Rightarrow> [] | Some a \<Rightarrow> a) (hi_src i)]
           in if 15 \<le> length images' then images' else collect_imgs images' (hi_src i # seen) is)"

definition extractHtmlImages :: "string option \<Rightarrow> string option \<Rightarrow> html_img list \<Rightarrow> string list" where
  "extractHtmlImages ogImage ogTitle imgs =
     (case ogImage of
        Some (c # u) \<Rightarrow> collect_imgs [img_line (case ogTitle of None \<Rightarrow> [] | Some t \<Rightarrow> t) (c # u)] [c # u] imgs
      | _ \<Rightarrow> collect_imgs [] [] imgs)"

subsection \<open>Microdata\<close>

text \<open>What the code reads of the element of the recipe: of the first element of an item property its
  \<open>content\<close> (a property that only meta elements have) and its text; the texts of the ingredients; of each
  instructions element its text and those of the list items and paragraphs in it; of the image element
  its \<open>src\<close> and its \<open>content\<close>.\<close>

record microdata =
  md_props :: "(string \<times> string option \<times> string) list"
  md_ingredients :: "string list"
  md_instructions :: "(string \<times> string list) list"
  md_image :: "(string option \<times> string option) option"

definition md_prop :: "microdata \<Rightarrow> string \<Rightarrow> string" where
  "md_prop m name = (case map_of (md_props m) name of None \<Rightarrow> [] | Some (_, txt) \<Rightarrow> js_trim txt)"

definition md_propContent :: "microdata \<Rightarrow> string \<Rightarrow> string" where
  "md_propContent m name =
     (case map_of (md_props m) name of
        None \<Rightarrow> []
      | Some (Some c, _) \<Rightarrow> c
      | Some (None, txt) \<Rightarrow> js_trim txt)"

definition numbered :: "string list \<Rightarrow> string" where
  "numbered ts = join [NL] (map (\<lambda>(i, t). nat_to_string (i + 1) @ ''. '' @ t) (List.enumerate 0 ts))"

definition nonempty_trimmed :: "string list \<Rightarrow> string list" where
  "nonempty_trimmed ts = filter (\<lambda>t. t \<noteq> []) (map js_trim ts)"

definition md_steps :: "(string \<times> string list) list \<Rightarrow> string" where
  "md_steps els =
     (case els of
        [] \<Rightarrow> []
      | [(txt, inner)] \<Rightarrow> if 1 < length inner then numbered (nonempty_trimmed inner) else js_trim txt
      | _ \<Rightarrow> numbered (map (\<lambda>(txt, _). js_trim txt) els))"

definition extractFromMicrodata :: "microdata option \<Rightarrow> scraped_recipe option" where
  "extractFromMicrodata el =
     (case el of
        None \<Rightarrow> None
      | Some m \<Rightarrow>
          let pc = md_propContent m;
              imageUrl = (case md_image m of Some (Some s, _) \<Rightarrow> s | Some (None, Some c) \<Rightarrow> c | _ \<Rightarrow> [])
          in Some \<lparr>sr_title = md_prop m ''name'',
                sr_description = stripHtml (pc ''description''),
                sr_servings = parseRecipeYield (Some (JStr (pc ''recipeYield''))),
                sr_prepMinutes = parseISO8601Duration (pc ''prepTime''),
                sr_cookMinutes = parseISO8601Duration (pc ''cookTime''),
                sr_ingredients = map parseIngredientString (nonempty_trimmed (md_ingredients m)),
                sr_instructions = md_steps (md_instructions m),
                sr_tags = parseTags (Some (JStr (pc ''recipeCategory''))) (Some (JStr (pc ''keywords''))),
                sr_imageUrls = (if imageUrl = [] then [] else [imageUrl])\<rparr>)"

definition extractRecipeFromHtml :: "string list \<Rightarrow> microdata option \<Rightarrow> scraped_recipe option" where
  "extractRecipeFromHtml scripts el =
     (case extractFromJsonLd scripts of Some r \<Rightarrow> Some r | None \<Rightarrow> extractFromMicrodata el)"

subsection \<open>Lemmas\<close>

text \<open>Where recipes may stand in a document, read off the text of JSON-LD: a member of an object is the last one
  of its name; recipes stand in lists and in lists under \<^verbatim>\<open>@graph\<close>, at any depth.\<close>

definition member :: "string \<Rightarrow> json \<Rightarrow> (string \<times> json) list \<Rightarrow> bool" where
  "member k w ms \<longleftrightarrow> (\<exists>init rest. ms = init @ (k, w) # rest \<and> k \<notin> fst ` set rest)"

inductive json_node :: "json \<Rightarrow> json \<Rightarrow> bool" where
  here: "json_node v v"
| element: "x \<in> set xs \<Longrightarrow> json_node x r \<Longrightarrow> json_node (JArr xs) r"
| in_graph: "member ''@graph'' (JArr xs) ms \<Longrightarrow> x \<in> set xs \<Longrightarrow> json_node x r \<Longrightarrow> json_node (JObj ms) r"

definition schema_recipe :: "json \<Rightarrow> bool" where
  "schema_recipe r \<longleftrightarrow>
     (\<exists>ms t. r = JObj ms \<and> member ''@type'' t ms \<and> (t = JStr ''Recipe'' \<or> (\<exists>ts. t = JArr ts \<and> JStr ''Recipe'' \<in> set ts)))"

lemma map_of_member: "map_of (rev ms) k = Some w \<longleftrightarrow> member k w ms"
proof (induction ms)
  case (Cons p ms)
  have "member k w (p # ms) \<longleftrightarrow> member k w ms \<or> p = (k, w) \<and> k \<notin> fst ` set ms"
  proof
    assume "member k w (p # ms)"
    then obtain init rest where fb: "p # ms = init @ (k, w) # rest" "k \<notin> fst ` set rest" by (auto simp: member_def)
    then show "member k w ms \<or> p = (k, w) \<and> k \<notin> fst ` set ms" by (cases init) (auto simp: member_def)
  next
    assume "member k w ms \<or> p = (k, w) \<and> k \<notin> fst ` set ms"
    then show "member k w (p # ms)"
    proof
      assume "member k w ms"
      then obtain init rest where "ms = init @ (k, w) # rest" "k \<notin> fst ` set rest" by (auto simp: member_def)
      then show ?thesis unfolding member_def by (intro exI [of _ "p # init"] exI [of _ rest]) simp
    qed (auto simp: member_def intro: exI [of _ "[]"])
  qed
  moreover have "map_of (rev ms) k = None \<longleftrightarrow> k \<notin> fst ` set ms" by (simp add: map_of_eq_None_iff)
  ultimately show ?case using Cons.IH by (cases p) (auto simp: map_add_Some_iff)
qed (simp add: member_def)

lemma json_prop_member: "json_prop k v = Some w \<longleftrightarrow> (\<exists>ms. v = JObj ms \<and> member k w ms)"
  by (cases v) (simp_all add: json_prop_def map_of_member)

lemma recipe_schema: "is_recipe v \<longleftrightarrow> schema_recipe v"
proof
  assume "is_recipe v"
  then obtain t where "json_prop ''@type'' v = Some t" "t = JStr ''Recipe'' \<or> (\<exists>ts. t = JArr ts \<and> JStr ''Recipe'' \<in> set ts)"
    by (auto simp: is_recipe_def split: option.splits json.splits)
  then show "schema_recipe v" unfolding json_prop_member schema_recipe_def by blast
next
  assume "schema_recipe v"
  then obtain ms t where "v = JObj ms" "member ''@type'' t ms" "t = JStr ''Recipe'' \<or> (\<exists>ts. t = JArr ts \<and> JStr ''Recipe'' \<in> set ts)"
    by (auto simp: schema_recipe_def)
  then have "json_prop ''@type'' v = Some t" "t = JStr ''Recipe'' \<or> (\<exists>ts. t = JArr ts \<and> JStr ''Recipe'' \<in> set ts)"
    unfolding json_prop_member by blast+
  then show "is_recipe v" by (auto simp: is_recipe_def)
qed

lemma kids_place:
  "x \<in> set (json_kids v) \<longleftrightarrow> (\<exists>xs. v = JArr xs \<and> x \<in> set xs) \<or> (\<exists>ms xs. v = JObj ms \<and> member ''@graph'' (JArr xs) ms \<and> x \<in> set xs)"
proof -
  have g: "x \<in> set (case json_prop ''@graph'' v of Some (JArr xs) \<Rightarrow> xs | _ \<Rightarrow> []) \<longleftrightarrow> (\<exists>xs. json_prop ''@graph'' v = Some (JArr xs) \<and> x \<in> set xs)"
    by (cases "json_prop ''@graph'' v"; cases "the (json_prop ''@graph'' v)") simp_all
  have "x \<in> set (case v of JArr xs \<Rightarrow> xs | _ \<Rightarrow> []) \<longleftrightarrow> (\<exists>xs. v = JArr xs \<and> x \<in> set xs)"
    by (auto split: json.splits)
  then show ?thesis unfolding json_kids_def set_append Un_iff g unfolding json_prop_member by blast
qed

lemma recipe_truthy: "is_recipe v \<Longrightarrow> js_truthy (Some v)"
  by (cases v) (auto simp: is_recipe_def json_prop_def)

lemma untruthy_no_kids: "\<not> js_truthy (Some v) \<Longrightarrow> json_kids v = []"
  by (cases v) (auto simp: json_kids_def json_prop_def)

lemma findRecipe_sound: "findRecipeInJsonLd v = Some r \<Longrightarrow> json_node v r \<and> schema_recipe r"
proof (induction v rule: findRecipeInJsonLd.induct)
  case (1 v)
  show ?case
  proof (cases "js_truthy (Some v) \<and> \<not> is_recipe v")
    case True
    with "1.prems" have "find_map findRecipeInJsonLd (json_kids v) = Some r"
      by (simp add: findRecipeInJsonLd.simps [of v])
    then obtain x where x: "x \<in> set (json_kids v)" "findRecipeInJsonLd x = Some r" using find_map_Some by metis
    with "1.IH" True have "json_node x r \<and> schema_recipe r" by blast
    with x(1) show ?thesis unfolding kids_place by (auto intro: element in_graph)
  next
    case False
    with "1.prems" show ?thesis by (auto simp: findRecipeInJsonLd.simps [of v] recipe_schema intro: here split: if_splits)
  qed
qed

lemma findRecipe_kid:
  assumes "x \<in> set (json_kids v)" "findRecipeInJsonLd x \<noteq> None"
  shows "findRecipeInJsonLd v \<noteq> None"
proof -
  have "find_map findRecipeInJsonLd (json_kids v) \<noteq> None" using assms by (auto simp: find_map_None)
  moreover have "js_truthy (Some v)" using assms(1) untruthy_no_kids by fastforce
  ultimately show ?thesis by (auto simp: findRecipeInJsonLd.simps [of v])
qed

lemma findRecipe_complete: "json_node v r \<Longrightarrow> schema_recipe r \<Longrightarrow> findRecipeInJsonLd v \<noteq> None"
proof (induction rule: json_node.induct)
  case (here v)
  then show ?case by (simp add: findRecipeInJsonLd.simps [of v] recipe_truthy recipe_schema)
next
  case (element x xs r)
  then show ?case using findRecipe_kid [of x "JArr xs"] by (simp add: kids_place)
next
  case (in_graph xs ms x r)
  then show ?case using findRecipe_kid [of x "JObj ms"] by (auto simp: kids_place)
qed

lemma first_recipe_some:
  "(\<exists>r. first_recipe scripts = Some r) \<longleftrightarrow>
     (\<exists>t \<in> set scripts. \<exists>data r. parse_json t = Some data \<and> json_node data r \<and> schema_recipe r)"
proof -
  have "(\<exists>r. findRecipeInJsonLd data = Some r) \<longleftrightarrow> (\<exists>r. json_node data r \<and> schema_recipe r)" for data
    using findRecipe_sound findRecipe_complete by blast
  then show ?thesis
    unfolding not_None_eq [symmetric] first_recipe_def find_map_None
    by (fastforce split: option.splits)
qed

text \<open>The strings in a value of a tag property, however deep in lists\<close>

fun json_texts :: "json \<Rightarrow> string list" where
  "json_texts (JStr s) = [s]"
| "json_texts (JArr xs) = concat (map json_texts xs)"
| "json_texts _ = []"

definition tags_of :: "string \<Rightarrow> string set" where
  "tags_of s = {t. t \<noteq> [] \<and> t \<in> (\<lambda>x. js_lower (js_trim x)) ` set (split_comma s)}"

lemma fold_add_tag:
  "distinct tags \<Longrightarrow> distinct (foldl add_tag tags xs) \<and>
     set (foldl add_tag tags xs) = set tags \<union> {t. t \<noteq> [] \<and> t \<in> (\<lambda>x. js_lower (js_trim x)) ` set xs}"
proof (induction xs arbitrary: tags)
  case (Cons x xs)
  have "distinct (add_tag tags x)" using Cons.prems by (simp add: add_tag_def Let_def)
  from Cons.IH [OF this] show ?case by (auto simp: add_tag_def Let_def split: if_splits)
qed simp

lemma add_tags_facts:
  "distinct tags \<Longrightarrow> distinct (add_tags tags v) \<and>
     set (add_tags tags v) = set tags \<union> (\<Union>s \<in> set (json_texts v). tags_of s)"
  "distinct tags \<Longrightarrow> distinct (add_tags_list tags vs) \<and>
     set (add_tags_list tags vs) = set tags \<union> (\<Union>v \<in> set vs. \<Union>s \<in> set (json_texts v). tags_of s)"
proof (induction tags v and tags vs rule: add_tags_add_tags_list.induct)
  case (1 tags s)
  then show ?case using fold_add_tag by (simp add: tags_of_def)
qed auto

lemma parseTags_facts:
  "distinct (parseTags c k) \<and>
     set (parseTags c k) = (\<Union>v \<in> {v. c = Some v \<or> k = Some v}. \<Union>s \<in> set (json_texts v). tags_of s)"
  by (cases c; cases k) (auto simp: parseTags_def add_tags_opt_def add_tags_facts)

subsection \<open>Steps\<close>

text \<open>The steps an element of the instructions stands for: text and image\<close>

definition step_of :: "string \<Rightarrow> json \<Rightarrow> string \<times> string option" where
  "step_of k v = (html_prop k v, image_of v)"

definition sub_steps :: "json \<Rightarrow> (string \<times> string option) list" where
  "sub_steps v =
     (case v of JStr t \<Rightarrow> [(stripHtml t, None)]
      | _ \<Rightarrow> if js_truthy (json_prop ''text'' v) then [step_of ''text'' v] else [])"

definition own_steps :: "json \<Rightarrow> (string \<times> string option) list" where
  "own_steps v =
     (if js_truthy (json_prop ''text'' v) then [step_of ''text'' v]
      else if js_truthy (json_prop ''name'' v) \<and> \<not> js_truthy (json_prop ''itemListElement'' v)
      then [step_of ''name'' v] else [])"

definition item_steps :: "json \<Rightarrow> (string \<times> string option) list" where
  "item_steps v =
     (case v of JStr t \<Rightarrow> [(stripHtml t, None)] | _ \<Rightarrow> own_steps v @ concat (map sub_steps (sub_items v)))"

definition image_urls :: "string option \<Rightarrow> string list" where
  "image_urls i = (case i of Some (c # u) \<Rightarrow> [c # u] | _ \<Rightarrow> [])"

definition step_lines :: "nat \<times> string \<times> string option \<Rightarrow> string list" where
  "step_lines = (\<lambda>(n, t, i). (nat_to_string n @ ''. '' @ t) # map (\<lambda>u. ''![]('' @ u @ '')'') (image_urls i))"

definition add_all :: "(string \<times> string option) list \<Rightarrow> steps \<Rightarrow> steps" where
  "add_all ss s = foldl (\<lambda>s (t, i). addStep t i s) s ss"

lemma addStep_lines:
  "addStep t i s =
     s\<lparr>st_lines := st_lines s @ step_lines (st_num s, t, i), st_urls := st_urls s @ image_urls i, st_num := Suc (st_num s)\<rparr>"
  by (simp add: addStep_def step_lines_def image_urls_def Let_def split: option.split list.split)

lemma add_all_append: "add_all (xs @ ys) s = add_all ys (add_all xs s)"
  by (simp add: add_all_def)

lemma add_all_eq:
  "add_all ss s =
     s\<lparr>st_lines := st_lines s @ concat (map step_lines (List.enumerate (st_num s) ss)),
       st_urls := st_urls s @ concat (map (image_urls \<circ> snd) ss), st_num := st_num s + length ss\<rparr>"
proof (induction ss arbitrary: s)
  case (Cons x ss)
  then show ?case by (cases x) (simp add: add_all_def addStep_lines)
qed (simp add: add_all_def)

lemma fold_steps:
  assumes "\<And>s v. f s v = add_all (g v) s"
  shows "foldl f s xs = add_all (concat (map g xs)) s"
proof (induction xs arbitrary: s)
  case Nil
  then show ?case by (simp add: add_all_def)
next
  case (Cons x xs)
  then show ?case by (simp add: assms add_all_append)
qed

lemma norm_sub_steps: "norm_sub s v = add_all (sub_steps v) s"
  by (cases v) (simp_all add: norm_sub_def sub_steps_def step_of_def add_all_def)

lemma norm_item_steps: "norm_item s v = add_all (item_steps v) s"
proof (cases "\<exists>t. v = JStr t")
  case True
  then show ?thesis by (auto simp: norm_item_def item_steps_def add_all_def)
next
  case False
  then have "norm_item s v = foldl norm_sub (add_all (own_steps v) s) (sub_items v)"
    by (cases v) (simp_all add: norm_item_def own_steps_def step_of_def add_all_def Let_def)
  moreover have "item_steps v = own_steps v @ concat (map sub_steps (sub_items v))"
    using False by (cases v) (simp_all add: item_steps_def)
  ultimately show ?thesis
    by (simp add: fold_steps [where g = sub_steps, OF norm_sub_steps] add_all_append)
qed

lemma normalized_steps:
  "normalizeInstructions (Some (JArr xs)) =
     (let ss = concat (map item_steps xs)
      in (join [NL] (concat (map step_lines (List.enumerate 1 ss))), concat (map (image_urls \<circ> snd) ss)))"
  by (simp add: normalizeInstructions_def fold_steps [where g = item_steps, OF norm_item_steps] add_all_eq no_steps_def Let_def)

lemma simple_sub_text: "say_image (JStr t) (say_step (name_or_text (JStr t)) s) = s"
  by (simp add: say_image_def say_step_def name_or_text_def image_of_def json_prop_def extractStepImageUrl_def)

lemma simple_section_of_texts:
  assumes "sub_items (JObj ms) = map JStr ts"
  shows "simple_item s (JObj ms) = say_image (JObj ms) (say_step (name_or_text (JObj ms)) s)"
proof -
  have "foldl (\<lambda>s sub. say_image sub (say_step (name_or_text sub) s)) s' (map JStr ts) = s'" for s'
    by (induction ts arbitrary: s') (simp_all add: simple_sub_text)
  with assms show ?thesis by (simp add: simple_item_def)
qed

lemma sub_steps_of_texts: "concat (map sub_steps (map JStr ts)) = map (\<lambda>t. (stripHtml t, None)) ts"
  by (induction ts) (simp_all add: sub_steps_def)

subsection \<open>Images of a page\<close>

text \<open>The lines are those of the URLs, each with some alternative text.\<close>

definition lines_for :: "string list \<Rightarrow> string list \<Rightarrow> bool" where
  "lines_for images us \<longleftrightarrow> list_all2 (\<lambda>l u. \<exists>alt. l = img_line alt u) images us"

lemma collect_imgs_facts:
  assumes "length images < 15" "lines_for images us" "distinct us" "set us = set seen"
  shows "length (collect_imgs images seen is) \<le> 15 \<and>
    (\<exists>us'. lines_for (collect_imgs images seen is) us' \<and> distinct us' \<and>
       set us' \<subseteq> set seen \<union> hi_src ` {i \<in> set is. \<not> skip_img [] i})"
  using assms
proof (induction images seen "is" arbitrary: us rule: collect_imgs.induct)
  case (1 images seen)
  then show ?case by (auto simp: less_imp_le)
next
  case (2 images seen i "is")
  show ?case
  proof (cases "skip_img seen i")
    case True
    then have "collect_imgs images seen (i # is) = collect_imgs images seen is" by simp
    moreover have "set us' \<subseteq> set seen \<union> hi_src ` {i \<in> set is. \<not> skip_img [] i} \<Longrightarrow>
        set us' \<subseteq> set seen \<union> hi_src ` {j \<in> set (i # is). \<not> skip_img [] j}" for us' by auto
    ultimately show ?thesis using "2.IH"(1) [OF True "2.prems"] by fastforce
  next
    case False
    define images' where "images' = images @ [img_line (case hi_alt i of None \<Rightarrow> [] | Some a \<Rightarrow> a) (hi_src i)]"
    from False have new: "hi_src i \<notin> set seen" and ok: "\<not> skip_img [] i" by (auto simp: skip_img_def Let_def)
    define us2 where "us2 = us @ [hi_src i]"
    have n: "lines_for images' us2" "distinct us2" "set us2 = set (hi_src i # seen)"
      using "2.prems" new by (auto simp: images'_def us2_def lines_for_def intro!: list_all2_appendI)
    have mono: "set us' \<subseteq> set (hi_src i # seen) \<union> hi_src ` {j \<in> set is. \<not> skip_img [] j} \<Longrightarrow>
        set us' \<subseteq> set seen \<union> hi_src ` {j \<in> set (i # is). \<not> skip_img [] j}" for us' using ok by auto
    show ?thesis
    proof (cases "15 \<le> length images'")
      case True
      with False have "collect_imgs images seen (i # is) = images'" by (simp add: images'_def Let_def)
      moreover have "length images' \<le> 15" using "2.prems"(1) by (simp add: images'_def)
      moreover have "set us2 \<subseteq> set seen \<union> hi_src ` {j \<in> set (i # is). \<not> skip_img [] j}"
        using n(3) mono [of us2] by auto
      ultimately show ?thesis using n by metis
    next
      case short: False
      with False have e: "collect_imgs images seen (i # is) = collect_imgs images' (hi_src i # seen) is"
        by (simp add: images'_def Let_def)
      have "length images' < 15" using short by simp
      from "2.IH"(2) [OF False images'_def short this n]
      obtain us' where "lines_for (collect_imgs images' (hi_src i # seen) is) us'" "distinct us'"
          "set us' \<subseteq> set (hi_src i # seen) \<union> hi_src ` {j \<in> set is. \<not> skip_img [] j}"
          "length (collect_imgs images' (hi_src i # seen) is) \<le> 15" by blast
      with mono [of us'] show ?thesis unfolding e by (intro conjI exI [of _ us'])
    qed
  qed
qed

subsection \<open>Ingredient lines\<close>

text \<open>How a quantity is written: digits, decimals, a fraction, a mixed number\<close>

inductive is_quantity :: "string \<Rightarrow> bool" where
  "digits n \<Longrightarrow> is_quantity n"
| "digits n \<Longrightarrow> digits d \<Longrightarrow> is_quantity (n @ CHR ''.'' # d)"
| "digits n \<Longrightarrow> digits d \<Longrightarrow> is_quantity (n @ CHR ''/'' # d)"
| "digits n \<Longrightarrow> digits a \<Longrightarrow> digits b \<Longrightarrow> is_quantity (n @ CHR '' '' # a @ CHR ''/'' # b)"

text \<open>A word of the text: no white space and none of the fraction characters\<close>

definition plain_word :: "string \<Rightarrow> bool" where
  "plain_word w \<longleftrightarrow> w \<noteq> [] \<and> list_all (\<lambda>c. \<not> js_space c \<and> fraction_of c = None) w"

lemma slash_digits_eq: "digits b \<Longrightarrow> r = [] \<or> \<not> is_digit (hd r) \<Longrightarrow> slash_digits (CHR ''/'' # b @ r) = Some (CHR ''/'' # b)"
  by (simp add: slash_digits_def take_digits Let_def) (simp add: digits_def)

lemma slash_none: "c \<noteq> CHR ''/'' \<Longrightarrow> slash_digits (c # r) = None"
  by (simp add: slash_digits_def Let_def)

lemma decimal_eq: "digits b \<Longrightarrow> r = [] \<or> \<not> is_digit (hd r) \<Longrightarrow> decimal_part (CHR ''.'' # b @ r) = Some (CHR ''.'' # b)"
  by (simp add: decimal_part_def take_digits Let_def) (simp add: digits_def)

lemma decimal_none: "c \<noteq> CHR ''.'' \<Longrightarrow> decimal_part (c # r) = None"
  by (simp add: decimal_part_def Let_def)

lemma mixed_none: "\<not> js_space c \<Longrightarrow> mixed_part (c # r) = None"
  by (simp add: mixed_part_def Let_def)

lemma mixed_space: "\<not> js_space c \<Longrightarrow> \<not> is_digit c \<Longrightarrow> mixed_part (CHR '' '' # c # r) = None"
  by (simp add: mixed_part_def Let_def)

lemma mixed_eq:
  assumes "digits a" "digits b" "r = [] \<or> \<not> is_digit (hd r)"
  shows "mixed_part (CHR '' '' # a @ CHR ''/'' # b @ r) = Some (CHR '' '' # a @ CHR ''/'' # b)"
proof -
  have "takeWhile js_space (a @ CHR ''/'' # b @ r) = []"
    using digits_hd [OF assms(1)] by (cases a) auto
  moreover have "takeWhile is_digit (a @ CHR ''/'' # b @ r) = a" using assms(1) by (intro take_digits) simp_all
  ultimately show ?thesis
    using slash_digits_eq [OF assms(2,3)] assms(1) by (simp add: mixed_part_def Let_def digits_def)
qed

lemma qty_match_eq:
  assumes "is_quantity q" "\<not> js_space c" "\<not> is_digit c"
  shows "qty_match (q @ CHR '' '' # c # r) = Some (q, c # r)"
  using assms(1)
proof cases
  case 1
  then have t: "takeWhile is_digit (q @ CHR '' '' # c # r) = q" by (intro take_digits) simp_all
  show ?thesis using 1 assms(2)
    by (simp add: qty_match_def t Let_def mixed_space [OF assms(2,3)] decimal_none slash_none digits_def)
next
  case (2 n d)
  then have t: "takeWhile is_digit (n @ CHR ''.'' # d @ CHR '' '' # c # r) = n" by (intro take_digits) simp_all
  have "decimal_part (CHR ''.'' # d @ CHR '' '' # c # r) = Some (CHR ''.'' # d)" using 2 by (intro decimal_eq) simp_all
  with 2 assms(2) show ?thesis by (simp add: qty_match_def t Let_def mixed_none digits_def)
next
  case (3 n d)
  then have t: "takeWhile is_digit (n @ CHR ''/'' # d @ CHR '' '' # c # r) = n" by (intro take_digits) simp_all
  have "slash_digits (CHR ''/'' # d @ CHR '' '' # c # r) = Some (CHR ''/'' # d)" using 3 by (intro slash_digits_eq) simp_all
  with 3 assms(2) show ?thesis by (simp add: qty_match_def t Let_def mixed_none decimal_none digits_def)
next
  case (4 n a b)
  then have t: "takeWhile is_digit (n @ CHR '' '' # a @ CHR ''/'' # b @ CHR '' '' # c # r) = n" by (intro take_digits) simp_all
  have "mixed_part (CHR '' '' # a @ CHR ''/'' # b @ CHR '' '' # c # r) = Some (CHR '' '' # a @ CHR ''/'' # b)"
    using 4 by (intro mixed_eq) simp_all
  with 4 assms(2) show ?thesis by (simp add: qty_match_def t Let_def digits_def)
qed

lemma split_white_join:
  "ws \<noteq> [] \<Longrightarrow> list_all (\<lambda>w. w \<noteq> [] \<and> list_all (\<lambda>c. \<not> js_space c) w) ws \<Longrightarrow> split_white (join '' '' ws) = ws"
proof (induction ws)
  case (Cons w ws)
  from Cons.prems have w: "\<And>c. c \<in> set w \<Longrightarrow> \<not> js_space c" by (simp add: list_all_iff)
  show ?case
  proof (cases ws)
    case Nil
    have d: "dropWhile (\<lambda>c. \<not> js_space c) w = []" using w by (simp add: dropWhile_eq_Nil_conv)
    show ?thesis unfolding Nil join.simps split_white.simps [of w] d list.case ..
  next
    case (Cons v vs)
    then have "join '' '' ws \<noteq> []" "\<not> js_space (hd (join '' '' ws))"
      using \<open>list_all _ (w # ws)\<close> by (cases v; cases vs; auto)+
    then have "dropWhile js_space (join '' '' ws) = join '' '' ws" by (intro dropWhile_hd)
    moreover have "dropWhile (\<lambda>c. \<not> js_space c) (w @ CHR '' '' # join '' '' ws) = CHR '' '' # join '' '' ws"
      "takeWhile (\<lambda>c. \<not> js_space c) (w @ CHR '' '' # join '' '' ws) = w"
      using w by (simp_all add: dropWhile_append2 takeWhile_append2)
    moreover have "split_white (join '' '' ws) = ws" using Cons.IH Cons.prems Cons by simp
    moreover have "join '' '' (w # ws) = w @ CHR '' '' # join '' '' ws" using Cons by simp
    ultimately show ?thesis
      by (simp only: split_white.simps [of "w @ CHR '' '' # join '' '' ws"] list.case dropWhile.simps sep_space if_True)
  qed
qed simp

lemma normalize_plain: "list_all (\<lambda>c. fraction_of c = None) s \<Longrightarrow> normalizeUnicodeFractions s = s"
  by (induction s) (simp_all add: normalizeUnicodeFractions_def)

lemma digit_plain: "is_digit c \<Longrightarrow> fraction_of c = None"
  by (auto simp: is_digit_def fraction_of_def)

lemma digits_no_fraction: "digits n \<Longrightarrow> list_all (\<lambda>c. fraction_of c = None) n"
  by (simp add: digits_def list_all_iff digit_plain)

lemma sep_plain [simp]: "fraction_of (CHR '' '') = None" "fraction_of (CHR ''.'') = None" "fraction_of (CHR ''/'') = None"
  by (simp_all add: fraction_of_def)

lemma quantity_plain: "is_quantity q \<Longrightarrow> list_all (\<lambda>c. fraction_of c = None) q"
  by (induction rule: is_quantity.induct) (simp_all add: digits_no_fraction)

lemma quantity_trimmed: "is_quantity q \<Longrightarrow> trimmed q \<and> q \<noteq> [] \<and> \<not> js_space (hd q)"
  by (induction rule: is_quantity.induct) (auto simp: trimmed_def digits_hd digits_last hd_append)

lemma words_plain: "list_all plain_word ws \<Longrightarrow> list_all (\<lambda>c. fraction_of c = None) (join '' '' ws)"
proof (induction ws)
  case (Cons w ws)
  then show ?case by (cases ws) (auto simp: plain_word_def list_all_iff)
qed simp

lemma words_ends:
  "ws \<noteq> [] \<Longrightarrow> list_all plain_word ws \<Longrightarrow>
     join '' '' ws \<noteq> [] \<and> hd (join '' '' ws) = hd (hd ws) \<and> last (join '' '' ws) = last (last ws)"
proof (induction ws)
  case (Cons w ws)
  then show ?case by (cases ws) (auto simp: plain_word_def hd_append last_append)
qed simp

lemma words_trimmed: "list_all plain_word ws \<Longrightarrow> trimmed (join '' '' ws)"
proof (cases "ws = []")
  case False
  assume a: "list_all plain_word ws"
  with False have "plain_word (hd ws)" "plain_word (last ws)" by (simp_all add: list_all_iff)
  with words_ends [OF False a] show ?thesis by (auto simp: trimmed_def plain_word_def list_all_iff)
qed (simp add: trimmed_def)

lemma strip_of_word:
  assumes "plain_word w" "js_lower w \<noteq> ''of''" "r = [] \<or> hd r = CHR '' ''"
  shows "strip_of (w @ r) = w @ r"
proof -
  consider a where "w = [a]" | a b where "w = [a, b]" | a b c v where "w = a # b # c # v"
    using assms(1) by (cases w rule: remdups_adj.cases) (auto simp: plain_word_def neq_Nil_conv, metis neq_Nil_conv)
  then show ?thesis
  proof cases
    case 1
    with assms(3) show ?thesis by (cases r) (auto simp: strip_of_def js_lower_def js_lower_char_def)
  next
    case 2
    with assms(2) show ?thesis by (simp add: strip_of_def)
  next
    case 3
    with assms(1) show ?thesis by (simp add: strip_of_def plain_word_def)
  qed
qed

lemma strip_of_words:
  assumes "ws \<noteq> []" "list_all plain_word ws" "js_lower (hd ws) \<noteq> ''of''"
  shows "strip_of (join '' '' ws) = join '' '' ws"
proof -
  obtain w vs where ws: "ws = w # vs" using assms(1) by (cases ws) auto
  then obtain r where "join '' '' ws = w @ r" "r = [] \<or> hd r = CHR '' ''" by (cases vs) auto
  with strip_of_word [of w r] assms ws show ?thesis by simp
qed

text \<open>An ingredient line is read back: of "quantity unit item", the quantity digits, decimals, a fraction or
  a mixed number, the unit a name the unit table knows, the parts come out as they went in, the unit by its
  canonical name. The first two words must not be a unit together, the item must not begin with "of".\<close>

theorem ingredient_line_roundtrip:
  assumes "is_quantity q" "canonicalUnitName u = Some c" "plain_word u" "\<not> is_digit (hd u)" "last u \<noteq> CHR ''.''"
    and "ws \<noteq> []" "list_all plain_word ws" "canonicalUnitName (u @ '' '' @ hd ws) = None" "js_lower (hd ws) \<noteq> ''of''"
  shows "parseIngredientString (q @ '' '' @ u @ '' '' @ join '' '' ws) =
    \<lparr>si_quantity = q, si_unit = c, si_item = join '' '' ws\<rparr>"
proof -
  let ?item = "join '' '' ws" and ?rest = "join '' '' (u # ws)"
  have rest: "?rest = u @ '' '' @ ?item" using assms(6) by (simp add: join_Cons)
  have words: "list_all plain_word (u # ws)" using assms(3,7) by simp
  obtain k r where kr: "?rest = k # r" "\<not> js_space k" "\<not> is_digit k"
    using assms(3,4) unfolding rest by (cases u) (auto simp: plain_word_def)
  have "list_all (\<lambda>c. fraction_of c = None) (q @ '' '' @ ?rest)"
    using quantity_plain [OF assms(1)] words_plain [OF words] by simp
  then have n: "normalizeUnicodeFractions (q @ '' '' @ ?rest) = q @ '' '' @ ?rest" by (rule normalize_plain)
  have "trimmed (q @ '' '' @ ?rest)"
    using quantity_trimmed [OF assms(1)] words_trimmed [OF words] kr(1) by (auto simp: trimmed_def last_append)
  then have t: "js_trim (q @ '' '' @ ?rest) = q @ '' '' @ ?rest" by (rule trim_id)
  have m: "qty_match (q @ '' '' @ ?rest) = Some (q, ?rest)" using qty_match_eq [OF assms(1) kr(2,3)] kr(1) by simp
  have s: "split_white ?rest = u # ws" using words by (intro split_white_join) (auto simp: plain_word_def list_all_iff)
  have tr: "js_trim q = q" "js_trim ?rest = ?rest" "js_trim ?item = ?item"
    using quantity_trimmed [OF assms(1)] words_trimmed [OF words] words_trimmed [OF assms(7)] by (simp_all add: trim_id)
  have "strip_of ?item = ?item" using assms(6,7,9) by (rule strip_of_words)
  moreover have "?item \<noteq> []" using words_ends [OF assms(6,7)] by simp
  moreover have "(u # ws) ! 1 = hd ws" "2 \<le> length (u # ws)" using assms(6) by (cases ws; simp)+
  moreover have "\<not> suffix ''.'' u" using assms(5) by (auto simp: suffix_def)
  moreover have "parseIngredientString raw = \<lparr>si_quantity = q, si_unit = c, si_item = item\<rparr>"
    if "normalizeUnicodeFractions raw = raw" "js_trim raw = raw" "qty_match raw = Some (q, rest)" "split_white rest = u # ws"
      "js_trim q = q" "js_trim rest = rest" "js_trim item = item" "strip_of item = item" "item \<noteq> []" "item = join '' '' ws"
      "(u # ws) ! 1 = hd ws" "2 \<le> length (u # ws)" "\<not> suffix ''.'' u" for raw rest item
    using that(1-9,11-13) that(10) [symmetric] assms(2,8) by (simp add: parseIngredientString_def Let_def)
  ultimately have "parseIngredientString (q @ '' '' @ ?rest) = \<lparr>si_quantity = q, si_unit = c, si_item = ?item\<rparr>"
    using n t m s tr by blast
  then show ?thesis unfolding rest .
qed

theorem ingredient_line_roundtrip_witness:
  "parseIngredientString (''2 1/2'' @ '' '' @ ''cups'' @ '' '' @ join '' '' [''plain'', ''flour'']) =
    \<lparr>si_quantity = ''2 1/2'', si_unit = ''cup'', si_item = join '' '' [''plain'', ''flour'']\<rparr>"
proof (rule ingredient_line_roundtrip)
  have "digits ''2''" "digits ''1''" by (simp_all add: digits_def is_digit_def)
  then show "is_quantity ''2 1/2''" using is_quantity.intros(4) [of "''2''" "''1''" "''2''"] by simp
  show "canonicalUnitName ''cups'' = Some ''cup''" unfolding canonicalUnitName_lookup by code_simp
  show "canonicalUnitName (''cups'' @ '' '' @ hd [''plain'', ''flour'']) = None" unfolding canonicalUnitName_lookup by code_simp
qed (simp_all add: plain_word_def js_space_def fraction_of_def is_digit_def js_lower_def js_lower_char_def)

text \<open>C18: scraping finds every recipe in the JSON-LD of a page, however deep in lists and graphs, and nothing
  else: there is a result exactly when some script that parses holds a recipe (an object whose type is \<^verbatim>\<open>Recipe\<close> or a list with it), a script that does not parse
  does not stop the search, and what is scraped is one of the recipes of a script.\<close>

theorem scraping_finds_every_recipe:
  "(hasJsonLdRecipe scripts \<longleftrightarrow> extractFromJsonLd scripts \<noteq> None) \<and>
   (hasJsonLdRecipe scripts \<longleftrightarrow>
      (\<exists>t \<in> set scripts. \<exists>data r. parse_json t = Some data \<and> json_node data r \<and> schema_recipe r)) \<and>
   (\<forall>x. extractFromJsonLd scripts = Some x \<longrightarrow>
      (\<exists>t \<in> set scripts. \<exists>data r. parse_json t = Some data \<and> json_node data r \<and> schema_recipe r \<and> x = mapSchemaOrgToRecipe r))"
proof (intro conjI allI impI)
  show "hasJsonLdRecipe scripts \<longleftrightarrow> extractFromJsonLd scripts \<noteq> None"
    by (simp add: hasJsonLdRecipe_def extractFromJsonLd_def)
  show "hasJsonLdRecipe scripts \<longleftrightarrow>
      (\<exists>t \<in> set scripts. \<exists>data r. parse_json t = Some data \<and> json_node data r \<and> schema_recipe r)"
    using first_recipe_some [of scripts] by (simp add: hasJsonLdRecipe_def not_None_eq)
next
  fix x assume "extractFromJsonLd scripts = Some x"
  then obtain r where r: "first_recipe scripts = Some r" "x = mapSchemaOrgToRecipe r"
    by (auto simp: extractFromJsonLd_def)
  then obtain t data where "t \<in> set scripts" "parse_json t = Some data" "findRecipeInJsonLd data = Some r"
    unfolding first_recipe_def by (auto dest!: find_map_Some split: option.splits)
  with r(2) findRecipe_sound show "\<exists>t \<in> set scripts. \<exists>data r. parse_json t = Some data \<and> json_node data r \<and> schema_recipe r \<and> x = mapSchemaOrgToRecipe r"
    by blast
qed

theorem scraping_finds_every_recipe_witness:
  "\<exists>x. extractFromJsonLd [''{'', ''[{\"@graph\":[{\"@type\":\"Recipe\"}]}]''] = Some x"
proof -
  have "hasJsonLdRecipe [''{'', ''[{\"@graph\":[{\"@type\":\"Recipe\"}]}]'']" by code_simp
  then show ?thesis using scraping_finds_every_recipe [of "[''{'', ''[{\"@graph\":[{\"@type\":\"Recipe\"}]}]'']"] by auto
qed

text \<open>The tags of a recipe are the comma-separated words of its category and its keywords, wherever they
  stand in nested lists: each without white space around it, in lower case, not empty, and once.\<close>

theorem tags_are_the_words:
  "distinct (parseTags category keywords) \<and>
   set (parseTags category keywords) =
     {t. t \<noteq> [] \<and> (\<exists>v \<in> {v. category = Some v \<or> keywords = Some v}. \<exists>s \<in> set (json_texts v).
           \<exists>w \<in> set (split_comma s). t = js_lower (js_trim w))}"
proof (intro conjI set_eqI)
  fix t
  show "t \<in> set (parseTags category keywords) \<longleftrightarrow>
     t \<in> {t. t \<noteq> [] \<and> (\<exists>v \<in> {v. category = Some v \<or> keywords = Some v}. \<exists>s \<in> set (json_texts v).
           \<exists>w \<in> set (split_comma s). t = js_lower (js_trim w))}"
    unfolding parseTags_facts [THEN conjunct2] tags_of_def UN_iff mem_Collect_eq image_iff by blast
qed (simp add: parseTags_facts)

text \<open>The instructions of a page become one numbered list: the steps of the elements in order, a section
  giving the steps of its own list, numbered from 1 without a gap, an image on the line after its step; the
  image URLs reported are those of the image lines, in the same order.\<close>

theorem instructions_are_numbered:
  "normalizeInstructions (Some (JArr xs)) =
     (let ss = concat (map item_steps xs)
      in (join [NL] (concat (map step_lines (List.enumerate 1 ss))), concat (map (image_urls \<circ> snd) ss)))"
  by (rule normalized_steps)

text \<open>The format for the language model loses steps: of a section whose steps are plain strings, the
  import keeps every step, buildSimpleFormat writes none, only what the section itself says.\<close>

theorem simple_format_drops_plain_steps:
  assumes "sub_items (JObj ms) = map JStr ts"
  shows "norm_item s (JObj ms) = add_all (own_steps (JObj ms) @ map (\<lambda>t. (stripHtml t, None)) ts) s \<and>
    simple_item s (JObj ms) = say_image (JObj ms) (say_step (name_or_text (JObj ms)) s)"
  using assms by (simp add: norm_item_steps item_steps_def sub_steps_of_texts simple_section_of_texts del: map_map)

theorem simple_format_drops_plain_steps_witness:
  "st_lines (norm_item no_steps (JObj [(''itemListElement'', JArr [JStr ''Mix'', JStr ''Bake''])])) = [''1. Mix'', ''2. Bake''] \<and>
   st_lines (simple_item no_steps (JObj [(''itemListElement'', JArr [JStr ''Mix'', JStr ''Bake''])])) = []"
proof -
  let ?ms = "[(''itemListElement'', JArr [JStr ''Mix'', JStr ''Bake''])]"
  have "sub_items (JObj ?ms) = map JStr [''Mix'', ''Bake'']" by (simp add: sub_items_def json_prop_def)
  note * = simple_format_drops_plain_steps [OF this, of no_steps]
  have stripped: "stripHtml ''Mix'' = ''Mix''" "stripHtml ''Bake'' = ''Bake''" by code_simp+
  have num: "nat_to_string (Suc 0) = ''1''" "nat_to_string (Suc (Suc 0)) = ''2''" by code_simp+
  have "own_steps (JObj ?ms) = []" by (simp add: own_steps_def json_prop_def)
  moreover have "name_or_text (JObj ?ms) = []" "image_of (JObj ?ms) = None"
    by (simp_all add: name_or_text_def image_of_def extractStepImageUrl_def json_prop_def)
  ultimately show ?thesis
    unfolding * [THEN conjunct1] * [THEN conjunct2]
    by (simp add: add_all_eq step_lines_def image_urls_def no_steps_def say_image_def say_step_def stripped num)
qed

text \<open>At most 15 images of a page are offered, no URL twice; all but the preview image have a source that
  is not inline data, does not look like a logo, an icon, an avatar or a badge and whose size is not tiny.\<close>

theorem page_images_bounded:
  "length (extractHtmlImages ogImage ogTitle imgs) \<le> 15 \<and>
   (\<exists>us. lines_for (extractHtmlImages ogImage ogTitle imgs) us \<and> distinct us \<and>
      set us \<subseteq> set_option ogImage \<union> hi_src ` {i \<in> set imgs. \<not> skip_img [] i})"
proof (cases "\<exists>c u. ogImage = Some (c # u)")
  case True
  then obtain c u where o: "ogImage = Some (c # u)" by blast
  let ?l = "img_line (case ogTitle of None \<Rightarrow> [] | Some t \<Rightarrow> t) (c # u)"
  have "lines_for [?l] [c # u]" by (auto simp: lines_for_def)
  from collect_imgs_facts [OF _ this, of "[c # u]" imgs] show ?thesis by (simp add: extractHtmlImages_def o)
next
  case False
  then have "extractHtmlImages ogImage ogTitle imgs = collect_imgs [] [] imgs"
    by (auto simp: extractHtmlImages_def split: option.split list.split)
  moreover have "lines_for [] []" by (simp add: lines_for_def)
  note collect_imgs_facts [OF _ this, of "[]" imgs]
  ultimately show ?thesis by fastforce
qed

lemma pt_free: "\<forall>c \<in> set s. js_lower_char c \<noteq> CHR ''p'' \<Longrightarrow> after_PT s = None"
  by (induction s) (auto simp: js_lower_def)

lemma digit_lower: "is_digit c \<Longrightarrow> js_lower_char c = c"
  by (auto simp: is_digit_def js_lower_char_def)

lemma printed_no_p: "c \<in> set (nat_to_string n) \<Longrightarrow> js_lower_char c \<noteq> CHR ''p'' \<and> js_lower_char c \<noteq> CHR ''t''"
  using nat_digits [of n] digit_lower [of c] by (auto simp: list_all_iff is_digit_def)

lemma unit_number_printed:
  assumes "\<not> is_digit c" "js_lower_char c = l"
  shows "unit_number [l] (nat_to_string n @ c # r) = (n, r)"
    "js_lower_char c \<noteq> k \<Longrightarrow> unit_number [k] (nat_to_string n @ c # r) = (0, nat_to_string n @ c # r)"
proof -
  have "digits (nat_to_string n)" using nat_digits [of n] by (simp add: digits_def)
  then have "takeWhile is_digit (nat_to_string n @ c # r) = nat_to_string n" using assms by (intro take_digits) simp_all
  then show "unit_number [l] (nat_to_string n @ c # r) = (n, r)"
    "js_lower_char c \<noteq> k \<Longrightarrow> unit_number [k] (nat_to_string n @ c # r) = (0, nat_to_string n @ c # r)"
    using assms nat_digits [of n] by (simp_all add: unit_number_def Let_def js_lower_def digits_value_print)
qed

lemma unit_number_end: "unit_number [k] [] = (0, [])"
  by (simp add: unit_number_def)

text \<open>The times of a recipe: hours and minutes, either part alone too, come out as minutes; a duration that
  gives days as well (P0DT1H30M, as some sites write it) is read as no time at all.\<close>

theorem durations:
  "parseISO8601Duration (''PT'' @ nat_to_string h @ ''H'' @ nat_to_string m @ ''M'') = 60 * h + m \<and>
   parseISO8601Duration (''PT'' @ nat_to_string h @ ''H'') = 60 * h \<and>
   parseISO8601Duration (''PT'' @ nat_to_string m @ ''M'') = m \<and>
   parseISO8601Duration (''P'' @ nat_to_string d @ ''DT'' @ nat_to_string h @ ''H'' @ nat_to_string m @ ''M'') = 0"
proof -
  have up: "js_lower_char (CHR ''P'') = CHR ''p''" "js_lower_char (CHR ''T'') = CHR ''t''" "js_lower_char (CHR ''D'') = CHR ''d''"
    by code_simp+
  have pt: "after_PT (''PT'' @ s) = Some s" for s by (simp add: js_lower_def up)
  have l: "js_lower_char (CHR ''H'') = CHR ''h''" "js_lower_char (CHR ''M'') = CHR ''m''" "\<not> is_digit (CHR ''H'')" "\<not> is_digit (CHR ''M'')"
    by code_simp+
  have a: "parseISO8601Duration (''PT'' @ nat_to_string h @ ''H'' @ nat_to_string m @ ''M'') = 60 * h + m"
    unfolding parseISO8601Duration_def pt by (simp add: unit_number_printed l)
  have b: "parseISO8601Duration (''PT'' @ nat_to_string h @ ''H'') = 60 * h"
    unfolding parseISO8601Duration_def pt by (simp add: unit_number_printed unit_number_end l)
  have c: "parseISO8601Duration (''PT'' @ nat_to_string m @ ''M'') = m"
    unfolding parseISO8601Duration_def pt by (simp add: unit_number_printed unit_number_end l)
  obtain e es where d: "nat_to_string d = e # es" using nat_digits [of d] by (cases "nat_to_string d") auto
  have "after_PT (nat_to_string d @ ''DT'' @ nat_to_string h @ ''H'' @ nat_to_string m @ ''M'') = None"
    using printed_no_p by (intro pt_free) (auto simp: up l)
  moreover have "js_lower_char e \<noteq> CHR ''t''" using printed_no_p [of e d] by (simp add: d)
  ultimately have "after_PT (''P'' @ nat_to_string d @ ''DT'' @ nat_to_string h @ ''H'' @ nat_to_string m @ ''M'') = None"
    by (simp add: d js_lower_def up)
  with a b c show ?thesis unfolding parseISO8601Duration_def by simp
qed

text \<open>A vulgar fraction after a digit runs into it, though the comment on the pattern lists such a quantity.\<close>

lemma half_after_two: "parseIngredientString (''2'' @ [CHR 0xBD] @ '' cups flour'') = \<lparr>si_quantity = ''21/2'', si_unit = ''cup'', si_item = ''flour''\<rparr>"
  unfolding parseIngredientString_def canonicalUnitName_lookup by code_simp

text \<open>The entities are decoded one after the other: an escaped escape is decoded twice.\<close>

lemma escaped_twice: "stripHtml ''a &amp;lt; b'' = ''a < b''"
  by code_simp

end
