(* ===== verification/Vector_Search.thy ===== *)
theory Vector_Search
  imports Js_Text "HOL-Library.Word"
begin

text \<open>
  \<^verbatim>\<open>lib/vector-search.ts\<close> and \<^verbatim>\<open>lib/embedding-store.ts\<close>: the queue that indexes recipes for the vector search.
  The module's variables are the record \<open>vs\<close>. An asynchronous function is cut at its awaits: what it does
  next is a \<open>frame\<close>, waiting for the database or a document (\<open>vs_tasks\<close>), for a message of the worker
  (\<open>vs_pending\<close>) or on a promise that was rejected for want of a worker (\<open>vs_rejected\<close>). A run is a list of
  events that resume them in any order. The worker's vectors are opaque (\<open>'v\<close>); the embedding database is
  its content, an operation on it and what follows its await are one step. The progress display is left out.
\<close>

subsection \<open>The text and its hash\<close>

record recipe_meta =
  rm_title :: string
  rm_tags :: "string list"

record recipe_body =
  rb_description :: string
  rb_items :: "string list"
  rb_instructions :: string
  rb_notes :: string

definition content_text :: "recipe_body \<Rightarrow> string" where
  "content_text d =
     join ''. '' ((if rb_description d = [] then [] else [rb_description d])
       @ (if rb_items d = [] then [] else [''Ingredients: '' @ join '', '' (rb_items d)])
       @ (if rb_instructions d = [] then [] else [rb_instructions d])
       @ (if rb_notes d = [] then [] else [rb_notes d]))"

text \<open>\<open>meta\<close> is the entry of the catalog, if there is one; \<open>doc\<close> the recipe's document, unless it failed to open.\<close>

definition extractRecipeText :: "recipe_meta option \<Rightarrow> recipe_body option \<Rightarrow> string option" where
  "extractRecipeText meta doc =
     (case meta of
        None \<Rightarrow> None
      | Some m \<Rightarrow>
          let titlePart = rm_title m @ (if rm_tags m = [] then [] else ''. '' @ join '', '' (rm_tags m));
              contentText = (case doc of None \<Rightarrow> [] | Some d \<Rightarrow> content_text d)
          in Some (take 2000 (titlePart @ (if contentText = [] then [] else ''. '' @ contentText))))"

text \<open>\<^verbatim>\<open>h.toString(36)\<close> of a 32-bit integer\<close>

definition digit36 :: "nat \<Rightarrow> char" where
  "digit36 n = char_of (if n < 10 then 48 + n else 87 + n)"

fun nat_to_base36 :: "nat \<Rightarrow> string" where
  "nat_to_base36 n = (if n < 36 then [digit36 n] else nat_to_base36 (n div 36) @ [digit36 (n mod 36)])"

declare nat_to_base36.simps [simp del]

definition int_to_base36 :: "int \<Rightarrow> string" where
  "int_to_base36 i = (if i < 0 then ''-'' @ nat_to_base36 (nat (- i)) else nat_to_base36 (nat i))"

definition hash_step :: "32 word \<Rightarrow> char \<Rightarrow> 32 word" where
  "hash_step h c = push_bit 5 h - h + of_nat (of_char c)"

definition simpleHash :: "string \<Rightarrow> string" where
  "simpleHash s = nat_to_string (length s) @ '':'' @ int_to_base36 (sint (foldl hash_step 0 s))"

subsection \<open>State\<close>

text \<open>A queued recipe: vault, recipe and whether its priority is high\<close>

type_synonym queue_item = "string \<times> string \<times> bool"

definition recipe_key :: "string \<Rightarrow> string \<Rightarrow> string" where
  "recipe_key vaultId recipeId = vaultId @ ''/'' @ recipeId"

definition item_key :: "queue_item \<Rightarrow> string" where
  "item_key i = (case i of (v, r, _) \<Rightarrow> recipe_key v r)"

type_synonym texts = "(string \<times> string) list"

datatype 'v frame =
    InitOpen
  | InitLoad
  | InitSent
  | ModelLoad
  | ExtractText queue_item "queue_item list" texts
  | HashLookup queue_item string "queue_item list" texts
  | EmbedBatch texts
  | PutResult string 'v "(string \<times> 'v) list" texts
  | YieldBatch
  | ClearDb
  | ClearWorker
  | RemoveDb string
  | RemoveWorker
  | SearchWait

record 'v vs =
  vs_worker :: "nat option"
  vs_alive :: "nat list"
  vs_nextWorker :: nat
  vs_embeddingDb :: bool
  vs_store :: "(string \<times> 'v \<times> string) list"
  vs_modelReady :: bool
  vs_indexingComplete :: bool
  vs_hasShownReadyToast :: bool
  vs_msgId :: nat
  vs_pending :: "(nat \<times> nat \<times> 'v frame) list"
  vs_queue :: "queue_item list"
  vs_queueSet :: "string list"
  vs_processing :: bool
  vs_paused :: bool
  vs_invalidateTimers :: "(string \<times> string \<times> string) list"
  vs_totalQueued :: nat
  vs_totalProcessed :: nat
  vs_indexingStartTime :: nat
  vs_listeners :: nat
  vs_tasks :: "'v frame list"
  vs_rejected :: "'v frame list"
  vs_docMgr :: bool
  vs_catalogs :: "(string \<times> string) list"
  vs_now :: nat

definition vs_init :: "'v vs" where
  "vs_init = \<lparr>vs_worker = None, vs_alive = [], vs_nextWorker = 0, vs_embeddingDb = False, vs_store = [],
     vs_modelReady = False, vs_indexingComplete = False, vs_hasShownReadyToast = False, vs_msgId = 0,
     vs_pending = [], vs_queue = [], vs_queueSet = [], vs_processing = False, vs_paused = False,
     vs_invalidateTimers = [], vs_totalQueued = 0, vs_totalProcessed = 0, vs_indexingStartTime = 0,
     vs_listeners = 0, vs_tasks = [], vs_rejected = [], vs_docMgr = False, vs_catalogs = [], vs_now = 0\<rparr>"

definition await_task :: "'v frame \<Rightarrow> 'v vs \<Rightarrow> 'v vs" where
  "await_task f s = s\<lparr>vs_tasks := vs_tasks s @ [f]\<rparr>"

definition postWorker :: "'v frame \<Rightarrow> 'v vs \<Rightarrow> 'v vs" where
  "postWorker f s =
     (case vs_worker s of
        None \<Rightarrow> s\<lparr>vs_rejected := vs_rejected s @ [f]\<rparr>
      | Some w \<Rightarrow>
          let i = Suc (vs_msgId s)
          in s\<lparr>vs_msgId := i, vs_pending := vs_pending s @ [(i, w, f)]\<rparr>)"

subsection \<open>Queue processing\<close>

definition BATCH_SIZE :: nat where "BATCH_SIZE = 5"

definition next_item :: "queue_item list \<Rightarrow> texts \<Rightarrow> 'v vs \<Rightarrow> 'v vs" where
  "next_item batch ts s =
     (case batch of
        i # rest \<Rightarrow> await_task (ExtractText i rest ts) s
      | [] \<Rightarrow> if ts = [] then await_task YieldBatch s else postWorker (EmbedBatch ts) s)"

definition index_done :: "'v vs \<Rightarrow> 'v vs" where
  "index_done s =
     s\<lparr>vs_indexingComplete := True, vs_hasShownReadyToast := (vs_hasShownReadyToast s \<or> 0 < vs_totalProcessed s),
       vs_totalQueued := 0, vs_totalProcessed := 0, vs_indexingStartTime := 0\<rparr>"

definition next_batch :: "'v vs \<Rightarrow> 'v vs" where
  "next_batch s =
     (if vs_queue s \<noteq> [] \<and> \<not> vs_paused s
      then let batch = take BATCH_SIZE (vs_queue s)
           in next_item batch []
                (s\<lparr>vs_queue := drop BATCH_SIZE (vs_queue s),
                   vs_queueSet := foldl (\<lambda>q i. set_delete (item_key i) q) (vs_queueSet s) batch,
                   vs_totalProcessed := vs_totalProcessed s + length batch\<rparr>)
      else let s1 = s\<lparr>vs_processing := False\<rparr>
           in if vs_queue s = [] \<and> \<not> vs_indexingComplete s then index_done s1 else s1)"

definition processQueue :: "'v vs \<Rightarrow> 'v vs" where
  "processQueue s =
     (if vs_processing s \<or> \<not> vs_modelReady s \<or> vs_paused s then s
      else let s1 = s\<lparr>vs_processing := True,
                      vs_indexingStartTime := (if vs_indexingStartTime s = 0 then vs_now s else vs_indexingStartTime s)\<rparr>
           in if \<not> vs_docMgr s \<or> \<not> vs_embeddingDb s then s1\<lparr>vs_processing := False\<rparr> else next_batch s1)"

definition put_results :: "(string \<times> 'v) list \<Rightarrow> texts \<Rightarrow> 'v vs \<Rightarrow> 'v vs" where
  "put_results rs ts s =
     (case rs of
        [] \<Rightarrow> await_task YieldBatch s
      | (k, v) # rest \<Rightarrow>
          if vs_embeddingDb s then await_task (PutResult k v rest ts) s else await_task YieldBatch s)"

definition enqueueRecipe :: "string \<Rightarrow> string \<Rightarrow> bool \<Rightarrow> 'v vs \<Rightarrow> 'v vs" where
  "enqueueRecipe vaultId recipeId high s =
     (let key = recipe_key vaultId recipeId in
      if key \<in> set (vs_queueSet s) then s
      else
        let s1 = s\<lparr>vs_queueSet := set_add key (vs_queueSet s)\<rparr>;
            s2 = (if vs_indexingComplete s1
                  then s1\<lparr>vs_indexingComplete := False, vs_totalQueued := 0, vs_totalProcessed := 0, vs_indexingStartTime := 0\<rparr>
                  else s1);
            s3 = s2\<lparr>vs_totalQueued := Suc (vs_totalQueued s2),
                    vs_queue := (if high then (vaultId, recipeId, high) # vs_queue s2 else vs_queue s2 @ [(vaultId, recipeId, high)])\<rparr>
        in if vs_modelReady s3 \<and> \<not> vs_processing s3 \<and> \<not> vs_paused s3 then processQueue s3 else s3)"

subsection \<open>Start, stop and the rest of the interface\<close>

definition buildInitialQueue :: "'v vs \<Rightarrow> 'v vs" where
  "buildInitialQueue s =
     (if \<not> vs_docMgr s then s else foldl (\<lambda>t (v, r). enqueueRecipe v r False t) s (vs_catalogs s))"

definition initVectorSearch :: "'v vs \<Rightarrow> 'v vs" where
  "initVectorSearch s = (if vs_worker s \<noteq> None then s else await_task InitOpen s)"

definition init_rest :: "'v vs \<Rightarrow> 'v vs" where
  "init_rest s =
     (let s1 = buildInitialQueue (postWorker ModelLoad s) in s1\<lparr>vs_listeners := Suc (vs_listeners s1)\<rparr>)"

definition visibility_listener :: "bool \<Rightarrow> 'v vs \<Rightarrow> 'v vs" where
  "visibility_listener hidden s =
     (let s1 = s\<lparr>vs_paused := hidden\<rparr> in if \<not> hidden \<and> vs_modelReady s1 then processQueue s1 else s1)"

definition invalidateRecipe :: "string \<Rightarrow> string \<Rightarrow> 'v vs \<Rightarrow> 'v vs" where
  "invalidateRecipe vaultId recipeId s =
     s\<lparr>vs_invalidateTimers := map_set (recipe_key vaultId recipeId) (vaultId, recipeId) (vs_invalidateTimers s)\<rparr>"

definition invalidate_fires :: "string \<Rightarrow> 'v vs \<Rightarrow> 'v vs" where
  "invalidate_fires key s =
     (case map_get (vs_invalidateTimers s) key of
        None \<Rightarrow> s
      | Some (v, r) \<Rightarrow> enqueueRecipe v r False (s\<lparr>vs_invalidateTimers := map_delete key (vs_invalidateTimers s)\<rparr>))"

definition vectorSearch :: "'v vs \<Rightarrow> 'v vs" where
  "vectorSearch s = (if vs_worker s = None \<or> \<not> vs_modelReady s then s else postWorker SearchWait s)"

definition remove_rest :: "'v vs \<Rightarrow> 'v vs" where
  "remove_rest s = (if vs_worker s = None then s else postWorker RemoveWorker s)"

definition removeBook :: "string \<Rightarrow> 'v vs \<Rightarrow> 'v vs" where
  "removeBook vaultId s = (if vs_embeddingDb s then await_task (RemoveDb vaultId) s else remove_rest s)"

definition clear_reset :: "'v vs \<Rightarrow> 'v vs" where
  "clear_reset s =
     s\<lparr>vs_embeddingDb := False,
       vs_alive := (case vs_worker s of None \<Rightarrow> vs_alive s | Some w \<Rightarrow> set_delete w (vs_alive s)),
       vs_worker := None, vs_modelReady := False, vs_indexingComplete := False, vs_queue := [], vs_queueSet := [],
       vs_invalidateTimers := []\<rparr>"

definition clear_rest :: "'v vs \<Rightarrow> 'v vs" where
  "clear_rest s = (if vs_worker s = None then clear_reset s else postWorker ClearWorker s)"

definition clearAll :: "'v vs \<Rightarrow> 'v vs" where
  "clearAll s = (if vs_embeddingDb s then await_task ClearDb s else clear_rest s)"

subsection \<open>The embedding database\<close>

text \<open>A stored embedding is a vector with the hash of the text it was made from, filed under the recipe's key.\<close>

definition getHash :: "(string \<times> 'v \<times> string) list \<Rightarrow> string \<Rightarrow> string option" where
  [simp]: "getHash db k = map_option snd (map_get db k)"

definition putEmbedding :: "string \<Rightarrow> 'v \<Rightarrow> string \<Rightarrow> (string \<times> 'v \<times> string) list \<Rightarrow> (string \<times> 'v \<times> string) list" where
  [simp]: "putEmbedding k v h db = map_set k (v, h) db"

definition removeBook_db :: "string \<Rightarrow> (string \<times> 'v \<times> string) list \<Rightarrow> (string \<times> 'v \<times> string) list" where
  [simp]: "removeBook_db vaultId db = filter (\<lambda>(k, e). \<not> prefix (vaultId @ ''/'') k) db"

definition clearAll_db :: "(string \<times> 'v \<times> string) list \<Rightarrow> (string \<times> 'v \<times> string) list" where
  [simp]: "clearAll_db db = []"

subsection \<open>Resumption and events\<close>

text \<open>What the environment supplies when a task resumes: whether the awaited operation succeeded, and for a
  text the catalog entry and the document.\<close>

record inputs =
  in_ok :: bool
  in_meta :: "recipe_meta option"
  in_doc :: "recipe_body option"

fun resume_frame :: "inputs \<Rightarrow> 'v frame \<Rightarrow> 'v vs \<Rightarrow> 'v vs" where
  "resume_frame x InitOpen s =
     (if in_ok x
      then await_task InitLoad
             (s\<lparr>vs_embeddingDb := True, vs_worker := Some (vs_nextWorker s), vs_alive := vs_nextWorker s # vs_alive s,
                vs_nextWorker := Suc (vs_nextWorker s)\<rparr>)
      else s)"
| "resume_frame x InitLoad s =
     (if \<not> in_ok x then s else if vs_store s \<noteq> [] then postWorker InitSent s else init_rest s)"
| "resume_frame x (ExtractText i batch ts) s =
     (case extractRecipeText (in_meta x) (in_doc x) of
        Some (c # t) \<Rightarrow> if vs_embeddingDb s then await_task (HashLookup i (c # t) batch ts) s else s
      | _ \<Rightarrow> next_item batch ts s)"
| "resume_frame x (HashLookup i t batch ts) s =
     (if \<not> in_ok x then s
      else if getHash (vs_store s) (item_key i) = Some (simpleHash t) then next_item batch ts s
      else next_item batch (ts @ [(item_key i, t)]) s)"
| "resume_frame x (PutResult k v rest ts) s =
     (if in_ok x
      then put_results rest ts
             (s\<lparr>vs_store := putEmbedding k v (simpleHash (case map_of ts k of None \<Rightarrow> [] | Some t \<Rightarrow> t)) (vs_store s)\<rparr>)
      else await_task YieldBatch s)"
| "resume_frame x YieldBatch s = next_batch s"
| "resume_frame x ClearDb s = (if in_ok x then clear_rest (s\<lparr>vs_store := clearAll_db (vs_store s)\<rparr>) else s)"
| "resume_frame x (RemoveDb v) s =
     (if in_ok x then remove_rest (s\<lparr>vs_store := removeBook_db v (vs_store s)\<rparr>) else s)"
| "resume_frame x _ s = s"

text \<open>A message of the worker: the results of a batch, or an error\<close>

fun worker_reply :: "(string \<times> 'v) list option \<Rightarrow> 'v frame \<Rightarrow> 'v vs \<Rightarrow> 'v vs" where
  "worker_reply r InitSent s = (if r = None then s else init_rest s)"
| "worker_reply r ModelLoad s = (if r = None then s else processQueue (s\<lparr>vs_modelReady := True\<rparr>))"
| "worker_reply r (EmbedBatch ts) s = (case r of None \<Rightarrow> await_task YieldBatch s | Some rs \<Rightarrow> put_results rs ts s)"
| "worker_reply r ClearWorker s = (if r = None then s else clear_reset s)"
| "worker_reply r _ s = s"

definition resume_task :: "nat \<Rightarrow> inputs \<Rightarrow> 'v vs \<Rightarrow> 'v vs" where
  "resume_task n x s =
     (if n < length (vs_tasks s)
      then resume_frame x (vs_tasks s ! n) (s\<lparr>vs_tasks := take n (vs_tasks s) @ drop (Suc n) (vs_tasks s)\<rparr>)
      else s)"

text \<open>A promise that was rejected because there is no worker\<close>

definition resume_rejected :: "'v vs \<Rightarrow> 'v vs" where
  "resume_rejected s =
     (case vs_rejected s of [] \<Rightarrow> s | f # r \<Rightarrow> worker_reply None f (s\<lparr>vs_rejected := r\<rparr>))"

text \<open>Only a worker that has not been terminated sends messages.\<close>

definition handleWorkerMessage :: "nat \<Rightarrow> (string \<times> 'v) list option \<Rightarrow> 'v vs \<Rightarrow> 'v vs" where
  "handleWorkerMessage i r s =
     (case map_get (vs_pending s) i of
        Some (w, f) \<Rightarrow>
          if w \<in> set (vs_alive s) then worker_reply r f (s\<lparr>vs_pending := map_delete i (vs_pending s)\<rparr>) else s
      | None \<Rightarrow> s)"

datatype 'v vs_event =
    VInit
  | VEnqueue string string bool
  | VInvalidate string string
  | VInvalidateFires string
  | VVisibility bool
  | VSearch
  | VRemoveBook string
  | VClearAll
  | VResume nat inputs
  | VRejected
  | VMessage nat "(string \<times> 'v) list option"
  | VEnvironment bool "(string \<times> string) list" nat

fun vs_step :: "'v vs \<Rightarrow> 'v vs_event \<Rightarrow> 'v vs" where
  "vs_step s VInit = initVectorSearch s"
| "vs_step s (VEnqueue v r h) = enqueueRecipe v r h s"
| "vs_step s (VInvalidate v r) = invalidateRecipe v r s"
| "vs_step s (VInvalidateFires k) = invalidate_fires k s"
| "vs_step s (VVisibility h) = (visibility_listener h ^^ vs_listeners s) s"
| "vs_step s VSearch = vectorSearch s"
| "vs_step s (VRemoveBook v) = removeBook v s"
| "vs_step s VClearAll = clearAll s"
| "vs_step s (VResume n x) = resume_task n x s"
| "vs_step s VRejected = resume_rejected s"
| "vs_step s (VMessage i r) = handleWorkerMessage i r s"
| "vs_step s (VEnvironment d c n) = s\<lparr>vs_docMgr := d, vs_catalogs := c, vs_now := n\<rparr>"

definition vs_run :: "'v vs_event list \<Rightarrow> 'v vs \<Rightarrow> 'v vs" where
  "vs_run evs s = foldl vs_step s evs"

subsection \<open>The queue invariant\<close>

text \<open>The frames of \<open>processQueue\<close>\<close>

fun is_loop :: "'v frame \<Rightarrow> bool" where
  "is_loop (ExtractText i batch ts) = True"
| "is_loop (HashLookup i t batch ts) = True"
| "is_loop (EmbedBatch ts) = True"
| "is_loop (PutResult k v rest ts) = True"
| "is_loop YieldBatch = True"
| "is_loop _ = False"

definition loop_frames :: "'v vs \<Rightarrow> 'v frame list" where
  "loop_frames s = filter is_loop (vs_tasks s) @ filter is_loop (vs_rejected s)
     @ map (\<lambda>p. snd (snd p)) (filter (\<lambda>p. is_loop (snd (snd p))) (vs_pending s))"

text \<open>No key is queued twice, \<open>queueSet\<close> holds the queued keys, at most one loop runs and only while
  \<open>processing\<close> is set, message and worker ids are not used twice; \<open>n\<close> loops are being resumed.\<close>

definition workers_ok :: "'v vs \<Rightarrow> bool" where
  "workers_ok s \<longleftrightarrow> (\<forall>w \<in> set (vs_alive s) \<union> set_option (vs_worker s) \<union> (\<lambda>p. fst (snd p)) ` set (vs_pending s). w < vs_nextWorker s)"

definition vs_ok :: "nat \<Rightarrow> 'v vs \<Rightarrow> bool" where
  "vs_ok n s \<longleftrightarrow> distinct (map item_key (vs_queue s)) \<and> set (vs_queueSet s) = item_key ` set (vs_queue s) \<and>
     length (loop_frames s) + n \<le> (if vs_processing s then 1 else 0) \<and>
     distinct (map fst (vs_pending s)) \<and> (\<forall>p \<in> set (vs_pending s). fst p \<le> vs_msgId s) \<and> workers_ok s"

lemma vs_ok_mono: "vs_ok 1 s \<Longrightarrow> vs_ok 0 s"
  by (simp add: vs_ok_def split: if_splits)

lemma vs_ok_frame:
  assumes "vs_ok n s" "vs_queue t = vs_queue s" "vs_queueSet t = vs_queueSet s" "vs_processing t = vs_processing s"
    "vs_tasks t = vs_tasks s" "vs_rejected t = vs_rejected s" "vs_pending t = vs_pending s" "vs_msgId t = vs_msgId s"
    "vs_alive t = vs_alive s" "vs_worker t = vs_worker s" "vs_nextWorker t = vs_nextWorker s"
  shows "vs_ok n t"
  using assms by (simp add: vs_ok_def loop_frames_def workers_ok_def)

definition cost :: "'v frame \<Rightarrow> nat" where "cost f = (if is_loop f then 1 else 0)"

lemma vs_ok_await: "vs_ok (n + cost f) s \<Longrightarrow> vs_ok n (await_task f s)"
  by (auto simp: vs_ok_def loop_frames_def workers_ok_def await_task_def cost_def split: if_splits)

lemma vs_ok_post: "vs_ok (n + cost f) s \<Longrightarrow> vs_ok n (postWorker f s)"
  by (fastforce simp: vs_ok_def loop_frames_def workers_ok_def postWorker_def Let_def cost_def split: if_splits option.split)

lemma vs_ok_next_item: "vs_ok 1 s \<Longrightarrow> vs_ok 0 (next_item batch ts s)"
  using vs_ok_await [where n = 0 and s = s] vs_ok_post [where n = 0 and s = s]
  by (auto simp: next_item_def cost_def split: list.split)

lemma fold_delete_set: "set (foldl (\<lambda>q i. set_delete (item_key i) q) q0 is) = set q0 - item_key ` set is"
  by (induction "is" arbitrary: q0) auto

lemma vs_ok_index_done: "vs_ok n s \<Longrightarrow> vs_ok n (index_done s)"
  by (erule vs_ok_frame) (simp_all add: index_done_def)

lemma batch_keys:
  assumes "distinct (map item_key q)"
  shows "item_key ` set q - item_key ` set (take n q) = item_key ` set (drop n q)"
proof -
  have q: "q = take n q @ drop n q" by simp
  have "distinct (map item_key (take n q @ drop n q))" using assms by simp
  then have "item_key ` set (take n q) \<inter> item_key ` set (drop n q) = {}" by (simp only: map_append distinct_append set_map)
  moreover have "item_key ` set q = item_key ` set (take n q) \<union> item_key ` set (drop n q)"
    by (metis q image_Un set_append)
  ultimately show ?thesis by blast
qed

lemma vs_ok_next_batch:
  assumes "vs_ok 1 s"
  shows "vs_ok 0 (next_batch s)"
proof (cases "vs_queue s \<noteq> [] \<and> \<not> vs_paused s")
  case True
  let ?b = "take BATCH_SIZE (vs_queue s)"
  let ?s = "s\<lparr>vs_queue := drop BATCH_SIZE (vs_queue s),
      vs_queueSet := foldl (\<lambda>q i. set_delete (item_key i) q) (vs_queueSet s) ?b,
      vs_totalProcessed := vs_totalProcessed s + length ?b\<rparr>"
  have "vs_ok 1 ?s"
    using assms by (auto simp: vs_ok_def loop_frames_def workers_ok_def fold_delete_set batch_keys drop_map [symmetric] split: if_splits)
  with True show ?thesis by (simp add: next_batch_def Let_def vs_ok_next_item)
next
  case False
  have "vs_ok 0 (s\<lparr>vs_processing := False\<rparr>)"
    using assms by (auto simp: vs_ok_def loop_frames_def workers_ok_def split: if_splits)
  with False show ?thesis by (auto simp: next_batch_def Let_def vs_ok_index_done)
qed

lemma vs_ok_processQueue:
  assumes "vs_ok 0 s"
  shows "vs_ok 0 (processQueue s)"
proof (cases "vs_processing s \<or> \<not> vs_modelReady s \<or> vs_paused s")
  case False
  let ?s = "s\<lparr>vs_processing := True, vs_indexingStartTime := (if vs_indexingStartTime s = 0 then vs_now s else vs_indexingStartTime s)\<rparr>"
  have "vs_ok 1 ?s" using assms False by (auto simp: vs_ok_def loop_frames_def workers_ok_def)
  moreover have "vs_ok 0 (?s\<lparr>vs_processing := False\<rparr>)" using assms False by (auto simp: vs_ok_def loop_frames_def workers_ok_def)
  ultimately show ?thesis using False by (simp add: processQueue_def Let_def vs_ok_next_batch)
qed (simp add: processQueue_def assms)

lemma vs_ok_put_results: "vs_ok 1 s \<Longrightarrow> vs_ok 0 (put_results rs ts s)"
  using vs_ok_await [where n = 0 and s = s] by (auto simp: put_results_def cost_def split: list.split)

lemma vs_ok_enqueue:
  assumes "vs_ok 0 s"
  shows "vs_ok 0 (enqueueRecipe v r h s)"
proof (cases "recipe_key v r \<in> set (vs_queueSet s)")
  case False
  define s1 where "s1 = s\<lparr>vs_queueSet := set_add (recipe_key v r) (vs_queueSet s)\<rparr>"
  define s2 where "s2 = (if vs_indexingComplete s1
     then s1\<lparr>vs_indexingComplete := False, vs_totalQueued := 0, vs_totalProcessed := 0, vs_indexingStartTime := 0\<rparr> else s1)"
  define s3 where "s3 = s2\<lparr>vs_totalQueued := Suc (vs_totalQueued s2),
     vs_queue := (if h then (v, r, h) # vs_queue s2 else vs_queue s2 @ [(v, r, h)])\<rparr>"
  have "vs_ok 0 s3"
    using assms False by (auto simp: s3_def s2_def s1_def vs_ok_def loop_frames_def workers_ok_def item_key_def)
  then have "vs_ok 0 (if vs_modelReady s3 \<and> \<not> vs_processing s3 \<and> \<not> vs_paused s3 then processQueue s3 else s3)"
    by (simp add: vs_ok_processQueue)
  then show ?thesis unfolding enqueueRecipe_def Let_def s3_def s2_def s1_def using False by (simp only: if_False)
qed (simp add: enqueueRecipe_def assms)

lemma vs_ok_build:
  fixes s :: "'v vs"
  shows "vs_ok 0 s \<Longrightarrow> vs_ok 0 (buildInitialQueue s)"
proof -
  have "vs_ok 0 t \<Longrightarrow> vs_ok 0 (foldl (\<lambda>t (v, r). enqueueRecipe v r False t) t cs)" for t :: "'v vs" and cs
    by (induction cs arbitrary: t) (auto simp: vs_ok_enqueue)
  then show "vs_ok 0 s \<Longrightarrow> vs_ok 0 (buildInitialQueue s)" by (simp add: buildInitialQueue_def)
qed

lemma vs_ok_init_rest: "vs_ok 0 s \<Longrightarrow> vs_ok 0 (init_rest s)"
proof -
  assume "vs_ok 0 s"
  then have "vs_ok 0 (buildInitialQueue (postWorker ModelLoad s))" by (intro vs_ok_build vs_ok_post) (simp add: cost_def)
  then show ?thesis unfolding init_rest_def Let_def by (rule vs_ok_frame) simp_all
qed

lemma vs_ok_clear_reset: "vs_ok 0 s \<Longrightarrow> vs_ok 0 (clear_reset s)"
  by (auto simp: vs_ok_def loop_frames_def workers_ok_def clear_reset_def split: option.split)

lemma vs_ok_clear_rest: "vs_ok 0 s \<Longrightarrow> vs_ok 0 (clear_rest s)"
  by (auto simp: clear_rest_def vs_ok_clear_reset intro: vs_ok_post simp: cost_def)

lemma vs_ok_remove_rest: "vs_ok 0 s \<Longrightarrow> vs_ok 0 (remove_rest s)"
  by (auto simp: remove_rest_def cost_def intro: vs_ok_post)

lemma vs_ok_resume_frame:
  assumes "vs_ok (cost f) s"
  shows "vs_ok 0 (resume_frame x f s)"
proof (cases "is_loop f")
  case True
  with assms have ok: "vs_ok 1 s" by (simp add: cost_def)
  note [simp] = vs_ok_mono [OF ok] vs_ok_next_item [OF ok] vs_ok_next_batch [OF ok]
  have "vs_ok 1 (s\<lparr>vs_store := st\<rparr>)" for st using ok by (rule vs_ok_frame) simp_all
  then have [simp]: "vs_ok 0 (put_results rest ts (s\<lparr>vs_store := st\<rparr>))" for rest ts st by (rule vs_ok_put_results)
  have [simp]: "is_loop g \<Longrightarrow> vs_ok 0 (await_task g s)" for g using ok by (intro vs_ok_await) (simp add: cost_def)
  from True show ?thesis by (cases f) (simp_all split: option.split list.split)
next
  case False
  with assms have ok: "vs_ok 0 s" by (simp add: cost_def)
  have "vs_ok 0 (s\<lparr>vs_store := st\<rparr>)" for st using ok by (rule vs_ok_frame) simp_all
  note [simp] = ok vs_ok_init_rest [OF ok] this [THEN vs_ok_clear_rest] this [THEN vs_ok_remove_rest]
  have [simp]: "vs_ok 0 (postWorker InitSent s)" using ok by (intro vs_ok_post) (simp add: cost_def)
  have "vs_ok 0 (s\<lparr>vs_embeddingDb := True, vs_worker := Some (vs_nextWorker s), vs_alive := vs_nextWorker s # vs_alive s,
                vs_nextWorker := Suc (vs_nextWorker s)\<rparr>)"
    using ok by (auto simp: vs_ok_def loop_frames_def workers_ok_def intro: less_SucI)
  then have [simp]: "vs_ok 0 (await_task InitLoad (s\<lparr>vs_embeddingDb := True, vs_worker := Some (vs_nextWorker s),
      vs_alive := vs_nextWorker s # vs_alive s, vs_nextWorker := Suc (vs_nextWorker s)\<rparr>))"
    by (intro vs_ok_await) (simp add: cost_def)
  from False show ?thesis by (cases f) simp_all
qed

lemma vs_ok_worker_reply:
  assumes "vs_ok (cost f) s"
  shows "vs_ok 0 (worker_reply r f s)"
proof (cases "is_loop f")
  case True
  with assms have ok: "vs_ok 1 s" by (simp add: cost_def)
  have "vs_ok 0 (await_task YieldBatch s)" using ok by (intro vs_ok_await) (simp add: cost_def)
  with True vs_ok_mono [OF ok] vs_ok_put_results [OF ok] show ?thesis by (cases f) (simp_all split: option.split)
next
  case False
  with assms have ok: "vs_ok 0 s" by (simp add: cost_def)
  have "vs_ok 0 (s\<lparr>vs_modelReady := True\<rparr>)" using ok by (rule vs_ok_frame) simp_all
  note [simp] = ok vs_ok_init_rest [OF ok] vs_ok_clear_reset [OF ok] vs_ok_processQueue [OF this]
  from False show ?thesis by (cases f) simp_all
qed

lemma loop_frames_take:
  assumes "n < length (vs_tasks s)"
  shows "length (loop_frames (s\<lparr>vs_tasks := take n (vs_tasks s) @ drop (Suc n) (vs_tasks s)\<rparr>)) + cost (vs_tasks s ! n) =
    length (loop_frames s)"
proof -
  have "vs_tasks s = take n (vs_tasks s) @ vs_tasks s ! n # drop (Suc n) (vs_tasks s)"
    using assms by (simp add: id_take_nth_drop)
  then have "length (filter is_loop (vs_tasks s)) =
      length (filter is_loop (take n (vs_tasks s) @ vs_tasks s ! n # drop (Suc n) (vs_tasks s)))" by simp
  then show ?thesis by (simp add: loop_frames_def cost_def)
qed

lemma vs_ok_resume_task:
  assumes "vs_ok 0 s"
  shows "vs_ok 0 (resume_task n x s)"
proof (cases "n < length (vs_tasks s)")
  case True
  have "vs_ok (cost (vs_tasks s ! n)) (s\<lparr>vs_tasks := take n (vs_tasks s) @ drop (Suc n) (vs_tasks s)\<rparr>)"
    using assms loop_frames_take [OF True] by (simp add: vs_ok_def workers_ok_def)
  with True show ?thesis by (simp add: resume_task_def vs_ok_resume_frame)
qed (simp add: resume_task_def assms)

lemma vs_ok_resume_rejected:
  assumes "vs_ok 0 s"
  shows "vs_ok 0 (resume_rejected s)"
proof (cases "vs_rejected s")
  case (Cons f r)
  then have "vs_ok (cost f) (s\<lparr>vs_rejected := r\<rparr>)"
    using assms by (auto simp: vs_ok_def loop_frames_def workers_ok_def cost_def split: if_splits)
  with Cons show ?thesis by (simp add: resume_rejected_def vs_ok_worker_reply)
qed (simp add: resume_rejected_def assms)

lemma pending_delete:
  "map_get m i = Some (w, f) \<Longrightarrow> distinct (map fst m) \<Longrightarrow>
     length (filter (\<lambda>p. is_loop (snd (snd p))) (map_delete i m)) + cost f = length (filter (\<lambda>p. is_loop (snd (snd p))) m)"
proof (induction m)
  case (Cons p m)
  show ?case
  proof (cases "fst p = i")
    case True
    then have "\<forall>q \<in> set m. fst q \<noteq> i" using Cons.prems(2) True by (metis distinct.simps(2) image_eqI list.set_map list.simps(9))
    with True have "map_delete i (p # m) = m" by (auto simp: map_delete_def filter_id_conv split_beta)
    with True Cons.prems show ?thesis by (cases p) (auto simp: map_get_def cost_def)
  next
    case False
    with Cons show ?thesis by (cases p) (auto simp: map_get_def map_delete_def)
  qed
qed (simp add: map_get_def)

lemma vs_ok_message:
  assumes "vs_ok 0 s"
  shows "vs_ok 0 (handleWorkerMessage i r s)"
proof (cases "map_get (vs_pending s) i")
  case (Some p)
  obtain w f where p: "p = (w, f)" by (cases p) auto
  have "vs_ok (cost f) (s\<lparr>vs_pending := map_delete i (vs_pending s)\<rparr>)"
    using assms pending_delete [of "vs_pending s" i w f] Some p
    by (auto simp: vs_ok_def loop_frames_def workers_ok_def map_delete_def distinct_map_filter split: if_splits)
  with Some p assms show ?thesis by (simp add: handleWorkerMessage_def vs_ok_worker_reply)
qed (simp add: handleWorkerMessage_def assms)

lemma vs_ok_visibility: "vs_ok 0 s \<Longrightarrow> vs_ok 0 (visibility_listener h s)"
proof -
  assume "vs_ok 0 s"
  then have "vs_ok 0 (s\<lparr>vs_paused := h\<rparr>)" by (rule vs_ok_frame) simp_all
  then show ?thesis by (cases h) (simp_all add: visibility_listener_def Let_def vs_ok_processQueue)
qed

lemma vs_ok_step:
  assumes "vs_ok 0 s"
  shows "vs_ok 0 (vs_step s e)"
proof -
  have upd: "vs_ok 0 (s\<lparr>vs_invalidateTimers := m\<rparr>)" for m using assms by (rule vs_ok_frame) simp_all
  have env: "vs_ok 0 (s\<lparr>vs_docMgr := d, vs_catalogs := c, vs_now := n\<rparr>)" for d c n using assms by (rule vs_ok_frame) simp_all
  have aw: "\<not> is_loop f \<Longrightarrow> vs_ok 0 (await_task f s)" for f using assms by (intro vs_ok_await) (simp add: cost_def)
  have po: "\<not> is_loop f \<Longrightarrow> vs_ok 0 (postWorker f s)" for f using assms by (intro vs_ok_post) (simp add: cost_def)
  have vis: "vs_ok 0 ((visibility_listener h ^^ n) s)" for h n
    by (induction n) (simp_all add: assms vs_ok_visibility)
  note [simp] = assms upd env aw po vis vs_ok_enqueue [OF assms] vs_ok_enqueue [OF upd] vs_ok_remove_rest [OF assms]
    vs_ok_clear_rest [OF assms] vs_ok_resume_task [OF assms] vs_ok_resume_rejected [OF assms] vs_ok_message [OF assms]
  show ?thesis
    by (cases e) (simp_all add: initVectorSearch_def invalidateRecipe_def invalidate_fires_def vectorSearch_def removeBook_def
        clearAll_def split: option.split prod.split)
qed

interpretation vs_steps: run_invariant vs_step "vs_ok 0" "\<lambda>e. True"
  by unfold_locales (rule vs_ok_step)

lemma vs_ok_run: "vs_ok 0 s \<Longrightarrow> vs_ok 0 (vs_run evs s)"
  unfolding vs_run_def by (rule vs_steps.inv_run) simp_all

lemma vs_ok_init: "vs_ok 0 vs_init"
  by (simp add: vs_ok_def vs_init_def loop_frames_def workers_ok_def)

subsection \<open>Indexing that never ends\<close>

text \<open>\<open>processing\<close> is set, but the loop it stands for will not be resumed: there is none, or it waits for a worker
  that has been terminated.\<close>

definition stuck :: "'v vs \<Rightarrow> bool" where
  "stuck s \<longleftrightarrow> vs_processing s \<and> filter is_loop (vs_tasks s) = [] \<and> filter is_loop (vs_rejected s) = [] \<and>
     (\<forall>p \<in> set (vs_pending s). is_loop (snd (snd p)) \<longrightarrow> fst (snd p) \<notin> set (vs_alive s)) \<and> workers_ok s"

text \<open>What the rest of the module does with such a state: it stays one and nothing is added to the database.\<close>

definition stuck_step :: "'v vs \<Rightarrow> 'v vs \<Rightarrow> bool" where
  "stuck_step s t \<longleftrightarrow> (stuck s \<longrightarrow> stuck t \<and> set (vs_store t) \<subseteq> set (vs_store s))"

lemma stuck_step_refl [simp]: "stuck_step s s"
  by (simp add: stuck_step_def)

lemma stuck_step_trans: "stuck_step s t \<Longrightarrow> stuck_step t u \<Longrightarrow> stuck_step s u"
  by (auto simp: stuck_step_def)

lemma stuck_step_frame:
  assumes "vs_processing t = vs_processing s" "vs_tasks t = vs_tasks s" "vs_rejected t = vs_rejected s" "vs_pending t = vs_pending s"
    "vs_alive t = vs_alive s" "vs_worker t = vs_worker s" "vs_nextWorker t = vs_nextWorker s" "set (vs_store t) \<subseteq> set (vs_store s)"
  shows "stuck_step s t"
  using assms by (simp add: stuck_step_def stuck_def workers_ok_def)

lemma stuck_step_await: "\<not> is_loop f \<Longrightarrow> stuck_step s (await_task f s)"
  by (auto simp: stuck_step_def stuck_def await_task_def workers_ok_def)

lemma stuck_step_post: "\<not> is_loop f \<Longrightarrow> stuck_step s (postWorker f s)"
  by (auto simp: stuck_step_def stuck_def postWorker_def workers_ok_def Let_def split: option.split)

lemma stuck_step_process: "stuck_step s (processQueue s)"
  by (simp add: stuck_step_def stuck_def processQueue_def)

lemma stuck_step_enqueue: "stuck_step s (enqueueRecipe v r h s)"
  by (auto simp: stuck_step_def stuck_def enqueueRecipe_def Let_def processQueue_def workers_ok_def)

lemma stuck_step_build: "stuck_step s (buildInitialQueue s)"
proof -
  have "stuck_step t (foldl (\<lambda>t (v, r). enqueueRecipe v r False t) t cs)" for t :: "'a vs" and cs
    by (induction cs arbitrary: t) (auto intro: stuck_step_trans [OF stuck_step_enqueue])
  then show ?thesis by (simp add: buildInitialQueue_def)
qed

lemma stuck_step_init_rest: "stuck_step s (init_rest s)"
proof -
  have "stuck_step s (buildInitialQueue (postWorker ModelLoad s))"
    by (rule stuck_step_trans [OF stuck_step_post stuck_step_build]) simp
  then show ?thesis unfolding init_rest_def Let_def by (rule stuck_step_trans) (rule stuck_step_frame, simp_all)
qed

lemma stuck_step_clear_reset: "stuck_step s (clear_reset s)"
  by (auto simp: stuck_step_def stuck_def clear_reset_def workers_ok_def split: option.split)

lemma stuck_step_clear_rest: "stuck_step s (clear_rest s)"
  by (simp add: clear_rest_def stuck_step_clear_reset stuck_step_post)

lemma stuck_step_remove_rest: "stuck_step s (remove_rest s)"
  by (simp add: remove_rest_def stuck_step_post)

lemma stuck_step_resume:
  assumes "\<not> is_loop f"
  shows "stuck_step s (resume_frame x f s)"
proof -
  have st: "stuck_step s (s\<lparr>vs_store := m\<rparr>)" if "set m \<subseteq> set (vs_store s)" for m
    by (rule stuck_step_frame) (simp_all add: that)
  have op: "stuck_step s (s\<lparr>vs_embeddingDb := True, vs_worker := Some (vs_nextWorker s), vs_alive := vs_nextWorker s # vs_alive s,
                vs_nextWorker := Suc (vs_nextWorker s)\<rparr>)"
    by (auto simp: stuck_step_def stuck_def workers_ok_def ball_Un intro: less_SucI dest: bspec)
  note [simp] = stuck_step_trans [OF op stuck_step_await] stuck_step_post stuck_step_init_rest
    stuck_step_trans [OF st stuck_step_clear_rest] stuck_step_trans [OF st stuck_step_remove_rest]
  show ?thesis using assms by (cases f) (simp_all add: filter_is_subset)
qed

lemma stuck_step_reply:
  assumes "\<not> is_loop f"
  shows "stuck_step s (worker_reply r f s)"
proof -
  have "stuck_step s (s\<lparr>vs_modelReady := True\<rparr>)" by (rule stuck_step_frame) simp_all
  note [simp] = stuck_step_trans [OF this stuck_step_process] stuck_step_init_rest stuck_step_clear_reset
  show ?thesis using assms by (cases f) simp_all
qed

lemma stuck_resume_task:
  assumes "stuck s"
  shows "stuck (resume_task n x s) \<and> set (vs_store (resume_task n x s)) \<subseteq> set (vs_store s)"
proof (cases "n < length (vs_tasks s)")
  case True
  let ?s = "s\<lparr>vs_tasks := take n (vs_tasks s) @ drop (Suc n) (vs_tasks s)\<rparr>"
  have "\<not> is_loop f" if "f \<in> set (vs_tasks s)" for f using assms that by (auto simp: stuck_def filter_empty_conv)
  then have "\<not> is_loop (vs_tasks s ! n)" "stuck ?s"
    using assms True by (auto simp: stuck_def workers_ok_def filter_empty_conv dest: in_set_takeD in_set_dropD)
  with stuck_step_resume [of "vs_tasks s ! n" ?s x] True show ?thesis by (simp add: stuck_step_def resume_task_def)
qed (simp add: resume_task_def assms)

lemma stuck_rejected:
  assumes "stuck s"
  shows "stuck (resume_rejected s) \<and> set (vs_store (resume_rejected s)) \<subseteq> set (vs_store s)"
proof (cases "vs_rejected s")
  case (Cons f r)
  then have "\<not> is_loop f" "stuck (s\<lparr>vs_rejected := r\<rparr>)"
    using assms by (auto simp: stuck_def workers_ok_def split: if_splits)
  with stuck_step_reply [of f "s\<lparr>vs_rejected := r\<rparr>" None] Cons show ?thesis by (simp add: stuck_step_def resume_rejected_def)
qed (simp add: resume_rejected_def assms)

lemma pending_member: "map_get m i = Some p \<Longrightarrow> (i, p) \<in> set m"
  by (simp add: map_get_def map_of_SomeD)

lemma stuck_message:
  assumes "stuck s"
  shows "stuck (handleWorkerMessage i r s) \<and> set (vs_store (handleWorkerMessage i r s)) \<subseteq> set (vs_store s)"
proof (cases "map_get (vs_pending s) i")
  case (Some p)
  obtain w f where p: "p = (w, f)" by (cases p) auto
  let ?s = "s\<lparr>vs_pending := map_delete i (vs_pending s)\<rparr>"
  have "(i, w, f) \<in> set (vs_pending s)" using Some p pending_member by fast
  then have "w \<in> set (vs_alive s) \<Longrightarrow> \<not> is_loop f" "stuck ?s"
    using assms by (auto simp: stuck_def workers_ok_def map_delete_def)
  with stuck_step_reply [of f ?s r] Some p assms show ?thesis by (auto simp: stuck_step_def handleWorkerMessage_def)
qed (simp add: handleWorkerMessage_def assms)

lemma stuck_step_visibility: "stuck_step s (visibility_listener h s)"
proof -
  have "stuck_step s (s\<lparr>vs_paused := h\<rparr>)" by (rule stuck_step_frame) simp_all
  then show ?thesis by (cases h) (simp_all add: visibility_listener_def Let_def stuck_step_trans [OF _ stuck_step_process])
qed

lemma stuck_vs_step:
  assumes "stuck s"
  shows "stuck (vs_step s e) \<and> set (vs_store (vs_step s e)) \<subseteq> set (vs_store s)"
proof -
  have upd: "stuck_step s (s\<lparr>vs_invalidateTimers := m\<rparr>)" for m by (rule stuck_step_frame) simp_all
  have env: "stuck_step s (s\<lparr>vs_docMgr := d, vs_catalogs := c, vs_now := n\<rparr>)" for d c n by (rule stuck_step_frame) simp_all
  have vis: "stuck_step s ((visibility_listener h ^^ n) s)" for h n
    by (induction n) (auto intro: stuck_step_trans [OF _ stuck_step_visibility])
  have msg: "stuck_step s (resume_task n x s)" "stuck_step s (resume_rejected s)" "stuck_step s (handleWorkerMessage i r s)" for n x i r
    using stuck_resume_task [OF assms] stuck_rejected [OF assms] stuck_message [OF assms] by (simp_all add: stuck_step_def)
  note [simp] = upd env vis msg stuck_step_await stuck_step_post stuck_step_enqueue stuck_step_trans [OF upd stuck_step_enqueue]
    stuck_step_remove_rest stuck_step_clear_rest
  have "stuck_step s (vs_step s e)"
    by (cases e) (simp_all add: initVectorSearch_def invalidateRecipe_def invalidate_fires_def vectorSearch_def removeBook_def
        clearAll_def split: option.split prod.split)
  with assms show ?thesis by (simp add: stuck_step_def)
qed

lemma stuck_run: "stuck s \<Longrightarrow> stuck (vs_run evs s) \<and> set (vs_store (vs_run evs s)) \<subseteq> set (vs_store s)"
proof (induction evs arbitrary: s)
  case (Cons e evs)
  have "vs_run (e # evs) s = vs_run evs (vs_step s e)" by (simp add: vs_run_def)
  with Cons.IH [of "vs_step s e"] stuck_vs_step [OF Cons.prems, of e] show ?case by auto
qed (simp add: vs_run_def)

text \<open>C20: whatever happens, and in whatever order: no recipe is queued twice, \<open>queueSet\<close> holds exactly the keys of
  the queue, and at most one loop over the queue runs, only while \<open>processing\<close> is set.\<close>

theorem queue_in_every_run:
  defines "s \<equiv> \<lambda>evs. vs_run evs vs_init"
  shows "distinct (map item_key (vs_queue (s evs))) \<and> set (vs_queueSet (s evs)) = item_key ` set (vs_queue (s evs)) \<and>
    length (loop_frames (s evs)) \<le> (if vs_processing (s evs) then 1 else 0)"
  using vs_ok_run [OF vs_ok_init, of evs] by (simp add: vs_ok_def s_def)

lemma loop_in_pending:
  assumes "vs_ok 0 s" "map_get (vs_pending s) i = Some (w, f)" "is_loop f"
  shows "vs_processing s \<and> filter is_loop (vs_tasks s) = [] \<and> filter is_loop (vs_rejected s) = [] \<and>
    filter (\<lambda>p. is_loop (snd (snd p))) (vs_pending s) = [(i, w, f)]"
proof -
  have m: "(i, w, f) \<in> set (filter (\<lambda>p. is_loop (snd (snd p))) (vs_pending s))"
    using pending_member [OF assms(2)] assms(3) by simp
  then have pos: "0 < length (filter (\<lambda>p. is_loop (snd (snd p))) (vs_pending s))" by (simp only: length_pos_if_in_set)
  have le: "length (filter is_loop (vs_tasks s)) + length (filter is_loop (vs_rejected s)) +
      length (filter (\<lambda>p. is_loop (snd (snd p))) (vs_pending s)) \<le> (if vs_processing s then 1 else 0)"
    using assms(1) by (simp add: vs_ok_def loop_frames_def)
  with pos have "vs_processing s" by (auto split: if_splits)
  note le [unfolded eqTrueI [OF this] if_True]
  with pos have "length (filter is_loop (vs_tasks s)) = 0" "length (filter is_loop (vs_rejected s)) = 0"
      and l3: "length (filter (\<lambda>p. is_loop (snd (snd p))) (vs_pending s)) = 1" by linarith+
  then have l: "filter is_loop (vs_tasks s) = []" "filter is_loop (vs_rejected s) = []" by simp_all
  from l3 obtain q where q: "filter (\<lambda>p. is_loop (snd (snd p))) (vs_pending s) = [q]" by (auto simp: length_Suc_conv)
  with m have "filter (\<lambda>p. is_loop (snd (snd p))) (vs_pending s) = [(i, w, f)]" by (simp only: list.set insert_iff empty_iff simp_thms)
  with l \<open>vs_processing s\<close> show ?thesis by simp
qed

lemma terminated_while_embedding:
  assumes "vs_ok 0 s" "vs_worker s = Some w" "map_get (vs_pending s) i = Some (w, EmbedBatch ts)"
  shows "stuck (clear_reset s)"
proof -
  note l = loop_in_pending [OF assms(1,3), simplified]
  have "fst (snd p) = w" if "p \<in> set (vs_pending s)" "is_loop (snd (snd p))" for p
  proof -
    have "p \<in> set (filter (\<lambda>p. is_loop (snd (snd p))) (vs_pending s))" using that by simp
    with l show ?thesis by simp
  qed
  with l assms(1,2) show ?thesis by (auto simp: stuck_def clear_reset_def vs_ok_def workers_ok_def)
qed

text \<open>Rebuilding the embeddings while a batch is with the worker ends the indexing for the session: when
  the worker answers the clear message before it has finished the batch, \<open>clearAll\<close> terminates it, the loop
  waits for ever and \<open>processing\<close> stays set; whatever happens later, a new start included, the database
  of embeddings stays empty.\<close>

theorem rebuild_while_indexing:
  assumes "s = vs_run evs vs_init" "vs_worker s = Some w" "w \<in> set (vs_alive s)" "vs_embeddingDb s"
    "map_get (vs_pending s) i = Some (w, EmbedBatch ts)" "in_ok x"
    "s' = vs_run [VClearAll, VResume (length (vs_tasks s)) x, VMessage (Suc (vs_msgId s)) (Some [])] s"
  shows "vs_worker s' = None \<and> (\<forall>evs'. vs_processing (vs_run evs' s') \<and> vs_store (vs_run evs' s') = [])"
proof -
  have ok: "vs_ok 0 s" using assms(1) vs_ok_run [OF vs_ok_init] by simp
  define t where "t = s\<lparr>vs_store := [], vs_msgId := Suc (vs_msgId s)\<rparr>"
  have "\<forall>p \<in> set (vs_pending s). fst p \<noteq> Suc (vs_msgId s)" using ok by (fastforce simp: vs_ok_def)
  moreover from this have "map_get (vs_pending s) (Suc (vs_msgId s)) = None" by (auto simp: map_get_def map_of_eq_None_iff)
  ultimately have del: "map_delete (Suc (vs_msgId s)) (vs_pending s @ [(Suc (vs_msgId s), w, ClearWorker)]) = vs_pending s"
    and get: "map_get (vs_pending s @ [(Suc (vs_msgId s), w, ClearWorker)]) (Suc (vs_msgId s)) = Some (w, ClearWorker)"
    by (simp_all add: map_delete_def filter_id_conv map_get_def map_add_def map_of_append split: option.split)
  have s': "s' = clear_reset t"
    using assms(2-4,6) get del
    by (simp add: assms(7) vs_run_def clearAll_def await_task_def resume_task_def clear_rest_def postWorker_def Let_def
        handleWorkerMessage_def t_def)
  have "vs_ok 0 t" using ok by (auto simp: vs_ok_def loop_frames_def workers_ok_def t_def le_SucI)
  then have "stuck s'" unfolding s' by (rule terminated_while_embedding) (use assms(2,5) in \<open>simp_all add: t_def\<close>)
  moreover have "vs_store s' = []" "vs_worker s' = None" by (simp_all add: s' t_def clear_reset_def)
  ultimately show ?thesis using stuck_run [of s'] by (auto simp: stuck_def)
qed

definition demo_inputs :: inputs where
  "demo_inputs = \<lparr>in_ok = True, in_meta = Some \<lparr>rm_title = ''Soup'', rm_tags = []\<rparr>, in_doc = None\<rparr>"

definition demo_events :: "unit vs_event list" where
  "demo_events = [VEnvironment True [(''v'', ''r'')] 1, VInit, VResume 0 demo_inputs, VResume 0 demo_inputs, VMessage 1 (Some []),
     VResume 0 demo_inputs, VResume 0 demo_inputs]"

lemmas run_simps = vs_run_def await_task_def postWorker_def initVectorSearch_def resume_task_def init_rest_def buildInitialQueue_def
  enqueueRecipe_def handleWorkerMessage_def processQueue_def next_batch_def next_item_def index_done_def extractRecipeText_def
  Let_def map_get_def map_delete_def map_set_def set_add_def set_delete_def item_key_def recipe_key_def

lemma demo_state:
  "vs_run demo_events vs_init = vs_init\<lparr>vs_worker := Some 0, vs_alive := [0], vs_nextWorker := 1, vs_embeddingDb := True,
     vs_modelReady := True, vs_msgId := 2, vs_pending := [(2, 0, EmbedBatch [(''v/r'', ''Soup'')])], vs_processing := True,
     vs_totalQueued := 1, vs_totalProcessed := 1, vs_indexingStartTime := 1, vs_listeners := 1, vs_docMgr := True,
     vs_catalogs := [(''v'', ''r'')], vs_now := 1\<rparr>"
  by (simp add: demo_events_def demo_inputs_def vs_init_def run_simps BATCH_SIZE_def)

theorem rebuild_while_indexing_witness:
  "\<exists>s'. (s' :: unit vs) = vs_run [VClearAll, VResume 0 demo_inputs, VMessage 3 (Some [])] (vs_run demo_events vs_init) \<and>
     (\<forall>evs'. vs_processing (vs_run evs' s') \<and> vs_store (vs_run evs' s') = [])"
proof -
  have "map_get (vs_pending (vs_run demo_events vs_init)) 2 = Some (0, EmbedBatch [(''v/r'', ''Soup'')])"
    "vs_worker (vs_run demo_events vs_init) = Some 0" "0 \<in> set (vs_alive (vs_run demo_events vs_init))"
    "vs_embeddingDb (vs_run demo_events vs_init)" "length (vs_tasks (vs_run demo_events vs_init)) = 0"
    "Suc (vs_msgId (vs_run demo_events vs_init)) = 3" "in_ok demo_inputs"
    unfolding demo_state by (simp_all add: vs_init_def map_get_def demo_inputs_def)
  note f = this
  from rebuild_while_indexing [OF refl f(2,3,4,1,7) refl] show ?thesis unfolding f(5,6) by blast
qed

subsection \<open>An undisturbed indexing run\<close>

text \<open>The loop resumed each time: \<open>docs\<close> are the recipes as the catalog and the documents have them, \<open>emb\<close> is the vector the worker
  returns for a text, and \<open>fails\<close> says for which batches it returns an error instead. The operations on the database succeed.\<close>

definition index_step ::
  "(string \<Rightarrow> recipe_meta option \<times> recipe_body option) \<Rightarrow> (string \<Rightarrow> 'v) \<Rightarrow> (texts \<Rightarrow> bool) \<Rightarrow> 'v vs \<Rightarrow> 'v vs" where
  "index_step docs emb fails s =
     (case vs_tasks s of
        f # r \<Rightarrow>
          vs_step s (VResume 0 (case (case f of ExtractText i batch ts \<Rightarrow> docs (item_key i) | _ \<Rightarrow> (None, None)) of
                                  (m, d) \<Rightarrow> \<lparr>in_ok = True, in_meta = m, in_doc = d\<rparr>))
      | [] \<Rightarrow>
          (case vs_pending s of
             (i, w, EmbedBatch ts) # r \<Rightarrow> vs_step s (VMessage i (if fails ts then None else Some (map (\<lambda>(k, t). (k, emb t)) ts)))
           | _ \<Rightarrow> s))"

definition text_of :: "(string \<Rightarrow> recipe_meta option \<times> recipe_body option) \<Rightarrow> string \<Rightarrow> string option" where
  "text_of docs k = extractRecipeText (fst (docs k)) (snd (docs k))"

text \<open>What is stored for a recipe is the vector of its text with the hash of the text, or, untouched, what was stored for it before (\<open>old\<close>)
  with that hash; a recipe without a text needs nothing.\<close>

definition up_to_date ::
  "(string \<Rightarrow> recipe_meta option \<times> recipe_body option) \<Rightarrow> (string \<Rightarrow> 'v) \<Rightarrow> (string \<times> 'v \<times> string) list \<Rightarrow> (string \<times> 'v \<times> string) list \<Rightarrow> string \<Rightarrow> bool" where
  "up_to_date docs emb old st k \<longleftrightarrow>
     (case text_of docs k of
        Some (c # t) \<Rightarrow>
          map_get st k = Some (emb (c # t), simpleHash (c # t)) \<or>
          (map_get st k = map_get old k \<and> getHash old k = Some (simpleHash (c # t)))
      | _ \<Rightarrow> True)"

text \<open>The recipe was in a batch with which the worker failed.\<close>

definition in_failed :: "(string \<Rightarrow> recipe_meta option \<times> recipe_body option) \<Rightarrow> (texts \<Rightarrow> bool) \<Rightarrow> string \<Rightarrow> bool" where
  "in_failed docs fails k \<longleftrightarrow> (\<exists>ts t. fails ts \<and> text_of docs k = Some t \<and> (k, t) \<in> set ts)"

abbreviation settled where
  "settled docs emb fails old st \<equiv> Collect (up_to_date docs emb old st) \<union> Collect (in_failed docs fails)"

text \<open>While the loop runs: an entry is the old one or made from the recipe's text.\<close>

definition store_ok ::
  "(string \<Rightarrow> recipe_meta option \<times> recipe_body option) \<Rightarrow> (string \<Rightarrow> 'v) \<Rightarrow> (string \<times> 'v \<times> string) list \<Rightarrow> (string \<times> 'v \<times> string) list \<Rightarrow> bool" where
  "store_ok docs emb old st \<longleftrightarrow>
     (\<forall>k. map_get st k = map_get old k \<or> (\<exists>t. text_of docs k = Some t \<and> map_get st k = Some (emb t, simpleHash t)))"

fun frame_keys :: "'v frame \<Rightarrow> string set" where
  "frame_keys (ExtractText i batch ts) = insert (item_key i) (item_key ` set batch \<union> fst ` set ts)"
| "frame_keys (HashLookup i t batch ts) = insert (item_key i) (item_key ` set batch \<union> fst ` set ts)"
| "frame_keys (EmbedBatch ts) = fst ` set ts"
| "frame_keys (PutResult k v rest ts) = insert k (fst ` set rest)"
| "frame_keys _ = {}"

definition texts_ok :: "(string \<Rightarrow> recipe_meta option \<times> recipe_body option) \<Rightarrow> texts \<Rightarrow> bool" where
  "texts_ok docs ts \<longleftrightarrow> (\<forall>p \<in> set ts. snd p \<noteq> [] \<and> text_of docs (fst p) = Some (snd p))"

text \<open>A result of the worker for a batch\<close>

definition result_ok :: "(string \<Rightarrow> 'v) \<Rightarrow> texts \<Rightarrow> string \<Rightarrow> 'v \<Rightarrow> bool" where
  "result_ok emb ts k v \<longleftrightarrow> (\<exists>t. (k, t) \<in> set ts \<and> v = emb t)"

fun frame_ok :: "(string \<Rightarrow> recipe_meta option \<times> recipe_body option) \<Rightarrow> (string \<Rightarrow> 'v) \<Rightarrow> 'v frame \<Rightarrow> bool" where
  "frame_ok docs emb (ExtractText i batch ts) = texts_ok docs ts"
| "frame_ok docs emb (HashLookup i t batch ts) = (texts_ok docs ts \<and> t \<noteq> [] \<and> text_of docs (item_key i) = Some t)"
| "frame_ok docs emb (EmbedBatch ts) = (texts_ok docs ts \<and> ts \<noteq> [])"
| "frame_ok docs emb (PutResult k v rest ts) = (texts_ok docs ts \<and> (\<forall>(k', v') \<in> insert (k, v) (set rest). result_ok emb ts k' v'))"
| "frame_ok docs emb YieldBatch = True"
| "frame_ok docs emb _ = False"

fun frame_weight :: "'v frame \<Rightarrow> nat" where
  "frame_weight (ExtractText i batch ts) = 4 * length batch + 2 * length ts + 7"
| "frame_weight (HashLookup i t batch ts) = 4 * length batch + 2 * length ts + 6"
| "frame_weight (EmbedBatch ts) = 2 * length ts + 2"
| "frame_weight (PutResult k v rest ts) = length rest + 2"
| "frame_weight _ = 1"

text \<open>The loop between two awaits, and the loop at an await\<close>

definition base :: "'v vs \<Rightarrow> bool" where
  "base s \<longleftrightarrow> vs_processing s \<and> \<not> vs_paused s \<and> vs_embeddingDb s \<and> vs_tasks s = [] \<and> vs_pending s = [] \<and>
     (\<exists>w. vs_worker s = Some w \<and> w \<in> set (vs_alive s))"

definition at_await :: "'v vs \<Rightarrow> 'v frame \<Rightarrow> bool" where
  "at_await s f \<longleftrightarrow>
     (\<exists>b. base b \<and> (case f of
        EmbedBatch ts \<Rightarrow> \<exists>i w. w \<in> set (vs_alive b) \<and> s = b\<lparr>vs_msgId := i, vs_pending := [(i, w, f)]\<rparr>
      | _ \<Rightarrow> s = b\<lparr>vs_tasks := [f]\<rparr>))"

definition progress where
  "progress docs emb fails old K s f \<longleftrightarrow> at_await s f \<and> frame_ok docs emb f \<and> store_ok docs emb old (vs_store s) \<and>
     K \<subseteq> item_key ` set (vs_queue s) \<union> frame_keys f \<union> settled docs emb fails old (vs_store s)"

definition finished where
  "finished docs emb fails old K s \<longleftrightarrow> vs_queue s = [] \<and> \<not> vs_processing s \<and> vs_tasks s = [] \<and> vs_pending s = [] \<and>
     vs_indexingComplete s \<and> K \<subseteq> settled docs emb fails old (vs_store s)"

definition gets_on where
  "gets_on docs emb fails old K n t \<longleftrightarrow>
     (\<exists>f. progress docs emb fails old K t f \<and> 20 * length (vs_queue t) + frame_weight f < n) \<or> finished docs emb fails old K t"

lemma gets_on_await:
  assumes "base b" "store_ok docs emb old (vs_store b)" "frame_ok docs emb f" "\<And>ts. f \<noteq> EmbedBatch ts" "20 * length (vs_queue b) + frame_weight f < n"
    "K \<subseteq> item_key ` set (vs_queue b) \<union> frame_keys f \<union> settled docs emb fails old (vs_store b)"
  shows "gets_on docs emb fails old K n (await_task f b)"
proof -
  have "await_task f b = b\<lparr>vs_tasks := [f]\<rparr>" using assms(1) by (simp add: await_task_def base_def)
  moreover have "at_await (b\<lparr>vs_tasks := [f]\<rparr>) f"
    using assms(1,4) by (cases f) (auto simp: at_await_def)
  ultimately show ?thesis using assms by (auto simp: gets_on_def progress_def)
qed

lemma gets_on_post:
  assumes "base b" "store_ok docs emb old (vs_store b)" "texts_ok docs ts" "ts \<noteq> []" "20 * length (vs_queue b) + (2 * length ts + 2) < n"
    "K \<subseteq> item_key ` set (vs_queue b) \<union> fst ` set ts \<union> settled docs emb fails old (vs_store b)"
  shows "gets_on docs emb fails old K n (postWorker (EmbedBatch ts) b)"
proof -
  from assms(1) obtain w where w: "vs_worker b = Some w" "w \<in> set (vs_alive b)" by (auto simp: base_def)
  then have "postWorker (EmbedBatch ts) b =
      b\<lparr>vs_msgId := Suc (vs_msgId b), vs_pending := [(Suc (vs_msgId b), w, EmbedBatch ts)]\<rparr>"
    using assms(1) by (simp add: postWorker_def Let_def base_def)
  moreover have "at_await (b\<lparr>vs_msgId := Suc (vs_msgId b), vs_pending := [(Suc (vs_msgId b), w, EmbedBatch ts)]\<rparr>) (EmbedBatch ts)"
    using assms(1) w by (auto simp: at_await_def)
  ultimately show ?thesis using assms(2-6) unfolding gets_on_def progress_def
    by (intro disjI1 exI [of _ "EmbedBatch ts"]) simp
qed

lemma gets_on_next_item:
  assumes "base b" "store_ok docs emb old (vs_store b)" "texts_ok docs ts" "20 * length (vs_queue b) + 4 * length batch + 2 * length ts + 3 < n"
    "K \<subseteq> item_key ` set (vs_queue b) \<union> (item_key ` set batch \<union> fst ` set ts) \<union> settled docs emb fails old (vs_store b)"
  shows "gets_on docs emb fails old K n (next_item batch ts b)"
proof (cases batch)
  case (Cons i rest)
  have "gets_on docs emb fails old K n (await_task (ExtractText i rest ts) b)"
    by (rule gets_on_await) (use assms Cons in auto)
  with Cons show ?thesis by (simp add: next_item_def)
next
  case Nil
  have "gets_on docs emb fails old K n (await_task YieldBatch b)" if "ts = []"
    by (rule gets_on_await) (use assms that Nil in auto)
  moreover have "gets_on docs emb fails old K n (postWorker (EmbedBatch ts) b)" if "ts \<noteq> []"
    by (rule gets_on_post) (use assms that Nil in auto)
  ultimately show ?thesis using Nil by (simp add: next_item_def)
qed

lemma gets_on_next_batch:
  assumes "base b" "store_ok docs emb old (vs_store b)" "20 * length (vs_queue b) < n" "K \<subseteq> item_key ` set (vs_queue b) \<union> settled docs emb fails old (vs_store b)"
  shows "gets_on docs emb fails old K n (next_batch b)"
proof (cases "vs_queue b")
  case Nil
  with assms show ?thesis by (auto simp: next_batch_def Let_def index_done_def gets_on_def finished_def base_def)
next
  case (Cons i r)
  let ?q = "vs_queue b"
  let ?b = "b\<lparr>vs_queue := drop BATCH_SIZE ?q,
      vs_queueSet := foldl (\<lambda>q i. set_delete (item_key i) q) (vs_queueSet b) (take BATCH_SIZE ?q),
      vs_totalProcessed := vs_totalProcessed b + length (take BATCH_SIZE ?q)\<rparr>"
  have keys: "item_key ` set ?q = item_key ` set (drop BATCH_SIZE ?q) \<union> item_key ` set (take BATCH_SIZE ?q)"
    by (metis append_take_drop_id image_Un set_append sup_commute)
  have len: "length ?q = length (drop BATCH_SIZE ?q) + length (take BATCH_SIZE ?q)" "0 < length (take BATCH_SIZE ?q)"
    using Cons by (simp_all add: BATCH_SIZE_def)
  have ar: "20 * length (drop BATCH_SIZE ?q) + 4 * length (take BATCH_SIZE ?q) + 3 < n"
    using assms(3) len by linarith
  have "gets_on docs emb fails old K n (next_item (take BATCH_SIZE ?q) [] ?b)"
  proof (rule gets_on_next_item)
    show "base ?b" using assms(1) by (simp add: base_def)
    show "store_ok docs emb old (vs_store ?b)" using assms(2) by simp
    show "texts_ok docs []" by (simp add: texts_ok_def)
    show "20 * length (vs_queue ?b) + 4 * length (take BATCH_SIZE ?q) + 2 * length ([] :: texts) + 3 < n"
      using ar by (simp del: length_drop length_take)
    show "K \<subseteq> item_key ` set (vs_queue ?b) \<union> (item_key ` set (take BATCH_SIZE ?q) \<union> fst ` set ([] :: texts)) \<union>
        settled docs emb fails old (vs_store ?b)"
      using assms(4) keys by auto
  qed
  then show ?thesis using Cons assms(1) by (simp add: next_batch_def Let_def base_def)
qed

lemma gets_on_put_results:
  assumes "base b" "store_ok docs emb old (vs_store b)" "texts_ok docs ts" "\<forall>(k, v) \<in> set rs. result_ok emb ts k v" "20 * length (vs_queue b) + length rs + 1 < n"
    "K \<subseteq> item_key ` set (vs_queue b) \<union> fst ` set rs \<union> settled docs emb fails old (vs_store b)"
  shows "gets_on docs emb fails old K n (put_results rs ts b)"
proof (cases rs)
  case Nil
  have "gets_on docs emb fails old K n (await_task YieldBatch b)" by (rule gets_on_await) (use assms Nil in auto)
  with Nil show ?thesis by (simp add: put_results_def)
next
  case (Cons p rest)
  have "gets_on docs emb fails old K n (await_task (PutResult (fst p) (snd p) rest ts) b)"
    by (rule gets_on_await) (use assms Cons in auto)
  with Cons assms(1) show ?thesis by (cases p) (simp add: put_results_def base_def)
qed

lemma text_found:
  assumes "texts_ok docs ts" "result_ok emb ts k v"
  shows "\<exists>c u. text_of docs k = Some (c # u) \<and> map_of ts k = Some (c # u) \<and> v = emb (c # u)"
proof -
  obtain t where t: "(k, t) \<in> set ts" "v = emb t" using assms(2) by (auto simp: result_ok_def)
  then have d: "text_of docs k = Some t" "t \<noteq> []" using assms(1) by (force simp: texts_ok_def)+
  obtain u where u: "map_of ts k = Some u" using t(1) by (metis map_of_eq_None_iff not_Some_eq fst_conv image_eqI)
  then have "text_of docs k = Some u" using assms(1) map_of_SomeD [OF u] by (fastforce simp: texts_ok_def)
  then show ?thesis using d t(2) u by (cases t) auto
qed

lemma up_to_date_put:
  assumes "texts_ok docs ts" "result_ok emb ts k v"
  shows "k' = k \<or> up_to_date docs emb old st k' \<Longrightarrow>
      up_to_date docs emb old (map_set k (v, simpleHash (case map_of ts k of None \<Rightarrow> [] | Some t \<Rightarrow> t)) st) k'"
    "store_ok docs emb old st \<Longrightarrow> store_ok docs emb old (map_set k (v, simpleHash (case map_of ts k of None \<Rightarrow> [] | Some t \<Rightarrow> t)) st)"
proof -
  from text_found [OF assms] obtain c u where u: "text_of docs k = Some (c # u)" "map_of ts k = Some (c # u)" "v = emb (c # u)" by blast
  let ?st = "map_set k (v, simpleHash (case map_of ts k of None \<Rightarrow> [] | Some t \<Rightarrow> t)) st"
  have s: "map_get ?st k' = (if k' = k then Some (emb (c # u), simpleHash (c # u)) else map_get st k')" for k' by (simp add: u map_eqs)
  show "up_to_date docs emb old ?st k'" if "k' = k \<or> up_to_date docs emb old st k'"
  proof (cases "k' = k")
    case True
    have "map_get ?st k = Some (emb (c # u), simpleHash (c # u))" using s [of k] by simp
    then show ?thesis unfolding True up_to_date_def u(1) option.case list.case by (rule disjI1)
  next
    case False
    then have e: "map_get ?st k' = map_get st k'" using s [of k'] by simp
    show ?thesis using that False unfolding up_to_date_def e by simp
  qed
  show "store_ok docs emb old st \<Longrightarrow> store_ok docs emb old ?st" using u(1) unfolding store_ok_def s by auto
qed

lemma no_tasks: "vs_tasks b = [] \<Longrightarrow> b\<lparr>vs_tasks := []\<rparr> = b"
  by simp

lemma base_facts: "base b \<Longrightarrow> vs_embeddingDb b \<and> b\<lparr>vs_tasks := []\<rparr> = b \<and> b\<lparr>vs_pending := []\<rparr> = b"
  by (simp add: base_def)

lemma resume_at_task:
  "base b \<Longrightarrow> vs_step (b\<lparr>vs_tasks := [f]\<rparr>) (VResume 0 x) = resume_frame x f b"
proof -
  assume "base b"
  then have e: "b\<lparr>vs_tasks := []\<rparr> = b" using base_facts by blast
  have "vs_step (b\<lparr>vs_tasks := [f]\<rparr>) (VResume 0 x) = resume_frame x f (b\<lparr>vs_tasks := []\<rparr>)" by (simp add: resume_task_def)
  then show ?thesis unfolding e .
qed

lemma up_to_date_of_text:
  "text_of docs k = None \<or> text_of docs k = Some [] \<Longrightarrow> up_to_date docs emb old st k"
  "store_ok docs emb old st \<Longrightarrow> text_of docs k = Some t \<Longrightarrow> getHash st k = Some (simpleHash t) \<Longrightarrow> up_to_date docs emb old st k"
proof -
  show "text_of docs k = None \<or> text_of docs k = Some [] \<Longrightarrow> up_to_date docs emb old st k"
    by (auto simp: up_to_date_def)
  assume s: "store_ok docs emb old st" "text_of docs k = Some t" "getHash st k = Some (simpleHash t)"
  then have "map_get st k = map_get old k \<or> map_get st k = Some (emb t, simpleHash t)" by (auto simp: store_ok_def)
  then show "up_to_date docs emb old st k"
  proof
    assume "map_get st k = map_get old k"
    then show ?thesis using s(2,3) unfolding up_to_date_def getHash_def by (cases t) simp_all
  next
    assume "map_get st k = Some (emb t, simpleHash t)"
    then show ?thesis using s(2) unfolding up_to_date_def by (cases t) simp_all
  qed
qed

lemma extract_gets_on:
  assumes "progress docs emb fails old K s (ExtractText i batch ts)"
  shows "gets_on docs emb fails old K (20 * length (vs_queue s) + frame_weight (ExtractText i batch ts :: 'v frame)) (index_step docs emb fails (s :: 'v vs))"
proof -
  from assms obtain b where b: "base b" "s = b\<lparr>vs_tasks := [ExtractText i batch ts]\<rparr>" by (auto simp: progress_def at_await_def)
  from assms have t: "texts_ok docs ts" "store_ok docs emb old (vs_store b)" and K: "K \<subseteq> item_key ` set (vs_queue b) \<union>
      insert (item_key i) (item_key ` set batch \<union> fst ` set ts) \<union> settled docs emb fails old (vs_store b)"
    by (auto simp: progress_def b(2))
  have e: "index_step docs emb fails s = (case text_of docs (item_key i) of
        Some (c # t) \<Rightarrow> await_task (HashLookup i (c # t) batch ts) b | _ \<Rightarrow> next_item batch ts b)"
    using resume_at_task [OF b(1)] base_facts [OF b(1)]
    by (simp add: index_step_def b(2) text_of_def split_beta split: option.split list.split)
  show ?thesis
  proof (cases "\<exists>c u. text_of docs (item_key i) = Some (c # u)")
    case True
    then obtain c u where u: "text_of docs (item_key i) = Some (c # u)" by blast
    have "gets_on docs emb fails old K (20 * length (vs_queue s) + frame_weight (ExtractText i batch ts :: 'v frame))
        (await_task (HashLookup i (c # u) batch ts) b)"
      by (rule gets_on_await) (use b t u K in auto)
    with u show ?thesis by (simp add: e)
  next
    case False
    then have n: "text_of docs (item_key i) = None \<or> text_of docs (item_key i) = Some []"
      by (metis list.exhaust not_Some_eq)
    from up_to_date_of_text(1) [OF this] have "up_to_date docs emb old (vs_store b) (item_key i)" .
    then have "gets_on docs emb fails old K (20 * length (vs_queue s) + frame_weight (ExtractText i batch ts :: 'v frame)) (next_item batch ts b)"
      by (intro gets_on_next_item) (use b t K in auto)
    with n show ?thesis by (auto simp: e)
  qed
qed

lemma hash_gets_on:
  assumes "progress docs emb fails old K s (HashLookup i t batch ts)"
  shows "gets_on docs emb fails old K (20 * length (vs_queue s) + frame_weight (HashLookup i t batch ts :: 'v frame)) (index_step docs emb fails (s :: 'v vs))"
proof -
  from assms obtain b where b: "base b" "s = b\<lparr>vs_tasks := [HashLookup i t batch ts]\<rparr>" by (auto simp: progress_def at_await_def)
  from assms have ts: "texts_ok docs ts" "t \<noteq> []" "text_of docs (item_key i) = Some t" "store_ok docs emb old (vs_store b)" and K: "K \<subseteq> item_key ` set (vs_queue b) \<union>
      insert (item_key i) (item_key ` set batch \<union> fst ` set ts) \<union> settled docs emb fails old (vs_store b)"
    by (auto simp: progress_def b(2))
  have e: "index_step docs emb fails s =
      (if map_option snd (map_get (vs_store b) (item_key i)) = Some (simpleHash t) then next_item batch ts b
       else next_item batch (ts @ [(item_key i, t)]) b)"
    using resume_at_task [OF b(1)] by (simp add: index_step_def b(2))
  show ?thesis
  proof (cases "map_option snd (map_get (vs_store b) (item_key i)) = Some (simpleHash t)")
    case True
    then have "getHash (vs_store b) (item_key i) = Some (simpleHash t)" by simp
    from up_to_date_of_text(2) [OF ts(4,3) this] have "up_to_date docs emb old (vs_store b) (item_key i)" .
    then have "gets_on docs emb fails old K (20 * length (vs_queue s) + frame_weight (HashLookup i t batch ts :: 'v frame)) (next_item batch ts b)"
      by (intro gets_on_next_item) (use b ts K in auto)
    with True show ?thesis by (simp add: e)
  next
    case False
    have "texts_ok docs (ts @ [(item_key i, t)])" using ts by (simp add: texts_ok_def)
    then have "gets_on docs emb fails old K (20 * length (vs_queue s) + frame_weight (HashLookup i t batch ts :: 'v frame))
        (next_item batch (ts @ [(item_key i, t)]) b)"
      by (intro gets_on_next_item) (use b ts(4) K in auto)
    with False show ?thesis by (simp add: e)
  qed
qed

lemma put_gets_on:
  assumes "progress docs emb fails old K s (PutResult k v rest ts)"
  shows "gets_on docs emb fails old K (20 * length (vs_queue s) + frame_weight (PutResult k v rest ts)) (index_step docs emb fails s)"
proof -
  from assms obtain b where b: "base b" "s = b\<lparr>vs_tasks := [PutResult k v rest ts]\<rparr>" by (auto simp: progress_def at_await_def)
  from assms have ts: "texts_ok docs ts" "result_ok emb ts k v" "\<forall>(k, v) \<in> set rest. result_ok emb ts k v" "store_ok docs emb old (vs_store b)"
    and K: "K \<subseteq> item_key ` set (vs_queue b) \<union> insert k (fst ` set rest) \<union> settled docs emb fails old (vs_store b)"
    by (auto simp: progress_def b(2))
  let ?st = "map_set k (v, simpleHash (case map_of ts k of None \<Rightarrow> [] | Some t \<Rightarrow> t)) (vs_store b)"
  have "index_step docs emb fails s = put_results rest ts (b\<lparr>vs_store := ?st\<rparr>)"
    using resume_at_task [OF b(1)] by (simp add: index_step_def b(2))
  moreover have "K \<subseteq> item_key ` set (vs_queue b) \<union> fst ` set rest \<union> settled docs emb fails old ?st"
  proof
    fix k' assume "k' \<in> K"
    with K have "k' \<in> item_key ` set (vs_queue b) \<union> fst ` set rest \<or> k' = k \<or> up_to_date docs emb old (vs_store b) k' \<or> in_failed docs fails k'" by auto
    with up_to_date_put(1) [OF ts(1,2), of k' old "vs_store b"]
    show "k' \<in> item_key ` set (vs_queue b) \<union> fst ` set rest \<union> settled docs emb fails old ?st" by auto
  qed
  then have "gets_on docs emb fails old K (20 * length (vs_queue s) + frame_weight (PutResult k v rest ts)) (put_results rest ts (b\<lparr>vs_store := ?st\<rparr>))"
    using b(1) ts(1,3) up_to_date_put(2) [OF ts(1,2,4)] by (intro gets_on_put_results) (simp_all add: base_def b(2))
  ultimately show ?thesis by simp
qed

lemma embed_gets_on:
  assumes "progress docs emb fails old K s (EmbedBatch ts)"
  shows "gets_on docs emb fails old K (20 * length (vs_queue s) + frame_weight (EmbedBatch ts :: 'v frame)) (index_step docs emb fails (s :: 'v vs))"
proof -
  from assms obtain b i w where b: "base b" "w \<in> set (vs_alive b)" "s = b\<lparr>vs_msgId := i, vs_pending := [(i, w, EmbedBatch ts)]\<rparr>"
    by (auto simp: progress_def at_await_def)
  from assms have ts: "texts_ok docs ts" "ts \<noteq> []" "store_ok docs emb old (vs_store b)"
    and K: "K \<subseteq> item_key ` set (vs_queue b) \<union> fst ` set ts \<union> settled docs emb fails old (vs_store b)"
    by (auto simp: progress_def b(3))
  let ?rs = "map (\<lambda>(k, t). (k, emb t)) ts"
  have keys: "fst ` set ?rs = fst ` set ts" by force
  have [simp]: "b\<lparr>vs_msgId := i, vs_pending := []\<rparr> = b\<lparr>vs_msgId := i\<rparr>" using b(1) by (cases b) (simp add: base_def)
  have e: "index_step docs emb fails s =
      (if fails ts then await_task YieldBatch (b\<lparr>vs_msgId := i\<rparr>) else put_results ?rs ts (b\<lparr>vs_msgId := i\<rparr>))"
    using b(1,2) base_facts [OF b(1)] by (simp add: index_step_def b(3) base_def handleWorkerMessage_def map_get_def map_delete_def)
  show ?thesis
  proof (cases "fails ts")
    case True
    have "fst ` set ts \<subseteq> Collect (in_failed docs fails)"
      using True ts(1) unfolding in_failed_def texts_ok_def by fastforce
    then have K: "K \<subseteq> item_key ` set (vs_queue b) \<union> settled docs emb fails old (vs_store b)" using K by blast
    have "gets_on docs emb fails old K (20 * length (vs_queue s) + frame_weight (EmbedBatch ts :: 'v frame)) (await_task YieldBatch (b\<lparr>vs_msgId := i\<rparr>))"
      using b(1) ts(3) K by (intro gets_on_await) (auto simp: base_def b(3))
    then show ?thesis using True by (simp add: e)
  next
    case False
    have "\<forall>(k, v) \<in> set ?rs. result_ok emb ts k v" by (auto simp: result_ok_def)
    then have "gets_on docs emb fails old K (20 * length (vs_queue s) + frame_weight (EmbedBatch ts :: 'v frame)) (put_results ?rs ts (b\<lparr>vs_msgId := i\<rparr>))"
      using b(1) ts K keys by (intro gets_on_put_results) (simp_all add: base_def b(3) del: set_map)
    then show ?thesis using False by (simp add: e)
  qed
qed

lemma yield_gets_on:
  assumes "progress docs emb fails old K s YieldBatch"
  shows "gets_on docs emb fails old K (20 * length (vs_queue s) + frame_weight (YieldBatch :: 'v frame)) (index_step docs emb fails (s :: 'v vs))"
proof -
  from assms obtain b where b: "base b" "s = b\<lparr>vs_tasks := [YieldBatch]\<rparr>" by (auto simp: progress_def at_await_def)
  with assms have so: "store_ok docs emb old (vs_store b)" and K: "K \<subseteq> item_key ` set (vs_queue b) \<union> settled docs emb fails old (vs_store b)" by (simp_all add: progress_def)
  have "index_step docs emb fails s = next_batch b" using resume_at_task [OF b(1)] by (simp add: index_step_def b(2))
  with gets_on_next_batch [OF b(1) so _ K, of "20 * length (vs_queue s) + frame_weight (YieldBatch :: 'v frame)"] show ?thesis
    by (simp add: b(2))
qed

lemma index_step_gets_on:
  "progress docs emb fails old K s f \<Longrightarrow> gets_on docs emb fails old K (20 * length (vs_queue s) + frame_weight f) (index_step docs emb fails s)"
proof -
  assume p: "progress docs emb fails old K s f"
  then have "is_loop f" by (cases f) (simp_all add: progress_def)
  with p show ?thesis
    by (cases f) (simp_all only: extract_gets_on hash_gets_on put_gets_on embed_gets_on yield_gets_on is_loop.simps)
qed

lemma gets_on_finishes: "gets_on docs emb fails old K n s \<Longrightarrow> \<exists>m. finished docs emb fails old K ((index_step docs emb fails ^^ m) s)"
proof (induction n arbitrary: s rule: less_induct)
  case (less n)
  show ?case
  proof (cases "finished docs emb fails old K s")
    case True
    then show ?thesis by (intro exI [of _ 0]) simp
  next
    case False
    with less.prems obtain f where f: "progress docs emb fails old K s f" "20 * length (vs_queue s) + frame_weight f < n"
      by (auto simp: gets_on_def)
    from less.IH [OF f(2) index_step_gets_on [OF f(1)]]
    obtain m where "finished docs emb fails old K ((index_step docs emb fails ^^ m) (index_step docs emb fails s))" by blast
    then show ?thesis by (intro exI [of _ "Suc m"]) (simp only: funpow_Suc_right comp_apply)
  qed
qed

text \<open>C21: indexing reaches every queued recipe and ends: from an idle, ready module whose documents open and whose database works, the loop
  comes to rest after finitely many awaits with the queue empty and \<open>processing\<close> cleared, whatever batches the worker fails with. Then for
  every recipe that was queued, has a text and was in no failed batch, the vector of that text is stored with the hash of the text,
  unless an entry with that hash was stored for it before; that one is left as it was.\<close>

theorem indexing_reaches_every_recipe:
  assumes "\<not> vs_processing s" "vs_modelReady s" "\<not> vs_paused s" "vs_docMgr s" "vs_embeddingDb s"
    and "vs_worker s = Some w" "w \<in> set (vs_alive s)" "vs_tasks s = []" "vs_pending s = []"
  shows "\<exists>n. let t = (index_step docs emb fails ^^ n) (processQueue s) in
    vs_queue t = [] \<and> \<not> vs_processing t \<and> vs_indexingComplete t \<and>
    (\<forall>i \<in> set (vs_queue s). up_to_date docs emb (vs_store s) (vs_store t) (item_key i) \<or> in_failed docs fails (item_key i))"
proof -
  let ?b = "s\<lparr>vs_processing := True, vs_indexingStartTime := (if vs_indexingStartTime s = 0 then vs_now s else vs_indexingStartTime s)\<rparr>"
  have "base ?b" using assms by (simp add: base_def)
  moreover have "store_ok docs emb (vs_store s) (vs_store ?b)" by (simp add: store_ok_def)
  ultimately have "gets_on docs emb fails (vs_store s) (item_key ` set (vs_queue s)) (Suc (20 * length (vs_queue s))) (next_batch ?b)"
    by (rule gets_on_next_batch) auto
  moreover have "processQueue s = next_batch ?b" using assms by (simp add: processQueue_def Let_def)
  ultimately obtain n where "finished docs emb fails (vs_store s) (item_key ` set (vs_queue s)) ((index_step docs emb fails ^^ n) (processQueue s))"
    using gets_on_finishes by metis
  then show ?thesis by (intro exI [of _ n]) (auto simp: finished_def Let_def)
qed

text \<open>A look-up in the database that fails is not caught: \<open>processing\<close> stays set, and nothing is indexed for the rest of the session.\<close>

theorem failed_lookup_ends_indexing:
  assumes "s = vs_run evs vs_init" "n < length (vs_tasks s)" "vs_tasks s ! n = HashLookup i u batch ts" "\<not> in_ok x"
  shows "vs_processing (vs_run evs' (vs_step s (VResume n x))) \<and> set (vs_store (vs_run evs' (vs_step s (VResume n x)))) \<subseteq> set (vs_store s)"
proof -
  let ?t = "s\<lparr>vs_tasks := take n (vs_tasks s) @ drop (Suc n) (vs_tasks s)\<rparr>"
  have ok: "vs_ok 0 s" using assms(1) vs_ok_run [OF vs_ok_init] by simp
  have t: "vs_step s (VResume n x) = ?t" using assms(2-4) by (simp add: resume_task_def)
  have "length (loop_frames ?t) + 1 = length (loop_frames s)" using loop_frames_take [OF assms(2)] assms(3) by (simp add: cost_def)
  moreover have "length (loop_frames s) \<le> (if vs_processing s then 1 else 0)" using ok by (simp add: vs_ok_def)
  moreover from calculation have "vs_processing s" by (auto split: if_splits)
  ultimately have "vs_processing s" "length (loop_frames ?t) = 0" by (simp_all only: if_True)
  then have p: "vs_processing s" "loop_frames ?t = []" by simp_all
  then have "stuck ?t" using ok by (auto simp: stuck_def loop_frames_def vs_ok_def workers_ok_def filter_empty_conv)
  from stuck_run [OF this, of evs'] show ?thesis unfolding t by (simp add: stuck_def)
qed

theorem indexing_reaches_every_recipe_witness:
  "\<exists>n. let t = (index_step (\<lambda>k. (Some \<lparr>rm_title = ''Soup'', rm_tags = []\<rparr>, None)) (\<lambda>t. t) (\<lambda>ts. False) ^^ n)
            (processQueue (vs_init\<lparr>vs_modelReady := True, vs_docMgr := True, vs_embeddingDb := True, vs_worker := Some 0,
               vs_alive := [0], vs_queue := [(''v'', ''r'', False)], vs_queueSet := [''v/r'']\<rparr>)) in
    vs_queue t = [] \<and> \<not> vs_processing t \<and> map_get (vs_store t) ''v/r'' = Some (''Soup'', simpleHash ''Soup'')"
proof -
  let ?s = "vs_init\<lparr>vs_modelReady := True, vs_docMgr := True, vs_embeddingDb := True, vs_worker := Some 0,
      vs_alive := [0], vs_queue := [(''v'', ''r'', False)], vs_queueSet := [''v/r'']\<rparr> :: string vs"
  let ?d = "\<lambda>k :: string. (Some \<lparr>rm_title = ''Soup'', rm_tags = []\<rparr>, None :: recipe_body option)"
  obtain n where n: "let t = (index_step ?d (\<lambda>t. t) (\<lambda>ts. False) ^^ n) (processQueue ?s) in
    vs_queue t = [] \<and> \<not> vs_processing t \<and> vs_indexingComplete t \<and>
    (\<forall>i \<in> set (vs_queue ?s). up_to_date ?d (\<lambda>t. t) (vs_store ?s) (vs_store t) (item_key i) \<or> in_failed ?d (\<lambda>ts. False) (item_key i))"
    using indexing_reaches_every_recipe [of ?s 0 ?d "\<lambda>t. t" "\<lambda>ts. False"] by (auto simp: vs_init_def)
  have e: "text_of ?d k = Some ''Soup''" for k by (simp add: text_of_def extractRecipeText_def)
  have "getHash (vs_store ?s) k = None" for k by (simp add: vs_init_def map_get_def)
  then show ?thesis using n
    by (intro exI [of _ n]) (auto simp: Let_def up_to_date_def e in_failed_def item_key_def recipe_key_def vs_init_def map_get_def)
qed

end
