(* ===== verification/Editor_Bridge.thy ===== *)
theory Editor_Bridge
  imports Js_Text
begin

text \<open>
  \<open>src/lib/codemirror-automerge.ts\<close>: the bridge between an editor and a text field of an Automerge document, with
  the two places of \<open>src/views/recipe-detail.ts\<close> it is wired to (the splice of the instructions or notes, and the
  listener that writes the document's text back while the page is being edited).

  The editor is a parameter: what its change sets do to a text and to a position. The bridge relies on their
  documented meaning, \<open>cm_replaces\<close>: the changes of a set are sorted, apart from each other, and all given by
  positions of the text before the set; it is relied on for texts without carriage returns, which the editor turns into line
  feeds. A change is (from, to, inserted text).
\<close>

type_synonym change = "nat \<times> nat \<times> string"

record codemirror =
  cm_apply :: "change list \<Rightarrow> string \<Rightarrow> string"
  cm_mapPos :: "change list \<Rightarrow> nat \<Rightarrow> nat option"

subsection \<open>The difference of two texts\<close>

function prefix_scan :: "string \<Rightarrow> string \<Rightarrow> nat \<Rightarrow> nat" where
  "prefix_scan old new n =
     (if n < min (length old) (length new) \<and> old ! n = new ! n then prefix_scan old new (Suc n) else n)"
  by pat_completeness auto
termination by (relation "measure (\<lambda>(old, new, n). length old - n)") auto

fun suffix_scan :: "string \<Rightarrow> string \<Rightarrow> nat \<Rightarrow> nat \<Rightarrow> nat \<Rightarrow> nat \<times> nat" where
  "suffix_scan old new p i j =
     (if p < i \<and> p < j \<and> old ! (i - 1) = new ! (j - 1) then suffix_scan old new p (i - 1) (j - 1) else (i, j))"

declare prefix_scan.simps [simp del] suffix_scan.simps [simp del]

definition diffToChanges :: "string \<Rightarrow> string \<Rightarrow> change list" where
  "diffToChanges old new =
     (let p = prefix_scan old new 0; (i, j) = suffix_scan old new p (length old) (length new)
      in if p = i \<and> p = j then [] else [(p, i, take (j - p) (drop p new))])"

subsection \<open>The bridge\<close>

text \<open>\<open>br_view\<close> is the editor's text once there is an editor; \<open>br_doc\<close> the field of the document and \<open>br_pushes\<close> the
  number of calls of \<open>onLocalChange\<close>.\<close>

record bridge =
  br_view :: "string option"
  br_suppress :: bool
  br_last :: "change list option"
  br_doc :: string
  br_pushes :: nat

definition bridge_init :: "string \<Rightarrow> bridge" where
  "bridge_init doc = \<lparr>br_view = None, br_suppress = False, br_last = None, br_doc = doc, br_pushes = 0\<rparr>"

definition setView :: "string \<Rightarrow> bridge \<Rightarrow> bridge" where
  "setView v b = b\<lparr>br_view := Some v\<rparr>"

text \<open>A dispatch gives the view its new text and calls the update listener, which splices the changes into the document unless
  \<open>suppressNext\<close> is set; a splice changes the document, and the store's listener writes the text back. The three call one
  another; that they end rests on the flag, which \<open>applyRemoteText\<close> sets around its dispatch.\<close>

function on_update :: "codemirror \<Rightarrow> change list \<Rightarrow> string \<Rightarrow> bridge \<Rightarrow> bridge"
  and spliceText :: "codemirror \<Rightarrow> nat \<Rightarrow> nat \<Rightarrow> string \<Rightarrow> bridge \<Rightarrow> bridge"
  and applyRemoteText :: "codemirror \<Rightarrow> bridge \<Rightarrow> bridge" where
  "on_update CM changes new b =
     (let b1 = setView new b
      in if br_suppress b \<or> changes = [] then b1
         else let b2 = foldl (\<lambda>b c. spliceText CM (fst c) (fst (snd c) - fst c) (snd (snd c)) b) b1 changes
              in b2\<lparr>br_pushes := Suc (br_pushes b2)\<rparr>)"
| "spliceText CM pos del ins b =
     applyRemoteText CM (b\<lparr>br_doc := take pos (br_doc b) @ ins @ drop (pos + del) (br_doc b)\<rparr>)"
| "applyRemoteText CM b =
     (case br_view b of
        None \<Rightarrow> b
      | Some currentText \<Rightarrow>
          if br_doc b = currentText then b\<lparr>br_last := None\<rparr>
          else let changes = diffToChanges currentText (br_doc b)
               in if changes = [] then b\<lparr>br_last := None\<rparr>
                  else (on_update CM changes (cm_apply CM changes currentText) (b\<lparr>br_suppress := True, br_last := Some changes\<rparr>))
                         \<lparr>br_suppress := False\<rparr>)"
  by pat_completeness auto
termination
  by (relation "measure (\<lambda>x. case x of Inl (CM, changes, new, b) \<Rightarrow> if br_suppress b then 0 else 3 | Inr (Inl y) \<Rightarrow> 2 | Inr (Inr y) \<Rightarrow> 1)")
    auto

declare on_update.simps [simp del] spliceText.simps [simp del] applyRemoteText.simps [simp del]

definition mapPosition :: "codemirror \<Rightarrow> nat \<Rightarrow> bridge \<Rightarrow> nat" where
  "mapPosition CM pos b =
     (case br_last b of
        None \<Rightarrow> pos
      | Some changes \<Rightarrow>
          (case cm_mapPos CM changes pos of
             Some p \<Rightarrow> p
           | None \<Rightarrow> (case br_view b of Some v \<Rightarrow> min pos (length v) | None \<Rightarrow> pos)))"

text \<open>Typing: the editor dispatches the changes.\<close>

definition user_edit :: "codemirror \<Rightarrow> change list \<Rightarrow> bridge \<Rightarrow> bridge" where
  "user_edit CM changes b =
     (case br_view b of None \<Rightarrow> b | Some v \<Rightarrow> on_update CM changes (cm_apply CM changes v) b)"

subsection \<open>What a change set means\<close>

fun sorted_changes :: "nat \<Rightarrow> nat \<Rightarrow> change list \<Rightarrow> bool" where
  "sorted_changes k n [] \<longleftrightarrow> k \<le> n"
| "sorted_changes k n ((f, t, ins) # cs) \<longleftrightarrow> k \<le> f \<and> f \<le> t \<and> sorted_changes t n cs"

fun replaced :: "nat \<Rightarrow> change list \<Rightarrow> string \<Rightarrow> string" where
  "replaced k [] s = s"
| "replaced k ((f, t, ins) # cs) s = take (f - k) s @ ins @ replaced t cs (drop (t - k) s)"

text \<open>CodeMirror keeps lines and writes them with line feeds: its changes mean this for texts without carriage returns.\<close>

abbreviation no_CR :: "string \<Rightarrow> bool" where
  "no_CR s \<equiv> CR \<notin> set s"

definition cm_replaces :: "codemirror \<Rightarrow> bool" where
  "cm_replaces CM \<longleftrightarrow>
     (\<forall>cs s. sorted_changes 0 (length s) cs \<longrightarrow> no_CR s \<longrightarrow> (\<forall>c \<in> set cs. no_CR (snd (snd c))) \<longrightarrow> cm_apply CM cs s = replaced 0 cs s)"

definition demo_codemirror :: codemirror where
  "demo_codemirror = \<lparr>cm_apply = replaced 0, cm_mapPos = (\<lambda>cs p. Some p)\<rparr>"

lemma demo_replaces: "cm_replaces demo_codemirror"
  by (simp add: cm_replaces_def demo_codemirror_def)

lemma sorted_changes_le: "sorted_changes k n cs \<Longrightarrow> k \<le> n"
  by (induction k n cs rule: sorted_changes.induct) auto

subsection \<open>The scans\<close>

lemma prefix_scan:
  assumes "n \<le> min (length a) (length b)" "take n a = take n b"
  shows "let p = prefix_scan a b n
         in p \<le> min (length a) (length b) \<and> take p a = take p b \<and>
            (p < min (length a) (length b) \<longrightarrow> a ! p \<noteq> b ! p)"
  using assms
proof (induction "length a - n" arbitrary: n)
  case (Suc m)
  show ?case
  proof (cases "n < min (length a) (length b) \<and> a ! n = b ! n")
    case True
    then have "take (Suc n) a = take (Suc n) b" using Suc.prems by (simp add: take_Suc_conv_app_nth)
    with True Suc.hyps(1) [of "Suc n"] Suc.hyps(2) show ?thesis by (subst prefix_scan.simps) auto
  next
    case False
    with Suc.prems show ?thesis by (subst prefix_scan.simps) (auto simp: Let_def)
  qed
qed (subst prefix_scan.simps, auto simp: Let_def)

lemma suffix_scan:
  assumes "suffix_scan a b p i j = (i', j')" "p \<le> i" "p \<le> j" "i \<le> length a" "j \<le> length b" "drop i a = drop j b"
  shows "p \<le> i' \<and> p \<le> j' \<and> i' \<le> i \<and> j' \<le> j \<and> drop i' a = drop j' b \<and>
    (p < i' \<and> p < j' \<longrightarrow> a ! (i' - 1) \<noteq> b ! (j' - 1))"
  using assms
proof (induction i arbitrary: j)
  case 0
  then show ?case by (simp add: suffix_scan.simps)
next
  case (Suc i)
  show ?case
  proof (cases "p < Suc i \<and> p < j \<and> a ! i = b ! (j - 1)")
    case True
    then have "drop i a = a ! i # drop (Suc i) a" "drop (j - 1) b = b ! (j - 1) # drop (Suc (j - 1)) b"
      using Suc.prems True by (intro Cons_nth_drop_Suc [symmetric]; auto)+
    then have "drop i a = drop (j - 1) b" using True Suc.prems(6) by simp
    moreover have "suffix_scan a b p i (j - 1) = (i', j')"
      using Suc.prems(1) True by (simp add: suffix_scan.simps [of a b p "Suc i" j])
    moreover have "p \<le> i" "p \<le> j - 1" "i \<le> length a" "j - 1 \<le> length b" using Suc.prems True by auto
    ultimately show ?thesis using Suc.IH [of "j - 1"] by (metis diff_le_self le_SucI le_trans)
  next
    case False
    with Suc.prems show ?thesis by (subst (asm) suffix_scan.simps) (auto split: if_splits)
  qed
qed

lemma replaced_single: "f \<le> t \<Longrightarrow> replaced 0 [(f, t, ins)] s = take f s @ ins @ drop t s"
  by simp

text \<open>The one change that the difference is, with nothing common left at its ends\<close>

lemma diffToChanges:
  assumes "v \<noteq> new"
  obtains p i ins where "diffToChanges v new = [(p, i, ins)]" "p \<le> i" "i \<le> length v"
    "new = take p v @ ins @ drop i v" "p < i \<and> ins \<noteq> [] \<longrightarrow> v ! p \<noteq> hd ins \<and> v ! (i - 1) \<noteq> last ins"
proof -
  define p where "p = prefix_scan v new 0"
  obtain i j where ij: "suffix_scan v new p (length v) (length new) = (i, j)" by force
  have p: "p \<le> min (length v) (length new)" "take p v = take p new"
    "p < min (length v) (length new) \<longrightarrow> v ! p \<noteq> new ! p"
    using prefix_scan [of 0 v new] by (auto simp: p_def Let_def)
  have s: "p \<le> i" "p \<le> j" "i \<le> length v" "j \<le> length new" "drop i v = drop j new"
    "p < i \<and> p < j \<longrightarrow> v ! (i - 1) \<noteq> new ! (j - 1)"
    using suffix_scan [OF ij] p(1) by auto
  let ?ins = "take (j - p) (drop p new)"
  have new: "new = take p v @ ?ins @ drop i v"
    using s(2) by (simp add: p(2) s(5) flip: append_assoc take_add)
  have "\<not> (p = i \<and> p = j)"
  proof
    assume "p = i \<and> p = j"
    with new have "new = v" by simp
    with assms show False by simp
  qed
  then have d: "diffToChanges v new = [(p, i, ?ins)]"
    by (simp add: diffToChanges_def Let_def ij flip: p_def)
  have "v ! p \<noteq> hd ?ins \<and> v ! (i - 1) \<noteq> last ?ins" if "p < i" "?ins \<noteq> []"
  proof -
    have "p < j" using that(2) by (cases "p < j") auto
    then have "hd ?ins = new ! p" "last ?ins = new ! (j - 1)"
      using s(4) by (simp_all add: hd_conv_nth last_conv_nth)
    with p(3) s(3,4,6) that(1) \<open>p < j\<close> show ?thesis by auto
  qed
  with d s(1,3) new show thesis by (intro that) auto
qed

lemma diffToChanges_same [simp]: "diffToChanges v v = []"
proof -
  define p where "p = prefix_scan v v 0"
  have "p = length v" using prefix_scan [of 0 v v] by (auto simp: p_def Let_def)
  then show ?thesis by (simp add: diffToChanges_def Let_def suffix_scan.simps [of _ _ _ "length v"] flip: p_def)
qed

subsection \<open>Remote text\<close>

lemma suppressed_update: "br_suppress b \<Longrightarrow> on_update CM changes new b = setView new b"
  by (simp add: on_update.simps Let_def)

lemma applyRemoteText_eq:
  assumes "cm_replaces CM" "br_view b = Some v" "no_CR v" "no_CR (br_doc b)"
  shows "applyRemoteText CM b =
    b\<lparr>br_view := Some (br_doc b), br_last := if br_doc b = v then None else Some (diffToChanges v (br_doc b)),
      br_suppress := br_doc b = v \<and> br_suppress b\<rparr>"
proof (cases "br_doc b = v")
  case True
  with assms(2) show ?thesis by (cases b) (simp add: applyRemoteText.simps)
next
  case False
  then obtain p i ins where d: "diffToChanges v (br_doc b) = [(p, i, ins)]" "p \<le> i" "i \<le> length v"
    "br_doc b = take p v @ ins @ drop i v" by (metis diffToChanges)
  then have "no_CR ins" using assms(4) by simp
  with d have "cm_apply CM (diffToChanges v (br_doc b)) v = br_doc b"
    using assms(1,3) by (simp add: cm_replaces_def)
  with False d(1) assms(2) show ?thesis by (simp add: applyRemoteText.simps suppressed_update setView_def)
qed

text \<open>C25: writing a remote text into the editor makes the editor's text the document's with one change, which touches nothing
  that the two texts have in common at their ends. The dispatch comes back to the update listener, and the document and the number of
  pushes are as before; the flag is clear again, and a second call changes no text. The texts are without carriage returns.\<close>

theorem remote_text_reaches_the_editor:
  assumes "cm_replaces CM" "br_view b = Some v" "v \<noteq> br_doc b" "no_CR v" "no_CR (br_doc b)"
  shows "\<exists>p i ins. applyRemoteText CM b = b\<lparr>br_view := Some (br_doc b), br_last := Some [(p, i, ins)], br_suppress := False\<rparr> \<and>
    p \<le> i \<and> i \<le> length v \<and> br_doc b = take p v @ ins @ drop i v \<and>
    (p < i \<and> ins \<noteq> [] \<longrightarrow> v ! p \<noteq> hd ins \<and> v ! (i - 1) \<noteq> last ins) \<and>
    applyRemoteText CM (applyRemoteText CM b) = (applyRemoteText CM b)\<lparr>br_last := None\<rparr>"
proof -
  obtain p i ins where "diffToChanges v (br_doc b) = [(p, i, ins)]" "p \<le> i" "i \<le> length v"
    "br_doc b = take p v @ ins @ drop i v" "p < i \<and> ins \<noteq> [] \<longrightarrow> v ! p \<noteq> hd ins \<and> v ! (i - 1) \<noteq> last ins"
    using assms(3) by (metis diffToChanges)
  with assms show ?thesis
    by (intro exI [of _ p] exI [of _ i] exI [of _ ins]) (auto simp: applyRemoteText_eq)
qed

theorem remote_text_reaches_the_editor_witness:
  "let b = setView ''add salt'' (bridge_init ''add sea salt'')
   in \<exists>p i ins. applyRemoteText demo_codemirror b = b\<lparr>br_view := Some ''add sea salt'', br_last := Some [(p, i, ins)], br_suppress := False\<rparr>"
proof -
  have v: "br_view (setView ''add salt'' (bridge_init ''add sea salt'')) = Some ''add salt''"
    "br_doc (setView ''add salt'' (bridge_init ''add sea salt'')) = ''add sea salt''"
    by (simp_all add: setView_def bridge_init_def)
  from remote_text_reaches_the_editor [OF demo_replaces v(1)]
  show ?thesis unfolding Let_def v(2) by (auto simp: CR_def)
qed

subsection \<open>Typing\<close>

lemma spliceText_doc:
  assumes "cm_replaces CM" "br_view b = Some v" "no_CR v" "no_CR (br_doc b)" "no_CR ins"
  shows "br_doc (spliceText CM f n ins b) = take f (br_doc b) @ ins @ drop (f + n) (br_doc b)"
    "br_view (spliceText CM f n ins b) = Some (br_doc (spliceText CM f n ins b))"
    "br_pushes (spliceText CM f n ins b) = br_pushes b"
proof -
  have "no_CR (take f (br_doc b) @ ins @ drop (f + n) (br_doc b))"
    using assms(4,5) by (auto dest: in_set_takeD in_set_dropD)
  then show "br_doc (spliceText CM f n ins b) = take f (br_doc b) @ ins @ drop (f + n) (br_doc b)"
    "br_view (spliceText CM f n ins b) = Some (br_doc (spliceText CM f n ins b))"
    "br_pushes (spliceText CM f n ins b) = br_pushes b"
    using applyRemoteText_eq [OF assms(1), of "b\<lparr>br_doc := take f (br_doc b) @ ins @ drop (f + n) (br_doc b)\<rparr>" v] assms(2,3)
    by (simp_all add: spliceText.simps)
qed

text \<open>The document after the splices, in one text\<close>

definition spliced :: "string \<Rightarrow> change list \<Rightarrow> string" where
  "spliced s cs = foldl (\<lambda>s c. take (fst c) s @ snd (snd c) @ drop (fst (snd c)) s) s cs"

lemma splices:
  assumes "cm_replaces CM" "br_view b = Some v" "no_CR v" "no_CR (br_doc b)" "sorted_changes k n cs" "\<forall>c \<in> set cs. no_CR (snd (snd c))"
  shows "let b' = foldl (\<lambda>b c. spliceText CM (fst c) (fst (snd c) - fst c) (snd (snd c)) b) b cs
         in br_doc b' = spliced (br_doc b) cs \<and> br_pushes b' = br_pushes b \<and>
            br_view b' = (if cs = [] then br_view b else Some (br_doc b'))"
  using assms(2-)
proof (induction cs arbitrary: b k v)
  case (Cons c cs)
  obtain f t ins where c: "c = (f, t, ins)" by (cases c)
  have "no_CR ins" using Cons.prems(5) by (simp add: c)
  note s = spliceText_doc [OF assms(1) Cons.prems(1-3) this, of f "t - f"]
  have "f \<le> t" "sorted_changes t n cs" using Cons.prems(4) by (simp_all add: c)
  moreover have "no_CR (br_doc (spliceText CM f (t - f) ins b))"
    using Cons.prems(3) \<open>no_CR ins\<close> by (auto simp: s(1) dest: in_set_takeD in_set_dropD)
  ultimately show ?case
    using Cons.IH [OF s(2), of t] Cons.prems(5) by (simp add: c s spliced_def Let_def)
qed (simp add: spliced_def)

lemma spliced_keeping:
  assumes "sorted_changes k (length s) cs" "\<forall>(f, t, ins) \<in> set (butlast cs). length ins = t - f"
  shows "spliced s cs = take k s @ replaced k cs (drop k s)"
  using assms
proof (induction cs arbitrary: k s)
  case (Cons c cs)
  obtain f t ins where c: "c = (f, t, ins)" by (cases c)
  have le: "k \<le> f" "f \<le> t" "t \<le> length s"
    using Cons.prems(1) sorted_changes_le [of t "length s" cs] by (simp_all add: c)
  have head: "take k s @ take (f - k) (drop k s) = take f s" using le(1) by (simp flip: take_add)
  show ?case
  proof (cases "cs = []")
    case True
    with le head show ?thesis by (simp add: c spliced_def)
  next
    case False
    let ?s = "take f s @ ins @ drop t s"
    have len: "length ins = t - f" using Cons.prems(2) False by (simp add: c)
    then have "length ?s = length s" "take t ?s = take f s @ ins" "drop t ?s = drop t s"
      using le by auto
    then have "spliced ?s cs = (take f s @ ins) @ replaced t cs (drop t s)"
      using Cons.IH [of t ?s] Cons.prems False by (simp add: c)
    with head le show ?thesis by (simp add: c spliced_def)
  qed
qed (simp add: spliced_def)

lemma user_edit_splices:
  assumes "cm_replaces CM" "br_view b = Some v" "br_doc b = v" "\<not> br_suppress b" "changes \<noteq> []" "no_CR v"
    and "sorted_changes 0 (length v) changes" "\<forall>c \<in> set changes. no_CR (snd (snd c))" "no_CR (cm_apply CM changes v)"
  shows "br_doc (user_edit CM changes b) = spliced v changes \<and> br_view (user_edit CM changes b) = Some (spliced v changes) \<and>
    br_pushes (user_edit CM changes b) = Suc (br_pushes b)"
  using splices [OF assms(1), of "setView (cm_apply CM changes v) b" "cm_apply CM changes v" 0 "length v" changes] assms
  by (simp add: user_edit_def on_update.simps setView_def Let_def)

text \<open>After an edit whose changes keep the length of what they replace, except for the last one - so after
  every edit in one place - the document has the editor's text, and the edit is pushed once.\<close>

theorem typing_reaches_the_document:
  assumes "cm_replaces CM" "br_view b = Some v" "br_doc b = v" "\<not> br_suppress b" "changes \<noteq> []" "no_CR v"
    and "sorted_changes 0 (length v) changes" "\<forall>c \<in> set changes. no_CR (snd (snd c))"
    and "\<forall>(f, t, ins) \<in> set (butlast changes). length ins = t - f"
  shows "br_doc (user_edit CM changes b) = cm_apply CM changes v \<and>
    br_view (user_edit CM changes b) = Some (cm_apply CM changes v) \<and>
    br_pushes (user_edit CM changes b) = Suc (br_pushes b)"
proof -
  have e: "cm_apply CM changes v = spliced v changes"
    using assms(1,6,7,8) spliced_keeping [OF assms(7,9)] by (simp add: cm_replaces_def)
  have "no_CR s \<Longrightarrow> \<forall>c \<in> set cs. no_CR (snd (snd c)) \<Longrightarrow> no_CR (spliced s cs)" for s cs
  proof (induction cs arbitrary: s)
    case (Cons c cs)
    have "no_CR (take (fst c) s @ snd (snd c) @ drop (fst (snd c)) s)"
      using Cons.prems by (auto dest: in_set_takeD in_set_dropD)
    with Cons show ?case by (simp add: spliced_def)
  qed (simp add: spliced_def)
  then have "no_CR (cm_apply CM changes v)" using assms(6,8) by (simp add: e)
  then show ?thesis using user_edit_splices [OF assms(1-8)] by (simp add: e)
qed

theorem typing_reaches_the_document_witness:
  "let b = setView ''add salt'' (bridge_init ''add salt'')
   in br_doc (user_edit demo_codemirror [(4, 4, ''sea '')] b) = ''add sea salt''"
proof -
  let ?b = "setView ''add salt'' (bridge_init ''add salt'')"
  have "cm_apply demo_codemirror [(4, 4, ''sea '')] ''add salt'' = ''add sea salt''"
    by (simp add: demo_codemirror_def)
  moreover have "br_doc (user_edit demo_codemirror [(4, 4, ''sea '')] ?b) = cm_apply demo_codemirror [(4, 4, ''sea '')] ''add salt''"
    using typing_reaches_the_document [OF demo_replaces, of ?b "''add salt''" "[(4, 4, ''sea '')]"]
    by (simp add: setView_def bridge_init_def CR_def)
  ultimately show ?thesis by simp
qed

text \<open>An edit in two places goes wrong: the positions of the second change count in the text before the edit,
  but it is spliced into the text after the first change. Two insertions, as indenting two lines makes, leave the
  second one as many characters too far left as the first one is long, in the document and then in the editor.\<close>

theorem edit_in_two_places_is_displaced:
  assumes "cm_replaces CM" "br_view b = Some v" "br_doc b = v" "\<not> br_suppress b" "no_CR v" "no_CR ins" "no_CR ins'"
    and "length ins \<le> p" "p \<le> length v"
  shows "br_doc (user_edit CM [(0, 0, ins), (p, p, ins')] b)
      = ins @ take (p - length ins) v @ ins' @ drop (p - length ins) v \<and>
    br_view (user_edit CM [(0, 0, ins), (p, p, ins')] b) = Some (br_doc (user_edit CM [(0, 0, ins), (p, p, ins')] b)) \<and>
    cm_apply CM [(0, 0, ins), (p, p, ins')] v = ins @ take p v @ ins' @ drop p v"
proof -
  have a: "cm_apply CM [(0, 0, ins), (p, p, ins')] v = ins @ take p v @ ins' @ drop p v"
    using assms(1,5-7,9) by (simp add: cm_replaces_def)
  moreover have "spliced v [(0, 0, ins), (p, p, ins')] = ins @ take (p - length ins) v @ ins' @ drop (p - length ins) v"
    using assms(8) by (simp add: spliced_def)
  moreover have "no_CR (ins @ take p v @ ins' @ drop p v)" using assms(5-7) by (auto dest: in_set_takeD in_set_dropD)
  ultimately show ?thesis
    using user_edit_splices [OF assms(1-4), of "[(0, 0, ins), (p, p, ins')]"] assms(5-9) by simp
qed

theorem edit_in_two_places_is_displaced_witness:
  "let b = setView ''boil. stir.'' (bridge_init ''boil. stir.'')
   in br_doc (user_edit demo_codemirror [(0, 0, ''- ''), (6, 6, ''- '')] b) = ''- boil- . stir.''"
proof -
  let ?b = "setView ''boil. stir.'' (bridge_init ''boil. stir.'')"
  have "br_view ?b = Some ''boil. stir.''" "br_doc ?b = ''boil. stir.''" "\<not> br_suppress ?b"
    by (simp_all add: setView_def bridge_init_def)
  from edit_in_two_places_is_displaced [OF demo_replaces this, of "''- ''" "''- ''" 6]
  show ?thesis by (simp add: Let_def eval_nat_numeral CR_def)
qed

end
