(* ===== verification/Float64.thy ===== *)
theory Float64
  imports Complex_Main
begin

text \<open>
  The number type of JavaScript: IEEE 754 binary64 with rounding to nearest, ties to even, as it acts on exact
  rational values, with overflow, subnormal numbers, infinities and \<open>NaN\<close>. The two zeros are one value.
\<close>

subsection \<open>Rounding\<close>

text \<open>The number of binary digits\<close>

function bits :: "int \<Rightarrow> nat" where
  "bits n = (if n \<le> 0 then 0 else Suc (bits (n div 2)))"
  by pat_completeness auto
termination by (relation "measure nat") auto

declare bits.simps [simp del]

text \<open>The exponent of the leading binary digit of a positive number\<close>

definition log2_floor :: "rat \<Rightarrow> int" where
  "log2_floor q =
     (case quotient_of q of
        (a, b) \<Rightarrow>
          let d = int (bits a) - int (bits b)
          in if 2 powi d \<le> q then d else d - 1)"

definition round_even :: "rat \<Rightarrow> int" where
  "round_even m =
     (let f = \<lfloor>m\<rfloor>; r = m - of_int f
      in if r < 1 / 2 then f else if 1 / 2 < r then f + 1 else if even f then f else f + 1)"

definition ulp_exp :: "rat \<Rightarrow> int" where
  "ulp_exp q = max (log2_floor \<bar>q\<bar> - 52) (- 1074)"

definition rnd :: "rat \<Rightarrow> rat" where
  "rnd q = (if q = 0 then 0 else of_int (round_even (q * 2 powi (- ulp_exp q))) * 2 powi ulp_exp q)"

lemma bits_bounds: "0 < n \<Longrightarrow> 2 ^ bits n \<le> 2 * n \<and> n < 2 ^ bits n"
proof (induction n rule: bits.induct)
  case (1 n)
  show ?case
  proof (cases "n = 1")
    case True
    then show ?thesis by (simp add: bits.simps [of 1] bits.simps [of 0])
  next
    case False
    with 1 have "2 ^ bits (n div 2) \<le> 2 * (n div 2) \<and> n div 2 < 2 ^ bits (n div 2)" by simp
    moreover have "2 * (n div 2) \<le> n" "n < 2 * (n div 2) + 2" by linarith+
    ultimately have "2 ^ bits (n div 2) \<le> n \<and> n < 2 * 2 ^ bits (n div 2)" by linarith
    with "1.prems" show ?thesis by (simp add: bits.simps [of n])
  qed
qed

lemma bits_bounds_rat:
  assumes "0 < a"
  shows "(2::rat) powi (int (bits a) - 1) \<le> of_int a \<and> of_int a < (2::rat) powi int (bits a)"
proof -
  have b: "2 ^ bits a \<le> 2 * a" "a < 2 ^ bits a" using bits_bounds [OF assms] by blast+
  then have "(of_int (2 ^ bits a) :: rat) \<le> of_int (2 * a)" "(of_int a :: rat) < of_int (2 ^ bits a)"
    by (simp_all only: of_int_le_iff of_int_less_iff)
  moreover have "(2::rat) powi (int (bits a) - 1) = 2 ^ bits a / 2" by (simp add: power_int_diff)
  ultimately show ?thesis by simp
qed

lemma powi_pos [simp]: "0 < (2::rat) powi k"
  by (simp add: zero_less_power_int)

lemma powi_shift: "(2::rat) powi (k + 1) = 2 * 2 powi k"
  by (simp add: power_int_add)

lemma log2_floor_bounds:
  assumes "0 < q"
  shows "2 powi log2_floor q \<le> q \<and> q < 2 powi (log2_floor q + 1)"
proof -
  obtain a b where ab: "quotient_of q = (a, b)" by force
  then have b: "0 < b" and q: "q = of_int a / of_int b" using quotient_of_denom_pos quotient_of_div by blast+
  with assms have a: "0 < a" by (simp add: zero_less_divide_iff)
  define m n where "m = int (bits a)" and "n = int (bits b)"
  have ra: "(2::rat) powi (m - 1) \<le> of_int a" "of_int a < (2::rat) powi m"
    and rb: "(2::rat) powi (n - 1) \<le> of_int b" "of_int b < (2::rat) powi n"
    using bits_bounds_rat [OF a] bits_bounds_rat [OF b] by (simp_all add: m_def n_def)
  have bp: "(0::rat) < of_int b" using b by simp
  have "(2::rat) powi (m - n - 1) * of_int b \<le> 2 powi (m - n - 1) * 2 powi n"
    using rb(2) by (intro mult_left_mono) simp_all
  also have "\<dots> = 2 powi (m - 1)" by (simp add: power_int_add [symmetric] algebra_simps)
  finally have lo: "2 powi (m - n - 1) \<le> q" using ra(1) bp by (simp add: q le_divide_eq)
  have "(2::rat) powi m = 2 powi (m - n + 1) * 2 powi (n - 1)" by (simp add: power_int_add [symmetric])
  also have "\<dots> \<le> 2 powi (m - n + 1) * of_int b" using rb(1) by (intro mult_left_mono) simp_all
  finally have hi: "q < 2 powi (m - n + 1)" using ra(2) bp by (simp add: q divide_less_eq)
  have "log2_floor q = (if 2 powi (m - n) \<le> q then m - n else m - n - 1)"
    by (simp add: log2_floor_def ab Let_def m_def n_def)
  with lo hi show ?thesis by (auto simp: not_le)
qed

lemma round_even_int [simp]: "round_even (of_int z) = z"
  by (simp add: round_even_def)

lemma round_even_error: "\<bar>of_int (round_even m) - m\<bar> \<le> 1 / 2"
proof -
  define f where "f = \<lfloor>m\<rfloor>"
  have f: "\<lfloor>m\<rfloor> = f" "of_int f \<le> m" "m < of_int f + 1" using floor_correct [of m] unfolding f_def by simp_all
  show ?thesis unfolding round_even_def Let_def f(1) using f(2,3) by (auto simp: abs_if)
qed

text \<open>Numbers of 53 significant bits are not rounded.\<close>

lemma rnd_exact:
  assumes "\<bar>m\<bar> < 2 ^ 53" "- 1074 \<le> k"
  shows "rnd (of_int m * 2 powi k) = of_int m * 2 powi k"
proof (cases "m = 0")
  case False
  let ?q = "of_int m * (2::rat) powi k"
  let ?e = "ulp_exp ?q"
  have q: "0 < \<bar>?q\<bar>" using False by (simp add: abs_mult)
  have "(2::rat) powi log2_floor \<bar>?q\<bar> \<le> \<bar>?q\<bar>" using log2_floor_bounds [OF q] by blast
  also have "\<bar>?q\<bar> = of_int \<bar>m\<bar> * 2 powi k" by (simp add: abs_mult power_int_abs)
  also have "\<dots> < of_int (2 ^ 53) * 2 powi k"
    using assms(1) by (intro mult_strict_right_mono) (simp_all only: of_int_less_iff powi_pos)
  also have "of_int (2 ^ 53) * (2::rat) powi k = 2 powi (53 + k)" by (simp add: power_int_add)
  finally have "\<not> (2::rat) powi (53 + k) \<le> 2 powi log2_floor \<bar>?q\<bar>" by simp
  then have "\<not> 53 + k \<le> log2_floor \<bar>?q\<bar>" using power_int_increasing [of "53 + k" "log2_floor \<bar>?q\<bar>" "2 :: rat"] by auto
  then have "log2_floor \<bar>?q\<bar> < 53 + k" by simp
  then have e: "?e \<le> k" using assms(2) by (simp add: ulp_exp_def)
  have s: "(2::rat) powi (k - ?e) = of_int (2 ^ nat (k - ?e))" using e by (simp add: power_int_nonneg_exp)
  have "?q * 2 powi (- ?e) = of_int m * 2 powi (k - ?e)" by (simp add: power_int_add [symmetric] mult.assoc)
  also have "\<dots> = of_int (m * 2 ^ nat (k - ?e))" unfolding s by simp
  finally have "round_even (?q * 2 powi (- ?e)) = m * 2 ^ nat (k - ?e)" by (simp only: round_even_int)
  then have "rnd ?q = of_int (m * 2 ^ nat (k - ?e)) * 2 powi ?e" using q by (simp add: rnd_def)
  also have "\<dots> = of_int m * (2 powi (k - ?e) * 2 powi ?e)" unfolding s by simp
  also have "\<dots> = ?q" by (simp add: power_int_add [symmetric])
  finally show ?thesis .
qed (simp add: rnd_def)

lemma rnd_int: "\<bar>m\<bar> < 2 ^ 53 \<Longrightarrow> rnd (of_int m) = of_int m"
  using rnd_exact [of m 0] by simp

lemma rnd_eighths: "\<bar>m\<bar> < 2 ^ 53 \<Longrightarrow> rnd (of_int m / 8) = of_int m / 8"
proof -
  assume "\<bar>m\<bar> < 2 ^ 53"
  then have "rnd (of_int m * 2 powi (- 3)) = of_int m * 2 powi (- 3)" by (rule rnd_exact) simp
  moreover have "(2::rat) powi (- 3) = 1 / 8" by (simp add: power_int_def power3_eq_cube)
  ultimately show ?thesis by simp
qed

text \<open>The error of rounding is at most half a unit in the last place.\<close>

lemma rnd_error: "\<bar>rnd q - q\<bar> \<le> 2 powi ulp_exp q / 2"
proof (cases "q = 0")
  case False
  let ?e = "ulp_exp q"
  have "q = q * 2 powi (- ?e) * 2 powi ?e" by (simp add: mult.assoc power_int_add [symmetric])
  then have "rnd q - q = (of_int (round_even (q * 2 powi (- ?e))) - q * 2 powi (- ?e)) * 2 powi ?e"
    using False by (simp add: rnd_def left_diff_distrib)
  then have "\<bar>rnd q - q\<bar> = \<bar>of_int (round_even (q * 2 powi (- ?e))) - q * 2 powi (- ?e)\<bar> * 2 powi ?e"
    by (simp add: abs_mult power_int_abs)
  also have "\<dots> \<le> (1 / 2) * 2 powi ?e" by (intro mult_right_mono round_even_error) (simp add: less_imp_le)
  finally show ?thesis by simp
qed (simp add: rnd_def)

subsection \<open>Numbers\<close>

datatype num = Fin rat | PosInf | NegInf | NaN

definition fin :: "rat \<Rightarrow> num" where
  "fin q = (let r = rnd q in if 2 ^ 1024 \<le> r then PosInf else if r \<le> - (2 ^ 1024) then NegInf else Fin r)"

fun neg :: "num \<Rightarrow> num" where
  "neg (Fin x) = Fin (- x)"
| "neg PosInf = NegInf"
| "neg NegInf = PosInf"
| "neg NaN = NaN"

fun add :: "num \<Rightarrow> num \<Rightarrow> num" where
  "add (Fin x) (Fin y) = fin (x + y)"
| "add NaN y = NaN"
| "add x NaN = NaN"
| "add PosInf NegInf = NaN"
| "add NegInf PosInf = NaN"
| "add PosInf y = PosInf"
| "add x PosInf = PosInf"
| "add NegInf y = NegInf"
| "add x NegInf = NegInf"

definition sub :: "num \<Rightarrow> num \<Rightarrow> num" where
  "sub x y = add x (neg y)"

definition inf_sign :: "bool \<Rightarrow> num" where
  "inf_sign negative = (if negative then NegInf else PosInf)"

text \<open>The sign of an operand; \<open>None\<close> for zero\<close>

fun negative :: "num \<Rightarrow> bool option" where
  "negative (Fin x) = (if x = 0 then None else Some (x < 0))"
| "negative PosInf = Some False"
| "negative NegInf = Some True"
| "negative NaN = None"

fun mul :: "num \<Rightarrow> num \<Rightarrow> num" where
  "mul (Fin x) (Fin y) = fin (x * y)"
| "mul NaN y = NaN"
| "mul x NaN = NaN"
| "mul x y = (case (negative x, negative y) of (Some a, Some b) \<Rightarrow> inf_sign (a \<noteq> b) | _ \<Rightarrow> NaN)"

text \<open>A zero divisor counts as positive.\<close>

fun div_num :: "num \<Rightarrow> num \<Rightarrow> num" where
  "div_num NaN y = NaN"
| "div_num x NaN = NaN"
| "div_num (Fin x) (Fin y) = (if y = 0 then (if x = 0 then NaN else inf_sign (x < 0)) else fin (x / y))"
| "div_num (Fin x) y = Fin 0"
| "div_num x (Fin y) = inf_sign ((x = NegInf) \<noteq> (y < 0))"
| "div_num x y = NaN"

fun less_num :: "num \<Rightarrow> num \<Rightarrow> bool" where
  "less_num (Fin x) (Fin y) = (x < y)"
| "less_num NegInf (Fin y) = True"
| "less_num NegInf PosInf = True"
| "less_num (Fin x) PosInf = True"
| "less_num x y = False"

definition le_num :: "num \<Rightarrow> num \<Rightarrow> bool" where
  "le_num x y \<longleftrightarrow> less_num x y \<or> (x = y \<and> x \<noteq> NaN)"

fun abs_num :: "num \<Rightarrow> num" where
  "abs_num (Fin x) = Fin \<bar>x\<bar>"
| "abs_num NegInf = PosInf"
| "abs_num x = x"

fun floor_num :: "num \<Rightarrow> num" where
  "floor_num (Fin x) = Fin (of_int \<lfloor>x\<rfloor>)"
| "floor_num x = x"

text \<open>\<^verbatim>\<open>Math.round\<close>: the nearest integer, halves up\<close>

fun round_num :: "num \<Rightarrow> num" where
  "round_num (Fin x) = Fin (of_int \<lfloor>x + 1 / 2\<rfloor>)"
| "round_num x = x"

text \<open>\<^verbatim>\<open>x % 1 === 0\<close>\<close>

fun is_integer :: "num \<Rightarrow> bool" where
  "is_integer (Fin x) = (of_int \<lfloor>x\<rfloor> = x)"
| "is_integer x = False"

lemma fin_small: "rnd q = q \<Longrightarrow> \<bar>q\<bar> < 2 ^ 1024 \<Longrightarrow> fin q = Fin q"
  by (auto simp: fin_def Let_def abs_less_iff)

text \<open>The error of rounding a number below a power of two\<close>

lemma rnd_below:
  assumes "\<bar>q\<bar> < 2 powi k" "- 1021 \<le> k"
  shows "\<bar>rnd q - q\<bar> \<le> 2 powi (k - 54)"
proof (cases "q = 0")
  case False
  then have "2 powi log2_floor \<bar>q\<bar> \<le> \<bar>q\<bar>" using log2_floor_bounds [of "\<bar>q\<bar>"] by simp
  with assms(1) have "\<not> (2::rat) powi k \<le> 2 powi log2_floor \<bar>q\<bar>" by simp
  then have "\<not> k \<le> log2_floor \<bar>q\<bar>" using power_int_increasing [of k "log2_floor \<bar>q\<bar>" "2 :: rat"] by auto
  then have "ulp_exp q \<le> k - 53" using assms(2) by (simp add: ulp_exp_def)
  then have "(2::rat) powi ulp_exp q \<le> 2 powi (k - 53)" by (intro power_int_increasing) simp_all
  also have "(2::rat) powi (k - 53) = 2 * 2 powi (k - 54)" using powi_shift [of "k - 54"] by simp
  finally show ?thesis using rnd_error [of q] by linarith
qed (simp add: rnd_def less_imp_le)

lemma rnd_relative:
  assumes "1 / 1024 \<le> q"
  shows "\<bar>rnd q - q\<bar> \<le> q / 2 ^ 53"
proof -
  have q: "0 < q" "\<bar>q\<bar> = q" using assms by simp_all
  let ?l = "log2_floor q"
  have l: "2 powi ?l \<le> q" "q < 2 powi (?l + 1)" using log2_floor_bounds [OF q(1)] by blast+
  have "(2::rat) powi (- 10) = 1 / 1024" by (simp add: power_int_def power_one_over)
  with assms l(2) have "\<not> (2::rat) powi (?l + 1) \<le> 2 powi (- 10)" by simp
  then have "\<not> ?l + 1 \<le> - 10" using power_int_increasing [of "?l + 1" "- 10" "2 :: rat"] by auto
  then have "ulp_exp q = ?l - 52" using q by (simp add: ulp_exp_def)
  then have "\<bar>rnd q - q\<bar> \<le> 2 powi (?l - 52) / 2" using rnd_error [of q] by simp
  also have "(2::rat) powi (?l - 52) = 2 powi ?l / 2 ^ 52" by (simp add: power_int_diff power_int_numeral)
  also have "\<dots> / 2 \<le> q / 2 ^ 53" using l(1) by (simp add: field_simps)
  finally show ?thesis .
qed

lemma fin_below:
  assumes "\<bar>q\<bar> < 2 powi k" "- 1021 \<le> k" "k \<le> 1022"
  shows "\<exists>r. fin q = Fin r \<and> \<bar>r - q\<bar> \<le> 2 powi (k - 54)"
proof -
  have e: "\<bar>rnd q - q\<bar> \<le> 2 powi (k - 54)" by (rule rnd_below [OF assms(1,2)])
  have "(2::rat) powi (k - 54) \<le> 2 powi k" by (rule power_int_increasing) simp_all
  with e assms(1) have "\<bar>rnd q\<bar> < 2 powi k + 2 powi k" by linarith
  also have "2 powi k + 2 powi k = (2::rat) powi (k + 1)" by (simp add: powi_shift)
  also have "\<dots> \<le> 2 powi 1024" using assms(3) by (intro power_int_increasing) simp_all
  finally have "\<bar>rnd q\<bar> < 2 ^ 1024" by (simp add: power_int_numeral)
  then have "fin q = Fin (rnd q)" by (simp add: fin_def Let_def abs_less_iff)
  with e show ?thesis by blast
qed

lemma fin_close:
  assumes "\<bar>q\<bar> < 2"
  shows "\<exists>r. fin q = Fin r \<and> \<bar>r - q\<bar> \<le> 1 / 9007199254740992"
proof -
  have "(2::rat) powi (1 - 54) = 1 / 9007199254740992" by (simp add: power_int_def power_one_over)
  with fin_below [of q 1] assms show ?thesis by simp
qed

lemma fin_exact:
  assumes "\<bar>m\<bar> < 2 ^ 53"
  shows "fin (of_int m) = Fin (of_int m)" "fin (of_int m / 8) = Fin (of_int m / 8)"
proof -
  have p: "(2::rat) ^ 53 \<le> 2 ^ 1024" by (rule power_increasing) simp_all
  have "\<bar>of_int m\<bar> < (of_int (2 ^ 53) :: rat)" using assms by (simp only: of_int_abs [symmetric] of_int_less_iff)
  then have m: "\<bar>of_int m\<bar> < (2::rat) ^ 53" by simp
  then have "\<bar>of_int m / 8\<bar> < (2::rat) ^ 53" by simp
  with m p have "\<bar>of_int m\<bar> < (2::rat) ^ 1024" "\<bar>of_int m / 8\<bar> < (2::rat) ^ 1024" by linarith+
  with rnd_int [OF assms] rnd_eighths [OF assms]
  show "fin (of_int m) = Fin (of_int m)" "fin (of_int m / 8) = Fin (of_int m / 8)" by (auto intro: fin_small)
qed

subsection \<open>Whole numbers\<close>

fun whole :: "num \<Rightarrow> bool" where
  "whole (Fin x) = (x \<in> \<int>)"
| "whole NaN = False"
| "whole _ = True"

fun at_least_one :: "num \<Rightarrow> bool" where
  "at_least_one (Fin x) = (1 \<le> x)"
| "at_least_one PosInf = True"
| "at_least_one _ = False"

lemma rnd_whole: "rnd (of_int n) \<in> \<int>"
proof (cases "\<bar>n\<bar> < 2 ^ 53")
  case True
  then show ?thesis by (simp add: rnd_int)
next
  case False
  let ?q = "of_int n :: rat"
  have "of_int (2 ^ 53) \<le> \<bar>?q\<bar>" using False by (simp only: of_int_abs [symmetric] of_int_le_iff)
  then have q: "0 < \<bar>?q\<bar>" "2 powi 53 \<le> \<bar>?q\<bar>" by (simp_all add: power_int_numeral)
  with log2_floor_bounds [OF q(1)] have "(2::rat) powi 53 < 2 powi (log2_floor \<bar>?q\<bar> + 1)" by (metis le_less_trans)
  then have "\<not> log2_floor \<bar>?q\<bar> + 1 \<le> 53" using power_int_increasing [of "log2_floor \<bar>?q\<bar> + 1" 53 "2 :: rat"] by auto
  then have "0 \<le> ulp_exp ?q" by (simp add: ulp_exp_def)
  then have "(2::rat) powi ulp_exp ?q = of_int (2 ^ nat (ulp_exp ?q))" by (simp add: power_int_nonneg_exp)
  then have "(2::rat) powi ulp_exp ?q \<in> \<int>" by (metis Ints_of_int)
  then show ?thesis by (simp add: rnd_def)
qed

lemma fin_whole: "whole (fin (of_int n))"
  by (simp add: fin_def Let_def rnd_whole)

lemma fin_at_least_one:
  assumes "1 \<le> n"
  shows "at_least_one (fin (of_int n))"
proof -
  have "1 \<le> rnd (of_int n)"
  proof (cases "n = 1")
    case True
    then show ?thesis using rnd_int [of 1] by simp
  next
    case False
    with assms have "2 \<le> n" by simp
    then have "2 \<le> (of_int n :: rat)" using of_int_le_iff [of 2 n, where 'a = rat] by simp
    moreover from this have "\<bar>rnd (of_int n) - of_int n\<bar> \<le> (of_int n :: rat) / 2 ^ 53" by (intro rnd_relative) linarith
    moreover have "(of_int n :: rat) / 2 ^ 53 \<le> of_int n / 2" using calculation(1) by (intro divide_left_mono) auto
    ultimately show ?thesis by linarith
  qed
  then show ?thesis by (auto simp: fin_def Let_def)
qed

end
