(* ===== verification/Quantity.thy ===== *)
theory Quantity
  imports Js_Text Float64
begin

text \<open>
  \<^verbatim>\<open>lib/quantity.ts\<close>: the amounts of ingredients, read, printed and scaled with the numbers of JavaScript
  (\<^verbatim>\<open>Float64\<close>). Of the dashes, spaces and fraction characters that \<^verbatim>\<open>normalize\<close> replaces, those below 256 are
  in the model; an integer is printed in full, which JavaScript does below 10 to the 21st.
\<close>

subsection \<open>Numbers as texts\<close>

definition int_num :: "string \<Rightarrow> num" where
  "int_num ds = fin (of_nat (digits_value 10 ds))"

text \<open>\<^verbatim>\<open>parseFloat\<close>: the longest prefix that is a decimal literal; the digits after the point move the exponent.\<close>

definition exponent_part :: "string \<Rightarrow> int" where
  "exponent_part s =
     (case s of
        c # r \<Rightarrow>
          if c = CHR ''e'' \<or> c = CHR ''E''
          then (case r of
                  d # r' \<Rightarrow>
                    if d = CHR ''-'' then - int (digits_value 10 (takeWhile is_digit r'))
                    else if d = CHR ''+'' then int (digits_value 10 (takeWhile is_digit r'))
                    else int (digits_value 10 (takeWhile is_digit r))
                | [] \<Rightarrow> 0)
          else 0
      | [] \<Rightarrow> 0)"

definition parseFloat :: "string \<Rightarrow> num" where
  "parseFloat s =
     (let s1 = dropWhile js_space s;
          (minus, s2) = (case s1 of c # r \<Rightarrow> if c = CHR ''-'' then (True, r) else if c = CHR ''+'' then (False, r) else (False, s1)
                         | [] \<Rightarrow> (False, s1));
          signed_as = (\<lambda>x. if minus then neg x else x);
          whole = takeWhile is_digit s2;
          r = drop (length whole) s2;
          frac = (if prefix ''.'' r then takeWhile is_digit (drop 1 r) else []);
          r' = (if prefix ''.'' r then drop (1 + length frac) r else r)
      in if prefix ''Infinity'' s2 then signed_as PosInf
         else if whole = [] \<and> frac = [] then NaN
         else signed_as (fin (of_nat (digits_value 10 (whole @ frac)) * 10 powi (exponent_part r' - int (length frac)))))"

text \<open>\<^verbatim>\<open>String\<close> of an integer value, \<^verbatim>\<open>toFixed(2)\<close> of a positive one\<close>

fun String_int :: "num \<Rightarrow> string" where
  "String_int (Fin x) = int_to_string \<lfloor>x\<rfloor>"
| "String_int PosInf = ''Infinity''"
| "String_int NegInf = ''-Infinity''"
| "String_int NaN = ''NaN''"

definition two_digits :: "nat \<Rightarrow> string" where
  "two_digits n = (if n < 10 then ''0'' @ nat_to_string n else nat_to_string n)"

fun toFixed2 :: "num \<Rightarrow> string" where
  "toFixed2 (Fin x) =
     (let n = nat \<lfloor>x * 100 + 1 / 2\<rfloor>
      in nat_to_string (n div 100) @ ''.'' @ two_digits (n mod 100))"
| "toFixed2 x = String_int x"

text \<open>\<^verbatim>\<open>replace(/0+$/, "").replace(/\.$/, "")\<close>\<close>

definition strip_zeros :: "string \<Rightarrow> string" where
  "strip_zeros s =
     (let t = rev (dropWhile (\<lambda>c. c = CHR ''0'') (rev s)) in if suffix ''.'' t then butlast t else t)"

subsection \<open>Reading\<close>

definition fraction_char :: "char \<Rightarrow> string option" where
  "fraction_char c = (if c = CHR 0xBC then Some ''1/4'' else if c = CHR 0xBD then Some ''1/2''
     else if c = CHR 0xBE then Some ''3/4'' else None)"

text \<open>A fraction character, with a space before it after a digit\<close>

fun spell_fractions :: "string \<Rightarrow> string" where
  "spell_fractions [] = []"
| "spell_fractions [c] = (case fraction_char c of None \<Rightarrow> [c] | Some f \<Rightarrow> f)"
| "spell_fractions (c # d # r) =
     (case fraction_char c of
        Some f \<Rightarrow> f @ spell_fractions (d # r)
      | None \<Rightarrow>
          (case (is_digit c, fraction_char d) of
             (True, Some f) \<Rightarrow> c # '' '' @ f @ spell_fractions r
           | _ \<Rightarrow> c # spell_fractions (d # r)))"

fun decimal_commas :: "string \<Rightarrow> string" where
  "decimal_commas (a # b # c # r) =
     (if is_digit a \<and> b = CHR '','' \<and> is_digit c then a # CHR ''.'' # c # decimal_commas r
      else a # decimal_commas (b # c # r))"
| "decimal_commas s = s"

definition normalize_qty :: "string \<Rightarrow> string" where
  "normalize_qty s = decimal_commas (spell_fractions (map (\<lambda>c. if c = CHR 0xA0 then CHR '' '' else c) s))"

text \<open>\<^verbatim>\<open>/^(\d+)\/(\d+)$/\<close> and \<^verbatim>\<open>/^(\d+)\s+(\d+)\/(\d+)$/\<close>\<close>

definition match_fraction :: "string \<Rightarrow> (string \<times> string) option" where
  "match_fraction s =
     (let a = takeWhile is_digit s; r = drop (length a) s; b = drop 1 r
      in if a \<noteq> [] \<and> prefix ''/'' r \<and> b \<noteq> [] \<and> list_all is_digit b then Some (a, b) else None)"

definition match_mixed :: "string \<Rightarrow> (string \<times> string \<times> string) option" where
  "match_mixed s =
     (let n = takeWhile is_digit s; r = drop (length n) s; w = takeWhile js_space r
      in if n = [] \<or> w = [] then None
         else map_option (\<lambda>(a, b). (n, a, b)) (match_fraction (drop (length w) r)))"

definition parseQty :: "string \<Rightarrow> num option" where
  "parseQty raw =
     (let s = js_trim (normalize_qty raw) in
      if s = [] then None
      else
        let s = (if prefix ''~'' s then dropWhile js_space (tl s) else s) in
        case match_mixed s of
          Some (n, a, b) \<Rightarrow> Some (add (int_num n) (div_num (int_num a) (int_num b)))
        | None \<Rightarrow>
            (case match_fraction s of
               Some (a, b) \<Rightarrow> Some (div_num (int_num a) (int_num b))
             | None \<Rightarrow> (let n = parseFloat s in if n = NaN then None else Some n)))"

subsection \<open>Printing\<close>

definition FRACTIONS :: "(num \<times> string) list" where
  "FRACTIONS = [(fin (125 / 1000), ''1/8''), (fin (25 / 100), ''1/4''), (fin (333 / 1000), ''1/3''), (fin (375 / 1000), ''3/8''),
     (fin (5 / 10), ''1/2''), (fin (625 / 1000), ''5/8''), (fin (667 / 1000), ''2/3''), (fin (75 / 100), ''3/4''),
     (fin (875 / 1000), ''7/8'')]"

definition find_fraction :: "num \<Rightarrow> string option" where
  "find_fraction rem = map_option snd (find (\<lambda>(dec, str). less_num (abs_num (sub rem dec)) (fin (4 / 100))) FRACTIONS)"

definition formatQty :: "num \<Rightarrow> bool \<Rightarrow> string" where
  "formatQty val decimal =
     (if le_num val (Fin 0) then []
      else if decimal then (if is_integer val then String_int val else strip_zeros (toFixed2 val))
      else
        let whole = floor_num val; rem = sub val whole in
        if less_num rem (fin (5 / 100)) then (if whole = Fin 0 then [] else String_int whole)
        else case find_fraction rem of
               Some str \<Rightarrow> if less_num (Fin 0) whole then String_int whole @ '' '' @ str else str
             | None \<Rightarrow> if is_integer val then String_int val else strip_zeros (toFixed2 val))"

subsection \<open>Scaling\<close>

text \<open>\<^verbatim>\<open>/^(.+?)\s+(to|or)\s+(.+)$/i\<close>: the shortest first part, as long as a line has characters\<close>

definition line_char :: "char \<Rightarrow> bool" where
  "line_char c \<longleftrightarrow> c \<noteq> NL \<and> c \<noteq> CR"

definition range_word :: "string \<Rightarrow> (string \<times> string) option" where
  "range_word s =
     (let w = takeWhile js_space s; r = drop (length w) s; k = take 2 r; r' = drop 2 r;
          b = dropWhile js_space r'
      in if w \<noteq> [] \<and> js_lower k \<in> {''to'', ''or''} \<and> r' \<noteq> [] \<and> js_space (hd r') \<and> b \<noteq> [] \<and> list_all line_char b
         then Some (k, b) else None)"

fun match_word_range :: "string \<Rightarrow> string \<Rightarrow> (string \<times> string \<times> string) option" where
  "match_word_range a [] = None"
| "match_word_range a (c # cs) =
     (case (if a = [] then None else range_word (c # cs)) of
        Some (k, b) \<Rightarrow> Some (a, k, b)
      | None \<Rightarrow> if line_char c then match_word_range (a @ [c]) cs else None)"

text \<open>\<^verbatim>\<open>split(/\s*-\s*/)\<close>\<close>

definition trim_end :: "string \<Rightarrow> string" where
  "trim_end s = rev (dropWhile js_space (rev s))"

definition split_hyphen :: "string \<Rightarrow> string list" where
  "split_hyphen s =
     (case split_on (CHR ''-'') s of
        [] \<Rightarrow> []
      | [x] \<Rightarrow> [x]
      | x # xs \<Rightarrow> trim_end x # map (\<lambda>y. trim_end (dropWhile js_space y)) (butlast xs) @ [dropWhile js_space (last xs)])"

definition scale_range :: "num \<Rightarrow> num \<Rightarrow> num \<Rightarrow> string \<Rightarrow> string" where
  "scale_range a b k sep =
     (let diff = sub b a; scaledBase = mul a k
      in formatQty scaledBase False @ sep @ formatQty (add scaledBase diff) False)"

text \<open>The two kinds of range, both ends of which must be amounts\<close>

definition word_range :: "string \<Rightarrow> (num \<times> num \<times> string) option" where
  "word_range s =
     (case match_word_range [] s of
        None \<Rightarrow> None
      | Some (a, k, b) \<Rightarrow>
          (case (parseQty a, parseQty b) of
             (Some x, Some y) \<Rightarrow> Some (x, y, '' '' @ k @ '' '') | _ \<Rightarrow> None))"

definition hyphen_range :: "string \<Rightarrow> (num \<times> num) option" where
  "hyphen_range s =
     (case split_hyphen s of
        [a, b] \<Rightarrow> (case (parseQty a, parseQty b) of (Some x, Some y) \<Rightarrow> Some (x, y) | _ \<Rightarrow> None)
      | _ \<Rightarrow> None)"

text \<open>Each turn of the recursion takes a tilde away.\<close>

definition tildes :: "string \<Rightarrow> nat" where
  "tildes s = length (filter (\<lambda>c. c = CHR ''~'') s)"

lemma tildes_simps [simp]:
  "tildes [] = 0" "tildes (c # s) = (if c = CHR ''~'' then Suc (tildes s) else tildes s)" "tildes (s @ t) = tildes s + tildes t"
  by (simp_all add: tildes_def)

lemma fraction_char_tildes: "fraction_char c = Some f \<Longrightarrow> tildes f = 0 \<and> c \<noteq> CHR ''~''"
  by (auto simp: fraction_char_def split: if_splits)

lemma tildes_spell: "tildes (spell_fractions s) = tildes s"
proof (induction s rule: spell_fractions.induct)
  case (2 c)
  then show ?case using fraction_char_tildes [of c] by (cases "fraction_char c") simp_all
next
  case (3 c d r)
  then show ?case using fraction_char_tildes [of c] fraction_char_tildes [of d]
    by (cases "fraction_char c"; cases "fraction_char d"; cases "is_digit c") simp_all
qed simp

lemma tildes_commas: "tildes (decimal_commas s) = tildes s"
  by (induction s rule: decimal_commas.induct) (auto simp: is_digit_def)

lemma tildes_normalize: "tildes (normalize_qty s) = tildes s"
proof -
  have "tildes (map (\<lambda>c. if c = CHR 0xA0 then CHR '' '' else c) s) = tildes s" by (induction s) auto
  then show ?thesis by (simp add: normalize_qty_def tildes_spell tildes_commas)
qed

lemma tildes_drop: "tildes (dropWhile P s) \<le> tildes s"
  by (induction s) auto

lemma tildes_rev [simp]: "tildes (rev s) = tildes s"
  by (simp add: tildes_def rev_filter [symmetric])

lemma tildes_trim: "tildes (js_trim s) \<le> tildes s"
  unfolding js_trim_def tildes_rev by (rule order_trans [OF tildes_drop]) (simp add: tildes_drop)

lemma tilde_taken:
  assumes "prefix ''~'' (normalize_qty (js_trim raw))"
  shows "tildes (dropWhile js_space (tl (normalize_qty (js_trim raw)))) < tildes raw"
proof -
  obtain r where r: "normalize_qty (js_trim raw) = CHR ''~'' # r" using assms by (auto simp: prefix_def)
  have "tildes (dropWhile js_space r) \<le> tildes r" by (rule tildes_drop)
  also have "\<dots> < tildes (normalize_qty (js_trim raw))" by (simp add: r)
  also have "\<dots> \<le> tildes raw" by (simp add: tildes_normalize tildes_trim)
  finally show ?thesis by (simp add: r)
qed

function scaleQty :: "string \<Rightarrow> num \<Rightarrow> string" where
  "scaleQty raw k =
     (if k = Fin 1 then raw
      else
        let trimmed = js_trim raw in
        if prefix ''*'' trimmed then tl trimmed
        else
          let normalized = normalize_qty trimmed; rest = dropWhile js_space (tl normalized) in
          if prefix ''~'' normalized \<and> rest \<noteq> [] then ''~'' @ scaleQty rest k
          else case word_range normalized of
                 Some (a, b, sep) \<Rightarrow> scale_range a b k sep
               | None \<Rightarrow>
                   (case hyphen_range normalized of
                      Some (a, b) \<Rightarrow> scale_range a b k ''-''
                    | None \<Rightarrow>
                        (case parseQty raw of
                           None \<Rightarrow> raw
                         | Some n \<Rightarrow> formatQty (mul n k) False)))"
  by pat_completeness auto
termination by (relation "measure (\<lambda>(raw, k). tildes raw)") (auto simp: tilde_taken)

declare scaleQty.simps [simp del]

subsection \<open>Printing and reading eighths\<close>

text \<open>The test for a fraction, for remainders that are not within a thousandth of the limit\<close>

lemma near_iff:
  assumes x: "0 \<le> x" "x < 1" and c: "0 \<le> c" "c < 1"
    and far: "\<bar>x - c\<bar> < 39 / 1000 \<or> 41 / 1000 < \<bar>x - c\<bar>"
  shows "less_num (abs_num (sub (Fin x) (fin c))) (fin (1 / 25)) \<longleftrightarrow> \<bar>x - c\<bar> < 39 / 1000"
proof -
  let ?e = "1 / 9007199254740992 :: rat"
  obtain c' where c': "fin c = Fin c'" "\<bar>c' - c\<bar> \<le> ?e" using fin_close [of c] c by auto
  obtain t where t: "fin (1 / 25) = Fin t" "\<bar>t - 1 / 25\<bar> \<le> ?e" using fin_close [of "1 / 25"] by auto
  have "\<bar>x - c'\<bar> < 2" using x c c'(2) by linarith
  then obtain d where d: "fin (x - c') = Fin d" "\<bar>d - (x - c')\<bar> \<le> ?e" using fin_close [of "x - c'"] by auto
  have "less_num (abs_num (sub (Fin x) (fin c))) (fin (1 / 25)) \<longleftrightarrow> \<bar>d\<bar> < t"
    by (simp add: c' t d sub_def)
  also have "\<dots> \<longleftrightarrow> \<bar>x - c\<bar> < 39 / 1000" using far c'(2) t(2) d(2) by linarith
  finally show ?thesis .
qed

definition eighth_text :: "nat \<Rightarrow> string" where
  "eighth_text r = [[], ''1/8'', ''1/4'', ''3/8'', ''1/2'', ''5/8'', ''3/4'', ''7/8''] ! r"

definition qty_text :: "nat \<Rightarrow> string" where
  "qty_text m =
     (let n = m div 8; r = m mod 8
      in if r = 0 then (if n = 0 then [] else nat_to_string n)
         else if n = 0 then eighth_text r else nat_to_string n @ '' '' @ eighth_text r)"

lemma eighth_cases:
  assumes "r < (8::nat)"
  obtains "r = 0" | "r = 1" | "r = 2" | "r = 3" | "r = 4" | "r = 5" | "r = 6" | "r = 7"
  using assms by linarith

lemma find_eighth: "0 < r \<Longrightarrow> r < 8 \<Longrightarrow> find_fraction (Fin (of_nat r / 8)) = Some (eighth_text r)"
  by (erule eighth_cases) (simp_all add: find_fraction_def FRACTIONS_def near_iff eighth_text_def)

lemma int_bound: "m < 2 ^ k \<Longrightarrow> \<bar>int m\<bar> < 2 ^ k"
  by (metis abs_of_nat of_nat_less_iff of_nat_numeral of_nat_power)

lemma fin_eighths: "m < 2 ^ 53 \<Longrightarrow> fin (of_nat m / 8) = Fin (of_nat m / 8)"
  using fin_exact(2) [OF int_bound] by (simp only: of_int_of_nat_eq)

lemma fin_nat: "m < 2 ^ 53 \<Longrightarrow> fin (of_nat m) = Fin (of_nat m)"
  using fin_exact(1) [OF int_bound] by (simp only: of_int_of_nat_eq)

lemma formatQty_eighths:
  assumes "0 < m" "m < 2 ^ 50"
  shows "formatQty (Fin (of_nat m / 8)) False = qty_text m"
proof -
  define n r where "n = m div 8" and "r = m mod 8"
  have m: "m = 8 * n + r" and r: "r < 8" by (simp_all add: n_def r_def)
  have q: "of_nat m / 8 = (of_nat n + of_nat r / 8 :: rat)" by (simp add: m)
  have f: "\<lfloor>of_nat m / 8 :: rat\<rfloor> = int n" using r by (simp add: q floor_unique)
  have rem: "sub (Fin (of_nat m / 8)) (Fin (of_nat n)) = Fin (of_nat r / 8)"
    using fin_eighths [of r] r by (simp add: sub_def q)
  obtain t where t: "fin (1 / 20) = Fin t" "\<bar>t - 1 / 20\<bar> \<le> 1 / 9007199254740992"
    using fin_close [of "1 / 20"] by auto
  have "0 < t" "t < 1 / 8" using t(2) by linarith+
  moreover have "(1::rat) \<le> of_nat r" if "0 < r" using that by simp
  ultimately have small: "less_num (Fin (of_nat r / 8)) (fin (1 / 20)) \<longleftrightarrow> r = 0" using t(1) by (cases "r = 0") auto
  show ?thesis
  proof (cases "r = 0")
    case True
    then show ?thesis using assms small rem f
      by (simp add: formatQty_def le_num_def qty_text_def Let_def n_def r_def int_to_string_def)
  next
    case False
    then show ?thesis using assms small rem f find_eighth [of r] r
      by (simp add: formatQty_def le_num_def qty_text_def Let_def n_def r_def int_to_string_def)
  qed
qed

text \<open>The characters of such a text\<close>

definition qty_char :: "char \<Rightarrow> bool" where
  "qty_char c \<longleftrightarrow> is_digit c \<or> c = CHR '' '' \<or> c = CHR ''/'' \<or> c = CHR ''-''"

lemma qty_charD: "qty_char c \<Longrightarrow> fraction_char c = None \<and> c \<noteq> CHR 0xA0 \<and> c \<noteq> CHR '','' \<and> c \<noteq> CHR ''~'' \<and> c \<noteq> CHR ''*''
    \<and> c \<noteq> CHR ''t'' \<and> c \<noteq> CHR ''o''"
  by (auto simp: qty_char_def is_digit_def fraction_char_def)

lemma qty_char_lower: "qty_char c \<Longrightarrow> js_lower_char c = c"
proof -
  assume "qty_char c"
  then have "(of_char c :: nat) < 65" by (auto simp: qty_char_def is_digit_def)
  then show ?thesis by (simp add: js_lower_char_def Let_def)
qed

lemmas qty_charDs = qty_charD [THEN conjunct1] qty_charD [THEN conjunct2, THEN conjunct1]
  qty_charD [THEN conjunct2, THEN conjunct2, THEN conjunct1]

lemma spell_plain: "list_all qty_char s \<Longrightarrow> spell_fractions s = s"
  by (induction s rule: spell_fractions.induct) (simp_all add: qty_charDs split: bool.splits)

lemma commas_plain: "list_all qty_char s \<Longrightarrow> decimal_commas s = s"
  by (induction s rule: decimal_commas.induct) (simp_all add: qty_charDs)

lemma normalize_qty_plain: "list_all qty_char s \<Longrightarrow> normalize_qty s = s"
proof -
  assume s: "list_all qty_char s"
  then have "map (\<lambda>c. if c = CHR 0xA0 then CHR '' '' else c) s = s" by (induction s) (simp_all add: qty_charDs)
  with s show ?thesis by (simp add: normalize_qty_def spell_plain commas_plain)
qed

lemma digits_print: "digits (nat_to_string n)"
  using nat_digits by (simp add: digits_def)

lemma eighth_text_facts:
  assumes "0 < r" "r < 8"
  shows "list_all qty_char (eighth_text r) \<and> trimmed (eighth_text r) \<and> eighth_text r \<noteq> []
    \<and> is_digit (hd (eighth_text r)) \<and> match_mixed (eighth_text r) = None"
  by (rule eighth_cases [OF assms(2)], insert assms(1))
     (simp_all add: eighth_text_def qty_char_def is_digit_def trimmed_def js_space_def match_mixed_def)

lemma eighth_text_value:
  assumes "0 < r" "r < 8"
  obtains a b where "match_fraction (eighth_text r) = Some (a, b)" "div_num (int_num a) (int_num b) = Fin (of_nat r / 8)"
proof -
  note f = fin_nat [of 1] fin_nat [of 2] fin_nat [of 3] fin_nat [of 4] fin_nat [of 5] fin_nat [of 7] fin_nat [of 8]
    fin_eighths [of 1] fin_eighths [of 2] fin_eighths [of 3] fin_eighths [of 4] fin_eighths [of 5] fin_eighths [of 6]
    fin_eighths [of 7]
  have "\<exists>a b. match_fraction (eighth_text r) = Some (a, b) \<and> div_num (int_num a) (int_num b) = Fin (of_nat r / 8)"
    using assms(2,1) f
    by (elim eighth_cases)
       (simp_all add: match_fraction_def eighth_text_def int_num_def digits_value_def digit_val_def is_digit_def)
  with that show thesis by blast
qed

lemma qty_text_facts:
  assumes "0 < m"
  shows "list_all qty_char (qty_text m) \<and> trimmed (qty_text m) \<and> qty_text m \<noteq> [] \<and> CHR ''-'' \<notin> set (qty_text m)"
proof -
  have h: "CHR ''-'' \<notin> set (nat_to_string k)" for k using nat_digits [of k] by (auto simp: list_all_iff is_digit_def)
  have "CHR ''-'' \<notin> set (eighth_text (m mod 8))"
    by (rule eighth_cases [of "m mod 8"]) (simp_all add: eighth_text_def)
  note h = h this
  have d: "list_all qty_char (nat_to_string k)" "trimmed (nat_to_string k)" "nat_to_string k \<noteq> []" for k
    using digits_print [of k] digits_hd [of "nat_to_string k"] digits_last [of "nat_to_string k"]
    by (auto simp: digits_def trimmed_def qty_char_def list_all_iff)
  note f = eighth_text_facts [of "m mod 8"]
  show ?thesis
  proof (cases "m mod 8 = 0")
    case True
    with assms have "m div 8 \<noteq> 0" by presburger
    with True d h show ?thesis by (simp add: qty_text_def)
  next
    case False
    with f d [of "m div 8"] h show ?thesis by (auto simp: qty_text_def Let_def trimmed_def qty_char_def)
  qed
qed

lemma parseQty_digits: "digits s \<Longrightarrow> parseQty s = Some (int_num s)"
proof -
  assume s: "digits s"
  then have q: "list_all qty_char s" "trimmed s" "s \<noteq> []" "takeWhile is_digit s = s"
    using digits_hd [OF s] digits_last [OF s] take_digits [OF s, of "[]"]
    by (auto simp: digits_def trimmed_def qty_char_def list_all_iff)
  have "parseFloat s = int_num s"
  proof -
    obtain c cs where cs: "s = c # cs" using q(3) by (cases s) auto
    then have c: "is_digit c" using s by (simp add: digits_def)
    then have "c \<noteq> CHR ''I''" by (auto simp: is_digit_def)
    have t: "takeWhile is_digit cs = cs" using q(4) c unfolding cs by (simp only: takeWhile.simps if_True list.inject)
    show ?thesis using c digit_no_space [OF c] \<open>c \<noteq> CHR ''I''\<close>
      unfolding cs by (simp add: parseFloat_def Let_def exponent_part_def int_num_def t)
  qed
  moreover have "match_mixed s = None" "match_fraction s = None"
    unfolding match_mixed_def match_fraction_def q(4) Let_def by simp_all
  moreover have "int_num s \<noteq> NaN" by (simp add: int_num_def fin_def Let_def)
  moreover have "\<not> prefix ''~'' s" using digits_hd [OF s] by (cases s) (auto simp: is_digit_def)
  ultimately show ?thesis using q by (simp add: parseQty_def normalize_qty_plain trim_id Let_def)
qed

lemma int_num_print: "n < 2 ^ 53 \<Longrightarrow> int_num (nat_to_string n) = Fin (of_nat n)"
  by (simp add: int_num_def digits_value_print fin_nat)

lemma parseQty_eighths:
  assumes "0 < m" "m < 2 ^ 53"
  shows "parseQty (qty_text m) = Some (Fin (of_nat m / 8))"
proof -
  define n r where "n = m div 8" and "r = m mod 8"
  have m: "m = 8 * n + r" and r: "r < 8" by (simp_all add: n_def r_def)
  have n: "n < 2 ^ 53" using assms by (simp add: n_def)
  have q: "list_all qty_char (qty_text m)" "trimmed (qty_text m)" "qty_text m \<noteq> []"
    using qty_text_facts [OF assms(1)] by blast+
  show ?thesis
  proof (cases "r = 0")
    case True
    with assms(1) have "n \<noteq> 0" by (simp add: m)
    with True have "qty_text m = nat_to_string n" by (simp add: qty_text_def n_def r_def)
    with True show ?thesis by (simp add: parseQty_digits digits_print int_num_print [OF n] m)
  next
    case False
    then have e: "list_all qty_char (eighth_text r)" "eighth_text r \<noteq> []" "is_digit (hd (eighth_text r))"
      "match_mixed (eighth_text r) = None" using eighth_text_facts [of r] r by simp_all
    from False r obtain a b where ab: "match_fraction (eighth_text r) = Some (a, b)"
      "div_num (int_num a) (int_num b) = Fin (of_nat r / 8)" using eighth_text_value by blast
    have tilde: "\<not> prefix ''~'' (qty_text m)" using q(1) by (cases "qty_text m") (auto dest: qty_charD)
    show ?thesis
    proof (cases "n = 0")
      case True
      with False have t: "qty_text m = eighth_text r" by (simp add: qty_text_def n_def r_def)
      show ?thesis using q tilde e(4) ab True unfolding t by (simp add: parseQty_def normalize_qty_plain trim_id Let_def m)
    next
      case n0: False
      with False have t: "qty_text m = nat_to_string n @ '' '' @ eighth_text r" by (simp add: qty_text_def n_def r_def)
      have "takeWhile is_digit (qty_text m) = nat_to_string n"
        unfolding t by (rule take_digits [OF digits_print]) simp
      moreover have "\<not> js_space (hd (eighth_text r))" using e(3) digit_no_space by blast
      then have "takeWhile js_space ('' '' @ eighth_text r) = '' ''" using e(2) by (cases "eighth_text r") simp_all
      ultimately have mm: "match_mixed (qty_text m) = Some (nat_to_string n, a, b)"
        using nat_digits [of n] ab(1) unfolding t by (simp add: match_mixed_def Let_def)
      have "add (Fin (of_nat n)) (Fin (of_nat r / 8)) = Fin (of_nat m / 8)"
        using fin_eighths [OF assms(2)] by (simp add: m add_divide_distrib)
      with q tilde mm ab(2) show ?thesis
        by (simp add: parseQty_def normalize_qty_plain trim_id Let_def int_num_print [OF n])
    qed
  qed
qed

text \<open>No range in such a text\<close>

lemma lower_plain: "list_all qty_char s \<Longrightarrow> js_lower s = s"
  by (induction s) (simp_all add: js_lower_def qty_char_lower)

lemma no_range_word: "list_all qty_char s \<Longrightarrow> range_word s = None"
proof -
  assume s: "list_all qty_char s"
  define r where "r = drop (length (takeWhile js_space s)) s"
  have "set (take 2 r) \<subseteq> set s" unfolding r_def by (meson order_trans set_drop_subset set_take_subset)
  with s have l: "list_all qty_char (take 2 r)" by (auto simp: list_all_iff)
  have "\<not> list_all qty_char ''to''" "\<not> list_all qty_char ''or''" by (simp_all add: qty_char_def is_digit_def)
  then have "take 2 r \<noteq> ''to''" "take 2 r \<noteq> ''or''" using l by (metis)+
  then show ?thesis by (simp add: range_word_def Let_def r_def [symmetric] lower_plain [OF l])
qed

lemma no_word_range: "list_all qty_char s \<Longrightarrow> match_word_range a s = None"
proof (induction s arbitrary: a)
  case (Cons c s)
  then show ?case using no_range_word [OF Cons.prems] by simp
qed simp

lemma no_hyphen: "CHR ''-'' \<notin> set s \<Longrightarrow> split_hyphen s = [s]"
  by (simp add: split_hyphen_def split_on_sep_free)

lemma scaleQty_eighths:
  assumes "0 < m" "1 < k" "m * k < 2 ^ 50"
  shows "scaleQty (qty_text m) (Fin (of_nat k)) = qty_text (m * k)"
proof -
  have mk: "m \<le> m * k" "0 < m * k" using assms(1,2) by simp_all
  have m2: "m * k < 2 ^ 53" using assms(3) by (rule less_le_trans) simp
  note m = le_less_trans [OF mk(1) m2] m2
  have q: "list_all qty_char (qty_text m)" "trimmed (qty_text m)" "qty_text m \<noteq> []" "CHR ''-'' \<notin> set (qty_text m)"
    using qty_text_facts [OF assms(1)] by blast+
  have p: "\<not> prefix ''~'' (qty_text m)" "\<not> prefix ''*'' (qty_text m)"
    using q(1) by (cases "qty_text m"; auto dest: qty_charD)+
  have "mul (Fin (of_nat m / 8)) (Fin (of_nat k)) = Fin (of_nat (m * k) / 8)"
    using fin_eighths [OF m(2)] by simp
  with q p assms(2) mk parseQty_eighths [OF assms(1) m(1)] formatQty_eighths [OF mk(2) assms(3)] show ?thesis
    by (subst scaleQty.simps)
       (simp add: trim_id normalize_qty_plain word_range_def no_word_range hyphen_range_def no_hyphen Let_def)
qed

lemma one_hyphen:
  assumes "trimmed s" "trimmed t" "CHR ''-'' \<notin> set s" "CHR ''-'' \<notin> set t"
  shows "split_hyphen (s @ ''-'' @ t) = [s, t]"
proof -
  have "trim_end s = s" using assms(1) by (cases "s = []") (simp_all add: trim_end_def trimmed_def dropWhile_hd hd_rev)
  moreover have "dropWhile js_space t = t" using assms(2) by (cases "t = []") (simp_all add: trimmed_def dropWhile_hd)
  ultimately show ?thesis using assms(3,4) by (simp add: split_hyphen_def split_on_append_sep split_on_sep_free)
qed

lemma scale_range_eighths:
  assumes "0 < a" "0 < b" "0 < k" "a * k + b < 2 ^ 50"
  shows "scale_range (Fin (of_nat a / 8)) (Fin (of_nat b / 8)) (Fin (of_nat k)) sep
           = qty_text (a * k) @ sep @ qty_text (a * k + b - a)"
proof -
  have ak: "a \<le> a * k" "0 < a * k" using assms(1,3) by simp_all
  define c where "c = a * k + b - a"
  have c: "0 < c" "c < 2 ^ 50" "a * k < 2 ^ 50" "a < 2 ^ 50" "b < 2 ^ 50" "a * k + b = c + a"
    using assms ak unfolding c_def by linarith+
  have e: "x < 2 ^ 50 \<Longrightarrow> x < 2 ^ 53" for x :: nat by (erule less_le_trans) simp
  have "\<bar>int b - int a\<bar> < 2 ^ 53" using e [OF c(4)] e [OF c(5)] by simp
  from fin_exact(2) [OF this] have 1: "sub (Fin (of_nat b / 8)) (Fin (of_nat a / 8)) = Fin (of_nat b / 8 - of_nat a / 8)"
    by (simp add: sub_def diff_divide_distrib)
  have 2: "mul (Fin (of_nat a / 8)) (Fin (of_nat k)) = Fin (of_nat (a * k) / 8)"
    using fin_eighths [OF e [OF c(3)]] by simp
  have "of_nat (a * k) / 8 + (of_nat b / 8 - of_nat a / 8) = (of_nat c / 8 :: rat)"
    using arg_cong [OF c(6), of "of_nat :: nat \<Rightarrow> rat"] by simp
  then have 3: "add (Fin (of_nat (a * k) / 8)) (Fin (of_nat b / 8 - of_nat a / 8)) = Fin (of_nat c / 8)"
    by (simp only: add.simps fin_eighths [OF e [OF c(2)]])
  show ?thesis
    unfolding scale_range_def Let_def 1 2 3 formatQty_eighths [OF c(1,2)] formatQty_eighths [OF ak(2) c(3)]
    by (simp only: c_def)
qed

lemma scaleQty_range:
  assumes "0 < a" "0 < b" "1 < k" "a * k + b < 2 ^ 50"
  shows "scaleQty (qty_text a @ ''-'' @ qty_text b) (Fin (of_nat k)) = qty_text (a * k) @ ''-'' @ qty_text (a * k + b - a)"
proof -
  let ?s = "qty_text a @ ''-'' @ qty_text b"
  have ak: "a \<le> a * k" using assms(3) by simp
  then have lt: "a < 2 ^ 50" "b < 2 ^ 50" using assms(4) by linarith+
  have e: "x < 2 ^ 50 \<Longrightarrow> x < 2 ^ 53" for x :: nat by (erule less_le_trans) simp
  note fa = qty_text_facts [OF assms(1)] and fb = qty_text_facts [OF assms(2)]
  have s: "list_all qty_char ?s" "trimmed ?s" "?s \<noteq> []" using fa fb by (auto simp: qty_char_def trimmed_def)
  have p: "\<not> prefix ''~'' ?s" "\<not> prefix ''*'' ?s" using fa by (cases "qty_text a"; auto dest: qty_charD)+
  have sp: "split_hyphen ?s = [qty_text a, qty_text b]" using fa fb by (intro one_hyphen) simp_all
  have h: "hyphen_range ?s = Some (Fin (of_nat a / 8), Fin (of_nat b / 8))"
    unfolding hyphen_range_def sp by (simp only: parseQty_eighths [OF assms(1) e [OF lt(1)]] parseQty_eighths [OF assms(2) e [OF lt(2)]] list.case option.case prod.case)
  have w: "word_range ?s = None" by (simp only: word_range_def no_word_range [OF s(1)] option.case)
  show ?thesis
    using assms(1-3) p
    by (subst scaleQty.simps)
       (simp only: Let_def trim_id [OF s(2)] normalize_qty_plain [OF s(1)] w h scale_range_eighths [OF assms(1,2) _ assms(4)],
        simp add: scale_range_eighths [OF assms(1,2) _ assms(4)])
qed

subsection \<open>Properties\<close>

text \<open>C22: scaling is exact on eighths. An amount that is a whole number of eighths, printed in mixed form, is
  scaled by a whole factor without a rounding error anywhere between the text and the text of the result:
  reading the result gives the product.\<close>

theorem scaling_eighths_is_exact:
  assumes "0 < m" "0 < k" "m * k < 2 ^ 50"
  shows "parseQty (scaleQty (formatQty (Fin (of_nat m / 8)) False) (Fin (of_nat k))) = Some (Fin (of_nat (m * k) / 8))"
proof -
  have mk: "m \<le> m * k" "0 < m * k" using assms(1,2) by simp_all
  have m2: "m * k < 2 ^ 53" using assms(3) by (rule less_le_trans) simp
  have f: "formatQty (Fin (of_nat m / 8)) False = qty_text m"
    by (rule formatQty_eighths [OF assms(1) le_less_trans [OF mk(1) assms(3)]])
  have "scaleQty (qty_text m) (Fin (of_nat k)) = qty_text (m * k)"
  proof (cases "k = 1")
    case True
    then show ?thesis by (subst scaleQty.simps) simp
  next
    case False
    with assms scaleQty_eighths show ?thesis by simp
  qed
  then show ?thesis by (simp only: f parseQty_eighths [OF mk(2) m2])
qed

theorem scaling_eighths_is_exact_witness:
  "parseQty (scaleQty (formatQty (Fin (11 / 8)) False) (Fin 3)) = Some (Fin (33 / 8))"
  using scaling_eighths_is_exact [of 11 3] by simp

text \<open>A range is scaled at its lower end and keeps its width. The upper end may be any amount: a mixed number
  written with a hyphen is read as a range, \<open>1-1/2\<close> three times is \<open>3-2 1/2\<close>.\<close>

theorem range_keeps_its_width:
  assumes "0 < a" "0 < b" "1 < k" "a * k + b < 2 ^ 50"
  shows "scaleQty (formatQty (Fin (of_nat a / 8)) False @ ''-'' @ formatQty (Fin (of_nat b / 8)) False) (Fin (of_nat k))
           = formatQty (Fin (of_nat (a * k) / 8)) False @ ''-'' @ formatQty (Fin (of_nat (a * k + b - a) / 8)) False"
proof -
  have "a \<le> a * k" "0 < a * k" using assms(1,3) by simp_all
  then have "0 < a * k + b - a" "a < 2 ^ 50" "b < 2 ^ 50" "a * k < 2 ^ 50" "a * k + b - a < 2 ^ 50" using assms(2,4) by linarith+
  then show ?thesis
    by (simp only: formatQty_eighths \<open>0 < a * k\<close> assms(1,2) scaleQty_range [OF assms])
qed

theorem range_keeps_its_width_witness: "scaleQty ''1-1/2'' (Fin 3) = ''3-2 1/2''"
proof -
  have n: "nat_to_string 1 = ''1''" "nat_to_string 2 = ''2''" "nat_to_string 3 = ''3''" by code_simp+
  have "scaleQty (formatQty (Fin (of_nat 8 / 8)) False @ ''-'' @ formatQty (Fin (of_nat 4 / 8)) False) (Fin (of_nat 3))
      = formatQty (Fin (of_nat (8 * 3) / 8)) False @ ''-'' @ formatQty (Fin (of_nat (8 * 3 + 4 - 8) / 8)) False"
    by (rule range_keeps_its_width) simp_all
  moreover have "formatQty (Fin (of_nat 8 / 8)) False = ''1''" "formatQty (Fin (of_nat 4 / 8)) False = ''1/2''"
    "formatQty (Fin (of_nat (8 * 3) / 8)) False = ''3''" "formatQty (Fin (of_nat (8 * 3 + 4 - 8) / 8)) False = ''2 1/2''"
    by (subst formatQty_eighths; simp add: qty_text_def eighth_text_def n n(1) [simplified])+
  ultimately show ?thesis by simp
qed

end
