(* ===== verification/Conversion.thy ===== *)
theory Conversion
  imports Units Quantity
begin

text \<open>
  The conversions of amounts of \<^verbatim>\<open>lib/units.ts\<close> and the ingredient densities of \<^verbatim>\<open>lib/densities.ts\<close>, with the
  numbers of JavaScript. A factor of the tables is a decimal of the source, rounded when it is used.
\<close>

subsection \<open>Unit to unit\<close>

definition PREFERRED :: "dimension \<Rightarrow> unit_system \<Rightarrow> (string \<times> rat) list" where
  "PREFERRED d s =
     (case d of
        Volume \<Rightarrow>
          (case s of
             Metric \<Rightarrow> [(''ml'', 1), (''l'', 1000)]
           | Imperial \<Rightarrow> [(''tsp'', 4929 / 1000), (''tbsp'', 14787 / 1000), (''cup'', 236588 / 1000), (''pint'', 473176 / 1000),
               (''quart'', 946353 / 1000)])
      | Weight \<Rightarrow>
          (case s of
             Metric \<Rightarrow> [(''g'', 1), (''kg'', 1000)]
           | Imperial \<Rightarrow> [(''oz'', 283495 / 10000), (''lb'', 453592 / 1000)]))"

record converted_unit =
  cu_qty :: num
  cu_unit :: string

definition cleanNumber :: "num \<Rightarrow> num" where
  "cleanNumber n = div_num (round_num (mul n (Fin 100))) (Fin 100)"

definition readable :: "num \<Rightarrow> bool" where
  "readable v \<longleftrightarrow> le_num (Fin (3 / 4)) v"

definition in_unit :: "num \<Rightarrow> string \<times> rat \<Rightarrow> num" where
  "in_unit baseValue c = div_num baseValue (fin (snd c))"

definition pick_step :: "num \<Rightarrow> string \<times> rat \<Rightarrow> (string \<times> rat) \<times> num \<Rightarrow> (string \<times> rat) \<times> num" where
  "pick_step baseValue c b =
     (let val = in_unit baseValue c; bestVal = snd b
      in if readable val \<and> (less_num bestVal (Fin (3 / 4)) \<or> less_num val bestVal) then (c, val) else b)"

definition pickBestUnit :: "num \<Rightarrow> dimension \<Rightarrow> unit_system \<Rightarrow> converted_unit" where
  "pickBestUnit baseValue d s =
     (let candidates = PREFERRED d s;
          first = (hd candidates, in_unit baseValue (hd candidates));
          b = fold (pick_step baseValue) candidates first;
          (best, bestVal) = (if less_num (snd b) (Fin (3 / 4)) then first else b)
      in \<lparr>cu_qty = cleanNumber bestVal, cu_unit = fst best\<rparr>)"

definition convertUnit :: "num \<Rightarrow> string \<Rightarrow> unit_system \<Rightarrow> converted_unit option" where
  "convertUnit qty fromUnit toSystem =
     (case resolveUnit fromUnit of
        None \<Rightarrow> None
      | Some d \<Rightarrow>
          if ud_system d = toSystem \<or> ud_sourceOnly d then None
          else Some (pickBestUnit (mul qty (fin (ud_toBase d))) (ud_dimension d) toSystem))"

definition convertToUnit :: "num \<Rightarrow> string \<Rightarrow> string \<Rightarrow> converted_unit option" where
  "convertToUnit qty fromUnit toUnit =
     (case (resolveUnit fromUnit, resolveUnit toUnit) of
        (Some f, Some t) \<Rightarrow>
          if ud_dimension f \<noteq> ud_dimension t then None
          else Some \<lparr>cu_qty = cleanNumber (div_num (mul qty (fin (ud_toBase f))) (fin (ud_toBase t))), cu_unit = ud_canonical t\<rparr>
      | _ \<Rightarrow> None)"

text \<open>The target system \<^verbatim>\<open>original\<close> is \<open>None\<close>.\<close>

definition convertIngredient :: "num \<Rightarrow> string \<Rightarrow> unit_system option \<Rightarrow> converted_unit" where
  "convertIngredient qty unit toSystem =
     (case toSystem of
        None \<Rightarrow> \<lparr>cu_qty = qty, cu_unit = unit\<rparr>
      | Some s \<Rightarrow> (case convertUnit qty unit s of None \<Rightarrow> \<lparr>cu_qty = qty, cu_unit = unit\<rparr> | Some r \<Rightarrow> r))"

subsection \<open>Densities\<close>

text \<open>Grams per cup\<close>

definition DENSITIES :: "(string list \<times> rat) list" where
  "DENSITIES =
    [([''all-purpose flour'', ''all purpose flour'', ''ap flour'', ''plain flour'', ''flour''], 120),
     ([''bread flour'', ''strong flour''], 130), ([''cake flour''], 114), ([''pastry flour''], 113),
     ([''whole wheat flour'', ''wholemeal flour'', ''whole-wheat flour'', ''ww flour''], 128), ([''oat flour''], 92),
     ([''almond flour'', ''almond meal''], 96), ([''coconut flour''], 112), ([''rye flour''], 102),
     ([''rice flour''], 142), ([''semolina flour'', ''semolina''], 163), ([''buckwheat flour''], 120),
     ([''tapioca flour'', ''tapioca starch''], 113), ([''chickpea flour'', ''gram flour'', ''besan''], 90),
     ([''granulated sugar'', ''white sugar'', ''caster sugar'', ''sugar'', ''castor sugar''], 198),
     ([''brown sugar'', ''light brown sugar'', ''dark brown sugar'', ''packed brown sugar'', ''demerara sugar'', ''muscovado sugar''], 213),
     ([''powdered sugar'', ''confectioners sugar'', ''icing sugar'', ''confectioners'' @ [CHR 0x27] @ '' sugar'', ''10x sugar''], 113),
     ([''honey''], 340), ([''maple syrup''], 312), ([''molasses''], 328), ([''corn syrup''], 328),
     ([''butter'', ''unsalted butter'', ''salted butter'', ''melted butter'', ''cold butter'', ''softened butter''], 227),
     ([''olive oil'', ''extra virgin olive oil'', ''evoo''], 216),
     ([''vegetable oil'', ''canola oil'', ''sunflower oil'', ''oil'', ''cooking oil'', ''neutral oil'', ''avocado oil'', ''grapeseed oil''], 218),
     ([''coconut oil''], 218), ([''shortening''], 191), ([''lard''], 205), ([''baking powder''], 230),
     ([''baking soda'', ''bicarbonate of soda'', ''bicarb'', ''bi-carb''], 336),
     ([''cocoa powder'', ''cocoa'', ''cacao powder'', ''cacao'', ''dutch process cocoa'', ''unsweetened cocoa''], 82),
     ([''cinnamon'', ''ground cinnamon''], 144),
     ([''salt'', ''table salt'', ''fine salt'', ''sea salt'', ''fine sea salt''], 288),
     ([''kosher salt'', ''coarse salt''], 140),
     ([''milk'', ''whole milk'', ''skim milk'', ''2% milk'', ''buttermilk'', ''1% milk'', ''nonfat milk'', ''skimmed milk''], 245),
     ([''heavy cream'', ''whipping cream'', ''heavy whipping cream'', ''double cream'', ''cream'', ''single cream'', ''light cream''], 238),
     ([''sour cream''], 230),
     ([''yogurt'', ''yoghurt'', ''greek yogurt'', ''plain yogurt'', ''greek yoghurt'', ''natural yogurt''], 245),
     ([''cream cheese''], 232), ([''cornstarch'', ''corn starch'', ''cornflour'', ''corn flour''], 128),
     ([''cornmeal'', ''corn meal'', ''polenta''], 138),
     ([''rice'', ''white rice'', ''long grain rice'', ''basmati rice'', ''jasmine rice'', ''sushi rice'', ''arborio rice''], 185),
     ([''oats'', ''rolled oats'', ''old-fashioned oats'', ''old fashioned oats'', ''oatmeal''], 80),
     ([''breadcrumbs'', ''bread crumbs''], 108), ([''panko'', ''panko breadcrumbs''], 50),
     ([''almonds'', ''sliced almonds'', ''slivered almonds'', ''chopped almonds''], 143),
     ([''walnuts'', ''chopped walnuts''], 120), ([''pecans'', ''chopped pecans''], 109),
     ([''cashews'', ''cashew nuts''], 137), ([''hazelnuts'', ''filberts''], 135), ([''peanuts''], 146),
     ([''peanut butter'', ''almond butter'', ''nut butter'', ''cashew butter'', ''sunflower butter'', ''tahini''], 258),
     ([''chocolate chips'', ''chocolate morsels'', ''choc chips''], 170)]"

definition ML_PER_CUP :: rat where
  "ML_PER_CUP = 236588 / 1000"

record density_match =
  gramsPerMl :: num
  matchedAs :: string

text \<open>The longest keyword first; the sort is stable.\<close>

definition KEYWORDS :: "(string \<times> rat) list" where
  "KEYWORDS = concat (map (\<lambda>(ks, g). map (\<lambda>k. (k, g)) ks) DENSITIES)"

definition CANDIDATES :: "(string \<times> rat) list" where
  "CANDIDATES = sort_key (\<lambda>c. - int (length (fst c))) KEYWORDS"

text \<open>The pattern \<^verbatim>\<open>\b\<close>\<open>keyword\<close>\<^verbatim>\<open>\b\<close>: a word begins or ends between the character before and the rest.\<close>

definition boundary :: "bool \<Rightarrow> string \<Rightarrow> bool" where
  "boundary prev s \<longleftrightarrow> prev \<noteq> (s \<noteq> [] \<and> is_word (hd s))"

fun word_test :: "string \<Rightarrow> bool \<Rightarrow> string \<Rightarrow> bool" where
  "word_test kw prev [] \<longleftrightarrow> False"
| "word_test kw prev (c # s) \<longleftrightarrow>
     (boundary prev (c # s) \<and> prefix kw (c # s) \<and> boundary (is_word (last kw)) (drop (length kw) (c # s)))
     \<or> word_test kw (is_word c) s"

definition findDensity :: "string \<Rightarrow> density_match option" where
  "findDensity item =
     (if item = [] then None
      else map_option (\<lambda>(k, g). \<lparr>gramsPerMl = div_num (fin g) (fin ML_PER_CUP), matchedAs = k\<rparr>)
             (find (\<lambda>(k, g). word_test k False (js_lower item)) CANDIDATES))"

definition volumeToWeight :: "num \<Rightarrow> density_match \<Rightarrow> num" where
  "volumeToWeight volumeMl d = cleanNumber (mul volumeMl (gramsPerMl d))"

definition weightToVolume :: "num \<Rightarrow> density_match \<Rightarrow> num" where
  "weightToVolume grams d = cleanNumber (div_num grams (gramsPerMl d))"

definition WEIGHT_UNITS :: "(string \<times> rat) list" where
  "WEIGHT_UNITS = [(''g'', 1), (''kg'', 1000), (''oz'', 283495 / 10000), (''lb'', 453592 / 1000)]"

definition VOLUME_UNITS :: "(string \<times> rat) list" where
  "VOLUME_UNITS = [(''tsp'', 4929 / 1000), (''tbsp'', 14787 / 1000), (''cup'', 236588 / 1000), (''ml'', 1), (''l'', 1000)]"

definition one_decimal :: "num \<Rightarrow> num" where
  "one_decimal n = div_num (round_num (mul n (Fin 10))) (Fin 10)"

definition convertViaDensity :: "num \<Rightarrow> num \<Rightarrow> dimension \<Rightarrow> string \<Rightarrow> density_match \<Rightarrow> converted_unit option" where
  "convertViaDensity qty fromUnitToBase fromDimension targetUnit density =
     (case fromDimension of
        Volume \<Rightarrow>
          (let grams = volumeToWeight (mul qty fromUnitToBase) density
           in case map_of WEIGHT_UNITS targetUnit of
                None \<Rightarrow> None
              | Some divisor \<Rightarrow> Some \<lparr>cu_qty = one_decimal (div_num grams (fin divisor)), cu_unit = ''~'' @ targetUnit\<rparr>)
      | Weight \<Rightarrow>
          (let volumeMl = weightToVolume (mul qty fromUnitToBase) density
           in case map_of VOLUME_UNITS targetUnit of
                None \<Rightarrow> None
              | Some divisor \<Rightarrow> Some \<lparr>cu_qty = one_decimal (div_num volumeMl (fin divisor)), cu_unit = ''~'' @ targetUnit\<rparr>))"

subsection \<open>The longest keyword\<close>

definition whole_word :: "string \<Rightarrow> string \<Rightarrow> bool" where
  "whole_word k s \<longleftrightarrow>
     (\<exists>a b. s = a @ k @ b \<and> (a = [] \<or> \<not> is_word (last a)) \<and> (b = [] \<or> \<not> is_word (hd b)))"

lemma boundary_after: "boundary True s \<longleftrightarrow> s = [] \<or> \<not> is_word (hd s)"
  by (auto simp: boundary_def)

lemma boundary_before: "k \<noteq> [] \<Longrightarrow> is_word (hd k) \<Longrightarrow> boundary prev (k @ s) \<longleftrightarrow> \<not> prev"
  by (simp add: boundary_def)

lemma word_test_iff:
  assumes "k \<noteq> []" "is_word (hd k)" "is_word (last k)"
  shows "word_test k prev s \<longleftrightarrow>
    (\<exists>a b. s = a @ k @ b \<and> (if a = [] then \<not> prev else \<not> is_word (last a)) \<and> (b = [] \<or> \<not> is_word (hd b)))"
proof (induction s arbitrary: prev)
  case (Cons c s)
  let ?Q = "\<lambda>prev a. if a = [] then \<not> prev else \<not> is_word (last a)"
  have 1: "boundary prev (c # s) \<and> prefix k (c # s) \<and> boundary (is_word (last k)) (drop (length k) (c # s))
      \<longleftrightarrow> (\<exists>b. c # s = k @ b \<and> \<not> prev \<and> (b = [] \<or> \<not> is_word (hd b)))"
  proof (cases "prefix k (c # s)")
    case True
    then obtain b where b: "c # s = k @ b" by (auto simp: prefix_def)
    then show ?thesis using assms by (simp add: boundary_before boundary_after)
  qed (auto simp: prefix_def)
  have 2: "word_test k (is_word c) s
      \<longleftrightarrow> (\<exists>a b. c # s = (c # a) @ k @ b \<and> ?Q prev (c # a) \<and> (b = [] \<or> \<not> is_word (hd b)))"
    unfolding Cons.IH by auto
  show ?case
  proof
    assume "word_test k prev (c # s)"
    then consider "\<exists>b. c # s = k @ b \<and> \<not> prev \<and> (b = [] \<or> \<not> is_word (hd b))"
      | "\<exists>a b. c # s = (c # a) @ k @ b \<and> ?Q prev (c # a) \<and> (b = [] \<or> \<not> is_word (hd b))"
      using 1 2 by auto
    then show "\<exists>a b. c # s = a @ k @ b \<and> ?Q prev a \<and> (b = [] \<or> \<not> is_word (hd b))"
    proof cases
      case 1
      then obtain b where "c # s = [] @ k @ b" "\<not> prev" "b = [] \<or> \<not> is_word (hd b)" by auto
      then show ?thesis by (intro exI [of _ "[]"] exI [of _ b]) simp
    qed blast
  next
    assume "\<exists>a b. c # s = a @ k @ b \<and> ?Q prev a \<and> (b = [] \<or> \<not> is_word (hd b))"
    then obtain a b where ab: "c # s = a @ k @ b" "?Q prev a" "b = [] \<or> \<not> is_word (hd b)" by blast
    show "word_test k prev (c # s)"
    proof (cases a)
      case Nil
      with ab have "\<exists>b. c # s = k @ b \<and> \<not> prev \<and> (b = [] \<or> \<not> is_word (hd b))" by auto
      with 1 have "boundary prev (c # s) \<and> prefix k (c # s) \<and> boundary (is_word (last k)) (drop (length k) (c # s))"
        by (rule iffD2)
      then show ?thesis by simp
    next
      case (Cons d a')
      with ab(1) have "d = c" by simp
      with ab Cons have "\<exists>a b. c # s = (c # a) @ k @ b \<and> ?Q prev (c # a) \<and> (b = [] \<or> \<not> is_word (hd b))" by blast
      with 2 show ?thesis by simp
    qed
  qed
qed (use assms in auto)

lemma find_sorted:
  assumes "find P xs = Some x" "sorted (map f xs)"
  shows "x \<in> set xs \<and> P x \<and> (\<forall>y \<in> set xs. P y \<longrightarrow> f x \<le> f y)"
  using assms by (induction xs) (auto split: if_splits)

text \<open>Keywords are words, and none is in two entries.\<close>

lemma keyword_words: "list_all (\<lambda>(k, g). k \<noteq> [] \<and> is_word (hd k) \<and> is_word (last k)) KEYWORDS"
  by (simp add: KEYWORDS_def DENSITIES_def is_word_def is_digit_def)

lemma keywords_distinct: "distinct (map fst KEYWORDS)"
  by (simp add: KEYWORDS_def DENSITIES_def)

lemma keyword_test: "(k, g) \<in> set KEYWORDS \<Longrightarrow> word_test k False s \<longleftrightarrow> whole_word k s"
proof -
  assume "(k, g) \<in> set KEYWORDS"
  then have "k \<noteq> []" "is_word (hd k)" "is_word (last k)" using keyword_words by (auto simp: list_all_iff)
  note w = word_test_iff [OF this]
  have "(if a = [] then \<not> False else \<not> is_word (last a)) = (a = [] \<or> \<not> is_word (last a))" for a by simp
  then show ?thesis unfolding w whole_word_def by presburger
qed

text \<open>The density of an ingredient is that of the longest keyword that is a whole word of its name, whatever
  the case of its letters, and none exactly when no keyword is; the keyword determines the density.\<close>

theorem density_of_the_longest_keyword:
  "case findDensity item of
     None \<Rightarrow> \<forall>(k, g) \<in> set KEYWORDS. \<not> whole_word k (js_lower item)
   | Some m \<Rightarrow>
       whole_word (matchedAs m) (js_lower item) \<and>
       (\<exists>g. map_of KEYWORDS (matchedAs m) = Some g \<and> gramsPerMl m = div_num (fin g) (fin ML_PER_CUP)) \<and>
       (\<forall>(k, g) \<in> set KEYWORDS. whole_word k (js_lower item) \<longrightarrow> length k \<le> length (matchedAs m))"
proof -
  let ?s = "js_lower item"
  let ?P = "\<lambda>(k, g :: rat). word_test k False ?s"
  have c: "set CANDIDATES = set KEYWORDS" "sorted (map (\<lambda>c. - int (length (fst c))) CANDIDATES)"
    by (simp_all add: CANDIDATES_def)
  have e: "\<not> whole_word k []" if "(k, g) \<in> set KEYWORDS" for k g
    using keyword_words that by (auto simp: whole_word_def list_all_iff)
  show ?thesis
  proof (cases "find ?P CANDIDATES")
    case None
    then have "\<forall>(k, g) \<in> set KEYWORDS. \<not> whole_word k ?s" using c(1) keyword_test by (fastforce simp: find_None_iff)
    with None have "findDensity item = None" by (simp add: findDensity_def)
    with \<open>\<forall>(k, g) \<in> set KEYWORDS. \<not> whole_word k ?s\<close> show ?thesis by simp
  next
    case (Some p)
    obtain k g where p: "p = (k, g)" by force
    note f = find_sorted [OF Some c(2), unfolded c(1)]
    then have k: "(k, g) \<in> set KEYWORDS" "whole_word k ?s" using keyword_test by (auto simp: p)
    then have "item \<noteq> []" using e by (auto simp: js_lower_def)
    moreover have "map_of KEYWORDS k = Some g" using k(1) keywords_distinct by (rule map_of_is_SomeI [rotated])
    moreover have "length k' \<le> length k" if "(k', g') \<in> set KEYWORDS" "whole_word k' ?s" for k' g'
    proof -
      have "?P (k', g')" using that keyword_test by simp
      with f that(1) show ?thesis by (fastforce simp: p)
    qed
    ultimately show ?thesis using Some k(2) by (auto simp: findDensity_def p)
  qed
qed

theorem density_of_the_longest_keyword_witness:
  "case findDensity ''Almond Flour'' of None \<Rightarrow> False | Some m \<Rightarrow> 12 \<le> length (matchedAs m)"
proof -
  have l: "js_lower ''Almond Flour'' = ''almond flour''" by code_simp
  have "(''almond flour'', 96) \<in> set KEYWORDS" by (simp add: KEYWORDS_def DENSITIES_def)
  moreover have "whole_word ''almond flour'' ''almond flour''" unfolding whole_word_def by (intro exI [of _ "[]"]) simp
  ultimately show ?thesis
    using density_of_the_longest_keyword [of "''Almond Flour''"] unfolding l
    by (cases "findDensity ''Almond Flour''") fastforce+
qed

subsection \<open>The most readable unit\<close>

lemma less_num_order:
  "less_num x y \<Longrightarrow> \<not> less_num y x"
  "x \<noteq> NaN \<Longrightarrow> y \<noteq> NaN \<Longrightarrow> le_num x y \<longleftrightarrow> \<not> less_num y x"
  "less_num x y \<Longrightarrow> less_num y z \<Longrightarrow> less_num x z"
  "less_num x y \<Longrightarrow> x \<noteq> NaN \<and> y \<noteq> NaN"
  by (cases x; cases y; cases z; auto simp: le_num_def)+

lemma le_num_trans: "le_num x y \<Longrightarrow> le_num y z \<Longrightarrow> le_num x z"
  using less_num_order(3) by (auto simp: le_num_def)

text \<open>What the loop has found among the candidates it has seen\<close>

definition best_of :: "num \<Rightarrow> (string \<times> rat) list \<Rightarrow> (string \<times> rat) \<times> num \<Rightarrow> bool" where
  "best_of baseValue seen b \<longleftrightarrow>
     snd b = in_unit baseValue (fst b) \<and> snd b \<noteq> NaN \<and>
     (if \<exists>c \<in> set seen. readable (in_unit baseValue c)
      then fst b \<in> set seen \<and> readable (snd b) \<and>
           (\<forall>c \<in> set seen. readable (in_unit baseValue c) \<longrightarrow> le_num (snd b) (in_unit baseValue c))
      else \<not> readable (snd b))"

lemma pick_step_best:
  assumes "best_of baseValue seen b" "in_unit baseValue c \<noteq> NaN"
  shows "best_of baseValue (seen @ [c]) (pick_step baseValue c b)"
proof -
  let ?v = "in_unit baseValue c"
  have b: "snd b = in_unit baseValue (fst b)" "snd b \<noteq> NaN" using assms(1) unfolding best_of_def by blast+
  have r: "readable x \<longleftrightarrow> \<not> less_num x (Fin (3 / 4))" if "x \<noteq> NaN" for x
    using that less_num_order(2) by (simp add: readable_def)
  have refl: "le_num ?v ?v" using assms(2) by (simp add: le_num_def)
  have le: "\<not> less_num ?v (snd b) \<Longrightarrow> le_num (snd b) ?v" "less_num ?v (snd b) \<Longrightarrow> le_num ?v (snd b)"
    using less_num_order(2) [OF b(2) assms(2)] by (simp_all add: le_num_def)
  show ?thesis
  proof (cases "readable (snd b)")
    case True
    then have s: "fst b \<in> set seen" "\<And>c. c \<in> set seen \<Longrightarrow> readable (in_unit baseValue c) \<Longrightarrow> le_num (snd b) (in_unit baseValue c)"
      using assms(1) by (auto simp: best_of_def split: if_splits)
    have e: "\<exists>c \<in> set (seen @ [c]). readable (in_unit baseValue c)" using s(1) True b(1) by auto
    have "\<not> less_num (snd b) (Fin (3 / 4))" using True r b(2) by simp
    then show ?thesis
      using True s e b le refl assms(2) le_num_trans [OF le(2) s(2)]
      unfolding best_of_def pick_step_def Let_def by auto
  next
    case False
    then have "less_num (snd b) (Fin (3 / 4))" "\<And>c. c \<in> set seen \<Longrightarrow> \<not> readable (in_unit baseValue c)"
      using assms(1) r b(2) by (auto simp: best_of_def split: if_splits)
    then show ?thesis using False refl assms(2) b unfolding best_of_def pick_step_def Let_def by auto
  qed
qed

lemma fold_best:
  assumes "best_of baseValue seen b" "\<forall>c \<in> set cs. in_unit baseValue c \<noteq> NaN"
  shows "best_of baseValue (seen @ cs) (fold (pick_step baseValue) cs b)"
  using assms
proof (induction cs arbitrary: seen b)
  case (Cons c cs)
  then have "best_of baseValue (seen @ [c]) (pick_step baseValue c b)" by (simp add: pick_step_best)
  from Cons.IH [OF this] Cons.prems(2) show ?case by simp
qed simp

text \<open>A factor of the tables as a number\<close>

lemma fin_factor:
  assumes "3 / 10 \<le> t" "t < 4000"
  obtains t' where "fin t = Fin t'" "\<bar>t' - t\<bar> \<le> t / 2 ^ 53" "1 / 4 \<le> t'"
proof -
  have "(2::rat) powi 12 = 4096" by (simp add: power_int_def)
  then obtain t' where t': "fin t = Fin t'" using fin_below [of t 12] assms by auto
  then have "t' = rnd t" by (auto simp: fin_def Let_def split: if_splits)
  with rnd_relative [of t] assms(1) have e: "\<bar>t' - t\<bar> \<le> t / 2 ^ 53" by simp
  also have "t / 2 ^ 53 \<le> t / 100" using assms(1) by (simp add: field_simps)
  finally have "1 / 4 \<le> t'" using assms(1) by linarith
  with t' e show thesis by (intro that)
qed

lemma preferred_factors: "list_all (\<lambda>c. 3 / 10 \<le> snd c \<and> snd c < 4000) (PREFERRED d s) \<and> PREFERRED d s \<noteq> []"
  by (cases d; cases s) (simp_all add: PREFERRED_def)

lemma fin_not_NaN [simp]: "fin q \<noteq> NaN"
  by (simp add: fin_def Let_def)

lemma in_unit_not_NaN: "c \<in> set (PREFERRED d s) \<Longrightarrow> in_unit (Fin x) c \<noteq> NaN"
proof -
  assume "c \<in> set (PREFERRED d s)"
  then have "3 / 10 \<le> snd c" "snd c < 4000" using preferred_factors [of d s] by (auto simp: list_all_iff)
  then obtain t where "fin (snd c) = Fin t" "1 / 4 \<le> t" using fin_factor by blast
  then show ?thesis by (auto simp: in_unit_def)
qed

text \<open>Of the units of a system and dimension, the one chosen gives the smallest amount of at least three
  quarters, and the first unit when no amount is that large.\<close>

theorem most_readable_unit:
  assumes "convertUnit (Fin q) fromUnit s = Some r" "resolveUnit fromUnit = Some f"
    and "mul (Fin q) (fin (ud_toBase f)) = Fin x"
  shows "let amount = in_unit (Fin x); cs = PREFERRED (ud_dimension f) s
         in \<exists>c \<in> set cs. r = \<lparr>cu_qty = cleanNumber (amount c), cu_unit = fst c\<rparr> \<and>
              (if \<exists>c' \<in> set cs. readable (amount c')
               then readable (amount c) \<and> (\<forall>c' \<in> set cs. readable (amount c') \<longrightarrow> le_num (amount c) (amount c'))
               else c = hd cs)"
proof -
  let ?a = "in_unit (Fin x)"
  let ?cs = "PREFERRED (ud_dimension f) s"
  obtain c0 cs where cs: "?cs = c0 # cs" using preferred_factors [of "ud_dimension f" s] by (cases ?cs) auto
  have n: "\<forall>c \<in> set ?cs. ?a c \<noteq> NaN" using in_unit_not_NaN by blast
  define b where "b = fold (pick_step (Fin x)) ?cs (c0, ?a c0)"
  have "pick_step (Fin x) c0 (c0, ?a c0) = (c0, ?a c0)" by (simp add: pick_step_def)
  then have b': "b = fold (pick_step (Fin x)) cs (c0, ?a c0)" by (simp add: b_def cs)
  have "best_of (Fin x) [c0] (c0, ?a c0)" using n by (auto simp: best_of_def cs le_num_def)
  from fold_best [OF this, of cs] n have best: "best_of (Fin x) ?cs b" by (simp add: b' cs)
  have r: "r = (if less_num (snd b) (Fin (3 / 4)) then \<lparr>cu_qty = cleanNumber (?a c0), cu_unit = fst c0\<rparr>
      else \<lparr>cu_qty = cleanNumber (snd b), cu_unit = fst (fst b)\<rparr>)"
    using assms(1,2) unfolding convertUnit_def pickBestUnit_def Let_def b_def
    by (simp add: cs assms(3) split: if_splits prod.splits)
  show ?thesis
  proof (cases "\<exists>c \<in> set ?cs. readable (?a c)")
    case True
    with best have "fst b \<in> set ?cs" "readable (snd b)" "snd b = ?a (fst b)"
      "\<forall>c \<in> set ?cs. readable (?a c) \<longrightarrow> le_num (snd b) (?a c)" by (auto simp: best_of_def)
    moreover from this have "\<not> less_num (snd b) (Fin (3 / 4))"
      using less_num_order(1) [of "snd b" "Fin (3 / 4)"] by (auto simp: readable_def le_num_def)
    ultimately show ?thesis using True unfolding r Let_def by (intro bexI [of _ "fst b"]) simp_all
  next
    case False
    with best have "\<not> readable (snd b)" "snd b \<noteq> NaN" by (auto simp: best_of_def)
    then have "less_num (snd b) (Fin (3 / 4))" using less_num_order(2) [of "Fin (3 / 4)" "snd b"] by (simp add: readable_def)
    with False show ?thesis unfolding r Let_def cs by (intro bexI [of _ c0]) auto
  qed
qed

theorem most_readable_unit_witness:
  "\<exists>r. convertUnit (Fin 473) ''ml'' Imperial = Some r \<and> (\<exists>c \<in> set (PREFERRED Volume Imperial). cu_unit r = fst c)"
proof -
  define f where "f = udef ''ml'' Volume Metric 1 False"
  have f: "resolveUnit ''ml'' = Some f" "ud_dimension f = Volume" "ud_system f = Metric" "ud_toBase f = 1" "\<not> ud_sourceOnly f"
    using resolve_canonical [of f] by (simp_all add: f_def udef_def UNIT_DEFS_def)
  have "fin 1 = Fin 1" "fin 473 = Fin 473" using fin_nat [of 1] fin_nat [of 473] by simp_all
  then have m: "mul (Fin 473) (fin (ud_toBase f)) = Fin 473" by (simp add: f)
  obtain r where r: "convertUnit (Fin 473) ''ml'' Imperial = Some r" by (simp add: convertUnit_def f)
  from most_readable_unit [OF r f(1) m] obtain c where "c \<in> set (PREFERRED Volume Imperial)"
    "r = \<lparr>cu_qty = cleanNumber (in_unit (Fin 473) c), cu_unit = fst c\<rparr>" unfolding Let_def f by blast
  with r show ?thesis by auto
qed

subsection \<open>The error of a conversion\<close>

lemma cleanNumber_error:
  assumes "\<bar>z\<bar> < 2 powi 28"
  shows "\<exists>x. cleanNumber (Fin z) = Fin x \<and> \<bar>x - z\<bar> \<le> 1 / 200 + 1 / 20000000"
proof -
  have p: "(2::rat) powi 35 = 34359738368" "(2::rat) powi (35 - 54) = 1 / 524288" "(2::rat) powi 28 = 268435456"
    "(2::rat) powi (28 - 54) = 1 / 67108864" "(2::rat) powi 29 = 536870912" "(2::rat) powi (29 - 54) = 1 / 33554432"
    by (simp_all add: power_int_def power_one_over)
  have "\<bar>z * 100\<bar> < 2 powi 35" using assms p by linarith
  then obtain w where w: "fin (z * 100) = Fin w" "\<bar>w - z * 100\<bar> \<le> 1 / 524288" using fin_below [of "z * 100" 35] p by auto
  define n where "n = \<lfloor>w + 1 / 2\<rfloor>"
  have n: "of_int n \<le> w + 1 / 2" "w + 1 / 2 < of_int n + 1" using floor_correct [of "w + 1 / 2"] by (simp_all add: n_def)
  have "\<bar>z\<bar> < 268435456" using assms p(3) by simp
  then have "- (26843545602 :: rat) < of_int n" "of_int n < (26843545602 :: rat)" using n w(2) by linarith+
  then have "\<bar>of_int n / 100\<bar> < (2 :: rat) powi 29" using p by (simp add: abs_less_iff)
  then obtain x where x: "fin (of_int n / 100) = Fin x" "\<bar>x - of_int n / 100\<bar> \<le> 1 / 33554432"
    using fin_below [of "of_int n / 100" 29] p by auto
  have "cleanNumber (Fin z) = Fin x" using w(1) x(1) by (simp add: cleanNumber_def n_def)
  moreover have "\<bar>x - z\<bar> \<le> 1 / 200 + 1 / 20000000" using n w(2) x(2) by linarith
  ultimately show ?thesis by blast
qed

lemma quotient_error:
  fixes y t' :: rat
  assumes "0 \<le> q" "q \<le> 10000" and f: "0 < f" "f < 4000" and t: "3 / 10 \<le> t"
    and y: "\<bar>y - q * f\<bar> \<le> 1 / 50000000" and t': "\<bar>t' - t\<bar> \<le> t / 2 ^ 53" "1 / 4 \<le> t'"
  shows "\<bar>y / t' - q * f / t\<bar> \<le> 1 / 10000000"
proof -
  have "q * f \<le> 10000 * 4000" using assms(1,2) f by (intro mult_mono) simp_all
  then have qf: "0 \<le> q * f" "q * f \<le> 10000 * 4000" using assms(1) f by simp_all
  have "y / t' - q * f / t = (y - q * f) / t' + q * f / t' * ((t - t') / t)" using t t'(2) by (simp add: field_simps)
  then have "\<bar>y / t' - q * f / t\<bar> \<le> \<bar>(y - q * f) / t'\<bar> + \<bar>q * f / t' * ((t - t') / t)\<bar>" by (simp only: abs_triangle_ineq)
  also have "\<dots> = \<bar>y - q * f\<bar> / t' + q * f / t' * (\<bar>t' - t\<bar> / t)"
    using t t'(2) abs_of_nonneg [OF qf(1)] by (simp add: abs_mult abs_divide abs_minus_commute)
  also have "\<bar>y - q * f\<bar> / t' \<le> (1 / 50000000) / (1 / 4)" using y t'(2) by (intro frac_le) simp_all
  also have "q * f / t' * (\<bar>t' - t\<bar> / t) \<le> (10000 * 4000) / (1 / 4) * (1 / 2 ^ 53)"
  proof (rule mult_mono)
    show "q * f / t' \<le> (10000 * 4000) / (1 / 4)" using qf t'(2) by (intro frac_le) simp_all
    show "\<bar>t' - t\<bar> / t \<le> 1 / 2 ^ 53" using t t'(1) by (simp add: field_simps)
  qed (use qf t t'(2) in simp_all)
  finally show ?thesis by simp
qed

lemma factors: "d \<in> set UNIT_DEFS \<Longrightarrow> 3 / 10 \<le> ud_toBase d \<and> ud_toBase d < 4000"
proof -
  have "list_all (\<lambda>d. 3 / 10 \<le> ud_toBase d \<and> ud_toBase d < 4000) UNIT_DEFS" by (simp add: UNIT_DEFS_def udef_def)
  then show "d \<in> set UNIT_DEFS \<Longrightarrow> ?thesis" by (simp add: list_all_iff)
qed

text \<open>C23: an amount of up to 10000 converted to a unit of the same dimension is the exact product of the factors
  up to half a hundredth and a millionth: the rounding to hundredths and the rounding errors of the five
  operations of the conversion.\<close>

theorem conversion_error:
  assumes "0 \<le> q" "q \<le> 10000" "resolveUnit fromUnit = Some f" "resolveUnit toUnit = Some t"
    and "ud_dimension f = ud_dimension t"
  shows "\<exists>x. convertToUnit (Fin q) fromUnit toUnit = Some \<lparr>cu_qty = Fin x, cu_unit = ud_canonical t\<rparr> \<and>
             \<bar>x - q * ud_toBase f / ud_toBase t\<bar> \<le> 1 / 200 + 1 / 1000000"
proof -
  let ?f = "ud_toBase f" and ?t = "ud_toBase t"
  have ft: "3 / 10 \<le> ?f" "?f < 4000" "3 / 10 \<le> ?t" "?t < 4000" using resolve_in_defs [OF assms(3)] resolve_in_defs [OF assms(4)] factors
    by auto
  obtain f' where f': "fin ?f = Fin f'" "\<bar>f' - ?f\<bar> \<le> ?f / 2 ^ 53" "1 / 4 \<le> f'" using fin_factor [OF ft(1,2)] .
  obtain t' where t': "fin ?t = Fin t'" "\<bar>t' - ?t\<bar> \<le> ?t / 2 ^ 53" "1 / 4 \<le> t'" using fin_factor [OF ft(3,4)] .
  have p: "(2::rat) powi 26 = 67108864" "(2::rat) powi (26 - 54) = 1 / 268435456" "(2::rat) powi 28 = 268435456"
    "(2::rat) powi (28 - 54) = 1 / 67108864" by (simp_all add: power_int_def power_one_over)
  have "?f / 2 ^ 53 \<le> 4000 / 2 ^ 53" using ft(2) by (intro divide_right_mono) simp_all
  with f'(2) have "\<bar>f' - ?f\<bar> \<le> 4000 / 2 ^ 53" by (rule order_trans)
  then have "q * \<bar>f' - ?f\<bar> \<le> 10000 * (4000 / 2 ^ 53)" using assms(1,2) by (intro mult_mono) simp_all
  then have qf: "\<bar>q * f' - q * ?f\<bar> \<le> 1 / 100000000"
    using assms(1) by (simp add: right_diff_distrib [symmetric] abs_mult)
  have "q * ?f \<le> 10000 * 4000" using assms(1,2) ft by (intro mult_mono) simp_all
  moreover have "0 \<le> q * ?f" using assms(1) ft by simp
  ultimately have m: "q * ?f \<le> 10000 * 4000" "0 \<le> q * ?f" .
  from m qf have b: "\<bar>q * f'\<bar> < 2 powi 26" using p by linarith
  then obtain y where y: "fin (q * f') = Fin y" "\<bar>y - q * f'\<bar> \<le> 1 / 268435456" using fin_below [of "q * f'" 26] p by auto
  have "\<bar>y - q * ?f\<bar> \<le> 1 / 50000000" using y(2) qf by linarith
  note e = quotient_error [OF assms(1,2) _ ft(2,3) this t'(2,3)]
  have e: "\<bar>y / t' - q * ?f / ?t\<bar> \<le> 1 / 10000000" using e ft(1) by simp
  have "q * ?f / ?t \<le> (10000 * 4000) / (3 / 10)" using m ft by (intro frac_le) simp_all
  also have "\<dots> \<le> 134000000" by simp
  finally have "q * ?f / ?t \<le> 134000000" .
  moreover have "0 \<le> q * ?f / ?t" using m ft by (intro divide_nonneg_nonneg) simp_all
  ultimately have r: "q * ?f / ?t \<le> 134000000" "0 \<le> q * ?f / ?t" .
  define R Y where "R = q * ?f / ?t" and "Y = y / t'"
  note r = r [folded R_def] and e = e [folded R_def Y_def]
  have "\<bar>Y\<bar> < 268435456" using r e by linarith
  then have c: "\<bar>Y\<bar> < 2 powi 28" using p(3) by simp
  then obtain z where z: "fin Y = Fin z" "\<bar>z - Y\<bar> \<le> 1 / 67108864" using fin_below [of Y 28] p by auto
  have z1: "\<bar>z - R\<bar> \<le> 1 / 8000000" using z(2) e by linarith
  have "\<bar>z\<bar> < 268435456" using z1 r by linarith
  then have "\<bar>z\<bar> < 2 powi 28" using p(3) by simp
  then obtain x where x: "cleanNumber (Fin z) = Fin x" "\<bar>x - z\<bar> \<le> 1 / 200 + 1 / 20000000"
    using cleanNumber_error by blast
  then have "\<bar>x - R\<bar> \<le> 1 / 200 + 1 / 1000000" using z1 by linarith
  moreover have "convertToUnit (Fin q) fromUnit toUnit = Some \<lparr>cu_qty = Fin x, cu_unit = ud_canonical t\<rparr>"
    using t'(3) by (simp add: convertToUnit_def assms(3-5) f'(1) t'(1) y(1) z(1) [unfolded Y_def] x(1))
  ultimately show ?thesis unfolding R_def by blast
qed

theorem conversion_error_witness:
  "\<exists>x. convertToUnit (Fin (5 / 2)) ''cup'' ''ml'' = Some \<lparr>cu_qty = Fin x, cu_unit = ''ml''\<rparr> \<and>
       \<bar>x - 59147 / 100\<bar> \<le> 1 / 200 + 1 / 1000000"
proof -
  define f t where "f = udef ''cup'' Volume Imperial (236588 / 1000) False" and "t = udef ''ml'' Volume Metric 1 False"
  have "resolveUnit ''cup'' = Some f" "resolveUnit ''ml'' = Some t"
    using resolve_canonical [of f] resolve_canonical [of t] by (simp_all add: f_def t_def udef_def UNIT_DEFS_def)
  from conversion_error [OF _ _ this, of "5 / 2"] show ?thesis by (simp add: f_def t_def udef_def)
qed

end
