(* ===== verification/Recipe_Refs.thy ===== *)
theory Recipe_Refs
  imports Recipe_Markdown Conversion
begin

text \<open>
  References in the markdown of a recipe: \<open>@[ingredient]\<close> and \<open>#[recipe](vault/id)\<close>. From
  \<^verbatim>\<open>views/detail/recipe-links.ts\<close> the replacement of both before rendering and the update of stale link names,
  from \<^verbatim>\<open>lib/html.ts\<close> the escaping, from \<^verbatim>\<open>lib/cm-ingredient-completions.ts\<close> and
  \<^verbatim>\<open>lib/cm-recipe-completions.ts\<close> what the editor offers to insert, from \<^verbatim>\<open>components/recipe-preview.ts\<close> the
  replacement in previews, and the rewriting of blob references of \<^verbatim>\<open>import-export.ts\<close> and \<^verbatim>\<open>ui/recipes.ts\<close>.
\<close>

subsection \<open>Escaping\<close>

definition escape_char :: "char \<Rightarrow> string" where
  "escape_char c = (if c = CHR ''&'' then ''&amp;'' else if c = CHR ''<'' then ''&lt;'' else if c = CHR ''>'' then ''&gt;''
     else if c = CHR 0xA0 then ''&nbsp;'' else [c])"

definition escapeHtml :: "string \<Rightarrow> string" where
  "escapeHtml s = concat (map escape_char s)"


subsection \<open>Patterns\<close>

text \<open>Replacing every match of a pattern from the left: at a position the pattern gives the replacement and the
  text after the match.\<close>

function gsub :: "(string \<Rightarrow> (string \<times> string) option) \<Rightarrow> string \<Rightarrow> string" where
  "gsub pat s =
     (case s of
        [] \<Rightarrow> []
      | c # cs \<Rightarrow>
          (case pat s of
             Some (new, rest) \<Rightarrow> if length rest < length s then new @ gsub pat rest else c # gsub pat cs
           | None \<Rightarrow> c # gsub pat cs))"
  by pat_completeness auto
termination by (relation "measure (\<lambda>(pat, s). length s)") auto

declare gsub.simps [simp del]

text \<open>\<^verbatim>\<open>([^c]+)c\<close>: the text up to a closing character, and what follows it\<close>

definition upto :: "char \<Rightarrow> string \<Rightarrow> (string \<times> string) option" where
  "upto c s =
     (let a = takeWhile (\<lambda>x. x \<noteq> c) s; r = drop (length a) s in if a = [] \<or> r = [] then None else Some (a, tl r))"

text \<open>\<^verbatim>\<open>/@\[([^\]]+)\]/\<close> and \<^verbatim>\<open>/#\[([^\]]+)\]\(([^)]+)\)/\<close>\<close>

definition match_ing :: "string \<Rightarrow> (string \<times> string) option" where
  "match_ing s = (if prefix ''@['' s then upto (CHR '']'') (drop 2 s) else None)"

definition match_link :: "string \<Rightarrow> ((string \<times> string) \<times> string) option" where
  "match_link s =
     (if prefix ''#['' s then
        (case upto (CHR '']'') (drop 2 s) of
           None \<Rightarrow> None
         | Some (name, r) \<Rightarrow>
             if prefix ''('' r then map_option (\<lambda>(i, r'). ((name, i), r')) (upto (CHR '')'') (tl r)) else None)
      else None)"

subsection \<open>Amounts as shown\<close>

text \<open>The amount and the unit of an ingredient, scaled and converted: the unit chosen for the ingredient goes before
  the unit system of the page; a unit marked with a tilde is reached through the density. The last component
  tells whether the unit was converted.\<close>

definition converted_amount :: "num \<Rightarrow> ingredient \<Rightarrow> unit_system option \<Rightarrow> string option \<Rightarrow> converted_unit option" where
  "converted_amount n ing unitSystem override =
     (case override of
        Some (c # u) \<Rightarrow>
          if c = CHR ''~''
          then (case (resolveUnit (ing_unit ing), findDensity (ing_item ing)) of
                  (Some ud, Some den) \<Rightarrow> convertViaDensity n (fin (ud_toBase ud)) (ud_dimension ud) u den
                | _ \<Rightarrow> None)
          else convertToUnit n (ing_unit ing) (c # u)
      | _ \<Rightarrow>
          (case unitSystem of
             None \<Rightarrow> None
           | Some s \<Rightarrow>
               (let r = convertIngredient n (ing_unit ing) unitSystem
                in if cu_unit r \<noteq> ing_unit ing then Some r else None)))"

definition shown_amount :: "ingredient \<Rightarrow> num \<Rightarrow> unit_system option \<Rightarrow> string option \<Rightarrow> string \<times> string \<times> bool" where
  "shown_amount ing scale unitSystem override =
     (let scaledRaw = scaleQty (ing_quantity ing) scale;
          r = (case parseQty scaledRaw of None \<Rightarrow> None | Some n \<Rightarrow> converted_amount n ing unitSystem override)
      in case r of
           None \<Rightarrow> (scaledRaw, ing_unit ing, False)
         | Some c \<Rightarrow> (formatQty (cu_qty c) (isDecimalUnit (cu_unit c)), cu_unit c, True))"

subsection \<open>Replacing references\<close>

definition SPAN :: "string \<Rightarrow> string \<Rightarrow> string" where
  "SPAN cls inner = ''<span class='' @ [DQ] @ cls @ [DQ] @ ''>'' @ inner @ ''</span>''"

definition ing_span :: "ingredient list \<Rightarrow> num \<Rightarrow> unit_system option \<Rightarrow> (nat \<times> string) list \<Rightarrow> string \<Rightarrow> string" where
  "ing_span ings scale unitSystem overrides name =
     (case index_of (js_lower name) (map (\<lambda>i. js_lower (ing_item i)) ings) of
        None \<Rightarrow> SPAN ''ing-ref ing-ref-broken'' (escapeHtml name)
      | Some idx \<Rightarrow>
          (let ing = ings ! idx;
               (q, u, conv) = shown_amount ing scale unitSystem (map_get overrides idx);
               parts = filter (\<lambda>p. p \<noteq> []) [escapeHtml q, escapeHtml u, escapeHtml (ing_item ing)]
           in SPAN ''ing-ref'' (join '' '' parts @ (if ing_optional ing then '' (if adding)'' else []))))"

definition resolveIngredientRefs ::
  "ingredient list \<Rightarrow> num \<Rightarrow> unit_system option \<Rightarrow> (nat \<times> string) list \<Rightarrow> string \<Rightarrow> string" where
  "resolveIngredientRefs ings scale unitSystem overrides md =
     gsub (\<lambda>s. map_option (\<lambda>(name, r). (ing_span ings scale unitSystem overrides name, r)) (match_ing s)) md"

text \<open>Previews first take away \<^verbatim>\<open><code>\<close> around a reference.\<close>

definition match_code :: "string \<Rightarrow> (string \<times> string) option" where
  "match_code s =
     (if prefix ''<code>'' s
      then (case match_ing (drop 6 s) of
              Some (name, r) \<Rightarrow> if prefix ''</code>'' r then Some (''@['' @ name @ '']'', drop 7 r) else None
            | None \<Rightarrow> None)
      else None)"

definition preview_resolveIngredientRefs ::
  "ingredient list \<Rightarrow> num \<Rightarrow> unit_system option \<Rightarrow> (nat \<times> string) list \<Rightarrow> string \<Rightarrow> string" where
  "preview_resolveIngredientRefs ings scale unitSystem overrides md =
     resolveIngredientRefs ings scale unitSystem overrides (gsub match_code md)"

text \<open>The recipe of a link: the part after the first slash, or all of it.\<close>

definition link_recipe :: "string \<Rightarrow> string" where
  "link_recipe docId = (case split_on (CHR ''/'') docId of a # b # _ \<Rightarrow> b | a # _ \<Rightarrow> a | [] \<Rightarrow> [])"

definition find_entry :: "string \<Rightarrow> catalog_entry list \<Rightarrow> catalog_entry option" where
  "find_entry i rs = find (\<lambda>e. ce_id e = i) rs"



text \<open>The links of a text in order, and the set the resolver fills\<close>

function links :: "string \<Rightarrow> (string \<times> string) list" where
  "links s =
     (case s of
        [] \<Rightarrow> []
      | c # cs \<Rightarrow>
          (case match_link s of
             Some (l, rest) \<Rightarrow> if length rest < length s then l # links rest else links cs
           | None \<Rightarrow> links cs))"
  by pat_completeness auto
termination by (relation "measure length") auto

declare links.simps [simp del]

definition linked_ids :: "string \<Rightarrow> string list \<Rightarrow> string list" where
  "linked_ids md ids = fold (\<lambda>l s. set_add (snd l) s) (links md) ids"

subsection \<open>Stale link names\<close>

definition link_text :: "string \<Rightarrow> string \<Rightarrow> string" where
  "link_text name docId = ''#['' @ name @ '']('' @ docId @ '')''"

definition current_name :: "catalog_entry list \<Rightarrow> string \<Rightarrow> string \<Rightarrow> string" where
  "current_name rs name docId =
     (case find_entry (link_recipe docId) rs of Some e \<Rightarrow> ce_title e | None \<Rightarrow> name)"

definition update_names :: "catalog_entry list \<Rightarrow> string \<Rightarrow> string" where
  "update_names rs t =
     gsub (\<lambda>s. map_option (\<lambda>((name, docId), r). (link_text (current_name rs name docId) docId, r)) (match_link s)) t"

text \<open>\<open>None\<close> when nothing changes\<close>

definition updateField :: "catalog_entry list \<Rightarrow> string \<Rightarrow> string option" where
  "updateField rs t =
     (if list_ex (\<lambda>(name, docId). current_name rs name docId \<noteq> name) (links t) then Some (update_names rs t) else None)"

definition reconcileRecipeLinkNames :: "catalog_entry list \<Rightarrow> recipe \<Rightarrow> recipe \<times> bool" where
  "reconcileRecipeLinkNames rs doc =
     (if rs = [] then (doc, False)
      else
        let i = updateField rs (rc_instructions doc); n = updateField rs (rc_notes doc)
        in if i = None \<and> n = None then (doc, False)
           else (doc\<lparr>rc_instructions := (case i of Some t \<Rightarrow> t | None \<Rightarrow> rc_instructions doc),
                     rc_notes := (case n of Some t \<Rightarrow> t | None \<Rightarrow> rc_notes doc)\<rparr>, True))"

subsection \<open>Completions\<close>

text \<open>The text before the cursor on its line; the offset where the inserted text goes and the options
  (label, text).\<close>

fun last_index :: "string \<Rightarrow> string \<Rightarrow> nat \<Rightarrow> nat option \<Rightarrow> nat option" where
  "last_index pat [] n found = (if pat = [] then Some n else found)"
| "last_index pat (c # cs) n found = last_index pat cs (Suc n) (if prefix pat (c # cs) then Some n else found)"

definition query_match :: "string \<Rightarrow> string \<Rightarrow> bool" where
  "query_match q s \<longleftrightarrow> q = [] \<or> sublist q (js_lower s)"

definition ingredientCompletionSource :: "string list \<Rightarrow> string \<Rightarrow> (nat \<times> (string \<times> string) list) option" where
  "ingredientCompletionSource names textBefore =
     (case last_index ''@['' textBefore 0 None of
        None \<Rightarrow> None
      | Some trigger \<Rightarrow>
          let afterTrigger = drop (trigger + 2) textBefore;
              options = map (\<lambda>n. (n, ''@['' @ n @ '']'')) (filter (query_match (js_lower afterTrigger)) names)
          in if CHR '']'' \<in> set afterTrigger \<or> options = [] then None else Some (trigger, options))"

definition recipeCompletionSource ::
  "catalog_entry list \<Rightarrow> string \<Rightarrow> string \<Rightarrow> string \<Rightarrow> (nat \<times> (string \<times> string) list) option" where
  "recipeCompletionSource rs vaultId currentId textBefore =
     (case last_index ''#['' textBefore 0 None of
        None \<Rightarrow> None
      | Some trigger \<Rightarrow>
          let afterTrigger = drop (trigger + 2) textBefore;
              options = map (\<lambda>r. (ce_title r, link_text (ce_title r) (vaultId @ ''/'' @ ce_id r)))
                (filter (\<lambda>r. query_match (js_lower afterTrigger) (ce_title r)) (filter (\<lambda>r. ce_id r \<noteq> currentId) rs))
          in if CHR '']'' \<in> set afterTrigger \<or> (0 < trigger \<and> textBefore ! (trigger - 1) = CHR ''@'') \<or> options = [] then None
             else Some (trigger, options))"

subsection \<open>Blob references\<close>

definition match_blob :: "string \<Rightarrow> (string \<times> string) option" where
  "match_blob s = map_option (\<lambda>h. (h, drop 71 s)) (blob_ref s)"

definition rewriteBlobRefs :: "(string \<times> string) list \<Rightarrow> string \<Rightarrow> string" where
  "rewriteBlobRefs m t =
     (if m = [] then t
      else gsub (\<lambda>s. map_option (\<lambda>(old, r).
             (''(blob:'' @ (case map_get m old of Some new \<Rightarrow> if new = [] then old else new | None \<Rightarrow> old) @ '')'', r)) (match_blob s)) t)"

subsection \<open>Matches\<close>

lemma upto_Some: "upto c s = Some (a, r) \<longleftrightarrow> a \<noteq> [] \<and> c \<notin> set a \<and> s = a @ c # r"
proof
  assume u: "upto c s = Some (a, r)"
  define d where "d = dropWhile (\<lambda>x. x \<noteq> c) s"
  have s: "s = takeWhile (\<lambda>x. x \<noteq> c) s @ d" by (simp add: d_def)
  then have dr: "drop (length (takeWhile (\<lambda>x. x \<noteq> c) s)) s = d" by (metis append_eq_conv_conj)
  with u have a: "a = takeWhile (\<lambda>x. x \<noteq> c) s" "a \<noteq> []" "d \<noteq> []" "r = tl d" by (auto simp: upto_def Let_def split: if_splits)
  then have "hd d = c" using hd_dropWhile [of "\<lambda>x. x \<noteq> c" s] by (simp add: d_def)
  with a s show "a \<noteq> [] \<and> c \<notin> set a \<and> s = a @ c # r" by (metis list.collapse set_takeWhileD)
next
  assume a: "a \<noteq> [] \<and> c \<notin> set a \<and> s = a @ c # r"
  then have "\<And>x. x \<in> set a \<Longrightarrow> x \<noteq> c" by auto
  with a have "takeWhile (\<lambda>x. x \<noteq> c) s = a" by (simp add: takeWhile_append2)
  with a show "upto c s = Some (a, r)" by (simp add: upto_def)
qed

lemma upto_exists: "c \<in> set s \<Longrightarrow> hd s \<noteq> c \<Longrightarrow> \<exists>a r. upto c s = Some (a, r)"
proof -
  assume "c \<in> set s" and h: "hd s \<noteq> c"
  then obtain a r where s: "s = a @ c # r" "c \<notin> set a" by (meson split_list_first)
  with h have "a \<noteq> []" by (cases a) auto
  with s upto_Some show ?thesis by blast
qed

definition good_name :: "string \<Rightarrow> bool" where
  "good_name n \<longleftrightarrow> n \<noteq> [] \<and> CHR '']'' \<notin> set n"

definition good_id :: "string \<Rightarrow> bool" where
  "good_id i \<longleftrightarrow> i \<noteq> [] \<and> CHR '')'' \<notin> set i"

lemma match_link_Some: "match_link s = Some ((n, i), r) \<longleftrightarrow> good_name n \<and> good_id i \<and> s = link_text n i @ r"
proof
  assume "match_link s = Some ((n, i), r)"
  then obtain r1 where p: "prefix ''#['' s" and n: "upto (CHR '']'') (drop 2 s) = Some (n, r1)" and b: "prefix ''('' r1"
    and i: "upto (CHR '')'') (tl r1) = Some (i, r)"
    by (auto simp: match_link_def split: if_splits option.splits prod.splits)
  from p have "s = ''#['' @ drop 2 s" by (auto simp: prefix_def)
  moreover from b have "r1 = CHR ''('' # tl r1" by (cases r1) auto
  ultimately show "good_name n \<and> good_id i \<and> s = link_text n i @ r"
    using n i by (auto simp: upto_Some good_name_def good_id_def link_text_def)
next
  assume a: "good_name n \<and> good_id i \<and> s = link_text n i @ r"
  then have "upto (CHR '']'') (drop 2 s) = Some (n, CHR ''('' # i @ CHR '')'' # r)"
    by (simp add: upto_Some link_text_def good_name_def)
  moreover have "upto (CHR '')'') (i @ CHR '')'' # r) = Some (i, r)" using a by (simp add: upto_Some good_id_def)
  ultimately show "match_link s = Some ((n, i), r)" using a by (simp add: match_link_def link_text_def)
qed

lemma match_link_shorter: "match_link s = Some (l, r) \<Longrightarrow> length r < length s"
  by (cases l) (auto simp: match_link_Some link_text_def)

lemma links_simps:
  "links [] = []"
  "match_link (c # cs) = None \<Longrightarrow> links (c # cs) = links cs"
  "match_link s = Some (l, r) \<Longrightarrow> links s = l # links r"
proof -
  show "links [] = []" by (simp add: links.simps)
  show "match_link (c # cs) = None \<Longrightarrow> links (c # cs) = links cs" by (simp add: links.simps [of "c # cs"])
  show "match_link s = Some (l, r) \<Longrightarrow> links s = l # links r"
    using match_link_shorter [of s l r] by (subst links.simps) (auto split: list.split)
qed

lemma gsub_link_simps:
  "gsub (\<lambda>s. map_option (\<lambda>(l, r). (f l, r)) (match_link s)) [] = []"
  "match_link (c # cs) = None \<Longrightarrow> gsub (\<lambda>s. map_option (\<lambda>(l, r). (f l, r)) (match_link s)) (c # cs)
     = c # gsub (\<lambda>s. map_option (\<lambda>(l, r). (f l, r)) (match_link s)) cs"
  "match_link s = Some (l, r) \<Longrightarrow> gsub (\<lambda>s. map_option (\<lambda>(l, r). (f l, r)) (match_link s)) s
     = f l @ gsub (\<lambda>s. map_option (\<lambda>(l, r). (f l, r)) (match_link s)) r"
proof -
  let ?g = "gsub (\<lambda>s. map_option (\<lambda>(l, r). (f l, r)) (match_link s))"
  show "?g [] = []" by (simp add: gsub.simps)
  show "match_link (c # cs) = None \<Longrightarrow> ?g (c # cs) = c # ?g cs" by (subst gsub.simps) simp
  show "match_link s = Some (l, r) \<Longrightarrow> ?g s = f l @ ?g r"
    using match_link_shorter [of s l r] by (cases s) (subst gsub.simps, simp)+
qed

subsection \<open>Changing the name of a link\<close>

text \<open>Where no link begins before a link, none begins when the link has another name.\<close>

lemma no_link_before:
  assumes "match_link (u @ link_text n i @ r) = None" "u \<noteq> []" "good_name n" "good_id i" "good_name n'"
  shows "match_link (u @ link_text n' i @ r') = None"
proof (rule ccontr)
  assume "match_link (u @ link_text n' i @ r') \<noteq> None"
  then obtain a b q where m: "match_link (u @ link_text n' i @ r') = Some ((a, b), q)" by auto
  then have ab: "good_name a" "good_id b" and e: "u @ link_text n' i @ r' = link_text a b @ q" by (simp_all add: match_link_Some)
  have none: "\<not> (good_name a' \<and> good_id b' \<and> u @ link_text n i @ r = link_text a' b' @ q')" for a' b' q'
    using assms(1) match_link_Some [of "u @ link_text n i @ r" a' b' q'] by auto
  obtain w where u: "u = ''#['' @ w"
  proof -
    from e have "u = ''#'' \<or> (\<exists>w. u = ''#['' @ w)"
      using assms(2) by (cases u; cases "tl u") (auto simp: link_text_def)
    moreover have "u \<noteq> ''#''" using e by (auto simp: link_text_def)
    ultimately show thesis using that by blast
  qed
  have e': "w @ link_text n' i @ r' = a @ '']('' @ b @ '')'' @ q" using e by (simp add: u link_text_def)
  show False
  proof (cases "CHR '']'' \<in> set w")
    case False
    then have "good_name (w @ ''#['' @ n)" using assms(3) by (simp add: good_name_def)
    with none [of "w @ ''#['' @ n" i r] assms(4) show False by (simp add: u link_text_def)
  next
    case True
    then obtain n0 v where w: "w = n0 @ CHR '']'' # v" "CHR '']'' \<notin> set n0" by (meson split_list_first)
    have "upto (CHR '']'') (w @ link_text n' i @ r') = Some (a, CHR ''('' # b @ CHR '')'' # q)"
      using ab(1) e' by (simp add: upto_Some good_name_def)
    moreover have "n0 \<noteq> []" using ab(1) e' by (cases a) (auto simp: w good_name_def)
    then have "upto (CHR '']'') (w @ link_text n' i @ r') = Some (n0, v @ link_text n' i @ r')"
      by (simp add: upto_Some w)
    ultimately have an: "a = n0" and v: "v @ link_text n' i @ r' = CHR ''('' # b @ CHR '')'' # q" by simp_all
    from v obtain v' where v': "v = CHR ''('' # v'" by (cases v) (auto simp: link_text_def)
    with v have v2: "v' @ link_text n' i @ r' = b @ CHR '')'' # q" by simp
    have g: "good_name n0" using ab(1) an by simp
    have "\<exists>b' q'. upto (CHR '')'') (v' @ link_text n i @ r) = Some (b', q')"
    proof (rule upto_exists)
      show "CHR '')'' \<in> set (v' @ link_text n i @ r)" by (simp add: link_text_def)
      have "hd (v' @ link_text n' i @ r') \<noteq> CHR '')''" using ab(2) unfolding v2 by (cases b) (auto simp: good_id_def)
      then show "hd (v' @ link_text n i @ r) \<noteq> CHR '')''" by (cases v') (simp_all add: link_text_def)
    qed
    then obtain b' q' where "good_id b'" "v' @ link_text n i @ r = b' @ CHR '')'' # q'"
      by (auto simp: upto_Some good_id_def)
    with none [of n0 b' q'] g show False by (simp add: u w v' link_text_def)
  qed
qed

text \<open>The names as they are after the update\<close>

definition good_titles :: "catalog_entry list \<Rightarrow> bool" where
  "good_titles rs \<longleftrightarrow> (\<forall>e \<in> set rs. good_name (ce_title e))"

lemma good_current: "good_titles rs \<Longrightarrow> good_name n \<Longrightarrow> good_name (current_name rs n i)"
  by (auto simp: current_name_def good_titles_def find_entry_def find_Some_iff split: option.split)

lemma current_again [simp]: "current_name rs (current_name rs n i) i = current_name rs n i"
  by (simp add: current_name_def split: option.split)

definition new_link :: "catalog_entry list \<Rightarrow> string \<times> string \<Rightarrow> string \<times> string" where
  "new_link rs l = (current_name rs (fst l) (snd l), snd l)"

lemma update_names_simps:
  "update_names rs [] = []"
  "match_link (c # cs) = None \<Longrightarrow> update_names rs (c # cs) = c # update_names rs cs"
  "match_link s = Some ((n, i), r) \<Longrightarrow> update_names rs s = link_text (current_name rs n i) i @ update_names rs r"
proof -
  define f where "f = (\<lambda>(n, i). link_text (current_name rs n i) i)"
  have u: "update_names rs = gsub (\<lambda>s. map_option (\<lambda>(l, r). (f l, r)) (match_link s))"
    by (rule ext) (simp add: update_names_def f_def case_prod_unfold)
  show "update_names rs [] = []" by (simp add: u gsub_link_simps)
  show "match_link (c # cs) = None \<Longrightarrow> update_names rs (c # cs) = c # update_names rs cs" by (simp add: u gsub_link_simps)
  show "match_link s = Some ((n, i), r) \<Longrightarrow> update_names rs s = link_text (current_name rs n i) i @ update_names rs r"
    by (simp add: u gsub_link_simps f_def)
qed

lemma no_new_link:
  assumes "good_titles rs" "match_link (u @ s) = None" "u \<noteq> []"
  shows "match_link (u @ update_names rs s) = None"
  using assms(2,3)
proof (induction s arbitrary: u)
  case Nil
  then show ?case by (simp add: update_names_simps)
next
  case (Cons c cs)
  show ?case
  proof (cases "match_link (c # cs)")
    case None
    from Cons.IH [of "u @ [c]"] Cons.prems show ?thesis by (simp add: update_names_simps(2) [OF None])
  next
    case (Some p)
    then obtain n i r where m: "match_link (c # cs) = Some ((n, i), r)" by (cases p) auto
    then have g: "good_name n" "good_id i" "c # cs = link_text n i @ r" by (simp_all add: match_link_Some)
    from Cons.prems no_link_before [OF _ _ g(1,2) good_current [OF assms(1) g(1)]] show ?thesis
      unfolding update_names_simps(3) [OF m] by (simp add: g(3))
  qed
qed

lemma match_link_text: "good_name n \<Longrightarrow> good_id i \<Longrightarrow> match_link (link_text n i @ r) = Some ((n, i), r)"
  by (simp add: match_link_Some)

lemma update_twice_and_links:
  assumes "good_titles rs"
  shows "links (update_names rs s) = map (new_link rs) (links s) \<and> update_names rs (update_names rs s) = update_names rs s"
proof (induction s rule: measure_induct_rule [of length])
  case (less s)
  show ?case
  proof (cases s)
    case Nil
    then show ?thesis by (simp add: update_names_simps links_simps)
  next
    case (Cons c cs)
    show ?thesis
    proof (cases "match_link (c # cs)")
      case None
      have "match_link (c # update_names rs cs) = None" using no_new_link [OF assms, of "[c]" cs] None by simp
      with less.IH [of cs] None Cons show ?thesis by (simp add: update_names_simps links_simps)
    next
      case (Some p)
      then obtain n i r where m: "match_link (c # cs) = Some ((n, i), r)" by (cases p) auto
      then have g: "good_name n" "good_id i" by (simp_all add: match_link_Some)
      note t = match_link_text [OF good_current [OF assms g(1)] g(2), of i "update_names rs r"]
      have "links (update_names rs r) = map (new_link rs) (links r) \<and> update_names rs (update_names rs r) = update_names rs r"
        using less.IH [of r] match_link_shorter [OF m] Cons by simp
      then show ?thesis
        unfolding Cons update_names_simps(3) [OF m] links_simps(3) [OF m] links_simps(3) [OF t] update_names_simps(3) [OF t]
        by (simp add: new_link_def)
    qed
  qed
qed

text \<open>Updating the link names of a recipe makes every link show the present title of its recipe, keeps the
  recipes linked and the links to recipes of other books, and a second update changes nothing, when no title is
  empty or has a closing bracket.\<close>

theorem link_names_follow_the_titles:
  assumes "good_titles rs" "reconcileRecipeLinkNames rs doc = (doc', changed)"
  shows "links (rc_instructions doc') = map (\<lambda>(name, i). (current_name rs name i, i)) (links (rc_instructions doc)) \<and>
    links (rc_notes doc') = map (\<lambda>(name, i). (current_name rs name i, i)) (links (rc_notes doc)) \<and>
    reconcileRecipeLinkNames rs doc' = (doc', False)"
proof -
  define new where "new t = (case updateField rs t of Some t' \<Rightarrow> t' | None \<Rightarrow> t)" for t
  have f: "new_link rs = (\<lambda>(name, i). (current_name rs name i, i))" by (auto simp: new_link_def)
  have l: "links (new t) = map (new_link rs) (links t)" for t
  proof (cases "updateField rs t")
    case None
    then have "map (new_link rs) (links t) = links t"
      by (intro map_idI) (auto simp: updateField_def new_link_def list_ex_iff split: if_splits)
    with None show ?thesis by (simp add: new_def)
  next
    case (Some t')
    then show ?thesis using update_twice_and_links [OF assms(1)] by (auto simp: new_def updateField_def split: if_splits)
  qed
  have fixed: "updateField rs (new t) = None" for t
    unfolding updateField_def l by (auto simp: new_link_def list_ex_iff)
  have keep: "updateField rs t = None \<Longrightarrow> new t = t" for t by (simp add: new_def)
  show ?thesis
  proof (cases "rs = []")
    case True
    then have "doc' = doc" "\<And>n i. current_name rs n i = n" using assms(2)
      by (auto simp: reconcileRecipeLinkNames_def current_name_def find_entry_def)
    with True show ?thesis by (simp add: reconcileRecipeLinkNames_def case_prod_beta)
  next
    case False
    then have d: "rc_instructions doc' = new (rc_instructions doc) \<and> rc_notes doc' = new (rc_notes doc)"
      using assms(2) keep
      by (auto simp: reconcileRecipeLinkNames_def new_def Let_def split: if_splits option.splits)
    then have "reconcileRecipeLinkNames rs doc' = (doc', False)" by (simp add: reconcileRecipeLinkNames_def fixed)
    with d l show ?thesis by (simp add: f)
  qed
qed

definition demo_entry :: catalog_entry where
  "demo_entry = \<lparr>ce_id = ''r1'', ce_title = ''Stock'', ce_tags = []\<rparr>"

definition linking_recipe :: "string \<Rightarrow> recipe" where
  "linking_recipe md = \<lparr>rc_title = ''Soup'', rc_tags = [], rc_servings = Some 4, rc_prepMinutes = None, rc_cookMinutes = None,
     rc_createdAt = 0, rc_updatedAt = 0, rc_description = [], rc_ingredients = [], rc_instructions = md,
     rc_imageUrls = [], rc_notes = []\<rparr>"

theorem link_names_follow_the_titles_witness:
  "links (rc_instructions (fst (reconcileRecipeLinkNames [demo_entry] (linking_recipe ''Add #[Broth](v/r1).'')))) = [(''Stock'', ''v/r1'')]"
proof -
  obtain doc' ch where e: "reconcileRecipeLinkNames [demo_entry] (linking_recipe ''Add #[Broth](v/r1).'') = (doc', ch)" by force
  have "good_titles [demo_entry]" by (simp add: good_titles_def good_name_def demo_entry_def)
  from link_names_follow_the_titles [OF this e]
  have "links (rc_instructions doc') = map (\<lambda>(name, i). (current_name [demo_entry] name i, i)) (links ''Add #[Broth](v/r1).'')"
    by (simp add: linking_recipe_def)
  also have "\<dots> = [(''Stock'', ''v/r1'')]" by code_simp
  finally show ?thesis by (simp add: e)
qed

text \<open>A title with a closing bracket ends its links: the updated text has no link any more.\<close>

lemma bracket_in_a_title:
  "let e = demo_entry\<lparr>ce_title := ''Stock [dark]''\<rparr>; t' = the (updateField [e] ''#[Stock](v/r1)'')
   in t' = ''#[Stock [dark]](v/r1)'' \<and> links t' = []"
  by code_simp

subsection \<open>What a browser shows\<close>

text \<open>The text of markup: outside of tags, with the character references of the escaping decoded.\<close>

datatype html_state = Outside | In_Tag | Quoted

definition char_ref :: "string \<Rightarrow> (char \<times> string) option" where
  "char_ref s =
     (if prefix ''&amp;'' s then Some (CHR ''&'', drop 5 s)
      else if prefix ''&lt;'' s then Some (CHR ''<'', drop 4 s)
      else if prefix ''&gt;'' s then Some (CHR ''>'', drop 4 s)
      else if prefix ''&nbsp;'' s then Some (CHR 0xA0, drop 6 s) else None)"

function html_text :: "html_state \<Rightarrow> string \<Rightarrow> string" where
  "html_text st s =
     (case s of
        [] \<Rightarrow> []
      | c # cs \<Rightarrow>
          (case st of
             Outside \<Rightarrow>
               if c = CHR ''<'' then html_text In_Tag cs
               else (case char_ref s of Some (d, r) \<Rightarrow> if length r < length s then d # html_text Outside r else c # html_text Outside cs
                     | None \<Rightarrow> c # html_text Outside cs)
           | In_Tag \<Rightarrow> html_text (if c = CHR ''>'' then Outside else if c = DQ then Quoted else In_Tag) cs
           | Quoted \<Rightarrow> html_text (if c = DQ then In_Tag else Quoted) cs))"
  by pat_completeness auto
termination by (relation "measure (\<lambda>(st, s). length s)") auto

declare html_text.simps [simp del]

lemma html_Nil [simp]: "html_text st [] = []"
  by (simp add: html_text.simps)


lemma html_open [simp]: "html_text Outside (CHR ''<'' # s) = html_text In_Tag s"
  by (subst html_text.simps) simp

lemma html_tag [simp]: "html_text In_Tag (c # s) = html_text (if c = CHR ''>'' then Outside else if c = DQ then Quoted else In_Tag) s"
  by (subst html_text.simps) simp

lemma html_quoted [simp]: "html_text Quoted (c # s) = html_text (if c = DQ then In_Tag else Quoted) s"
  by (subst html_text.simps) simp















lemma escapeHtml_Nil [simp]: "escapeHtml s = [] \<longleftrightarrow> s = []"
  by (cases s) (auto simp: escapeHtml_def escape_char_def)






subsection \<open>What completions insert\<close>

lemma link_recipe_of: "CHR ''/'' \<notin> set v \<Longrightarrow> CHR ''/'' \<notin> set i \<Longrightarrow> link_recipe (v @ CHR ''/'' # i) = i"
  by (simp add: link_recipe_def split_on_append_sep split_on_sep_free)

lemma find_entry_distinct: "distinct (map ce_id rs) \<Longrightarrow> e \<in> set rs \<Longrightarrow> find_entry (ce_id e) rs = Some e"
  by (induction rs) (auto simp: find_entry_def)

lemma ingredient_completion:
  assumes "ingredientCompletionSource names tb = Some (k, opts)" "(label, txt') \<in> set opts" "good_name label"
  shows "label \<in> set names \<and> match_ing txt' = Some (label, [])"
  using assms
  by (auto simp: ingredientCompletionSource_def match_ing_def upto_Some good_name_def Let_def split: option.splits if_splits)

text \<open>What the editor inserts for a recipe is one link, to that recipe and never to the open one: read back, it
  has the recipe's title and leads to its catalog entry.\<close>

theorem completions_insert_working_links:
  assumes "recipeCompletionSource rs vaultId currentId tb = Some (k, opts)" "(label, inserted) \<in> set opts"
    and "good_titles rs" "distinct (map ce_id rs)" "CHR ''/'' \<notin> set vaultId" "CHR '')'' \<notin> set vaultId"
    and "\<forall>e \<in> set rs. CHR ''/'' \<notin> set (ce_id e) \<and> CHR '')'' \<notin> set (ce_id e)"
  shows "\<exists>e \<in> set rs. label = ce_title e \<and> ce_id e \<noteq> currentId \<and>
    links inserted = [(label, vaultId @ ''/'' @ ce_id e)] \<and>
    find_entry (link_recipe (vaultId @ ''/'' @ ce_id e)) rs = Some e"
proof -
  from assms(1,2) obtain e where e: "e \<in> set rs" "label = ce_title e" "ce_id e \<noteq> currentId"
    "inserted = link_text (ce_title e) (vaultId @ ''/'' @ ce_id e)"
    by (auto simp: recipeCompletionSource_def Let_def split: option.splits if_splits)
  have "good_id (vaultId @ ''/'' @ ce_id e)" using assms(6,7) e(1) by (auto simp: good_id_def)
  moreover have "good_name (ce_title e)" using assms(3) e(1) by (simp add: good_titles_def)
  ultimately have "match_link inserted = Some ((ce_title e, vaultId @ ''/'' @ ce_id e), [])"
    using match_link_text [of "ce_title e" "vaultId @ ''/'' @ ce_id e" "[]"] e(4) by simp
  then have "links inserted = [(label, vaultId @ ''/'' @ ce_id e)]" using e(2) by (simp add: links_simps)
  moreover have "find_entry (link_recipe (vaultId @ ''/'' @ ce_id e)) rs = Some e"
    using assms(4,5,7) e(1) by (simp add: link_recipe_of find_entry_distinct)
  ultimately show ?thesis using e(1-3) by auto
qed

theorem completions_insert_working_links_witness:
  "links ''#[Stock](v/r1)'' = [(''Stock'', ''v/r1'')] \<and>
   recipeCompletionSource [demo_entry] ''v'' ''r0'' ''Add #[St'' = Some (4, [(''Stock'', ''#[Stock](v/r1)'')])"
proof -
  have c: "recipeCompletionSource [demo_entry] ''v'' ''r0'' ''Add #[St'' = Some (4, [(''Stock'', ''#[Stock](v/r1)'')])"
    by code_simp
  have "\<exists>e \<in> set [demo_entry]. ''Stock'' = ce_title e \<and> ce_id e \<noteq> ''r0'' \<and>
      links ''#[Stock](v/r1)'' = [(''Stock'', ''v'' @ ''/'' @ ce_id e)] \<and>
      find_entry (link_recipe (''v'' @ ''/'' @ ce_id e)) [demo_entry] = Some e"
    by (rule completions_insert_working_links [OF c]) (simp_all add: demo_entry_def good_titles_def good_name_def)
  then have "links ''#[Stock](v/r1)'' = [(''Stock'', ''v/r1'')]" by (auto simp: demo_entry_def)
  with c show ?thesis by blast
qed

end
