(* ===== verification/Tag_Input.thy ===== *)
theory Tag_Input
  imports Js_Text
begin

text \<open>
  The two inputs with suggestions, \<open>src/components/tag-input.ts\<close> and \<open>src/components/autocomplete-input.ts\<close>: their
  fields, with what the page shows of them (the text typed, whether the list is open, its options), and their
  methods and event handlers. The styles and the template are left out; an exception in a handler leaves the
  fields as they are. JavaScript sorts strings by their code units, as \<open>sort\<close> does here.
\<close>

section \<open>The tag input\<close>

definition tag_word :: "string \<Rightarrow> string" where
  "tag_word t = js_trim (js_lower t)"

record tag_input =
  tg_tags :: "string list"
  tg_suggestions :: "string list"
  tg_active :: int
  tg_text :: string
  tg_open :: bool
  tg_shown :: "(string \<times> bool) list"
  tg_changes :: nat

definition tag_init :: tag_input where
  "tag_init = \<lparr>tg_tags = [], tg_suggestions = [], tg_active = -1, tg_text = [], tg_open = False, tg_shown = [], tg_changes = 0\<rparr>"

definition sorted_words :: "string list \<Rightarrow> string list" where
  "sorted_words ts = sort (set_from (filter (\<lambda>t. t \<noteq> []) (map tag_word ts)))"

definition set_value :: "string list \<Rightarrow> tag_input \<Rightarrow> tag_input" where
  "set_value ts s = s\<lparr>tg_tags := sorted_words ts\<rparr>"

definition set_suggestions :: "string list \<Rightarrow> tag_input \<Rightarrow> tag_input" where
  "set_suggestions ts s = s\<lparr>tg_suggestions := sorted_words ts\<rparr>"

definition tag_emit :: "tag_input \<Rightarrow> tag_input" where
  "tag_emit s = s\<lparr>tg_changes := Suc (tg_changes s)\<rparr>"

definition hide_dropdown :: "tag_input \<Rightarrow> tag_input" where
  "hide_dropdown s = s\<lparr>tg_open := False, tg_active := -1\<rparr>"

text \<open>The typed text as tags, split at commas\<close>

fun push_new :: "string list \<Rightarrow> string list \<Rightarrow> string list" where
  "push_new tags [] = tags"
| "push_new tags (t # parts) = push_new (if t \<in> set tags then tags else tags @ [t]) parts"

definition commitInput :: "tag_input \<Rightarrow> tag_input" where
  "commitInput s =
     (if js_trim (tg_text s) = [] then s
      else let parts = filter (\<lambda>t. t \<noteq> []) (map tag_word (split_on (CHR '','') (tg_text s)));
               tags = push_new (tg_tags s) parts;
               s1 = (if tags \<noteq> tg_tags s then tag_emit (s\<lparr>tg_tags := sort tags\<rparr>) else s)
           in s1\<lparr>tg_text := []\<rparr>)"

definition addTag :: "string \<Rightarrow> tag_input \<Rightarrow> tag_input" where
  "addTag tag s =
     (let t = tag_word tag
      in if t = [] \<or> t \<in> set (tg_tags s) then s
         else tag_emit (hide_dropdown (s\<lparr>tg_tags := sort (tg_tags s @ [t]), tg_text := []\<rparr>)))"

definition removeTag :: "string \<Rightarrow> tag_input \<Rightarrow> tag_input" where
  "removeTag tag s =
     (if tag \<in> set (tg_tags s) then tag_emit (s\<lparr>tg_tags := remove1 tag (tg_tags s)\<rparr>) else s)"

text \<open>The options with the mark of the one that would be a new tag\<close>

definition filteredOptions :: "tag_input \<Rightarrow> (string \<times> bool) list" where
  "filteredOptions s =
     (let q = tag_word (tg_text s);
          matches = filter (\<lambda>t. q = [] \<or> sublist q t) (filter (\<lambda>t. t \<notin> set (tg_tags s)) (tg_suggestions s));
          result = map (\<lambda>t. (t, False)) matches
      in if q \<noteq> [] \<and> q \<notin> set (tg_suggestions s) \<and> q \<notin> set (tg_tags s) then (q, True) # result else result)"

definition showDropdown :: "tag_input \<Rightarrow> tag_input" where
  "showDropdown s =
     (let opts = filteredOptions s in s\<lparr>tg_active := -1, tg_shown := opts, tg_open := (opts \<noteq> [])\<rparr>)"

datatype key = ArrowDown | ArrowUp | Enter | Comma | Tab | Backspace | Escape

definition tag_keydown :: "key \<Rightarrow> tag_input \<Rightarrow> tag_input" where
  "tag_keydown k s =
     (let count = int (length (tg_shown s)) in
      case k of
        ArrowDown \<Rightarrow>
          if \<not> tg_open s then showDropdown s
          else s\<lparr>tg_active := (if tg_active s < count - 1 then tg_active s + 1 else 0)\<rparr>
      | ArrowUp \<Rightarrow>
          if \<not> tg_open s then s
          else s\<lparr>tg_active := (if 0 < tg_active s then tg_active s - 1 else count - 1)\<rparr>
      | Enter \<Rightarrow>
          if tg_open s \<and> 0 \<le> tg_active s \<and> tg_active s < count
          then let filtered = filteredOptions s
               in if nat (tg_active s) < length filtered then addTag (fst (filtered ! nat (tg_active s))) s else s
          else showDropdown (commitInput s)
      | Comma \<Rightarrow> if js_trim (tg_text s) \<noteq> [] then showDropdown (commitInput s) else s
      | Tab \<Rightarrow> if js_trim (tg_text s) \<noteq> [] then showDropdown (commitInput s) else s
      | Backspace \<Rightarrow> if tg_text s = [] \<and> tg_tags s \<noteq> [] then removeTag (last (tg_tags s)) s else s
      | Escape \<Rightarrow> hide_dropdown s)"

datatype tag_event =
  Focus | Blur | Hide_Timer | Typed string | Key key | Pill string | Option nat
  | Set_Value "string list" | Set_Suggestions "string list"

definition tag_step :: "tag_input \<Rightarrow> tag_event \<Rightarrow> tag_input" where
  "tag_step s e =
     (case e of
        Focus \<Rightarrow> showDropdown s
      | Blur \<Rightarrow> commitInput s
      | Hide_Timer \<Rightarrow> hide_dropdown s
      | Typed t \<Rightarrow> showDropdown (s\<lparr>tg_text := t\<rparr>)
      | Key k \<Rightarrow> tag_keydown k s
      | Pill t \<Rightarrow> removeTag t s
      | Option i \<Rightarrow> if tg_open s \<and> i < length (tg_shown s) then addTag (fst (tg_shown s ! i)) s else s
      | Set_Value ts \<Rightarrow> set_value ts s
      | Set_Suggestions ts \<Rightarrow> set_suggestions ts s)"

subsection \<open>Words\<close>

lemma lower_char_idem [simp]: "js_lower_char (js_lower_char c) = js_lower_char c"
proof -
  have "(of_char (char_of (of_char c + 32 :: nat) :: char) :: nat) = of_char c + 32" if "(of_char c :: nat) \<le> 222"
    using that by (simp add: of_char_of)
  then show ?thesis by (auto simp: js_lower_char_def Let_def)
qed

lemma set_trim: "set (js_trim s) \<subseteq> set s"
  by (auto simp: js_trim_def dest!: set_dropWhileD)

lemma lower_fixed: "(\<And>c. c \<in> set s \<Longrightarrow> js_lower_char c = c) \<Longrightarrow> js_lower s = s"
  by (simp add: js_lower_def map_idI)

definition good_tag :: "string \<Rightarrow> bool" where
  "good_tag t \<longleftrightarrow> t \<noteq> [] \<and> js_trim t = t \<and> js_lower t = t"

lemma good_tag_word: "tag_word t \<noteq> [] \<Longrightarrow> good_tag (tag_word t)"
  unfolding good_tag_def tag_word_def
  using set_trim [of "js_lower t"] by (auto simp: js_lower_def intro!: map_idI)

lemma tag_word_good [simp]: "good_tag t \<Longrightarrow> tag_word t = t"
  by (simp add: good_tag_def tag_word_def)

definition good_tags :: "string list \<Rightarrow> bool" where
  "good_tags ts \<longleftrightarrow> sorted ts \<and> distinct ts \<and> (\<forall>t \<in> set ts. good_tag t)"

lemma good_sorted_words: "good_tags (sorted_words ts)"
  by (auto simp: good_tags_def sorted_words_def good_tag_word)

lemma sorted_words_good: "good_tags ts \<Longrightarrow> sorted_words ts = ts"
proof -
  assume g: "good_tags ts"
  then have "map tag_word ts = ts" "filter (\<lambda>t. t \<noteq> []) ts = ts"
    by (auto simp: good_tags_def good_tag_def tag_word_def intro!: map_idI filter_True)
  moreover have "foldl (\<lambda>s x. set_add x s) acc xs = acc @ xs" if "distinct (acc @ xs)" for acc xs :: "string list"
    using that by (induction xs arbitrary: acc) (auto simp: set_add_def)
  ultimately show ?thesis using g by (simp add: sorted_words_def good_tags_def set_from_def sorted_sort_id)
qed

lemma push_new:
  "set (push_new tags parts) = set tags \<union> set parts"
  "distinct tags \<Longrightarrow> distinct (push_new tags parts)"
  by (induction parts arbitrary: tags) auto

subsection \<open>Runs\<close>

definition tags_ok :: "tag_input \<Rightarrow> bool" where
  "tags_ok s \<longleftrightarrow> good_tags (tg_tags s) \<and> good_tags (tg_suggestions s)"

lemma tags_ok_intros [intro]:
  "tags_ok s \<Longrightarrow> tags_ok (hide_dropdown s)"
  "tags_ok s \<Longrightarrow> tags_ok (showDropdown s)"
  "tags_ok s \<Longrightarrow> tags_ok (s\<lparr>tg_active := i\<rparr>)"
  "tags_ok s \<Longrightarrow> tags_ok (s\<lparr>tg_text := t\<rparr>)"
  "tags_ok s \<Longrightarrow> tags_ok (set_value ts s)"
  "tags_ok s \<Longrightarrow> tags_ok (set_suggestions ts s)"
  by (simp_all add: tags_ok_def hide_dropdown_def showDropdown_def Let_def set_value_def set_suggestions_def good_sorted_words)

lemma tags_ok_commit [intro]: "tags_ok s \<Longrightarrow> tags_ok (commitInput s)"
  by (auto simp: tags_ok_def commitInput_def Let_def tag_emit_def good_tags_def push_new good_tag_word)

lemma tags_ok_add [intro]: "tags_ok s \<Longrightarrow> tags_ok (addTag t s)"
  by (auto simp: tags_ok_def addTag_def Let_def tag_emit_def hide_dropdown_def good_tags_def good_tag_word)

lemma tags_ok_remove [intro]: "tags_ok s \<Longrightarrow> tags_ok (removeTag t s)"
  by (auto simp: tags_ok_def removeTag_def tag_emit_def good_tags_def sorted_remove1 dest: in_set_remove1 notin_set_remove1)

lemma tags_ok_key [intro]: "tags_ok s \<Longrightarrow> tags_ok (tag_keydown k s)"
  by (cases k) (auto simp: tag_keydown_def Let_def)

lemma tags_ok_step: "tags_ok s \<Longrightarrow> tags_ok (tag_step s e)"
  by (cases e) (auto simp: tag_step_def)

interpretation tag_steps: run_invariant tag_step tags_ok "\<lambda>e. True"
  by unfold_locales (rule tags_ok_step)

lemma tags_ok_run: "tags_ok (foldl tag_step tag_init es)"
  by (rule tag_steps.inv_run) (simp_all add: tags_ok_def tag_init_def good_tags_def)

text \<open>C26: whatever is typed, pasted, clicked or set, the tags of the input are sorted, without duplicates, in lower
  case, without white space around them and not empty, and so are the suggestions; reading the tags and setting
  them again changes nothing.\<close>

theorem tags_in_every_run:
  "let s = foldl tag_step tag_init es
   in good_tags (tg_tags s) \<and> good_tags (tg_suggestions s) \<and> set_value (tg_tags s) s = s"
  using tags_ok_run [of es] by (simp add: tags_ok_def set_value_def sorted_words_good)

subsection \<open>The option taken by Enter\<close>

lemma sorted_middle:
  assumes "sorted (a @ t # b)" "distinct (a @ t # b)" "x \<in> set (a @ b)"
  shows "t < x \<longleftrightarrow> x \<in> set b"
  using assms by (fastforce simp: sorted_append order.strict_iff_order)

text \<open>With an option highlighted, Backspace takes the last tag back; when that tag is one of the suggestions and
  comes before the highlighted option, Enter then adds another tag than the highlighted one: the options are
  computed anew and have moved by one place, while the list on the page still shows the old ones.\<close>

theorem enter_takes_another_option:
  assumes "tags_ok s" "tg_open s" "tg_shown s = filteredOptions s" "tg_text s = []"
    and "tg_active s = int k" "k < length (tg_shown s)"
    and "tg_tags s = ts @ [t]" "t \<in> set (tg_suggestions s)" "t < fst (tg_shown s ! k)"
  shows "let s' = tag_keydown Backspace s; s'' = tag_keydown Enter s'
         in tg_shown s' ! nat (tg_active s') = tg_shown s ! k \<and> tg_tags s' = ts \<and>
            (\<exists>x. x \<noteq> fst (tg_shown s ! k) \<and> x \<notin> set ts \<and> tg_tags s'' = sort (ts @ [x]))"
proof -
  have g: "sorted (tg_suggestions s)" "distinct (tg_suggestions s)" "\<forall>x \<in> set (tg_suggestions s). good_tag x"
    and d: "distinct (ts @ [t])" using assms(1,7) by (auto simp: tags_ok_def good_tags_def)
  from assms(8) obtain a b where ab: "tg_suggestions s = a @ t # b" by (meson split_list)
  define F where "F = filter (\<lambda>x. x \<notin> set ts)"
  have q: "tag_word [] = []" by (simp add: tag_word_def js_lower_def js_trim_def)
  have tab: "t \<notin> set a" "t \<notin> set b" using g(2) by (simp_all add: ab)
  have Ft: "filter (\<lambda>x. x \<notin> set (ts @ [t])) l = F l" if "t \<notin> set l" for l
    using that by (auto simp: F_def intro: filter_cong)
  have shown: "tg_shown s = map (\<lambda>x. (x, False)) (F a @ F b)"
    unfolding assms(3) filteredOptions_def Let_def assms(4) q assms(7) ab
    using Ft [OF tab(1)] Ft [OF tab(2)] by simp
  let ?y = "fst (tg_shown s ! k)"
  have k: "k < length (F a @ F b)" using assms(6) by (simp add: shown)
  then have y: "?y = (F a @ F b) ! k" by (simp add: shown del: map_append)
  have "?y \<in> set (F a @ F b)" unfolding y using k by (rule nth_mem)
  then have "?y \<in> set (a @ b)" by (auto simp: F_def)
  then have yb: "?y \<in> set b" using sorted_middle [of a t b ?y] g(1,2) assms(9) by (simp add: ab)
  have ge: "length (F a) \<le> k"
  proof (rule ccontr)
    assume "\<not> length (F a) \<le> k"
    then have "?y \<in> set (F a)" unfolding y by (simp add: nth_append)
    then have "?y \<in> set a" by (simp add: F_def)
    with yb g(2) show False by (auto simp: ab)
  qed
  let ?s = "removeTag t s"
  have s': "tag_keydown Backspace s = ?s" using assms(4,7) by (simp add: tag_keydown_def)
  have rem: "?s = tag_emit (s\<lparr>tg_tags := ts\<rparr>)"
    using d by (simp add: removeTag_def assms(7) remove1_append)
  have opts: "filteredOptions ?s = map (\<lambda>x. (x, False)) (F a @ t # F b)"
    using d by (simp add: rem filteredOptions_def tag_emit_def assms(4) q ab F_def)
  let ?x = "(F a @ t # F b) ! k"
  have dF: "distinct (F a @ t # F b)" using g(2) by (auto simp: ab F_def)
  have "?y = (F a @ t # F b) ! Suc k" unfolding y using ge by (simp add: nth_append Suc_diff_le)
  moreover have "Suc k < length (F a @ t # F b)" "k < length (F a @ t # F b)" using k by simp_all
  ultimately have xy: "?x \<noteq> ?y" using dF nth_eq_iff_index_eq [of "F a @ t # F b" k "Suc k"] by simp
  have "?x \<in> set (F a @ t # F b)" using k by (intro nth_mem) simp
  then have x: "?x \<notin> set ts" "?x \<in> set (tg_suggestions s)" using d by (auto simp: F_def ab)
  then have gx: "good_tag ?x" using g(3) by simp
  then have "?x \<noteq> []" by (simp add: good_tag_def)
  have "fst (filteredOptions ?s ! k) = ?x" using k by (simp add: opts nth_map del: map_append)
  moreover have "k < length (filteredOptions ?s)" using k by (simp add: opts)
  ultimately have "tag_keydown Enter ?s = addTag ?x ?s"
    using assms(2,5,6) by (simp add: tag_keydown_def Let_def) (simp add: rem tag_emit_def)
  then have "tg_tags (tag_keydown Enter ?s) = sort (ts @ [?x])"
    using x(1) \<open>?x \<noteq> []\<close> by (simp add: addTag_def tag_word_good [OF gx] rem tag_emit_def hide_dropdown_def)
  with xy x(1) show ?thesis
    unfolding Let_def s' using assms(5) by (auto simp: rem tag_emit_def)
qed

definition demo_tags :: tag_input where
  "demo_tags = foldl tag_step tag_init
     [Set_Suggestions [''baking'', ''dinner'', ''soup''], Set_Value [''baking''], Focus, Key ArrowDown]"

theorem enter_takes_another_option_witness:
  "tg_shown demo_tags ! 0 = (''dinner'', False) \<and>
    tg_tags (tag_keydown Backspace demo_tags) = [] \<and>
    tg_tags (tag_keydown Enter (tag_keydown Backspace demo_tags)) \<noteq> [''dinner'']"
proof -
  have ok: "tags_ok demo_tags" unfolding demo_tags_def by (rule tags_ok_run)
  have d: "demo_tags = \<lparr>tg_tags = [''baking''], tg_suggestions = [''baking'', ''dinner'', ''soup''], tg_active = 0,
      tg_text = [], tg_open = True, tg_shown = [(''dinner'', False), (''soup'', False)], tg_changes = 0\<rparr>"
    by code_simp
  have f: "filteredOptions demo_tags = [(''dinner'', False), (''soup'', False)]" by code_simp
  have l: "''baking'' < ''dinner''" by code_simp
  have "let s' = tag_keydown Backspace demo_tags; s'' = tag_keydown Enter s'
         in tg_shown s' ! nat (tg_active s') = tg_shown demo_tags ! 0 \<and> tg_tags s' = [] \<and>
            (\<exists>x. x \<noteq> fst (tg_shown demo_tags ! 0) \<and> x \<notin> set [] \<and> tg_tags s'' = sort ([] @ [x]))"
    by (rule enter_takes_another_option [OF ok, of 0 "[]" "''baking''"]) (simp_all only: f, simp_all add: d l)
  then show ?thesis by (auto simp: d Let_def)
qed

section \<open>The input with completions\<close>

record auto_input =
  ac_text :: string
  ac_suggestions :: "string list"
  ac_active :: int
  ac_open :: bool
  ac_shown :: "string list"
  ac_inputs :: nat

definition auto_init :: "string \<Rightarrow> auto_input" where
  "auto_init v = \<lparr>ac_text = v, ac_suggestions = [], ac_active = -1, ac_open = False, ac_shown = [], ac_inputs = 0\<rparr>"

definition auto_setSuggestions :: "string list \<Rightarrow> auto_input \<Rightarrow> auto_input" where
  "auto_setSuggestions ts s = s\<lparr>ac_suggestions := sorted_words ts\<rparr>"

definition auto_filteredOptions :: "auto_input \<Rightarrow> string list" where
  "auto_filteredOptions s =
     (let q = tag_word (ac_text s) in filter (\<lambda>t. t \<noteq> q \<and> (q = [] \<or> sublist q t)) (ac_suggestions s))"

definition auto_showDropdown :: "auto_input \<Rightarrow> auto_input" where
  "auto_showDropdown s =
     (let opts = auto_filteredOptions s
      in s\<lparr>ac_active := -1, ac_shown := take (min (length opts) 8) opts, ac_open := (opts \<noteq> [])\<rparr>)"

definition auto_hideDropdown :: "auto_input \<Rightarrow> auto_input" where
  "auto_hideDropdown s = s\<lparr>ac_open := False, ac_active := -1\<rparr>"

definition selectOption :: "string \<Rightarrow> auto_input \<Rightarrow> auto_input" where
  "selectOption t s = (auto_hideDropdown (s\<lparr>ac_text := t\<rparr>))\<lparr>ac_inputs := Suc (ac_inputs s)\<rparr>"

definition select_filtered :: "nat \<Rightarrow> auto_input \<Rightarrow> auto_input" where
  "select_filtered i s =
     (let filtered = auto_filteredOptions s in if i < length filtered then selectOption (filtered ! i) s else s)"

definition auto_keydown :: "key \<Rightarrow> auto_input \<Rightarrow> auto_input" where
  "auto_keydown k s =
     (let count = int (length (ac_shown s)) in
      case k of
        ArrowDown \<Rightarrow>
          if \<not> ac_open s then auto_showDropdown s
          else s\<lparr>ac_active := (if ac_active s < count - 1 then ac_active s + 1 else 0)\<rparr>
      | ArrowUp \<Rightarrow>
          if \<not> ac_open s then s
          else s\<lparr>ac_active := (if 0 < ac_active s then ac_active s - 1 else count - 1)\<rparr>
      | Enter \<Rightarrow>
          if ac_open s \<and> 0 \<le> ac_active s \<and> ac_active s < count then select_filtered (nat (ac_active s)) s else s
      | Tab \<Rightarrow>
          if ac_open s \<and> 0 < count \<and> js_trim (ac_text s) \<noteq> []
          then select_filtered (if 0 \<le> ac_active s then nat (ac_active s) else 0) s else s
      | Escape \<Rightarrow> if ac_open s then auto_hideDropdown s else s
      | _ \<Rightarrow> s)"

datatype auto_event = AFocus | AHide_Timer | ATyped string | AKey key | AOption nat | ASet_Suggestions "string list"

definition auto_step :: "auto_input \<Rightarrow> auto_event \<Rightarrow> auto_input" where
  "auto_step s e =
     (case e of
        AFocus \<Rightarrow> auto_showDropdown s
      | AHide_Timer \<Rightarrow> auto_hideDropdown s
      | ATyped t \<Rightarrow> (auto_showDropdown (s\<lparr>ac_text := t\<rparr>))\<lparr>ac_inputs := Suc (ac_inputs s)\<rparr>
      | AKey k \<Rightarrow> auto_keydown k s
      | AOption i \<Rightarrow> if ac_open s \<and> i < length (ac_shown s) then selectOption (ac_shown s ! i) s else s
      | ASet_Suggestions ts \<Rightarrow> auto_setSuggestions ts s)"

text \<open>The suggestions are given to a new input, before its list is open.\<close>

fun auto_run :: "auto_input \<Rightarrow> auto_event list \<Rightarrow> auto_input" where
  "auto_run s [] = s"
| "auto_run s (e # es) =
     (case e of ASet_Suggestions ts \<Rightarrow> if ac_open s then auto_run s es else auto_run (auto_step s e) es
      | _ \<Rightarrow> auto_run (auto_step s e) es)"

definition auto_ok :: "auto_input \<Rightarrow> bool" where
  "auto_ok s \<longleftrightarrow> good_tags (ac_suggestions s) \<and> -1 \<le> ac_active s \<and>
     (ac_open s \<longrightarrow> ac_shown s = take 8 (auto_filteredOptions s) \<and> ac_shown s \<noteq> [] \<and> ac_active s < int (length (ac_shown s)))"

lemma take_min: "take (min (length xs) n) xs = take n xs"
  by (simp add: min_def)

lemma auto_ok_intros [intro]:
  "auto_ok s \<Longrightarrow> auto_ok (auto_hideDropdown s)"
  "auto_ok s \<Longrightarrow> auto_ok (auto_showDropdown (s\<lparr>ac_text := t\<rparr>))"
  "auto_ok s \<Longrightarrow> auto_ok (auto_showDropdown s)"
  "auto_ok s \<Longrightarrow> auto_ok (s\<lparr>ac_inputs := n\<rparr>)"
  "auto_ok s \<Longrightarrow> auto_ok (selectOption t s)"
  "auto_ok s \<Longrightarrow> \<not> ac_open s \<Longrightarrow> auto_ok (auto_setSuggestions ts s)"
  "auto_ok s \<Longrightarrow> auto_ok (select_filtered i s)"
  by (auto simp: auto_ok_def auto_hideDropdown_def auto_showDropdown_def auto_filteredOptions_def Let_def take_min
      selectOption_def auto_setSuggestions_def good_sorted_words select_filtered_def)

lemma auto_ok_active: "auto_ok s \<Longrightarrow> -1 \<le> i \<Longrightarrow> (ac_open s \<Longrightarrow> i < int (length (ac_shown s))) \<Longrightarrow> auto_ok (s\<lparr>ac_active := i\<rparr>)"
  by (auto simp: auto_ok_def auto_filteredOptions_def Let_def)

lemma auto_ok_key: "auto_ok s \<Longrightarrow> auto_ok (auto_keydown k s)"
proof -
  assume ok: "auto_ok s"
  then have "-1 \<le> ac_active s" "ac_open s \<Longrightarrow> 0 < int (length (ac_shown s)) \<and> ac_active s < int (length (ac_shown s))"
    by (auto simp: auto_ok_def)
  with ok show ?thesis
    by (cases k) (auto simp: auto_keydown_def Let_def intro!: auto_ok_active split: if_splits)
qed

lemma auto_ok_run: "auto_ok s \<Longrightarrow> auto_ok (auto_run s es)"
proof (induction es arbitrary: s)
  case (Cons e es)
  have "auto_ok (auto_step s e)" if "\<not> (\<exists>ts. e = ASet_Suggestions ts \<and> ac_open s)"
    using that Cons.prems by (cases e) (auto simp: auto_step_def auto_ok_key)
  with Cons show ?case by (auto split: auto_event.split)
qed simp

text \<open>In every run of the input with completions Enter takes the option that is highlighted on the page, and
  Tab that one or, with none highlighted, the first: a suggestion that contains the text typed. The page shows at
  most eight options, and the suggestions are words in order.\<close>

theorem completion_takes_the_highlighted_option:
  assumes "s = auto_run (auto_init v) es" "ac_open s"
  shows "length (ac_shown s) \<le> 8 \<and> good_tags (ac_suggestions s) \<and>
    (0 \<le> ac_active s \<longrightarrow> ac_text (auto_keydown Enter s) = ac_shown s ! nat (ac_active s)) \<and>
    (js_trim (ac_text s) \<noteq> [] \<longrightarrow>
       ac_text (auto_keydown Tab s) = ac_shown s ! (if 0 \<le> ac_active s then nat (ac_active s) else 0)) \<and>
    (\<forall>t \<in> set (ac_shown s). t \<in> set (ac_suggestions s) \<and> sublist (tag_word (ac_text s)) t)"
proof -
  have "auto_ok (auto_init v)" by (simp add: auto_ok_def auto_init_def good_tags_def)
  then have ok: "auto_ok s" using assms(1) auto_ok_run by simp
  then have g: "good_tags (ac_suggestions s)" and sh: "ac_shown s = take 8 (auto_filteredOptions s)" "ac_shown s \<noteq> []"
    and a: "ac_active s < int (length (ac_shown s))" using assms(2) by (auto simp: auto_ok_def)
  have sel: "ac_text (select_filtered i s) = ac_shown s ! i" if "i < length (ac_shown s)" for i
    using that by (simp add: sh(1) select_filtered_def Let_def selectOption_def auto_hideDropdown_def)
  have "ac_text (auto_keydown Enter s) = ac_shown s ! nat (ac_active s)" if "0 \<le> ac_active s"
    using that a assms(2) sel by (simp add: auto_keydown_def Let_def)
  moreover have "ac_text (auto_keydown Tab s) = ac_shown s ! (if 0 \<le> ac_active s then nat (ac_active s) else 0)"
    if "js_trim (ac_text s) \<noteq> []"
    using that a assms(2) sh(2) sel by (simp add: auto_keydown_def Let_def)
  moreover have "t \<in> set (ac_suggestions s) \<and> sublist (tag_word (ac_text s)) t" if "t \<in> set (ac_shown s)" for t
    using that by (auto simp: sh(1) auto_filteredOptions_def Let_def dest!: in_set_takeD)
  moreover have "length (ac_shown s) \<le> 8" by (simp add: sh(1))
  ultimately show ?thesis using g by blast
qed

definition demo_auto :: auto_input where
  "demo_auto = auto_run (auto_init []) [ASet_Suggestions [''Salt'', ''olive oil'', ''oil''], ATyped ''oi'', AKey ArrowDown]"

theorem completion_takes_the_highlighted_option_witness:
  "ac_text (auto_keydown Enter demo_auto) = ''oil''"
proof -
  have d: "demo_auto = \<lparr>ac_text = ''oi'', ac_suggestions = [''oil'', ''olive oil'', ''salt''], ac_active = 0, ac_open = True,
      ac_shown = [''oil'', ''olive oil''], ac_inputs = 1\<rparr>" by code_simp
  show ?thesis
    using completion_takes_the_highlighted_option [OF demo_auto_def] by (simp add: d)
qed

end
