(* ===== verification/Recipe_View.thy ===== *)
theory Recipe_View
  imports Recipe_Refs Tag_Input
begin

text \<open>
  The page of one recipe, first part: what the handlers of \<open>src/views/recipe-detail.ts\<close> and
  \<open>src/views/detail/ingredients.ts\<close> do to the recipe's document (ingredients edited, renamed with their references,
  reordered, added by the empty row; the form of title, tags, servings and times), and the state of the scale bar
  (\<open>src/views/detail/state.ts\<close>): servings, factor, unit system, units chosen for single ingredients, check marks.

  A handler is given what it reads from the page: the value of an input, the position of its row, the rows'
  middle heights for a drag. An index that is missing on the page is -1.
\<close>

section \<open>Ingredients\<close>

datatype ing_field = Quantity_Field | Unit_Field | Item_Field

definition on_ingredients :: "(ingredient list \<Rightarrow> ingredient list) \<Rightarrow> recipe \<Rightarrow> recipe" where
  "on_ingredients f doc = doc\<lparr>rc_ingredients := f (rc_ingredients doc)\<rparr>"

text \<open>\<open>idx >= 0 && idx < doc.ingredients.length\<close>\<close>

definition on_row :: "int \<Rightarrow> (ingredient \<Rightarrow> ingredient) \<Rightarrow> recipe \<Rightarrow> recipe" where
  "on_row idx f = on_ingredients (\<lambda>ings. if 0 \<le> idx \<and> nat idx < length ings then ings[nat idx := f (ings ! nat idx)] else ings)"

definition delete_ingredient :: "int \<Rightarrow> recipe \<Rightarrow> recipe" where
  "delete_ingredient idx =
     on_ingredients (\<lambda>ings. if 0 \<le> idx \<and> nat idx < length ings then take (nat idx) ings @ drop (Suc (nat idx)) ings else ings)"

fun set_field :: "ing_field \<Rightarrow> string \<Rightarrow> ingredient \<Rightarrow> ingredient" where
  "set_field Quantity_Field v ing = ing\<lparr>ing_quantity := v\<rparr>"
| "set_field Unit_Field v ing = ing\<lparr>ing_unit := v\<rparr>"
| "set_field Item_Field v ing = ing\<lparr>ing_item := v\<rparr>"

subsection \<open>Renaming the references of an ingredient\<close>

text \<open>The pattern \<^verbatim>\<open>/@\[oldName\]/gi\<close> with the name taken literally: the match and the text after it\<close>

definition match_named :: "string \<Rightarrow> string \<Rightarrow> (string \<times> string) option" where
  "match_named old s =
     (let n = length old
      in if prefix ''@['' s \<and> js_lower (take n (drop 2 s)) = js_lower old \<and> prefix '']'' (drop (n + 2) s)
         then Some (take (n + 3) s, drop (n + 3) s) else None)"

text \<open>What \<open>String.replace\<close> makes of the replacement text: a dollar sign stands for the match and its surroundings.\<close>

fun expand :: "string \<Rightarrow> string \<Rightarrow> string \<Rightarrow> string \<Rightarrow> string" where
  "expand pre m post [] = []"
| "expand pre m post [c] = [c]"
| "expand pre m post (c # d # t) =
     (if c = CHR ''$'' \<and> d = CHR ''$'' then CHR ''$'' # expand pre m post t
      else if c = CHR ''$'' \<and> d = CHR ''&'' then m @ expand pre m post t
      else if c = CHR ''$'' \<and> d = CHR 0x60 then pre @ expand pre m post t
      else if c = CHR ''$'' \<and> d = CHR 0x27 then post @ expand pre m post t
      else c # expand pre m post (d # t))"

function replace_named :: "string \<Rightarrow> string \<Rightarrow> string \<Rightarrow> string \<Rightarrow> string" where
  "replace_named old new pre s =
     (case s of
        [] \<Rightarrow> []
      | c # cs \<Rightarrow>
          (case match_named old s of
             Some (m, r) \<Rightarrow> if length r < length s then expand pre m r new @ replace_named old new (pre @ m) r
                            else c # replace_named old new (pre @ [c]) cs
           | None \<Rightarrow> c # replace_named old new (pre @ [c]) cs))"
  by pat_completeness auto
termination by (relation "measure (\<lambda>(old, new, pre, s). length s)") auto

declare replace_named.simps [simp del]

definition rename_refs :: "string \<Rightarrow> string \<Rightarrow> string \<Rightarrow> string" where
  "rename_refs old new t = replace_named old (''@['' @ new @ '']'') [] t"

subsection \<open>Input, check boxes, the loss of the focus\<close>

text \<open>What is left in the input of a quantity; the value that is stored was read before.\<close>

definition clamp_quantity :: "string \<Rightarrow> string" where
  "clamp_quantity v = filter (\<lambda>c. c \<noteq> CHR ''-'') v"

text \<open>\<open>None\<close> when nothing is written and nothing pushed\<close>

definition input_ingredient :: "ing_field \<Rightarrow> string \<Rightarrow> int \<Rightarrow> bool \<Rightarrow> recipe \<Rightarrow> recipe option" where
  "input_ingredient field value idx ghost doc =
     (if ghost \<or> idx < 0 then None
      else let ings = rc_ingredients doc;
               oldName = (if nat idx < length ings then ing_item (ings ! nat idx) else []);
               doc1 = on_row idx (set_field field value) doc
           in if field = Item_Field \<and> oldName \<noteq> [] \<and> value \<noteq> [] \<and> js_lower oldName \<noteq> js_lower value
              then Some (doc1\<lparr>rc_instructions := rename_refs oldName value (rc_instructions doc1),
                              rc_notes := rename_refs oldName value (rc_notes doc1)\<rparr>)
              else Some doc1)"

definition optional_ingredient :: "bool \<Rightarrow> int \<Rightarrow> bool \<Rightarrow> recipe \<Rightarrow> recipe option" where
  "optional_ingredient checked idx ghost doc =
     (if ghost \<or> idx < 0 then None else Some (on_row idx (\<lambda>ing. ing\<lparr>ing_optional := checked\<rparr>) doc))"

text \<open>The unit of a row when its input loses the focus: the value shown and the change\<close>

definition blur_unit :: "string \<Rightarrow> int \<Rightarrow> bool \<Rightarrow> recipe \<Rightarrow> string \<times> recipe option" where
  "blur_unit value idx ghost doc =
     (if js_trim value = [] then (value, None)
      else case canonicalUnitName value of
        None \<Rightarrow> (value, None)
      | Some canonical \<Rightarrow>
          if canonical = [] \<or> canonical = js_trim value then (value, None)
          else (canonical, if ghost \<or> idx < 0 then None else Some (on_row idx (\<lambda>ing. ing\<lparr>ing_unit := canonical\<rparr>) doc)))"

definition commitGhostRow :: "string \<Rightarrow> string \<Rightarrow> bool \<Rightarrow> string \<Rightarrow> recipe \<Rightarrow> recipe option" where
  "commitGhostRow qty unitText optional itemText doc =
     (let item = js_trim itemText
      in if item = [] then None
         else let u = (case canonicalUnitName unitText of Some c \<Rightarrow> c | None \<Rightarrow> js_trim unitText)
              in Some (on_ingredients (\<lambda>ings. ings @ [\<lparr>ing_quantity = js_trim qty, ing_unit = u, ing_item = item,
                        ing_optional = optional\<rparr>]) doc))"

subsection \<open>Dragging a row\<close>

text \<open>The rows with their middle heights, from the top; the position before which the dragged row would go\<close>

fun drop_before :: "nat \<Rightarrow> int \<Rightarrow> (nat \<times> int) list \<Rightarrow> nat option" where
  "drop_before dragIdx y [] = None"
| "drop_before dragIdx y ((idx, midY) # items) =
     (if idx \<noteq> dragIdx \<and> y < midY then Some idx else drop_before dragIdx y items)"

definition drop_position :: "nat \<Rightarrow> int \<Rightarrow> (nat \<times> int) list \<Rightarrow> nat option" where
  "drop_position dragIdx y items =
     (case drop_before dragIdx y items of
        Some idx \<Rightarrow> Some idx
      | None \<Rightarrow> if items = [] then None else Some (fst (last items) + 1))"

definition move_ingredient :: "nat \<Rightarrow> nat \<Rightarrow> recipe \<Rightarrow> recipe" where
  "move_ingredient src dst =
     on_ingredients (\<lambda>ings.
       if length ings \<le> src then ings
       else let s = ings ! src;
                copy = \<lparr>ing_quantity = ing_quantity s, ing_unit = ing_unit s, ing_item = ing_item s, ing_optional = False\<rparr>;
                rest = take src ings @ drop (Suc src) ings
            in take dst rest @ [copy] @ drop dst rest)"

definition drop_ingredient :: "nat \<Rightarrow> nat option \<Rightarrow> recipe \<Rightarrow> recipe option" where
  "drop_ingredient src dropIdx doc =
     (case dropIdx of
        None \<Rightarrow> None
      | Some d \<Rightarrow>
          let dst = (if src < d then d - 1 else d)
          in if dst = src then None else Some (move_ingredient src dst doc))"

section \<open>The form\<close>

definition falsy_or :: "int option \<Rightarrow> int \<Rightarrow> int" where
  "falsy_or x d = (case x of None \<Rightarrow> d | Some n \<Rightarrow> if n = 0 then d else n)"

record meta_form =
  mf_title :: string
  mf_tags :: "string list"
  mf_servings :: string
  mf_prep :: string
  mf_cook :: string

definition fill_form :: "recipe \<Rightarrow> meta_form" where
  "fill_form doc =
     \<lparr>mf_title = rc_title doc, mf_tags = sorted_words (rc_tags doc),
      mf_servings = int_to_string (falsy_or (rc_servings doc) 4),
      mf_prep = int_to_string (falsy_or (rc_prepMinutes doc) 0),
      mf_cook = int_to_string (falsy_or (rc_cookMinutes doc) 0)\<rparr>"

definition form_title :: "meta_form \<Rightarrow> recipe \<Rightarrow> string" where
  "form_title f doc = (let t = js_trim (mf_title f) in if t = [] then rc_title doc else t)"

text \<open>The change that \<open>flushMeta\<close> makes\<close>

definition form_change :: "meta_form \<Rightarrow> int \<Rightarrow> recipe \<Rightarrow> recipe" where
  "form_change f now doc =
     doc\<lparr>rc_title := form_title f doc, rc_tags := mf_tags f,
         rc_servings := Some (falsy_or (parseInt (mf_servings f)) 4),
         rc_prepMinutes := Some (falsy_or (parseInt (mf_prep f)) 0),
         rc_cookMinutes := Some (falsy_or (parseInt (mf_cook f)) 0),
         rc_updatedAt := now\<rparr>"

section \<open>Facts about the edits\<close>

text \<open>Opening the form of a recipe and closing it unchanged writes back the same title, tags, servings and
  times, with the defaults for what is missing, and only the date of the last change moves, provided the title
  has no white space around it and the tags are as the tag input keeps them.\<close>

theorem form_roundtrip:
  assumes "trimmed (rc_title doc)" "good_tags (rc_tags doc)"
  shows "form_change (fill_form doc) now doc =
    doc\<lparr>rc_servings := Some (falsy_or (rc_servings doc) 4), rc_prepMinutes := Some (falsy_or (rc_prepMinutes doc) 0),
        rc_cookMinutes := Some (falsy_or (rc_cookMinutes doc) 0), rc_updatedAt := now\<rparr>"
proof -
  have "falsy_or (Some (falsy_or x d)) d = falsy_or x d" for x d by (simp add: falsy_or_def split: option.split)
  moreover have "form_title (fill_form doc) doc = rc_title doc"
    using assms(1) by (simp add: form_title_def fill_form_def trim_id Let_def)
  ultimately show ?thesis
    by (simp add: form_change_def) (simp add: fill_form_def parseInt_int sorted_words_good [OF assms(2)])
qed

definition demo_view_recipe :: recipe where
  "demo_view_recipe = \<lparr>rc_title = ''Soup'', rc_tags = [''quick''], rc_servings = Some 2, rc_prepMinutes = None, rc_cookMinutes = Some 20,
     rc_createdAt = 1, rc_updatedAt = 1, rc_description = [],
     rc_ingredients = [\<lparr>ing_quantity = ''1'', ing_unit = ''tsp'', ing_item = ''salt'', ing_optional = True\<rparr>,
                       \<lparr>ing_quantity = ''2'', ing_unit = [], ing_item = ''pepper'', ing_optional = False\<rparr>],
     rc_instructions = ''Add @[Salt], then @[pepper].'', rc_imageUrls = [], rc_notes = []\<rparr>"

theorem form_roundtrip_witness:
  "form_change (fill_form demo_view_recipe) 7 demo_view_recipe = demo_view_recipe\<lparr>rc_prepMinutes := Some 0, rc_updatedAt := 7\<rparr>"
proof -
  have "trimmed (rc_title demo_view_recipe)" "good_tags (rc_tags demo_view_recipe)" by code_simp+
  from form_roundtrip [OF this, of 7] show ?thesis by (simp add: demo_view_recipe_def falsy_or_def)
qed

subsection \<open>Dragging\<close>

text \<open>A row dropped before another one, or at the end, is taken out of its place and put right before that row,
  every other ingredient stays as it was and in its order - but the dragged ingredient is written anew without its
  mark as optional.\<close>

theorem dragged_ingredient:
  assumes "src < length ings" "d \<le> length ings" "drop_ingredient src (Some d) doc = Some doc'" "rc_ingredients doc = ings"
  shows "rc_ingredients doc' =
    (if src < d then take src ings @ drop (Suc src) (take d ings) else take d ings)
    @ [(ings ! src)\<lparr>ing_optional := False\<rparr>]
    @ (if src < d then drop d ings else drop d (take src ings) @ drop (Suc src) ings)"
proof -
  let ?rest = "take src ings @ drop (Suc src) ings"
  let ?dst = "if src < d then d - 1 else d"
  have c: "\<lparr>ing_quantity = ing_quantity s, ing_unit = ing_unit s, ing_item = ing_item s, ing_optional = False\<rparr> = s\<lparr>ing_optional := False\<rparr>"
    for s :: ingredient by (cases s) simp
  have "rc_ingredients doc' = take ?dst ?rest @ [(ings ! src)\<lparr>ing_optional := False\<rparr>] @ drop ?dst ?rest"
    using assms by (auto simp: drop_ingredient_def Let_def move_ingredient_def on_ingredients_def c split: if_splits)
  moreover have "take ?dst ?rest = (if src < d then take src ings @ drop (Suc src) (take d ings) else take d ings)"
  proof (cases "src < d")
    case True
    then have "src \<le> d - 1" by simp
    with True assms(2) show ?thesis by (simp add: take_drop min_def)
  qed (use assms(1,2) in simp)
  moreover have "drop ?dst ?rest = (if src < d then drop d ings else drop d (take src ings) @ drop (Suc src) ings)"
    using assms(1,2) by auto
  ultimately show ?thesis by simp
qed

theorem dragged_ingredient_witness:
  "drop_ingredient 0 (Some 2) demo_view_recipe = Some (demo_view_recipe\<lparr>rc_ingredients :=
     [\<lparr>ing_quantity = ''2'', ing_unit = [], ing_item = ''pepper'', ing_optional = False\<rparr>,
      \<lparr>ing_quantity = ''1'', ing_unit = ''tsp'', ing_item = ''salt'', ing_optional = False\<rparr>]\<rparr>)"
proof -
  let ?d = "move_ingredient 0 1 demo_view_recipe"
  have "drop_ingredient 0 (Some 2) demo_view_recipe = Some ?d" by (simp add: drop_ingredient_def)
  moreover have "?d = demo_view_recipe\<lparr>rc_ingredients := rc_ingredients ?d\<rparr>"
    by (simp add: move_ingredient_def on_ingredients_def)
  ultimately show ?thesis
    using dragged_ingredient [of 0 "rc_ingredients demo_view_recipe" 2 demo_view_recipe ?d]
    by (simp add: demo_view_recipe_def)
qed

text \<open>The drop position over rows in their order\<close>

lemma drop_before_Some: "drop_before i y items = Some d \<Longrightarrow> d \<in> fst ` set items \<and> d \<noteq> i"
  by (induction items) (auto split: if_splits)

lemma drop_position_le:
  assumes "drop_position i y (zip [0..<n] mids) = Some d" "length mids = n"
  shows "d \<le> n"
proof (cases "drop_before i y (zip [0..<n] mids)")
  case None
  with assms have "d = fst (last (zip [0..<n] mids)) + 1" "n \<noteq> 0" by (auto simp: drop_position_def split: if_splits)
  moreover from this have "fst (last (zip [0..<n] mids)) = n - 1"
    using assms(2) last_conv_nth [of "zip [0..<n] mids"] by (cases "zip [0..<n] mids = []") auto
  ultimately show ?thesis by simp
next
  case (Some e)
  with assms drop_before_Some [OF Some] show ?thesis by (auto simp: drop_position_def dest!: set_zip_leftD)
qed

subsection \<open>References\<close>

text \<open>The names of the references of a text\<close>

function ref_names :: "string \<Rightarrow> string list" where
  "ref_names s =
     (case s of
        [] \<Rightarrow> []
      | c # cs \<Rightarrow>
          (case match_ing s of
             Some (n, r) \<Rightarrow> if length r < length s then n # ref_names r else ref_names cs
           | None \<Rightarrow> ref_names cs))"
  by pat_completeness auto
termination by (relation "measure length") auto

declare ref_names.simps [simp del]

lemma match_ing_Some: "match_ing s = Some (n, r) \<longleftrightarrow> good_name n \<and> s = ''@['' @ n @ '']'' @ r"
  by (auto simp: match_ing_def upto_Some good_name_def prefix_def)

lemma ref_names_simps:
  "ref_names [] = []"
  "match_ing (c # cs) = None \<Longrightarrow> ref_names (c # cs) = ref_names cs"
  "good_name n \<Longrightarrow> ref_names (''@['' @ n @ '']'' @ r) = n # ref_names r"
proof -
  show "ref_names [] = []" by (simp add: ref_names.simps)
  show "match_ing (c # cs) = None \<Longrightarrow> ref_names (c # cs) = ref_names cs" by (simp add: ref_names.simps [of "c # cs"])
  assume "good_name n"
  then have "match_ing (''@['' @ n @ '']'' @ r) = Some (n, r)" by (simp add: match_ing_Some)
  then show "ref_names (''@['' @ n @ '']'' @ r) = n # ref_names r" by (subst ref_names.simps) simp
qed

lemma expand_plain: "CHR ''$'' \<notin> set t \<Longrightarrow> expand pre m post t = t"
  by (induction pre m post t rule: expand.induct) auto

lemma lower_bracket: "js_lower_char c = CHR '']'' \<longleftrightarrow> c = CHR '']''"
proof
  assume a: "js_lower_char c = CHR '']''"
  have "of_char (char_of (of_char c + 32 :: nat) :: char) = (of_char c + 32 :: nat)" if "(of_char c :: nat) \<le> 222"
    using that by (simp add: of_char_of)
  with arg_cong [OF a, of "of_char :: char \<Rightarrow> nat"] have "of_char c = (93 :: nat)"
    by (auto simp: js_lower_char_def Let_def split: if_splits)
  then have "c = char_of (93 :: nat)" by (metis char_of_char)
  also have "\<dots> = CHR '']''" by code_simp
  finally show "c = CHR '']''" .
qed (simp add: js_lower_char_def)

lemma lower_good: "js_lower a = js_lower b \<Longrightarrow> good_name b \<Longrightarrow> good_name a"
  by (auto simp: good_name_def js_lower_def) (metis (no_types, lifting) image_eqI image_iff list.set_map lower_bracket)

lemma match_named_Some:
  assumes "good_name old"
  shows "match_named old s = Some (m, r) \<longleftrightarrow> (\<exists>n. match_ing s = Some (n, r) \<and> js_lower n = js_lower old \<and> m = ''@['' @ n @ '']'')"
proof
  assume a: "match_named old s = Some (m, r)"
  let ?n = "take (length old) (drop 2 s)"
  have p: "prefix ''@['' s" "js_lower ?n = js_lower old" "prefix '']'' (drop (length old + 2) s)"
    "m = take (length old + 3) s" "r = drop (length old + 3) s"
    using a by (auto simp: match_named_def Let_def split: if_splits)
  have len: "length ?n = length old" using arg_cong [OF p(2), of length] by (simp add: js_lower_def)
  obtain q where q: "drop (length old + 2) s = '']'' @ q" using p(3) by (auto simp: prefix_def)
  have "r = tl (drop (length old + 2) s)" by (simp add: p(5) drop_Suc tl_drop numeral_3_eq_3)
  then have "r = q" using q by simp
  with q have "drop (length old) (drop 2 s) = '']'' @ r" by (simp add: add.commute)
  then have "drop 2 s = ?n @ '']'' @ r" by (metis append_take_drop_id)
  moreover have "s = ''@['' @ drop 2 s" using p(1) by (auto simp: prefix_def)
  ultimately have s: "s = ''@['' @ ?n @ '']'' @ r" by simp
  have "length (''@['' @ ?n @ '']'') = length old + 3" using len by simp
  moreover have "s = (''@['' @ ?n @ '']'') @ r" using s by simp
  ultimately have "m = ''@['' @ ?n @ '']''" unfolding p(4) by (metis append_eq_conv_conj)
  with s p(2) lower_good [OF p(2) assms]
  show "\<exists>n. match_ing s = Some (n, r) \<and> js_lower n = js_lower old \<and> m = ''@['' @ n @ '']''"
    by (intro exI [of _ ?n]) (simp only: match_ing_Some simp_thms)
next
  assume "\<exists>n. match_ing s = Some (n, r) \<and> js_lower n = js_lower old \<and> m = ''@['' @ n @ '']''"
  then obtain n where n: "s = ''@['' @ n @ '']'' @ r" "js_lower n = js_lower old" "m = ''@['' @ n @ '']''"
    by (auto simp: match_ing_Some)
  have len: "length old = length n" using arg_cong [OF n(2), of length] by (simp add: js_lower_def)
  have e: "js_lower [] = []" by (simp add: js_lower_def)
  show "match_named old s = Some (m, r)"
    unfolding match_named_def Let_def len n(1,3) by (simp add: n(2) e numeral_3_eq_3)
qed

text \<open>Names without the at sign: no reference begins inside of another one.\<close>

definition plain_refs :: "string \<Rightarrow> bool" where
  "plain_refs s \<longleftrightarrow> (\<forall>n \<in> set (ref_names s). CHR ''@'' \<notin> set n)"

definition renamed :: "string \<Rightarrow> string \<Rightarrow> string \<Rightarrow> string" where
  "renamed old new n = (if js_lower n = js_lower old then new else n)"

lemma replace_named_simps:
  assumes "good_name old" "CHR ''$'' \<notin> set new"
  defines "R \<equiv> replace_named old (''@['' @ new @ '']'')"
  shows "R pre [] = []"
    and "match_ing (c # cs) = None \<Longrightarrow> R pre (c # cs) = c # R (pre @ [c]) cs"
    and "good_name n \<Longrightarrow> CHR ''@'' \<notin> set n \<Longrightarrow>
      R pre (''@['' @ n @ '']'' @ r) = ''@['' @ renamed old new n @ '']'' @ R (pre @ ''@['' @ n @ '']'') r"
proof -
  show "R pre [] = []" by (simp add: R_def replace_named.simps)
  have none: "match_ing s = None \<Longrightarrow> match_named old s = None" for s
    using match_named_Some [OF assms(1), of s] by (cases "match_named old s") auto
  show n: "match_ing (c # cs) = None \<Longrightarrow> R pre (c # cs) = c # R (pre @ [c]) cs" for c cs pre
    by (simp add: R_def replace_named.simps [of _ _ _ "c # cs"] none)
  have skip: "CHR ''@'' \<notin> set w \<Longrightarrow> R pre (w @ r) = w @ R (pre @ w) r" for w pre r
  proof (induction w arbitrary: pre)
    case (Cons c w)
    then have "match_ing (c # w @ r) = None" by (simp add: match_ing_def)
    with Cons show ?case by (simp add: n)
  qed simp
  assume g: "good_name n" "CHR ''@'' \<notin> set n"
  let ?s = "''@['' @ n @ '']'' @ r"
  have m: "match_ing ?s = Some (n, r)" using g(1) by (simp add: match_ing_Some)
  show "R pre ?s = ''@['' @ renamed old new n @ '']'' @ R (pre @ ''@['' @ n @ '']'') r"
  proof (cases "js_lower n = js_lower old")
    case True
    then have "match_named old ?s = Some (''@['' @ n @ '']'', r)" using match_named_Some [OF assms(1)] m by blast
    moreover have "CHR ''$'' \<notin> set (''@['' @ new @ '']'')" using assms(2) by simp
    ultimately show ?thesis
      using True unfolding R_def by (subst replace_named.simps) (simp add: expand_plain renamed_def)
  next
    case False
    then have "match_named old ?s = None"
      using match_named_Some [OF assms(1), of ?s] m by (cases "match_named old ?s") auto
    then have "R pre ?s = CHR ''@'' # R (pre @ ''@'') (''['' @ n @ '']'' @ r)"
      unfolding R_def by (subst replace_named.simps) simp
    also have "R (pre @ ''@'') (''['' @ n @ '']'' @ r) = ''['' @ n @ '']'' @ R (pre @ ''@['' @ n @ '']'') r"
      using skip [of "''['' @ n @ '']''" "pre @ ''@''" r] g(2) by simp
    finally show ?thesis using False by (simp add: renamed_def)
  qed
qed

lemma no_ref_before:
  assumes "match_ing (u @ ''@['' @ n @ '']'' @ r) = None" "u \<noteq> []"
  shows "match_ing (u @ ''@['' @ n' @ '']'' @ r') = None"
proof (rule ccontr)
  assume "match_ing (u @ ''@['' @ n' @ '']'' @ r') \<noteq> None"
  then obtain a q where a: "good_name a" and e: "u @ ''@['' @ n' @ '']'' @ r' = ''@['' @ a @ '']'' @ q"
    by (auto simp: match_ing_Some)
  obtain w where u: "u = ''@['' @ w"
  proof -
    from e have "u = ''@'' \<or> (\<exists>w. u = ''@['' @ w)" using assms(2) by (cases u; cases "tl u") auto
    moreover have "u \<noteq> ''@''" using e by auto
    ultimately show thesis using that by blast
  qed
  then have wa: "w @ ''@['' @ n' @ '']'' @ r' = a @ '']'' @ q" using e by simp
  have "hd (a @ '']'' @ q) \<noteq> CHR '']''" using a by (cases a) (auto simp: good_name_def)
  then have "hd (w @ ''@['' @ n' @ '']'' @ r') \<noteq> CHR '']''" by (simp only: wa simp_thms)
  then have "hd (w @ ''@['' @ n @ '']'' @ r) \<noteq> CHR '']''" by (cases w) simp_all
  from upto_exists [OF _ this] obtain b q' where "upto (CHR '']'') (w @ ''@['' @ n @ '']'' @ r) = Some (b, q')" by auto
  with assms(1) show False by (simp add: match_ing_def u)
qed

lemma no_new_ref:
  assumes "good_name old" "CHR ''$'' \<notin> set new" "plain_refs s" "match_ing (u @ s) = None" "u \<noteq> []"
  shows "match_ing (u @ replace_named old (''@['' @ new @ '']'') pre s) = None"
  using assms(3-5)
proof (induction s arbitrary: u pre)
  case Nil
  then show ?case unfolding replace_named_simps(1) [OF assms(1,2)] by simp
next
  case (Cons c cs)
  show ?case
  proof (cases "match_ing (c # cs)")
    case None
    with Cons.prems have "plain_refs cs" by (simp add: plain_refs_def ref_names_simps)
    with Cons.IH [of "u @ [c]" "pre @ [c]"] Cons.prems show ?thesis
      unfolding replace_named_simps(2) [OF assms(1,2) None] by simp
  next
    case (Some p)
    then obtain n r where g: "good_name n" "c # cs = ''@['' @ n @ '']'' @ r" by (cases p) (auto simp: match_ing_Some)
    then have "CHR ''@'' \<notin> set n" using Cons.prems(1) ref_names_simps(3) [OF g(1), of r] by (simp add: plain_refs_def)
    note replace_named_simps(3) [OF assms(1,2) g(1) this, of pre r]
    with no_ref_before [of u n r] Cons.prems(2,3) show ?thesis unfolding g(2) by simp
  qed
qed

lemma renamed_refs:
  assumes "good_name old" "good_name new" "CHR ''$'' \<notin> set new" "plain_refs s"
  shows "ref_names (replace_named old (''@['' @ new @ '']'') pre s) = map (renamed old new) (ref_names s)"
  using assms(4)
proof (induction s arbitrary: pre rule: measure_induct_rule [of length])
  case (less s)
  show ?case
  proof (cases s)
    case Nil
    then show ?thesis unfolding Nil replace_named_simps(1) [OF assms(1,3)] by (simp add: ref_names_simps)
  next
    case (Cons c cs)
    show ?thesis
    proof (cases "match_ing (c # cs)")
      case None
      then have p: "plain_refs cs" using less.prems Cons by (simp add: plain_refs_def ref_names_simps)
      have "match_ing (c # replace_named old (''@['' @ new @ '']'') (pre @ [c]) cs) = None"
        using no_new_ref [OF assms(1,3) p, of "[c]" "pre @ [c]"] None by simp
      with less.IH [of cs] p None Cons show ?thesis
        unfolding Cons replace_named_simps(2) [OF assms(1,3) None] by (simp add: ref_names_simps)
    next
      case (Some q)
      then obtain n r where g: "good_name n" "s = ''@['' @ n @ '']'' @ r"
        using Cons by (cases q) (auto simp: match_ing_Some)
      have rn: "ref_names s = n # ref_names r" unfolding g(2) by (rule ref_names_simps(3) [OF g(1)])
      then have p: "CHR ''@'' \<notin> set n" "plain_refs r" using less.prems by (simp_all add: plain_refs_def)
      have "good_name (renamed old new n)" using g(1) assms(2) by (simp add: renamed_def)
      note new = ref_names_simps(3) [OF this]
      have "ref_names (replace_named old (''@['' @ new @ '']'') (pre @ ''@['' @ n @ '']'') r) = map (renamed old new) (ref_names r)"
        using less.IH [of r] p(2) g(2) by simp
      moreover have "replace_named old (''@['' @ new @ '']'') pre s = ''@['' @ renamed old new n @ '']''
          @ replace_named old (''@['' @ new @ '']'') (pre @ ''@['' @ n @ '']'') r"
        using replace_named_simps(3) [OF assms(1,3) g(1) p(1), of pre r] unfolding g(2) .
      ultimately show ?thesis unfolding rn by (simp only: new list.map)
    qed
  qed
qed

text \<open>A text as the characters and the references it is made of, and back\<close>

function ref_pieces :: "string \<Rightarrow> (char + string) list" where
  "ref_pieces s =
     (case s of
        [] \<Rightarrow> []
      | c # cs \<Rightarrow>
          (case match_ing s of
             Some (n, r) \<Rightarrow> if length r < length s then Inr n # ref_pieces r else Inl c # ref_pieces cs
           | None \<Rightarrow> Inl c # ref_pieces cs))"
  by pat_completeness auto
termination by (relation "measure length") auto

declare ref_pieces.simps [simp del]

definition piece_text :: "char + string \<Rightarrow> string" where
  "piece_text p = (case p of Inl c \<Rightarrow> [c] | Inr n \<Rightarrow> ''@['' @ n @ '']'')"

definition pieces_text :: "(char + string) list \<Rightarrow> string" where
  "pieces_text ps = concat (map piece_text ps)"

lemma ref_pieces_simps:
  "ref_pieces [] = []"
  "match_ing (c # cs) = None \<Longrightarrow> ref_pieces (c # cs) = Inl c # ref_pieces cs"
  "good_name n \<Longrightarrow> ref_pieces (''@['' @ n @ '']'' @ r) = Inr n # ref_pieces r"
proof -
  show "ref_pieces [] = []" by (simp add: ref_pieces.simps)
  show "match_ing (c # cs) = None \<Longrightarrow> ref_pieces (c # cs) = Inl c # ref_pieces cs" by (simp add: ref_pieces.simps [of "c # cs"])
  assume "good_name n"
  then have "match_ing (''@['' @ n @ '']'' @ r) = Some (n, r)" by (simp add: match_ing_Some)
  then show "ref_pieces (''@['' @ n @ '']'' @ r) = Inr n # ref_pieces r" by (subst ref_pieces.simps) simp
qed

text \<open>Induction along the references of a text\<close>

lemma ref_induct [case_names Nil Char Ref]:
  assumes "P []" "\<And>c cs. match_ing (c # cs) = None \<Longrightarrow> P cs \<Longrightarrow> P (c # cs)"
    and "\<And>n r. good_name n \<Longrightarrow> P r \<Longrightarrow> P (''@['' @ n @ '']'' @ r)"
  shows "P s"
proof (induction s rule: measure_induct_rule [of length])
  case (less s)
  show ?case
  proof (cases s)
    case (Cons c cs)
    show ?thesis
    proof (cases "match_ing (c # cs)")
      case None
      then show ?thesis using assms(2) less.IH [of cs] Cons by simp
    next
      case (Some q)
      then obtain n r where g: "good_name n" "s = ''@['' @ n @ '']'' @ r" using Cons by (cases q) (auto simp: match_ing_Some)
      then show ?thesis using assms(3) [OF g(1)] less.IH [of r] by simp
    qed
  qed (simp add: assms(1))
qed

lemma pieces_text_Cons: "pieces_text [] = []" "pieces_text (Inl c # ps) = c # pieces_text ps"
  "pieces_text (Inr n # ps) = ''@['' @ n @ '']'' @ pieces_text ps"
  by (simp_all add: pieces_text_def piece_text_def)


definition renamed_text :: "string \<Rightarrow> string \<Rightarrow> string \<Rightarrow> string" where
  "renamed_text old new s = pieces_text (map (map_sum id (renamed old new)) (ref_pieces s))"

lemma replace_named_pieces:
  assumes "good_name old" "CHR ''$'' \<notin> set new" "plain_refs s"
  shows "replace_named old (''@['' @ new @ '']'') pre s = renamed_text old new s"
  using assms(3)
proof (induction s arbitrary: pre rule: ref_induct)
  case Nil
  show ?case unfolding replace_named_simps(1) [OF assms(1,2)] renamed_text_def by (simp add: ref_pieces_simps pieces_text_Cons)
next
  case (Char c cs)
  then have "plain_refs cs" by (simp add: plain_refs_def ref_names_simps)
  with Char show ?case
    unfolding replace_named_simps(2) [OF assms(1,2) Char.hyps] by (simp add: renamed_text_def ref_pieces_simps pieces_text_Cons)
next
  case (Ref n r)
  have p: "CHR ''@'' \<notin> set n" "plain_refs r"
    using Ref.prems unfolding plain_refs_def ref_names_simps(3) [OF Ref.hyps] by simp_all
  show ?case
    unfolding replace_named_simps(3) [OF assms(1,2) Ref.hyps p(1)] renamed_text_def ref_pieces_simps(3) [OF Ref.hyps] list.map
    by (simp only: map_sum.simps pieces_text_Cons Ref.IH [OF p(2)] renamed_text_def)
qed

lemma input_item:
  assumes "input_ingredient Item_Field new (int i) False doc = Some doc'" "i < length (rc_ingredients doc)"
    and "old = ing_item (rc_ingredients doc ! i)" "good_name old" "good_name new" "CHR ''$'' \<notin> set new"
    and "js_lower old \<noteq> js_lower new" "plain_refs (rc_instructions doc)" "plain_refs (rc_notes doc)"
  shows "doc' = doc\<lparr>rc_ingredients := (rc_ingredients doc)[i := (rc_ingredients doc ! i)\<lparr>ing_item := new\<rparr>],
      rc_instructions := renamed_text old new (rc_instructions doc), rc_notes := renamed_text old new (rc_notes doc)\<rparr>"
    and "ref_names (rc_instructions doc') = map (renamed old new) (ref_names (rc_instructions doc))"
    and "ref_names (rc_notes doc') = map (renamed old new) (ref_names (rc_notes doc))"
    and "map ing_item (rc_ingredients doc') = (map ing_item (rc_ingredients doc))[i := new]"
proof -
  have d: "doc' = (on_row (int i) (set_field Item_Field new) doc)\<lparr>rc_instructions := rename_refs old new (rc_instructions doc),
      rc_notes := rename_refs old new (rc_notes doc)\<rparr>"
    using assms(1-5,7) by (auto simp: input_ingredient_def good_name_def on_row_def on_ingredients_def Let_def)
  then show "doc' = doc\<lparr>rc_ingredients := (rc_ingredients doc)[i := (rc_ingredients doc ! i)\<lparr>ing_item := new\<rparr>],
      rc_instructions := renamed_text old new (rc_instructions doc), rc_notes := renamed_text old new (rc_notes doc)\<rparr>"
    using assms(2) replace_named_pieces [OF assms(4,6)] assms(8,9) by (simp add: rename_refs_def on_row_def on_ingredients_def)
  show "ref_names (rc_instructions doc') = map (renamed old new) (ref_names (rc_instructions doc))"
    "ref_names (rc_notes doc') = map (renamed old new) (ref_names (rc_notes doc))"
    "map ing_item (rc_ingredients doc') = (map ing_item (rc_ingredients doc))[i := new]"
    using d assms(2) renamed_refs [OF assms(4,5,6)] assms(8,9)
    by (simp_all add: rename_refs_def on_row_def on_ingredients_def map_update)
qed



text \<open>Every key press renames, so a name typed through the name of another ingredient takes that one's references
  along: once the text typed has been \<open>b\<close> on its way to \<open>c\<close>, no reference to the other ingredient \<open>b\<close> is left, and
  what referred to it refers to \<open>c\<close>.\<close>

theorem typing_through_a_name_captures_references:
  assumes "input_ingredient Item_Field b (int i) False doc = Some doc1" "input_ingredient Item_Field c (int i) False doc1 = Some doc2"
    and "i < length (rc_ingredients doc)" "j < length (rc_ingredients doc)" "j \<noteq> i"
    and "a = ing_item (rc_ingredients doc ! i)" "ing_item (rc_ingredients doc ! j) = b"
    and "good_name a" "good_name b" "good_name c" "CHR ''$'' \<notin> set b" "CHR ''$'' \<notin> set c" "CHR ''@'' \<notin> set b"
    and "js_lower a \<noteq> js_lower b" "js_lower b \<noteq> js_lower c" "plain_refs (rc_instructions doc)" "plain_refs (rc_notes doc)"
  shows "ing_item (rc_ingredients doc2 ! j) = b \<and>
    ref_names (rc_instructions doc2)
      = map (\<lambda>n. if js_lower n = js_lower a \<or> js_lower n = js_lower b then c else n) (ref_names (rc_instructions doc)) \<and>
    b \<notin> set (ref_names (rc_instructions doc2))"
proof -
  note 1 = input_item [OF assms(1,3,6,8,9,11,14,16,17)]
  have len: "length (rc_ingredients doc1) = length (rc_ingredients doc)"
    using arg_cong [OF 1(4), of length] by simp
  have "map ing_item (rc_ingredients doc1) ! i = b" using 1(4) assms(3) by simp
  then have b: "b = ing_item (rc_ingredients doc1 ! i)" using assms(3) len by simp
  have p: "plain_refs (rc_instructions doc1)" "plain_refs (rc_notes doc1)"
    using 1(2,3) assms(13,16,17) by (auto simp: plain_refs_def renamed_def)
  have "i < length (rc_ingredients doc1)" using assms(3) len by simp
  note 2 = input_item [OF assms(2) this b assms(9,10,12,15) p]
  have "map ing_item (rc_ingredients doc2) ! j = b" using 1(4) 2(4) assms(4,5,7) by simp
  moreover have "length (rc_ingredients doc2) = length (rc_ingredients doc)"
    using arg_cong [OF 2(4), of length] len by simp
  ultimately have "ing_item (rc_ingredients doc2 ! j) = b" using assms(4) by simp
  moreover have "ref_names (rc_instructions doc2)
      = map (\<lambda>n. if js_lower n = js_lower a \<or> js_lower n = js_lower b then c else n) (ref_names (rc_instructions doc))"
    using 1(2) 2(2) by (simp add: renamed_def)
  ultimately show ?thesis using assms(15) by auto
qed

theorem typing_through_a_name_captures_references_witness:
  "let doc1 = the (input_ingredient Item_Field ''pepper'' (int 0) False demo_view_recipe);
       doc2 = the (input_ingredient Item_Field ''pepper mix'' (int 0) False doc1)
   in ing_item (rc_ingredients doc2 ! 1) = ''pepper'' \<and> ref_names (rc_instructions doc2) = [''pepper mix'', ''pepper mix'']"
proof -
  let ?doc1 = "the (input_ingredient Item_Field ''pepper'' (int 0) False demo_view_recipe)"
  let ?doc2 = "the (input_ingredient Item_Field ''pepper mix'' (int 0) False ?doc1)"
  have d: "input_ingredient Item_Field ''pepper'' (int 0) False demo_view_recipe = Some ?doc1"
    "input_ingredient Item_Field ''pepper mix'' (int 0) False ?doc1 = Some ?doc2"
    by (rule option.collapse [symmetric], simp add: input_ingredient_def Let_def)+
  have i: "0 < length (rc_ingredients demo_view_recipe)" "1 < length (rc_ingredients demo_view_recipe)" "1 \<noteq> (0::nat)"
    "''salt'' = ing_item (rc_ingredients demo_view_recipe ! 0)" "ing_item (rc_ingredients demo_view_recipe ! 1) = ''pepper''"
    by (simp_all add: demo_view_recipe_def)
  have g: "good_name ''salt''" "good_name ''pepper''" "good_name ''pepper mix''" "CHR ''$'' \<notin> set ''pepper''"
    "CHR ''$'' \<notin> set ''pepper mix''" "CHR ''@'' \<notin> set ''pepper''" "js_lower ''salt'' \<noteq> js_lower ''pepper''"
    "js_lower ''pepper'' \<noteq> js_lower ''pepper mix''" by code_simp+
  have r: "ref_names (rc_instructions demo_view_recipe) = [''Salt'', ''pepper'']" "ref_names (rc_notes demo_view_recipe) = []"
    by code_simp+
  have p: "plain_refs (rc_instructions demo_view_recipe)" "plain_refs (rc_notes demo_view_recipe)"
    unfolding plain_refs_def r by simp_all
  have m: "map (\<lambda>n. if js_lower n = js_lower ''salt'' \<or> js_lower n = js_lower ''pepper'' then ''pepper mix'' else n) [''Salt'', ''pepper'']
      = [''pepper mix'', ''pepper mix'']" by code_simp
  from typing_through_a_name_captures_references [OF d i g p] show ?thesis unfolding r m Let_def by blast
qed

section \<open>Scaling\<close>

text \<open>\<open>unitSystem\<close> is \<open>None\<close> for the units as written.\<close>

record scaling =
  sc_base :: int
  sc_current :: num
  sc_factor :: num
  sc_system :: "unit_system option"
  sc_overrides :: "(nat \<times> string) list"
  sc_checked :: "nat list"

definition num_int :: "int \<Rightarrow> num" where
  "num_int i = fin (of_int i)"

definition base_servings :: "recipe \<Rightarrow> int" where
  "base_servings doc = falsy_or (rc_servings doc) 4"

text \<open>\<open>Math.max(1, x)\<close>\<close>

definition max_one :: "num \<Rightarrow> num" where
  "max_one x = (if less_num x (Fin 1) then Fin 1 else x)"

definition set_servings :: "num \<Rightarrow> scaling \<Rightarrow> scaling" where
  "set_servings cs s = s\<lparr>sc_current := cs, sc_factor := div_num cs (num_int (sc_base s))\<rparr>"

datatype scale_action = Increase | Decrease | Double | Triple | Quadruple | Half | Reset

definition scaled_servings :: "scale_action \<Rightarrow> num \<Rightarrow> num \<Rightarrow> num" where
  "scaled_servings a cs bs =
     (case a of
        Increase \<Rightarrow> add cs (Fin 1)
      | Decrease \<Rightarrow> if less_num (Fin 1) cs then sub cs (Fin 1) else cs
      | Double \<Rightarrow> mul cs (Fin 2)
      | Triple \<Rightarrow> mul cs (Fin 3)
      | Quadruple \<Rightarrow> mul cs (Fin 4)
      | Half \<Rightarrow> if less_num (Fin 1) cs then max_one (round_num (div_num cs (Fin 2))) else cs
      | Reset \<Rightarrow> bs)"

definition scale_click :: "scale_action \<Rightarrow> scaling \<Rightarrow> scaling" where
  "scale_click a s =
     (let s1 = (if a = Reset then s\<lparr>sc_checked := [], sc_overrides := [], sc_system := None\<rparr> else s)
      in set_servings (scaled_servings a (sc_current s) (num_int (sc_base s))) s1)"

definition cycleUnitSystem :: "unit_system option \<Rightarrow> unit_system option" where
  "cycleUnitSystem u = (case u of None \<Rightarrow> Some Metric | Some Metric \<Rightarrow> Some Imperial | Some Imperial \<Rightarrow> None)"

definition toggle_system :: "scaling \<Rightarrow> scaling" where
  "toggle_system s = s\<lparr>sc_system := cycleUnitSystem (sc_system s), sc_overrides := []\<rparr>"

text \<open>The entries of the unit menu, and the first one, which goes back to the unit as written\<close>

definition choose_unit :: "nat \<Rightarrow> string option \<Rightarrow> scaling \<Rightarrow> scaling" where
  "choose_unit idx u s =
     s\<lparr>sc_overrides := (case u of Some key \<Rightarrow> map_set idx key (sc_overrides s) | None \<Rightarrow> map_delete idx (sc_overrides s))\<rparr>"

definition toggle_check :: "int \<Rightarrow> scaling \<Rightarrow> scaling" where
  "toggle_check idx s =
     (if idx < 0 then s
      else s\<lparr>sc_checked := (if nat idx \<in> set (sc_checked s) then set_delete (nat idx) (sc_checked s) else set_add (nat idx) (sc_checked s))\<rparr>)"

definition open_scaling :: "recipe \<Rightarrow> scaling \<Rightarrow> scaling" where
  "open_scaling doc s =
     s\<lparr>sc_checked := [], sc_overrides := [], sc_base := base_servings doc, sc_current := num_int (base_servings doc), sc_factor := Fin 1\<rparr>"

definition close_scaling :: "scaling \<Rightarrow> scaling" where
  "close_scaling s = s\<lparr>sc_checked := [], sc_overrides := [], sc_factor := Fin 1\<rparr>"

definition edit_scaling :: "scaling \<Rightarrow> scaling" where
  "edit_scaling s = s\<lparr>sc_checked := [], sc_current := num_int (sc_base s), sc_factor := Fin 1\<rparr>"

text \<open>The document has changed: a new base is followed, a factor of one's own is kept.\<close>

definition base_changed :: "recipe \<Rightarrow> scaling \<Rightarrow> scaling" where
  "base_changed doc s =
     (let newBase = base_servings doc
      in if newBase = sc_base s then s
         else set_servings
                (if sc_factor s = Fin 1 then num_int newBase
                 else max_one (round_num (mul (num_int newBase) (sc_factor s))))
                (s\<lparr>sc_base := newBase\<rparr>))"

datatype scale_event =
  Scale_Open recipe | Scale_Click scale_action | Scale_Edit | Scale_Changed recipe
  | Scale_System | Scale_Unit nat "string option" | Scale_Check int

definition scale_step :: "scaling \<Rightarrow> scale_event \<Rightarrow> scaling" where
  "scale_step s e =
     (case e of
        Scale_Open doc \<Rightarrow> open_scaling doc s
      | Scale_Click a \<Rightarrow> scale_click a s
      | Scale_Edit \<Rightarrow> edit_scaling s
      | Scale_Changed doc \<Rightarrow> base_changed doc s
      | Scale_System \<Rightarrow> toggle_system s
      | Scale_Unit i u \<Rightarrow> choose_unit i u s
      | Scale_Check i \<Rightarrow> toggle_check i s)"

subsection \<open>The servings in every run\<close>

definition small_servings :: "scale_event \<Rightarrow> bool" where
  "small_servings e =
     (case e of Scale_Open doc \<Rightarrow> \<bar>base_servings doc\<bar> < 2 ^ 53 | Scale_Changed doc \<Rightarrow> \<bar>base_servings doc\<bar> < 2 ^ 53 | _ \<Rightarrow> True)"

definition scale_ok :: "scaling \<Rightarrow> bool" where
  "scale_ok s \<longleftrightarrow> sc_base s \<noteq> 0 \<and> \<bar>sc_base s\<bar> < 2 ^ 53 \<and> whole (sc_current s) \<and>
     sc_factor s = div_num (sc_current s) (num_int (sc_base s)) \<and> (0 < sc_base s \<longrightarrow> at_least_one (sc_current s))"

lemma num_int_small: "\<bar>b\<bar> < 2 ^ 53 \<Longrightarrow> num_int b = Fin (of_int b)"
  unfolding num_int_def by (rule fin_exact)

lemma base_nonzero: "base_servings doc \<noteq> 0"
  by (simp add: base_servings_def falsy_or_def split: option.split)

lemma whole_cases:
  assumes "whole x"
  obtains n where "x = Fin (of_int n)" | "x = PosInf" | "x = NegInf"
  using assms by (cases x) (auto elim: Ints_cases)

lemma whole_inf [simp]: "whole (inf_sign b)"
  by (simp add: inf_sign_def)

lemma whole_scaled: "whole cs \<Longrightarrow> whole bs \<Longrightarrow> whole (scaled_servings a cs bs)"
proof (erule whole_cases)
  fix n assume cs: "cs = Fin (of_int n)" and bs: "whole bs"
  have "whole (fin (of_int n + 1))" "whole (fin (of_int n - 1))" "whole (fin (of_int n * 2))" "whole (fin (of_int n * 3))"
    "whole (fin (of_int n * 4))"
    using fin_whole [of "n + 1"] fin_whole [of "n - 1"] fin_whole [of "n * 2"] fin_whole [of "n * 3"] fin_whole [of "n * 4"] by simp_all
  moreover have "whole (max_one (round_num (fin q)))" for q
    by (cases "fin q") (auto simp: max_one_def fin_def Let_def split: if_splits)
  ultimately show ?thesis using bs by (cases a) (simp_all add: cs scaled_servings_def sub_def)
qed (cases a; simp add: scaled_servings_def sub_def max_one_def inf_sign_def)+

lemma scaled_at_least_one:
  assumes "whole cs" "at_least_one cs" "at_least_one bs"
  shows "at_least_one (scaled_servings a cs bs)"
  using assms(1)
proof (cases rule: whole_cases)
  case (1 n)
  then have n: "1 \<le> n" using assms(2) of_int_le_iff [of 1 n, where 'a = rat] by simp
  have "at_least_one (fin (of_int n + 1))" "at_least_one (fin (of_int n * 2))" "at_least_one (fin (of_int n * 3))"
    "at_least_one (fin (of_int n * 4))"
    using n fin_at_least_one [of "n + 1"] fin_at_least_one [of "n * 2"] fin_at_least_one [of "n * 3"] fin_at_least_one [of "n * 4"]
    by simp_all
  moreover have "at_least_one (fin (of_int n - 1))" if "1 < (of_int n :: rat)"
    using that fin_at_least_one [of "n - 1"] by simp
  moreover have "at_least_one (max_one (round_num (fin (of_int n / 2))))"
  proof -
    have "at_least_one (max_one x)" if "x \<noteq> NaN" "x \<noteq> NegInf" for x using that by (cases x) (simp_all add: max_one_def)
    moreover have "fin (of_int n / 2) \<noteq> NaN" by (simp add: fin_def Let_def)
    moreover have "at_least_one (max_one NegInf)" by (simp add: max_one_def)
    ultimately show ?thesis by (cases "fin (of_int n / 2)") auto
  qed
  ultimately show ?thesis using assms(2,3) by (cases a) (simp_all add: 1 scaled_servings_def sub_def)
qed (use assms in \<open>cases a; simp add: scaled_servings_def sub_def max_one_def inf_sign_def\<close>)+

lemma scale_ok_start: "\<bar>base_servings doc\<bar> < 2 ^ 53 \<Longrightarrow> scale_ok (s\<lparr>sc_base := base_servings doc, sc_current := num_int (base_servings doc), sc_factor := Fin 1\<rparr>)"
proof -
  assume b: "\<bar>base_servings doc\<bar> < 2 ^ 53"
  have "fin 1 = Fin 1" using fin_exact(1) [of 1] by simp
  moreover have "0 < base_servings doc \<Longrightarrow> (1::rat) \<le> of_int (base_servings doc)" by (simp add: int_le_real_less)
  ultimately show ?thesis using b base_nonzero [of doc] by (simp add: scale_ok_def num_int_small)
qed

lemma max_one_round: "x \<noteq> NaN \<Longrightarrow> whole (max_one (round_num x)) \<and> at_least_one (max_one (round_num x))"
  by (cases x) (auto simp: max_one_def)

lemma set_servings_ok:
  assumes "sc_base s \<noteq> 0" "\<bar>sc_base s\<bar> < 2 ^ 53" "whole cs" "0 < sc_base s \<longrightarrow> at_least_one cs"
  shows "scale_ok (set_servings cs s)"
  using assms by (simp add: scale_ok_def set_servings_def)

lemma factor_not_NaN: "scale_ok s \<Longrightarrow> sc_factor s \<noteq> NaN"
  by (cases "sc_current s") (auto simp: scale_ok_def num_int_small fin_def Let_def inf_sign_def)

lemma base_at_least_one: "0 < b \<Longrightarrow> \<bar>b\<bar> < 2 ^ 53 \<Longrightarrow> at_least_one (num_int b)"
  unfolding num_int_def by (rule fin_at_least_one) simp

lemma base_whole: "whole (num_int b)"
  unfolding num_int_def by (rule fin_whole)

lemma scale_ok_step:
  assumes "scale_ok s" "small_servings e"
  shows "scale_ok (scale_step s e)"
proof (cases e)
  case (Scale_Open doc)
  then have "scale_ok (s\<lparr>sc_base := base_servings doc, sc_current := num_int (base_servings doc), sc_factor := Fin 1\<rparr>)"
    using assms(2) by (intro scale_ok_start) (simp add: small_servings_def)
  then show ?thesis by (simp add: Scale_Open scale_step_def open_scaling_def scale_ok_def)
next
  case (Scale_Click a)
  have "scale_ok (set_servings (scaled_servings a (sc_current s) (num_int (sc_base s))) s')"
    if "sc_base s' = sc_base s" for s'
    using assms(1) whole_scaled [OF _ base_whole] scaled_at_least_one [OF _ _ base_at_least_one] that
    by (intro set_servings_ok) (auto simp: scale_ok_def)
  then show ?thesis by (simp add: Scale_Click scale_step_def scale_click_def)
next
  case Scale_Edit
  have "scale_ok (s\<lparr>sc_current := num_int (sc_base s), sc_factor := div_num (num_int (sc_base s)) (num_int (sc_base s))\<rparr>)"
    using assms(1) base_whole base_at_least_one by (auto simp: scale_ok_def)
  moreover have "div_num (num_int (sc_base s)) (num_int (sc_base s)) = Fin 1"
    using assms(1) fin_exact(1) [of 1] by (simp add: scale_ok_def num_int_small)
  ultimately show ?thesis by (simp add: Scale_Edit scale_step_def edit_scaling_def scale_ok_def)
next
  case (Scale_Changed doc)
  let ?b = "base_servings doc"
  show ?thesis
  proof (cases "?b = sc_base s")
    case False
    have b: "?b \<noteq> 0" "\<bar>?b\<bar> < 2 ^ 53" using assms(2) base_nonzero by (simp_all add: Scale_Changed small_servings_def)
    have "mul (num_int ?b) (sc_factor s) \<noteq> NaN"
      using b factor_not_NaN [OF assms(1)] by (cases "sc_factor s") (auto simp: num_int_small fin_def Let_def inf_sign_def)
    note max_one_round [OF this]
    then have "scale_ok (set_servings (if sc_factor s = Fin 1 then num_int ?b
        else max_one (round_num (mul (num_int ?b) (sc_factor s)))) (s\<lparr>sc_base := ?b\<rparr>))"
      using b base_whole base_at_least_one by (intro set_servings_ok) auto
    with False show ?thesis by (simp add: Scale_Changed scale_step_def base_changed_def Let_def)
  qed (use assms(1) in \<open>simp add: Scale_Changed scale_step_def base_changed_def\<close>)
qed (use assms(1) in \<open>auto simp: scale_step_def scale_ok_def toggle_system_def choose_unit_def toggle_check_def\<close>)

interpretation scale_steps: run_invariant scale_step scale_ok small_servings
  by unfold_locales (rule scale_ok_step)

text \<open>C28: while a recipe is open the factor shown is always the servings chosen over the servings of the recipe,
  whatever is clicked and however the recipe's servings change meanwhile; with a positive number of servings in
  the recipe the servings chosen never fall below one and stay whole, and reset brings back the recipe's own.\<close>

theorem servings_in_every_run:
  assumes "\<forall>e \<in> set (Scale_Open doc # es). small_servings e" "s = foldl scale_step s0 (Scale_Open doc # es)"
  shows "sc_factor s = div_num (sc_current s) (num_int (sc_base s)) \<and> whole (sc_current s) \<and>
    (0 < sc_base s \<longrightarrow> at_least_one (sc_current s)) \<and>
    sc_current (scale_click Reset s) = num_int (sc_base s) \<and> sc_factor (scale_click Reset s) = Fin 1"
proof -
  have "scale_ok (scale_step s0 (Scale_Open doc))"
    using scale_ok_start [of doc s0] assms(1) by (simp add: scale_step_def open_scaling_def scale_ok_def small_servings_def)
  then have ok: "scale_ok s" using scale_steps.inv_run [of _ es] assms by simp
  then have "div_num (num_int (sc_base s)) (num_int (sc_base s)) = Fin 1"
    using fin_exact(1) [of 1] by (simp add: scale_ok_def num_int_small)
  with ok show ?thesis by (simp add: scale_ok_def scale_click_def set_servings_def scaled_servings_def)
qed

definition demo_scaling :: scaling where
  "demo_scaling = \<lparr>sc_base = 4, sc_current = Fin 4, sc_factor = Fin 1, sc_system = None, sc_overrides = [], sc_checked = []\<rparr>"

theorem servings_in_every_run_witness:
  "sc_current (foldl scale_step demo_scaling [Scale_Open demo_view_recipe, Scale_Click Increase]) = Fin 3 \<and>
    sc_current (scale_click Reset (foldl scale_step demo_scaling [Scale_Open demo_view_recipe, Scale_Click Increase])) = Fin 2"
proof -
  have b: "base_servings demo_view_recipe = 2" by (simp add: base_servings_def demo_view_recipe_def falsy_or_def)
  have n: "num_int 2 = Fin 2" "fin 3 = Fin 3" using num_int_small [of 2] fin_exact(1) [of 3] by simp_all
  let ?s = "foldl scale_step demo_scaling [Scale_Open demo_view_recipe, Scale_Click Increase]"
  have "\<forall>e \<in> set [Scale_Open demo_view_recipe, Scale_Click Increase]. small_servings e"
    by (simp add: small_servings_def b)
  from servings_in_every_run [OF this refl, of demo_scaling]
  have "sc_current (scale_click Reset ?s) = num_int (sc_base ?s)" by simp
  then show ?thesis
    by (simp add: scale_step_def open_scaling_def scale_click_def set_servings_def scaled_servings_def b n)
qed

end
