(* ===== verification/Recipe_Page.thy ===== *)
theory Recipe_Page
  imports Recipe_View Vaults
begin

text \<open>
  The page of one recipe, second part: the view (\<open>src/views/recipe-detail.ts\<close>) and the operations of
  \<open>src/ui/recipes.ts\<close> that connect it with the documents: selecting, adding, copying and deleting recipes, and the
  catalog of a book, which repeats titles and tags of the recipes for the list. Switching books
  (\<open>src/ui/books.ts\<close>) and the import of recipes (\<open>src/import-export.ts\<close>) belong to it.

  \<open>pg_recipes\<close> has the contents of the recipes on the device; a store that was closed and one opened again for the
  same document are not told apart. \<open>pg_open\<close> are the recipes open in the document manager, \<open>pg_catalogs\<close> the open
  catalogs. \<open>pg_log\<close> records what the sync client and the push queue are told. An asynchronous function is cut at
  its awaits: the rest of it is a task, and the tasks of a page resume in any order. The recipe view's listener is
  on the store that the view shows. Rendering, presence and the editors (see \<open>Editor_Bridge\<close>) are left out, of a
  catalog's listener its entries in the search index and its name (see \<open>Search\<close>, \<open>Books\<close>).
\<close>

section \<open>State\<close>

record catalog =
  ct_name :: string
  ct_recipes :: "catalog_entry list"
  ct_members :: "(string \<times> string) list"

record recipe_view =
  vw_store :: "string option"
  vw_recipe :: "string option"
  vw_attached :: bool
  vw_editing :: bool
  vw_canEdit :: bool
  vw_form :: meta_form
  vw_timer :: bool
  vw_titleFocused :: bool
  vw_lastTitle :: string
  vw_lastTags :: "string list"
  vw_scaling :: scaling

datatype page_op = Push string | Subscribe string | Unsubscribe string | Flush_All

datatype page_task =
  Select_Closing string string string
| Select_Opening string string
| Deselecting string
| Add_Opening string string recipe
| Copy_Opening string string recipe

record page =
  pg_now :: int
  pg_books :: "book list"
  pg_active :: "book option"
  pg_selected :: "string option"
  pg_catalogs :: "(string \<times> catalog) list"
  pg_recipes :: "(string \<times> recipe) list"
  pg_open :: "string list"
  pg_log :: "page_op list"
  pg_view :: recipe_view
  pg_tasks :: "page_task list"

definition doc_id :: "string \<Rightarrow> string \<Rightarrow> string" where
  "doc_id vaultId recipeId = vaultId @ ''/'' @ recipeId"

definition empty_recipe :: recipe where
  "empty_recipe = \<lparr>rc_title = [], rc_tags = [], rc_servings = None, rc_prepMinutes = None, rc_cookMinutes = None,
     rc_createdAt = 0, rc_updatedAt = 0, rc_description = [], rc_ingredients = [], rc_instructions = [],
     rc_imageUrls = [], rc_notes = []\<rparr>"

definition recipe_of :: "page \<Rightarrow> string \<Rightarrow> recipe" where
  "recipe_of p d = (case map_get (pg_recipes p) d of Some r \<Rightarrow> r | None \<Rightarrow> empty_recipe)"

definition on_view :: "(recipe_view \<Rightarrow> recipe_view) \<Rightarrow> page \<Rightarrow> page" where
  "on_view f p = p\<lparr>pg_view := f (pg_view p)\<rparr>"

definition tell :: "page_op \<Rightarrow> page \<Rightarrow> page" where
  "tell c p = p\<lparr>pg_log := pg_log p @ [c]\<rparr>"

definition add_task :: "page_task \<Rightarrow> page \<Rightarrow> page" where
  "add_task t p = p\<lparr>pg_tasks := pg_tasks p @ [t]\<rparr>"

definition can_edit :: "page \<Rightarrow> bool" where
  "can_edit p = (case pg_active p of Some b \<Rightarrow> bk_role b = ''owner'' \<or> bk_role b = ''editor'' | None \<Rightarrow> False)"

definition catalogDocId :: "page \<Rightarrow> string" where
  "catalogDocId p = (case pg_active p of Some b \<Rightarrow> catalog_id (bk_vaultId b) | None \<Rightarrow> ''catalog'')"

definition active_catalog :: "page \<Rightarrow> catalog option" where
  "active_catalog p = map_get (pg_catalogs p) (catalogDocId p)"

text \<open>\<open>getCatalogRecipes\<close>\<close>

definition active_recipes :: "page \<Rightarrow> catalog_entry list" where
  "active_recipes p =
     (case pg_active p of None \<Rightarrow> [] | Some _ \<Rightarrow> (case active_catalog p of Some c \<Rightarrow> ct_recipes c | None \<Rightarrow> []))"

text \<open>The first entry of a recipe is written.\<close>

fun set_entry :: "string \<Rightarrow> string \<Rightarrow> string list \<Rightarrow> catalog_entry list \<Rightarrow> catalog_entry list" where
  "set_entry i title tags [] = []"
| "set_entry i title tags (e # es) =
     (if ce_id e = i then e\<lparr>ce_title := title, ce_tags := tags\<rparr> # es else e # set_entry i title tags es)"

fun delete_entry :: "string \<Rightarrow> catalog_entry list \<Rightarrow> catalog_entry list" where
  "delete_entry i [] = []"
| "delete_entry i (e # es) = (if ce_id e = i then es else e # delete_entry i es)"

section \<open>Changes and their listeners\<close>

text \<open>A change of a recipe with the view's listener \<open>h\<close>\<close>

definition change_with :: "(recipe \<Rightarrow> page \<Rightarrow> page) \<Rightarrow> string \<Rightarrow> (recipe \<Rightarrow> recipe) \<Rightarrow> page \<Rightarrow> page" where
  "change_with h d f p =
     (let doc = f (recipe_of p d); p1 = p\<lparr>pg_recipes := map_set d doc (pg_recipes p)\<rparr>
      in if vw_store (pg_view p) = Some d \<and> vw_attached (pg_view p) then h doc p1 else p1)"

definition content_changed_with :: "(recipe \<Rightarrow> page \<Rightarrow> page) \<Rightarrow> page \<Rightarrow> page" where
  "content_changed_with h p =
     (case (pg_selected p, pg_active p) of
        (Some i, Some b) \<Rightarrow>
          let d = doc_id (bk_vaultId b) i;
              p1 = (if d \<in> set (pg_open p) then change_with h d (\<lambda>doc. doc\<lparr>rc_updatedAt := pg_now p\<rparr>) p else p)
          in tell (Push d) p1
      | _ \<Rightarrow> p)"

text \<open>The names of links after a change of the catalog\<close>

definition reconcile_with :: "(recipe \<Rightarrow> page \<Rightarrow> page) \<Rightarrow> page \<Rightarrow> page" where
  "reconcile_with h p =
     (case vw_store (pg_view p) of
        None \<Rightarrow> p
      | Some d \<Rightarrow>
          let (doc, ch) = reconcileRecipeLinkNames (active_recipes p) (recipe_of p d)
          in if ch then content_changed_with h (change_with h d (\<lambda>_. doc) p) else p)"

text \<open>A change of a catalog; the catalog of the active book updates the links of the recipe shown.\<close>

definition change_catalog :: "(page \<Rightarrow> page) \<Rightarrow> string \<Rightarrow> (catalog_entry list \<Rightarrow> catalog_entry list) \<Rightarrow> page \<Rightarrow> page" where
  "change_catalog onCatalogChanged c f p =
     (case map_get (pg_catalogs p) c of
        None \<Rightarrow> p
      | Some cat \<Rightarrow>
          let p1 = p\<lparr>pg_catalogs := map_set c (cat\<lparr>ct_recipes := f (ct_recipes cat)\<rparr>) (pg_catalogs p)\<rparr>
          in if pg_active p \<noteq> None \<and> catalogDocId p = c then onCatalogChanged p1 else p1)"

text \<open>The listener of the view's store without its first part, the update of the catalog\<close>

definition view_changed :: "recipe \<Rightarrow> page \<Rightarrow> page" where
  "view_changed doc =
     on_view (\<lambda>v. v\<lparr>vw_form := (if vw_editing v \<and> \<not> vw_titleFocused v then (vw_form v)\<lparr>mf_title := rc_title doc\<rparr> else vw_form v),
                    vw_scaling := base_changed doc (vw_scaling v)\<rparr>)"

text \<open>Writing title and tags to the catalog; the changes that come back find them written.\<close>

definition onSyncCatalogMeta :: "string \<Rightarrow> string list \<Rightarrow> page \<Rightarrow> page" where
  "onSyncCatalogMeta title tags p =
     (case (pg_selected p, pg_active p, active_catalog p) of
        (Some i, Some b, Some cat) \<Rightarrow>
          (case find_entry i (ct_recipes cat) of
             None \<Rightarrow> p
           | Some e \<Rightarrow>
               if ce_title e = title \<and> ce_tags e = tags then p
               else tell (Push (catalogDocId p))
                      (change_catalog (reconcile_with view_changed) (catalogDocId p) (set_entry i title tags) p))
      | _ \<Rightarrow> p)"

definition on_change :: "recipe \<Rightarrow> page \<Rightarrow> page" where
  "on_change doc p =
     (let v = pg_view p;
          p1 = (if rc_title doc \<noteq> vw_lastTitle v \<or> rc_tags doc \<noteq> vw_lastTags v
                then onSyncCatalogMeta (rc_title doc) (rc_tags doc)
                       (on_view (\<lambda>v. v\<lparr>vw_lastTitle := rc_title doc, vw_lastTags := rc_tags doc\<rparr>) p)
                else p)
      in view_changed doc p1)"

abbreviation "change_recipe \<equiv> change_with on_change"
abbreviation "onCatalogChanged \<equiv> reconcile_with on_change"
abbreviation "onContentChanged \<equiv> content_changed_with on_change"

definition onMetaChanged :: "string \<Rightarrow> string list \<Rightarrow> page \<Rightarrow> page" where
  "onMetaChanged title tags p =
     (case (pg_selected p, pg_active p) of
        (Some i, Some b) \<Rightarrow>
          let p1 = tell (Push (doc_id (bk_vaultId b) i)) p
          in if active_catalog p1 = None then p1
             else tell (Push (catalogDocId p1)) (change_catalog onCatalogChanged (catalogDocId p1) (set_entry i title tags) p1)
      | _ \<Rightarrow> p)"

section \<open>The view\<close>

definition debounceMeta :: "page \<Rightarrow> page" where
  "debounceMeta p =
     (if \<not> vw_editing (pg_view p) \<or> vw_store (pg_view p) = None then p else on_view (\<lambda>v. v\<lparr>vw_timer := True\<rparr>) p)"

definition flushMeta :: "page \<Rightarrow> page" where
  "flushMeta p =
     (let p1 = on_view (\<lambda>v. v\<lparr>vw_timer := False\<rparr>) p in
      case vw_store (pg_view p1) of
        None \<Rightarrow> p1
      | Some d \<Rightarrow>
          let f = vw_form (pg_view p1); title = form_title f (recipe_of p1 d)
          in onMetaChanged title (mf_tags f) (change_recipe d (form_change f (pg_now p1)) p1))"

definition setPageEditing :: "bool \<Rightarrow> page \<Rightarrow> page" where
  "setPageEditing editing p =
     (if \<not> vw_canEdit (pg_view p) \<and> editing then p
      else let wasEditing = vw_editing (pg_view p);
               p1 = on_view (\<lambda>v. v\<lparr>vw_editing := editing\<rparr>) p;
               p2 = (case vw_store (pg_view p1) of
                       Some d \<Rightarrow> if editing then on_view (\<lambda>v. v\<lparr>vw_form := fill_form (recipe_of p1 d)\<rparr>) p1 else p1
                     | None \<Rightarrow> p1);
               p3 = (if wasEditing \<and> \<not> editing then flushMeta p2 else p2)
           in if editing then on_view (\<lambda>v. v\<lparr>vw_scaling := edit_scaling (vw_scaling v)\<rparr>) p3 else p3)"

definition closeRecipe :: "page \<Rightarrow> page" where
  "closeRecipe p =
     (let p1 = (if vw_timer (pg_view p) then flushMeta p else p)
      in on_view (\<lambda>v. v\<lparr>vw_store := None, vw_recipe := None, vw_attached := False, vw_editing := False,
                       vw_scaling := close_scaling (vw_scaling v)\<rparr>) p1)"

definition openRecipe :: "string \<Rightarrow> string \<Rightarrow> bool \<Rightarrow> page \<Rightarrow> page" where
  "openRecipe d i editable p =
     (let p1 = closeRecipe p; doc = recipe_of p1 d;
          p2 = on_view (\<lambda>v. v\<lparr>vw_store := Some d, vw_recipe := Some i, vw_lastTitle := rc_title doc, vw_lastTags := rc_tags doc,
                             vw_scaling := open_scaling doc (vw_scaling v), vw_canEdit := editable\<rparr>) p1;
          p3 = setPageEditing False (reconcile_with on_change p2)
      in on_view (\<lambda>v. v\<lparr>vw_attached := True\<rparr>) p3)"

definition updateEditPermission :: "bool \<Rightarrow> page \<Rightarrow> page" where
  "updateEditPermission editable p =
     (if vw_store (pg_view p) = None then p
      else let p1 = on_view (\<lambda>v. v\<lparr>vw_canEdit := editable\<rparr>) p
           in if \<not> editable \<and> vw_editing (pg_view p1) then setPageEditing False p1 else p1)"

text \<open>An edit of ingredients, instructions or notes; \<open>None\<close> when there is nothing to write\<close>

definition edit_recipe :: "(recipe \<Rightarrow> recipe option) \<Rightarrow> page \<Rightarrow> page" where
  "edit_recipe f p =
     (case vw_store (pg_view p) of
        None \<Rightarrow> p
      | Some d \<Rightarrow> (case f (recipe_of p d) of None \<Rightarrow> p | Some doc \<Rightarrow> onContentChanged (change_recipe d (\<lambda>_. doc) p)))"

section \<open>Selecting\<close>

definition select_opening :: "string \<Rightarrow> string \<Rightarrow> page \<Rightarrow> page" where
  "select_opening i vaultId p = add_task (Select_Opening i vaultId) (p\<lparr>pg_selected := Some i\<rparr>)"

definition selectRecipe :: "string \<Rightarrow> page \<Rightarrow> page" where
  "selectRecipe i p =
     (case pg_active p of
        None \<Rightarrow> p
      | Some b \<Rightarrow>
          (case pg_selected p of
             Some prev \<Rightarrow>
               if prev \<noteq> [] \<and> prev \<noteq> i
               then let d = doc_id (bk_vaultId b) prev in add_task (Select_Closing i (bk_vaultId b) d) (tell (Unsubscribe d) p)
               else select_opening i (bk_vaultId b) p
           | None \<Rightarrow> select_opening i (bk_vaultId b) p))"

text \<open>The document has been opened: the recipe is the source of the catalog's entry, or the other way round when
  the recipe has no title.\<close>

definition select_opened :: "string \<Rightarrow> string \<Rightarrow> page \<Rightarrow> page" where
  "select_opened i vaultId p =
     (let d = doc_id vaultId i;
          p1 = tell (Subscribe d) (p\<lparr>pg_open := set_add d (pg_open p)\<rparr>);
          r = recipe_of p1 d;
          entry = (case active_catalog p1 of Some c \<Rightarrow> find_entry i (ct_recipes c) | None \<Rightarrow> None);
          p2 = (case entry of
                  None \<Rightarrow> p1
                | Some e \<Rightarrow>
                    if rc_title r = [] then
                      (if ce_title e \<noteq> []
                       then tell (Push d) (change_recipe d (\<lambda>doc. doc\<lparr>rc_title := ce_title e, rc_tags := ce_tags e\<rparr>) p1)
                       else p1)
                    else if ce_title e \<noteq> rc_title r \<or> ce_tags e \<noteq> rc_tags r
                    then tell (Push (catalogDocId p1))
                           (change_catalog onCatalogChanged (catalogDocId p1) (set_entry i (rc_title r) (rc_tags r)) p1)
                    else p1)
      in openRecipe d i (can_edit p2) p2)"

definition deselect_end :: "page \<Rightarrow> page" where
  "deselect_end p = closeRecipe (p\<lparr>pg_selected := None\<rparr>)"

definition deselectRecipe :: "page \<Rightarrow> page" where
  "deselectRecipe p =
     (case (pg_selected p, pg_active p) of
        (Some i, Some b) \<Rightarrow>
          if i = [] then deselect_end p
          else let d = doc_id (bk_vaultId b) i in add_task (Deselecting d) (tell (Unsubscribe d) p)
      | _ \<Rightarrow> deselect_end p)"

definition switchBook :: "string \<Rightarrow> page \<Rightarrow> page" where
  "switchBook vaultId p =
     (let p1 = (if pg_selected p \<noteq> None then deselectRecipe p else p)
      in case find_book vaultId (pg_books p1) of
           None \<Rightarrow> p1
         | Some b \<Rightarrow> if bk_encKey b = None then p1 else p1\<lparr>pg_active := Some b\<rparr>)"

text \<open>A recipe of the list, or of a search over all books\<close>

definition onSelect :: "string \<Rightarrow> string option \<Rightarrow> page \<Rightarrow> page" where
  "onSelect i vaultId p =
     (case vaultId of
        Some v \<Rightarrow> if v \<noteq> [] \<and> map_option bk_vaultId (pg_active p) \<noteq> Some v then selectRecipe i (switchBook v p) else selectRecipe i p
      | None \<Rightarrow> selectRecipe i p)"

section \<open>Adding, copying, deleting, importing\<close>

definition entry_for :: "string \<Rightarrow> string \<Rightarrow> string list \<Rightarrow> catalog_entry" where
  "entry_for i title tags = \<lparr>ce_id = i, ce_title = title, ce_tags = tags\<rparr>"

text \<open>The documents are opened, initialised when they are new, and pushed.\<close>

definition init_recipe :: "string \<Rightarrow> recipe \<Rightarrow> page \<Rightarrow> page" where
  "init_recipe d doc p =
     (let p1 = p\<lparr>pg_open := set_add d (pg_open p)\<rparr>
      in if map_get (pg_recipes p) d = None then change_recipe d (\<lambda>_. doc) p1 else p1)"

definition new_recipe :: "meta_form \<Rightarrow> int \<Rightarrow> recipe" where
  "new_recipe f now =
     empty_recipe\<lparr>rc_title := js_trim (mf_title f), rc_tags := mf_tags f,
       rc_servings := Some (falsy_or (parseInt (mf_servings f)) 4),
       rc_prepMinutes := Some (falsy_or (parseInt (mf_prep f)) 0),
       rc_cookMinutes := Some (falsy_or (parseInt (mf_cook f)) 0), rc_createdAt := now, rc_updatedAt := now\<rparr>"

definition addRecipe :: "string \<Rightarrow> meta_form \<Rightarrow> page \<Rightarrow> page" where
  "addRecipe newId f p =
     (case (pg_active p, active_catalog p) of
        (Some b, Some _) \<Rightarrow>
          if js_trim (mf_title f) = [] then p
          else add_task (Add_Opening newId (bk_vaultId b) (new_recipe f (pg_now p)))
                 (tell (Push (catalogDocId p))
                   (change_catalog onCatalogChanged (catalogDocId p)
                      (\<lambda>es. es @ [entry_for newId (js_trim (mf_title f)) (mf_tags f)]) p))
      | _ \<Rightarrow> p)"

definition add_opened :: "string \<Rightarrow> string \<Rightarrow> recipe \<Rightarrow> page \<Rightarrow> page" where
  "add_opened i vaultId doc p =
     (let d = doc_id vaultId i in selectRecipe i (tell (Push d) (init_recipe d doc p)))"

definition onDeleteRecipe :: "page \<Rightarrow> page" where
  "onDeleteRecipe p =
     (case (pg_selected p, pg_active p) of
        (Some i, Some b) \<Rightarrow>
          if i = [] then p
          else let p1 = deselectRecipe p
               in if active_catalog p1 = None then p1
                  else tell (Push (catalogDocId p1)) (change_catalog onCatalogChanged (catalogDocId p1) (delete_entry i) p1)
      | _ \<Rightarrow> p)"

definition editable_book :: "book \<Rightarrow> bool" where
  "editable_book b \<longleftrightarrow> bk_role b = ''owner'' \<or> bk_role b = ''editor''"

text \<open>The copy, after its images have been stored in the other book under the checksums of the map\<close>

definition copied_recipe :: "(string \<times> string) list \<Rightarrow> int \<Rightarrow> recipe \<Rightarrow> recipe" where
  "copied_recipe checksumMap now src =
     src\<lparr>rc_createdAt := now, rc_updatedAt := now,
         rc_instructions := rewriteBlobRefs checksumMap (rc_instructions src),
         rc_notes := rewriteBlobRefs checksumMap (rc_notes src)\<rparr>"

definition onCopyToBook :: "string \<Rightarrow> string \<Rightarrow> (string \<times> string) list \<Rightarrow> page \<Rightarrow> page" where
  "onCopyToBook pick newId checksumMap p =
     (case (pg_selected p, pg_active p) of
        (Some i, Some b) \<Rightarrow>
          let otherBooks = filter (\<lambda>c. bk_vaultId c \<noteq> bk_vaultId b \<and> editable_book c) (pg_books p);
              d = doc_id (bk_vaultId b) i
          in if length (pg_books p) < 2 \<or> find_book pick otherBooks = None \<or> d \<notin> set (pg_open p)
                \<or> map_get (pg_catalogs p) (catalog_id pick) = None then p
             else let src = recipe_of p d
                  in add_task (Copy_Opening newId pick (copied_recipe checksumMap (pg_now p) src))
                       (change_catalog onCatalogChanged (catalog_id pick)
                          (\<lambda>es. es @ [entry_for newId (rc_title src) (rc_tags src)]) p)
      | _ \<Rightarrow> p)"

definition copy_opened :: "string \<Rightarrow> string \<Rightarrow> recipe \<Rightarrow> page \<Rightarrow> page" where
  "copy_opened i vaultId doc p =
     (let d = doc_id vaultId i;
          p1 = tell (Push (catalog_id vaultId)) (tell (Push d) (init_recipe d doc p))
      in p1\<lparr>pg_open := set_delete d (pg_open p1)\<rparr>)"

text \<open>The recipes of an import with their new identifiers\<close>

definition imported_recipe :: "(string \<times> string) list \<Rightarrow> int \<Rightarrow> recipe_meta \<Rightarrow> recipe_content \<Rightarrow> recipe" where
  "imported_recipe checksumMap now m c =
     \<lparr>rc_title = (case rm_title m of Some t \<Rightarrow> t | None \<Rightarrow> ''Imported''),
      rc_tags = map js_lower (case rm_tags m of Some ts \<Rightarrow> ts | None \<Rightarrow> []),
      rc_servings = Some (or_else (rm_servings m) 4), rc_prepMinutes = Some (or_else (rm_prepMinutes m) 0),
      rc_cookMinutes = Some (or_else (rm_cookMinutes m) 0),
      rc_createdAt = or_else (rm_createdAt m) now, rc_updatedAt = or_else (rm_updatedAt m) now,
      rc_description = (case rt_description c of Some t \<Rightarrow> t | None \<Rightarrow> []),
      rc_ingredients = (case rt_ingredients c of Some ings \<Rightarrow> ings | None \<Rightarrow> []),
      rc_instructions = rewriteBlobRefs checksumMap (case rt_instructions c of Some t \<Rightarrow> t | None \<Rightarrow> []),
      rc_imageUrls = [],
      rc_notes = rewriteBlobRefs checksumMap (case rt_notes c of Some t \<Rightarrow> t | None \<Rightarrow> [])\<rparr>"

definition importRecipesIntoBook ::
  "book \<Rightarrow> (string \<times> recipe_meta \<times> recipe_content) list \<Rightarrow> (string \<times> string) list \<Rightarrow> page \<Rightarrow> page \<times> nat" where
  "importRecipesIntoBook b entries checksumMap p =
     (let c = catalog_id (bk_vaultId b) in
      case map_get (pg_catalogs p) c of
        None \<Rightarrow> (p, 0)
      | Some cat \<Rightarrow>
          let docs = map (\<lambda>(i, m, rc). (i, imported_recipe checksumMap (pg_now p) m rc)) entries;
              named = cat\<lparr>ct_name := (if ct_name cat = [] then bk_name b else ct_name cat)\<rparr>;
              p1 = change_catalog onCatalogChanged c (\<lambda>es. es @ map (\<lambda>(i, doc). entry_for i (rc_title doc) (rc_tags doc)) docs)
                     (p\<lparr>pg_catalogs := map_set c named (pg_catalogs p)\<rparr>);
              p2 = foldl (\<lambda>p (i, doc). init_recipe (doc_id (bk_vaultId b) i) doc p) p1 docs;
              p3 = foldl (\<lambda>p (i, doc). p\<lparr>pg_open := set_delete (doc_id (bk_vaultId b) i) (pg_open p)\<rparr>) p2 docs
          in (tell Flush_All p3, length docs))"

section \<open>Runs\<close>

definition resume_task :: "page_task \<Rightarrow> page \<Rightarrow> page" where
  "resume_task t p =
     (case t of
        Select_Closing i v d \<Rightarrow> select_opening i v (p\<lparr>pg_open := set_delete d (pg_open p)\<rparr>)
      | Select_Opening i v \<Rightarrow> select_opened i v p
      | Deselecting d \<Rightarrow> deselect_end (p\<lparr>pg_open := set_delete d (pg_open p)\<rparr>)
      | Add_Opening i v doc \<Rightarrow> add_opened i v doc p
      | Copy_Opening i v doc \<Rightarrow> copy_opened i v doc p)"

definition resume_nth :: "nat \<Rightarrow> page \<Rightarrow> page" where
  "resume_nth k p =
     (if k < length (pg_tasks p)
      then resume_task (pg_tasks p ! k) (p\<lparr>pg_tasks := take k (pg_tasks p) @ drop (Suc k) (pg_tasks p)\<rparr>) else p)"

datatype page_event =
  Selected string "string option" | Back | Delete | Add string meta_form | Copy string string "(string \<times> string) list"
| Switch string | Editing bool | Form meta_form | Title_Focus bool | Meta_Timer | Edit "recipe \<Rightarrow> recipe option"
| Remote_Recipe string recipe | Remote_Catalog string catalog | Permission bool | Resume nat | Clock int

definition page_step :: "page \<Rightarrow> page_event \<Rightarrow> page" where
  "page_step p e =
     (case e of
        Selected i v \<Rightarrow> onSelect i v p
      | Back \<Rightarrow> deselectRecipe p
      | Delete \<Rightarrow> onDeleteRecipe p
      | Add i f \<Rightarrow> addRecipe i f p
      | Copy pick i m \<Rightarrow> onCopyToBook pick i m p
      | Switch v \<Rightarrow> switchBook v p
      | Editing b \<Rightarrow> setPageEditing b p
      | Form f \<Rightarrow> if vw_editing (pg_view p) then debounceMeta (on_view (\<lambda>v. v\<lparr>vw_form := f\<rparr>) p) else p
      | Title_Focus b \<Rightarrow> on_view (\<lambda>v. v\<lparr>vw_titleFocused := b\<rparr>) p
      | Meta_Timer \<Rightarrow> if vw_timer (pg_view p) then flushMeta p else p
      | Edit f \<Rightarrow> edit_recipe f p
      | Remote_Recipe d doc \<Rightarrow> if d \<in> set (pg_open p) then change_recipe d (\<lambda>_. doc) p else p
      | Remote_Catalog c cat \<Rightarrow>
          (case map_get (pg_catalogs p) c of
             None \<Rightarrow> p
           | Some _ \<Rightarrow> change_catalog onCatalogChanged c id (p\<lparr>pg_catalogs := map_set c cat (pg_catalogs p)\<rparr>))
      | Permission b \<Rightarrow> updateEditPermission b p
      | Resume k \<Rightarrow> resume_nth k p
      | Clock t \<Rightarrow> p\<lparr>pg_now := t\<rparr>)"

end
