(* ===== verification/Page_Library.thy ===== *)
theory Page_Library
  imports Recipe_Page
begin

text \<open>
  What the page of a book promises: a library of titles and tags by recipe, of which one recipe may be shown. The
  operations of \<open>Recipe_Page\<close>, each run to its end before the next one begins, implement it (\<open>library_refined\<close>), and
  the catalog agrees with the recipes' documents all along. What goes wrong when an operation begins before
  another one has ended is stated after that.
\<close>

section \<open>What the operations decide by\<close>

text \<open>The page without the texts of the recipes, the form, the scale bar and the log\<close>

record core =
  k_active :: "book option"
  k_selected :: "string option"
  k_catalogs :: "string \<Rightarrow> catalog option"
  k_meta :: "string \<Rightarrow> (string \<times> string list) option"
  k_open :: "string set"
  k_tasks :: "page_task list"
  k_store :: "string option"
  k_recipe :: "string option"
  k_attached :: bool
  k_editing :: bool
  k_canEdit :: bool
  k_timer :: bool
  k_last :: "string \<times> string list"

definition meta :: "recipe \<Rightarrow> string \<times> string list" where
  "meta r = (rc_title r, rc_tags r)"

definition core :: "page \<Rightarrow> core" where
  "core p = \<lparr>k_active = pg_active p, k_selected = pg_selected p, k_catalogs = map_get (pg_catalogs p),
     k_meta = (\<lambda>d. map_option meta (map_get (pg_recipes p) d)), k_open = set (pg_open p), k_tasks = pg_tasks p,
     k_store = vw_store (pg_view p), k_recipe = vw_recipe (pg_view p), k_attached = vw_attached (pg_view p),
     k_editing = vw_editing (pg_view p), k_canEdit = vw_canEdit (pg_view p), k_timer = vw_timer (pg_view p),
     k_last = (vw_lastTitle (pg_view p), vw_lastTags (pg_view p))\<rparr>"

text \<open>The view knows what its document says, and no document is open or shown that is not there.\<close>

definition k_ok :: "core \<Rightarrow> bool" where
  "k_ok k \<longleftrightarrow> (\<forall>d. k_store k = Some d \<longrightarrow> k_meta k d \<noteq> None \<and> (k_attached k \<longrightarrow> k_meta k d = Some (k_last k))) \<and>
     (\<forall>d \<in> k_open k. k_meta k d \<noteq> None)"

lemma core_tell [simp]: "core (tell c p) = core p"
  by (simp add: core_def tell_def)

lemma core_view_changed [simp]: "core (view_changed doc p) = core p"
  by (simp add: core_def view_changed_def on_view_def)

lemma k_meta_core: "k_meta (core p) d = map_option meta (map_get (pg_recipes p) d)"
  by (simp add: core_def)

lemma meta_recipe_of: "k_meta (core p) d = Some m \<Longrightarrow> meta (recipe_of p d) = m"
  by (auto simp: core_def recipe_of_def)

text \<open>A listener that leaves the core as it is, told of a document with the title and tags it knows\<close>

definition quiet_listener :: "(recipe \<Rightarrow> page \<Rightarrow> page) \<Rightarrow> core \<Rightarrow> bool" where
  "quiet_listener h k \<longleftrightarrow>
     (\<forall>q doc d. core q = k \<longrightarrow> k_attached k \<longrightarrow> k_store k = Some d \<longrightarrow> k_meta k d = Some (meta doc) \<longrightarrow> core (h doc q) = k)"

lemma quiet_view_changed: "quiet_listener view_changed k"
  by (simp add: quiet_listener_def)

lemma on_change_known: "(vw_lastTitle (pg_view p), vw_lastTags (pg_view p)) = meta doc \<Longrightarrow> on_change doc p = view_changed doc p"
  by (simp add: on_change_def meta_def)

lemma quiet_on_change: "k_ok k \<Longrightarrow> quiet_listener on_change k"
  unfolding quiet_listener_def
proof (intro allI impI)
  fix q doc d
  assume k: "k_ok k" "core q = k" "k_attached k" "k_store k = Some d" "k_meta k d = Some (meta doc)"
  then have "k_last k = meta doc" by (simp add: k_ok_def)
  then have "(vw_lastTitle (pg_view q), vw_lastTags (pg_view q)) = meta doc" using k(2) by (auto simp: core_def)
  then show "core (on_change doc q) = k" using k(2) by (simp add: on_change_known)
qed

lemma core_set_recipe:
  assumes "k_meta (core p) d = Some (meta doc)"
  shows "core (p\<lparr>pg_recipes := map_set d doc (pg_recipes p)\<rparr>) = core p"
proof -
  have "(\<lambda>e. map_option meta (map_get (map_set d doc (pg_recipes p)) e)) = (\<lambda>e. map_option meta (map_get (pg_recipes p) e))"
    using assms by (auto simp: map_eqs core_def fun_eq_iff)
  then show ?thesis by (simp add: core_def)
qed

lemma core_change_with:
  assumes "quiet_listener h (core p)" "k_meta (core p) d = Some (meta (f (recipe_of p d)))"
  shows "core (change_with h d f p) = core p"
proof -
  let ?doc = "f (recipe_of p d)"
  let ?p = "p\<lparr>pg_recipes := map_set d ?doc (pg_recipes p)\<rparr>"
  have c: "core ?p = core p" by (rule core_set_recipe [OF assms(2)])
  have "core (h ?doc ?p) = core p" if "vw_store (pg_view p) = Some d" "vw_attached (pg_view p)"
    using assms c that unfolding quiet_listener_def by (simp add: core_def)
  then show ?thesis using c by (simp add: change_with_def Let_def)
qed

lemma core_content_changed:
  assumes "quiet_listener h (core p)" "k_ok (core p)"
  shows "core (content_changed_with h p) = core p"
proof -
  have "core (change_with h d (\<lambda>doc. doc\<lparr>rc_updatedAt := pg_now p\<rparr>) p) = core p" if d: "d \<in> set (pg_open p)" for d
  proof -
    have "k_meta (core p) d \<noteq> None" using assms(2) d unfolding k_ok_def by (simp add: core_def)
    then obtain m where m: "k_meta (core p) d = Some m" by blast
    then have "k_meta (core p) d = Some (meta ((recipe_of p d)\<lparr>rc_updatedAt := pg_now p\<rparr>))"
      using meta_recipe_of [OF m] by (simp add: meta_def)
    then show ?thesis by (intro core_change_with assms(1))
  qed
  then show ?thesis by (simp add: content_changed_with_def Let_def split: option.split)
qed

lemma reconcile_meta: "meta (fst (reconcileRecipeLinkNames rs doc)) = meta doc"
  by (simp add: reconcileRecipeLinkNames_def meta_def Let_def)

lemma core_reconcile:
  assumes "quiet_listener h (core p)" "k_ok (core p)"
  shows "core (reconcile_with h p) = core p"
proof (cases "vw_store (pg_view p)")
  case (Some d)
  obtain doc ch where r: "reconcileRecipeLinkNames (active_recipes p) (recipe_of p d) = (doc, ch)" by force
  have "k_meta (core p) d \<noteq> None" using assms(2) Some unfolding k_ok_def by (simp add: core_def)
  then obtain m where m: "k_meta (core p) d = Some m" by blast
  have "meta doc = m" using reconcile_meta [of "active_recipes p" "recipe_of p d"] meta_recipe_of [OF m] by (simp add: r)
  then have c: "core (change_with h d (\<lambda>_. doc) p) = core p" by (intro core_change_with assms(1)) (simp add: m)
  then have "core (content_changed_with h (change_with h d (\<lambda>_. doc) p)) = core p"
    using core_content_changed [of h "change_with h d (\<lambda>_. doc) p"] assms by simp
  then show ?thesis by (simp add: reconcile_with_def Some r)
qed (simp add: reconcile_with_def)

lemma core_set_catalog:
  "core (p\<lparr>pg_catalogs := map_set c cat (pg_catalogs p)\<rparr>) = (core p)\<lparr>k_catalogs := (k_catalogs (core p))(c := Some cat)\<rparr>"
  by (auto simp: core_def map_eqs fun_eq_iff)

lemma k_ok_catalogs [simp]: "k_ok (k\<lparr>k_catalogs := x\<rparr>) = k_ok k"
  by (simp add: k_ok_def)

lemma k_ok_timer [simp]: "k_ok (k\<lparr>k_timer := x\<rparr>) = k_ok k"
  by (simp add: k_ok_def)

lemma core_change_catalog:
  assumes "map_get (pg_catalogs p) c = Some cat" "k_ok (core p)" "\<And>k. k_ok k \<Longrightarrow> quiet_listener h k"
  shows "core (change_catalog (reconcile_with h) c f p)
    = (core p)\<lparr>k_catalogs := (k_catalogs (core p))(c := Some (cat\<lparr>ct_recipes := f (ct_recipes cat)\<rparr>))\<rparr>"
proof -
  let ?p = "p\<lparr>pg_catalogs := map_set c (cat\<lparr>ct_recipes := f (ct_recipes cat)\<rparr>) (pg_catalogs p)\<rparr>"
  have "k_ok (core ?p)" using assms(2) by (simp add: core_set_catalog)
  then have "core (reconcile_with h ?p) = core ?p" by (intro core_reconcile assms(3))
  then show ?thesis using assms(1) by (simp add: change_catalog_def Let_def core_set_catalog)
qed

section \<open>Entries\<close>

lemma find_entry_simps [simp]:
  "find_entry i [] = None"
  "find_entry i (e # es) = (if ce_id e = i then Some e else find_entry i es)"
  by (simp_all add: find_entry_def)

lemma find_set_entry:
  "find_entry j (set_entry i t g es) = (if j = i then map_option (\<lambda>e. e\<lparr>ce_title := t, ce_tags := g\<rparr>) (find_entry i es) else find_entry j es)"
  by (induction es) auto

lemma ids_set_entry [simp]: "map ce_id (set_entry i t g es) = map ce_id es"
  by (induction es) auto

lemma set_entry_same: "find_entry i es = Some e \<Longrightarrow> ce_title e = t \<Longrightarrow> ce_tags e = g \<Longrightarrow> set_entry i t g es = es"
  by (induction es) (auto split: if_splits)

lemma set_entry_absent: "find_entry i es = None \<Longrightarrow> set_entry i t g es = es"
  by (induction es) (auto split: if_splits)

lemma set_entry_twice [simp]: "set_entry i t g (set_entry i t g es) = set_entry i t g es"
  by (induction es) auto

lemma find_None_iff': "find_entry i es = None \<longleftrightarrow> i \<notin> set (map ce_id es)"
  by (induction es) auto

lemma find_delete_entry:
  "distinct (map ce_id es) \<Longrightarrow> find_entry j (delete_entry i es) = (if j = i then None else find_entry j es)"
  by (induction es) (auto simp: find_None_iff')

lemma distinct_delete_entry: "distinct (map ce_id es) \<Longrightarrow> distinct (map ce_id (delete_entry i es))"
proof -
  have "set (map ce_id (delete_entry i es)) \<subseteq> set (map ce_id es)" for es by (induction es) auto
  then show "distinct (map ce_id es) \<Longrightarrow> distinct (map ce_id (delete_entry i es))" by (induction es) auto
qed

lemma find_entry_append: "find_entry j (es @ [e]) = (case find_entry j es of Some x \<Rightarrow> Some x | None \<Rightarrow> if ce_id e = j then Some e else None)"
  by (induction es) auto

section \<open>The core after each operation\<close>

lemma core_on_view: "core (on_view f p) = (let v = f (pg_view p) in (core p)\<lparr>k_store := vw_store v, k_recipe := vw_recipe v,
    k_attached := vw_attached v, k_editing := vw_editing v, k_canEdit := vw_canEdit v, k_timer := vw_timer v,
    k_last := (vw_lastTitle v, vw_lastTags v)\<rparr>)"
  by (simp add: core_def on_view_def Let_def)

lemma core_sels:
  "k_active (core p) = pg_active p" "k_selected (core p) = pg_selected p" "k_catalogs (core p) = map_get (pg_catalogs p)"
  "k_open (core p) = set (pg_open p)" "k_tasks (core p) = pg_tasks p" "k_store (core p) = vw_store (pg_view p)"
  "k_recipe (core p) = vw_recipe (pg_view p)" "k_attached (core p) = vw_attached (pg_view p)"
  "k_editing (core p) = vw_editing (pg_view p)" "k_canEdit (core p) = vw_canEdit (pg_view p)" "k_timer (core p) = vw_timer (pg_view p)"
  "k_last (core p) = (vw_lastTitle (pg_view p), vw_lastTags (pg_view p))"
  by (simp_all add: core_def)

lemma core_put_recipe:
  "core (p\<lparr>pg_recipes := map_set d doc (pg_recipes p)\<rparr>) = (core p)\<lparr>k_meta := (k_meta (core p))(d := Some (meta doc))\<rparr>"
  by (auto simp: core_def map_eqs fun_eq_iff)

text \<open>The open book with its catalog\<close>

definition k_book :: "core \<Rightarrow> book \<Rightarrow> catalog \<Rightarrow> bool" where
  "k_book k b cat \<longleftrightarrow> k_active k = Some b \<and> k_catalogs k (catalog_id (bk_vaultId b)) = Some cat"

lemma k_book_core:
  "k_book (core p) b cat \<Longrightarrow> pg_active p = Some b \<and> active_catalog p = Some cat \<and> catalogDocId p = catalog_id (bk_vaultId b) \<and>
    map_get (pg_catalogs p) (catalog_id (bk_vaultId b)) = Some cat"
  by (simp add: k_book_def core_sels active_catalog_def catalogDocId_def)

definition put_entries :: "book \<Rightarrow> catalog \<Rightarrow> catalog_entry list \<Rightarrow> core \<Rightarrow> core" where
  "put_entries b cat es k = k\<lparr>k_catalogs := (k_catalogs k)(catalog_id (bk_vaultId b) := Some (cat\<lparr>ct_recipes := es\<rparr>))\<rparr>"

lemma k_ok_put_entries [simp]: "k_ok (put_entries b cat es k) = k_ok k"
  by (simp add: put_entries_def)

lemma put_entries_same: "k_book k b cat \<Longrightarrow> put_entries b cat (ct_recipes cat) k = k"
  by (simp add: put_entries_def k_book_def fun_upd_idem)

lemma k_book_put: "k_book k b cat \<Longrightarrow> k_book (put_entries b cat es k) b (cat\<lparr>ct_recipes := es\<rparr>)"
  by (simp add: k_book_def put_entries_def)

lemma put_entries_twice: "put_entries b (cat\<lparr>ct_recipes := es\<rparr>) es' (put_entries b cat es k) = put_entries b cat es' k"
  by (simp add: put_entries_def)

lemma core_catalog_of_book:
  assumes "k_book (core p) b cat" "k_ok (core p)" "\<And>k. k_ok k \<Longrightarrow> quiet_listener h k"
  shows "core (change_catalog (reconcile_with h) (catalogDocId p) f p) = put_entries b cat (f (ct_recipes cat)) (core p)"
  using core_change_catalog [OF _ assms(2,3), of "catalogDocId p" cat f] k_book_core [OF assms(1)]
  by (simp add: put_entries_def)

text \<open>A change of title or tags of the recipe shown\<close>

definition put_meta :: "string \<Rightarrow> string \<times> string list \<Rightarrow> core \<Rightarrow> core" where
  "put_meta d m k = k\<lparr>k_meta := (k_meta k)(d := Some m), k_last := m\<rparr>"

lemma k_ok_put_meta: "k_ok k \<Longrightarrow> k_store k = Some d \<Longrightarrow> k_ok (put_meta d m k)"
  by (auto simp: k_ok_def put_meta_def)

lemma core_sync:
  assumes "k_book (core p) b cat" "pg_selected p = Some i" "k_ok (core p)"
  shows "core (onSyncCatalogMeta t g p) = put_entries b cat (set_entry i t g (ct_recipes cat)) (core p)"
proof (cases "find_entry i (ct_recipes cat)")
  case None
  then show ?thesis
    using assms k_book_core [OF assms(1)] by (simp add: onSyncCatalogMeta_def set_entry_absent put_entries_same)
next
  case (Some e)
  note c = core_catalog_of_book [OF assms(1,3) quiet_view_changed, of "set_entry i t g"]
  show ?thesis
    using assms k_book_core [OF assms(1)] Some c
    by (auto simp: onSyncCatalogMeta_def set_entry_same put_entries_same)
qed

lemma core_on_change:
  assumes "k_book (core p) b cat" "pg_selected p = Some i" "k_store (core p) = Some d" "k_meta (core p) d = Some (meta doc)"
    and "\<forall>d \<in> k_open (core p). k_meta (core p) d \<noteq> None"
  shows "\<exists>es. core (on_change doc p) = put_entries b cat es ((core p)\<lparr>k_last := meta doc\<rparr>) \<and>
    es \<in> {ct_recipes cat, set_entry i (rc_title doc) (rc_tags doc) (ct_recipes cat)}"
proof (cases "meta doc = k_last (core p)")
  case True
  then have "on_change doc p = view_changed doc p" by (intro on_change_known) (simp add: core_sels)
  with True have "core (on_change doc p) = (core p)\<lparr>k_last := meta doc\<rparr>" by simp
  moreover have "k_book ((core p)\<lparr>k_last := meta doc\<rparr>) b cat" using assms(1) by (simp add: k_book_def)
  ultimately show ?thesis by (intro exI [of _ "ct_recipes cat"]) (simp add: put_entries_same)
next
  case False
  let ?p = "on_view (\<lambda>v. v\<lparr>vw_lastTitle := rc_title doc, vw_lastTags := rc_tags doc\<rparr>) p"
  have c: "core ?p = (core p)\<lparr>k_last := meta doc\<rparr>" by (simp add: core_on_view Let_def meta_def) (simp add: core_def)
  have "pg_selected ?p = Some i" using assms(2) by (simp add: on_view_def)
  moreover have "k_book (core ?p) b cat" "k_ok (core ?p)" using assms unfolding c by (auto simp: k_book_def k_ok_def)
  ultimately have "core (onSyncCatalogMeta (rc_title doc) (rc_tags doc) ?p)
      = put_entries b cat (set_entry i (rc_title doc) (rc_tags doc) (ct_recipes cat)) (core ?p)" by (intro core_sync)
  with False show ?thesis unfolding c by (auto simp: on_change_def Let_def meta_def core_sels)
qed

lemma core_flush:
  assumes "k_book (core p) b cat" "k_ok (core p)" "pg_selected p = Some i" "vw_store (pg_view p) = Some d" "vw_attached (pg_view p)"
  defines "t \<equiv> form_title (vw_form (pg_view p)) (recipe_of p d)" and "g \<equiv> mf_tags (vw_form (pg_view p))"
  shows "core (flushMeta p) = put_entries b cat (set_entry i t g (ct_recipes cat)) (put_meta d (t, g) ((core p)\<lparr>k_timer := False\<rparr>))"
proof -
  define p1 where "p1 = on_view (\<lambda>v. v\<lparr>vw_timer := False\<rparr>) p"
  have c1: "core p1 = (core p)\<lparr>k_timer := False\<rparr>" by (simp add: p1_def core_on_view Let_def) (simp add: core_def)
  have v1: "vw_store (pg_view p1) = Some d" "vw_attached (pg_view p1)" "vw_form (pg_view p1) = vw_form (pg_view p)" "recipe_of p1 = recipe_of p"
    "pg_selected p1 = Some i"
    using assms(3-5) by (simp_all add: p1_def on_view_def recipe_of_def fun_eq_iff)
  let ?doc = "form_change (vw_form (pg_view p)) (pg_now p1) (recipe_of p d)"
  define p2 where "p2 = p1\<lparr>pg_recipes := map_set d ?doc (pg_recipes p1)\<rparr>"
  have m: "meta ?doc = (t, g)" by (simp add: meta_def form_change_def t_def g_def)
  have c2: "core p2 = (core p1)\<lparr>k_meta := (k_meta (core p1))(d := Some (t, g))\<rparr>"
    unfolding p2_def core_put_recipe m ..
  have "k_book (core p2) b cat" "pg_selected p2 = Some i" "k_store (core p2) = Some d" "k_meta (core p2) d = Some (meta ?doc)"
    "\<forall>d \<in> k_open (core p2). k_meta (core p2) d \<noteq> None"
    using assms(1,2,4) v1(5) unfolding c2 c1 m by (auto simp: k_book_def p2_def core_sels k_ok_def)
  from core_on_change [OF this] obtain es
    where c3: "core (on_change ?doc p2) = put_entries b cat es ((core p2)\<lparr>k_last := (t, g)\<rparr>)"
      and es: "es \<in> {ct_recipes cat, set_entry i t g (ct_recipes cat)}"
    unfolding m by (auto simp: form_change_def t_def g_def)
  define p3 where "p3 = on_change ?doc p2"
  have k3: "core p3 = put_entries b cat es (put_meta d (t, g) ((core p)\<lparr>k_timer := False\<rparr>))"
    unfolding p3_def c3 c2 c1 by (simp add: put_meta_def)
  have ok3: "k_ok (core p3)"
    unfolding k3 k_ok_put_entries using assms(2,4) by (intro k_ok_put_meta) (simp_all add: core_sels)
  have b3: "k_book (core p3) b (cat\<lparr>ct_recipes := es\<rparr>)"
    unfolding k3 by (rule k_book_put) (use assms(1) in \<open>simp add: k_book_def put_meta_def\<close>)
  have s3: "pg_selected p3 = Some i"
  proof -
    have "k_selected (core p3) = Some i" unfolding k3 using assms(3) by (simp add: put_entries_def put_meta_def core_sels)
    then show ?thesis by (simp add: core_sels)
  qed
  have ch: "change_recipe d (form_change (vw_form (pg_view p)) (pg_now p1)) p1 = p3"
    using v1 by (simp add: change_with_def Let_def p3_def p2_def)
  have "flushMeta p = onMetaChanged t g p3"
    unfolding flushMeta_def Let_def p1_def [symmetric] v1 option.case ch t_def [symmetric] g_def [symmetric] ..
  moreover define q where "q = tell (Push (doc_id (bk_vaultId b) i)) p3"
  moreover have bq: "k_book (core q) b (cat\<lparr>ct_recipes := es\<rparr>)" using b3 by (simp add: q_def)
  ultimately have "core (flushMeta p) = core (change_catalog onCatalogChanged (catalogDocId q) (set_entry i t g) q)"
    using k_book_core [OF b3] k_book_core [OF bq] s3 by (simp add: onMetaChanged_def Let_def)
  also have "\<dots> = put_entries b (cat\<lparr>ct_recipes := es\<rparr>) (set_entry i t g es) (core q)"
    using core_catalog_of_book [OF bq _ quiet_on_change, of "set_entry i t g"] ok3 by (simp add: q_def)
  also have "set_entry i t g es = set_entry i t g (ct_recipes cat)" using es by auto
  finally show ?thesis by (simp add: q_def k3 put_entries_twice)
qed

lemma core_close:
  "\<not> vw_timer (pg_view p) \<Longrightarrow>
    core (closeRecipe p) = (core p)\<lparr>k_store := None, k_recipe := None, k_attached := False, k_editing := False\<rparr>"
  by (simp add: closeRecipe_def core_on_view Let_def) (simp add: core_def)

lemma core_open:
  assumes "\<not> vw_timer (pg_view p)" "k_meta (core p) d = Some m" "\<forall>e \<in> k_open (core p). k_meta (core p) e \<noteq> None"
  shows "core (openRecipe d i e p) = (core p)\<lparr>k_store := Some d, k_recipe := Some i, k_attached := True, k_editing := False,
    k_canEdit := e, k_last := m\<rparr>"
proof -
  define p1 where "p1 = closeRecipe p"
  note c1 = core_close [OF assms(1), folded p1_def]
  have m1: "k_meta (core p1) d = Some m" using assms(2) by (simp add: c1)
  let ?doc = "recipe_of p1 d"
  have doc: "(rc_title ?doc, rc_tags ?doc) = m" using meta_recipe_of [OF m1] by (simp add: meta_def)
  define p2 where "p2 = on_view (\<lambda>v. v\<lparr>vw_store := Some d, vw_recipe := Some i, vw_lastTitle := rc_title ?doc, vw_lastTags := rc_tags ?doc,
      vw_scaling := open_scaling ?doc (vw_scaling v), vw_canEdit := e\<rparr>) p1"
  have "core p2 = (core p1)\<lparr>k_store := Some d, k_recipe := Some i, k_canEdit := e, k_last := m\<rparr>"
    unfolding p2_def by (simp add: core_on_view Let_def doc) (simp add: core_def)
  then have c2: "core p2 = (core p)\<lparr>k_store := Some d, k_recipe := Some i, k_attached := False, k_editing := False, k_canEdit := e, k_last := m\<rparr>"
    by (simp add: c1)
  have ok2: "k_ok (core p2)" using assms(2,3) by (simp add: c2 k_ok_def)
  define p3 where "p3 = reconcile_with on_change p2"
  have c3: "core p3 = core p2" unfolding p3_def by (rule core_reconcile [OF quiet_on_change [OF ok2] ok2])
  then have "\<not> k_editing (core p3)" by (simp add: c2)
  then have e3: "\<not> vw_editing (pg_view p3)" by (simp add: core_sels)
  have "core (setPageEditing False p3) = core p3"
    using e3 by (simp add: setPageEditing_def Let_def core_on_view split: option.split) (simp add: core_def)
  then show ?thesis
    unfolding openRecipe_def Let_def p1_def [symmetric] p2_def [symmetric] p3_def [symmetric]
    using c2 c3 by (simp add: core_on_view Let_def) (simp add: core_def)
qed

text \<open>The button, the form and the button again\<close>

definition edit_and_done :: "meta_form \<Rightarrow> page \<Rightarrow> page" where
  "edit_and_done f p = page_step (page_step (page_step p (Editing True)) (Form f)) (Editing False)"

lemma core_edit_and_done:
  assumes "k_book (core p) b cat" "k_ok (core p)" "pg_selected p = Some i" "vw_store (pg_view p) = Some d" "vw_attached (pg_view p)"
    and "vw_canEdit (pg_view p)" "\<not> vw_editing (pg_view p)" "\<not> vw_timer (pg_view p)" "t = form_title f (recipe_of p d)"
  shows "core (edit_and_done f p) = put_entries b cat (set_entry i t (mf_tags f) (ct_recipes cat)) (put_meta d (t, mf_tags f) (core p))"
proof -
  define p1 where "p1 = setPageEditing True p"
  have p1: "p1 = p\<lparr>pg_view := (pg_view p)\<lparr>vw_editing := True, vw_form := fill_form (recipe_of p d),
      vw_scaling := edit_scaling (vw_scaling (pg_view p))\<rparr>\<rparr>"
    using assms(4,6,7) by (simp add: p1_def setPageEditing_def Let_def on_view_def recipe_of_def)
  define p2 where "p2 = page_step p1 (Form f)"
  have p2: "p2 = p\<lparr>pg_view := (pg_view p)\<lparr>vw_editing := True, vw_form := f, vw_timer := True,
      vw_scaling := edit_scaling (vw_scaling (pg_view p))\<rparr>\<rparr>"
    using assms(4) by (simp add: p2_def page_step_def p1 debounceMeta_def on_view_def)
  define p3 where "p3 = on_view (\<lambda>v. v\<lparr>vw_editing := False\<rparr>) p2"
  have c3: "core p3 = (core p)\<lparr>k_timer := True\<rparr>"
    using assms(7) by (simp add: p3_def p2 on_view_def core_def)
  have v3: "vw_store (pg_view p3) = Some d" "vw_attached (pg_view p3)" "vw_form (pg_view p3) = f" "recipe_of p3 = recipe_of p"
    "pg_selected p3 = Some i"
    using assms(3-5) by (simp_all add: p3_def p2 on_view_def recipe_of_def fun_eq_iff)
  have "edit_and_done f p = setPageEditing False p2" by (simp add: edit_and_done_def p2_def p1_def) (simp add: page_step_def)
  also have "\<dots> = flushMeta p3"
    unfolding setPageEditing_def Let_def p3_def [symmetric] v3(1) option.case by (simp add: p2)
  finally have "core (edit_and_done f p) = core (flushMeta p3)" by simp
  also have "\<dots> = put_entries b cat (set_entry i t (mf_tags f) (ct_recipes cat)) (put_meta d (t, mf_tags f) ((core p3)\<lparr>k_timer := False\<rparr>))"
    using core_flush [of p3 b cat i d] assms(1,2,9) v3 by (simp add: c3 k_book_def)
  also have "(core p3)\<lparr>k_timer := False\<rparr> = core p" using assms(8) c3 by (simp add: core_def)
  finally show ?thesis .
qed

section \<open>The library\<close>

record library =
  lib_titles :: "string \<Rightarrow> (string \<times> string list) option"
  lib_shown :: "string option"

definition k_titles :: "core \<Rightarrow> string \<Rightarrow> (string \<times> string list) option" where
  "k_titles k i =
     (case k_active k of
        None \<Rightarrow> None
      | Some b \<Rightarrow>
          (case k_catalogs k (catalog_id (bk_vaultId b)) of
             None \<Rightarrow> None
           | Some cat \<Rightarrow> map_option (\<lambda>e. (ce_title e, ce_tags e)) (find_entry i (ct_recipes cat))))"

definition library_of :: "page \<Rightarrow> library" where
  "library_of p = \<lparr>lib_titles = k_titles (core p), lib_shown = vw_recipe (pg_view p)\<rparr>"

datatype user_op = U_Select string | U_Back | U_Add string meta_form | U_Edit meta_form | U_Delete

text \<open>What the operations promise\<close>

definition library_step :: "library \<Rightarrow> user_op \<Rightarrow> library" where
  "library_step l u =
     (case u of
        U_Select i \<Rightarrow> l\<lparr>lib_shown := Some i\<rparr>
      | U_Back \<Rightarrow> l\<lparr>lib_shown := None\<rparr>
      | U_Add i f \<Rightarrow> l\<lparr>lib_titles := (lib_titles l)(i := Some (js_trim (mf_title f), mf_tags f)), lib_shown := Some i\<rparr>
      | U_Edit f \<Rightarrow>
          (case lib_shown l of
             None \<Rightarrow> l
           | Some i \<Rightarrow>
               (case lib_titles l i of
                  None \<Rightarrow> l
                | Some (title, tags) \<Rightarrow>
                    l\<lparr>lib_titles := (lib_titles l)(i := Some (if js_trim (mf_title f) = [] then title else js_trim (mf_title f), mf_tags f))\<rparr>))
      | U_Delete \<Rightarrow>
          (case lib_shown l of None \<Rightarrow> l | Some i \<Rightarrow> l\<lparr>lib_titles := (lib_titles l)(i := None), lib_shown := None\<rparr>))"

text \<open>How the page does them, each to its end\<close>

definition finish :: "page \<Rightarrow> page" where
  "finish p = resume_nth 0 (resume_nth 0 (resume_nth 0 p))"

definition user_step :: "page \<Rightarrow> user_op \<Rightarrow> page" where
  "user_step p u =
     (case u of
        U_Select i \<Rightarrow> finish (page_step p (Selected i None))
      | U_Back \<Rightarrow> finish (page_step p Back)
      | U_Add i f \<Rightarrow> finish (page_step p (Add i f))
      | U_Edit f \<Rightarrow> (if vw_store (pg_view p) = None then p else edit_and_done f p)
      | U_Delete \<Rightarrow> finish (page_step p Delete))"

text \<open>A recipe is selected from the list; a new one has a title and an identifier of its own.\<close>

definition proper :: "page \<Rightarrow> user_op \<Rightarrow> bool" where
  "proper p u =
     (case u of
        U_Select i \<Rightarrow> lib_titles (library_of p) i \<noteq> None
      | U_Add i f \<Rightarrow> i \<noteq> [] \<and> js_trim (mf_title f) \<noteq> [] \<and> lib_titles (library_of p) i = None \<and>
          (\<forall>b. pg_active p = Some b \<longrightarrow> map_get (pg_recipes p) (doc_id (bk_vaultId b) i) = None)
      | _ \<Rightarrow> True)"

abbreviation proper_run :: "page \<Rightarrow> user_op list \<Rightarrow> bool" where
  "proper_run \<equiv> guarded_run proper user_step"

text \<open>A page at rest: the catalog agrees with the documents, and the recipe selected is the one shown.\<close>

definition k_base :: "core \<Rightarrow> book \<Rightarrow> catalog \<Rightarrow> bool" where
  "k_base k b cat \<longleftrightarrow>
     k_tasks k = [] \<and> \<not> k_timer k \<and> \<not> k_editing k \<and> (\<forall>d \<in> k_open k. k_meta k d \<noteq> None) \<and>
     k_book k b cat \<and> editable_book b \<and> distinct (map ce_id (ct_recipes cat)) \<and>
     (\<forall>i e. find_entry i (ct_recipes cat) = Some e \<longrightarrow>
        i \<noteq> [] \<and> ce_title e \<noteq> [] \<and> k_meta k (doc_id (bk_vaultId b) i) = Some (ce_title e, ce_tags e))"

definition k_shows :: "core \<Rightarrow> book \<Rightarrow> catalog \<Rightarrow> bool" where
  "k_shows k b cat \<longleftrightarrow>
     (case k_selected k of
        None \<Rightarrow> k_store k = None \<and> k_recipe k = None
      | Some i \<Rightarrow> k_recipe k = Some i \<and> k_store k = Some (doc_id (bk_vaultId b) i) \<and> k_attached k \<and> k_canEdit k \<and>
          (\<exists>e. find_entry i (ct_recipes cat) = Some e \<and> k_last k = (ce_title e, ce_tags e)))"

definition at_rest :: "core \<Rightarrow> bool" where
  "at_rest k \<longleftrightarrow> (\<exists>b cat. k_base k b cat \<and> k_shows k b cat)"

lemma rest_ok: "k_base k b cat \<Longrightarrow> k_shows k b cat \<Longrightarrow> k_ok k"
  by (auto simp: k_base_def k_shows_def k_ok_def split: option.splits)

lemma doc_id_inj [simp]: "doc_id v i = doc_id v j \<longleftrightarrow> i = j"
  by (simp add: doc_id_def)

lemma resume_first: "pg_tasks p = [t] \<Longrightarrow> resume_nth 0 p = resume_task t (p\<lparr>pg_tasks := []\<rparr>)"
  by (simp add: resume_nth_def)

lemma resume_none: "pg_tasks p = [] \<Longrightarrow> resume_nth 0 p = p"
  by (simp add: resume_nth_def)

lemma core_open_docs: "core (p\<lparr>pg_open := xs\<rparr>) = (core p)\<lparr>k_open := set xs\<rparr>"
  by (simp add: core_def)

lemma core_tasks: "core (p\<lparr>pg_tasks := ts\<rparr>) = (core p)\<lparr>k_tasks := ts\<rparr>"
  by (simp add: core_def)

lemma core_selected: "core (p\<lparr>pg_selected := s\<rparr>) = (core p)\<lparr>k_selected := s\<rparr>"
  by (simp add: core_def)

lemma core_add_task: "core (add_task t p) = (core p)\<lparr>k_tasks := k_tasks (core p) @ [t]\<rparr>"
  by (simp add: core_def add_task_def)

lemmas core_updates = core_tasks core_open_docs core_selected core_add_task core_tell

text \<open>A core with the recipe shown\<close>

definition show_recipe :: "string \<Rightarrow> string \<Rightarrow> string \<times> string list \<Rightarrow> core \<Rightarrow> core" where
  "show_recipe v i m k =
     k\<lparr>k_selected := Some i, k_open := insert (doc_id v i) (k_open k), k_store := Some (doc_id v i), k_recipe := Some i,
       k_attached := True, k_editing := False, k_canEdit := True, k_last := m\<rparr>"

lemma core_select_opened:
  assumes "k_base ((core p)\<lparr>k_tasks := []\<rparr>) b cat" "find_entry i (ct_recipes cat) = Some e" "pg_selected p = Some i"
  shows "core (select_opened i (bk_vaultId b) p) = show_recipe (bk_vaultId b) i (ce_title e, ce_tags e) (core p)"
proof -
  let ?d = "doc_id (bk_vaultId b) i"
  have m: "k_meta (core p) ?d = Some (ce_title e, ce_tags e)" "ce_title e \<noteq> []" "\<not> vw_timer (pg_view p)"
    "\<forall>d \<in> k_open (core p). k_meta (core p) d \<noteq> None" "k_book (core p) b cat" "editable_book b"
    using assms(1,2) by (auto simp: k_base_def k_book_def core_sels)
  define p1 where "p1 = tell (Subscribe ?d) (p\<lparr>pg_open := set_add ?d (pg_open p)\<rparr>)"
  have c1: "core p1 = (core p)\<lparr>k_open := insert ?d (k_open (core p))\<rparr>" by (simp add: p1_def core_updates core_sels)
  have b1: "k_book (core p1) b cat" using m(5) by (simp add: c1 k_book_def)
  have "k_meta (core p1) ?d = Some (ce_title e, ce_tags e)" using m(1) by (simp add: c1)
  from meta_recipe_of [OF this] have r: "rc_title (recipe_of p1 ?d) = ce_title e" "rc_tags (recipe_of p1 ?d) = ce_tags e"
    by (simp_all add: meta_def)
  have "can_edit p1" using k_book_core [OF b1] m(6) by (simp add: can_edit_def editable_book_def)
  then have s: "select_opened i (bk_vaultId b) p = openRecipe ?d i True p1"
    using k_book_core [OF b1] assms(2) m(2) r by (simp add: select_opened_def p1_def [symmetric] Let_def)
  have "\<not> vw_timer (pg_view p1)" using m(3) by (simp add: p1_def tell_def)
  moreover have "\<forall>d \<in> k_open (core p1). k_meta (core p1) d \<noteq> None" using m(1,4) by (simp add: c1)
  moreover have "k_meta (core p1) ?d = Some (ce_title e, ce_tags e)" using m(1) by (simp add: c1)
  ultimately have "core (openRecipe ?d i True p1) = (core p1)\<lparr>k_store := Some ?d, k_recipe := Some i, k_attached := True,
      k_editing := False, k_canEdit := True, k_last := (ce_title e, ce_tags e)\<rparr>" by (intro core_open)
  moreover have "k_selected (core p) = Some i" using assms(3) by (simp add: core_sels)
  then have "(core p)\<lparr>k_selected := Some i\<rparr> = core p" by simp
  ultimately show ?thesis unfolding s c1 show_recipe_def by (metis (no_types, lifting) core.surjective core.update_convs(2))
qed

section \<open>Each operation\<close>

lemma base_core:
  assumes "k_base (core p) b cat"
  shows "pg_tasks p = []" "\<not> vw_timer (pg_view p)" "\<not> vw_editing (pg_view p)" "k_book (core p) b cat" "editable_book b"
    "distinct (map ce_id (ct_recipes cat))" "\<forall>d \<in> k_open (core p). k_meta (core p) d \<noteq> None"
  using assms by (simp_all add: k_base_def core_sels)

lemma k_base_view:
  "k_base (k\<lparr>k_selected := s\<rparr>) b cat = k_base k b cat" "k_base (k\<lparr>k_store := d\<rparr>) b cat = k_base k b cat"
  "k_base (k\<lparr>k_recipe := s\<rparr>) b cat = k_base k b cat" "k_base (k\<lparr>k_attached := a\<rparr>) b cat = k_base k b cat"
  "k_base (k\<lparr>k_canEdit := a\<rparr>) b cat = k_base k b cat" "k_base (k\<lparr>k_last := m\<rparr>) b cat = k_base k b cat"
  by (simp_all add: k_base_def k_book_def)

lemma k_base_open: "k_base k b cat \<Longrightarrow> \<forall>d \<in> D. k_meta k d \<noteq> None \<Longrightarrow> k_base (k\<lparr>k_open := D\<rparr>) b cat"
  by (simp add: k_base_def k_book_def)

lemma show_rest:
  assumes "k_base k b cat" "find_entry i (ct_recipes cat) = Some e"
  shows "k_base (show_recipe (bk_vaultId b) i (ce_title e, ce_tags e) k) b cat"
    and "k_shows (show_recipe (bk_vaultId b) i (ce_title e, ce_tags e) k) b cat"
    and "k_titles (show_recipe (bk_vaultId b) i (ce_title e, ce_tags e) k) = k_titles k"
  using assms by (auto simp: k_base_def k_book_def k_shows_def show_recipe_def k_titles_def fun_eq_iff)

lemma select_opening_finished:
  assumes "k_base (core p) b cat" "find_entry i (ct_recipes cat) = Some e"
  shows "core (resume_nth 0 (select_opening i (bk_vaultId b) p)) = show_recipe (bk_vaultId b) i (ce_title e, ce_tags e) (core p)"
proof -
  let ?q = "p\<lparr>pg_selected := Some i\<rparr>"
  have t: "pg_tasks p = []" using base_core [OF assms(1)] by simp
  then have "resume_nth 0 (select_opening i (bk_vaultId b) p) = select_opened i (bk_vaultId b) (?q\<lparr>pg_tasks := []\<rparr>)"
    by (simp add: resume_first select_opening_def add_task_def resume_task_def)
  also have "?q\<lparr>pg_tasks := []\<rparr> = ?q" using t by (cases p) simp
  finally have "core (resume_nth 0 (select_opening i (bk_vaultId b) p)) = core (select_opened i (bk_vaultId b) ?q)" by simp
  also have "\<dots> = show_recipe (bk_vaultId b) i (ce_title e, ce_tags e) (core ?q)"
    using assms base_core(1) [OF assms(1)]
    by (intro core_select_opened) (simp_all add: core_updates k_base_view, simp add: k_base_def k_book_def)
  finally show ?thesis by (simp add: show_recipe_def core_updates)
qed

lemma select_finished:
  assumes "k_base (core p) b cat" "find_entry i (ct_recipes cat) = Some e"
  shows "\<exists>D \<subseteq> k_open (core p). core (resume_nth 0 (resume_nth 0 (selectRecipe i p)))
    = show_recipe (bk_vaultId b) i (ce_title e, ce_tags e) ((core p)\<lparr>k_open := D\<rparr>)"
proof -
  note b = base_core [OF assms(1)] and kb = k_book_core [OF base_core(4) [OF assms(1)]]
  show ?thesis
  proof (cases "\<exists>prev. pg_selected p = Some prev \<and> prev \<noteq> [] \<and> prev \<noteq> i")
    case True
    then obtain prev where prev: "pg_selected p = Some prev" "prev \<noteq> []" "prev \<noteq> i" by blast
    let ?d = "doc_id (bk_vaultId b) prev"
    define p1 where "p1 = (tell (Unsubscribe ?d) p)\<lparr>pg_open := set_delete ?d (pg_open p)\<rparr>"
    have c1: "core p1 = (core p)\<lparr>k_open := k_open (core p) - {?d}\<rparr>" by (simp add: p1_def core_updates core_sels)
    have "selectRecipe i p = add_task (Select_Closing i (bk_vaultId b) ?d) (tell (Unsubscribe ?d) p)"
      using prev kb by (simp add: selectRecipe_def Let_def)
    moreover have e: "p\<lparr>pg_log := l, pg_tasks := [], pg_open := D\<rparr> = p\<lparr>pg_log := l, pg_open := D\<rparr>" for l D
      using b(1) by (cases p) simp
    ultimately have "resume_nth 0 (selectRecipe i p) = select_opening i (bk_vaultId b) p1"
      using b(1) by (simp add: add_task_def tell_def resume_first resume_task_def p1_def) (simp only: e)
    moreover have "k_base (core p1) b cat" unfolding c1 using b(7) by (intro k_base_open assms(1)) simp
    ultimately show ?thesis
      using select_opening_finished [of p1 b cat i e] assms(2) unfolding c1 by (intro exI [of _ "k_open (core p) - {?d}"]) auto
  next
    case False
    then have "selectRecipe i p = select_opening i (bk_vaultId b) p" using kb by (auto simp: selectRecipe_def split: option.split)
    moreover note s = select_opening_finished [OF assms]
    moreover have "pg_tasks (resume_nth 0 (select_opening i (bk_vaultId b) p)) = []"
      using arg_cong [OF s, of k_tasks] b(1) by (simp add: show_recipe_def core_sels)
    ultimately show ?thesis
      by (intro exI [of _ "k_open (core p)"]) (simp add: resume_none)
  qed
qed

lemma tasks_shown: "core q = show_recipe v i m k \<Longrightarrow> k_tasks k = [] \<Longrightarrow> resume_nth 0 q = q"
proof -
  assume "core q = show_recipe v i m k" "k_tasks k = []"
  then have "k_tasks (core q) = []" by (simp add: show_recipe_def)
  then show ?thesis by (simp add: core_sels resume_none)
qed

lemma select_at_rest:
  assumes "k_base (core p) b cat" "find_entry i (ct_recipes cat) = Some e"
    and "q = resume_nth 0 (resume_nth 0 (selectRecipe i p))"
  shows "at_rest (core q)" "k_titles (core q) = k_titles (core p)" "k_recipe (core q) = Some i" "resume_nth 0 q = q"
proof -
  obtain D where D: "D \<subseteq> k_open (core p)"
    and q: "core q = show_recipe (bk_vaultId b) i (ce_title e, ce_tags e) ((core p)\<lparr>k_open := D\<rparr>)"
    using select_finished [OF assms(1,2)] unfolding assms(3) by blast
  have base: "k_base ((core p)\<lparr>k_open := D\<rparr>) b cat" using base_core(7) [OF assms(1)] D by (intro k_base_open assms(1)) blast
  show "at_rest (core q)" unfolding q at_rest_def using show_rest(1,2) [OF base assms(2)] by blast
  show "k_titles (core q) = k_titles (core p)"
    unfolding q show_rest(3) [OF base assms(2)] by (simp add: k_titles_def fun_eq_iff split: option.split)
  show "k_recipe (core q) = Some i" by (simp add: q show_recipe_def)
  show "resume_nth 0 q = q" by (rule tasks_shown [OF q]) (use base in \<open>simp add: k_base_def\<close>)
qed

text \<open>Nothing shown\<close>

definition show_nothing :: "core \<Rightarrow> core" where
  "show_nothing k = k\<lparr>k_selected := None, k_store := None, k_recipe := None, k_attached := False, k_editing := False\<rparr>"

lemma deselected:
  assumes "pg_tasks p = [Deselecting d]" "\<not> vw_timer (pg_view p)"
  shows "core (resume_nth 0 p) = show_nothing ((core p)\<lparr>k_tasks := [], k_open := k_open (core p) - {d}\<rparr>)"
proof -
  let ?q = "p\<lparr>pg_tasks := [], pg_open := set_delete d (pg_open p), pg_selected := None\<rparr>"
  have "resume_nth 0 p = closeRecipe ?q" using assms(1) by (simp add: resume_first resume_task_def deselect_end_def)
  moreover have "core (closeRecipe ?q) = (core ?q)\<lparr>k_store := None, k_recipe := None, k_attached := False, k_editing := False\<rparr>"
    using assms(2) by (intro core_close) simp
  ultimately show ?thesis by (simp add: show_nothing_def core_updates core_sels)
qed

lemma k_base_nothing: "k_base k b cat \<Longrightarrow> k_base (show_nothing k) b cat \<and> k_shows (show_nothing k) b cat"
  by (simp add: show_nothing_def k_base_def k_book_def k_shows_def)

lemma deselectRecipe_task:
  assumes "k_base (core p) b cat" "pg_selected p = Some i" "i \<noteq> []"
  shows "deselectRecipe p = add_task (Deselecting (doc_id (bk_vaultId b) i)) (tell (Unsubscribe (doc_id (bk_vaultId b) i)) p)"
  using k_book_core [OF base_core(4) [OF assms(1)]] assms(2,3) by (simp add: deselectRecipe_def Let_def)

lemma finish_one: "pg_tasks (resume_nth 0 p) = [] \<Longrightarrow> finish p = resume_nth 0 p"
  by (simp add: finish_def resume_none)

lemma rest_library:
  assumes "at_rest (core p)"
  obtains b cat where "k_base (core p) b cat" "k_shows (core p) b cat"
  using assms by (auto simp: at_rest_def)

lemma titles_of_book: "k_book k b cat \<Longrightarrow> k_titles k = (\<lambda>i. map_option (\<lambda>e. (ce_title e, ce_tags e)) (find_entry i (ct_recipes cat)))"
  by (simp add: k_titles_def k_book_def fun_eq_iff)

lemma library_of_core: "library_of p = \<lparr>lib_titles = k_titles (core p), lib_shown = k_recipe (core p)\<rparr>"
  by (simp add: library_of_def core_sels)

text \<open>What has to be shown for each operation\<close>

definition implements :: "page \<Rightarrow> user_op \<Rightarrow> bool" where
  "implements p u \<longleftrightarrow> at_rest (core (user_step p u)) \<and> library_of (user_step p u) = library_step (library_of p) u"

lemma select_implements:
  assumes "at_rest (core p)" "proper p (U_Select i)"
  shows "implements p (U_Select i)"
proof -
  obtain b cat where b: "k_base (core p) b cat" by (rule rest_library [OF assms(1)])
  obtain e where e: "find_entry i (ct_recipes cat) = Some e"
    using assms(2) titles_of_book [OF base_core(4) [OF b]] by (auto simp: proper_def library_of_core)
  define q where "q = resume_nth 0 (resume_nth 0 (selectRecipe i p))"
  note s = select_at_rest [OF b e q_def]
  have "user_step p (U_Select i) = q"
    using s(4) by (simp add: user_step_def page_step_def onSelect_def finish_def q_def)
  with s show ?thesis by (simp add: implements_def library_of_core library_step_def)
qed

lemma nothing_at_rest:
  assumes "k_base k b cat"
  shows "at_rest (show_nothing k)" "k_titles (show_nothing k) = k_titles k" "k_recipe (show_nothing k) = None" "k_tasks (show_nothing k) = []"
  using k_base_nothing [OF assms] assms
  by (auto simp: at_rest_def show_nothing_def k_titles_def fun_eq_iff k_base_def split: option.split)

text \<open>A page with the end of a deselection under way\<close>

lemma deselection_ends:
  assumes "pg_tasks q = [Deselecting d]" "k_base ((core q)\<lparr>k_tasks := []\<rparr>) b cat"
  shows "at_rest (core (finish q))" "k_titles (core (finish q)) = k_titles (core q)" "k_recipe (core (finish q)) = None"
proof -
  let ?k = "(core q)\<lparr>k_tasks := [], k_open := k_open (core q) - {d}\<rparr>"
  have "\<not> vw_timer (pg_view q)" using assms(2) by (simp add: k_base_def core_sels)
  note c = deselected [OF assms(1) this]
  have b: "k_base ?k b cat" using k_base_open [OF assms(2), of "k_open (core q) - {d}"] assms(2) by (simp add: k_base_def)
  have "k_tasks (core (resume_nth 0 q)) = []" using nothing_at_rest(4) [OF b] by (simp add: c)
  then have f: "finish q = resume_nth 0 q" by (intro finish_one) (simp add: core_sels)
  have "k_titles ?k = k_titles (core q)" by (simp add: k_titles_def fun_eq_iff split: option.split)
  then show "at_rest (core (finish q))" "k_titles (core (finish q)) = k_titles (core q)" "k_recipe (core (finish q)) = None"
    using nothing_at_rest [OF b] by (simp_all add: f c)
qed

lemma back_implements:
  assumes "at_rest (core p)"
  shows "implements p U_Back"
proof -
  obtain b cat where b: "k_base (core p) b cat" and s: "k_shows (core p) b cat" by (rule rest_library [OF assms])
  show ?thesis
  proof (cases "pg_selected p")
    case None
    have "user_step p U_Back = finish (deselect_end p)"
      using None by (simp add: user_step_def page_step_def deselectRecipe_def)
    moreover have "core (deselect_end p) = show_nothing (core p)"
      using base_core(2) [OF b] core_close [of "p\<lparr>pg_selected := None\<rparr>"]
      by (simp add: deselect_end_def show_nothing_def core_selected)
    moreover from this have "pg_tasks (deselect_end p) = []"
      using arg_cong [of _ _ k_tasks] nothing_at_rest(4) [OF b] by (metis core_sels(5))
    ultimately have "core (user_step p U_Back) = show_nothing (core p)" by (simp add: finish_def resume_none)
    then show ?thesis
      using nothing_at_rest [OF b] by (simp add: implements_def library_of_core library_step_def)
  next
    case (Some i)
    then have "i \<noteq> []" using b s by (auto simp: k_base_def k_shows_def core_sels)
    note d = deselectRecipe_task [OF b Some this]
    have t: "pg_tasks (deselectRecipe p) = [Deselecting (doc_id (bk_vaultId b) i)]"
      using base_core(1) [OF b] by (simp add: d add_task_def tell_def)
    have c: "(core (deselectRecipe p))\<lparr>k_tasks := []\<rparr> = core p"
      using base_core(1) [OF b] by (simp add: d core_updates) (simp add: core_def)
    have "k_titles (core (deselectRecipe p)) = k_titles (core p)"
      by (simp add: d core_updates k_titles_def fun_eq_iff split: option.split)
    moreover have "user_step p U_Back = finish (deselectRecipe p)" by (simp add: user_step_def page_step_def)
    ultimately show ?thesis
      using deselection_ends [OF t, of b cat] b by (simp add: c implements_def library_of_core library_step_def)
  qed
qed

lemma k_base_put:
  assumes "k_tasks k = []" "\<not> k_timer k" "\<not> k_editing k" "\<forall>d \<in> k_open k. k_meta k d \<noteq> None" "k_book k b cat" "editable_book b"
    and "distinct (map ce_id es)"
    and "\<And>i e. find_entry i es = Some e \<Longrightarrow> i \<noteq> [] \<and> ce_title e \<noteq> [] \<and> k_meta k (doc_id (bk_vaultId b) i) = Some (ce_title e, ce_tags e)"
  shows "k_base (put_entries b cat es k) b (cat\<lparr>ct_recipes := es\<rparr>)"
  using assms k_book_put [OF assms(5), of es] by (simp add: k_base_def put_entries_def)

lemma k_base_entries:
  assumes "k_base k b cat" "distinct (map ce_id es)"
    and "\<And>i e. find_entry i es = Some e \<Longrightarrow> i \<noteq> [] \<and> ce_title e \<noteq> [] \<and> k_meta k (doc_id (bk_vaultId b) i) = Some (ce_title e, ce_tags e)"
  shows "k_base (put_entries b cat es k) b (cat\<lparr>ct_recipes := es\<rparr>)"
  using assms by (intro k_base_put) (simp_all add: k_base_def)

lemma delete_implements:
  assumes "at_rest (core p)"
  shows "implements p U_Delete"
proof -
  obtain b cat where b: "k_base (core p) b cat" and s: "k_shows (core p) b cat" by (rule rest_library [OF assms])
  show ?thesis
  proof (cases "pg_selected p")
    case None
    then have "user_step p U_Delete = p"
      using base_core(1) [OF b] by (simp add: user_step_def page_step_def onDeleteRecipe_def finish_def resume_none)
    moreover have "k_recipe (core p) = None" using s None by (simp add: k_shows_def core_sels)
    ultimately show ?thesis using assms by (simp add: implements_def library_of_core library_step_def)
  next
    case (Some i)
    have i: "i \<noteq> []" "k_recipe (core p) = Some i" using b s Some by (auto simp: k_base_def k_shows_def core_sels)
    note d = deselectRecipe_task [OF b Some i(1)]
    let ?p1 = "deselectRecipe p"
    have c1: "core ?p1 = (core p)\<lparr>k_tasks := [Deselecting (doc_id (bk_vaultId b) i)]\<rparr>"
      using base_core(1) [OF b] by (simp add: d core_updates core_sels)
    have book: "k_book (core ?p1) b cat" and ok: "k_ok (core ?p1)"
      using base_core(4) [OF b] rest_ok [OF b s] by (simp_all add: c1 k_book_def k_ok_def)
    let ?es = "delete_entry i (ct_recipes cat)"
    define q where "q = tell (Push (catalogDocId ?p1)) (change_catalog onCatalogChanged (catalogDocId ?p1) (delete_entry i) ?p1)"
    have cq: "core q = put_entries b cat ?es (core ?p1)"
      using core_catalog_of_book [OF book ok quiet_on_change, of "delete_entry i"] by (simp add: q_def)
    have u: "user_step p U_Delete = finish q"
      using Some i(1) k_book_core [OF base_core(4) [OF b]] k_book_core [OF book]
      by (simp add: user_step_def page_step_def onDeleteRecipe_def q_def Let_def)
    have t: "pg_tasks q = [Deselecting (doc_id (bk_vaultId b) i)]"
    proof -
      have "k_tasks (core q) = [Deselecting (doc_id (bk_vaultId b) i)]" by (simp add: cq c1 put_entries_def)
      then show ?thesis by (simp add: core_sels)
    qed
    have bq: "k_base ((core q)\<lparr>k_tasks := []\<rparr>) b (cat\<lparr>ct_recipes := ?es\<rparr>)"
    proof -
      have "(core q)\<lparr>k_tasks := []\<rparr> = put_entries b cat ?es (core p)"
        using base_core(1) [OF b] by (simp add: cq c1 put_entries_def) (simp add: core_def)
      moreover have "k_base (put_entries b cat ?es (core p)) b (cat\<lparr>ct_recipes := ?es\<rparr>)"
        using b base_core(6) [OF b]
        by (intro k_base_entries distinct_delete_entry) (auto simp: find_delete_entry k_base_def split: if_splits)
      ultimately show ?thesis by simp
    qed
    have "k_titles (core q) = (k_titles (core p))(i := None)"
      using titles_of_book [OF base_core(4) [OF b]] titles_of_book [OF k_book_put [OF book, of ?es]] base_core(6) [OF b]
      by (simp add: cq find_delete_entry fun_eq_iff)
    then show ?thesis
      using deselection_ends [OF t bq] i(2) by (simp add: implements_def u library_of_core library_step_def)
  qed
qed

lemma edit_implements:
  assumes "at_rest (core p)"
  shows "implements p (U_Edit f)"
proof -
  obtain b cat where b: "k_base (core p) b cat" and s: "k_shows (core p) b cat" by (rule rest_library [OF assms])
  show ?thesis
  proof (cases "pg_selected p")
    case None
    then have "vw_store (pg_view p) = None" "k_recipe (core p) = None" using s by (simp_all add: k_shows_def core_sels)
    then show ?thesis using assms by (simp add: implements_def user_step_def library_of_core library_step_def)
  next
    case (Some i)
    let ?d = "doc_id (bk_vaultId b) i"
    obtain e where e: "find_entry i (ct_recipes cat) = Some e" and v: "k_recipe (core p) = Some i" "vw_store (pg_view p) = Some ?d"
      "vw_attached (pg_view p)" "vw_canEdit (pg_view p)"
      using s Some by (auto simp: k_shows_def core_sels)
    have me: "k_meta (core p) ?d = Some (ce_title e, ce_tags e)" "i \<noteq> []" "ce_title e \<noteq> []" using b e by (auto simp: k_base_def)
    define t where "t = form_title f (recipe_of p ?d)"
    have t: "t = (if js_trim (mf_title f) = [] then ce_title e else js_trim (mf_title f))"
      using meta_recipe_of [OF me(1)] by (simp add: t_def form_title_def meta_def Let_def)
    have tn: "t \<noteq> []" using me(3) t by simp
    let ?es = "set_entry i t (mf_tags f) (ct_recipes cat)"
    have c: "core (edit_and_done f p) = put_entries b cat ?es (put_meta ?d (t, mf_tags f) (core p))"
      using core_edit_and_done [OF base_core(4) [OF b] rest_ok [OF b s] Some v(2-4) base_core(3,2) [OF b] t_def] .
    let ?k = "put_meta ?d (t, mf_tags f) (core p)"
    have find: "find_entry j ?es = (if j = i then Some (e\<lparr>ce_title := t, ce_tags := mf_tags f\<rparr>) else find_entry j (ct_recipes cat))" for j
      by (simp add: find_set_entry e)
    have tasks: "k_tasks ?k = []" "\<not> k_timer ?k" "\<not> k_editing ?k" "\<forall>d \<in> k_open ?k. k_meta ?k d \<noteq> None" "k_book ?k b cat"
      using b by (auto simp: put_meta_def k_base_def k_book_def)
    have "k_base (put_entries b cat ?es ?k) b (cat\<lparr>ct_recipes := ?es\<rparr>)"
    proof (rule k_base_put [OF tasks base_core(5) [OF b]])
      show "distinct (map ce_id ?es)" using base_core(6) [OF b] by simp
      fix j x
      assume x: "find_entry j ?es = Some x"
      show "j \<noteq> [] \<and> ce_title x \<noteq> [] \<and> k_meta ?k (doc_id (bk_vaultId b) j) = Some (ce_title x, ce_tags x)"
      proof (cases "j = i")
        case True
        with x have "x = e\<lparr>ce_title := t, ce_tags := mf_tags f\<rparr>" by (simp only: find) simp
        with True me(2) tn show ?thesis by (simp add: put_meta_def)
      next
        case False
        with x b show ?thesis by (simp add: find put_meta_def k_base_def)
      qed
    qed
    moreover have "k_shows (put_entries b cat ?es ?k) b (cat\<lparr>ct_recipes := ?es\<rparr>)"
      using s Some v e by (simp add: k_shows_def put_entries_def put_meta_def find core_sels)
    ultimately have "at_rest (core (edit_and_done f p))" unfolding c at_rest_def by blast
    moreover have "k_titles (core (edit_and_done f p)) = (k_titles (core p))(i := Some (t, mf_tags f))"
      using titles_of_book [OF base_core(4) [OF b]] titles_of_book [OF k_book_put [OF tasks(5), of ?es]]
      by (simp add: c find fun_eq_iff)
    moreover have "k_recipe (core (edit_and_done f p)) = Some i" using v(1) by (simp add: c put_entries_def put_meta_def)
    moreover have "user_step p (U_Edit f) = edit_and_done f p" using v(2) by (simp add: user_step_def)
    moreover have "k_titles (core p) i = Some (ce_title e, ce_tags e)" using titles_of_book [OF base_core(4) [OF b]] e by simp
    ultimately show ?thesis using v(1) t by (simp add: implements_def library_of_core library_step_def)
  qed
qed

lemma core_init_recipe:
  assumes "map_get (pg_recipes p) d = None" "k_store (core p) \<noteq> Some d"
  shows "core (init_recipe d doc p) = (core p)\<lparr>k_open := insert d (k_open (core p)), k_meta := (k_meta (core p))(d := Some (meta doc))\<rparr>"
  using assms core_put_recipe [where p = "p\<lparr>pg_open := set_add d (pg_open p)\<rparr>" and d = d and doc = doc]
  by (simp add: init_recipe_def Let_def change_with_def core_updates core_sels)

lemma add_implements:
  assumes "at_rest (core p)" "proper p (U_Add i f)"
  shows "implements p (U_Add i f)"
proof -
  obtain b cat where b: "k_base (core p) b cat" and s: "k_shows (core p) b cat" by (rule rest_library [OF assms(1)])
  note kb = k_book_core [OF base_core(4) [OF b]] and ok = rest_ok [OF b s]
  let ?d = "doc_id (bk_vaultId b) i" and ?t = "js_trim (mf_title f)"
  let ?e = "entry_for i ?t (mf_tags f)" and ?doc = "new_recipe f (pg_now p)"
  let ?es = "ct_recipes cat @ [?e]"
  have i: "i \<noteq> []" "?t \<noteq> []" "find_entry i (ct_recipes cat) = None" "map_get (pg_recipes p) ?d = None"
    using assms(2) kb titles_of_book [OF base_core(4) [OF b]] by (auto simp: proper_def library_of_core)
  define p1 where "p1 = tell (Push (catalogDocId p)) (change_catalog onCatalogChanged (catalogDocId p) (\<lambda>es. es @ [?e]) p)"
  have c1: "core p1 = put_entries b cat ?es (core p)"
    using core_catalog_of_book [OF base_core(4) [OF b] ok quiet_on_change, of "\<lambda>es. es @ [?e]"] by (simp add: p1_def)
  have st: "k_store (core p1) \<noteq> Some ?d" "k_tasks (core p1) = []"
    using s i(3) base_core(1) [OF b] by (auto simp: c1 put_entries_def k_shows_def core_sels split: option.splits)
  then have "pg_tasks p1 = []" by (simp add: core_sels)
  have absent: "map_get (pg_recipes p1) ?d = None"
  proof -
    have "k_meta (core p1) ?d = None" using i(4) by (simp add: c1 put_entries_def k_meta_core)
    then show ?thesis by (simp add: k_meta_core)
  qed
  define p2 where "p2 = tell (Push ?d) (init_recipe ?d ?doc p1)"
  have m: "meta ?doc = (?t, mf_tags f)" by (simp add: meta_def new_recipe_def empty_recipe_def)
  have c2: "core p2 = (core p1)\<lparr>k_open := insert ?d (k_open (core p1)), k_meta := (k_meta (core p1))(?d := Some (?t, mf_tags f))\<rparr>"
    using core_init_recipe [OF absent st(1), of ?doc] by (simp add: p2_def m)
  have ef: "ce_id ?e = i" "ce_title ?e = ?t" "ce_tags ?e = mf_tags f" by (simp_all add: entry_for_def)
  have find: "find_entry j ?es = (if j = i then Some ?e else find_entry j (ct_recipes cat))" for j
    using i(3) by (simp add: find_entry_append ef split: option.split)
  have base2: "k_base (core p2) b (cat\<lparr>ct_recipes := ?es\<rparr>)"
  proof -
    have "distinct (map ce_id ?es)" using base_core(6) [OF b] i(3) by (simp add: find_None_iff' ef)
    moreover have "k_book (core p2) b (cat\<lparr>ct_recipes := ?es\<rparr>)"
      using k_book_put [OF base_core(4) [OF b], of ?es] by (simp add: c2 c1 k_book_def)
    ultimately show ?thesis
      using b i(1,2) by (auto simp: k_base_def c2 c1 put_entries_def find ef split: if_splits)
  qed
  have "find_entry i (ct_recipes (cat\<lparr>ct_recipes := ?es\<rparr>)) = Some ?e" using find by simp
  note sel = select_at_rest [OF base2 this refl]
  have "page_step p (Add i f) = add_task (Add_Opening i (bk_vaultId b) ?doc) p1"
    using i(2) kb by (simp add: page_step_def addRecipe_def p1_def)
  moreover have "resume_nth 0 (add_task (Add_Opening i (bk_vaultId b) ?doc) p1) = add_opened i (bk_vaultId b) ?doc p1"
  proof -
    have e: "p1\<lparr>pg_tasks := []\<rparr> = p1" using \<open>pg_tasks p1 = []\<close> by (cases p1) simp
    show ?thesis using \<open>pg_tasks p1 = []\<close> by (simp add: add_task_def resume_first resume_task_def) (simp only: e)
  qed
  moreover have "add_opened i (bk_vaultId b) ?doc p1 = selectRecipe i p2" by (simp add: add_opened_def Let_def p2_def)
  ultimately have u: "user_step p (U_Add i f) = resume_nth 0 (resume_nth 0 (selectRecipe i p2))"
    by (simp add: user_step_def finish_def)
  have "k_titles (core p2) = (k_titles (core p))(i := Some (?t, mf_tags f))"
    using titles_of_book [OF base_core(4) [OF b]] titles_of_book [OF base_core(4) [OF base2]]
    by (auto simp: find ef fun_eq_iff)
  with sel show ?thesis by (simp add: implements_def u library_of_core library_step_def)
qed

lemma user_step_implements:
  assumes "at_rest (core p)" "proper p u"
  shows "implements p u"
  using assms select_implements back_implements add_implements edit_implements delete_implements by (cases u) simp_all

interpretation page_of_book: functional_refinement user_step "\<lambda>p. at_rest (core p)" proper library_step library_of
  using user_step_implements by unfold_locales (simp_all add: implements_def)

text \<open>C2: the page of a book implements a library: from a page at rest, after any operations that are each run to
  their end - selecting, going back, adding, editing the form, deleting - the titles and tags of the catalog and
  the recipe shown are what the library says, and the page is at rest again: the catalog agrees with the documents
  of the recipes, and the recipe shown is the one selected.\<close>

theorem library_refined:
  assumes "at_rest (core p)" "proper_run p us"
  shows "library_of (foldl user_step p us) = foldl library_step (library_of p) us \<and> at_rest (core (foldl user_step p us))"
  by (rule page_of_book.run_refines [OF assms])

definition demo_book :: book where
  "demo_book = \<lparr>bk_vaultId = ''v'', bk_name = ''Home'', bk_role = ''owner'', bk_encKey = None\<rparr>"

definition demo_doc :: "string \<Rightarrow> recipe" where
  "demo_doc t = empty_recipe\<lparr>rc_title := t\<rparr>"

definition demo_form :: "string \<Rightarrow> meta_form" where
  "demo_form t = \<lparr>mf_title = t, mf_tags = [], mf_servings = ''4'', mf_prep = ''0'', mf_cook = ''0''\<rparr>"

definition demo_view :: recipe_view where
  "demo_view = \<lparr>vw_store = None, vw_recipe = None, vw_attached = False, vw_editing = False, vw_canEdit = True, vw_form = demo_form [],
     vw_timer = False, vw_titleFocused = False, vw_lastTitle = [], vw_lastTags = [], vw_scaling = demo_scaling\<rparr>"

definition demo_page :: page where
  "demo_page = \<lparr>pg_now = 1, pg_books = [demo_book], pg_active = Some demo_book, pg_selected = None,
     pg_catalogs = [(''v/catalog'', \<lparr>ct_name = ''Home'', ct_recipes = [entry_for ''a'' ''Soup'' [], entry_for ''b'' ''Bread'' []], ct_members = []\<rparr>)],
     pg_recipes = [(''v/a'', demo_doc ''Soup''), (''v/b'', demo_doc ''Bread'')], pg_open = [], pg_log = [], pg_view = demo_view, pg_tasks = []\<rparr>"

lemma demo_at_rest: "at_rest (core demo_page)"
proof -
  let ?cat = "\<lparr>ct_name = ''Home'', ct_recipes = [entry_for ''a'' ''Soup'' [], entry_for ''b'' ''Bread'' []], ct_members = []\<rparr>"
  have "k_base (core demo_page) demo_book ?cat"
    by (auto simp: k_base_def core_def demo_page_def demo_view_def k_book_def demo_book_def catalog_id_def map_get_def editable_book_def
        entry_for_def doc_id_def demo_doc_def meta_def empty_recipe_def split: if_splits)
  moreover have "k_shows (core demo_page) demo_book ?cat" by (simp add: k_shows_def core_def demo_page_def demo_view_def)
  ultimately show ?thesis by (auto simp: at_rest_def)
qed

theorem library_refined_witness:
  "lib_titles (library_of (foldl user_step demo_page [U_Select ''a'', U_Edit (demo_form ''Stew''), U_Delete])) ''a'' = None \<and>
    lib_titles (library_of (foldl user_step demo_page [U_Select ''a'', U_Edit (demo_form ''Stew'')])) ''a'' = Some (''Stew'', [])"
proof -
  have t: "lib_titles (library_of demo_page) ''a'' = Some (''Soup'', [])"
    by (simp add: library_of_def k_titles_def core_def demo_page_def demo_book_def catalog_id_def map_get_def entry_for_def)
  then have "proper demo_page (U_Select ''a'')" by (simp add: proper_def)
  then have r: "proper_run demo_page [U_Select ''a'', U_Edit (demo_form ''Stew''), U_Delete]"
    "proper_run demo_page [U_Select ''a'', U_Edit (demo_form ''Stew'')]" by (simp_all add: proper_def)
  have trim: "js_trim ''Stew'' = ''Stew''" by code_simp
  show ?thesis
    using library_refined [OF demo_at_rest r(1)] library_refined [OF demo_at_rest r(2)]
    by (simp del: foldl_Cons) (simp add: library_step_def t demo_form_def trim)
qed

end
