(* ===== verification/Page_Races.thy ===== *)
theory Page_Races
  imports Page_Library
begin

text \<open>
  Operations of the page that begin before another one has ended. The form of a recipe is written 500 ms after the
  last key press; going back, or to another recipe, before that moves the selection first and writes the form
  later, and what is selected then decides where it goes. A search result of another book changes the book while
  the recipe shown is still being closed.
\<close>

section \<open>What listeners leave alone\<close>

text \<open>No listener changes the selection, the tasks, the open documents or what is shown.\<close>

definition frame :: "page \<Rightarrow> book option \<times> book list \<times> string option \<times> page_task list \<times> string list \<times> string option \<times> string option \<times> bool" where
  "frame p = (pg_active p, pg_books p, pg_selected p, pg_tasks p, pg_open p, vw_store (pg_view p), vw_recipe (pg_view p), vw_attached (pg_view p))"

definition keeps_frame :: "(recipe \<Rightarrow> page \<Rightarrow> page) \<Rightarrow> bool" where
  "keeps_frame h \<longleftrightarrow> (\<forall>doc p. frame (h doc p) = frame p)"

lemma frame_tell [simp]: "frame (tell c p) = frame p"
  by (simp add: frame_def tell_def)

lemma frame_change_with: "keeps_frame h \<Longrightarrow> frame (change_with h d f p) = frame p"
  by (simp add: change_with_def keeps_frame_def Let_def) (simp add: frame_def)

lemma frame_content_changed: "keeps_frame h \<Longrightarrow> frame (content_changed_with h p) = frame p"
  by (simp add: content_changed_with_def Let_def frame_change_with split: option.split)

lemma frame_reconcile: "keeps_frame h \<Longrightarrow> frame (reconcile_with h p) = frame p"
  by (simp add: reconcile_with_def frame_change_with frame_content_changed split: option.split prod.split)

lemma frame_change_catalog: "keeps_frame h \<Longrightarrow> frame (change_catalog (reconcile_with h) c f p) = frame p"
  by (simp add: change_catalog_def Let_def frame_reconcile split: option.split) (simp add: frame_def)

lemma keeps_view_changed: "keeps_frame view_changed"
  by (simp add: keeps_frame_def frame_def view_changed_def on_view_def)

lemma frame_sync: "frame (onSyncCatalogMeta t g p) = frame p"
  by (simp add: onSyncCatalogMeta_def frame_change_catalog [OF keeps_view_changed] split: option.split)

lemma keeps_on_change: "keeps_frame on_change"
proof -
  have "frame (on_view (\<lambda>v. v\<lparr>vw_lastTitle := t, vw_lastTags := g\<rparr>) p) = frame p" for t g p
    by (simp add: frame_def on_view_def)
  then show ?thesis
    using keeps_view_changed by (simp add: keeps_frame_def on_change_def Let_def frame_sync)
qed

lemmas frames = keeps_on_change frame_change_with [OF keeps_on_change] frame_content_changed [OF keeps_on_change]
  frame_reconcile [OF keeps_on_change] frame_change_catalog [OF keeps_on_change] frame_sync

lemma frame_meta_changed: "frame (onMetaChanged t g p) = frame p"
  by (simp add: onMetaChanged_def Let_def frames split: option.split)

lemma frame_flush: "frame (flushMeta p) = frame p"
proof -
  have "frame (on_view (\<lambda>v. v\<lparr>vw_timer := False\<rparr>) p) = frame p" by (simp add: frame_def on_view_def)
  then show ?thesis by (simp add: flushMeta_def Let_def frames frame_meta_changed split: option.split)
qed

lemma frame_editing: "frame (setPageEditing e p) = frame p"
proof -
  have v: "frame (on_view (\<lambda>v. v\<lparr>vw_editing := b\<rparr>) q) = frame q" "frame (on_view (\<lambda>v. v\<lparr>vw_form := f\<rparr>) q) = frame q"
    "frame (on_view (\<lambda>v. v\<lparr>vw_scaling := g (vw_scaling v)\<rparr>) q) = frame q" for b f g q
    by (simp_all add: frame_def on_view_def)
  show ?thesis by (simp add: setPageEditing_def Let_def frame_flush v split: option.split)
qed

lemma frame_close:
  "frame (closeRecipe p) = (pg_active p, pg_books p, pg_selected p, pg_tasks p, pg_open p, None, None, False)"
  using frame_flush [of p] by (simp add: closeRecipe_def Let_def frame_def on_view_def)

lemma frame_open:
  "frame (openRecipe d i e p) = (pg_active p, pg_books p, pg_selected p, pg_tasks p, pg_open p, Some d, Some i, True)"
proof -
  let ?p2 = "on_view (\<lambda>v. v\<lparr>vw_store := Some d, vw_recipe := Some i, vw_lastTitle := rc_title (recipe_of (closeRecipe p) d),
      vw_lastTags := rc_tags (recipe_of (closeRecipe p) d), vw_scaling := open_scaling (recipe_of (closeRecipe p) d) (vw_scaling v),
      vw_canEdit := e\<rparr>) (closeRecipe p)"
  have "frame (setPageEditing False (reconcile_with on_change ?p2)) = frame ?p2" by (simp add: frame_editing frames)
  moreover have "frame ?p2 = (pg_active p, pg_books p, pg_selected p, pg_tasks p, pg_open p, Some d, Some i, False)"
    using frame_close [of p] by (simp add: frame_def on_view_def)
  ultimately show ?thesis by (simp add: openRecipe_def Let_def frame_def on_view_def)
qed

lemma frame_select_opened:
  "frame (select_opened i v p) =
    (pg_active p, pg_books p, pg_selected p, pg_tasks p, set_add (doc_id v i) (pg_open p), Some (doc_id v i), Some i, True)"
proof -
  let ?d = "doc_id v i"
  let ?p1 = "tell (Subscribe ?d) (p\<lparr>pg_open := set_add ?d (pg_open p)\<rparr>)"
  obtain q where q: "select_opened i v p = openRecipe ?d i (can_edit q) q" and f: "frame q = frame ?p1"
  proof
    let ?r = "recipe_of ?p1 ?d" and ?entry = "case active_catalog ?p1 of Some c \<Rightarrow> find_entry i (ct_recipes c) | None \<Rightarrow> None"
    let ?q = "case ?entry of
        None \<Rightarrow> ?p1
      | Some e \<Rightarrow>
          if rc_title ?r = [] then
            (if ce_title e \<noteq> []
             then tell (Push ?d) (change_recipe ?d (\<lambda>doc. doc\<lparr>rc_title := ce_title e, rc_tags := ce_tags e\<rparr>) ?p1)
             else ?p1)
          else if ce_title e \<noteq> rc_title ?r \<or> ce_tags e \<noteq> rc_tags ?r
          then tell (Push (catalogDocId ?p1))
                 (change_catalog onCatalogChanged (catalogDocId ?p1) (set_entry i (rc_title ?r) (rc_tags ?r)) ?p1)
          else ?p1"
    show "select_opened i v p = openRecipe ?d i (can_edit ?q) ?q" unfolding select_opened_def Let_def ..
    show "frame ?q = frame ?p1" by (simp add: frames split: option.split)
  qed
  then show ?thesis using frame_open [of ?d i "can_edit q" q] by (simp add: frame_def tell_def)
qed

section \<open>Without a selection nothing is pushed\<close>

fun editing_event :: "page_event \<Rightarrow> bool" where
  "editing_event (Editing b) \<longleftrightarrow> True"
| "editing_event (Form f) \<longleftrightarrow> True"
| "editing_event Meta_Timer \<longleftrightarrow> True"
| "editing_event (Edit f) \<longleftrightarrow> True"
| "editing_event _ \<longleftrightarrow> False"

lemma unselected_listeners:
  assumes "pg_selected p = None"
  shows "onSyncCatalogMeta t g p = p" "onMetaChanged t g p = p" "content_changed_with h p = p"
  using assms by (simp_all add: onSyncCatalogMeta_def onMetaChanged_def content_changed_with_def)

lemma unselected_change:
  assumes "pg_selected p = None"
  shows "pg_log (change_recipe d f p) = pg_log p" "pg_catalogs (change_recipe d f p) = pg_catalogs p"
    "pg_selected (change_recipe d f p) = None"
proof -
  have "pg_selected (on_view f q) = pg_selected q" "pg_log (on_view f q) = pg_log q" "pg_catalogs (on_view f q) = pg_catalogs q" for f q
    by (simp_all add: on_view_def)
  note v = this
  have "pg_log (on_change doc q) = pg_log q \<and> pg_catalogs (on_change doc q) = pg_catalogs q \<and> pg_selected (on_change doc q) = None"
    if "pg_selected q = None" for doc q
    using that by (simp add: on_change_def Let_def unselected_listeners v view_changed_def)
  then show "pg_log (change_recipe d f p) = pg_log p" "pg_catalogs (change_recipe d f p) = pg_catalogs p"
    "pg_selected (change_recipe d f p) = None" using assms by (simp_all add: change_with_def Let_def)
qed

lemma unselected_flush:
  assumes "pg_selected p = None"
  shows "pg_log (flushMeta p) = pg_log p" "pg_catalogs (flushMeta p) = pg_catalogs p" "pg_selected (flushMeta p) = None"
proof -
  have "pg_selected (on_view f q) = pg_selected q" "pg_log (on_view f q) = pg_log q" "pg_catalogs (on_view f q) = pg_catalogs q" for f q
    by (simp_all add: on_view_def)
  then show "pg_log (flushMeta p) = pg_log p" "pg_catalogs (flushMeta p) = pg_catalogs p" "pg_selected (flushMeta p) = None"
    using assms by (simp_all add: flushMeta_def Let_def unselected_change unselected_listeners split: option.split)
qed

lemma unselected_edit:
  assumes "pg_selected p = None \<and> pg_log p = l" "editing_event e"
  shows "pg_selected (page_step p e) = None \<and> pg_log (page_step p e) = l"
proof -
  have v: "pg_selected (on_view f q) = pg_selected q" "pg_log (on_view f q) = pg_log q" for f q
    by (simp_all add: on_view_def)
  show ?thesis
  proof (cases e)
    case (Editing b)
    then show ?thesis
      using assms(1) by (simp add: page_step_def setPageEditing_def Let_def v unselected_flush split: option.split)
  next
    case (Form f)
    then show ?thesis using assms(1) by (simp add: page_step_def debounceMeta_def v)
  next
    case Meta_Timer
    then show ?thesis using assms(1) by (simp add: page_step_def unselected_flush)
  next
    case (Edit f)
    then show ?thesis
      using assms(1) by (simp add: page_step_def edit_recipe_def unselected_change unselected_listeners split: option.split)
  qed (use assms(2) in simp_all)
qed

interpretation unselected_steps: run_invariant page_step "\<lambda>p. pg_selected p = None \<and> pg_log p = l" editing_event for l
  by unfold_locales (rule unselected_edit)

lemma unselected_edits:
  assumes "pg_selected p = None" "\<forall>e \<in> set es. editing_event e"
  shows "pg_log (foldl page_step p es) = pg_log p"
  using unselected_steps.inv_run [of p "pg_log p" es] assms by simp

section \<open>Going back, or to another recipe, before the form is written\<close>

text \<open>The page after the edit button and a key press in the form\<close>

lemma form_typed:
  assumes "vw_store (pg_view p) = Some d" "vw_canEdit (pg_view p)"
  shows "foldl page_step p [Editing True, Form f] =
    p\<lparr>pg_view := (pg_view p)\<lparr>vw_editing := True, vw_form := f, vw_timer := True, vw_scaling := edit_scaling (vw_scaling (pg_view p))\<rparr>\<rparr>"
  using assms by (simp add: page_step_def setPageEditing_def Let_def on_view_def debounceMeta_def)

text \<open>A page with a recipe shown, and a second book\<close>

definition demo_other :: book where
  "demo_other = \<lparr>bk_vaultId = ''w'', bk_name = ''Work'', bk_role = ''editor'', bk_encKey = Some (AesKey (replicate 32 0) True)\<rparr>"

definition demo_shown :: page where
  "demo_shown = demo_page\<lparr>pg_books := [demo_book, demo_other], pg_selected := Some ''a'', pg_open := [''v/a''],
     pg_view := demo_view\<lparr>vw_store := Some ''v/a'', vw_recipe := Some ''a'', vw_attached := True, vw_lastTitle := ''Soup''\<rparr>\<rparr>"

lemmas demo_shown_defs = demo_shown_def demo_page_def demo_view_def demo_book_def demo_other_def

lemma demo_shown_at_rest: "at_rest (core demo_shown)"
proof -
  let ?cat = "\<lparr>ct_name = ''Home'', ct_recipes = [entry_for ''a'' ''Soup'' [], entry_for ''b'' ''Bread'' []], ct_members = []\<rparr>"
  have "k_base (core demo_shown) demo_book ?cat"
    by (auto simp: k_base_def core_def demo_shown_defs k_book_def catalog_id_def map_get_def editable_book_def
        entry_for_def doc_id_def demo_doc_def meta_def empty_recipe_def split: if_splits)
  moreover have "k_shows (core demo_shown) demo_book ?cat"
    by (simp add: k_shows_def core_def demo_shown_defs doc_id_def entry_for_def)
  ultimately show ?thesis by (auto simp: at_rest_def)
qed

text \<open>Going back within half a second of the last key press of the form closes the recipe after its selection
  is gone: the form is written to the recipe, but the catalog keeps the old title and tags and nothing is handed
  to the push queue.\<close>

theorem edit_before_back_is_not_pushed:
  assumes "pg_active p = Some b" "pg_selected p = Some i" "i \<noteq> []" "pg_tasks p = []"
    and "vw_store (pg_view p) = Some d" "d = doc_id (bk_vaultId b) i" "vw_canEdit (pg_view p)"
    and "p' = foldl page_step p [Editing True, Form f, Back, Resume 0]"
  shows "rc_title (recipe_of p' d) = form_title f (recipe_of p d) \<and> rc_tags (recipe_of p' d) = mf_tags f \<and>
    pg_catalogs p' = pg_catalogs p \<and> pg_log p' = pg_log p @ [Unsubscribe d] \<and> vw_store (pg_view p') = None"
proof -
  define p2 where "p2 = foldl page_step p [Editing True, Form f]"
  note p2 = form_typed [OF assms(5,7), of f, folded p2_def]
  have s: "pg_active p2 = Some b" "pg_selected p2 = Some i" "pg_tasks p2 = []" by (simp_all add: p2 assms(1,2,4))
  define p3 where "p3 = p2\<lparr>pg_log := pg_log p @ [Unsubscribe d], pg_tasks := [], pg_open := set_delete d (pg_open p), pg_selected := None\<rparr>"
  have "page_step (page_step p2 Back) (Resume 0) = closeRecipe p3"
    using s assms(3,6)
    by (simp add: page_step_def deselectRecipe_def Let_def add_task_def tell_def resume_first resume_task_def deselect_end_def p3_def)
      (simp add: p2)
  moreover have "p' = page_step (page_step p2 Back) (Resume 0)" by (simp add: assms(8) p2_def)
  ultimately have e: "p' = closeRecipe p3" by simp
  have v: "pg_selected p3 = None" "vw_timer (pg_view p3)" "vw_form (pg_view p3) = f" "vw_store (pg_view p3) = Some d"
    "pg_recipes p3 = pg_recipes p" "pg_catalogs p3 = pg_catalogs p" "pg_log p3 = pg_log p @ [Unsubscribe d]"
    by (simp_all add: p3_def p2 assms(5))
  have close: "pg_recipes p' = pg_recipes (flushMeta p3)" "pg_catalogs p' = pg_catalogs (flushMeta p3)" "pg_log p' = pg_log (flushMeta p3)"
    "vw_store (pg_view p') = None"
    using v(2) by (simp_all add: e closeRecipe_def on_view_def Let_def)
  let ?q = "on_view (\<lambda>v. v\<lparr>vw_timer := False\<rparr>) p3"
  let ?doc = "form_change f (pg_now ?q) (recipe_of p d)"
  have q: "pg_selected ?q = None" "vw_form (pg_view ?q) = f" "vw_store (pg_view ?q) = Some d" "recipe_of ?q = recipe_of p"
    "pg_recipes ?q = pg_recipes p"
    using v by (simp_all add: on_view_def recipe_of_def fun_eq_iff)
  have "pg_recipes (on_change doc r) = pg_recipes r" if "pg_selected r = None" for doc r
    using that by (simp add: on_change_def Let_def unselected_listeners view_changed_def on_view_def)
  then have "pg_recipes (change_recipe d (form_change f (pg_now ?q)) ?q) = map_set d ?doc (pg_recipes p)"
    using q by (simp add: change_with_def Let_def)
  then have "pg_recipes (flushMeta p3) = map_set d ?doc (pg_recipes p)"
    using q by (simp add: flushMeta_def Let_def unselected_listeners unselected_change)
  then have "recipe_of p' d = ?doc" by (simp add: recipe_of_def close(1) map_eqs)
  then show ?thesis using unselected_flush [OF v(1)] close v(6,7) by (simp add: form_change_def)
qed

theorem edit_before_back_is_not_pushed_witness:
  "rc_title (recipe_of (foldl page_step demo_shown [Editing True, Form (demo_form ''Stew''), Back, Resume 0]) ''v/a'') = ''Stew'' \<and>
    pg_catalogs (foldl page_step demo_shown [Editing True, Form (demo_form ''Stew''), Back, Resume 0]) = pg_catalogs demo_shown"
proof -
  have "js_trim ''Stew'' = ''Stew''" by code_simp
  then have "form_title (demo_form ''Stew'') d = ''Stew''" for d by (simp add: form_title_def demo_form_def Let_def)
  moreover have "pg_active demo_shown = Some demo_book" "pg_selected demo_shown = Some ''a''" "pg_tasks demo_shown = []"
    "vw_store (pg_view demo_shown) = Some ''v/a''" "''v/a'' = doc_id (bk_vaultId demo_book) ''a''" "vw_canEdit (pg_view demo_shown)"
    by (simp_all add: demo_shown_defs doc_id_def)
  ultimately show ?thesis
    using edit_before_back_is_not_pushed [of demo_shown demo_book "''a''" "''v/a''" _ "demo_form ''Stew''"] by simp
qed

lemma open_after_flush:
  assumes "vw_timer (pg_view p)" "\<not> vw_timer (pg_view (flushMeta p))"
  shows "openRecipe d i e p = openRecipe d i e (flushMeta p)"
  using assms by (simp add: openRecipe_def closeRecipe_def)

text \<open>Another recipe of the book, selected while one is shown and nothing else is under way\<close>

lemma selected_steps:
  assumes "pg_selected p = Some i" "pg_active p = Some b" "pg_tasks p = []" "i \<noteq> []" "i \<noteq> j"
  shows "foldl page_step p [Selected j None, Resume 0, Resume 0] = select_opened j (bk_vaultId b)
    (p\<lparr>pg_log := pg_log p @ [Unsubscribe (doc_id (bk_vaultId b) i)], pg_open := set_delete (doc_id (bk_vaultId b) i) (pg_open p),
       pg_selected := Some j, pg_tasks := []\<rparr>)"
proof -
  have "page_step (page_step p (Selected j None)) (Resume 0) = select_opening j (bk_vaultId b)
      (p\<lparr>pg_log := pg_log p @ [Unsubscribe (doc_id (bk_vaultId b) i)], pg_tasks := [], pg_open := set_delete (doc_id (bk_vaultId b) i) (pg_open p)\<rparr>)"
    using assms by (simp add: page_step_def onSelect_def selectRecipe_def Let_def add_task_def tell_def resume_first resume_task_def)
  then show ?thesis by (simp add: page_step_def select_opening_def add_task_def resume_first resume_task_def)
qed

text \<open>C29: selecting another recipe within half a second of the last key press of the form writes the form when the
  other recipe is selected already: the catalog gets the first recipe's new title and tags at the entry of the
  second one, keeps the old ones at the entry of the first, and agrees with neither document.\<close>

theorem pending_form_lands_in_the_next_recipe:
  assumes "at_rest (core p)" "pg_active p = Some b" "lib_shown (library_of p) = Some i" "i \<noteq> j"
    and "lib_titles (library_of p) i = Some (title, tags)" "lib_titles (library_of p) j = Some m"
    and "t = (if js_trim (mf_title f) = [] then title else js_trim (mf_title f))"
    and "p' = foldl page_step p [Editing True, Form f, Selected j None, Resume 0, Resume 0]"
  shows "lib_titles (library_of p') j = Some (t, mf_tags f) \<and> lib_titles (library_of p') i = Some (title, tags) \<and>
    meta (recipe_of p' (doc_id (bk_vaultId b) i)) = (t, mf_tags f) \<and> meta (recipe_of p' (doc_id (bk_vaultId b) j)) = m \<and>
    lib_shown (library_of p') = Some j"
proof -
  obtain b' cat where base: "k_base (core p) b' cat" and s: "k_shows (core p) b' cat" by (rule rest_library [OF assms(1)])
  note kb = k_book_core [OF base_core(4) [OF base]]
  then have [simp]: "b' = b" using assms(2) by simp
  let ?di = "doc_id (bk_vaultId b) i" and ?dj = "doc_id (bk_vaultId b) j"
  note titles = titles_of_book [OF base_core(4) [OF base]]
  obtain ei ej where ei: "find_entry i (ct_recipes cat) = Some ei" "title = ce_title ei" "tags = ce_tags ei"
    and ej: "find_entry j (ct_recipes cat) = Some ej" "m = (ce_title ej, ce_tags ej)"
    using assms(5,6) titles by (auto simp: library_of_core)
  have mi: "i \<noteq> []" "k_meta (core p) ?di = Some (title, tags)" and mj: "ce_title ej \<noteq> []" "k_meta (core p) ?dj = Some m"
    using base ei ej by (simp_all add: k_base_def)
  have shown: "pg_selected p = Some i" "vw_store (pg_view p) = Some ?di" "vw_canEdit (pg_view p)" "vw_attached (pg_view p)"
    using s assms(3) by (auto simp: k_shows_def library_of_def core_sels split: option.splits)
  define p2 where "p2 = foldl page_step p [Editing True, Form f]"
  note p2 = form_typed [OF shown(2,3), of f, folded p2_def]
  define p3 where "p3 = tell (Subscribe ?dj) (p2\<lparr>pg_log := pg_log p @ [Unsubscribe ?di], pg_selected := Some j, pg_tasks := [],
      pg_open := set_add ?dj (set_delete ?di (pg_open p))\<rparr>)"
  have c3: "core p3 = (core p)\<lparr>k_selected := Some j, k_open := insert ?dj (k_open (core p) - {?di}), k_editing := True, k_timer := True\<rparr>"
    using base_core(1) [OF base] by (simp add: p3_def) (simp add: core_def p2 fun_eq_iff)
  have b3: "k_book (core p3) b cat" using base_core(4) [OF base] by (simp add: c3 k_book_def)
  have ok3: "k_ok (core p3)"
    using rest_ok [OF base s] base_core(7) [OF base] mj(2) by (auto simp: c3 k_ok_def)
  have sel3: "pg_selected p3 = Some j" by (simp add: p3_def tell_def)
  have view3: "vw_store (pg_view p3) = Some ?di" "vw_attached (pg_view p3)" "vw_form (pg_view p3) = f" "vw_timer (pg_view p3)"
    using shown by (simp_all add: p3_def tell_def p2)
  have docs: "k_meta (core p3) ?dj = Some m" "k_meta (core p3) ?di = Some (title, tags)" using mi(2) mj(2) by (simp_all add: c3)
  have ft: "form_title f (recipe_of p3 ?di) = t"
    using meta_recipe_of [OF docs(2)] by (simp add: form_title_def meta_def assms(7) Let_def)
  have steps: "p' = openRecipe ?dj j True p3"
  proof -
    have sel: "pg_selected p2 = Some i" "pg_active p2 = Some b" "pg_tasks p2 = []" by (simp_all add: p2 shown assms(2) base_core(1) [OF base])
    have "p' = select_opened j (bk_vaultId b) (p2\<lparr>pg_log := pg_log p @ [Unsubscribe ?di],
        pg_open := set_delete ?di (pg_open p), pg_selected := Some j, pg_tasks := []\<rparr>)" (is "_ = select_opened j _ ?p")
    proof -
      have "pg_log p2 = pg_log p" "pg_open p2 = pg_open p" by (simp_all add: p2)
      moreover have "p' = foldl page_step p2 [Selected j None, Resume 0, Resume 0]" by (simp add: assms(8) p2_def)
      ultimately show ?thesis using selected_steps [OF sel mi(1) assms(4)] by (simp only:)
    qed
    moreover have "select_opened j (bk_vaultId b) ?p = openRecipe ?dj j True p3"
    proof -
      have "can_edit p3" using k_book_core [OF b3] base_core(5) [OF base] by (simp add: can_edit_def editable_book_def)
      moreover have "tell (Subscribe ?dj) (?p\<lparr>pg_open := set_add ?dj (pg_open ?p)\<rparr>) = p3" by (simp add: p3_def)
      ultimately show ?thesis
        using k_book_core [OF b3] ej mj(1) meta_recipe_of [OF docs(1)]
        by (simp add: select_opened_def Let_def meta_def)
    qed
    ultimately show ?thesis by simp
  qed
  define q where "q = flushMeta p3"
  have cq: "core q = put_entries b cat (set_entry j t (mf_tags f) (ct_recipes cat)) (put_meta ?di (t, mf_tags f) ((core p3)\<lparr>k_timer := False\<rparr>))"
    using core_flush [OF b3 ok3 sel3 view3(1,2)] by (simp add: q_def view3(3) ft)
  have tq: "\<not> vw_timer (pg_view q)" using arg_cong [OF cq, of k_timer] by (simp add: put_entries_def put_meta_def core_sels)
  have mq: "k_meta (core q) ?dj = Some m" "k_meta (core q) ?di = Some (t, mf_tags f)"
    using docs assms(4) by (simp_all add: cq put_entries_def put_meta_def)
  have "\<forall>e \<in> k_open (core q). k_meta (core q) e \<noteq> None"
    using ok3 by (auto simp: cq put_entries_def put_meta_def k_ok_def)
  then have c: "core p' = (core q)\<lparr>k_store := Some ?dj, k_recipe := Some j, k_attached := True, k_editing := False, k_canEdit := True, k_last := m\<rparr>"
    using core_open [OF tq mq(1)] open_after_flush [OF view3(4)] tq by (simp add: steps q_def)
  have "k_book (core p') b (cat\<lparr>ct_recipes := set_entry j t (mf_tags f) (ct_recipes cat)\<rparr>)"
    using b3 by (simp add: c cq put_entries_def put_meta_def k_book_def)
  then have "k_titles (core p') = (\<lambda>l. map_option (\<lambda>e. (ce_title e, ce_tags e)) (find_entry l (set_entry j t (mf_tags f) (ct_recipes cat))))"
    by (simp add: titles_of_book)
  then show ?thesis
    using ei ej assms(4) mq meta_recipe_of [of p' ?di] meta_recipe_of [of p' ?dj] by (simp add: library_of_core c find_set_entry)
qed

theorem pending_form_lands_in_the_next_recipe_witness:
  "lib_titles (library_of (foldl page_step demo_shown [Editing True, Form (demo_form ''Stew''), Selected ''b'' None, Resume 0, Resume 0])) ''b''
    = Some (''Stew'', [])"
proof -
  have trim: "js_trim (mf_title (demo_form ''Stew'')) = ''Stew''" unfolding demo_form_def by code_simp
  have "pg_active demo_shown = Some demo_book" "lib_shown (library_of demo_shown) = Some ''a''"
    "lib_titles (library_of demo_shown) ''a'' = Some (''Soup'', [])" "lib_titles (library_of demo_shown) ''b'' = Some (''Bread'', [])"
    by (simp_all add: library_of_def k_titles_def core_def demo_shown_defs catalog_id_def map_get_def entry_for_def)
  from pending_form_lands_in_the_next_recipe [OF demo_shown_at_rest this(1,2) _ this(3,4) refl refl, of "demo_form ''Stew''"] show ?thesis
    unfolding trim by (simp add: demo_form_def)
qed

section \<open>A search result of another book\<close>

text \<open>A search result of another book, chosen while a recipe is shown: the closing of that recipe, which is not
  awaited, may end after the new selection has been made and takes it back. The new recipe is then shown without
  being selected: nothing that is edited in it is handed to the push queue, and it cannot be deleted.\<close>

theorem selection_lost_between_books:
  assumes "pg_active p = Some b" "pg_selected p = Some i" "i \<noteq> []" "pg_tasks p = []" "j \<noteq> i"
    and "find_book v (pg_books p) = Some b'" "bk_encKey b' \<noteq> None" "v \<noteq> []" "v \<noteq> bk_vaultId b"
    and "p' = foldl page_step p [Selected j (Some v), Resume 1, Resume 0, Resume 0]"
  shows "vw_store (pg_view p') = Some (doc_id v j) \<and> vw_attached (pg_view p') \<and> pg_selected p' = None \<and> pg_tasks p' = [] \<and>
    page_step p' Delete = p' \<and>
    (\<forall>es. (\<forall>e \<in> set es. editing_event e) \<longrightarrow> pg_log (foldl page_step p' es) = pg_log p')"
proof -
  let ?di = "doc_id (bk_vaultId b) i" and ?dv = "doc_id v i"
  have id: "bk_vaultId b' = v" by (rule find_book_id [OF assms(6), THEN conjunct1])
  obtain k where k: "bk_encKey b' = Some k" using assms(7) by blast
  define p1 where "p1 = page_step p (Selected j (Some v))"
  have p1: "p1 = p\<lparr>pg_log := pg_log p @ [Unsubscribe ?di, Unsubscribe ?dv], pg_active := Some b',
      pg_tasks := [Deselecting ?di, Select_Closing j v ?dv]\<rparr>"
    using assms(1-6,8,9) id k
    by (simp add: p1_def page_step_def onSelect_def switchBook_def deselectRecipe_def selectRecipe_def Let_def add_task_def tell_def)
  define p2 where "p2 = page_step p1 (Resume 1)"
  have p2: "p2 = p1\<lparr>pg_open := set_delete ?dv (pg_open p), pg_selected := Some j, pg_tasks := [Deselecting ?di, Select_Opening j v]\<rparr>"
    by (simp add: p2_def page_step_def resume_nth_def p1 resume_task_def select_opening_def add_task_def)
  define p3 where "p3 = page_step p2 (Resume 0)"
  have "p3 = closeRecipe (p2\<lparr>pg_tasks := [Select_Opening j v], pg_open := set_delete ?di (pg_open p2), pg_selected := None\<rparr>)"
    by (simp add: p3_def page_step_def resume_nth_def p2 resume_task_def deselect_end_def)
  then have f3: "frame p3 = (Some b', pg_books p, None, [Select_Opening j v], set_delete ?di (pg_open p2), None, None, False)"
    using frame_close [of "p2\<lparr>pg_tasks := [Select_Opening j v], pg_open := set_delete ?di (pg_open p2), pg_selected := None\<rparr>"]
    by (simp add: p2 p1)
  have "p' = resume_nth 0 p3" by (simp add: assms(10) p3_def p2_def p1_def) (simp add: page_step_def)
  then have e: "p' = select_opened j v (p3\<lparr>pg_tasks := []\<rparr>)" using f3 by (simp add: frame_def resume_first resume_task_def)
  have "frame p' = (Some b', pg_books p, None, [], set_add (doc_id v j) (set_delete ?di (pg_open p2)), Some (doc_id v j), Some j, True)"
    using f3 by (simp add: e frame_select_opened) (simp add: frame_def)
  then have r: "vw_store (pg_view p') = Some (doc_id v j)" "vw_attached (pg_view p')" "pg_selected p' = None" "pg_tasks p' = []"
    by (simp_all add: frame_def)
  then have "page_step p' Delete = p'" by (simp add: page_step_def onDeleteRecipe_def)
  with r show ?thesis using unselected_edits [OF r(3)] by simp
qed

theorem selection_lost_between_books_witness:
  "pg_selected (foldl page_step demo_shown [Selected ''c'' (Some ''w''), Resume 1, Resume 0, Resume 0]) = None \<and>
    vw_store (pg_view (foldl page_step demo_shown [Selected ''c'' (Some ''w''), Resume 1, Resume 0, Resume 0])) = Some ''w/c''"
proof -
  have "pg_active demo_shown = Some demo_book" "pg_selected demo_shown = Some ''a''" "pg_tasks demo_shown = []"
    "find_book ''w'' (pg_books demo_shown) = Some demo_other" "bk_encKey demo_other \<noteq> None" "''w'' \<noteq> bk_vaultId demo_book"
    by (simp_all add: demo_shown_defs find_book_def)
  then show ?thesis
    using selection_lost_between_books [OF _ _ _ _ _ _ _ _ _ refl, of demo_shown demo_book "''a''" "''c''" "''w''" demo_other]
    by (simp add: doc_id_def del: foldl_Cons)
qed

end
