(* ===== verification/Accounts.thy ===== *)
theory Accounts
  imports Vaults
begin

text \<open>
  Signing in and out on a device: the stored user name and wrapped master key (\<open>src/lib/auth.ts\<close>), login and the
  start from the local cache (\<open>src/ui/auth.ts\<close>), and the change of the password (\<open>src/ui/account.ts\<close>).

  \<open>account\<close> is what a device keeps: \<open>localStorage\<close>, the databases of its users, and in memory the session and the
  keys. The connection is what \<open>createSyncConnection\<close> is given; the handlers it installs are in \<open>Vaults\<close>. The
  functions to be called when the server has accepted the login are the migrations of \<open>ac_migrations\<close>. JSON is a
  pair of functions on the offline cache, and the name of a catalog a function on its document. The search index,
  the push queue (see \<open>Push_Queue\<close>) and the forms are left out.
\<close>

section \<open>State\<close>

record local_cache =
  lc_vaults :: "vault_cache_entry list"
  lc_identity :: "string \<times> string"
  lc_signing :: "string \<times> string"

record session_keys =
  sk_authHash :: string
  sk_masterKey :: crypto_key
  sk_wrappedMasterKey :: bytes
  sk_userId :: string

record connection =
  cn_authHash :: string
  cn_masterKey :: "crypto_key option"
  cn_wrapped :: "bytes option"

text \<open>A message that changes the password: the old and the new hash, the wrapped master key and private keys\<close>

record password_change =
  pc_oldAuthHash :: string
  pc_newAuthHash :: string
  pc_wrappedKey :: string
  pc_privateKeys :: "string option \<times> string option"

record account =
  ac_localStorage :: "(string \<times> string) list"
  ac_deviceId :: "string option"
  ac_session :: "session_keys option"
  ac_identity :: "(bytes \<times> bytes) option"
  ac_signing :: "(bytes \<times> bytes) option"
  ac_dbs :: "(string \<times> idb) list"
  ac_docMgr :: "(string \<times> crypto_key) option"
  ac_books :: "book list"
  ac_username :: string
  ac_userId :: string
  ac_isSignup :: bool
  ac_client :: "connection option"
  ac_migrations :: "password_change list"
  ac_sent :: "password_change list"
  ac_appShown :: bool

text \<open>What the device's browser and the packages give\<close>

record 'd platform =
  pf_crypto :: webcrypto
  pf_automerge :: "'d automerge"
  pf_parse :: "bytes \<Rightarrow> local_cache option"
  pf_catalogName :: "'d \<Rightarrow> string"
  pf_initCatalog :: "string \<Rightarrow> 'd \<Rightarrow> 'd"
  pf_secure :: bool

section \<open>The session (\<open>src/lib/auth.ts\<close>)\<close>

definition STORAGE_KEY_USERNAME :: string where "STORAGE_KEY_USERNAME = ''e2ee_username''"
definition STORAGE_KEY_WRAPPED_KEY :: string where "STORAGE_KEY_WRAPPED_KEY = ''e2ee_wrapped_master_key''"

definition getStoredUsername :: "account \<Rightarrow> string option" where
  "getStoredUsername s = map_get (ac_localStorage s) STORAGE_KEY_USERNAME"

definition getDeviceId :: "string \<Rightarrow> account \<Rightarrow> string \<times> account" where
  "getDeviceId fresh s =
     (case ac_deviceId s of
        Some i \<Rightarrow> if i = [] then (fresh, s\<lparr>ac_deviceId := Some fresh\<rparr>) else (i, s)
      | None \<Rightarrow> (fresh, s\<lparr>ac_deviceId := Some fresh\<rparr>))"

definition wrapped_key_name :: "string \<Rightarrow> string" where
  "wrapped_key_name userId = STORAGE_KEY_WRAPPED_KEY @ ''_'' @ take 16 userId"

text \<open>No stored key, a stored text that is not base64 (an exception), or the key\<close>

definition getStoredWrappedKey :: "string \<Rightarrow> account \<Rightarrow> bytes option option" where
  "getStoredWrappedKey userId s =
     (case map_get (ac_localStorage s) (wrapped_key_name userId) of
        None \<Rightarrow> Some None
      | Some b64 \<Rightarrow> if b64 = [] then Some None else map_option Some (fromBase64 b64))"

definition storeWrappedKey :: "string \<Rightarrow> bytes \<Rightarrow> account \<Rightarrow> account" where
  "storeWrappedKey userId wrapped s =
     s\<lparr>ac_localStorage := map_set (wrapped_key_name userId) (toBase64 wrapped) (ac_localStorage s)\<rparr>"

definition clearWrappedKey :: "string \<Rightarrow> account \<Rightarrow> account" where
  "clearWrappedKey userId s = s\<lparr>ac_localStorage := map_delete (wrapped_key_name userId) (ac_localStorage s)\<rparr>"

definition saveSession :: "string \<Rightarrow> session_keys \<Rightarrow> account \<Rightarrow> account" where
  "saveSession username keys s =
     (storeWrappedKey (sk_userId keys) (sk_wrappedMasterKey keys)
        (s\<lparr>ac_localStorage := map_set STORAGE_KEY_USERNAME username (ac_localStorage s)\<rparr>))\<lparr>ac_session := Some keys\<rparr>"

definition clearSession :: "account \<Rightarrow> account" where
  "clearSession s = s\<lparr>ac_localStorage := map_delete STORAGE_KEY_USERNAME (ac_localStorage s), ac_session := None\<rparr>"

definition clearIdentityKeys :: "account \<Rightarrow> account" where
  "clearIdentityKeys s = s\<lparr>ac_identity := None, ac_signing := None\<rparr>"

definition updateWrappedKey :: "string \<Rightarrow> bytes \<Rightarrow> account \<Rightarrow> account" where
  "updateWrappedKey userId wrapped s =
     (storeWrappedKey userId wrapped s)
       \<lparr>ac_session := map_option (\<lambda>k. k\<lparr>sk_wrappedMasterKey := wrapped\<rparr>) (ac_session s)\<rparr>"

text \<open>The database of a user; opening it makes it.\<close>

definition db_of :: "string \<Rightarrow> account \<Rightarrow> idb" where
  "db_of name s = (case map_get (ac_dbs s) name of Some db \<Rightarrow> db | None \<Rightarrow> [])"

definition put_db :: "string \<Rightarrow> idb \<Rightarrow> account \<Rightarrow> account" where
  "put_db name db s = s\<lparr>ac_dbs := map_set name db (ac_dbs s)\<rparr>"

definition DocumentManager_init :: "string \<Rightarrow> crypto_key \<Rightarrow> account \<Rightarrow> account" where
  "DocumentManager_init userId masterKey s =
     (let name = openStoreDB_name userId in (put_db name (db_of name s) s)\<lparr>ac_docMgr := Some (name, masterKey)\<rparr>)"

section \<open>Starting from the local cache\<close>

text \<open>A cached vault; one that does not decrypt is left out.\<close>

definition cached_book :: "webcrypto \<Rightarrow> crypto_key \<Rightarrow> vault_cache_entry \<Rightarrow> book option" where
  "cached_book C masterKey e =
     (case fromBase64 (vce_wrappedVaultKey e) of
        None \<Rightarrow> None
      | Some wrapped \<Rightarrow>
          (case decrypt C wrapped masterKey of
             None \<Rightarrow> None
           | Some rawKey \<Rightarrow>
               map_option (\<lambda>k. \<lparr>bk_vaultId = vce_vaultId e, bk_name = vce_name e, bk_role = vce_role e, bk_encKey = Some k\<rparr>)
                 (importBookKey rawKey)))"

text \<open>The catalogs are opened in order; the first that cannot be opened ends the start with an error.\<close>

fun open_catalogs ::
  "'d platform \<Rightarrow> (string \<Rightarrow> outcome) \<Rightarrow> crypto_key \<Rightarrow> book list \<Rightarrow> idb \<Rightarrow> bool \<times> book list \<times> idb" where
  "open_catalogs P out masterKey [] db = (True, [], db)"
| "open_catalogs P out masterKey (b # bs) db =
     (case store_open (pf_automerge P) (pf_crypto P) (out (bk_vaultId b)) db (catalog_id (bk_vaultId b)) masterKey
             (pf_initCatalog P (bk_name b)) of
        Inl e \<Rightarrow> (False, b # bs, db)
      | Inr (st, db1) \<Rightarrow>
          let name = pf_catalogName P (st_doc st);
              b' = (if name \<noteq> [] \<and> name \<noteq> bk_name b \<and> name \<noteq> take 8 (bk_vaultId b) then b\<lparr>bk_name := name\<rparr> else b);
              (ok, bs', db2) = open_catalogs P out masterKey bs db1
          in (ok, b' # bs', db2))"

text \<open>The result says whether the start reached its end.\<close>

definition localBoot ::
  "'d platform \<Rightarrow> (string \<Rightarrow> outcome) \<Rightarrow> local_cache \<Rightarrow> crypto_key \<Rightarrow> string \<Rightarrow> account \<Rightarrow> bool \<times> account" where
  "localBoot P out cache masterKey userId s =
     (let C = pf_crypto P;
          name = openStoreDB_name userId
      in case (fromBase64 (fst (lc_identity cache)),
               Option.bind (fromBase64 (snd (lc_identity cache))) (\<lambda>w. unwrapPrivateKey C w masterKey)) of
           (Some identityPub, Some identityPriv) \<Rightarrow>
             let s1 = s\<lparr>ac_identity := Some (identityPub, identityPriv)\<rparr> in
             (case (fromBase64 (fst (lc_signing cache)),
                    Option.bind (fromBase64 (snd (lc_signing cache))) (\<lambda>w. unwrapSigningKey C w masterKey)) of
                (Some signingPub, Some signingPriv) \<Rightarrow>
                  let books = List.map_filter (cached_book C masterKey) (lc_vaults cache);
                      (ok, books', db) = open_catalogs P out masterKey books (db_of name s1)
                  in (ok, (put_db name db s1)\<lparr>ac_signing := Some (signingPub, signingPriv), ac_books := books', ac_appShown := True\<rparr>)
              | _ \<Rightarrow> (False, s1))
         | _ \<Rightarrow> (False, s))"

section \<open>Login\<close>

datatype login_result = Login_Error string | Booted | Connecting

definition WRONG_PASSPHRASE :: string where
  "WRONG_PASSPHRASE = ''Wrong passphrase -- could not decrypt local data.''"

definition BOOT_FAILED :: string where
  "BOOT_FAILED = ''The operation failed for an operation-specific reason''"

definition REQUIRES_HTTPS :: string where
  "REQUIRES_HTTPS = ''LunchLoxs requires HTTPS for secure E2E encryption.''"

text \<open>The locally stored master key, unwrapped with the present key derivation or else with the legacy one: the
  master key, the key as wrapped under the present derivation, and the legacy keys when they were needed\<close>

definition unlock ::
  "webcrypto \<Rightarrow> bytes \<Rightarrow> string \<Rightarrow> string \<Rightarrow> derived_keys \<Rightarrow> bytes \<Rightarrow> (crypto_key \<times> bytes \<times> derived_keys option) option" where
  "unlock C iv username passphrase derived localWrapped =
     (case unwrapMasterKey C localWrapped (wrappingKey derived) of
        Some masterKey \<Rightarrow> Some (masterKey, localWrapped, None)
      | None \<Rightarrow>
          (case deriveKeysLegacy C username passphrase of
             Inl e \<Rightarrow> None
           | Inr legacyDerived \<Rightarrow>
               (case unwrapMasterKey C localWrapped (wrappingKey legacyDerived) of
                  None \<Rightarrow> None
                | Some masterKey \<Rightarrow>
                    map_option (\<lambda>w. (masterKey, w, Some legacyDerived)) (rewrapMasterKey C iv masterKey (wrappingKey derived)))))"

definition connect_account :: "derived_keys \<Rightarrow> crypto_key option \<Rightarrow> bytes option \<Rightarrow> account \<Rightarrow> account" where
  "connect_account serverDerived masterKey wrapped s =
     s\<lparr>ac_client := Some \<lparr>cn_authHash = authHash serverDerived, cn_masterKey = masterKey, cn_wrapped = wrapped\<rparr>\<rparr>"

definition migration :: "string \<Rightarrow> derived_keys \<Rightarrow> bytes \<Rightarrow> password_change" where
  "migration oldHash derived wrapped =
     \<lparr>pc_oldAuthHash = oldHash, pc_newAuthHash = authHash derived, pc_wrappedKey = toBase64 wrapped, pc_privateKeys = (None, None)\<rparr>"

text \<open>In a context that is not secure it throws; the login then shows an error over the app.\<close>

definition connectInBackground ::
  "'d platform \<Rightarrow> derived_keys \<Rightarrow> crypto_key \<Rightarrow> bytes \<Rightarrow> derived_keys option \<Rightarrow> account \<Rightarrow> login_result \<times> account" where
  "connectInBackground P serverDerived masterKey wrapped migrateTo s =
     (if \<not> pf_secure P then (Login_Error REQUIRES_HTTPS, s)
      else let s1 = connect_account serverDerived (Some masterKey) (Some wrapped) (s\<lparr>ac_isSignup := False\<rparr>)
           in (Booted, case migrateTo of
                         None \<Rightarrow> s1
                       | Some derived \<Rightarrow> s1\<lparr>ac_migrations := ac_migrations s1 @ [migration (authHash serverDerived) derived wrapped]\<rparr>))"

text \<open>The end of \<open>login\<close> without a local cache: it waits for the server.\<close>

definition connect_first ::
  "'d platform \<Rightarrow> derived_keys \<Rightarrow> (crypto_key \<times> bytes \<times> derived_keys option) option \<Rightarrow> account \<Rightarrow> login_result \<times> account" where
  "connect_first P derived unlocked s =
     (if \<not> pf_secure P then (Login_Error REQUIRES_HTTPS, s)
      else case unlocked of
             None \<Rightarrow> (Connecting, connect_account derived None None s)
           | Some (masterKey, wrapped, None) \<Rightarrow> (Connecting, connect_account derived (Some masterKey) (Some wrapped) s)
           | Some (masterKey, wrapped, Some legacy) \<Rightarrow>
               (Connecting,
                (connect_account legacy (Some masterKey) (Some wrapped) s)
                  \<lparr>ac_migrations := ac_migrations s @ [migration (authHash legacy) derived wrapped]\<rparr>))"

definition login ::
  "'d platform \<Rightarrow> bytes \<Rightarrow> (string \<Rightarrow> outcome) \<Rightarrow> string \<Rightarrow> string \<Rightarrow> account \<Rightarrow> login_result \<times> account" where
  "login P iv out username passphrase s =
     (let C = pf_crypto P in
      case deriveKeys C username passphrase of
        Inl e \<Rightarrow> (Login_Error BOOT_FAILED, s)
      | Inr derived \<Rightarrow>
          let userId = deriveUserId C username;
              s1 = s\<lparr>ac_username := username, ac_userId := userId\<rparr>
          in (case getStoredWrappedKey userId s1 of
                None \<Rightarrow> (Login_Error BOOT_FAILED, s1)
              | Some None \<Rightarrow> connect_first P derived None s1
              | Some (Some localWrapped) \<Rightarrow>
                  (case unlock C iv username passphrase derived localWrapped of
                     None \<Rightarrow> (Login_Error WRONG_PASSPHRASE, s1)
                   | Some (masterKey, wrapped, legacy) \<Rightarrow>
                       let s2 = DocumentManager_init userId masterKey s1 in
                       (case loadLocalCache C (pf_parse P) masterKey (db_of (openStoreDB_name userId) s2) of
                          None \<Rightarrow> connect_first P derived (Some (masterKey, wrapped, legacy)) s2
                        | Some cache \<Rightarrow>
                            let s3 = saveSession username \<lparr>sk_authHash = authHash derived, sk_masterKey = masterKey,
                                       sk_wrappedMasterKey = wrapped, sk_userId = userId\<rparr> s2;
                                (ok, s4) = localBoot P out cache masterKey userId s3
                            in if \<not> ok then (Login_Error BOOT_FAILED, s4)
                               else connectInBackground P (case legacy of Some l \<Rightarrow> l | None \<Rightarrow> derived) masterKey wrapped
                                      (map_option (\<lambda>_. derived) legacy) s4))))"

text \<open>The server accepts the login: the waiting migrations are sent. They are not removed.\<close>

definition auth_success :: "account \<Rightarrow> account" where
  "auth_success s = s\<lparr>ac_sent := ac_sent s @ ac_migrations s, ac_appShown := True\<rparr>"

section \<open>Logging out\<close>

definition logout :: "account \<Rightarrow> account" where
  "logout s =
     (let s1 = (case ac_docMgr s of
                  None \<Rightarrow> s
                | Some (name, _) \<Rightarrow> put_db name (clearLocalCache (db_of name s)) s);
          s2 = clearIdentityKeys (clearSession (s1\<lparr>ac_client := None, ac_docMgr := None\<rparr>))
      in s2\<lparr>ac_books := [], ac_username := [], ac_userId := [], ac_isSignup := False, ac_appShown := False\<rparr>)"

definition purgeLocalData :: "account \<Rightarrow> account" where
  "purgeLocalData s = s\<lparr>ac_docMgr := None, ac_dbs := [], ac_localStorage := []\<rparr>"

text \<open>The checks of the sign-up form, and the texts for the server's refusals\<close>

definition signup_check :: "string \<Rightarrow> string \<Rightarrow> string option" where
  "signup_check password confirmation =
     (if password \<noteq> confirmation then Some (''Passwords don'' @ [CHR 0x27] @ ''t match.'')
      else if length password < 8 then Some ''Password must be at least 8 characters.'' else None)"

definition signup :: "'d platform \<Rightarrow> bytes \<Rightarrow> (string \<Rightarrow> outcome) \<Rightarrow> string \<Rightarrow> string \<Rightarrow> string \<Rightarrow> account \<Rightarrow> login_result \<times> account" where
  "signup P iv out username password confirmation s =
     (case signup_check password confirmation of
        Some e \<Rightarrow> (Login_Error e, s)
      | None \<Rightarrow> login P iv out (js_trim username) password s)"

definition auth_error_text :: "string \<Rightarrow> string" where
  "auth_error_text type =
     (if type = ''user_already_exists'' then ''Username already taken.''
      else if type = ''user_not_found'' then ''User not found. Check your username or sign up.''
      else ''Invalid username or password.'')"

section \<open>Changing the password\<close>

text \<open>The offline cache as \<open>connect.ts\<close> saves it after each list of vaults, under the master key of the connection\<close>

definition save_cache :: "'d platform \<Rightarrow> bytes \<Rightarrow> (local_cache \<Rightarrow> bytes) \<Rightarrow> local_cache \<Rightarrow> account \<Rightarrow> account" where
  "save_cache P iv stringify cache s =
     (case (ac_docMgr s, Option.bind (ac_client s) cn_masterKey) of
        (Some (name, _), Some masterKey) \<Rightarrow>
          put_db name (saveLocalCache (pf_crypto P) iv stringify masterKey cache (db_of name s)) s
      | _ \<Rightarrow> s)"

datatype password_message = Nothing_Shown | Pw_Error string | Pw_Changed

text \<open>\<open>server\<close> says whether the server confirms the change.\<close>

definition change_password ::
  "'d platform \<Rightarrow> bytes \<Rightarrow> bytes \<Rightarrow> (string \<Rightarrow> bytes) \<Rightarrow> bool \<Rightarrow> string \<Rightarrow> string \<Rightarrow> string \<Rightarrow> account \<Rightarrow> password_message \<times> account" where
  "change_password P fresh iv ivs server oldPw newPw confirmPw s =
     (let C = pf_crypto P in
      if oldPw = [] then (Pw_Error ''Current password is required.'', s)
      else if newPw \<noteq> confirmPw then (Pw_Error (''Passwords don'' @ [CHR 0x27] @ ''t match.''), s)
      else case (getStoredUsername s, ac_client s) of
        (Some username, Some client) \<Rightarrow>
          if username = [] then (Nothing_Shown, s)
          else (case (deriveKeys C username oldPw, deriveKeys C username newPw) of
             (Inr od, Inr nd) \<Rightarrow>
               let uid = deriveUserId C username in
               (case (ac_session s, ac_docMgr s) of
                  (Some session, Some (name, _)) \<Rightarrow>
                    (case rotateMasterKey C fresh iv (sk_masterKey session) (wrappingKey nd) of
                       None \<Rightarrow> (Pw_Error ''Failed: '', s)
                     | Some (newMasterKey, nw) \<Rightarrow>
                         let (ok, db) = reEncryptAllDocs C (sk_masterKey session) newMasterKey ivs (db_of name s);
                             s1 = put_db name db s
                         in if \<not> ok then (Pw_Error ''Failed: '', s1)
                            else let wrap = (\<lambda>i k. toBase64 (wrapPrivateKey C (ivs i) (snd k) newMasterKey));
                                     s2 = updateWrappedKey uid nw s1;
                                     s3 = s2\<lparr>ac_session := map_option (\<lambda>k. k\<lparr>sk_masterKey := newMasterKey, sk_wrappedMasterKey := nw\<rparr>) (ac_session s2),
                                             ac_docMgr := Some (name, newMasterKey),
                                             ac_sent := ac_sent s2 @ [\<lparr>pc_oldAuthHash = authHash od, pc_newAuthHash = authHash nd,
                                               pc_wrappedKey = toBase64 nw,
                                               pc_privateKeys = (map_option (wrap ''identity'') (ac_identity s), map_option (wrap ''signing'') (ac_signing s))\<rparr>]\<rparr>
                                 in (if server then Pw_Changed else Pw_Error ''Failed: '', s3))
                | _ \<Rightarrow> (Nothing_Shown, s))
           | _ \<Rightarrow> (Pw_Error ''Failed: '', s))
      | _ \<Rightarrow> (Nothing_Shown, s))"

section \<open>Lemmas\<close>

lemma toBase64_Nil: "toBase64 bs = [] \<longleftrightarrow> bs = []"
proof -
  have "toBase64 [] = []" by (simp add: toBase64_def btoa_def)
  then show ?thesis using fromBase64_toBase64 [of bs] fromBase64_toBase64 [of "[]"] by auto
qed

lemma wrapped_key_name_other [simp]: "wrapped_key_name u \<noteq> STORAGE_KEY_USERNAME" "STORAGE_KEY_USERNAME \<noteq> wrapped_key_name u"
  by (simp_all add: wrapped_key_name_def STORAGE_KEY_USERNAME_def STORAGE_KEY_WRAPPED_KEY_def)

lemma stored_wrapped_key:
  "map_get (ac_localStorage s) (wrapped_key_name u) = Some (toBase64 w) \<Longrightarrow> w \<noteq> [] \<Longrightarrow> getStoredWrappedKey u s = Some (Some w)"
  by (simp add: getStoredWrappedKey_def toBase64_Nil fromBase64_toBase64)

lemma getStoredWrappedKey_local:
  "ac_localStorage t = ac_localStorage s \<Longrightarrow> getStoredWrappedKey u t = getStoredWrappedKey u s"
  by (simp add: getStoredWrappedKey_def)

lemma saveSession_stores:
  "map_get (ac_localStorage (saveSession u k s)) (wrapped_key_name (sk_userId k)) = Some (toBase64 (sk_wrappedMasterKey k))"
  by (simp add: saveSession_def storeWrappedKey_def map_eqs)

lemma db_of_put [simp]: "db_of n (put_db m db s) = (if n = m then db else db_of n s)"
  by (simp add: db_of_def put_db_def map_eqs)

lemma db_of_init [simp]: "db_of n (DocumentManager_init u k s) = db_of n s"
  by (auto simp: DocumentManager_init_def Let_def db_of_def put_db_def map_eqs split: option.splits)

lemma put_db_sels [simp]:
  "ac_localStorage (put_db n db s) = ac_localStorage s" "ac_session (put_db n db s) = ac_session s"
  "ac_identity (put_db n db s) = ac_identity s" "ac_signing (put_db n db s) = ac_signing s"
  "ac_client (put_db n db s) = ac_client s" "ac_migrations (put_db n db s) = ac_migrations s" "ac_sent (put_db n db s) = ac_sent s"
  "ac_books (put_db n db s) = ac_books s" "ac_docMgr (put_db n db s) = ac_docMgr s"
  by (simp_all add: put_db_def)

lemma init_sels [simp]:
  "ac_localStorage (DocumentManager_init u k s) = ac_localStorage s" "ac_migrations (DocumentManager_init u k s) = ac_migrations s"
  "ac_sent (DocumentManager_init u k s) = ac_sent s"
  by (simp_all add: DocumentManager_init_def Let_def)

lemma db_of_fields [simp]:
  "db_of n (s\<lparr>ac_username := x\<rparr>) = db_of n s" "db_of n (s\<lparr>ac_userId := x\<rparr>) = db_of n s" "db_of n (s\<lparr>ac_identity := i\<rparr>) = db_of n s"
  "db_of n (s\<lparr>ac_session := k\<rparr>) = db_of n s" "db_of n (s\<lparr>ac_localStorage := l\<rparr>) = db_of n s" "db_of n (s\<lparr>ac_docMgr := d\<rparr>) = db_of n s"
  "db_of n (s\<lparr>ac_sent := p\<rparr>) = db_of n s"
  by (simp_all add: db_of_def)

lemma db_of_save [simp]: "db_of n (saveSession u k s) = db_of n s"
  by (simp add: saveSession_def storeWrappedKey_def)

lemma unwrap_wrapped_key:
  "aead_law C \<Longrightarrow> length iv = 12 \<Longrightarrow> length raw = 32 \<Longrightarrow> unwrapMasterKey C (encrypt C iv raw k) k = Some (AesKey raw True)"
  by (simp add: unwrapMasterKey_def import_aes_def)

lemma load_saved_cache:
  "aead_law C \<Longrightarrow> length iv = 12 \<Longrightarrow> parse (enc c) = Some c \<Longrightarrow> idb_get db LOCAL_CACHE_KEY = Some (VBytes (encrypt C iv (enc c) k))
   \<Longrightarrow> loadLocalCache C parse k db = Some c"
  by (simp add: loadLocalCache_def)

section \<open>A returning user\<close>

text \<open>The cache that \<open>connect.ts\<close> saves: every key in it is wrapped under the master key.\<close>

definition cache_entry :: "webcrypto \<Rightarrow> crypto_key \<Rightarrow> string \<times> string \<times> string \<times> bytes \<times> bytes \<Rightarrow> vault_cache_entry" where
  "cache_entry C masterKey v =
     (case v of (i, name, role, rawKey, iv) \<Rightarrow>
        \<lparr>vce_vaultId = i, vce_name = name, vce_role = role, vce_wrappedVaultKey = toBase64 (encrypt C iv rawKey masterKey)\<rparr>)"

definition saved_cache ::
  "webcrypto \<Rightarrow> crypto_key \<Rightarrow> bytes \<Rightarrow> bytes \<times> bytes \<Rightarrow> bytes \<times> bytes \<Rightarrow> (string \<times> string \<times> string \<times> bytes \<times> bytes) list \<Rightarrow> local_cache" where
  "saved_cache C masterKey iv identity signing vs =
     \<lparr>lc_vaults = map (cache_entry C masterKey) vs,
      lc_identity = (toBase64 (fst identity), toBase64 (wrapPrivateKey C iv (snd identity) masterKey)),
      lc_signing = (toBase64 (fst signing), toBase64 (wrapSigningKey C iv (snd signing) masterKey))\<rparr>"

definition good_vault :: "string \<times> string \<times> string \<times> bytes \<times> bytes \<Rightarrow> bool" where
  "good_vault v = (case v of (i, name, role, rawKey, iv) \<Rightarrow> length rawKey = 32 \<and> length iv = 12)"

lemma cached_book_entry:
  assumes "aead_law C" "good_vault v"
  shows "cached_book C mk (cache_entry C mk v) =
    Some \<lparr>bk_vaultId = fst v, bk_name = fst (snd v), bk_role = fst (snd (snd v)), bk_encKey = Some (AesKey (fst (snd (snd (snd v)))) True)\<rparr>"
  using assms by (cases v)
    (auto simp: cached_book_def cache_entry_def good_vault_def fromBase64_toBase64 importBookKey_def import_aes_def)

lemma cached_books:
  assumes "aead_law C" "\<forall>v \<in> set vs. good_vault v"
  shows "List.map_filter (cached_book C mk) (map (cache_entry C mk) vs) =
    map (\<lambda>v. \<lparr>bk_vaultId = fst v, bk_name = fst (snd v), bk_role = fst (snd (snd v)), bk_encKey = Some (AesKey (fst (snd (snd (snd v)))) True)\<rparr>) vs"
  using assms(2) by (induction vs) (simp_all add: cached_book_entry [OF assms(1)] List.map_filter_def)

text \<open>A catalog is readable when it is absent or a saved document under the master key.\<close>

definition readable :: "'d platform \<Rightarrow> idb \<Rightarrow> crypto_key \<Rightarrow> string \<Rightarrow> bool" where
  "readable P db masterKey v \<longleftrightarrow>
     idb_get db (doc_key (catalog_id v)) = None \<or>
     (\<exists>b d. idb_get db (doc_key (catalog_id v)) = Some (VBytes b) \<and> decrypt (pf_crypto P) b masterKey = Some (am_save (pf_automerge P) d))"

lemma readable_opens:
  assumes "save_load_law (pf_automerge P)" "aead_law (pf_crypto P)" "length iv = 12" "readable P db mk v"
  shows "\<exists>st db'. store_open (pf_automerge P) (pf_crypto P) (Committed iv) db (catalog_id v) mk f = Inr (st, db') \<and>
    (\<forall>w. readable P db mk w \<longrightarrow> readable P db' mk w)"
proof -
  obtain st where st: "store_open (pf_automerge P) (pf_crypto P) (Committed iv) db (catalog_id v) mk f
      = Inr (st, persist (pf_automerge P) (pf_crypto P) iv st db)" "st_docId st = catalog_id v" "st_encKey st = mk"
    using assms(1,4) by (auto simp: readable_def store_open_def save_load_law_def new_store_def)
  have "readable P (persist (pf_automerge P) (pf_crypto P) iv st db) mk w" if "readable P db mk w" for w
    using that assms(2,3) st(2,3) by (auto simp: readable_def persist_def)
  with st(1) show ?thesis by blast
qed

lemma catalogs_open:
  assumes "save_load_law (pf_automerge P)" "aead_law (pf_crypto P)" "\<And>v. \<exists>iv. out v = Committed iv \<and> length iv = 12"
    and "\<forall>b \<in> set bs. readable P db mk (bk_vaultId b)"
  shows "\<exists>bs' db'. open_catalogs P out mk bs db = (True, bs', db') \<and>
    map (\<lambda>b. (bk_vaultId b, bk_role b, bk_encKey b)) bs' = map (\<lambda>b. (bk_vaultId b, bk_role b, bk_encKey b)) bs"
  using assms(4)
proof (induction bs arbitrary: db)
  case (Cons b bs)
  obtain iv where iv: "out (bk_vaultId b) = Committed iv" "length iv = 12" using assms(3) by blast
  obtain st db1 where o: "store_open (pf_automerge P) (pf_crypto P) (Committed iv) db (catalog_id (bk_vaultId b)) mk
      (pf_initCatalog P (bk_name b)) = Inr (st, db1)" and r: "\<And>w. readable P db mk w \<Longrightarrow> readable P db1 mk w"
    using readable_opens [OF assms(1,2) iv(2)] Cons.prems by fastforce
  obtain bs' db' where "open_catalogs P out mk bs db1 = (True, bs', db')"
    "map (\<lambda>b. (bk_vaultId b, bk_role b, bk_encKey b)) bs' = map (\<lambda>b. (bk_vaultId b, bk_role b, bk_encKey b)) bs"
    using Cons.IH [of db1] Cons.prems r by auto
  then show ?case using iv(1) o by (simp add: Let_def)
qed simp

text \<open>C30: a returning user starts offline: on a device that holds the master key wrapped under the keys of the
  passphrase and the cache saved under the master key, with readable catalogs, login with that passphrase needs no
  answer of the server: the identity and signing keys and the key of every book are the ones saved, the session
  holds the master key, and the connection is made with the hash of the passphrase.\<close>

theorem returning_user_boots_offline:
  assumes "aead_law (pf_crypto P)" "save_load_law (pf_automerge P)" "pf_secure P"
    and "deriveKeys (pf_crypto P) username passphrase = Inr derived" "uid = deriveUserId (pf_crypto P) username"
    and "mk = AesKey raw True" "length raw = 32" "wrapKey (pf_crypto P) iv0 mk (wrappingKey derived) = Some wrapped" "length iv0 = 12"
    and "map_get (ac_localStorage s) (wrapped_key_name uid) = Some (toBase64 wrapped)"
    and "cache = saved_cache (pf_crypto P) mk iv1 identity signing vs" "length iv1 = 12" "\<forall>v \<in> set vs. good_vault v"
    and "pf_parse P (enc cache) = Some cache" "idb_get (db_of (openStoreDB_name uid) s) LOCAL_CACHE_KEY
      = Some (VBytes (encrypt (pf_crypto P) iv2 (enc cache) mk))" "length iv2 = 12"
    and "\<forall>v \<in> set vs. readable P (db_of (openStoreDB_name uid) s) mk (fst v)" "\<forall>v. \<exists>iv. out v = Committed iv \<and> length iv = 12"
  shows "\<exists>t. login P iv out username passphrase s = (Booted, t) \<and> ac_identity t = Some identity \<and> ac_signing t = Some signing \<and>
    map (\<lambda>b. (bk_vaultId b, bk_role b, bk_encKey b)) (ac_books t)
      = map (\<lambda>(i, name, role, rawKey, iv). (i, role, Some (AesKey rawKey True))) vs \<and>
    ac_session t = Some \<lparr>sk_authHash = authHash derived, sk_masterKey = mk, sk_wrappedMasterKey = wrapped, sk_userId = uid\<rparr> \<and>
    ac_client t = Some \<lparr>cn_authHash = authHash derived, cn_masterKey = Some mk, cn_wrapped = Some wrapped\<rparr> \<and>
    ac_migrations t = ac_migrations s"
proof -
  let ?C = "pf_crypto P" and ?n = "openStoreDB_name uid"
  define s1 where "s1 = s\<lparr>ac_username := username, ac_userId := uid\<rparr>"
  define s2 where "s2 = DocumentManager_init uid mk s1"
  let ?keys = "\<lparr>sk_authHash = authHash derived, sk_masterKey = mk, sk_wrappedMasterKey = wrapped, sk_userId = uid\<rparr>"
  define s3 where "s3 = saveSession username ?keys s2"
  have w: "wrapped = encrypt ?C iv0 raw (wrappingKey derived)" using assms(6,8) by (simp add: wrapKey_def export_aes_def)
  then have "wrapped \<noteq> []" using assms(9) by (auto simp: encrypt_def)
  then have stored: "getStoredWrappedKey uid s1 = Some (Some wrapped)"
    using assms(10) by (intro stored_wrapped_key) (simp_all add: s1_def)
  have unlock: "unlock ?C iv username passphrase derived wrapped = Some (mk, wrapped, None)"
    using unwrap_wrapped_key [OF assms(1,9,7)] assms(6) by (simp add: unlock_def w)
  have dbs: "db_of ?n s2 = db_of ?n s" "db_of ?n s3 = db_of ?n s" by (simp_all add: s3_def s2_def s1_def)
  have loaded: "loadLocalCache ?C (pf_parse P) mk (db_of ?n s2) = Some cache"
    unfolding dbs by (rule load_saved_cache [where enc = enc]) (use assms in simp_all)
  let ?books = "map (\<lambda>v. \<lparr>bk_vaultId = fst v, bk_name = fst (snd v), bk_role = fst (snd (snd v)), bk_encKey = Some (AesKey (fst (snd (snd (snd v)))) True)\<rparr>) vs"
  obtain bs' db' where o: "open_catalogs P out mk ?books (db_of ?n s) = (True, bs', db')"
    "map (\<lambda>b. (bk_vaultId b, bk_role b, bk_encKey b)) bs' = map (\<lambda>b. (bk_vaultId b, bk_role b, bk_encKey b)) ?books"
    using catalogs_open [OF assms(2,1), of out ?books "db_of ?n s" mk] assms(17,18) by auto
  have boot: "localBoot P out cache mk uid s3 = (True, (put_db ?n db' (s3\<lparr>ac_identity := Some identity\<rparr>))
      \<lparr>ac_signing := Some signing, ac_books := bs', ac_appShown := True\<rparr>)"
    using assms(1,12) cached_books [OF assms(1,13), of mk] o(1) dbs(2)
    by (simp add: localBoot_def assms(11) saved_cache_def fromBase64_toBase64 unwrapPrivateKey_def wrapPrivateKey_def
        unwrapSigningKey_def wrapSigningKey_def Let_def)
  have "login P iv out username passphrase s
    = connectInBackground P derived mk wrapped None ((put_db ?n db' (s3\<lparr>ac_identity := Some identity\<rparr>))
        \<lparr>ac_signing := Some signing, ac_books := bs', ac_appShown := True\<rparr>)"
    using stored unlock loaded boot unfolding s3_def s2_def s1_def by (simp add: login_def assms(4) assms(5) [symmetric] Let_def)
  moreover have "map (\<lambda>b. (bk_vaultId b, bk_role b, bk_encKey b)) ?books = map (\<lambda>(i, name, role, rawKey, iv). (i, role, Some (AesKey rawKey True))) vs"
    by (simp add: case_prod_beta)
  moreover have "ac_session s3 = Some ?keys" "ac_migrations s3 = ac_migrations s"
    by (simp_all add: s3_def saveSession_def storeWrappedKey_def s2_def s1_def)
  ultimately show ?thesis using assms(3) o(2) by (simp add: connectInBackground_def connect_account_def Let_def)
qed

section \<open>After a change of the password\<close>

lemma reEncrypt_loop_others:
  "reEncrypt_loop C oldKey newKey iv keys db = (ok, db') \<Longrightarrow> k \<notin> set keys \<Longrightarrow> idb_get db' k = idb_get db k"
  by (induction keys arbitrary: db) (auto split: option.splits idb_value.splits)

lemma reEncrypt_cache:
  assumes "reEncryptAllDocs C old new ivs db = (True, db')" "idb_get db LOCAL_CACHE_KEY = Some (VBytes c)" "decrypt C c old = Some plaintext"
  shows "idb_get db' LOCAL_CACHE_KEY = Some (VBytes (encrypt C (ivs LOCAL_CACHE_KEY) plaintext new))"
proof -
  let ?keys = "filter (prefix ''doc:'') (idb_getAllKeys db)"
  obtain ok db1 where l: "reEncrypt_loop C old new ivs ?keys db = (ok, db1)" by force
  have "LOCAL_CACHE_KEY \<notin> set ?keys" by (simp add: LOCAL_CACHE_KEY_def)
  with l have "idb_get db1 LOCAL_CACHE_KEY = Some (VBytes c)" using reEncrypt_loop_others assms(2) by metis
  with assms(1,3) l show ?thesis by (auto simp: reEncryptAllDocs_def Let_def split: if_splits)
qed

text \<open>What the form leaves on the device when it comes as far as the message to the server\<close>

lemma change_password_sent:
  assumes "change_password P fresh iv ivs server oldPw newPw confirmPw s = (m, t)" "m = Pw_Changed \<or> ac_sent t \<noteq> ac_sent s"
    and "getStoredUsername s = Some username" "deriveKeys (pf_crypto P) username newPw = Inr nd"
    and "ac_session s = Some session" "ac_docMgr s = Some (name, k)"
  shows "\<exists>newKey nw db od. generateMasterKey (pf_crypto P) fresh iv (wrappingKey nd) = Some (newKey, nw) \<and>
    reEncryptAllDocs (pf_crypto P) (sk_masterKey session) newKey ivs (db_of name s) = (True, db) \<and> db_of name t = db \<and>
    map_get (ac_localStorage t) (wrapped_key_name (deriveUserId (pf_crypto P) username)) = Some (toBase64 nw) \<and>
    deriveKeys (pf_crypto P) username oldPw = Inr od \<and> m = (if server then Pw_Changed else Pw_Error ''Failed: '') \<and>
    (\<exists>priv. ac_sent t = ac_sent s @ [\<lparr>pc_oldAuthHash = authHash od, pc_newAuthHash = authHash nd, pc_wrappedKey = toBase64 nw, pc_privateKeys = priv\<rparr>])"
  using assms
  by (auto simp: change_password_def Let_def rotateMasterKey_def updateWrappedKey_def storeWrappedKey_def map_eqs db_of_def put_db_def
      split: if_splits option.splits sum.splits prod.splits)

text \<open>A device whose cache opens under the stored key, but holds an identity key that does not: login fails at it,
  and leaves it as it is.\<close>

definition stuck_device :: "'d platform \<Rightarrow> string \<Rightarrow> derived_keys \<Rightarrow> bytes \<Rightarrow> bytes \<Rightarrow> account \<Rightarrow> bool" where
  "stuck_device P uid nd nw b s \<longleftrightarrow>
     map_get (ac_localStorage s) (wrapped_key_name uid) = Some (toBase64 nw) \<and>
     idb_get (db_of (openStoreDB_name uid) s) LOCAL_CACHE_KEY = Some (VBytes b)"

lemma stuck_login:
  assumes "stuck_device P uid nd nw b s" "nw \<noteq> []" "uid = deriveUserId (pf_crypto P) username"
    and "deriveKeys (pf_crypto P) username pw = Inr nd" "unwrapMasterKey (pf_crypto P) nw (wrappingKey nd) = Some mk"
    and "Option.bind (decrypt (pf_crypto P) b mk) (pf_parse P) = Some cache" "fromBase64 (snd (lc_identity cache)) = Some w"
    and "unwrapPrivateKey (pf_crypto P) w mk = None"
  shows "fst (login P iv out username pw s) = Login_Error BOOT_FAILED \<and> stuck_device P uid nd nw b (snd (login P iv out username pw s))"
proof -
  let ?C = "pf_crypto P" and ?n = "openStoreDB_name uid"
  define s2 where "s2 = DocumentManager_init uid mk (s\<lparr>ac_username := username, ac_userId := uid\<rparr>)"
  let ?keys = "\<lparr>sk_authHash = authHash nd, sk_masterKey = mk, sk_wrappedMasterKey = nw, sk_userId = uid\<rparr>"
  have stored: "getStoredWrappedKey uid (s\<lparr>ac_username := username, ac_userId := uid\<rparr>) = Some (Some nw)"
    using assms(1,2) by (intro stored_wrapped_key) (simp_all add: stuck_device_def)
  have db: "db_of ?n s2 = db_of ?n s" by (simp add: s2_def)
  have "loadLocalCache ?C (pf_parse P) mk (db_of ?n s2) = Some cache"
    using assms(1,6) by (simp add: loadLocalCache_def db stuck_device_def)
  moreover have "localBoot P out cache mk uid t = (False, t)" for t
    using assms(7,8) by (simp add: localBoot_def Let_def split: option.split)
  moreover have "unlock ?C iv username pw nd nw = Some (mk, nw, None)" using assms(5) by (simp add: unlock_def)
  ultimately have "login P iv out username pw s = (Login_Error BOOT_FAILED, saveSession username ?keys s2)"
    using stored unfolding s2_def by (simp add: login_def assms(4) assms(3) [symmetric] Let_def)
  moreover have "stuck_device P uid nd nw b (saveSession username ?keys s2)"
    using assms(1) saveSession_stores [of username ?keys s2] db by (simp add: stuck_device_def)
  ultimately show ?thesis by simp
qed

text \<open>C31: a change of the password encrypts the offline cache anew, but the keys inside it stay wrapped under the old
  master key. Until a list of vaults comes from the server and the cache is replaced, the device cannot be entered
  any more with the new password: login opens the cache, fails at the identity key inside, and fails at every
  further attempt, without ever asking the server.\<close>

theorem password_change_locks_the_device_out:
  assumes "aead_law (pf_crypto P)" "\<forall>k. length (ivs k) = 12" "length iv = 12" "length fresh = 32" "length iv2 = 12"
    and "change_password P fresh iv ivs True oldPw newPw newPw s = (Pw_Changed, t)"
    and "getStoredUsername s = Some username" "deriveKeys (pf_crypto P) username newPw = Inr nd" "uid = deriveUserId (pf_crypto P) username"
    and "ac_session s = Some session" "ac_docMgr s = Some (openStoreDB_name uid, k)"
    and "cache = saved_cache (pf_crypto P) (sk_masterKey session) iv1 identity signing vs" "pf_parse P (enc cache) = Some cache"
    and "idb_get (db_of (openStoreDB_name uid) s) LOCAL_CACHE_KEY
      = Some (VBytes (encrypt (pf_crypto P) iv2 (enc cache) (sk_masterKey session)))"
    and "decrypt (pf_crypto P) (wrapPrivateKey (pf_crypto P) iv1 (snd identity) (sk_masterKey session)) (AesKey fresh True) = None"
  shows "fst (login P iv' out username newPw (((\<lambda>u. snd (login P iv' out username newPw u)) ^^ n) t)) = Login_Error BOOT_FAILED"
proof -
  let ?C = "pf_crypto P"
  obtain newKey nw db where g: "generateMasterKey ?C fresh iv (wrappingKey nd) = Some (newKey, nw)"
    and r: "reEncryptAllDocs ?C (sk_masterKey session) newKey ivs (db_of (openStoreDB_name uid) s) = (True, db)"
      "db_of (openStoreDB_name uid) t = db"
    and l: "map_get (ac_localStorage t) (wrapped_key_name uid) = Some (toBase64 nw)"
    using change_password_sent [OF assms(6) _ assms(7,8,10,11)] assms(9) by auto
  have nw: "newKey = AesKey fresh True" "nw = encrypt ?C iv fresh (wrappingKey nd)"
    using g assms(4) by (auto simp: generateMasterKey_def import_aes_def wrapKey_def export_aes_def)
  have "nw \<noteq> []" using assms(3) by (auto simp: nw(2) encrypt_def)
  let ?b = "encrypt ?C (ivs LOCAL_CACHE_KEY) (enc cache) newKey"
  have "idb_get db LOCAL_CACHE_KEY = Some (VBytes ?b)"
    by (rule reEncrypt_cache [OF r(1) assms(14)]) (use assms(1,5) in simp)
  then have stuck: "stuck_device P uid nd nw ?b t" using l r(2) by (simp add: stuck_device_def)
  have step: "fst (login P iv' out username newPw u) = Login_Error BOOT_FAILED \<and> stuck_device P uid nd nw ?b (snd (login P iv' out username newPw u))"
    if "stuck_device P uid nd nw ?b u" for u
  proof (rule stuck_login [OF that \<open>nw \<noteq> []\<close> assms(9,8), where mk = newKey and cache = cache])
    show "unwrapMasterKey ?C nw (wrappingKey nd) = Some newKey" using unwrap_wrapped_key [OF assms(1,3,4)] by (simp add: nw)
    show "Option.bind (decrypt ?C ?b newKey) (pf_parse P) = Some cache" using assms(1,2,13) by simp
    show "fromBase64 (snd (lc_identity cache)) = Some (wrapPrivateKey ?C iv1 (snd identity) (sk_masterKey session))"
      by (simp add: assms(12) saved_cache_def fromBase64_toBase64)
    show "unwrapPrivateKey ?C (wrapPrivateKey ?C iv1 (snd identity) (sk_masterKey session)) newKey = None"
      using assms(15) by (simp add: nw(1) unwrapPrivateKey_def)
  qed
  have "stuck_device P uid nd nw ?b (((\<lambda>u. snd (login P iv' out username newPw u)) ^^ n) t)"
    using stuck step by (induction n) simp_all
  then show ?thesis using step by blast
qed

text \<open>C32: the current password that is typed into the form is checked by the server only, after the device has made
  its change: when the server refuses it, or cannot be reached, the form says so, but the master key of the device
  is already the new one, wrapped under the new password, and the password that the server still expects no longer
  opens the device.\<close>

theorem refused_password_change_stays_on_the_device:
  assumes "change_password P fresh iv ivs False oldPw newPw newPw s = (m, t)" "ac_sent t \<noteq> ac_sent s"
    and "length fresh = 32" "length iv = 12"
    and "getStoredUsername s = Some username" "deriveKeys (pf_crypto P) username newPw = Inr nd" "uid = deriveUserId (pf_crypto P) username"
    and "ac_session s = Some session" "ac_docMgr s = Some (name, k)"
    and "deriveKeys (pf_crypto P) username currentPw = Inr cd" "deriveKeysLegacy (pf_crypto P) username currentPw = Inr ld"
    and "decrypt (pf_crypto P) (encrypt (pf_crypto P) iv fresh (wrappingKey nd)) (wrappingKey cd) = None"
    and "decrypt (pf_crypto P) (encrypt (pf_crypto P) iv fresh (wrappingKey nd)) (wrappingKey ld) = None"
  shows "m = Pw_Error ''Failed: '' \<and> fst (login P iv' out username currentPw t) = Login_Error WRONG_PASSPHRASE \<and>
    map_get (ac_localStorage t) (wrapped_key_name uid) = Some (toBase64 (encrypt (pf_crypto P) iv fresh (wrappingKey nd)))"
proof -
  let ?C = "pf_crypto P"
  obtain newKey nw where g: "generateMasterKey ?C fresh iv (wrappingKey nd) = Some (newKey, nw)"
    and l: "map_get (ac_localStorage t) (wrapped_key_name uid) = Some (toBase64 nw)" and m: "m = Pw_Error ''Failed: ''"
    using change_password_sent [OF assms(1) _ assms(5,6,8,9)] assms(2,7) by auto
  have nw: "nw = encrypt ?C iv fresh (wrappingKey nd)"
    using g assms(3) by (auto simp: generateMasterKey_def import_aes_def wrapKey_def export_aes_def)
  then have "nw \<noteq> []" using assms(4) by (auto simp: encrypt_def)
  then have "getStoredWrappedKey uid (t\<lparr>ac_username := username, ac_userId := uid\<rparr>) = Some (Some nw)"
    using l by (intro stored_wrapped_key) simp_all
  moreover have "unlock ?C iv' username currentPw cd nw = None"
    using assms(11-13) by (simp add: unlock_def unwrapMasterKey_def nw)
  ultimately have "fst (login P iv' out username currentPw t) = Login_Error WRONG_PASSPHRASE"
    by (simp add: login_def assms(10) assms(7) [symmetric] Let_def)
  with m l show ?thesis by (simp add: nw)
qed

section \<open>A migration that is not finished\<close>

text \<open>Closing the page keeps the storage of the browser.\<close>

definition reload :: "account \<Rightarrow> account" where
  "reload s = s\<lparr>ac_deviceId := None, ac_session := None, ac_identity := None, ac_signing := None, ac_docMgr := None, ac_books := [],
     ac_username := [], ac_userId := [], ac_isSignup := False, ac_client := None, ac_migrations := [], ac_appShown := False\<rparr>"

text \<open>A login under the legacy key derivation stores the master key under the present one at once and tells the
  server when it has accepted the login. When the page is closed before that, the next login finds the key under
  the present derivation, gives the server the hash that it does not know and has no migration left to send.\<close>

theorem interrupted_migration_is_lost:
  assumes "aead_law (pf_crypto P)" "length iv = 12" "length raw = 32" "uid = deriveUserId (pf_crypto P) username"
    and "deriveKeys (pf_crypto P) username passphrase = Inr derived" "getStoredWrappedKey uid s = Some (Some w)"
    and "unlock (pf_crypto P) iv username passphrase derived w = Some (AesKey raw True, wrapped, Some legacy)"
    and "login P iv out username passphrase s = (Booted, t)" "login P iv' out' username passphrase (reload t) = (r, u)"
    and "r = Booted \<or> r = Connecting"
  shows "map_option cn_authHash (ac_client t) = Some (authHash legacy) \<and> map_option cn_authHash (ac_client u) = Some (authHash derived) \<and>
    ac_migrations u = []"
proof -
  let ?C = "pf_crypto P"
  have w: "wrapped = encrypt ?C iv raw (wrappingKey derived)"
    using assms(7) by (auto simp: unlock_def rewrapMasterKey_def wrapKey_def export_aes_def split: option.splits sum.splits if_splits)
  then have "wrapped \<noteq> []" using assms(2) by (auto simp: encrypt_def)
  have s1: "getStoredWrappedKey uid (s\<lparr>ac_username := username, ac_userId := uid\<rparr>) = Some (Some w)"
    using assms(6) getStoredWrappedKey_local [of "s\<lparr>ac_username := username, ac_userId := uid\<rparr>" s uid] by simp
  have boot: "ac_localStorage (snd (localBoot P out c mk i x)) = ac_localStorage x" "ac_migrations (snd (localBoot P out c mk i x)) = ac_migrations x"
    for out c mk i x by (simp_all add: localBoot_def Let_def split: option.split prod.split)
  have t: "map_get (ac_localStorage t) (wrapped_key_name uid) = Some (toBase64 wrapped)" "map_option cn_authHash (ac_client t) = Some (authHash legacy)"
  proof -
    obtain cache s4 where c: "localBoot P out cache (AesKey raw True) uid (saveSession username \<lparr>sk_authHash = authHash derived,
        sk_masterKey = AesKey raw True, sk_wrappedMasterKey = wrapped, sk_userId = uid\<rparr>
        (DocumentManager_init uid (AesKey raw True) (s\<lparr>ac_username := username, ac_userId := uid\<rparr>))) = (True, s4)"
      "connectInBackground P legacy (AesKey raw True) wrapped (Some derived) s4 = (Booted, t)"
      using assms(8) s1 assms(7)
      by (auto simp: login_def assms(5) assms(4) [symmetric] Let_def connect_first_def split: option.splits prod.splits if_splits)
    let ?s3 = "saveSession username \<lparr>sk_authHash = authHash derived, sk_masterKey = AesKey raw True, sk_wrappedMasterKey = wrapped, sk_userId = uid\<rparr>
        (DocumentManager_init uid (AesKey raw True) (s\<lparr>ac_username := username, ac_userId := uid\<rparr>))"
    have "ac_localStorage s4 = ac_localStorage ?s3" using arg_cong [OF c(1), of "\<lambda>p. ac_localStorage (snd p)"] boot(1) by simp
    then have "map_get (ac_localStorage s4) (wrapped_key_name uid) = Some (toBase64 wrapped)"
      using saveSession_stores [of username "\<lparr>sk_authHash = authHash derived, sk_masterKey = AesKey raw True, sk_wrappedMasterKey = wrapped, sk_userId = uid\<rparr>"]
      by simp
    then show "map_get (ac_localStorage t) (wrapped_key_name uid) = Some (toBase64 wrapped)" "map_option cn_authHash (ac_client t) = Some (authHash legacy)"
      using c(2) by (auto simp: connectInBackground_def connect_account_def Let_def split: if_splits)
  qed
  let ?s = "(reload t)\<lparr>ac_username := username, ac_userId := uid\<rparr>"
  have "getStoredWrappedKey uid ?s = Some (Some wrapped)"
    using t(1) \<open>wrapped \<noteq> []\<close> by (intro stored_wrapped_key) (simp_all add: reload_def)
  moreover have "unlock ?C iv' username passphrase derived wrapped = Some (AesKey raw True, wrapped, None)"
    using unwrap_wrapped_key [OF assms(1,2,3)] by (simp add: unlock_def w)
  moreover have "ac_migrations (saveSession x k (DocumentManager_init y z ?s)) = []" for x k y z
    by (simp add: saveSession_def storeWrappedKey_def reload_def)
  ultimately have "map_option cn_authHash (ac_client u) = Some (authHash derived) \<and> ac_migrations u = []"
    using assms(9,10) boot(2) [of out' _ _ _ "saveSession _ _ (DocumentManager_init _ _ ?s)"]
    by (auto simp: login_def assms(5) assms(4) [symmetric] Let_def connect_first_def connectInBackground_def connect_account_def reload_def
        split: option.splits prod.splits if_splits) (metis snd_conv)+
  with t(2) show ?thesis by simp
qed

section \<open>Witnesses\<close>

text \<open>A platform whose key derivation depends on the passphrase\<close>

definition demo_password_crypto :: webcrypto where
  "demo_password_crypto =
     demo_crypto\<lparr>argon2id_hex := (\<lambda>p s i m l n. bytesToHex (replicate n (if p = ''new'' then 7 else 5)))\<rparr>"

definition demo_master :: crypto_key where
  "demo_master = AesKey (replicate 32 9) True"

definition demo_cache :: local_cache where
  "demo_cache = saved_cache demo_password_crypto demo_master demo_iv ([1], [2]) ([3], [4]) [(''v'', ''Home'', ''owner'', replicate 32 6, demo_iv)]"

definition demo_platform :: "bytes platform" where
  "demo_platform = \<lparr>pf_crypto = demo_password_crypto, pf_automerge = demo_automerge, pf_parse = (\<lambda>b. Some demo_cache),
     pf_catalogName = (\<lambda>d. []), pf_initCatalog = (\<lambda>n d. d), pf_secure = True\<rparr>"

definition demo_derived :: "byte \<Rightarrow> derived_keys" where
  "demo_derived b = \<lparr>authHash = bytesToHex (digest_sha256 demo_crypto (replicate 32 b)), wrappingKey = AesKey (replicate 32 b) False\<rparr>"

definition demo_user_id :: string where
  "demo_user_id = deriveUserId demo_password_crypto ''ann''"

definition demo_wrapped :: bytes where
  "demo_wrapped = encrypt demo_password_crypto demo_iv (replicate 32 9) (wrappingKey (demo_derived 5))"

definition demo_account :: account where
  "demo_account = \<lparr>ac_localStorage = [(STORAGE_KEY_USERNAME, ''ann''), (wrapped_key_name demo_user_id, toBase64 demo_wrapped)],
     ac_deviceId = None, ac_session = Some \<lparr>sk_authHash = authHash (demo_derived 5), sk_masterKey = demo_master,
       sk_wrappedMasterKey = demo_wrapped, sk_userId = demo_user_id\<rparr>,
     ac_identity = Some ([1], [2]), ac_signing = Some ([3], [4]),
     ac_dbs = [(openStoreDB_name demo_user_id, [(LOCAL_CACHE_KEY, VBytes (encrypt demo_password_crypto demo_iv [1] demo_master))])],
     ac_docMgr = Some (openStoreDB_name demo_user_id, demo_master), ac_books = [], ac_username = ''ann'', ac_userId = demo_user_id,
     ac_isSignup = False, ac_client = Some \<lparr>cn_authHash = authHash (demo_derived 5), cn_masterKey = Some demo_master, cn_wrapped = None\<rparr>,
     ac_migrations = [], ac_sent = [], ac_appShown = True\<rparr>"

lemma demo_password_facts:
  "aead_law demo_password_crypto" "length demo_iv = 12" "length demo_wrapped \<noteq> 0" "demo_wrapped \<noteq> []"
  "pf_crypto demo_platform = demo_password_crypto" "pf_automerge demo_platform = demo_automerge" "pf_parse demo_platform x = Some demo_cache"
  "pf_secure demo_platform"
  by (simp_all add: demo_password_crypto_def aead_law_def demo_crypto_def demo_iv_def demo_wrapped_def encrypt_def demo_platform_def)

lemma demo_derives:
  "deriveKeys demo_password_crypto ''ann'' p = Inr (demo_derived (if p = ''new'' then 7 else 5))"
  "deriveKeysLegacy demo_password_crypto ''ann'' p = Inr (demo_derived (if p = ''new'' then 7 else 5))"
proof -
  have "hexToBytes (bytesToHex bs) = bs" for bs by (simp add: hexToBytes_def bytesToHex_def hex_pairs_bytes)
  then have "derive_with demo_password_crypto n ''ann'' p = Inr (demo_derived (if p = ''new'' then 7 else 5))" for n
    by (simp add: derive_with_def demo_password_crypto_def demo_derived_def Let_def import_aes_def demo_crypto_def)
  then show "deriveKeys demo_password_crypto ''ann'' p = Inr (demo_derived (if p = ''new'' then 7 else 5))"
    "deriveKeysLegacy demo_password_crypto ''ann'' p = Inr (demo_derived (if p = ''new'' then 7 else 5))"
    by (simp_all add: deriveKeys_def deriveKeysLegacy_def demo_password_crypto_def demo_crypto_def)
qed

lemma demo_account_facts:
  "map_get (ac_localStorage demo_account) (wrapped_key_name demo_user_id) = Some (toBase64 demo_wrapped)"
  "getStoredUsername demo_account = Some ''ann''"
  "db_of (openStoreDB_name demo_user_id) demo_account = [(LOCAL_CACHE_KEY, VBytes (encrypt demo_password_crypto demo_iv [1] demo_master))]"
  by (simp_all add: demo_account_def map_get_def getStoredUsername_def db_of_def)

theorem returning_user_boots_offline_witness:
  "\<exists>t. login demo_platform demo_iv (\<lambda>v. Committed demo_iv) ''ann'' ''old'' demo_account = (Booted, t) \<and>
    ac_identity t = Some ([1], [2]) \<and> map (\<lambda>b. (bk_vaultId b, bk_role b, bk_encKey b)) (ac_books t) = [(''v'', ''owner'', Some (AesKey (replicate 32 6) True))]"
proof -
  have "save_load_law demo_automerge" by (simp add: save_load_law_def demo_automerge_def)
  moreover have "wrapKey demo_password_crypto demo_iv demo_master (wrappingKey (demo_derived 5)) = Some demo_wrapped"
    by (simp add: wrapKey_def demo_master_def export_aes_def demo_wrapped_def)
  moreover have "idb_get [(LOCAL_CACHE_KEY, VBytes (encrypt demo_password_crypto demo_iv [1] demo_master))] LOCAL_CACHE_KEY
    = Some (VBytes (encrypt demo_password_crypto demo_iv ((\<lambda>c :: local_cache. [1]) demo_cache) demo_master))" by (simp add: idb_get_def)
  moreover have "readable demo_platform [(LOCAL_CACHE_KEY, VBytes (encrypt demo_password_crypto demo_iv [1] demo_master))] demo_master v" for v
    by (simp add: readable_def idb_get_def doc_key_def LOCAL_CACHE_KEY_def)
  ultimately show ?thesis
    using returning_user_boots_offline [of demo_platform "''ann''" "''old''" "demo_derived 5" demo_user_id demo_master "replicate 32 9"
        demo_iv demo_wrapped demo_account demo_cache demo_iv "([1], [2])" "([3], [4])" "[(''v'', ''Home'', ''owner'', replicate 32 6, demo_iv)]"
        "\<lambda>c. [1]" demo_iv "\<lambda>v. Committed demo_iv" demo_iv] demo_derives(1) [of "''old''"]
    by (simp add: demo_password_facts demo_account_facts demo_user_id_def [symmetric] demo_master_def [symmetric] demo_cache_def [symmetric]
        good_vault_def) (auto simp: demo_master_def)
qed

text \<open>The form on the demo device\<close>

lemma demo_change:
  assumes "p \<noteq> []"
  shows "\<exists>t. change_password demo_platform (replicate 32 8) demo_iv (\<lambda>k. demo_iv) server p ''new'' ''new'' demo_account
    = (if server then Pw_Changed else Pw_Error ''Failed: '', t) \<and> ac_sent t \<noteq> ac_sent demo_account"
proof -
  let ?db = "[(LOCAL_CACHE_KEY, VBytes (encrypt demo_password_crypto demo_iv [1] demo_master))]"
  obtain nw where g: "rotateMasterKey demo_password_crypto (replicate 32 8) demo_iv demo_master (wrappingKey (demo_derived 7)) = Some (AesKey (replicate 32 8) True, nw)"
    by (simp add: rotateMasterKey_def generateMasterKey_def import_aes_def wrapKey_def export_aes_def)
  have "fst (reEncryptAllDocs demo_password_crypto demo_master (AesKey (replicate 32 8) True) (\<lambda>k. demo_iv) ?db)"
    by (simp add: reEncryptAllDocs_def idb_getAllKeys_def LOCAL_CACHE_KEY_def idb_get_def split: option.split)
  then obtain db' where r: "reEncryptAllDocs demo_password_crypto demo_master (AesKey (replicate 32 8) True) (\<lambda>k. demo_iv) ?db = (True, db')"
    by (metis prod.collapse)
  have s: "ac_session demo_account = Some \<lparr>sk_authHash = authHash (demo_derived 5), sk_masterKey = demo_master, sk_wrappedMasterKey = demo_wrapped, sk_userId = demo_user_id\<rparr>"
    "ac_docMgr demo_account = Some (openStoreDB_name demo_user_id, demo_master)" "\<exists>c. ac_client demo_account = Some c"
    by (simp_all add: demo_account_def)
  show ?thesis
    using assms s g r demo_derives(1) [of p] demo_derives(1) [of "''new''"]
    by (auto simp: change_password_def demo_password_facts demo_account_facts demo_user_id_def [symmetric] Let_def updateWrappedKey_def storeWrappedKey_def)
qed

theorem password_change_locks_the_device_out_witness:
  "\<exists>t. fst (change_password demo_platform (replicate 32 8) demo_iv (\<lambda>k. demo_iv) True ''old'' ''new'' ''new'' demo_account) = Pw_Changed \<and>
    t = snd (change_password demo_platform (replicate 32 8) demo_iv (\<lambda>k. demo_iv) True ''old'' ''new'' ''new'' demo_account) \<and>
    fst (login demo_platform demo_iv (\<lambda>v. Committed demo_iv) ''ann'' ''new'' t) = Login_Error BOOT_FAILED"
proof -
  obtain t where c: "change_password demo_platform (replicate 32 8) demo_iv (\<lambda>k. demo_iv) True ''old'' ''new'' ''new'' demo_account = (Pw_Changed, t)"
    using demo_change [of "''old''" True] by auto
  have wrong: "decrypt demo_password_crypto (wrapPrivateKey demo_password_crypto demo_iv [2] demo_master) (AesKey (replicate 32 8) True) = None"
    by (simp add: decrypt_def wrapPrivateKey_def encrypt_def demo_password_crypto_def demo_crypto_def demo_iv_def demo_master_def numeral_eq_Suc)
  have "fst (login demo_platform demo_iv (\<lambda>v. Committed demo_iv) ''ann'' ''new''
      (((\<lambda>u. snd (login demo_platform demo_iv (\<lambda>v. Committed demo_iv) ''ann'' ''new'' u)) ^^ 0) t)) = Login_Error BOOT_FAILED"
    by (rule password_change_locks_the_device_out [OF _ _ _ _ _ c, where username = "''ann''" and nd = "demo_derived 7" and uid = demo_user_id
          and session = "\<lparr>sk_authHash = authHash (demo_derived 5), sk_masterKey = demo_master, sk_wrappedMasterKey = demo_wrapped, sk_userId = demo_user_id\<rparr>"
          and k = demo_master and cache = demo_cache and ?iv1.0 = demo_iv and identity = "([1], [2])" and signing = "([3], [4])"
          and vs = "[(''v'', ''Home'', ''owner'', replicate 32 6, demo_iv)]" and enc = "\<lambda>c. [1]" and ?iv2.0 = demo_iv])
      (use wrong demo_derives(1) [of "''new''"] in \<open>simp_all add: demo_password_facts demo_account_facts demo_user_id_def [symmetric] demo_cache_def idb_get_def\<close>,
       simp_all add: demo_account_def)
  then show ?thesis using c by simp
qed

theorem refused_password_change_stays_on_the_device_witness:
  "\<exists>m t. change_password demo_platform (replicate 32 8) demo_iv (\<lambda>k. demo_iv) False ''typo'' ''new'' ''new'' demo_account = (m, t) \<and>
    m = Pw_Error ''Failed: '' \<and> fst (login demo_platform demo_iv (\<lambda>v. Committed demo_iv) ''ann'' ''old'' t) = Login_Error WRONG_PASSPHRASE"
proof -
  obtain t where c: "change_password demo_platform (replicate 32 8) demo_iv (\<lambda>k. demo_iv) False ''typo'' ''new'' ''new'' demo_account
      = (Pw_Error ''Failed: '', t)" "ac_sent t \<noteq> ac_sent demo_account"
    using demo_change [of "''typo''" False] by auto
  have wrong: "decrypt demo_password_crypto (encrypt demo_password_crypto demo_iv (replicate 32 8) (wrappingKey (demo_derived 7))) (wrappingKey (demo_derived 5)) = None"
    by (simp add: decrypt_def encrypt_def demo_password_crypto_def demo_crypto_def demo_iv_def demo_derived_def numeral_eq_Suc)
  have s: "ac_session demo_account = Some \<lparr>sk_authHash = authHash (demo_derived 5), sk_masterKey = demo_master, sk_wrappedMasterKey = demo_wrapped, sk_userId = demo_user_id\<rparr>"
    "ac_docMgr demo_account = Some (openStoreDB_name demo_user_id, demo_master)"
    by (simp_all add: demo_account_def)
  show ?thesis
    using refused_password_change_stays_on_the_device [OF c, of "''ann''" "demo_derived 7" demo_user_id, OF _ _ _ _ _ s, of "''old''" "demo_derived 5" "demo_derived 5"
        demo_iv "\<lambda>v. Committed demo_iv"] c(1) wrong
      demo_derives [of "''new''"] demo_derives [of "''old''"]
    by (simp add: demo_password_facts demo_account_facts demo_user_id_def [symmetric])
qed

end
