(* ===== verification/Service_Worker.thy ===== *)
theory Service_Worker
  imports Json "HOL-Library.Sublist"
begin

text \<open>
  The service worker \<open>src/workers/service-worker.ts\<close>: the caches of the app, of blobs and of the embedding model, how
  a request is answered from them and from the network, and how a new version of the app is found and cached.

  The browser's \<open>CacheStorage\<close> is a list of named caches in the order of their creation. The network is an
  argument: the response to each address, \<open>None\<close> when the request fails; for the assets that must be fresh it
  also says whether the response comes within the time limit. A check for updates runs to its end before the next
  event, and the cleaning on activation ends before the check that it starts. A \<open>version.json\<close> without a version that is a string, and a
  manifest whose assets are not strings, are taken for ones that cannot be read.
\<close>

section \<open>State\<close>

record response =
  rs_ok :: bool
  rs_body :: string

type_synonym web_cache = "(string \<times> response) list"
type_synonym network = "string \<Rightarrow> response option"

record request =
  rq_get :: bool
  rq_sameOrigin :: bool
  rq_path :: string
  rq_query :: string

record worker =
  sw_isDev :: bool
  sw_knownVersion :: "string option"
  sw_caches :: "(string \<times> web_cache) list"
  sw_notices :: "string list"

definition CACHE_NAME :: string where "CACHE_NAME = ''recipes-v1''"
definition MODEL_CACHE :: string where "MODEL_CACHE = ''transformers-cache''"
definition BLOB_CACHE :: string where "BLOB_CACHE = ''blob-cache-v1''"

definition STATIC_FALLBACK :: "string list" where
  "STATIC_FALLBACK = [''/'', ''/index.html'', ''/index.js'', ''/app.css'']"

definition CRITICAL_ASSETS :: "string list" where
  "CRITICAL_ASSETS = [''/'', ''/index.html'', ''/index.js'', ''/app.css'', ''/theme-loader.js'']"

definition OFFLINE :: response where
  "OFFLINE = \<lparr>rs_ok = False, rs_body = ''Offline''\<rparr>"

section \<open>Caches\<close>

definition cache_of :: "string \<Rightarrow> worker \<Rightarrow> web_cache" where
  "cache_of name s = (case map_get (sw_caches s) name of Some c \<Rightarrow> c | None \<Rightarrow> [])"

definition caches_open :: "string \<Rightarrow> worker \<Rightarrow> worker" where
  "caches_open name s = s\<lparr>sw_caches := map_set name (cache_of name s) (sw_caches s)\<rparr>"

definition cache_put :: "string \<Rightarrow> string \<Rightarrow> response \<Rightarrow> worker \<Rightarrow> worker" where
  "cache_put name url r s = s\<lparr>sw_caches := map_set name (map_set url r (cache_of name s)) (sw_caches s)\<rparr>"

text \<open>The first cache that has the address answers.\<close>

fun match_in :: "(string \<times> web_cache) list \<Rightarrow> string \<Rightarrow> response option" where
  "match_in [] url = None"
| "match_in ((name, c) # cs) url = (case map_get c url of Some r \<Rightarrow> Some r | None \<Rightarrow> match_in cs url)"

definition caches_match :: "string \<Rightarrow> worker \<Rightarrow> response option" where
  "caches_match url s = match_in (sw_caches s) url"

definition delete_caches :: "(string \<Rightarrow> bool) \<Rightarrow> worker \<Rightarrow> worker" where
  "delete_caches p s = s\<lparr>sw_caches := filter (\<lambda>(name, c). \<not> p name) (sw_caches s)\<rparr>"

text \<open>All or nothing: one response that is missing or not ok, or an address that comes twice, and nothing is put.\<close>

definition addAll :: "network \<Rightarrow> string list \<Rightarrow> worker \<Rightarrow> worker option" where
  "addAll net urls s =
     (if distinct urls \<and> (\<forall>u \<in> set urls. case net u of Some r \<Rightarrow> rs_ok r | None \<Rightarrow> False)
      then Some (foldl (\<lambda>t u. cache_put CACHE_NAME u (the (net u)) t) s urls) else None)"

section \<open>Versions\<close>

definition version_of :: "response \<Rightarrow> string option" where
  "version_of r =
     (case Option.bind (parse_json (rs_body r)) (json_field ''version'') of Some (JStr v) \<Rightarrow> Some v | _ \<Rightarrow> None)"

definition json_str :: "json \<Rightarrow> string option" where
  "json_str j = (case j of JStr u \<Rightarrow> Some u | _ \<Rightarrow> None)"

definition assets_of :: "response \<Rightarrow> string list option" where
  "assets_of r =
     (case Option.bind (parse_json (rs_body r)) (json_field ''assets'') of
        Some (JArr js) \<Rightarrow> those (map json_str js)
      | _ \<Rightarrow> None)"

definition getLocalVersion :: "worker \<Rightarrow> string option \<times> worker" where
  "getLocalVersion s =
     (if sw_knownVersion s \<noteq> None \<and> sw_knownVersion s \<noteq> Some [] then (sw_knownVersion s, s)
      else let s1 = caches_open CACHE_NAME s in
           case Option.bind (map_get (cache_of CACHE_NAME s1) ''/version.json'') version_of of
             Some w \<Rightarrow> (Some w, s1\<lparr>sw_knownVersion := Some w\<rparr>)
           | None \<Rightarrow> (None, s1))"

text \<open>The assets of the manifest, or else the fallback; \<open>None\<close> when that fails, too.\<close>

definition precache :: "network \<Rightarrow> worker \<Rightarrow> worker option" where
  "precache net s =
     (let s1 = caches_open CACHE_NAME s in
      case Option.bind (Option.bind (net ''/asset-manifest.json'') assets_of) (\<lambda>urls. addAll net urls s1) of
        Some t \<Rightarrow> Some t
      | None \<Rightarrow> addAll net STATIC_FALLBACK s1)"

definition install :: "network \<Rightarrow> worker \<Rightarrow> worker" where
  "install net s = (case precache net s of Some t \<Rightarrow> t | None \<Rightarrow> caches_open CACHE_NAME s)"

definition checkForUpdate :: "network \<Rightarrow> worker \<Rightarrow> worker" where
  "checkForUpdate net s =
     (let (local, s1) = getLocalVersion s in
      case net ''/version.json'' of
        None \<Rightarrow> s1
      | Some r \<Rightarrow>
          if \<not> rs_ok r then s1
          else (case version_of r of
                  None \<Rightarrow> s1
                | Some version \<Rightarrow>
                    if local = None then s1\<lparr>sw_knownVersion := Some version\<rparr>
                    else if local \<noteq> Some version then
                      (let s2 = delete_caches (\<lambda>k. k \<noteq> MODEL_CACHE \<and> k \<noteq> BLOB_CACHE) (s1\<lparr>sw_knownVersion := Some version\<rparr>)
                       in case precache net s2 of
                            Some t \<Rightarrow> t\<lparr>sw_notices := sw_notices t @ [version]\<rparr>
                          | None \<Rightarrow> caches_open CACHE_NAME s2)
                    else s1))"

text \<open>The answer to a page that asks for the status: the server's version, the local one, whether they differ\<close>

definition checkForUpdateStatus :: "network \<Rightarrow> network \<Rightarrow> worker \<Rightarrow> (string \<times> string option \<times> bool) \<times> worker" where
  "checkForUpdateStatus net net2 s =
     (let (local, s1) = getLocalVersion s in
      case net ''/version.json'' of
        None \<Rightarrow> ((''offline'', sw_knownVersion s1, False), s1)
      | Some r \<Rightarrow>
          if \<not> rs_ok r then ((''unknown'', local, False), s1)
          else (case version_of r of
                  None \<Rightarrow> ((''offline'', sw_knownVersion s1, False), s1)
                | Some version \<Rightarrow>
                    let updateAvailable = (local \<noteq> None \<and> local \<noteq> Some version)
                    in ((version, local, updateAvailable),
                        if updateAvailable then checkForUpdate net2 s1
                        else if local = None then s1\<lparr>sw_knownVersion := Some version\<rparr> else s1)))"

definition activate :: "network \<Rightarrow> worker \<Rightarrow> worker" where
  "activate net s =
     checkForUpdate net (delete_caches (\<lambda>k. k \<noteq> CACHE_NAME \<and> k \<noteq> MODEL_CACHE \<and> k \<noteq> BLOB_CACHE) s)"

section \<open>Requests\<close>

datatype arrival = In_Time "response option" | Late "response option"

datatype answer = Not_Handled | Respond response | Network_Error

fun arrived :: "arrival \<Rightarrow> response option" where
  "arrived (In_Time r) = r"
| "arrived (Late r) = r"

definition rq_url :: "request \<Rightarrow> string" where
  "rq_url q = rq_path q @ rq_query q"

definition is_blob_path :: "string \<Rightarrow> bool" where
  "is_blob_path p \<longleftrightarrow> prefix ''/api/vaults/'' p \<and> sublist ''/blobs/'' p"

definition put_ok :: "string \<Rightarrow> string \<Rightarrow> response option \<Rightarrow> worker \<Rightarrow> worker" where
  "put_ok name url r s = (case r of Some r' \<Rightarrow> if rs_ok r' then cache_put name url r' s else s | None \<Rightarrow> s)"

definition cached_or_offline :: "string \<Rightarrow> worker \<Rightarrow> response" where
  "cached_or_offline url s = (case caches_match url s of Some r \<Rightarrow> r | None \<Rightarrow> OFFLINE)"

definition on_fetch :: "request \<Rightarrow> arrival \<Rightarrow> worker \<Rightarrow> answer \<times> worker" where
  "on_fetch q a s =
     (let url = rq_url q in
      if \<not> rq_get q \<or> \<not> rq_sameOrigin q \<or> rq_path q = ''/version.json'' \<or> rq_path q = ''/asset-manifest.json'' then (Not_Handled, s)
      else if is_blob_path (rq_path q) then
        (case caches_match url s of
           Some r \<Rightarrow> (Respond r, s)
         | None \<Rightarrow> (Respond (case arrived a of Some r \<Rightarrow> r | None \<Rightarrow> OFFLINE), put_ok BLOB_CACHE url (arrived a) s))
      else if sw_isDev s then
        (Respond (case arrived a of Some r \<Rightarrow> r | None \<Rightarrow> cached_or_offline url s), s)
      else if rq_path q \<in> set CRITICAL_ASSETS then
        (Respond (case a of In_Time (Some r) \<Rightarrow> r | _ \<Rightarrow> cached_or_offline url s), put_ok CACHE_NAME url (arrived a) s)
      else
        ((case caches_match url s of
            Some r \<Rightarrow> Respond r
          | None \<Rightarrow> (case arrived a of Some r \<Rightarrow> Respond r | None \<Rightarrow> Network_Error)),
         put_ok CACHE_NAME url (arrived a) s))"

section \<open>Runs\<close>

datatype sw_event = Sw_Install network | Sw_Activate network | Sw_Fetch request arrival | Sw_Check network | Sw_Status network network

definition sw_step :: "worker \<Rightarrow> sw_event \<Rightarrow> worker" where
  "sw_step s e =
     (case e of
        Sw_Install net \<Rightarrow> install net s
      | Sw_Activate net \<Rightarrow> activate net s
      | Sw_Fetch q a \<Rightarrow> snd (on_fetch q a s)
      | Sw_Check net \<Rightarrow> checkForUpdate net s
      | Sw_Status net net2 \<Rightarrow> snd (checkForUpdateStatus net net2 s))"

definition sw_start :: "bool \<Rightarrow> (string \<times> web_cache) list \<Rightarrow> worker" where
  "sw_start dev cs = \<lparr>sw_isDev = dev, sw_knownVersion = None, sw_caches = cs, sw_notices = []\<rparr>"

section \<open>Lemmas\<close>

lemma cache_names [simp]: "CACHE_NAME \<noteq> BLOB_CACHE" "BLOB_CACHE \<noteq> CACHE_NAME" "MODEL_CACHE \<noteq> BLOB_CACHE" "CACHE_NAME \<noteq> MODEL_CACHE"
  "MODEL_CACHE \<noteq> CACHE_NAME" "BLOB_CACHE \<noteq> MODEL_CACHE"
  by (simp_all add: CACHE_NAME_def BLOB_CACHE_def MODEL_CACHE_def)

lemma cache_of_put: "cache_of n (cache_put m u r s) = (if n = m then map_set u r (cache_of n s) else cache_of n s)"
  by (simp add: cache_of_def cache_put_def map_eqs)

lemma cache_of_open [simp]: "cache_of n (caches_open m s) = cache_of n s"
  by (simp add: cache_of_def caches_open_def map_eqs)

lemma cache_of_delete: "cache_of n (delete_caches p s) = (if p n then [] else cache_of n s)"
proof -
  have "map_get (filter (\<lambda>(name, c). \<not> p name) cs) n = (if p n then None else map_get cs n)" for cs :: "(string \<times> web_cache) list"
    by (induction cs) (auto simp: map_get_def)
  then show ?thesis by (simp add: cache_of_def delete_caches_def)
qed

lemma cache_of_fields [simp]:
  "cache_of n (s\<lparr>sw_knownVersion := v\<rparr>) = cache_of n s" "cache_of n (s\<lparr>sw_notices := x\<rparr>) = cache_of n s"
  by (simp_all add: cache_of_def)

lemma sw_sels [simp]:
  "sw_notices (cache_put n u r s) = sw_notices s" "sw_knownVersion (cache_put n u r s) = sw_knownVersion s"
  "sw_notices (caches_open n s) = sw_notices s" "sw_knownVersion (caches_open n s) = sw_knownVersion s"
  "sw_notices (delete_caches p s) = sw_notices s" "sw_knownVersion (delete_caches p s) = sw_knownVersion s"
  by (simp_all add: cache_put_def caches_open_def delete_caches_def)

lemma addAll_effect:
  assumes "addAll net urls s = Some t"
  shows "sw_notices t = sw_notices s" "sw_knownVersion t = sw_knownVersion s"
    "n \<noteq> CACHE_NAME \<Longrightarrow> cache_of n t = cache_of n s"
    "map_get (cache_of CACHE_NAME t) u = (if u \<in> set urls then net u else map_get (cache_of CACHE_NAME s) u)"
proof -
  have e: "t = foldl (\<lambda>t u. cache_put CACHE_NAME u (the (net u)) t) s urls" and some: "\<forall>u \<in> set urls. net u = Some (the (net u))"
    using assms by (auto simp: addAll_def split: if_splits option.splits)
  have f: "sw_notices (foldl (\<lambda>t u. cache_put CACHE_NAME u (the (net u)) t) s us) = sw_notices s \<and>
      sw_knownVersion (foldl (\<lambda>t u. cache_put CACHE_NAME u (the (net u)) t) s us) = sw_knownVersion s \<and>
      (n \<noteq> CACHE_NAME \<longrightarrow> cache_of n (foldl (\<lambda>t u. cache_put CACHE_NAME u (the (net u)) t) s us) = cache_of n s)" for n us
    by (induction us arbitrary: s) (simp_all add: cache_of_put)
  show "sw_notices t = sw_notices s" "sw_knownVersion t = sw_knownVersion s" "n \<noteq> CACHE_NAME \<Longrightarrow> cache_of n t = cache_of n s"
    using f by (simp_all add: e)
  have "map_get (cache_of CACHE_NAME (foldl (\<lambda>t u. cache_put CACHE_NAME u (the (net u)) t) s us)) u
      = (if u \<in> set us then Some (the (net u)) else map_get (cache_of CACHE_NAME s) u)" for us
    by (induction us arbitrary: s) (auto simp: cache_of_put map_eqs)
  then show "map_get (cache_of CACHE_NAME t) u = (if u \<in> set urls then net u else map_get (cache_of CACHE_NAME s) u)"
    using some by (simp add: e)
qed

lemma getLocalVersion_effect:
  "cache_of n (snd (getLocalVersion s)) = cache_of n s" "sw_notices (snd (getLocalVersion s)) = sw_notices s"
  by (simp_all add: getLocalVersion_def Let_def split: option.split)

lemma known_version: "sw_knownVersion s = Some v \<Longrightarrow> v \<noteq> [] \<Longrightarrow> getLocalVersion s = (Some v, s)"
  by (simp add: getLocalVersion_def)

text \<open>A network on which the server, when it answers, has the version\<close>

definition still_at :: "string \<Rightarrow> network \<Rightarrow> bool" where
  "still_at v net \<longleftrightarrow> (\<forall>r. net ''/version.json'' = Some r \<longrightarrow> rs_ok r \<longrightarrow> version_of r = Some v \<or> version_of r = None)"

lemma check_same_version:
  assumes "sw_knownVersion s = Some v" "v \<noteq> []" "still_at v net"
  shows "checkForUpdate net s = s"
  using assms(3) by (auto simp: still_at_def checkForUpdate_def known_version [OF assms(1,2)] Let_def split: option.split)

section \<open>Updates\<close>

text \<open>The offer of a version: the server has it, and it is not the local one\<close>

definition offers :: "network \<Rightarrow> string \<Rightarrow> worker \<Rightarrow> bool" where
  "offers net v s \<longleftrightarrow> (\<exists>r. net ''/version.json'' = Some r \<and> rs_ok r \<and> version_of r = Some v) \<and>
     fst (getLocalVersion s) \<noteq> None \<and> fst (getLocalVersion s) \<noteq> Some v \<and> v \<noteq> []"

lemma offered_update:
  assumes "offers net v s"
  shows "checkForUpdate net s =
    (let s2 = delete_caches (\<lambda>k. k \<noteq> MODEL_CACHE \<and> k \<noteq> BLOB_CACHE) ((snd (getLocalVersion s))\<lparr>sw_knownVersion := Some v\<rparr>)
     in case precache net s2 of Some t \<Rightarrow> t\<lparr>sw_notices := sw_notices t @ [v]\<rparr> | None \<Rightarrow> caches_open CACHE_NAME s2)"
  using assms by (auto simp: offers_def checkForUpdate_def Let_def split: prod.split option.split)

text \<open>A server at version 2, whose app is one page, and a worker that has version 1\<close>

definition demo_body :: "string \<Rightarrow> response" where
  "demo_body t = \<lparr>rs_ok = True, rs_body = t\<rparr>"

definition demo_server :: network where
  "demo_server u =
     (if u = ''/version.json'' then Some (demo_body ''{\"version\":\"2\"}'')
      else if u = ''/asset-manifest.json'' then Some (demo_body ''{\"assets\":[\"/\"]}'')
      else if u = ''/'' then Some (demo_body ''new'') else None)"

definition demo_cut :: network where
  "demo_cut u = (if u = ''/version.json'' then demo_server u else None)"

definition demo_worker :: worker where
  "demo_worker = (sw_start False [(CACHE_NAME, [(''/old'', demo_body ''old'')])])\<lparr>sw_knownVersion := Some ''1''\<rparr>"

lemma demo_version: "version_of (demo_body ''{\"version\":\"2\"}'') = Some ''2''"
  by code_simp

lemma demo_assets: "assets_of (demo_body ''{\"assets\":[\"/\"]}'') = Some [''/'']"
  by code_simp

lemma demo_offers: "net ''/version.json'' = demo_server ''/version.json'' \<Longrightarrow> offers net ''2'' demo_worker"
  by (simp add: offers_def demo_server_def demo_version demo_worker_def getLocalVersion_def sw_start_def) (simp add: demo_body_def)

lemma demo_still: "still_at ''2'' demo_server" "still_at ''2'' demo_cut"
  by (simp_all add: still_at_def demo_cut_def demo_server_def demo_version)

text \<open>An update replaces the app as a whole: when the server offers another version and every asset of its
  manifest arrives, the app's cache holds exactly the responses to the assets of the manifest, the caches of
  blobs and of the model are as before, the open pages are told once, and another check changes nothing.\<close>

theorem update_replaces_the_app:
  assumes "offers net v s" "net ''/asset-manifest.json'' = Some m" "assets_of m = Some urls" "distinct urls"
    and "\<forall>u \<in> set urls. \<exists>r. net u = Some r \<and> rs_ok r" "t = checkForUpdate net s"
  shows "map_get (cache_of CACHE_NAME t) u = (if u \<in> set urls then net u else None) \<and>
    cache_of BLOB_CACHE t = cache_of BLOB_CACHE s \<and> cache_of MODEL_CACHE t = cache_of MODEL_CACHE s \<and>
    sw_notices t = sw_notices s @ [v] \<and> checkForUpdate net t = t"
proof -
  define s2 where "s2 = delete_caches (\<lambda>k. k \<noteq> MODEL_CACHE \<and> k \<noteq> BLOB_CACHE) ((snd (getLocalVersion s))\<lparr>sw_knownVersion := Some v\<rparr>)"
  have c2: "cache_of CACHE_NAME s2 = []" "cache_of BLOB_CACHE s2 = cache_of BLOB_CACHE s" "cache_of MODEL_CACHE s2 = cache_of MODEL_CACHE s"
    "sw_notices s2 = sw_notices s" "sw_knownVersion s2 = Some v"
    by (simp_all add: s2_def cache_of_delete getLocalVersion_effect)
  have "\<exists>x. addAll net urls (caches_open CACHE_NAME s2) = Some x" using assms(4,5) by (fastforce simp: addAll_def)
  then obtain x where x: "addAll net urls (caches_open CACHE_NAME s2) = Some x" by blast
  have "precache net s2 = Some x" using assms(2,3) x by (simp add: precache_def Let_def)
  then have t: "t = x\<lparr>sw_notices := sw_notices x @ [v]\<rparr>" using offered_update [OF assms(1)] assms(6) by (simp add: s2_def [symmetric] Let_def)
  note e = addAll_effect [OF x]
  have "sw_knownVersion t = Some v" "v \<noteq> []" using e(2) c2(5) assms(1) by (simp_all add: t offers_def)
  then have "checkForUpdate net t = t" using assms(1) by (intro check_same_version) (auto simp: offers_def still_at_def)
  then show ?thesis using e c2 by (simp add: t)
qed

theorem update_replaces_the_app_witness:
  "map_get (cache_of CACHE_NAME (checkForUpdate demo_server demo_worker)) ''/old'' = None \<and>
   sw_notices (checkForUpdate demo_server demo_worker) = [''2'']"
  using update_replaces_the_app [OF demo_offers, of demo_server "demo_body ''{\"assets\":[\"/\"]}''" "[''/'']"
      "checkForUpdate demo_server demo_worker" "''/old''"]
  by (simp add: demo_server_def demo_assets) (simp add: demo_body_def demo_worker_def sw_start_def)

text \<open>C34: the version is noted before its assets are cached: when the connection fails after the version has been
  read, the app's cache is left empty and the pages are not told, and no later check repeats the update as long as
  the server has the same version: the worker takes itself to be up to date.\<close>

theorem failed_update_is_never_repeated:
  assumes "offers net v s" "\<forall>u. u \<noteq> ''/version.json'' \<longrightarrow> net u = None" "\<forall>later \<in> set nets. still_at v later" "still_at v now"
    and "t = foldl (\<lambda>s later. checkForUpdate later s) (checkForUpdate net s) nets"
  shows "cache_of CACHE_NAME t = [] \<and> sw_notices t = sw_notices s \<and> \<not> snd (snd (fst (checkForUpdateStatus now now t)))"
proof -
  define s2 where "s2 = delete_caches (\<lambda>k. k \<noteq> MODEL_CACHE \<and> k \<noteq> BLOB_CACHE) ((snd (getLocalVersion s))\<lparr>sw_knownVersion := Some v\<rparr>)"
  have "precache net s2 = None"
    using assms(2) by (simp add: precache_def Let_def addAll_def STATIC_FALLBACK_def)
  then have u: "checkForUpdate net s = caches_open CACHE_NAME s2" using offered_update [OF assms(1)] by (simp add: s2_def [symmetric] Let_def)
  have k: "sw_knownVersion (checkForUpdate net s) = Some v" and c: "cache_of CACHE_NAME (checkForUpdate net s) = []"
    and n: "sw_notices (checkForUpdate net s) = sw_notices s"
    by (simp_all add: u) (simp_all add: s2_def cache_of_delete getLocalVersion_effect)
  have v: "v \<noteq> []" using assms(1) by (simp add: offers_def)
  have "foldl (\<lambda>s later. checkForUpdate later s) x nets = x" if "sw_knownVersion x = Some v" for x
    using assms(3) that by (induction nets arbitrary: x) (simp_all add: check_same_version [OF _ v])
  then have t: "t = checkForUpdate net s" using k assms(5) by simp
  have "\<not> snd (snd (fst (checkForUpdateStatus now now t)))"
    using assms(4) known_version [of t v] k v by (auto simp: t checkForUpdateStatus_def still_at_def Let_def split: option.split)
  then show ?thesis using c n t by blast
qed

theorem failed_update_is_never_repeated_witness:
  "cache_of CACHE_NAME (checkForUpdate demo_server (checkForUpdate demo_cut demo_worker)) = []"
  using failed_update_is_never_repeated [OF demo_offers, of demo_cut "[demo_server]" demo_server]
  by (simp add: demo_still) (simp add: demo_cut_def)

section \<open>Blobs\<close>

text \<open>No cache but that of the blobs has the address.\<close>

definition only_blobs :: "string \<Rightarrow> worker \<Rightarrow> bool" where
  "only_blobs url s \<longleftrightarrow> map_wf (sw_caches s) \<and> (\<forall>(n, c) \<in> set (sw_caches s). n \<noteq> BLOB_CACHE \<longrightarrow> map_get c url = None)"

lemma map_set_in: "x \<in> set (map_set k v m) \<Longrightarrow> x = (k, v) \<or> x \<in> set m"
  by (induction m) (auto simp: map_set_def split: if_splits)

lemma map_get_in: "map_get m k = Some v \<Longrightarrow> (k, v) \<in> set m"
  by (simp add: map_get_def map_of_SomeD)

lemma only_blobs_cache: "only_blobs url s \<Longrightarrow> n \<noteq> BLOB_CACHE \<Longrightarrow> map_get (cache_of n s) url = None"
  by (auto simp: only_blobs_def cache_of_def split: option.split dest!: map_get_in)

lemma only_blobs_put: "only_blobs url s \<Longrightarrow> n = BLOB_CACHE \<or> u \<noteq> url \<Longrightarrow> only_blobs url (cache_put n u r s)"
  using only_blobs_cache [of url s n]
  by (fastforce simp: only_blobs_def cache_put_def map_eqs js_map.inv_put dest!: map_set_in)

lemma only_blobs_open: "only_blobs url s \<Longrightarrow> only_blobs url (caches_open n s)"
  using only_blobs_cache [of url s n] by (fastforce simp: only_blobs_def caches_open_def js_map.inv_put dest!: map_set_in)

lemma only_blobs_delete: "only_blobs url s \<Longrightarrow> only_blobs url (delete_caches p s)"
  by (auto simp: only_blobs_def delete_caches_def map_wf_def distinct_map_filter)

lemma only_blobs_fields [simp]:
  "only_blobs url (s\<lparr>sw_knownVersion := v\<rparr>) = only_blobs url s" "only_blobs url (s\<lparr>sw_notices := x\<rparr>) = only_blobs url s"
  by (simp_all add: only_blobs_def)

lemma match_only_blobs:
  assumes "only_blobs url s"
  shows "caches_match url s = map_get (cache_of BLOB_CACHE s) url"
proof -
  have "match_in cs url = map_get (case map_get cs BLOB_CACHE of Some c \<Rightarrow> c | None \<Rightarrow> []) url"
    if "\<forall>(n, c) \<in> set cs. n \<noteq> BLOB_CACHE \<longrightarrow> map_get c url = None" "distinct (map fst cs)" for cs
    using that
  proof (induction cs)
    case (Cons p cs)
    obtain n c where p: "p = (n, c)" by (cases p)
    have get: "map_get (p # cs) BLOB_CACHE = (if n = BLOB_CACHE then Some c else map_get cs BLOB_CACHE)" by (simp add: map_get_def p)
    show ?case
    proof (cases "n = BLOB_CACHE")
      case True
      then have "map_get cs BLOB_CACHE = None" using Cons.prems(2) by (simp add: p map_get_def map_of_eq_None_iff)
      then have "match_in cs url = None" using Cons by simp
      then show ?thesis by (simp only: get True) (simp add: p True split: option.split)
    next
      case False
      then have g: "map_get (p # cs) BLOB_CACHE = map_get cs BLOB_CACHE" by (simp only: get if_False)
      show ?thesis unfolding g using Cons False by (simp add: p)
    qed
  qed simp
  then show ?thesis using assms by (simp add: only_blobs_def map_wf_def caches_match_def cache_of_def)
qed

text \<open>A request as the browser makes it, and a network whose manifest does not list the address\<close>

definition good_request :: "request \<Rightarrow> bool" where
  "good_request q \<longleftrightarrow> CHR ''?'' \<notin> set (rq_path q) \<and> (rq_query q = [] \<or> hd (rq_query q) = CHR ''?'')"

lemma good_request_path: "good_request q \<Longrightarrow> takeWhile (\<lambda>c. c \<noteq> CHR ''?'') (rq_url q) = rq_path q"
proof -
  assume g: "good_request q"
  have "takeWhile (\<lambda>c. c \<noteq> CHR ''?'') (p @ x) = p @ takeWhile (\<lambda>c. c \<noteq> CHR ''?'') x" if "CHR ''?'' \<notin> set p" for p x :: string
    using that by (induction p) auto
  then show ?thesis using g by (cases "rq_query q") (auto simp: good_request_def rq_url_def)
qed

definition lists_no :: "string \<Rightarrow> network \<Rightarrow> bool" where
  "lists_no url net \<longleftrightarrow> (\<forall>r urls. net ''/asset-manifest.json'' = Some r \<longrightarrow> assets_of r = Some urls \<longrightarrow> url \<notin> set urls)"

fun good_event :: "string \<Rightarrow> sw_event \<Rightarrow> bool" where
  "good_event url (Sw_Install net) \<longleftrightarrow> lists_no url net"
| "good_event url (Sw_Activate net) \<longleftrightarrow> lists_no url net"
| "good_event url (Sw_Fetch q a) \<longleftrightarrow> good_request q"
| "good_event url (Sw_Check net) \<longleftrightarrow> lists_no url net"
| "good_event url (Sw_Status net net2) \<longleftrightarrow> lists_no url net2"

text \<open>The address of a blob, and the caches with it or without it\<close>

definition blob_url :: "string \<Rightarrow> bool" where
  "blob_url url \<longleftrightarrow> is_blob_path (takeWhile (\<lambda>c. c \<noteq> CHR ''?'') url)"

definition holds_blob :: "string \<Rightarrow> response option \<Rightarrow> worker \<Rightarrow> bool" where
  "holds_blob url r s \<longleftrightarrow> only_blobs url s \<and> (r \<noteq> None \<longrightarrow> map_get (cache_of BLOB_CACHE s) url = r)"

lemma fallback_no_blob: "blob_url url \<Longrightarrow> url \<notin> set STATIC_FALLBACK"
  by (auto simp: blob_url_def is_blob_path_def STATIC_FALLBACK_def)

lemma holds_open: "holds_blob url r s \<Longrightarrow> holds_blob url r (caches_open n s)"
  by (simp add: holds_blob_def only_blobs_open)

lemma holds_fields [simp]:
  "holds_blob url r (s\<lparr>sw_knownVersion := v\<rparr>) = holds_blob url r s" "holds_blob url r (s\<lparr>sw_notices := x\<rparr>) = holds_blob url r s"
  by (simp_all add: holds_blob_def)

lemma holds_delete: "holds_blob url r s \<Longrightarrow> \<not> p BLOB_CACHE \<Longrightarrow> holds_blob url r (delete_caches p s)"
  by (simp add: holds_blob_def only_blobs_delete cache_of_delete)

lemma holds_put: "holds_blob url r s \<Longrightarrow> u \<noteq> url \<Longrightarrow> holds_blob url r (cache_put n u x s)"
  by (simp add: holds_blob_def only_blobs_put cache_of_put map_eqs)

lemma holds_addAll:
  assumes "holds_blob url r s" "addAll net urls s = Some t" "url \<notin> set urls"
  shows "holds_blob url r t"
proof -
  have "holds_blob url r (foldl (\<lambda>t u. cache_put CACHE_NAME u (the (net u)) t) s urls)"
    using assms(1,3)
  proof (induction urls arbitrary: s)
    case (Cons u us)
    have "holds_blob url r (cache_put CACHE_NAME u (the (net u)) s)" using Cons.prems by (intro holds_put) auto
    then show ?case using Cons.IH Cons.prems(2) by simp
  qed simp
  then show ?thesis using assms(2) by (auto simp: addAll_def split: if_splits)
qed

lemma holds_precache:
  assumes "holds_blob url r s" "precache net s = Some t" "lists_no url net" "blob_url url"
  shows "holds_blob url r t"
  using assms holds_addAll [OF holds_open] fallback_no_blob [OF assms(4)]
  by (fastforce simp: precache_def lists_no_def Let_def bind_eq_Some_conv split: option.splits)

lemma holds_getLocalVersion: "holds_blob url r s \<Longrightarrow> holds_blob url r (snd (getLocalVersion s))"
  by (simp add: getLocalVersion_def Let_def holds_open split: option.split)

lemma holds_check:
  assumes "holds_blob url r s" "lists_no url net" "blob_url url"
  shows "holds_blob url r (checkForUpdate net s)"
proof -
  obtain local s1 where l: "getLocalVersion s = (local, s1)" by force
  then have h: "holds_blob url r s1" using holds_getLocalVersion [OF assms(1)] by simp
  have "holds_blob url r (delete_caches (\<lambda>k. k \<noteq> MODEL_CACHE \<and> k \<noteq> BLOB_CACHE) (s1\<lparr>sw_knownVersion := v\<rparr>))" for v
    using h by (intro holds_delete) simp_all
  then show ?thesis
    using h holds_precache [OF _ _ assms(2,3)] by (auto simp: checkForUpdate_def l Let_def holds_open split: option.split)
qed

lemma holds_fetch:
  assumes "holds_blob url r s" "good_request q" "blob_url url"
  shows "holds_blob url r (snd (on_fetch q a s))"
proof (cases "is_blob_path (rq_path q)")
  case True
  show ?thesis
  proof (cases "rq_url q = url \<and> r = None")
    case u: True
    then show ?thesis
      using assms(1) True by (auto simp: on_fetch_def Let_def put_ok_def holds_blob_def only_blobs_put split: option.split)
  next
    case False
    then have c: "caches_match url s \<noteq> None" if "rq_url q = url"
      using that assms(1) match_only_blobs by (auto simp: holds_blob_def)
    show ?thesis
    proof (cases "rq_url q = url")
      case u: True
      then show ?thesis using assms(1) True c [OF u] by (auto simp: on_fetch_def Let_def)
    next
      case u: False
      then show ?thesis using assms(1) True by (auto simp: on_fetch_def Let_def put_ok_def holds_put split: option.split)
    qed
  qed
next
  case False
  then have "rq_url q \<noteq> url" using assms(2,3) good_request_path by (auto simp: blob_url_def)
  then show ?thesis
    using False assms(1) by (auto simp: on_fetch_def Let_def put_ok_def holds_put split: option.split)
qed

lemma holds_step:
  assumes "holds_blob url r s" "good_event url e" "blob_url url"
  shows "holds_blob url r (sw_step s e)"
proof (cases e)
  case (Sw_Install net)
  then show ?thesis
    using assms holds_precache by (auto simp: sw_step_def install_def holds_open split: option.split)
next
  case (Sw_Activate net)
  then show ?thesis using assms holds_check holds_delete by (simp add: sw_step_def activate_def)
next
  case (Sw_Fetch q a)
  then show ?thesis using assms holds_fetch by (simp add: sw_step_def)
next
  case (Sw_Check net)
  then show ?thesis using assms holds_check by (simp add: sw_step_def)
next
  case (Sw_Status net net2)
  obtain local s1 where l: "getLocalVersion s = (local, s1)" by force
  then have "holds_blob url r s1" using holds_getLocalVersion [OF assms(1)] by simp
  then show ?thesis
    using assms holds_check Sw_Status by (auto simp: sw_step_def checkForUpdateStatus_def l Let_def split: option.split)
qed

interpretation blob_steps: run_invariant sw_step
    "\<lambda>s. blob_url url \<longrightarrow> holds_blob url r s" "good_event url" for url r
  by unfold_locales (auto intro: holds_step)

text \<open>C33: a picture that was loaded once is there without the network: when a request for a blob is answered from
  the network with success, every later request for it is answered with the same bytes, on any
  network and after any events: installations, updates to other versions of the app, other requests, deletions of
  old caches. Nothing ever loads it again, nor drops it.\<close>

theorem loaded_blob_is_served_for_ever:
  assumes "blob_url (rq_url q)" "good_request q" "rq_get q" "rq_sameOrigin q"
    and "\<forall>e \<in> set (before_it @ after_it). good_event (rq_url q) e"
    and "fst (on_fetch q a (foldl sw_step (sw_start dev []) before_it)) = Respond r" "rs_ok r"
  shows "fst (on_fetch q a' (foldl sw_step (sw_start dev []) (before_it @ Sw_Fetch q a # after_it))) = Respond r"
proof -
  let ?u = "rq_url q"
  let ?s = "foldl sw_step (sw_start dev []) before_it"
  have p: "is_blob_path (rq_path q)" using assms(1,2) by (simp add: blob_url_def good_request_path)
  have f: "rq_path q \<noteq> ''/version.json'' \<and> rq_path q \<noteq> ''/asset-manifest.json''"
    using p by (auto simp: is_blob_path_def)
  have "holds_blob ?u None (sw_start dev [])"
    by (simp add: holds_blob_def only_blobs_def sw_start_def map_wf_def)
  then have h: "holds_blob ?u None ?s"
    using blob_steps.inv_run [of ?u None "sw_start dev []" before_it] assms(1,5) by auto
  then have m: "caches_match ?u ?s = map_get (cache_of BLOB_CACHE ?s) ?u" by (simp add: holds_blob_def match_only_blobs)
  have "only_blobs ?u ?s" using h by (simp add: holds_blob_def)
  then have "holds_blob ?u (Some r) (snd (on_fetch q a ?s))"
    using assms(3,4,6,7) p f m
    by (auto simp: on_fetch_def Let_def put_ok_def holds_blob_def only_blobs_put cache_of_put map_eqs OFFLINE_def
        split: option.splits if_splits)
  then have "holds_blob ?u (Some r) (foldl sw_step (snd (on_fetch q a ?s)) after_it)"
    using blob_steps.inv_run [of ?u "Some r" "snd (on_fetch q a ?s)" after_it] assms(1,5) by auto
  then show ?thesis
    using assms(3,4) p f by (simp add: on_fetch_def Let_def sw_step_def holds_blob_def match_only_blobs)
qed

definition demo_picture :: request where
  "demo_picture = \<lparr>rq_get = True, rq_sameOrigin = True, rq_path = ''/api/vaults/v/blobs/x'', rq_query = []\<rparr>"

theorem loaded_blob_is_served_for_ever_witness:
  "fst (on_fetch demo_picture (Late None)
      (foldl sw_step (sw_start True []) ([] @ Sw_Fetch demo_picture (In_Time (Some (demo_body ''bytes''))) # [Sw_Check demo_server])))
    = Respond (demo_body ''bytes'')"
proof (rule loaded_blob_is_served_for_ever)
  show "blob_url (rq_url demo_picture)" by code_simp
  show "good_request demo_picture" by code_simp
  show "fst (on_fetch demo_picture (In_Time (Some (demo_body ''bytes''))) (foldl sw_step (sw_start True []) [])) = Respond (demo_body ''bytes'')"
    by code_simp
  show "\<forall>e \<in> set ([] @ [Sw_Check demo_server]). good_event (rq_url demo_picture) e"
    by (simp add: lists_no_def demo_server_def demo_assets demo_picture_def rq_url_def)
qed (simp_all add: demo_picture_def demo_body_def)

end
