(* ===== verification/Url_Import.thy ===== *)
theory Url_Import
  imports Recipe_Scraper Recipe_Page Blob_Client
begin

text \<open>
  \<open>src/lib/url-import.ts\<close>: a recipe from an address. The server extracts it with a language model and streams events,
  or sends the page, which \<open>Recipe_Scraper\<close> reads; then pictures are loaded and stored, their addresses in the
  instructions are replaced, and the recipe goes into the book and is opened.

  What \<open>TextDecoder\<close> gives for each piece of the stream is one text; the values in the events have the types of the
  server's structures (numbers that are whole and not negative). The answers of the server, the parsing of
  addresses (\<open>URL\<close>) and the preparation of pictures on a canvas are arguments. The dialog and the progress texts that do not come
  from the server are left out.
\<close>

section \<open>The event stream\<close>

lemma cut_at_shorter: "cut_at pat s = Some (a, r) \<Longrightarrow> pat \<noteq> [] \<Longrightarrow> length r < length s"
proof (induction s arbitrary: a)
  case (Cons c cs)
  then show ?case
    by (cases "prefix pat (c # cs)") (auto simp: neq_Nil_conv less_SucI split: prod.splits)
qed simp

text \<open>\<open>buffer.split("\n\n")\<close>: the complete parts, and the incomplete one at the end\<close>

function sse_split :: "string \<Rightarrow> string list \<times> string" where
  "sse_split s =
     (case cut_at [NL, NL] s of
        None \<Rightarrow> ([], s)
      | Some (a, r) \<Rightarrow> (case sse_split r of (ps, rest) \<Rightarrow> (a # ps, rest)))"
  by pat_completeness auto
termination by (relation "measure length") (auto dest: cut_at_shorter)

declare sse_split.simps [simp del]

fun text_lines :: "string \<Rightarrow> string list" where
  "text_lines [] = [[]]"
| "text_lines (c # cs) =
     (if c = NL \<or> c = CR then [] # text_lines cs
      else (case text_lines cs of [] \<Rightarrow> [[c]] | l # ls \<Rightarrow> (c # l) # ls))"

text \<open>\<open>/^name: (.+)$/m\<close>\<close>

definition event_field :: "string \<Rightarrow> string \<Rightarrow> string option" where
  "event_field name part =
     find_map (\<lambda>l. if prefix (name @ '': '') l \<and> length (name @ '': '') < length l then Some (drop (length (name @ '': '')) l) else None)
       (text_lines part)"

definition normalizeQty :: "string \<Rightarrow> string" where
  "normalizeQty raw =
     (if raw = [] then raw else case parseQty raw of Some n \<Rightarrow> formatQty n False | None \<Rightarrow> raw)"

definition json_list :: "json option \<Rightarrow> json list" where
  "json_list v = (case v of Some (JArr vs) \<Rightarrow> vs | _ \<Rightarrow> [])"

definition json_nat :: "json option \<Rightarrow> nat" where
  "json_nat v = (case v of Some (JNum t) \<Rightarrow> digits_value 10 (takeWhile is_digit t) | _ \<Rightarrow> 0)"

definition ai_ingredient :: "json \<Rightarrow> scraped_ingredient" where
  "ai_ingredient ing =
     \<lparr>si_quantity = normalizeQty (str (json_prop ''quantity'' ing)),
      si_unit = (case canonicalUnitName (str (json_prop ''unit'' ing)) of Some u \<Rightarrow> u | None \<Rightarrow> str (json_prop ''unit'' ing)),
      si_item = str (json_prop ''item'' ing)\<rparr>"

definition ai_recipe :: "json \<Rightarrow> scraped_recipe" where
  "ai_recipe data =
     \<lparr>sr_title = str (json_prop ''title'' data),
      sr_description = str (json_prop ''description'' data),
      sr_servings = (case json_prop ''servings'' data of Some (JNum t) \<Rightarrow> t | _ \<Rightarrow> ''4''),
      sr_prepMinutes = json_nat (json_prop ''prepMinutes'' data),
      sr_cookMinutes = json_nat (json_prop ''cookMinutes'' data),
      sr_ingredients = map ai_ingredient (json_list (json_prop ''ingredients'' data)),
      sr_instructions = str (json_prop ''instructions'' data),
      sr_tags = map (\<lambda>v. str (Some v)) (json_list (json_prop ''tags'' data)),
      sr_imageUrls = map (\<lambda>v. str (Some v)) (json_list (json_prop ''imageUrls'' data))\<rparr>"

text \<open>\<open>Ai_Broken\<close> is an exception of the language or of the network.\<close>

datatype ai_result = Ai_Recipe scraped_recipe "string list" | Ai_Failed string | Ai_Broken

record ai_state =
  ai_status :: "string list"
  ai_warnings :: "string list"

definition ai_start :: ai_state where
  "ai_start = \<lparr>ai_status = [], ai_warnings = []\<rparr>"

definition ai_event :: "string \<Rightarrow> json \<Rightarrow> ai_state \<Rightarrow> ai_result option \<times> ai_state" where
  "ai_event eventType data s =
     (let message = json_prop ''message'' data in
      if eventType \<notin> {''status'', ''warning'', ''result'', ''error''} then (None, s)
      else if data = JNull then (Some Ai_Broken, s)
      else if eventType = ''status'' then (None, s\<lparr>ai_status := ai_status s @ [str message]\<rparr>)
      else if eventType = ''warning'' then (None, s\<lparr>ai_warnings := ai_warnings s @ [str message]\<rparr>)
      else if eventType = ''result'' then (Some (Ai_Recipe (ai_recipe data) (ai_warnings s)), s)
      else (Some (Ai_Failed (if js_truthy message then str message else ''AI extraction failed.'')), s))"

definition ai_part :: "string \<Rightarrow> ai_state \<Rightarrow> ai_result option \<times> ai_state" where
  "ai_part part s =
     (if js_trim part = [] then (None, s)
      else case (event_field ''event'' part, event_field ''data'' part) of
             (Some eventType, Some d) \<Rightarrow>
               (case parse_json d of None \<Rightarrow> (Some Ai_Broken, s) | Some data \<Rightarrow> ai_event eventType data s)
           | _ \<Rightarrow> (None, s))"

fun ai_parts :: "string list \<Rightarrow> ai_state \<Rightarrow> ai_result option \<times> ai_state" where
  "ai_parts [] s = (None, s)"
| "ai_parts (p # ps) s =
     (case ai_part p s of (Some r, s') \<Rightarrow> (Some r, s') | (None, s') \<Rightarrow> ai_parts ps s')"

definition stream_end :: "bool \<Rightarrow> ai_result" where
  "stream_end broken = (if broken then Ai_Broken else Ai_Failed ''AI extraction ended without returning a recipe.'')"

text \<open>The reading loop; \<open>broken\<close> tells whether the read after the last piece fails.\<close>

fun ai_read :: "bool \<Rightarrow> string list \<Rightarrow> string \<Rightarrow> ai_state \<Rightarrow> ai_result \<times> ai_state" where
  "ai_read broken [] buffer s = (stream_end broken, s)"
| "ai_read broken (chunk # chunks) buffer s =
     (case sse_split (buffer @ chunk) of (parts, rest) \<Rightarrow>
        (case ai_parts parts s of
           (Some r, s') \<Rightarrow> (r, s')
         | (None, s') \<Rightarrow> ai_read broken chunks rest s'))"

record http_response =
  hr_status :: nat
  hr_text :: string
  hr_chunks :: "string list"
  hr_broken :: bool

definition hr_ok :: "http_response \<Rightarrow> bool" where
  "hr_ok r \<longleftrightarrow> 200 \<le> hr_status r \<and> hr_status r < 300"

definition extractRecipeAI :: "http_response option \<Rightarrow> ai_result \<times> ai_state" where
  "extractRecipeAI resp =
     (case resp of
        None \<Rightarrow> (Ai_Broken, ai_start)
      | Some r \<Rightarrow>
          if \<not> hr_ok r then
            (Ai_Failed (if hr_status r = 501 then ''AI extraction is not configured on this server.''
                        else if hr_status r = 400 then (if hr_text r \<noteq> [] then hr_text r else ''Invalid URL.'')
                        else if hr_status r = 429 then ''Rate limit exceeded. Try again later.''
                        else if hr_text r \<noteq> [] then hr_text r else ''Could not extract recipe.''), ai_start)
          else ai_read (hr_broken r) (hr_chunks r) [] ai_start)"

text \<open>The page, given by what \<open>DOMParser\<close> finds in it\<close>

definition extractRecipeBasic ::
  "(string \<Rightarrow> string list \<times> microdata option) \<Rightarrow> http_response \<Rightarrow> scraped_recipe option" where
  "extractRecipeBasic parsed r =
     (if \<not> hr_ok r then None else case parsed (hr_text r) of (scripts, md) \<Rightarrow> extractRecipeFromHtml scripts md)"

section \<open>Pictures\<close>

definition MAX_IMAGES :: nat where "MAX_IMAGES = 5"

record image_response =
  ir_ok :: bool
  ir_contentType :: "string option"
  ir_bytes :: bytes

text \<open>What the loop asks of its surroundings: the server's answers, the path of an address, the prepared picture, the
  initialisation vectors and the outcomes of the writes.\<close>

record image_world =
  iw_fetch :: "string \<Rightarrow> image_response option"
  iw_path :: "string \<Rightarrow> string option"
  iw_process :: "bytes \<Rightarrow> string \<Rightarrow> string \<Rightarrow> (bytes \<times> string \<times> string) option"
  iw_ivs :: "string \<Rightarrow> bytes \<times> bytes"
  iw_committed :: "string \<Rightarrow> bool \<times> bool \<times> bool"

fun after_last_slash :: "string \<Rightarrow> string" where
  "after_last_slash [] = []"
| "after_last_slash (c # cs) = (if CHR ''/'' \<in> set (c # cs) then after_last_slash cs else c # cs)"

definition load_image ::
  "webcrypto \<Rightarrow> image_world \<Rightarrow> string \<Rightarrow> crypto_key \<Rightarrow> (string \<times> string) list \<times> idb \<Rightarrow> string \<Rightarrow> (string \<times> string) list \<times> idb" where
  "load_image C w vaultId encKey = (\<lambda>(urlToChecksum, db) imgUrl.
     (case iw_fetch w imgUrl of
        None \<Rightarrow> (urlToChecksum, db)
      | Some resp \<Rightarrow>
          let contentType = (case ir_contentType resp of Some t \<Rightarrow> t | None \<Rightarrow> ''image/jpeg'') in
          if \<not> ir_ok resp \<or> \<not> prefix ''image/'' contentType then (urlToChecksum, db)
          else (case Option.bind (iw_path w imgUrl) (\<lambda>p. iw_process w (ir_bytes resp) (after_last_slash p) contentType) of
                  None \<Rightarrow> (urlToChecksum, db)
                | Some (b, mimeType, filename) \<Rightarrow>
                    (case storeBlob C (fst (iw_ivs w imgUrl)) (snd (iw_ivs w imgUrl)) (iw_committed w imgUrl)
                            vaultId b mimeType filename encKey db of
                       (Inr (checksum, _), db') \<Rightarrow> (map_set imgUrl checksum urlToChecksum, db')
                     | (Inl _, db') \<Rightarrow> (urlToChecksum, db')))))"

definition load_images ::
  "webcrypto \<Rightarrow> image_world \<Rightarrow> book \<Rightarrow> string list \<Rightarrow> idb \<Rightarrow> (string \<times> string) list \<times> idb" where
  "load_images C w b imageUrls db =
     (case bk_encKey b of
        None \<Rightarrow> ([], db)
      | Some encKey \<Rightarrow> foldl (load_image C w (bk_vaultId b) encKey) ([], db) (take MAX_IMAGES imageUrls))"

text \<open>\<open>/!\[([^\]]*)\]\(url\)/\<close> and \<open>/!\[[^\]]*\]\(https?:\/\/[^)]+\)\n?/\<close>\<close>

definition match_image :: "string \<Rightarrow> string \<Rightarrow> (string \<times> string) option" where
  "match_image url s =
     (let alt = takeWhile (\<lambda>c. c \<noteq> CHR '']'') (drop 2 s); r = drop (length alt) (drop 2 s)
      in if prefix ''!['' s \<and> prefix (''](''  @ url @ '')'') r then Some (alt, drop (length url + 3) r) else None)"

definition match_external :: "string \<Rightarrow> string option" where
  "match_external s =
     (let alt = takeWhile (\<lambda>c. c \<noteq> CHR '']'') (drop 2 s); r = drop (length alt) (drop 2 s);
          n = (if prefix ''](http://'' r then 9 else if prefix ''](https://'' r then 10 else 0)
      in if prefix ''!['' s \<and> n \<noteq> 0
         then map_option (\<lambda>(a, r'). if prefix [NL] r' then tl r' else r') (upto (CHR '')'') (drop n r)) else None)"

definition blob_link :: "string \<Rightarrow> string" where
  "blob_link checksum = ''blob:'' @ checksum"

definition image_link :: "string \<Rightarrow> string \<Rightarrow> string" where
  "image_link alt target = ''!['' @ alt @ ''](''  @ target @ '')''"

definition replace_image :: "string \<Rightarrow> string \<Rightarrow> string \<Rightarrow> string" where
  "replace_image imgUrl checksum =
     gsub (\<lambda>s. map_option (\<lambda>(alt, r). (image_link alt (blob_link checksum), r)) (match_image imgUrl s))"

definition remove_external :: "string \<Rightarrow> string" where
  "remove_external = gsub (\<lambda>s. map_option (\<lambda>r. ([], r)) (match_external s))"

definition stored_instructions :: "(string \<times> string) list \<Rightarrow> string \<Rightarrow> string" where
  "stored_instructions urlToChecksum instructions =
     remove_external (foldl (\<lambda>t (imgUrl, checksum). replace_image imgUrl checksum t) instructions urlToChecksum)"

section \<open>The import\<close>

definition scraped_entry :: "string \<Rightarrow> string \<Rightarrow> scraped_recipe \<Rightarrow> recipe_meta \<times> recipe_content" where
  "scraped_entry url instructions r =
     (\<lparr>rm_title = Some (sr_title r), rm_tags = Some (sr_tags r),
       rm_servings = Some (int (digits_value 10 (takeWhile is_digit (sr_servings r)))),
       rm_prepMinutes = Some (int (sr_prepMinutes r)), rm_cookMinutes = Some (int (sr_cookMinutes r)),
       rm_createdAt = None, rm_updatedAt = None\<rparr>,
      \<lparr>rt_description = Some (sr_description r),
       rt_ingredients = Some (map (\<lambda>i. \<lparr>ing_quantity = si_quantity i, ing_unit = si_unit i, ing_item = si_item i, ing_optional = False\<rparr>) (sr_ingredients r)),
       rt_instructions = Some instructions, rt_notes = Some (''Source: '' @ url)\<rparr>)"

datatype import_message = Im_Error string | Im_Exception | Im_Imported string | Im_Silent

text \<open>The end of the import: the recipe goes into the book it was started for, and the last recipe of that book's
  catalog is selected.\<close>

definition import_end :: "book \<Rightarrow> string \<Rightarrow> string \<Rightarrow> scraped_recipe \<Rightarrow> string \<Rightarrow> page \<Rightarrow> page \<times> import_message" where
  "import_end b url newId r instructions p =
     (let (meta, content) = scraped_entry url instructions r;
          (p1, count) = importRecipesIntoBook b [(newId, meta, content)] [] p
      in if count = 0 then (p1, Im_Silent)
         else ((case map_get (pg_catalogs p1) (catalog_id (bk_vaultId b)) of
                  Some cat \<Rightarrow> if ct_recipes cat = [] then p1 else selectRecipe (ce_id (last (ct_recipes cat))) p1
                | None \<Rightarrow> p1), Im_Imported (sr_title r)))"

text \<open>From the extracted recipe on; \<open>protocol\<close> is that of the address, \<open>None\<close> when it does not parse.\<close>

definition import_extracted ::
  "webcrypto \<Rightarrow> image_world \<Rightarrow> book \<Rightarrow> string \<Rightarrow> string \<Rightarrow> scraped_recipe option \<Rightarrow> page \<times> idb \<Rightarrow> (page \<times> import_message) \<times> idb" where
  "import_extracted C w b url newId recipe = (\<lambda>(p, db).
     (case recipe of
        None \<Rightarrow> ((p, Im_Error ''Could not extract recipe data from this page. Try a different URL.''), db)
      | Some r \<Rightarrow>
          if sr_title r = [] then ((p, Im_Error ''Could not extract recipe data from this page. Try a different URL.''), db)
          else case load_images C w b (sr_imageUrls r) db of
                 (urlToChecksum, db') \<Rightarrow>
                   (import_end b url newId r (stored_instructions urlToChecksum (sr_instructions r)) p, db')))"

definition handleImportFromUrl ::
  "webcrypto \<Rightarrow> image_world \<Rightarrow> (string \<Rightarrow> string list \<times> microdata option) \<Rightarrow> string option \<Rightarrow> bool \<Rightarrow> http_response option
     \<Rightarrow> book \<Rightarrow> string \<Rightarrow> string \<Rightarrow> page \<times> idb \<Rightarrow> (page \<times> import_message) \<times> idb" where
  "handleImportFromUrl C w parsed protocol useLlm resp b url newId s =
     (if url = [] then ((fst s, Im_Silent), snd s)
      else case protocol of
             None \<Rightarrow> ((fst s, Im_Error ''Please enter a valid URL.''), snd s)
           | Some pr \<Rightarrow>
               if pr \<noteq> ''https:'' \<and> pr \<noteq> ''http:''
               then ((fst s, Im_Error ''Please enter a valid URL starting with https://''), snd s)
               else if useLlm then
                 (case fst (extractRecipeAI resp) of
                    Ai_Recipe r warnings \<Rightarrow> import_extracted C w b url newId (Some r) s
                  | Ai_Failed e \<Rightarrow> ((fst s, Im_Error e), snd s)
                  | Ai_Broken \<Rightarrow> ((fst s, Im_Exception), snd s))
               else (case resp of
                       None \<Rightarrow> ((fst s, Im_Exception), snd s)
                     | Some r \<Rightarrow> import_extracted C w b url newId (extractRecipeBasic parsed r) s))"

section \<open>Events, however they are cut\<close>

lemma cut_at_long: "cut_at pat s = Some (a, r) \<Longrightarrow> length pat \<le> length s"
  by (induction s arbitrary: a) (auto simp: prefix_length_le split: if_splits dest: prefix_length_le)

lemma cut_at_prefix: "pat \<noteq> [] \<Longrightarrow> cut_at pat (pat @ x) = Some ([], x)"
  by (cases pat) simp_all

lemma cut_at_append: "cut_at pat s = Some (a, r) \<Longrightarrow> pat \<noteq> [] \<Longrightarrow> cut_at pat (s @ t) = Some (a, r @ t)"
proof (induction s arbitrary: a)
  case (Cons c cs)
  show ?case
  proof (cases "prefix pat (c # cs)")
    case True
    then have e: "c # cs = pat @ r" "a = []" using Cons.prems by (auto simp: prefix_def)
    then have "c # cs @ t = pat @ r @ t" by (metis append.assoc append_Cons)
    then show ?thesis using e(2) cut_at_prefix [OF Cons.prems(2)] by simp
  next
    case False
    then obtain a' where a: "cut_at pat cs = Some (a', r)" "a = c # a'" using Cons.prems(1) by auto
    have "\<not> prefix pat (c # cs @ t)"
    proof
      assume "prefix pat (c # cs @ t)"
      then have "prefix pat ((c # cs) @ t)" by simp
      moreover have "prefix (c # cs) ((c # cs) @ t)" by simp
      ultimately have "prefix pat (c # cs)" by (rule prefix_length_prefix) (use cut_at_long [OF a(1)] in simp)
      then show False using False by simp
    qed
    then show ?thesis using Cons.IH [OF a(1) Cons.prems(2)] a(2) by simp
  qed
qed simp

lemma sse_split_append:
  "sse_split s = (ps, rest) \<Longrightarrow> sse_split (s @ t) = (ps @ fst (sse_split (rest @ t)), snd (sse_split (rest @ t)))"
proof (induction s arbitrary: ps rule: sse_split.induct)
  case (1 s)
  show ?case
  proof (cases "cut_at [NL, NL] s")
    case None
    then have "ps = []" "rest = s" using 1(2) by (simp_all add: sse_split.simps [of s])
    then show ?thesis by simp
  next
    case (Some p)
    obtain a r where p: "p = (a, r)" by (cases p)
    obtain qs rest' where q: "sse_split r = (qs, rest')" by (cases "sse_split r")
    have e: "ps = a # qs" "rest = rest'" using 1(2) Some p q by (simp_all add: sse_split.simps [of s])
    have "sse_split (r @ t) = (qs @ fst (sse_split (rest @ t)), snd (sse_split (rest @ t)))"
      using 1(1) [OF Some] p q e by simp
    then show ?thesis
      using cut_at_append [of "[NL, NL]" s a r t] Some p e by (simp add: sse_split.simps [of "s @ t"])
  qed
qed

lemma ai_parts_append:
  "ai_parts (ps @ qs) s = (case ai_parts ps s of (Some r, s') \<Rightarrow> (Some r, s') | (None, s') \<Rightarrow> ai_parts qs s')"
  by (induction ps arbitrary: s) (auto split: prod.split option.split)

lemma ai_read_parts:
  assumes "sse_split buffer = ([], buffer)"
  shows "ai_read broken chunks buffer s =
    (case ai_parts (fst (sse_split (buffer @ concat chunks))) s of
       (Some r, s') \<Rightarrow> (r, s') | (None, s') \<Rightarrow> (stream_end broken, s'))"
  using assms
proof (induction chunks arbitrary: buffer s)
  case (Cons chunk chunks)
  obtain ps rest where p: "sse_split (buffer @ chunk) = (ps, rest)" by (cases "sse_split (buffer @ chunk)")
  have rest: "sse_split rest = ([], rest)" using sse_split_append [OF p, of "[]"] p by (cases "sse_split rest") simp
  have "sse_split (buffer @ concat (chunk # chunks)) = (ps @ fst (sse_split (rest @ concat chunks)), snd (sse_split (rest @ concat chunks)))"
    using sse_split_append [OF p, of "concat chunks"] by simp
  then show ?case by (auto simp: p ai_parts_append Cons.IH [OF rest] split: prod.split option.split)
qed simp

lemma sse_split_Nil: "sse_split [] = ([], [])"
  by (simp add: sse_split.simps)

text \<open>How the network cuts the stream of events makes no difference: reading it piece by piece gives the result of
  the complete events of the whole text, wherever the pieces end, also inside an event or between the two
  line breaks that end one.\<close>

theorem pieces_do_not_matter:
  "ai_read broken chunks [] ai_start =
    (case ai_parts (fst (sse_split (concat chunks))) ai_start of
       (Some r, s) \<Rightarrow> (r, s) | (None, s) \<Rightarrow> (stream_end broken, s))"
  using ai_read_parts [of "[]"] by (simp add: sse_split_Nil)

text \<open>An event as the server writes it\<close>

definition sse_event :: "string \<times> string \<Rightarrow> string" where
  "sse_event = (\<lambda>(e, d). ''event: '' @ e @ NL # ''data: '' @ d @ [NL, NL])"

definition one_line :: "string \<Rightarrow> bool" where
  "one_line t \<longleftrightarrow> t \<noteq> [] \<and> NL \<notin> set t \<and> CR \<notin> set t"

lemma text_lines_cut: "NL \<notin> set l \<Longrightarrow> CR \<notin> set l \<Longrightarrow> text_lines (l @ NL # r) = l # text_lines r"
  by (induction l) (auto split: list.split)

lemma text_lines_one: "NL \<notin> set l \<Longrightarrow> CR \<notin> set l \<Longrightarrow> text_lines l = [l]"
  by (induction l) auto

lemma not_breaks [simp]:
  "NL \<noteq> CHR ''e''" "NL \<noteq> CHR ''v''" "NL \<noteq> CHR ''e''" "NL \<noteq> CHR ''n''" "NL \<noteq> CHR ''t''" "NL \<noteq> CHR ''d''" "NL \<noteq> CHR ''a''" "NL \<noteq> CHR '':''" "NL \<noteq> CHR '' ''"
  "CHR ''e'' \<noteq> NL" "CHR ''v'' \<noteq> NL" "CHR ''e'' \<noteq> NL" "CHR ''n'' \<noteq> NL" "CHR ''t'' \<noteq> NL" "CHR ''d'' \<noteq> NL" "CHR ''a'' \<noteq> NL" "CHR '':'' \<noteq> NL" "CHR '' '' \<noteq> NL"
  by (simp_all add: NL_def)

lemma event_body:
  assumes "one_line e" "one_line d"
  shows "text_lines (''event: '' @ e @ NL # ''data: '' @ d) = [''event: '' @ e, ''data: '' @ d]"
proof -
  have l: "NL \<notin> set ''event: ''" "CR \<notin> set ''event: ''" "NL \<notin> set ''data: ''" "CR \<notin> set ''data: ''"
    by (simp_all add: NL_def CR_def)
  have "text_lines ((''event: '' @ e) @ NL # (''data: '' @ d)) = [''event: '' @ e, ''data: '' @ d]"
    using assms l by (subst text_lines_cut) (simp_all add: one_line_def text_lines_one del: append.simps)
  then show ?thesis by simp
qed

lemma split_event:
  assumes "one_line e" "one_line d"
  shows "sse_split (sse_event (e, d) @ s) = (case sse_split s of (ps, rest) \<Rightarrow> ((''event: '' @ e @ NL # ''data: '' @ d) # ps, rest))"
proof -
  have skip: "cut_at [NL, NL] (l @ t) = map_option (\<lambda>(a, b). (l @ a, b)) (cut_at [NL, NL] t)" if "NL \<notin> set l" for l t
    using that by (cases "cut_at [NL, NL] t"; induction l) auto
  have l: "NL \<notin> set ''event: ''" "NL \<notin> set ''data: ''" by (simp_all add: NL_def)
  have d: "cut_at [NL, NL] (''data: '' @ d @ NL # NL # s) = Some (''data: '' @ d, s)"
    using assms(2) skip [of "''data: '' @ d" "NL # NL # s"] l by (simp add: one_line_def)
  have "cut_at [NL, NL] (NL # ''data: '' @ d @ NL # NL # s) = Some (NL # ''data: '' @ d, s)"
    using d by simp
  then have "cut_at [NL, NL] ((''event: '' @ e) @ NL # ''data: '' @ d @ NL # NL # s) = Some (''event: '' @ e @ NL # ''data: '' @ d, s)"
    using assms(1) skip [of "''event: '' @ e"] l by (simp add: one_line_def)
  then show ?thesis by (subst sse_split.simps) (simp add: sse_event_def)
qed

lemma ai_part_event:
  assumes "one_line e" "one_line d" "parse_json d = Some data"
  shows "ai_part (''event: '' @ e @ NL # ''data: '' @ d) s = ai_event e data s"
proof -
  have "event_field ''event'' (''event: '' @ e @ NL # ''data: '' @ d) = Some e"
    using assms(1) by (simp only: event_field_def event_body [OF assms(1,2)]) (simp add: one_line_def)
  moreover have "event_field ''data'' (''event: '' @ e @ NL # ''data: '' @ d) = Some d"
    using assms(2) by (simp only: event_field_def event_body [OF assms(1,2)]) (simp add: one_line_def)
  moreover have "js_trim (''event: '' @ e @ NL # ''data: '' @ d) \<noteq> []"
    by (auto simp: js_trim_def js_space_def dest: arg_cong [where f = set])
  ultimately show ?thesis using assms(3) by (simp add: ai_part_def)
qed

lemma ai_parts_event:
  assumes "one_line e" "one_line d" "parse_json d = Some data"
  shows "ai_parts (fst (sse_split (sse_event (e, d) @ t))) s =
    (case ai_event e data s of (Some r, s') \<Rightarrow> (Some r, s') | (None, s') \<Rightarrow> ai_parts (fst (sse_split t)) s')"
proof -
  obtain ps r where t: "sse_split t = (ps, r)" by (cases "sse_split t")
  show ?thesis by (simp only: split_event [OF assms(1,2)] t prod.case fst_conv ai_parts.simps ai_part_event [OF assms])
qed

definition demo_stream :: string where
  "demo_stream = sse_event (''warning'', ''{\"message\":\"slow\"}'') @ sse_event (''result'', ''{\"title\":\"Soup\"}'')"

text \<open>C35: what the server says arrives: when the stream is a number of status and warning events and then a result,
  each written as the server writes events, then however it is cut, and whatever comes after the result, the
  extraction returns the recipe of the result with all warnings, and has shown the messages of the status
  events in their order.\<close>

theorem streamed_recipe_arrives:
  assumes "\<forall>(e, d, data) \<in> set msgs. e \<in> {''status'', ''warning''} \<and> one_line d \<and> parse_json d = Some data \<and> data \<noteq> JNull"
    and "one_line d" "parse_json d = Some data" "data \<noteq> JNull"
    and "concat chunks = concat (map (\<lambda>(e, d, data). sse_event (e, d)) msgs) @ sse_event (''result'', d) @ rest"
    and "hr_ok resp" "hr_chunks resp = chunks"
  shows "extractRecipeAI (Some resp) =
    (Ai_Recipe (ai_recipe data) (map (\<lambda>(e, d, data). str (json_prop ''message'' data)) (filter (\<lambda>(e, d, data). e = ''warning'') msgs)),
     \<lparr>ai_status = map (\<lambda>(e, d, data). str (json_prop ''message'' data)) (filter (\<lambda>(e, d, data). e = ''status'') msgs),
      ai_warnings = map (\<lambda>(e, d, data). str (json_prop ''message'' data)) (filter (\<lambda>(e, d, data). e = ''warning'') msgs)\<rparr>)"
proof -
  have run: "ai_parts (fst (sse_split (concat (map (\<lambda>(e, d, data). sse_event (e, d)) msgs) @ t))) s =
      ai_parts (fst (sse_split t))
        \<lparr>ai_status = ai_status s @ map (\<lambda>(e, d, data). str (json_prop ''message'' data)) (filter (\<lambda>(e, d, data). e = ''status'') msgs),
         ai_warnings = ai_warnings s @ map (\<lambda>(e, d, data). str (json_prop ''message'' data)) (filter (\<lambda>(e, d, data). e = ''warning'') msgs)\<rparr>"
    for t s
    using assms(1)
  proof (induction msgs arbitrary: s)
    case Nil
    show ?case by (cases s) simp
  next
    case (Cons m msgs)
    obtain e d1 j where m: "m = (e, d1, j)" by (cases m)
    have e: "e = ''status'' \<or> e = ''warning''" "one_line e" "one_line d1" "parse_json d1 = Some j" "j \<noteq> JNull"
      using Cons.prems by (auto simp: m one_line_def NL_def CR_def)
    have ev: "ai_event e j s = (None, if e = ''status'' then s\<lparr>ai_status := ai_status s @ [str (json_prop ''message'' j)]\<rparr>
        else s\<lparr>ai_warnings := ai_warnings s @ [str (json_prop ''message'' j)]\<rparr>)"
      using e(1,5) by (auto simp: ai_event_def Let_def)
    have "ai_parts (fst (sse_split (sse_event (e, d1) @ u))) s = ai_parts (fst (sse_split u)) (snd (ai_event e j s))" for u
      by (simp add: ai_parts_event [OF e(2-4)] ev)
    then show ?case
      using e(1) Cons.IH [of "snd (ai_event e j s)"] Cons.prems by (auto simp: m ev)
  qed
  have r: "one_line ''result''" by (simp add: one_line_def NL_def CR_def)
  show ?thesis
    using assms(2-4)
    by (simp add: extractRecipeAI_def assms(6,7) ai_read_parts sse_split_Nil assms(5) run ai_parts_event [OF r]
        ai_event_def ai_start_def Let_def)
qed

theorem streamed_recipe_arrives_witness:
  "\<exists>s. extractRecipeAI (Some \<lparr>hr_status = 200, hr_text = [], hr_chunks = [take 30 demo_stream, drop 30 demo_stream], hr_broken = False\<rparr>) =
     (Ai_Recipe (ai_recipe (JObj [(''title'', JStr ''Soup'')])) [''slow''], s)"
proof -
  let ?w = "(''warning'', ''{\"message\":\"slow\"}'', JObj [(''message'', JStr ''slow'')])"
  have p: "parse_json ''{\"message\":\"slow\"}'' = Some (JObj [(''message'', JStr ''slow'')])"
    "parse_json ''{\"title\":\"Soup\"}'' = Some (JObj [(''title'', JStr ''Soup'')])" by code_simp+
  have "extractRecipeAI (Some \<lparr>hr_status = 200, hr_text = [], hr_chunks = [take 30 demo_stream, drop 30 demo_stream], hr_broken = False\<rparr>) =
    (Ai_Recipe (ai_recipe (JObj [(''title'', JStr ''Soup'')])) (map (\<lambda>(e, d, data). str (json_prop ''message'' data)) (filter (\<lambda>(e, d, data). e = ''warning'') [?w])),
     \<lparr>ai_status = map (\<lambda>(e, d, data). str (json_prop ''message'' data)) (filter (\<lambda>(e, d, data). e = ''status'') [?w]),
      ai_warnings = map (\<lambda>(e, d, data). str (json_prop ''message'' data)) (filter (\<lambda>(e, d, data). e = ''warning'') [?w])\<rparr>)"
  proof (rule streamed_recipe_arrives [where d = "''{\"title\":\"Soup\"}''" and rest = "[]"])
    show "concat [take 30 demo_stream, drop 30 demo_stream] =
        concat (map (\<lambda>(e, d, data). sse_event (e, d)) [?w]) @ sse_event (''result'', ''{\"title\":\"Soup\"}'') @ []"
      by (simp only: concat.simps append_Nil2 append_take_drop_id) (simp add: demo_stream_def)
  qed (simp_all add: p one_line_def NL_def CR_def hr_ok_def)
  moreover have "str (json_prop ''message'' (JObj [(''message'', JStr ''slow'')])) = ''slow''" by code_simp
  ultimately show ?thesis by simp
qed

section \<open>Pictures in the instructions\<close>


















lemma NL_not_bracket [simp]: "NL \<noteq> CHR ''[''" "NL \<noteq> CHR ''!''"
  by (simp_all add: NL_def)


























text \<open>One pass over the text is not enough for texts of other shapes: what a removed picture leaves may read as another one.\<close>

lemma removal_can_leave_a_picture:
  "remove_external ''!![a](http://b/c)[d](http://e/f)'' = ''![d](http://e/f)''"
  by code_simp

text \<open>A picture that was not loaded: of an address with a closing parenthesis, the rest stays in the text; a relative address stays as it is.\<close>

theorem addresses_that_are_not_removed:
  "stored_instructions [] (fst (normalizeInstructions (Some (JArr [JObj [(''text'', JStr ''Cut''), (''image'', JStr ''http://a/p_(1).jpg'')]])))) =
     join [NL] [''1. Cut'', ''.jpg)'']"
  "stored_instructions [] (fst (normalizeInstructions (Some (JArr [JObj [(''text'', JStr ''Cut''), (''image'', JStr ''/p.jpg'')]])))) =
     join [NL] [''1. Cut'', ''![](/p.jpg)'']"
  by code_simp+

section \<open>The end of the import\<close>

lemma catalog_id_inject: "catalog_id v = catalog_id w \<longleftrightarrow> v = w"
  by (simp add: catalog_id_def)

lemma empty_has_no_links: "reconcileRecipeLinkNames rs empty_recipe = (empty_recipe, False)"
  by (simp add: reconcileRecipeLinkNames_def empty_recipe_def updateField_def links.simps)

lemma open_empty:
  assumes "\<not> vw_timer (pg_view p)" "recipe_of p d = empty_recipe"
  shows "\<exists>v. openRecipe d i editable p = p\<lparr>pg_view := v\<rparr> \<and> vw_store v = Some d"
proof -
  define p1 where "p1 = on_view (\<lambda>v. v\<lparr>vw_store := None, vw_recipe := None, vw_attached := False, vw_editing := False,
                       vw_scaling := close_scaling (vw_scaling v)\<rparr>) p"
  define p2 where "p2 = on_view (\<lambda>v. v\<lparr>vw_store := Some d, vw_recipe := Some i, vw_lastTitle := rc_title (recipe_of p1 d),
      vw_lastTags := rc_tags (recipe_of p1 d), vw_scaling := open_scaling (recipe_of p1 d) (vw_scaling v), vw_canEdit := editable\<rparr>) p1"
  have p1: "closeRecipe p = p1" using assms(1) by (simp add: closeRecipe_def p1_def)
  have s2: "vw_store (pg_view p2) = Some d" "vw_editing (pg_view p2) = False" "recipe_of p2 d = empty_recipe"
    using assms(2) by (simp_all add: p2_def p1_def on_view_def recipe_of_def)
  have r: "reconcile_with on_change p2 = p2" using s2 by (simp add: reconcile_with_def empty_has_no_links)
  have "setPageEditing False p2 = on_view (\<lambda>v. v\<lparr>vw_editing := False\<rparr>) p2"
    using s2 by (simp add: setPageEditing_def Let_def on_view_def)
  then have o: "openRecipe d i editable p = on_view (\<lambda>v. v\<lparr>vw_attached := True\<rparr>) (on_view (\<lambda>v. v\<lparr>vw_editing := False\<rparr>) p2)"
    by (simp add: openRecipe_def Let_def p1 p2_def [symmetric] r)
  let ?v = "pg_view (on_view (\<lambda>v. v\<lparr>vw_attached := True\<rparr>) (on_view (\<lambda>v. v\<lparr>vw_editing := False\<rparr>) p2))"
  have "openRecipe d i editable p = p\<lparr>pg_view := ?v\<rparr>" by (simp add: o) (simp add: on_view_def p2_def p1_def)
  moreover have "vw_store ?v = Some d" using s2(1) by (simp add: on_view_def)
  ultimately show ?thesis by blast
qed

lemma select_opened_empty:
  assumes "active_catalog p = Some own" "find_entry i (ct_recipes own) = None"
  shows "\<exists>ed. select_opened i v p =
    openRecipe (doc_id v i) i ed (tell (Subscribe (doc_id v i)) (p\<lparr>pg_open := set_add (doc_id v i) (pg_open p)\<rparr>))"
proof -
  have "active_catalog (tell (Subscribe (doc_id v i)) (p\<lparr>pg_open := set_add (doc_id v i) (pg_open p)\<rparr>)) = Some own"
    using assms(1) by (simp add: tell_def active_catalog_def catalogDocId_def)
  then show ?thesis using assms(2) by (auto simp: select_opened_def Let_def)
qed

text \<open>C37: an import that ends after the user has gone to another book: the recipe is stored in the book the import was
  started for, but its identifier is selected in the book that is shown now. An empty recipe that is in no catalog is opened
  there, subscribed and ready to be edited.\<close>

theorem import_ends_in_another_book:
  assumes "pg_active p = Some a" "bk_vaultId a \<noteq> bk_vaultId b" "pg_selected p = None" "pg_tasks p = []"
    and "map_get (pg_catalogs p) (catalog_id (bk_vaultId b)) = Some cat"
    and "vw_store (pg_view p) = None" "\<not> vw_timer (pg_view p)"
    and "active_catalog p = Some own" "find_entry newId (ct_recipes own) = None"
    and "map_get (pg_recipes p) (doc_id (bk_vaultId a) newId) = None"
    and "map_get (pg_recipes p) (doc_id (bk_vaultId b) newId) = None"
    and "doc_id (bk_vaultId a) newId \<noteq> doc_id (bk_vaultId b) newId"
    and "q = resume_nth 0 (fst (import_end b url newId r instructions p))"
  shows "rc_title (recipe_of q (doc_id (bk_vaultId b) newId)) = sr_title r \<and>
    pg_selected q = Some newId \<and> vw_store (pg_view q) = Some (doc_id (bk_vaultId a) newId) \<and>
    recipe_of q (doc_id (bk_vaultId a) newId) = empty_recipe \<and> active_catalog q = Some own"
proof -
  let ?d = "doc_id (bk_vaultId b) newId"
  let ?doc = "imported_recipe [] (pg_now p) (fst (scraped_entry url instructions r)) (snd (scraped_entry url instructions r))"
  have ne: "catalog_id (bk_vaultId a) \<noteq> catalog_id (bk_vaultId b)" using assms(2) by (simp add: catalog_id_inject)
  obtain cats where q1: "fst (import_end b url newId r instructions p) =
      add_task (Select_Opening newId (bk_vaultId a)) (p\<lparr>pg_catalogs := cats, pg_recipes := map_set ?d ?doc (pg_recipes p),
        pg_open := set_delete ?d (set_add ?d (pg_open p)), pg_log := pg_log p @ [Flush_All], pg_selected := Some newId\<rparr>)"
    and cats: "map_get cats (catalog_id (bk_vaultId a)) = map_get (pg_catalogs p) (catalog_id (bk_vaultId a))"
    using assms ne
    by (simp add: import_end_def importRecipesIntoBook_def Let_def case_prod_unfold change_catalog_def catalogDocId_def map_eqs
        init_recipe_def change_with_def tell_def selectRecipe_def select_opening_def add_task_def recipe_of_def entry_for_def)
  have own: "map_get cats (catalog_id (bk_vaultId a)) = Some own"
    using assms(1,8) by (simp add: cats active_catalog_def catalogDocId_def)
  have t: "rc_title ?doc = sr_title r" by (simp add: imported_recipe_def scraped_entry_def)
  have e: "rc_title empty_recipe = []" by (simp add: empty_recipe_def)
  let ?da = "doc_id (bk_vaultId a) newId"
  define p1 where "p1 = p\<lparr>pg_catalogs := cats, pg_recipes := map_set ?d ?doc (pg_recipes p),
      pg_open := set_delete ?d (set_add ?d (pg_open p)), pg_log := pg_log p @ [Flush_All], pg_selected := Some newId, pg_tasks := []\<rparr>"
  define p2 where "p2 = tell (Subscribe ?da) (p1\<lparr>pg_open := set_add ?da (pg_open p1)\<rparr>)"
  have p1: "active_catalog p1 = Some own"
    using assms(1) own by (simp add: p1_def active_catalog_def catalogDocId_def)
  have p2: "recipe_of p2 ?da = empty_recipe" "active_catalog p2 = Some own" "pg_view p2 = pg_view p" "pg_selected p2 = Some newId"
      "recipe_of p2 ?d = ?doc"
    using assms(1,10,12) own by (simp_all add: p2_def p1_def tell_def recipe_of_def map_eqs active_catalog_def catalogDocId_def)
  have "q = resume_task (Select_Opening newId (bk_vaultId a)) ((fst (import_end b url newId r instructions p))\<lparr>pg_tasks := []\<rparr>)"
    using assms(4) by (simp add: assms(13) q1 resume_nth_def add_task_def)
  then have "q = select_opened newId (bk_vaultId a) p1"
    using assms(4) by (simp add: resume_task_def q1 add_task_def p1_def)
  then obtain ed where "q = openRecipe ?da newId ed p2"
    using select_opened_empty [OF p1 assms(9), of "bk_vaultId a"] by (auto simp: p2_def)
  then obtain v where "q = p2\<lparr>pg_view := v\<rparr>" "vw_store v = Some ?da"
    using open_empty [of p2 ?da newId ed] p2(1,3) assms(7) by auto
  then show ?thesis using p2 t by (simp add: recipe_of_def active_catalog_def catalogDocId_def)
qed

definition url_book :: "string \<Rightarrow> book" where
  "url_book v = \<lparr>bk_vaultId = v, bk_name = v, bk_role = ''owner'', bk_encKey = None\<rparr>"

definition url_page :: page where
  "url_page = \<lparr>pg_now = 1, pg_books = [url_book ''v'', url_book ''w''], pg_active = Some (url_book ''v''), pg_selected = None,
     pg_catalogs = [(''v/catalog'', \<lparr>ct_name = ''v'', ct_recipes = [], ct_members = []\<rparr>), (''w/catalog'', \<lparr>ct_name = ''w'', ct_recipes = [], ct_members = []\<rparr>)],
     pg_recipes = [], pg_open = [], pg_log = [],
     pg_view = \<lparr>vw_store = None, vw_recipe = None, vw_attached = False, vw_editing = False, vw_canEdit = True,
       vw_form = \<lparr>mf_title = [], mf_tags = [], mf_servings = [], mf_prep = [], mf_cook = []\<rparr>,
       vw_timer = False, vw_titleFocused = False, vw_lastTitle = [], vw_lastTags = [], vw_scaling = demo_scaling\<rparr>, pg_tasks = []\<rparr>"

definition url_recipe :: scraped_recipe where
  "url_recipe = \<lparr>sr_title = ''Soup'', sr_description = [], sr_servings = ''4'', sr_prepMinutes = 0, sr_cookMinutes = 0,
     sr_ingredients = [], sr_instructions = ''1. Cook'', sr_tags = [], sr_imageUrls = []\<rparr>"

theorem import_ends_in_another_book_witness:
  "vw_store (pg_view (resume_nth 0 (fst (import_end (url_book ''w'') ''http://a'' ''i'' url_recipe ''1. Cook'' url_page)))) = Some ''v/i''"
  using import_ends_in_another_book [of url_page "url_book ''v''" "url_book ''w''" "\<lparr>ct_name = ''w'', ct_recipes = [], ct_members = []\<rparr>"
      "\<lparr>ct_name = ''v'', ct_recipes = [], ct_members = []\<rparr>" "''i''" _ "''http://a''" url_recipe "''1. Cook''"]
  by (simp add: url_page_def url_book_def catalog_id_def map_get_def active_catalog_def catalogDocId_def doc_id_def find_entry_def)

end
