(* ===== verification/Books.thy ===== *)
theory Books
  imports Recipe_Page Search Accounts
begin

text \<open>
  The books of a user: \<open>src/ui/books.ts\<close> (creating, renaming, deleting, the list of books), \<open>src/sync/vault-helpers.ts\<close>
  (names, members, the search index of a book), \<open>src/ui/share.ts\<close> (invitations), the part of \<open>connect.ts\<close> that
  loads the catalogs of a vault list, and the import of an archive (\<open>src/import-export.ts\<close>) as far as it makes books.

  \<open>sh_catalogs\<close> are the open catalogs, each with the listener that the code gives it, \<open>sh_stored\<close> those on the device.
  The active book is known by its identifier. Writes to the database succeed, except the first one of a new book, whose failure is an
  argument. A vault list is loaded in steps, as the awaits of \<open>onVaultList\<close> allow: the index is cleared (\<open>load_clear\<close>), the books
  are replaced (\<open>load_books\<close>), one book after the other is opened and indexed (\<open>load_next\<close>, over the books as they were when
  the loop began), and the listeners are told (\<open>load_end\<close>); \<open>sh_loading\<close> says how far it is, and everything else may happen
  in between. The opening, subscribing and indexing of one book is one step: what may come between those changes neither the
  catalog that is opened nor whether it is. The recipe shown (deselected when the book
  changes, its links updated with the catalog) belongs to \<open>Recipe_Page\<close>, the queue of the vector search to
  \<open>Vector_Search\<close>; drawing is left out.
\<close>

section \<open>State\<close>

text \<open>How far \<open>onVaultList\<close> is: not running, at work on the keys, at the books still to be opened\<close>

datatype vault_load = No_Load | Keys_Load | Books_Load "book list"

record 'p shelf =
  sh_books :: "book list"
  sh_active :: "string option"
  sh_listShown :: bool
  sh_catalogs :: "(string \<times> catalog) list"
  sh_stored :: "(string \<times> catalog) list"
  sh_index :: search_index
  sh_client :: "'p sync_client option"
  sh_db :: idb
  sh_cache :: "local_cache option"
  sh_masterKey :: "crypto_key option"
  sh_identity :: "(bytes \<times> bytes) option"
  sh_userId :: string
  sh_username :: string
  sh_log :: "page_op list"
  sh_loading :: vault_load

definition shelf_tell :: "page_op \<Rightarrow> 'p shelf \<Rightarrow> 'p shelf" where
  "shelf_tell c s = s\<lparr>sh_log := sh_log s @ [c]\<rparr>"

definition shelf_subscribe :: "string \<Rightarrow> 'p shelf \<Rightarrow> 'p shelf" where
  "shelf_subscribe d s = (if sh_client s = None then s else shelf_tell (Subscribe d) s)"

definition shelf_unsubscribe :: "string \<Rightarrow> 'p shelf \<Rightarrow> 'p shelf" where
  "shelf_unsubscribe d s = (if sh_client s = None then s else shelf_tell (Unsubscribe d) s)"

definition open_catalog :: "string \<Rightarrow> 'p shelf \<Rightarrow> catalog option" where
  "open_catalog v s = map_get (sh_catalogs s) (catalog_id v)"

definition put_catalog :: "string \<Rightarrow> catalog \<Rightarrow> 'p shelf \<Rightarrow> 'p shelf" where
  "put_catalog v c s = s\<lparr>sh_catalogs := map_set (catalog_id v) c (sh_catalogs s)\<rparr>"

fun set_name :: "string \<Rightarrow> string \<Rightarrow> book list \<Rightarrow> book list" where
  "set_name v n [] = []"
| "set_name v n (b # bs) = (if bk_vaultId b = v then b\<lparr>bk_name := n\<rparr> # bs else b # set_name v n bs)"

section \<open>Names, members and the index\<close>

definition short_id :: "string \<Rightarrow> string" where
  "short_id userId = take 12 userId @ ''...''"

definition memberName :: "string \<Rightarrow> string option \<Rightarrow> 'p shelf \<Rightarrow> string" where
  "memberName userId vaultId s =
     (case (if truthy vaultId then vaultId else sh_active s) of
        None \<Rightarrow> short_id userId
      | Some v \<Rightarrow>
          (case Option.bind (open_catalog v s) (\<lambda>c. map_get (ct_members c) userId) of
             Some n \<Rightarrow> if n = [] then short_id userId else n
           | None \<Rightarrow> short_id userId))"

definition index_entry :: "book \<Rightarrow> catalog_entry \<Rightarrow> search_entry" where
  "index_entry b e = \<lparr>se_recipeId = ce_id e, se_vaultId = bk_vaultId b, se_bookName = bk_name b, se_title = ce_title e, se_tags = ce_tags e\<rparr>"

definition index_all :: "book \<Rightarrow> catalog_entry list \<Rightarrow> search_index \<Rightarrow> search_index" where
  "index_all b es ix = foldl (\<lambda>ix e. indexRecipe (index_entry b e) ix) ix es"

definition rebuildBookIndex :: "string \<Rightarrow> 'p shelf \<Rightarrow> 'p shelf" where
  "rebuildBookIndex v s =
     (case (find_book v (sh_books s), open_catalog v s) of
        (Some b, Some c) \<Rightarrow> s\<lparr>sh_index := index_all b (ct_recipes c) (removeBookFromIndex v (sh_index s))\<rparr>
      | _ \<Rightarrow> s)"

text \<open>A missing name is written back; the listener that this calls finds it written.\<close>

definition refreshBookNameFromCatalog :: "string \<Rightarrow> 'p shelf \<Rightarrow> 'p shelf" where
  "refreshBookNameFromCatalog docId s =
     (let v = (if suffix ''/catalog'' docId then take (length docId - 8) docId else docId) in
      case (find_book v (sh_books s), map_get (sh_catalogs s) docId) of
        (Some b, Some c) \<Rightarrow>
          if ct_name c \<noteq> [] \<and> ct_name c \<noteq> bk_name b then s\<lparr>sh_books := set_name v (ct_name c) (sh_books s)\<rparr>
          else if ct_name c = [] \<and> bk_name b \<noteq> take 8 v
          then rebuildBookIndex v (s\<lparr>sh_catalogs := map_set docId (c\<lparr>ct_name := bk_name b\<rparr>) (sh_catalogs s)\<rparr>)
          else s
      | _ \<Rightarrow> s)"

text \<open>The listener of an open catalog, and a change of it\<close>

definition catalog_listener :: "string \<Rightarrow> 'p shelf \<Rightarrow> 'p shelf" where
  "catalog_listener v s = rebuildBookIndex v (refreshBookNameFromCatalog (catalog_id v) s)"

definition shelf_change :: "string \<Rightarrow> (catalog \<Rightarrow> catalog) \<Rightarrow> 'p shelf \<Rightarrow> 'p shelf" where
  "shelf_change v f s =
     (case open_catalog v s of None \<Rightarrow> s | Some c \<Rightarrow> catalog_listener v (put_catalog v (f c) s))"

definition writeSelfToCatalog :: "string \<Rightarrow> 'p shelf \<Rightarrow> 'p shelf" where
  "writeSelfToCatalog v s =
     (case open_catalog v s of
        None \<Rightarrow> s
      | Some c \<Rightarrow>
          if sh_userId s = [] \<or> sh_username s = [] \<or> map_get (ct_members c) (sh_userId s) = Some (sh_username s) then s
          else shelf_change v (\<lambda>c. c\<lparr>ct_members := map_set (sh_userId s) (sh_username s) (ct_members c)\<rparr>) s)"

section \<open>Books\<close>

text \<open>\<open>switchBook\<close> without the recipe shown\<close>

definition show_book :: "string \<Rightarrow> 'p shelf \<Rightarrow> 'p shelf" where
  "show_book v s =
     (case find_book v (sh_books s) of
        None \<Rightarrow> s
      | Some b \<Rightarrow> if bk_encKey b = None then s else s\<lparr>sh_active := Some v, sh_listShown := False\<rparr>)"

definition first_book :: "'p shelf \<Rightarrow> 'p shelf" where
  "first_book s = (case sh_books s of b # _ \<Rightarrow> show_book (bk_vaultId b) s | [] \<Rightarrow> s\<lparr>sh_listShown := True\<rparr>)"

text \<open>Up to the opening of the catalog. The vault is pending in the database until the server has confirmed it.\<close>

definition create_begin :: "webcrypto \<Rightarrow> bytes \<Rightarrow> bytes \<Rightarrow> bytes \<Rightarrow> string \<Rightarrow> string \<Rightarrow> bool \<Rightarrow> 'p shelf \<Rightarrow> 'p shelf option" where
  "create_begin C raw iv ivCache vaultId name committed s =
     (case sh_identity s of
        None \<Rightarrow> None
      | Some (pubKey, privKey) \<Rightarrow>
          do { (bookKey, bookKeyRaw) \<leftarrow> generateBookKey raw;
               encryptedVaultKey \<leftarrow> encryptBookKeyForUser C iv privKey pubKey bookKeyRaw;
               (let evk = toBase64 encryptedVaultKey; spk = toBase64 pubKey in
                if \<not> committed then None
                else Some (s\<lparr>
                  sh_db := setPendingVault \<lparr>pv_vaultId = vaultId, pv_encryptedVaultKey = evk, pv_senderPublicKey = spk\<rparr> (sh_db s),
                  sh_client := map_option (\<lambda>c. if isOpen c then snd (createVault vaultId evk spk c) else c) (sh_client s),
                  sh_books := sh_books s @ [\<lparr>bk_vaultId = vaultId, bk_name = name, bk_role = ''owner'', bk_encKey = Some bookKey\<rparr>],
                  sh_cache := (case (sh_masterKey s, sh_cache s) of
                     (Some mk, Some cache) \<Rightarrow>
                       Some (cache\<lparr>lc_vaults := lc_vaults cache @ [\<lparr>vce_vaultId = vaultId, vce_name = name, vce_role = ''owner'',
                               vce_wrappedVaultKey = toBase64 (encrypt C ivCache bookKeyRaw mk)\<rparr>]\<rparr>)
                   | _ \<Rightarrow> sh_cache s)\<rparr>)) })"

definition create_opened :: "string \<Rightarrow> string \<Rightarrow> 'p shelf \<Rightarrow> 'p shelf" where
  "create_opened vaultId name s =
     (let c = (case open_catalog vaultId s of Some c \<Rightarrow> c
               | None \<Rightarrow> (case map_get (sh_stored s) (catalog_id vaultId) of Some c \<Rightarrow> c
                          | None \<Rightarrow> \<lparr>ct_name = name, ct_recipes = [], ct_members = [(sh_userId s, sh_username s)]\<rparr>))
      in shelf_subscribe (catalog_id vaultId) (shelf_tell (Push (catalog_id vaultId)) (put_catalog vaultId c s)))"

definition createBook :: "webcrypto \<Rightarrow> bytes \<Rightarrow> bytes \<Rightarrow> bytes \<Rightarrow> string \<Rightarrow> string \<Rightarrow> bool \<Rightarrow> 'p shelf \<Rightarrow> 'p shelf" where
  "createBook C raw iv ivCache vaultId name committed s =
     (case create_begin C raw iv ivCache vaultId name committed s of
        None \<Rightarrow> s
      | Some t \<Rightarrow> create_opened vaultId name t)"


definition rename_book :: "string \<Rightarrow> string \<Rightarrow> 'p shelf \<Rightarrow> 'p shelf" where
  "rename_book v n s =
     (if js_trim n = [] then s
      else let s1 = s\<lparr>sh_books := set_name v (js_trim n) (sh_books s)\<rparr>
           in if open_catalog v s1 = None then s1
              else shelf_tell (Push (catalog_id v)) (shelf_change v (\<lambda>c. c\<lparr>ct_name := js_trim n\<rparr>) s1))"

definition drop_from_shelf :: "string \<Rightarrow> 'p shelf \<Rightarrow> 'p shelf" where
  "drop_from_shelf v s =
     s\<lparr>sh_client := map_option (deleteVault v) (sh_client s), sh_index := removeBookFromIndex v (sh_index s),
       sh_books := filter (\<lambda>b. bk_vaultId b \<noteq> v) (sh_books s)\<rparr>"

definition delete_book :: "string \<Rightarrow> 'p shelf \<Rightarrow> 'p shelf" where
  "delete_book v s =
     (let s1 = drop_from_shelf v s
      in if sh_active s1 = Some v then first_book (s1\<lparr>sh_active := None\<rparr>) else s1)"


section \<open>The vault list\<close>

text \<open>A catalog is opened from the device, or empty; its name goes to the book, or the other way round. The loop works on the books it
  has captured: those of the list, or, when they are no longer there, what it holds of them.\<close>

definition load_catalog :: "book \<Rightarrow> 'p shelf \<Rightarrow> 'p shelf" where
  "load_catalog captured s =
     (let v = bk_vaultId captured;
          b = (case find_book v (sh_books s) of Some b \<Rightarrow> b | None \<Rightarrow> captured);
          c = (case open_catalog v s of Some c \<Rightarrow> c
               | None \<Rightarrow> (case map_get (sh_stored s) (catalog_id v) of Some c \<Rightarrow> c
                          | None \<Rightarrow> \<lparr>ct_name = [], ct_recipes = [], ct_members = []\<rparr>));
          s1 = shelf_subscribe (catalog_id v) (put_catalog v c s);
          b' = (if ct_name c \<noteq> [] \<and> ct_name c \<noteq> bk_name b \<and> ct_name c \<noteq> take 8 v then b\<lparr>bk_name := ct_name c\<rparr> else b);
          s2 = s1\<lparr>sh_books := set_name v (bk_name b') (sh_books s1)\<rparr>;
          s3 = (if ct_name c = [] \<and> ct_recipes c \<noteq> [] \<and> bk_name b' \<noteq> take 8 v
                then (if open_catalog v s = None then put_catalog v (c\<lparr>ct_name := bk_name b'\<rparr>) s2
                      else shelf_change v (\<lambda>c. c\<lparr>ct_name := bk_name b'\<rparr>) s2)
                else s2)
      in s3\<lparr>sh_index := index_all b' (ct_recipes c) (sh_index s3)\<rparr>)"

definition close_catalog :: "'p shelf \<Rightarrow> string \<Rightarrow> 'p shelf" where
  "close_catalog s v =
     (case open_catalog v s of
        None \<Rightarrow> s
      | Some c \<Rightarrow> s\<lparr>sh_catalogs := map_delete (catalog_id v) (sh_catalogs s), sh_stored := map_set (catalog_id v) c (sh_stored s)\<rparr>)"

text \<open>The listener of \<open>books-change\<close>\<close>

definition books_changed :: "'p shelf \<Rightarrow> 'p shelf" where
  "books_changed s =
     (case sh_active s of
        None \<Rightarrow> s
      | Some v \<Rightarrow> if find_book v (sh_books s) = None then s\<lparr>sh_active := None, sh_listShown := True\<rparr> else s)"

text \<open>The steps of \<open>onVaultList\<close>. The books that \<open>load_books\<close> puts in place of the old ones are those of \<open>Vaults.kept_books\<close>. A list that
  comes while another one is being loaded is left out.\<close>

definition load_clear :: "'p shelf \<Rightarrow> 'p shelf" where
  "load_clear s = (if sh_identity s = None then s else s\<lparr>sh_index := clearIndex (sh_index s), sh_loading := Keys_Load\<rparr>)"

definition load_books :: "book list \<Rightarrow> 'p shelf \<Rightarrow> 'p shelf" where
  "load_books newBooks s =
     (case sh_loading s of
        Keys_Load \<Rightarrow>
          (let gone = filter (\<lambda>v. v \<notin> bk_vaultId ` set newBooks) (map bk_vaultId (sh_books s));
               s1 = foldl (\<lambda>s v. close_catalog (shelf_unsubscribe (catalog_id v) s) v) s gone
           in s1\<lparr>sh_index := foldl (\<lambda>ix v. removeBookFromIndex v ix) (sh_index s1) gone, sh_books := newBooks, sh_loading := Books_Load newBooks\<rparr>)
      | _ \<Rightarrow> s)"

definition load_next :: "'p shelf \<Rightarrow> 'p shelf" where
  "load_next s = (case sh_loading s of Books_Load (b # bs) \<Rightarrow> (load_catalog b s)\<lparr>sh_loading := Books_Load bs\<rparr> | _ \<Rightarrow> s)"

definition load_end :: "'p shelf \<Rightarrow> 'p shelf" where
  "load_end s = (case sh_loading s of Books_Load [] \<Rightarrow> (books_changed s)\<lparr>sh_loading := No_Load\<rparr> | _ \<Rightarrow> s)"

text \<open>The whole, when nothing comes in between\<close>

definition load_vaults :: "book list \<Rightarrow> 'p shelf \<Rightarrow> 'p shelf" where
  "load_vaults newBooks s = load_end ((load_next ^^ length newBooks) (load_books newBooks (load_clear s)))"

section \<open>Imports and invitations\<close>

text \<open>What \<open>importRecipesIntoBook\<close> does to the catalog\<close>

definition import_entries :: "book \<Rightarrow> catalog_entry list \<Rightarrow> 'p shelf \<Rightarrow> 'p shelf" where
  "import_entries b es s =
     shelf_change (bk_vaultId b) (\<lambda>c. c\<lparr>ct_name := (if ct_name c = [] then bk_name b else ct_name c), ct_recipes := ct_recipes c @ es\<rparr>) s"

record archive_book =
  ab_name :: string
  ab_recipes :: "catalog_entry list"

text \<open>The random values of a new book: identifier, key, initialisation vectors\<close>

type_synonym book_seed = "string \<times> bytes \<times> bytes \<times> bytes"

definition import_book :: "webcrypto \<Rightarrow> string \<Rightarrow> 'p shelf \<Rightarrow> archive_book \<times> book_seed \<Rightarrow> 'p shelf" where
  "import_book C fileName s = (\<lambda>(ib, vaultId, raw, iv, ivCache).
     (let bookName = (if ab_name ib \<noteq> [] then ab_name ib
                      else if suffix ''.zip'' (js_lower fileName) then take (length fileName - 4) fileName else fileName);
          s1 = createBook C raw iv ivCache vaultId bookName True s
      in case find (\<lambda>b. bk_name b = bookName) (sh_books s1) of
           None \<Rightarrow> s1
         | Some newBook \<Rightarrow> import_entries newBook (ab_recipes ib) s1))"

definition handleZipImport :: "webcrypto \<Rightarrow> string \<Rightarrow> book option \<Rightarrow> (archive_book \<times> book_seed) list \<Rightarrow> 'p shelf \<Rightarrow> 'p shelf" where
  "handleZipImport C fileName targetBook importedBooks s =
     (case (importedBooks, targetBook) of
        ([(ib, seed)], Some b) \<Rightarrow> if ab_name ib = [] then import_entries b (ab_recipes ib) s else import_book C fileName s (ib, seed)
      | _ \<Rightarrow> foldl (import_book C fileName) s importedBooks)"

definition invite :: "webcrypto \<Rightarrow> bytes \<Rightarrow> book \<Rightarrow> string \<Rightarrow> string \<Rightarrow> string \<Rightarrow> 'p shelf \<Rightarrow> 'p shelf option" where
  "invite C iv b tu tuid tpk s =
     (case (sh_client s, sh_identity s, bk_encKey b, fromBase64 tpk) of
        (Some client, Some (pub, pk), Some encKey, Some tpb) \<Rightarrow>
          do { raw \<leftarrow> export_aes encKey;
               enc \<leftarrow> encryptBookKeyForUser C iv pk tpb raw;
               (let v = bk_vaultId b;
                    s1 = s\<lparr>sh_client := Some (inviteToVault v tuid (toBase64 enc) (toBase64 pub) (Some ''viewer'') client)\<rparr>;
                    s2 = (if open_catalog v s1 = None then s1
                          else shelf_tell (Push (catalog_id v)) (shelf_change v (\<lambda>c. c\<lparr>ct_members := map_set tuid tu (ct_members c)\<rparr>) s1))
                in Some (s2\<lparr>sh_client := map_option (listVaultMembers v) (sh_client s2)\<rparr>)) }
      | _ \<Rightarrow> None)"

section \<open>The index and the names follow the catalogs\<close>

definition entries_of :: "string \<Rightarrow> search_index \<Rightarrow> search_entry list" where
  "entries_of v ix = map snd (filter (\<lambda>(k, e). se_vaultId e = v) ix)"

text \<open>What the catalog of a book lists\<close>

definition listed :: "string \<Rightarrow> 'p shelf \<Rightarrow> search_entry list" where
  "listed v s =
     (case (find_book v (sh_books s), open_catalog v s) of
        (Some b, Some c) \<Rightarrow> map (index_entry b) (ct_recipes c)
      | _ \<Rightarrow> [])"

text \<open>The catalog of a book has its name. It may be called by the placeholder instead, and without a name while it lists nothing or the
  book has no better name than the placeholder.\<close>

definition named :: "string \<Rightarrow> 'p shelf \<Rightarrow> bool" where
  "named v s \<longleftrightarrow> (\<forall>b c. find_book v (sh_books s) = Some b \<longrightarrow> open_catalog v s = Some c \<longrightarrow>
     ct_name c = bk_name b \<or> ct_name c = take 8 v \<or> ct_name c = [] \<and> (ct_recipes c = [] \<or> bk_name b = take 8 v))"

definition good_catalog :: "catalog \<Rightarrow> bool" where
  "good_catalog c \<longleftrightarrow> distinct (map ce_id (ct_recipes c))"

definition base_ok :: "'p shelf \<Rightarrow> bool" where
  "base_ok s \<longleftrightarrow> distinct (map bk_vaultId (sh_books s)) \<and> (\<forall>b \<in> set (sh_books s). CHR ''/'' \<notin> set (bk_vaultId b)) \<and>
     (\<forall>k c. map_get (sh_catalogs s) k = Some c \<or> map_get (sh_stored s) k = Some c \<longrightarrow> good_catalog c) \<and> index_ok (sh_index s)"

text \<open>A book is in order; it is not in the index at all, or in it with all its recipes, perhaps under a former name\<close>

definition in_order :: "string \<Rightarrow> 'p shelf \<Rightarrow> bool" where
  "in_order w s \<longleftrightarrow> entries_of w (sh_index s) = listed w s \<and> named w s"

definition all_or_none :: "string \<Rightarrow> 'p shelf \<Rightarrow> bool" where
  "all_or_none w s \<longleftrightarrow> entries_of w (sh_index s) = [] \<or>
     (\<exists>former b c. find_book w (sh_books s) = Some b \<and> open_catalog w s = Some c \<and> bk_vaultId former = w \<and>
        entries_of w (sh_index s) = map (index_entry former) (ct_recipes c))"

text \<open>The books of \<open>D\<close> are in order; all books but one are as they should be\<close>

definition ok_on :: "string set \<Rightarrow> 'p shelf \<Rightarrow> bool" where
  "ok_on D s \<longleftrightarrow> base_ok s \<and> (\<forall>w. in_order w s \<or> w \<notin> D \<and> all_or_none w s)"

definition ok_but :: "string \<Rightarrow> string set \<Rightarrow> 'p shelf \<Rightarrow> bool" where
  "ok_but v D s \<longleftrightarrow> base_ok s \<and> (\<forall>w. w \<noteq> v \<longrightarrow> in_order w s \<or> w \<notin> D \<and> all_or_none w s) \<and>
     (find_book v (sh_books s) = None \<or> open_catalog v s = None \<longrightarrow> entries_of v (sh_index s) = [])"

lemma catalog_id_eq [simp]: "catalog_id v = catalog_id w \<longleftrightarrow> v = w"
  by (simp add: catalog_id_def)

lemma find_book_simps [simp]:
  "find_book w [] = None" "find_book w (b # bs) = (if bk_vaultId b = w then Some b else find_book w bs)"
  by (simp_all add: find_book_def)

lemma find_set_name: "find_book w (set_name v n bs) = (if w = v then map_option (\<lambda>b. b\<lparr>bk_name := n\<rparr>) (find_book v bs) else find_book w bs)"
  by (induction bs) (auto simp: find_book_def)

lemma ids_set_name [simp]: "map bk_vaultId (set_name v n bs) = map bk_vaultId bs"
  by (induction bs) auto

lemma slash_set_name: "(\<forall>b \<in> set (set_name v n bs). P (bk_vaultId b)) \<longleftrightarrow> (\<forall>b \<in> set bs. P (bk_vaultId b))"
  by (induction bs) auto

lemma open_put [simp]: "open_catalog w (put_catalog v c s) = (if w = v then Some c else open_catalog w s)"
  by (simp add: open_catalog_def put_catalog_def map_eqs)

lemma shelf_sels [simp]:
  "sh_books (put_catalog v c s) = sh_books s" "sh_index (put_catalog v c s) = sh_index s" "sh_stored (put_catalog v c s) = sh_stored s"
  "sh_books (shelf_tell x s) = sh_books s" "sh_index (shelf_tell x s) = sh_index s" "sh_catalogs (shelf_tell x s) = sh_catalogs s"
  "sh_stored (shelf_tell x s) = sh_stored s" "sh_client (shelf_tell x s) = sh_client s"
  "open_catalog v (s\<lparr>sh_books := bs\<rparr>) = open_catalog v s" "open_catalog v (s\<lparr>sh_index := ix\<rparr>) = open_catalog v s"
  "open_catalog v (shelf_tell x s) = open_catalog v s" "open_catalog v (s\<lparr>sh_loading := l\<rparr>) = open_catalog v s"
  "sh_loading (put_catalog v c s) = sh_loading s" "sh_loading (shelf_tell x s) = sh_loading s"
  by (simp_all add: put_catalog_def shelf_tell_def open_catalog_def)

lemma subscribe_sels [simp]:
  "sh_books (shelf_subscribe d s) = sh_books s" "sh_index (shelf_subscribe d s) = sh_index s" "sh_catalogs (shelf_subscribe d s) = sh_catalogs s"
  "sh_stored (shelf_subscribe d s) = sh_stored s" "sh_client (shelf_subscribe d s) = sh_client s" "sh_loading (shelf_subscribe d s) = sh_loading s"
  "sh_db (shelf_subscribe d s) = sh_db s" "sh_cache (shelf_subscribe d s) = sh_cache s" "open_catalog v (shelf_subscribe d s) = open_catalog v s"
  "sh_books (shelf_unsubscribe d s) = sh_books s" "sh_index (shelf_unsubscribe d s) = sh_index s" "sh_catalogs (shelf_unsubscribe d s) = sh_catalogs s"
  "sh_stored (shelf_unsubscribe d s) = sh_stored s" "sh_loading (shelf_unsubscribe d s) = sh_loading s"
  "open_catalog v (shelf_unsubscribe d s) = open_catalog v s"
  by (simp_all add: shelf_subscribe_def shelf_unsubscribe_def, simp_all add: shelf_tell_def)

lemma in_order_cong:
  assumes "entries_of w (sh_index t) = entries_of w (sh_index s)" "listed w t = listed w s" "named w t = named w s"
  shows "in_order w t = in_order w s"
  using assms by (simp add: in_order_def)

lemma all_or_none_cong:
  assumes "entries_of w (sh_index t) = entries_of w (sh_index s)" "open_catalog w t = open_catalog w s"
    and "find_book w (sh_books t) = None \<longleftrightarrow> find_book w (sh_books s) = None"
  shows "all_or_none w t = all_or_none w s"
  using assms unfolding all_or_none_def by (metis not_None_eq)

lemma closed_in_order:
  "find_book v (sh_books s) = None \<or> open_catalog v s = None \<Longrightarrow> in_order v s \<longleftrightarrow> entries_of v (sh_index s) = []"
  by (auto simp: in_order_def listed_def named_def split: option.split)

text \<open>Entries of the index\<close>

lemma entry_vault:
  assumes "index_ok ix" "(k, e) \<in> set ix" "CHR ''/'' \<notin> set v"
  shows "prefix (v @ ''/'') k \<longleftrightarrow> se_vaultId e = v"
proof -
  have "k = entry_key (se_vaultId e) (se_recipeId e)" "CHR ''/'' \<notin> set (se_vaultId e)" using assms(1,2) by (auto simp: index_ok_def)
  then show ?thesis using vault_prefix [OF assms(3)] by auto
qed

lemma entries_remove:
  assumes "index_ok ix" "CHR ''/'' \<notin> set v"
  shows "entries_of w (removeBookFromIndex v ix) = (if w = v then [] else entries_of w ix)"
proof -
  have "removeBookFromIndex v ix = filter (\<lambda>(k, e). se_vaultId e \<noteq> v) ix"
    unfolding removeBookFromIndex_def by (rule filter_cong [OF refl]) (use entry_vault [OF assms(1) _ assms(2)] in auto)
  then show ?thesis by (auto simp: entries_of_def filter_empty_conv intro!: arg_cong [where f = "map snd"] filter_cong)
qed

lemma entry_key_inj: "entry_key v i = entry_key v j \<longleftrightarrow> i = j"
  by (simp add: entry_key_def)

lemma map_set_absent: "k \<notin> fst ` set m \<Longrightarrow> map_set k v m = m @ [(k, v)]"
  by (induction m) (auto simp: map_set_def)

lemma map_set_present: "distinct (map fst m) \<Longrightarrow> (k, v) \<in> set m \<Longrightarrow> map_set k v m = m"
proof (induction m)
  case (Cons p m)
  then show ?case by (cases p) (force simp: map_set_def)
qed simp

lemma map_set_middle: "k \<notin> fst ` set A \<Longrightarrow> map_set k v (A @ (k, u) # B) = A @ (k, v) # B"
  by (induction A) (auto simp: map_set_def)

lemma index_all_appends:
  assumes "index_ok ix" "CHR ''/'' \<notin> set (bk_vaultId b)" "distinct (map ce_id es)"
    and "fst ` set ix \<inter> (entry_key (bk_vaultId b) \<circ> ce_id) ` set es = {}"
  shows "index_all b es ix = ix @ map (\<lambda>e. (entry_key (bk_vaultId b) (ce_id e), index_entry b e)) es \<and> index_ok (index_all b es ix)"
  using assms
proof (induction es arbitrary: ix)
  case (Cons e es)
  let ?k = "entry_key (bk_vaultId b) (ce_id e)"
  have i: "indexRecipe (index_entry b e) ix = ix @ [(?k, index_entry b e)]"
    using Cons.prems(4) by (simp add: indexRecipe_def index_entry_def map_set_absent)
  have ok: "index_ok (ix @ [(?k, index_entry b e)])"
    unfolding i [symmetric] using index_ok_steps(2) [OF Cons.prems(1), of "index_entry b e"] Cons.prems(2) by (simp add: index_entry_def)
  have "fst ` set (ix @ [(?k, index_entry b e)]) \<inter> (entry_key (bk_vaultId b) \<circ> ce_id) ` set es = {}"
    using Cons.prems(3,4) by (auto simp: entry_key_inj)
  note ih = Cons.IH [OF ok Cons.prems(2) _ this]
  have d: "distinct (map ce_id es)" using Cons.prems(3) by simp
  have st: "index_all b (e # es) ix = index_all b es (ix @ [(?k, index_entry b e)])" by (simp add: index_all_def i)
  show ?case
  proof (unfold st, intro conjI)
    show "index_all b es (ix @ [(?k, index_entry b e)]) = ix @ map (\<lambda>e. (entry_key (bk_vaultId b) (ce_id e), index_entry b e)) (e # es)"
      using ih [OF d, THEN conjunct1] by simp
    show "index_ok (index_all b es (ix @ [(?k, index_entry b e)]))" by (rule ih [OF d, THEN conjunct2])
  qed
qed (simp add: index_all_def)

lemma index_all_fresh:
  assumes "index_ok ix" "CHR ''/'' \<notin> set (bk_vaultId b)" "distinct (map ce_id es)" "entries_of (bk_vaultId b) ix = []"
  shows "index_ok (index_all b es ix)"
    "entries_of w (index_all b es ix) = (if w = bk_vaultId b then map (index_entry b) es else entries_of w ix)"
proof -
  have none: "se_vaultId e \<noteq> bk_vaultId b" if "(k, e) \<in> set ix" for k e
    using assms(4) that by (auto simp: entries_of_def filter_empty_conv)
  have "False" if "(entry_key (bk_vaultId b) i, e) \<in> set ix" for i e
    using entry_vault [OF assms(1) that assms(2)] none that by (simp add: entry_key_def)
  then have "fst ` set ix \<inter> (entry_key (bk_vaultId b) \<circ> ce_id) ` set es = {}" by fastforce
  note a = index_all_appends [OF assms(1-3) this]
  show "index_ok (index_all b es ix)" by (rule a [THEN conjunct2])
  have "filter (\<lambda>(k, e). se_vaultId e = w) (map (\<lambda>e. (entry_key (bk_vaultId b) (ce_id e), index_entry b e)) es) =
      (if w = bk_vaultId b then map (\<lambda>e. (entry_key (bk_vaultId b) (ce_id e), index_entry b e)) es else [])"
    by (induction es) (auto simp: index_entry_def)
  then show "entries_of w (index_all b es ix) = (if w = bk_vaultId b then map (index_entry b) es else entries_of w ix)"
    using a assms(4) by (simp add: entries_of_def comp_def)
qed

lemma index_all_again:
  assumes "index_ok ix" "entries_of (bk_vaultId b) ix = map (index_entry b) es"
  shows "index_all b es ix = ix"
proof -
  have "indexRecipe (index_entry b e) ix = ix" if "e \<in> set es" for e
  proof -
    have "index_entry b e \<in> set (entries_of (bk_vaultId b) ix)" using that assms(2) by simp
    then obtain k where "(k, index_entry b e) \<in> set ix" by (auto simp: entries_of_def)
    then show ?thesis using assms(1) by (fastforce simp: index_ok_def indexRecipe_def intro: map_set_present)
  qed
  then show ?thesis unfolding index_all_def by (induction es) auto
qed

text \<open>Names\<close>

lemma vault_of_catalog:
  "(if suffix ''/catalog'' (catalog_id v) then take (length (catalog_id v) - 8) (catalog_id v) else catalog_id v) = v"
  by (simp add: catalog_id_def suffix_def)

lemma refresh_cases:
  assumes "find_book v (sh_books s) = Some b" "open_catalog v s = Some c"
  shows "refreshBookNameFromCatalog (catalog_id v) s =
    (if ct_name c \<noteq> [] \<and> ct_name c \<noteq> bk_name b then s\<lparr>sh_books := set_name v (ct_name c) (sh_books s)\<rparr>
     else if ct_name c = [] \<and> bk_name b \<noteq> take 8 v then rebuildBookIndex v (put_catalog v (c\<lparr>ct_name := bk_name b\<rparr>) s)
     else s)"
  unfolding refreshBookNameFromCatalog_def Let_def vault_of_catalog assms(1) assms(2) [unfolded open_catalog_def]
    put_catalog_def prod.case option.case
  by (rule refl)

lemma listener_closed:
  "find_book v (sh_books s) = None \<or> open_catalog v s = None \<Longrightarrow> catalog_listener v s = s"
  unfolding catalog_listener_def refreshBookNameFromCatalog_def rebuildBookIndex_def Let_def vault_of_catalog open_catalog_def
  by (cases "find_book v (sh_books s)") simp_all

lemma rebuild_ok:
  assumes "ok_but v D s" "named v s"
  shows "ok_on (insert v D) (rebuildBookIndex v s)"
proof (cases "find_book v (sh_books s) = None \<or> open_catalog v s = None")
  case True
  then have "rebuildBookIndex v s = s" by (auto simp: rebuildBookIndex_def split: option.splits)
  moreover have "in_order v s" using True assms(1) by (simp add: closed_in_order ok_but_def)
  ultimately show ?thesis using assms(1) by (auto simp: ok_on_def ok_but_def)
next
  case False
  then obtain b c where bc: "find_book v (sh_books s) = Some b" "open_catalog v s = Some c" by auto
  have base: "base_ok s" using assms(1) by (simp add: ok_but_def)
  have v: "bk_vaultId b = v" "CHR ''/'' \<notin> set v" "good_catalog c" "index_ok (sh_index s)"
    using base find_book_id [OF bc(1)] bc(2) by (auto simp: base_ok_def open_catalog_def)
  let ?ix = "removeBookFromIndex v (sh_index s)"
  let ?new = "index_all b (ct_recipes c) ?ix"
  have f: "index_ok ?new" "entries_of w ?new = (if w = v then map (index_entry b) (ct_recipes c) else entries_of w (sh_index s))" for w
    using index_all_fresh [of ?ix b "ct_recipes c"] index_ok_steps(3) [OF v(4)] v entries_remove [OF v(4,2)]
    by (auto simp: good_catalog_def)
  have r: "rebuildBookIndex v s = s\<lparr>sh_index := ?new\<rparr>" using bc by (simp add: rebuildBookIndex_def)
  have l: "listed w (s\<lparr>sh_index := ?new\<rparr>) = listed w s" "named w (s\<lparr>sh_index := ?new\<rparr>) = named w s" for w
    by (simp_all add: listed_def named_def)
  have "listed v s = map (index_entry b) (ct_recipes c)" using bc by (simp add: listed_def)
  then have "in_order v (s\<lparr>sh_index := ?new\<rparr>)" using f(2) [of v] assms(2) l by (simp add: in_order_def)
  moreover have "in_order w (s\<lparr>sh_index := ?new\<rparr>) = in_order w s" "all_or_none w (s\<lparr>sh_index := ?new\<rparr>) = all_or_none w s" if "w \<noteq> v" for w
    by ((rule in_order_cong; simp add: f(2) that l), (rule all_or_none_cong; simp add: f(2) that))
  moreover have "base_ok (s\<lparr>sh_index := ?new\<rparr>)" using base f(1) by (simp add: base_ok_def)
  ultimately show ?thesis using assms(1) unfolding r ok_on_def ok_but_def by (metis insert_iff)
qed

lemma ok_but_named: "ok_on D s \<Longrightarrow> ok_but v D s"
  unfolding ok_on_def ok_but_def all_or_none_def using closed_in_order by (metis option.discI)

lemma ok_but_name:
  assumes "ok_but v D s" "find_book v (sh_books s) = Some b" "open_catalog v s = Some c"
  shows "ok_but v D (s\<lparr>sh_books := set_name v n (sh_books s)\<rparr>)" "ok_but v D (put_catalog v (c\<lparr>ct_name := n\<rparr>) s)"
proof -
  have base: "base_ok s" using assms(1) by (simp add: ok_but_def)
  have "in_order w (s\<lparr>sh_books := set_name v n (sh_books s)\<rparr>) = in_order w s" "in_order w (put_catalog v (c\<lparr>ct_name := n\<rparr>) s) = in_order w s"
    "all_or_none w (s\<lparr>sh_books := set_name v n (sh_books s)\<rparr>) = all_or_none w s"
    "all_or_none w (put_catalog v (c\<lparr>ct_name := n\<rparr>) s) = all_or_none w s"
    if "w \<noteq> v" for w
    using that by (simp_all add: in_order_def listed_def named_def find_set_name all_or_none_def)
  moreover have "base_ok (s\<lparr>sh_books := set_name v n (sh_books s)\<rparr>)"
    using base slash_set_name [of v n "sh_books s" "\<lambda>i. CHR ''/'' \<notin> set i"] by (simp add: base_ok_def)
  moreover have "base_ok (put_catalog v (c\<lparr>ct_name := n\<rparr>) s)"
    using base assms(3) by (auto simp: base_ok_def put_catalog_def map_eqs good_catalog_def open_catalog_def)
  ultimately show "ok_but v D (s\<lparr>sh_books := set_name v n (sh_books s)\<rparr>)" "ok_but v D (put_catalog v (c\<lparr>ct_name := n\<rparr>) s)"
    using assms by (auto simp: ok_but_def find_set_name)
qed

lemma listener_mends:
  assumes "ok_but v D s"
  shows "ok_on (insert v D) (catalog_listener v s)"
proof (cases "find_book v (sh_books s) = None \<or> open_catalog v s = None")
  case True
  then have "named v s" by (auto simp: named_def)
  then show ?thesis using listener_closed [OF True] rebuild_ok [OF assms] True
    by (auto simp: catalog_listener_def rebuildBookIndex_def split: option.splits)
next
  case False
  then obtain b c where bc: "find_book v (sh_books s) = Some b" "open_catalog v s = Some c" by auto
  consider "ct_name c \<noteq> [] \<and> ct_name c \<noteq> bk_name b" | "ct_name c = [] \<and> bk_name b \<noteq> take 8 v"
    | "ct_name c \<noteq> [] \<and> ct_name c = bk_name b \<or> ct_name c = [] \<and> bk_name b = take 8 v" by auto
  then show ?thesis
  proof cases
    case 1
    then have "refreshBookNameFromCatalog (catalog_id v) s = s\<lparr>sh_books := set_name v (ct_name c) (sh_books s)\<rparr>"
      using refresh_cases [OF bc] by simp
    then show ?thesis
      using rebuild_ok [OF ok_but_name(1) [OF assms bc, of "ct_name c"]] bc by (simp add: catalog_listener_def named_def find_set_name)
  next
    case 2
    then have r: "refreshBookNameFromCatalog (catalog_id v) s = rebuildBookIndex v (put_catalog v (c\<lparr>ct_name := bk_name b\<rparr>) s)"
      using refresh_cases [OF bc] by simp
    have "ok_on (insert v D) (rebuildBookIndex v (put_catalog v (c\<lparr>ct_name := bk_name b\<rparr>) s))"
      using rebuild_ok [OF ok_but_name(2) [OF assms bc, of "bk_name b"]] bc by (simp add: named_def)
    moreover from this have "named v (rebuildBookIndex v (put_catalog v (c\<lparr>ct_name := bk_name b\<rparr>) s))"
      by (auto simp: ok_on_def in_order_def)
    ultimately show ?thesis
      using rebuild_ok [of v "insert v D", OF ok_but_named] by (simp add: catalog_listener_def r)
  next
    case 3
    then have "refreshBookNameFromCatalog (catalog_id v) s = s" using refresh_cases [OF bc] by auto
    then show ?thesis using rebuild_ok [OF assms] bc 3 by (auto simp: catalog_listener_def named_def)
  qed
qed

lemma change_mends:
  assumes "ok_but v D s" "open_catalog v s = Some c" "good_catalog (f c)"
  shows "ok_on (insert v D) (shelf_change v f s)"
proof -
  have base: "base_ok s" using assms(1) by (simp add: ok_but_def)
  have "in_order w (put_catalog v (f c) s) = in_order w s" "all_or_none w (put_catalog v (f c) s) = all_or_none w s" if "w \<noteq> v" for w
    using that by (simp_all add: in_order_def listed_def named_def all_or_none_def)
  moreover have "base_ok (put_catalog v (f c) s)" using base assms(3) by (auto simp: base_ok_def put_catalog_def map_eqs)
  ultimately have "ok_but v D (put_catalog v (f c) s)" using assms(1,2) by (auto simp: ok_but_def)
  then show ?thesis using listener_mends assms(2) by (simp add: shelf_change_def)
qed

lemma rebuild_frame [simp]:
  "open_catalog w (rebuildBookIndex v s) = open_catalog w s" "sh_client (rebuildBookIndex v s) = sh_client s" "sh_books (rebuildBookIndex v s) = sh_books s"
  "sh_loading (rebuildBookIndex v s) = sh_loading s"
  by (simp_all add: rebuildBookIndex_def open_catalog_def split: option.split)

lemma listener_frame:
  "sh_client (catalog_listener v s) = sh_client s"
  "map_option ct_recipes (open_catalog w (catalog_listener v s)) = map_option ct_recipes (open_catalog w s)"
  "map_option ct_members (open_catalog w (catalog_listener v s)) = map_option ct_members (open_catalog w s)"
  "sh_loading (catalog_listener v s) = sh_loading s" "map bk_vaultId (sh_books (catalog_listener v s)) = map bk_vaultId (sh_books s)"
proof -
  let ?r = "refreshBookNameFromCatalog (catalog_id v) s"
  have "sh_client ?r = sh_client s \<and> sh_loading ?r = sh_loading s \<and> map bk_vaultId (sh_books ?r) = map bk_vaultId (sh_books s) \<and>
    map_option ct_recipes (open_catalog w ?r) = map_option ct_recipes (open_catalog w s) \<and>
    map_option ct_members (open_catalog w ?r) = map_option ct_members (open_catalog w s)"
  proof (cases "find_book v (sh_books s) = None \<or> open_catalog v s = None")
    case True
    then have "?r = s"
      unfolding refreshBookNameFromCatalog_def Let_def vault_of_catalog open_catalog_def by (cases "find_book v (sh_books s)") simp_all
    then show ?thesis by simp
  next
    case False
    then obtain b c where bc: "find_book v (sh_books s) = Some b" "open_catalog v s = Some c" by auto
    then show ?thesis unfolding refresh_cases [OF bc] by (simp add: put_catalog_def [of v _ s, THEN arg_cong [where f = sh_client]])
  qed
  then show "sh_client (catalog_listener v s) = sh_client s"
    "map_option ct_recipes (open_catalog w (catalog_listener v s)) = map_option ct_recipes (open_catalog w s)"
    "map_option ct_members (open_catalog w (catalog_listener v s)) = map_option ct_members (open_catalog w s)"
    "sh_loading (catalog_listener v s) = sh_loading s" "map bk_vaultId (sh_books (catalog_listener v s)) = map bk_vaultId (sh_books s)"
    by (simp_all add: catalog_listener_def)
qed

lemma change_frame:
  "sh_client (shelf_change v f s) = sh_client s"
  "map_option ct_recipes (open_catalog w (shelf_change v f s)) = map_option (ct_recipes \<circ> (if w = v then f else id)) (open_catalog w s)"
  "map_option ct_members (open_catalog w (shelf_change v f s)) = map_option (ct_members \<circ> (if w = v then f else id)) (open_catalog w s)"
  "sh_loading (shelf_change v f s) = sh_loading s" "map bk_vaultId (sh_books (shelf_change v f s)) = map bk_vaultId (sh_books s)"
proof -
  have p: "sh_client (put_catalog v c s) = sh_client s" for c by (simp add: put_catalog_def)
  show "sh_client (shelf_change v f s) = sh_client s"
    "map_option ct_recipes (open_catalog w (shelf_change v f s)) = map_option (ct_recipes \<circ> (if w = v then f else id)) (open_catalog w s)"
    "map_option ct_members (open_catalog w (shelf_change v f s)) = map_option (ct_members \<circ> (if w = v then f else id)) (open_catalog w s)"
    "sh_loading (shelf_change v f s) = sh_loading s" "map bk_vaultId (sh_books (shelf_change v f s)) = map bk_vaultId (sh_books s)"
    by (cases "open_catalog v s"; simp add: shelf_change_def listener_frame p del: map_option_eq_Some)+
qed

section \<open>Runs\<close>



text \<open>The books that a list being loaded has not reached\<close>

definition waiting :: "'p shelf \<Rightarrow> string set" where
  "waiting s = (case sh_loading s of No_Load \<Rightarrow> {} | Keys_Load \<Rightarrow> UNIV | Books_Load bs \<Rightarrow> bk_vaultId ` set bs)"



text \<open>The search index holds what the open catalogs list, book by book and in their order, and nothing else; the names agree.\<close>

abbreviation shelf_ok :: "'p shelf \<Rightarrow> bool" where
  "shelf_ok \<equiv> ok_on UNIV"

text \<open>While a list is being loaded, the books that it has not reached may be missing in the index; all of them are books of the list.\<close>

definition shelf_inv :: "'p shelf \<Rightarrow> bool" where
  "shelf_inv s \<longleftrightarrow> ok_on (- waiting s) s \<and>
     (case sh_loading s of Books_Load bs \<Rightarrow> distinct (map bk_vaultId bs) \<and> bk_vaultId ` set bs \<subseteq> bk_vaultId ` set (sh_books s) | _ \<Rightarrow> True)"

lemma ok_frame:
  assumes "sh_books t = sh_books s" "sh_catalogs t = sh_catalogs s" "sh_stored t = sh_stored s" "sh_index t = sh_index s"
  shows "ok_on D t \<longleftrightarrow> ok_on D s"
proof -
  have "in_order w t = in_order w s" "all_or_none w t = all_or_none w s" for w
    using assms by (simp_all add: in_order_def all_or_none_def listed_def named_def open_catalog_def)
  then show ?thesis using assms by (simp add: ok_on_def base_ok_def)
qed

lemma ok_weaken: "ok_on D s \<Longrightarrow> E \<subseteq> D \<Longrightarrow> ok_on E s"
  by (auto simp: ok_on_def)


lemma show_frame [simp]: "ok_on D (show_book v s) \<longleftrightarrow> ok_on D s" "ok_on D (first_book s) \<longleftrightarrow> ok_on D s"
proof -
  show 1: "ok_on D (show_book v s) \<longleftrightarrow> ok_on D s" for v s by (rule ok_frame) (simp_all add: show_book_def split: option.split)
  have "ok_on D (s\<lparr>sh_listShown := True\<rparr>) \<longleftrightarrow> ok_on D s" by (rule ok_frame) simp_all
  then show "ok_on D (first_book s) \<longleftrightarrow> ok_on D s" by (cases "sh_books s") (simp_all add: first_book_def 1)
qed

lemma tell_frame [simp]:
  "ok_on D (shelf_tell x s) \<longleftrightarrow> ok_on D s" "ok_on D (shelf_subscribe d s) \<longleftrightarrow> ok_on D s" "ok_on D (s\<lparr>sh_loading := l\<rparr>) \<longleftrightarrow> ok_on D s"
  by (rule ok_frame; simp add: shelf_tell_def)+

lemma create_effect:
  assumes "create_begin C raw iv ivCache v name committed s = Some t"
  shows "\<exists>key. sh_books t = sh_books s @ [\<lparr>bk_vaultId = v, bk_name = name, bk_role = ''owner'', bk_encKey = Some key\<rparr>]"
    "sh_catalogs t = sh_catalogs s" "sh_stored t = sh_stored s" "sh_index t = sh_index s" "sh_loading t = sh_loading s"
  using assms by (auto simp: create_begin_def Let_def bind_eq_Some_conv split: option.splits if_splits prod.splits)

lemma find_book_append: "find_book w (bs @ cs) = (case find_book w bs of Some b \<Rightarrow> Some b | None \<Rightarrow> find_book w cs)"
  by (induction bs) (auto simp: find_book_def)

lemma find_book_None: "find_book v bs = None \<longleftrightarrow> v \<notin> bk_vaultId ` set bs"
  by (induction bs) (auto simp: find_book_def)





lemma drop_ok:
  assumes "ok_on D s" "CHR ''/'' \<notin> set v"
  shows "ok_on D (drop_from_shelf v s)"
proof -
  have find: "find_book w (filter (\<lambda>b. bk_vaultId b \<noteq> v) bs) = (if w = v then None else find_book w bs)" for w bs
    by (induction bs) (auto simp: find_book_def)
  have o: "open_catalog w (drop_from_shelf v s) = open_catalog w s" for w by (simp add: open_catalog_def drop_from_shelf_def)
  have e: "entries_of w (sh_index (drop_from_shelf v s)) = (if w = v then [] else entries_of w (sh_index s))" for w
    using assms entries_remove by (simp add: drop_from_shelf_def ok_on_def base_ok_def)
  have f: "find_book w (sh_books (drop_from_shelf v s)) = (if w = v then None else find_book w (sh_books s))" for w
    by (simp add: drop_from_shelf_def find)
  then have "in_order w (drop_from_shelf v s) \<longleftrightarrow> w = v \<or> in_order w s" for w
    using e [of w] by (simp add: in_order_def listed_def named_def o)
  moreover have "w \<noteq> v \<Longrightarrow> all_or_none w (drop_from_shelf v s) = all_or_none w s" for w
    using e [of w] f [of w] by (intro all_or_none_cong) (simp_all add: o)
  moreover have "base_ok (drop_from_shelf v s)"
    using assms(1) by (auto simp: ok_on_def base_ok_def drop_from_shelf_def distinct_map_filter index_ok_steps)
  ultimately show ?thesis using assms(1) e by (auto simp: ok_on_def)
qed

lemma active_frame [simp]: "ok_on D (s\<lparr>sh_active := a\<rparr>) \<longleftrightarrow> ok_on D s"
  by (rule ok_frame) simp_all

lemma delete_ok: "ok_on D s \<Longrightarrow> CHR ''/'' \<notin> set v \<Longrightarrow> ok_on D (delete_book v s)"
  by (simp add: delete_book_def Let_def drop_ok)




text \<open>Loading the catalogs of a vault list: book after book comes in order.\<close>

lemma index_frame:
  assumes "base_ok s" "in_order v s" "find_book v (sh_books s) = Some b" "open_catalog v s = Some c" "es = ct_recipes c"
  shows "s\<lparr>sh_index := index_all b es (sh_index s)\<rparr> = s"
proof -
  have "entries_of (bk_vaultId b) (sh_index s) = map (index_entry b) es"
    using assms find_book_id [OF assms(3)] by (simp add: in_order_def listed_def)
  then show ?thesis using index_all_again assms(1) by (simp add: base_ok_def)
qed

text \<open>Recipes that are in the index are replaced where they stand.\<close>

lemma entries_Cons: "entries_of v ((k, e) # ix) = (if se_vaultId e = v then e # entries_of v ix else entries_of v ix)"
  by (simp add: entries_of_def)

lemma entries_split:
  "entries_of v ix = xs @ x # ys \<Longrightarrow> \<exists>A k B. ix = A @ (k, x) # B \<and> entries_of v A = xs \<and> entries_of v B = ys \<and> se_vaultId x = v"
proof (induction ix arbitrary: xs)
  case Nil
  then show ?case by (simp add: entries_of_def)
next
  case (Cons p ix)
  obtain k e where p: "p = (k, e)" by force
  show ?case
  proof (cases "se_vaultId e = v \<and> xs = []")
    case True
    then have "e = x" "entries_of v ix = ys" using Cons.prems by (simp_all add: p entries_Cons)
    then have "p # ix = [] @ (k, x) # ix \<and> entries_of v [] = xs \<and> entries_of v ix = ys \<and> se_vaultId x = v"
      using True by (simp add: p entries_of_def)
    then show ?thesis by blast
  next
    case False
    then have "entries_of v ix = (if se_vaultId e = v then tl xs else xs) @ x # ys"
      and tl: "se_vaultId e = v \<Longrightarrow> xs = e # tl xs"
      using Cons.prems by (cases xs; simp add: p entries_Cons split: if_splits)+
    from Cons.IH [OF this(1)] obtain A k' B where "ix = A @ (k', x) # B" "entries_of v A = (if se_vaultId e = v then tl xs else xs)"
      "entries_of v B = ys" "se_vaultId x = v" by blast
    then have "p # ix = (p # A) @ (k', x) # B \<and> entries_of v (p # A) = xs \<and> entries_of v B = ys \<and> se_vaultId x = v"
      using tl by (simp add: p entries_Cons)
    then show ?thesis by blast
  qed
qed

lemma index_one_over:
  assumes "index_ok ix" "CHR ''/'' \<notin> set (bk_vaultId b)" "entries_of (bk_vaultId b) ix = xs @ x # ys" "se_recipeId x = ce_id e"
  shows "index_ok (indexRecipe (index_entry b e) ix)"
    "entries_of w (indexRecipe (index_entry b e) ix) = (if w = bk_vaultId b then xs @ index_entry b e # ys else entries_of w ix)"
proof -
  let ?v = "bk_vaultId b" and ?k = "entry_key (bk_vaultId b) (ce_id e)"
  show "index_ok (indexRecipe (index_entry b e) ix)"
    using index_ok_steps(2) [OF assms(1), of "index_entry b e"] assms(2) by (simp add: index_entry_def)
  obtain A k B where ix: "ix = A @ (k, x) # B" and A: "entries_of ?v A = xs" and B: "entries_of ?v B = ys" and x: "se_vaultId x = ?v"
    using entries_split [OF assms(3)] by blast
  have k: "k = ?k" using assms(1,4) x by (auto simp: ix index_ok_def)
  have "distinct (map fst ix)" using assms(1) by (auto simp: index_ok_def)
  then have "map_set ?k (index_entry b e) ix = A @ (?k, index_entry b e) # B"
    by (simp add: ix k map_set_middle)
  then have "indexRecipe (index_entry b e) ix = A @ (?k, index_entry b e) # B" by (simp add: indexRecipe_def index_entry_def)
  then show "entries_of w (indexRecipe (index_entry b e) ix) = (if w = bk_vaultId b then xs @ index_entry b e # ys else entries_of w ix)"
    using A B x by (auto simp: entries_of_def ix index_entry_def)
qed

lemma index_all_over:
  assumes "index_ok ix" "CHR ''/'' \<notin> set (bk_vaultId b)" "entries_of (bk_vaultId b) ix = xs @ map (index_entry former) es"
  shows "index_ok (index_all b es ix) \<and>
    (\<forall>w. entries_of w (index_all b es ix) = (if w = bk_vaultId b then xs @ map (index_entry b) es else entries_of w ix))"
  using assms
proof (induction es arbitrary: ix xs)
  case (Cons e es)
  note o = index_one_over [OF Cons.prems(1,2), of xs "index_entry former e" "map (index_entry former) es" e]
  let ?ix = "indexRecipe (index_entry b e) ix"
  have a: "index_all b (e # es) ix = index_all b es ?ix" by (simp add: index_all_def)
  have "index_ok ?ix" "entries_of (bk_vaultId b) ?ix = (xs @ [index_entry b e]) @ map (index_entry former) es"
    using o Cons.prems(3) by (simp_all add: index_entry_def)
  note ih = Cons.IH [OF this(1) Cons.prems(2) this(2)]
  show ?case unfolding a using ih o(2) Cons.prems(3) by (auto simp: index_entry_def)
qed (simp add: index_all_def)

lemma index_new:
  assumes "ok_but v D s" "entries_of v (sh_index s) = [] \<or> (\<exists>former. bk_vaultId former = v \<and> entries_of v (sh_index s) = map (index_entry former) es)"
    and "find_book v (sh_books s) = Some b" "open_catalog v s = Some c" "named v s" "es = ct_recipes c"
  shows "ok_on (insert v D) (s\<lparr>sh_index := index_all b es (sh_index s)\<rparr>)"
proof -
  have base: "base_ok s" using assms(1) by (simp add: ok_but_def)
  have v: "bk_vaultId b = v" "CHR ''/'' \<notin> set v" "good_catalog c" "index_ok (sh_index s)"
    using base find_book_id [OF assms(3)] assms(4) by (auto simp: base_ok_def open_catalog_def)
  let ?new = "index_all b es (sh_index s)"
  have f: "index_ok ?new \<and> (\<forall>w. entries_of w ?new = (if w = v then map (index_entry b) es else entries_of w (sh_index s)))"
    using assms(2)
  proof
    assume "entries_of v (sh_index s) = []"
    then show ?thesis using index_all_fresh [of "sh_index s" b es] v assms(6) by (auto simp: good_catalog_def)
  next
    assume "\<exists>former. bk_vaultId former = v \<and> entries_of v (sh_index s) = map (index_entry former) es"
    then obtain former where "bk_vaultId former = v" "entries_of v (sh_index s) = map (index_entry former) es" by blast
    then show ?thesis using index_all_over [of "sh_index s" b "[]" former es] v by simp
  qed
  have l: "listed w (s\<lparr>sh_index := ?new\<rparr>) = listed w s" "named w (s\<lparr>sh_index := ?new\<rparr>) = named w s" for w
    by (simp_all add: listed_def named_def)
  have "listed v s = map (index_entry b) es" using assms(3,4,6) by (simp add: listed_def)
  then have "in_order v (s\<lparr>sh_index := ?new\<rparr>)" using f assms(5) l by (simp add: in_order_def)
  moreover have "in_order w (s\<lparr>sh_index := ?new\<rparr>) = in_order w s" "all_or_none w (s\<lparr>sh_index := ?new\<rparr>) = all_or_none w s" if "w \<noteq> v" for w
    by ((rule in_order_cong; simp add: f that l), (rule all_or_none_cong; simp add: f that))
  moreover have "base_ok (s\<lparr>sh_index := ?new\<rparr>)" using base f by (simp add: base_ok_def)
  ultimately show ?thesis using assms(1) unfolding ok_on_def ok_but_def by (metis insert_iff)
qed

text \<open>The parts of \<open>load_catalog\<close>\<close>

definition loaded_catalog :: "string \<Rightarrow> 'p shelf \<Rightarrow> catalog" where
  "loaded_catalog v s = (case open_catalog v s of Some c \<Rightarrow> c
     | None \<Rightarrow> (case map_get (sh_stored s) (catalog_id v) of Some c \<Rightarrow> c | None \<Rightarrow> \<lparr>ct_name = [], ct_recipes = [], ct_members = []\<rparr>))"

definition loaded_book :: "book \<Rightarrow> 'p shelf \<Rightarrow> book" where
  "loaded_book captured s =
     (let v = bk_vaultId captured; b = (case find_book v (sh_books s) of Some b \<Rightarrow> b | None \<Rightarrow> captured); c = loaded_catalog v s
      in if ct_name c \<noteq> [] \<and> ct_name c \<noteq> bk_name b \<and> ct_name c \<noteq> take 8 v then b\<lparr>bk_name := ct_name c\<rparr> else b)"

definition loaded_named :: "book \<Rightarrow> 'p shelf \<Rightarrow> 'p shelf" where
  "loaded_named captured s =
     (let v = bk_vaultId captured; s1 = shelf_subscribe (catalog_id v) (put_catalog v (loaded_catalog v s) s)
      in s1\<lparr>sh_books := set_name v (bk_name (loaded_book captured s)) (sh_books s1)\<rparr>)"

lemma load_catalog_parts:
  "load_catalog captured s =
    (let v = bk_vaultId captured; b = loaded_book captured s; c = loaded_catalog v s; s2 = loaded_named captured s;
         s3 = (if ct_name c = [] \<and> ct_recipes c \<noteq> [] \<and> bk_name b \<noteq> take 8 v
               then (if open_catalog v s = None then put_catalog v (c\<lparr>ct_name := bk_name b\<rparr>) s2
                     else shelf_change v (\<lambda>c. c\<lparr>ct_name := bk_name b\<rparr>) s2)
               else s2)
     in s3\<lparr>sh_index := index_all b (ct_recipes c) (sh_index s3)\<rparr>)"
  unfolding load_catalog_def loaded_named_def loaded_book_def loaded_catalog_def Let_def by (rule refl)

lemma loaded_named_frame:
  "sh_index (loaded_named captured s) = sh_index s" "sh_loading (loaded_named captured s) = sh_loading s"
  "map bk_vaultId (sh_books (loaded_named captured s)) = map bk_vaultId (sh_books s)"
  "open_catalog w (loaded_named captured s) = (if w = bk_vaultId captured then Some (loaded_catalog w s) else open_catalog w s)"
  by (simp_all add: loaded_named_def Let_def)

lemma load_catalog_frame:
  "sh_loading (load_catalog captured s) = sh_loading s" "map bk_vaultId (sh_books (load_catalog captured s)) = map bk_vaultId (sh_books s)"
  "map_option ct_recipes (open_catalog w (load_catalog captured s)) =
     (if w = bk_vaultId captured then Some (ct_recipes (loaded_catalog w s)) else map_option ct_recipes (open_catalog w s))"
  unfolding load_catalog_parts Let_def
  by (simp_all add: change_frame loaded_named_frame comp_def del: map_option_eq_Some)

lemma ok_entries:
  assumes "ok_on D s"
  shows "entries_of v (sh_index s) = [] \<or> (\<exists>former c. find_book v (sh_books s) \<noteq> None \<and> open_catalog v s = Some c \<and> bk_vaultId former = v \<and>
    entries_of v (sh_index s) = map (index_entry former) (ct_recipes c))"
proof (cases "all_or_none v s")
  case True
  then show ?thesis unfolding all_or_none_def by auto
next
  case False
  then have e: "entries_of v (sh_index s) = listed v s" using assms by (auto simp: ok_on_def in_order_def)
  show ?thesis
  proof (cases "find_book v (sh_books s) = None \<or> open_catalog v s = None")
    case True
    then show ?thesis using e by (auto simp: listed_def split: option.split)
  next
    case False
    then obtain b c where bc: "find_book v (sh_books s) = Some b" "open_catalog v s = Some c" by auto
    then have "entries_of v (sh_index s) = map (index_entry b) (ct_recipes c)" using e by (simp add: listed_def)
    then show ?thesis using bc find_book_id [OF bc(1)] by blast
  qed
qed

lemma load_one:
  assumes "ok_on D s" "find_book v (sh_books s) = Some b" "bk_vaultId captured = v"
  shows "ok_on (insert v D) (load_catalog captured s)"
proof -
  let ?c = "loaded_catalog v s" and ?b = "loaded_book captured s"
  define s1 where "s1 = shelf_subscribe (catalog_id v) (put_catalog v ?c s)"
  define s2 where "s2 = loaded_named captured s"
  have s2: "s2 = s1\<lparr>sh_books := set_name v (bk_name ?b) (sh_books s1)\<rparr>"
    unfolding s2_def loaded_named_def s1_def Let_def assms(3) by (rule refl)
  note load = load_catalog_parts [of captured s, folded s2_def, unfolded assms(3) Let_def]
  have good: "good_catalog ?c"
    using assms(1) by (auto simp: loaded_catalog_def ok_on_def base_ok_def open_catalog_def good_catalog_def split: option.split)
  have w: "in_order w s1 = in_order w s" if "w \<noteq> v" for w
    using that by (simp add: s1_def in_order_def listed_def named_def)
  have "base_ok s1" using assms(1) good
    by (auto simp: ok_on_def base_ok_def s1_def put_catalog_def shelf_subscribe_def shelf_tell_def map_eqs)
  moreover have "all_or_none w s1 = all_or_none w s" if "w \<noteq> v" for w using that by (simp add: s1_def all_or_none_def)
  ultimately have "ok_but v D s1" using assms(1,2) w by (auto simp: ok_on_def ok_but_def s1_def)
  then have but: "ok_but v D s2" using ok_but_name(1) [of v D s1 b ?c] assms(2) by (simp add: s2 s1_def)
  have f2: "find_book v (sh_books s2) = Some ?b" "open_catalog v s2 = Some ?c" "entries_of v (sh_index s2) = entries_of v (sh_index s)"
    using assms by (simp_all add: s2 s1_def find_set_name loaded_book_def Let_def)
  have e2: "entries_of v (sh_index s2) = [] \<or> (\<exists>former. bk_vaultId former = v \<and> entries_of v (sh_index s2) = map (index_entry former) (ct_recipes ?c))"
    using ok_entries [OF assms(1), of v] by (auto simp: f2(3) loaded_catalog_def)
  have n2: "named v s2" if "\<not> (ct_name ?c = [] \<and> ct_recipes ?c \<noteq> [] \<and> bk_name ?b \<noteq> take 8 v)"
    using f2 that assms(2,3) by (auto simp: named_def loaded_book_def Let_def)
  consider (plain) "\<not> (ct_name ?c = [] \<and> ct_recipes ?c \<noteq> [] \<and> bk_name ?b \<noteq> take 8 v)"
    | (fresh) "ct_name ?c = [] \<and> ct_recipes ?c \<noteq> [] \<and> bk_name ?b \<noteq> take 8 v" "open_catalog v s = None"
    | (opened) "ct_name ?c = [] \<and> ct_recipes ?c \<noteq> [] \<and> bk_name ?b \<noteq> take 8 v" "open_catalog v s \<noteq> None" by blast
  then show ?thesis
  proof cases
    case plain
    show ?thesis unfolding load if_not_P [OF plain] by (rule index_new [OF but e2 f2(1,2) n2 [OF plain] refl])
  next
    case fresh
    let ?s3 = "put_catalog v (?c\<lparr>ct_name := bk_name ?b\<rparr>) s2"
    let ?c' = "?c\<lparr>ct_name := bk_name ?b\<rparr>"
    have o3: "open_catalog v ?s3 = Some ?c'" "find_book v (sh_books ?s3) = Some ?b" using f2 by simp_all
    then have "named v ?s3" by (simp add: named_def)
    then have "ok_on (insert v D) (?s3\<lparr>sh_index := index_all ?b (ct_recipes ?c) (sh_index ?s3)\<rparr>)"
      using e2 by (intro index_new [OF ok_but_name(2) [OF but f2(1,2), of "bk_name ?b"] _ o3(2,1)]) simp_all
    then show ?thesis unfolding load if_P [OF fresh(1)] if_P [OF fresh(2)] .
  next
    case opened
    let ?s3 = "shelf_change v (\<lambda>c. c\<lparr>ct_name := bk_name ?b\<rparr>) s2"
    have ok: "ok_on (insert v D) ?s3" using change_mends [OF but f2(2)] good by (simp add: good_catalog_def)
    let ?p = "put_catalog v (?c\<lparr>ct_name := bk_name ?b\<rparr>) s2"
    have r: "refreshBookNameFromCatalog (catalog_id v) ?p =
        (if bk_name ?b = [] then rebuildBookIndex v (put_catalog v (?c\<lparr>ct_name := bk_name ?b\<rparr>) ?p) else ?p)"
      using refresh_cases [of v ?p ?b "?c\<lparr>ct_name := bk_name ?b\<rparr>"] f2(1) opened by auto
    have f3: "find_book v (sh_books ?s3) = Some ?b" "open_catalog v ?s3 = Some (?c\<lparr>ct_name := bk_name ?b\<rparr>)"
      using f2 by (simp_all add: shelf_change_def catalog_listener_def r)
    have "base_ok ?s3" "in_order v ?s3" using ok by (auto simp: ok_on_def)
    then have "?s3\<lparr>sh_index := index_all ?b (ct_recipes ?c) (sh_index ?s3)\<rparr> = ?s3"
      by (rule index_frame [OF _ _ f3]) simp
    then show ?thesis using ok unfolding load if_P [OF opened(1)] if_not_P [OF opened(2)] by simp
  qed
qed

lemma close_frame:
  "sh_books (close_catalog s v) = sh_books s" "sh_index (close_catalog s v) = sh_index s" "sh_loading (close_catalog s v) = sh_loading s"
  "w \<noteq> v \<Longrightarrow> open_catalog w (close_catalog s v) = open_catalog w s"
  "map_get (sh_catalogs (close_catalog s v)) k = Some c \<or> map_get (sh_stored (close_catalog s v)) k = Some c \<Longrightarrow>
     map_get (sh_catalogs s) k = Some c \<or> map_get (sh_stored s) k = Some c"
  by (auto simp: close_catalog_def open_catalog_def map_eqs split: option.splits if_splits)

abbreviation close_all :: "string list \<Rightarrow> 'p shelf \<Rightarrow> 'p shelf" where
  "close_all vs s \<equiv> foldl (\<lambda>s v. close_catalog (shelf_unsubscribe (catalog_id v) s) v) s vs"

lemma close_all_frame:
  "sh_books (close_all vs s) = sh_books s" "sh_index (close_all vs s) = sh_index s" "sh_loading (close_all vs s) = sh_loading s"
  "w \<notin> set vs \<Longrightarrow> open_catalog w (close_all vs s) = open_catalog w s"
  by (induction vs arbitrary: s) (simp_all add: close_frame)

lemma close_all_catalogs:
  "map_get (sh_catalogs (close_all vs s)) k = Some c \<or> map_get (sh_stored (close_all vs s)) k = Some c \<Longrightarrow>
     map_get (sh_catalogs s) k = Some c \<or> map_get (sh_stored s) k = Some c"
proof (induction vs arbitrary: s)
  case (Cons v vs)
  then show ?case using close_frame(5) [of "shelf_unsubscribe (catalog_id v) s" v k c] by fastforce
qed simp

lemma remove_all:
  assumes "index_ok ix" "\<forall>v \<in> set vs. CHR ''/'' \<notin> set v"
  shows "index_ok (foldl (\<lambda>ix v. removeBookFromIndex v ix) ix vs) \<and>
    entries_of w (foldl (\<lambda>ix v. removeBookFromIndex v ix) ix vs) = (if w \<in> set vs then [] else entries_of w ix)"
  using assms
proof (induction vs arbitrary: ix)
  case (Cons v vs)
  then have v: "index_ok ix" "CHR ''/'' \<notin> set v" "\<forall>v \<in> set vs. CHR ''/'' \<notin> set v" by simp_all
  show ?case using Cons.IH [OF index_ok_steps(3) [OF v(1)] v(3)] entries_remove [OF v(1,2)] by simp
qed simp

lemma load_books_ok:
  assumes "ok_on {} s" "distinct (map bk_vaultId bs)" "list_all (\<lambda>b. CHR ''/'' \<notin> set (bk_vaultId b)) bs" "sh_loading s = Keys_Load"
  shows "ok_on (- bk_vaultId ` set bs) (load_books bs s)"
proof -
  define gone where "gone = filter (\<lambda>v. v \<notin> bk_vaultId ` set bs) (map bk_vaultId (sh_books s))"
  let ?t = "load_books bs s"
  have t: "?t = (close_all gone s)\<lparr>sh_index := foldl (\<lambda>ix v. removeBookFromIndex v ix) (sh_index s) gone, sh_books := bs, sh_loading := Books_Load bs\<rparr>"
    by (simp add: load_books_def assms(4) Let_def gone_def close_all_frame)
  have base: "base_ok s" using assms(1) by (simp add: ok_on_def)
  then have g: "index_ok (sh_index s)" "\<forall>v \<in> set gone. CHR ''/'' \<notin> set v" by (auto simp: base_ok_def gone_def)
  have e: "entries_of w (sh_index ?t) = (if w \<in> set gone then [] else entries_of w (sh_index s))" for w
    using remove_all [OF g, of w] by (simp add: t)
  have "good_catalog c" if "map_get (sh_catalogs (close_all gone s)) k = Some c \<or> map_get (sh_stored (close_all gone s)) k = Some c" for k c
    using close_all_catalogs [OF that] base by (auto simp: base_ok_def)
  then have b: "base_ok ?t" using assms(2,3) remove_all [OF g] by (auto simp: base_ok_def t list_all_iff)
  have m: "all_or_none w ?t" if "w \<in> bk_vaultId ` set bs" for w
  proof -
    have ng: "w \<notin> set gone" using that by (simp add: gone_def)
    have o: "open_catalog w ?t = open_catalog w s" using close_all_frame(4) [OF ng, of s] by (simp add: t open_catalog_def)
    have f: "find_book w (sh_books ?t) \<noteq> None" using that by (simp add: t find_book_None)
    show ?thesis using ok_entries [OF assms(1), of w] o f e [of w] ng unfolding all_or_none_def by auto
  qed
  have n: "in_order w ?t" if "w \<notin> bk_vaultId ` set bs" for w
  proof -
    have "find_book w (sh_books ?t) = None" using that by (simp add: t find_book_None)
    moreover have "entries_of w (sh_index s) = []" if "find_book w (sh_books s) = None"
      using ok_entries [OF assms(1), of w] that by auto
    then have "entries_of w (sh_index ?t) = []" using that by (auto simp: e gone_def find_book_None)
    ultimately show ?thesis by (simp add: closed_in_order)
  qed
  show ?thesis using b m n unfolding ok_on_def by blast
qed

lemma books_changed_frame [simp]:
  "ok_on D (books_changed s) \<longleftrightarrow> ok_on D s" "sh_books (books_changed s) = sh_books s" "open_catalog v (books_changed s) = open_catalog v s"
  "sh_index (books_changed s) = sh_index s"
proof -
  show "ok_on D (books_changed s) \<longleftrightarrow> ok_on D s" by (rule ok_frame) (simp_all add: books_changed_def split: option.split)
qed (simp_all add: books_changed_def open_catalog_def split: option.split)

lemma load_inv:
  assumes "shelf_inv s"
  shows "sh_loading s = No_Load \<Longrightarrow> shelf_inv (load_clear s)" "shelf_inv (load_next s)" "shelf_inv (load_end s)"
    "distinct (map bk_vaultId bs) \<Longrightarrow> list_all (\<lambda>b. CHR ''/'' \<notin> set (bk_vaultId b)) bs \<Longrightarrow> shelf_inv (load_books bs s)"
proof -
  have "ok_on {} (s\<lparr>sh_index := clearIndex (sh_index s), sh_loading := Keys_Load\<rparr>)"
    using assms by (auto simp: shelf_inv_def ok_on_def base_ok_def all_or_none_def clearIndex_def index_ok_steps entries_of_def)
  then show "sh_loading s = No_Load \<Longrightarrow> shelf_inv (load_clear s)"
    using assms by (simp add: load_clear_def shelf_inv_def waiting_def)
  show "shelf_inv (load_end s)"
  proof (cases "sh_loading s = Books_Load []")
    case True
    then show ?thesis using assms by (simp add: load_end_def shelf_inv_def waiting_def)
  next
    case False
    then have "load_end s = s" by (auto simp: load_end_def split: vault_load.split list.split)
    then show ?thesis using assms by simp
  qed
  show "shelf_inv (load_next s)"
  proof (cases "\<exists>b bs. sh_loading s = Books_Load (b # bs)")
    case True
    then obtain b bs where l: "sh_loading s = Books_Load (b # bs)" by blast
    have i: "ok_on (- bk_vaultId ` set (b # bs)) s" "distinct (map bk_vaultId (b # bs))" "bk_vaultId ` set (b # bs) \<subseteq> bk_vaultId ` set (sh_books s)"
      using assms by (simp_all add: shelf_inv_def waiting_def l)
    have "bk_vaultId b \<in> bk_vaultId ` set (sh_books s)" using i(3) by simp
    then obtain b0 where "find_book (bk_vaultId b) (sh_books s) = Some b0" using find_book_None by fastforce
    then have "ok_on (insert (bk_vaultId b) (- bk_vaultId ` set (b # bs))) (load_catalog b s)" by (rule load_one [OF i(1) _ refl])
    moreover have "insert (bk_vaultId b) (- bk_vaultId ` set (b # bs)) = - bk_vaultId ` set bs"
    proof -
      have "bk_vaultId b \<notin> bk_vaultId ` set bs" using i(2) by auto
      moreover have "insert x (- insert x A) = - A" if "x \<notin> A" for x and A :: "string set" using that by blast
      ultimately show ?thesis by simp
    qed
    moreover have "bk_vaultId ` set (sh_books (load_catalog b s)) = bk_vaultId ` set (sh_books s)"
      using load_catalog_frame(2) [of b s] by (metis set_map)
    ultimately show ?thesis using i by (simp add: load_next_def l shelf_inv_def waiting_def)
  next
    case False
    then have "load_next s = s" by (auto simp: load_next_def split: vault_load.split list.split)
    then show ?thesis using assms by simp
  qed
  show "shelf_inv (load_books bs s)" if bs: "distinct (map bk_vaultId bs)" "list_all (\<lambda>b. CHR ''/'' \<notin> set (bk_vaultId b)) bs"
  proof (cases "sh_loading s = Keys_Load")
    case True
    then have "ok_on {} s" using assms by (simp add: shelf_inv_def waiting_def)
    note o = load_books_ok [OF this bs True]
    have "sh_loading (load_books bs s) = Books_Load bs" "sh_books (load_books bs s) = bs" by (simp_all add: load_books_def True Let_def)
    then show ?thesis using o bs(1) by (simp add: shelf_inv_def waiting_def)
  next
    case False
    then show ?thesis using assms by (cases "sh_loading s") (simp_all add: load_books_def)
  qed
qed

text \<open>What the other operations do to the loading of a list and to the identifiers of the books\<close>

lemma op_frames:
  "sh_loading (createBook C raw iv ivCache v name committed s) = sh_loading s"
  "bk_vaultId ` set (sh_books s) \<subseteq> bk_vaultId ` set (sh_books (createBook C raw iv ivCache v name committed s))"
  "sh_loading (rename_book v n s) = sh_loading s" "map bk_vaultId (sh_books (rename_book v n s)) = map bk_vaultId (sh_books s)"
  "sh_loading (show_book v s) = sh_loading s" "sh_books (show_book v s) = sh_books s"
  "sh_loading (first_book s) = sh_loading s" "sh_books (first_book s) = sh_books s"
  "sh_loading (delete_book v s) = sh_loading s" "sh_books (delete_book v s) = filter (\<lambda>b. bk_vaultId b \<noteq> v) (sh_books s)"
  "sh_loading (import_entries b es s) = sh_loading s" "map bk_vaultId (sh_books (import_entries b es s)) = map bk_vaultId (sh_books s)"
  "sh_loading (writeSelfToCatalog v s) = sh_loading s" "map bk_vaultId (sh_books (writeSelfToCatalog v s)) = map bk_vaultId (sh_books s)"
proof -
  show sh: "sh_loading (show_book v s) = sh_loading s" "sh_books (show_book v s) = sh_books s" for v :: string and s :: "'a shelf"
    by (simp_all add: show_book_def split: option.split)
  show fb: "sh_loading (first_book s) = sh_loading s" "sh_books (first_book s) = sh_books s" for s :: "'a shelf"
    by (simp_all add: first_book_def sh split: list.split)
  show "sh_loading (createBook C raw iv ivCache v name committed s) = sh_loading s"
    "bk_vaultId ` set (sh_books s) \<subseteq> bk_vaultId ` set (sh_books (createBook C raw iv ivCache v name committed s))"
    by (cases "create_begin C raw iv ivCache v name committed s"; use create_effect [of C raw iv ivCache v name committed s] in
        \<open>auto simp: createBook_def create_opened_def Let_def\<close>)+
  show "sh_loading (delete_book v s) = sh_loading s" "sh_books (delete_book v s) = filter (\<lambda>b. bk_vaultId b \<noteq> v) (sh_books s)"
    by (simp_all add: delete_book_def Let_def fb) (simp_all add: drop_from_shelf_def)
qed (simp_all add: rename_book_def Let_def import_entries_def writeSelfToCatalog_def change_frame split: option.split)




section \<open>Properties\<close>


lemma pending_listed: "pv \<in> set (getAllPendingVaults (setPendingVault pv db))"
proof -
  have "pending_key (pv_vaultId pv) \<in> set (filter (prefix ''pendingVault:'') (idb_getAllKeys (setPendingVault pv db)))"
    using idb_put_keys [of "pending_key (pv_vaultId pv)" "VPending pv" db] by (simp add: idb_getAllKeys_def setPendingVault_def pending_key_def)
  moreover have "idb_get (setPendingVault pv db) (pending_key (pv_vaultId pv)) = Some (VPending pv)" by (simp add: setPendingVault_def)
  ultimately show ?thesis unfolding getAllPendingVaults_def List.map_filter_def by force
qed

text \<open>What a member gets from a vault entry that was made for it\<close>

lemma member_gets_the_key:
  assumes "aead_law C" "ecdh_pair C senderPriv senderPub memberPriv memberPub" "length iv = 12" "length raw = 32"
    and "encryptBookKeyForUser C iv senderPriv memberPub raw = Some enc"
  shows "vault_book C memberPriv bs \<lparr>vi_vaultId = v, vi_encryptedVaultKey = toBase64 enc, vi_senderPublicKey = toBase64 senderPub, vi_role = r\<rparr> =
    Some (\<lparr>bk_vaultId = v, bk_name = (case find_book v bs of Some b \<Rightarrow> bk_name b | None \<Rightarrow> take 8 v), bk_role = r,
           bk_encKey = Some (AesKey raw True)\<rparr>, raw)"
proof -
  have "decryptBookKeyFromUser C memberPriv senderPub enc = Some raw" using book_key_exchange [OF assms(1-3), of raw] assms(5) by simp
  then show ?thesis using assms(4) by (simp add: vault_book_def fromBase64_toBase64 importBookKey_def import_aes_def split: option.split)
qed

text \<open>C39: The key of a new book is the same on every way back to it: in the list of books, from the pending vault that is sent until the
  server confirms it, and, when a cache exists, from the cache that an offline start reads.\<close>

theorem new_book_has_one_key:
  assumes "aead_law C" "ecdh_pair C priv pub priv pub" "length raw = 32" "length iv = 12" "length ivCache = 12"
    and "sh_identity s = Some (pub, priv)" "find_book v (sh_books s) = None"
  shows "\<exists>b pv. find_book v (sh_books (createBook C raw iv ivCache v name True s)) = Some b \<and> bk_name b = name \<and> bk_encKey b = Some (AesKey raw True) \<and>
    pv \<in> set (getAllPendingVaults (sh_db (createBook C raw iv ivCache v name True s))) \<and> pv_vaultId pv = v \<and>
    map_option fst (vault_book C priv (sh_books (createBook C raw iv ivCache v name True s))
      \<lparr>vi_vaultId = v, vi_encryptedVaultKey = pv_encryptedVaultKey pv, vi_senderPublicKey = pv_senderPublicKey pv, vi_role = ''owner''\<rparr>) = Some b \<and>
    (\<forall>mk cache. sh_masterKey s = Some mk \<longrightarrow> sh_cache s = Some cache \<longrightarrow>
      (\<exists>cache'. sh_cache (createBook C raw iv ivCache v name True s) = Some cache' \<and>
        List.map_filter (cached_book C mk) (lc_vaults cache') = List.map_filter (cached_book C mk) (lc_vaults cache) @ [b]))"
proof -
  obtain enc where enc: "encryptBookKeyForUser C iv priv pub raw = Some enc" using book_key_exchange [OF assms(1,2,4)] by blast
  obtain t where t: "create_begin C raw iv ivCache v name True s = Some t"
    using assms(3,6) enc by (simp add: create_begin_def generateBookKey_def import_aes_def Let_def)
  let ?b = "\<lparr>bk_vaultId = v, bk_name = name, bk_role = ''owner'', bk_encKey = Some (AesKey raw True)\<rparr>"
  let ?pv = "\<lparr>pv_vaultId = v, pv_encryptedVaultKey = toBase64 enc, pv_senderPublicKey = toBase64 pub\<rparr>"
  have e: "sh_books t = sh_books s @ [?b]" "sh_db t = setPendingVault ?pv (sh_db s)"
    "sh_cache t = (case (sh_masterKey s, sh_cache s) of
       (Some mk, Some cache) \<Rightarrow> Some (cache\<lparr>lc_vaults := lc_vaults cache @ [cache_entry C mk (v, name, ''owner'', raw, ivCache)]\<rparr>)
     | _ \<Rightarrow> sh_cache s)"
    using t assms(3,6) enc by (auto simp: create_begin_def generateBookKey_def import_aes_def Let_def cache_entry_def split: option.split)
  have c: "sh_books (createBook C raw iv ivCache v name True s) = sh_books t" "sh_db (createBook C raw iv ivCache v name True s) = sh_db t"
    "sh_cache (createBook C raw iv ivCache v name True s) = sh_cache t"
    by (simp_all add: createBook_def t create_opened_def Let_def shelf_tell_def put_catalog_def)
  have f: "find_book v (sh_books t) = Some ?b" using assms(7) by (simp add: e(1) find_book_append)
  have "good_vault (v, name, ''owner'', raw, ivCache)" using assms(3,5) by (simp add: good_vault_def)
  then have "\<forall>mk cache. sh_masterKey s = Some mk \<longrightarrow> sh_cache s = Some cache \<longrightarrow>
      (\<exists>cache'. sh_cache t = Some cache' \<and>
        List.map_filter (cached_book C mk) (lc_vaults cache') = List.map_filter (cached_book C mk) (lc_vaults cache) @ [?b])"
    by (simp add: e(3) List.map_filter_def cached_book_entry [OF assms(1)])
  then show ?thesis
    using f member_gets_the_key [OF assms(1,2,4,3) enc, of "sh_books t" v "''owner''"] pending_listed [of ?pv "sh_db s"]
    by (intro exI [of _ ?b] exI [of _ ?pv]) (simp add: c e(2))
qed

text \<open>A member who is invited while the connection is open gets exactly the book's key out of the message that goes to the server.\<close>

theorem invited_member_gets_the_key:
  assumes "aead_law C" "ecdh_pair C priv pub memberPriv memberPub" "length iv = 12" "length raw = 32"
    and "sh_identity s = Some (pub, priv)" "bk_encKey b = Some (AesKey raw True)" "sh_client s = Some c" "isOpen c" "bk_vaultId b \<noteq> []" "tu \<noteq> []"
  shows "\<exists>t c' evk spk. invite C iv b tu tuid (toBase64 memberPub) s = Some t \<and> sh_client t = Some c' \<and>
    sc_sent c' = sc_sent c @ [MInvite (bk_vaultId b) tuid evk spk ''viewer'', MListMembers (bk_vaultId b)] \<and>
    map_option (bk_encKey \<circ> fst) (vault_book C memberPriv bs
      \<lparr>vi_vaultId = bk_vaultId b, vi_encryptedVaultKey = evk, vi_senderPublicKey = spk, vi_role = ''viewer''\<rparr>) = Some (bk_encKey b) \<and>
    (open_catalog (bk_vaultId b) s \<noteq> None \<longrightarrow> memberName tuid (Some (bk_vaultId b)) t = tu)"
proof -
  obtain enc where enc: "encryptBookKeyForUser C iv priv memberPub raw = Some enc" using book_key_exchange [OF assms(1-3)] by blast
  let ?v = "bk_vaultId b"
  let ?c = "inviteToVault ?v tuid (toBase64 enc) (toBase64 pub) (Some ''viewer'') c"
  define s1 where "s1 = s\<lparr>sh_client := Some ?c\<rparr>"
  define s2 where "s2 = (if open_catalog ?v s1 = None then s1
    else shelf_tell (Push (catalog_id ?v)) (shelf_change ?v (\<lambda>c. c\<lparr>ct_members := map_set tuid tu (ct_members c)\<rparr>) s1))"
  let ?t = "s2\<lparr>sh_client := Some (listVaultMembers ?v ?c)\<rparr>"
  have "sh_client s2 = Some ?c" by (simp add: s2_def s1_def change_frame(1) shelf_tell_def)
  then have t: "invite C iv b tu tuid (toBase64 memberPub) s = Some ?t"
    unfolding invite_def assms(5-7) fromBase64_toBase64 export_aes_def
    by (simp add: enc Let_def s2_def s1_def change_frame(1))
  have o: "open_catalog w (s2\<lparr>sh_client := x\<rparr>) = open_catalog w s2" "open_catalog w s1 = open_catalog w s" for w x
    by (simp_all add: open_catalog_def s1_def)
  have "sc_sent (listVaultMembers ?v ?c) = sc_sent c @ [MInvite ?v tuid (toBase64 enc) (toBase64 pub) ''viewer'', MListMembers ?v]"
    using assms(8) by (simp add: listVaultMembers_def inviteToVault_def sendMsg_def isOpen_def)
  moreover have "memberName tuid (Some ?v) ?t = tu" if "open_catalog ?v s \<noteq> None"
  proof -
    from that obtain cat where cat: "open_catalog ?v s = Some cat" by auto
    then have "map_option ct_members (open_catalog ?v s2) = Some (map_set tuid tu (ct_members cat))"
      by (simp add: s2_def o change_frame(3) del: map_option_eq_Some)
    then obtain cat' where "open_catalog ?v s2 = Some cat'" "ct_members cat' = map_set tuid tu (ct_members cat)" by auto
    then show ?thesis using assms(9,10) by (simp add: memberName_def truthy_def o map_eqs)
  qed
  moreover have "map_option (bk_encKey \<circ> fst) (vault_book C memberPriv bs
      \<lparr>vi_vaultId = ?v, vi_encryptedVaultKey = toBase64 enc, vi_senderPublicKey = toBase64 pub, vi_role = ''viewer''\<rparr>) = Some (bk_encKey b)"
    by (simp add: member_gets_the_key [OF assms(1-4) enc] assms(6))
  ultimately show ?thesis using t by (intro exI conjI) auto
qed


text \<open>An archive whose book has the name of a book that the user already has: a new, empty book of that name is made, and the recipes go into the
  old one, after its own.\<close>

theorem archive_goes_into_the_book_of_that_name:
  assumes "find (\<lambda>b. bk_name b = ab_name ib) (sh_books s) = Some old" "ab_name ib \<noteq> []" "open_catalog (bk_vaultId old) s = Some c"
    and "bk_vaultId old \<noteq> v" "open_catalog v s = None" "map_get (sh_stored s) (catalog_id v) = None" "find_book v (sh_books s) = None"
    and "create_begin C raw iv ivCache v (ab_name ib) True s \<noteq> None"
  shows "map_option ct_recipes (open_catalog v (handleZipImport C file None [(ib, v, raw, iv, ivCache)] s)) = Some [] \<and>
    map_option ct_recipes (open_catalog (bk_vaultId old) (handleZipImport C file None [(ib, v, raw, iv, ivCache)] s)) = Some (ct_recipes c @ ab_recipes ib) \<and>
    find_book v (sh_books (createBook C raw iv ivCache v (ab_name ib) True s)) \<noteq> None"
proof -
  obtain t where t: "create_begin C raw iv ivCache v (ab_name ib) True s = Some t" using assms(8) by blast
  note e = create_effect [OF t]
  let ?s1 = "createBook C raw iv ivCache v (ab_name ib) True s"
  have o: "open_catalog w t = open_catalog w s" for w by (simp add: open_catalog_def e)
  have s1: "?s1 = shelf_subscribe (catalog_id v) (shelf_tell (Push (catalog_id v))
      (put_catalog v \<lparr>ct_name = ab_name ib, ct_recipes = [], ct_members = [(sh_userId t, sh_username t)]\<rparr> t))"
    using assms(5,6) by (simp add: createBook_def t create_opened_def Let_def o e)
  have open1: "map_option ct_recipes (open_catalog v ?s1) = Some []" "open_catalog (bk_vaultId old) ?s1 = Some c"
    using assms(3,4) by (simp_all add: s1 o)
  have books: "sh_books ?s1 = sh_books t" by (simp add: s1)
  obtain key where b: "sh_books t = sh_books s @ [\<lparr>bk_vaultId = v, bk_name = ab_name ib, bk_role = ''owner'', bk_encKey = Some key\<rparr>]"
    using e(1) by blast
  have app: "find P (xs @ ys) = (case find P xs of Some x \<Rightarrow> Some x | None \<Rightarrow> find P ys)" for P :: "book \<Rightarrow> bool" and xs ys
    by (induction xs) auto
  have "find (\<lambda>b. bk_name b = ab_name ib) (sh_books ?s1) = Some old" using assms(1) by (simp add: books b app)
  then have "handleZipImport C file None [(ib, v, raw, iv, ivCache)] s = import_entries old (ab_recipes ib) ?s1"
    using assms(2) by (simp add: handleZipImport_def import_book_def Let_def)
  moreover have "find_book v (sh_books ?s1) \<noteq> None" using assms(7) by (simp add: books b find_book_append)
  ultimately show ?thesis
    using open1 assms(4) by (simp add: import_entries_def change_frame(2) del: map_option_eq_Some)
qed

text \<open>A list that is loaded without a break\<close>

lemma load_all:
  assumes "shelf_inv s" "sh_loading s = Books_Load bs"
  shows "shelf_inv ((load_next ^^ length bs) s) \<and> sh_loading ((load_next ^^ length bs) s) = Books_Load [] \<and>
    map bk_vaultId (sh_books ((load_next ^^ length bs) s)) = map bk_vaultId (sh_books s) \<and>
    (\<forall>w c. open_catalog w s = Some c \<longrightarrow> map_option ct_recipes (open_catalog w ((load_next ^^ length bs) s)) = Some (ct_recipes c))"
  using assms
proof (induction bs arbitrary: s)
  case (Cons b bs)
  let ?t = "load_next s"
  have t: "?t = (load_catalog b s)\<lparr>sh_loading := Books_Load bs\<rparr>" by (simp add: load_next_def Cons.prems(2))
  have "sh_loading ?t = Books_Load bs" by (simp add: t)
  note ih = Cons.IH [OF load_inv(2) [OF Cons.prems(1)] this]
  have "map_option ct_recipes (open_catalog w ?t) = Some (ct_recipes c)" if "open_catalog w s = Some c" for w c
    using load_catalog_frame(3) [of w b s] that by (auto simp: t loaded_catalog_def split: if_splits)
  moreover have "map bk_vaultId (sh_books ?t) = map bk_vaultId (sh_books s)" by (simp add: t load_catalog_frame)
  moreover have "(load_next ^^ length (b # bs)) s = (load_next ^^ length bs) ?t" by (simp add: funpow_swap1)
  ultimately show ?case using ih by fastforce
qed simp

lemma load_vaults_ok:
  assumes "shelf_inv s" "sh_loading s = No_Load" "sh_identity s \<noteq> None" "distinct (map bk_vaultId bs)"
    and "list_all (\<lambda>b. CHR ''/'' \<notin> set (bk_vaultId b)) bs"
  shows "shelf_inv (load_vaults bs s) \<and> sh_loading (load_vaults bs s) = No_Load \<and> map bk_vaultId (sh_books (load_vaults bs s)) = map bk_vaultId bs \<and>
    (\<forall>w c. open_catalog w s = Some c \<longrightarrow> w \<in> bk_vaultId ` set bs \<longrightarrow>
       map_option ct_recipes (open_catalog w (load_vaults bs s)) = Some (ct_recipes c))"
proof -
  let ?k = "load_clear s" and ?b = "load_books bs (load_clear s)"
  have k: "shelf_inv ?k" "sh_loading ?k = Keys_Load" "sh_books ?k = sh_books s" "open_catalog w ?k = open_catalog w s" for w
    using load_inv(1) [OF assms(1,2)] assms(3) by (auto simp: load_clear_def open_catalog_def)
  have b: "shelf_inv ?b" by (rule load_inv(4) [OF k(1) assms(4,5)])
  have f: "sh_loading ?b = Books_Load bs" "sh_books ?b = bs" by (simp_all add: load_books_def k Let_def)
  have o: "open_catalog w ?b = open_catalog w s" if "w \<in> bk_vaultId ` set bs" for w
  proof -
    let ?gone = "filter (\<lambda>v. v \<notin> bk_vaultId ` set bs) (map bk_vaultId (sh_books s))"
    have "w \<notin> set ?gone" using that by simp
    from close_all_frame(4) [OF this, of ?k] show ?thesis by (simp add: load_books_def k Let_def)
  qed
  note a = load_all [OF b f(1)]
  let ?n = "(load_next ^^ length bs) ?b"
  have e: "load_vaults bs s = (books_changed ?n)\<lparr>sh_loading := No_Load\<rparr>" using a by (simp add: load_vaults_def load_end_def)
  have "shelf_inv (load_vaults bs s)" unfolding load_vaults_def using a by (intro load_inv(3)) simp
  then show ?thesis using a f o by (simp add: e)
qed

text \<open>C40: A book deleted while the connection is down is gone only until the next vault list: nothing of the deletion is sent or stored, a pending vault
  stays pending, the cache keeps the book, its catalog stays open, and a list that still has the book brings it back: the book is on the
  shelf again, its open catalog lists the recipes that it listed before the deletion, and all of them are in the search index.\<close>

theorem deletion_offline_is_forgotten:
  assumes "shelf_inv s" "sh_loading s = No_Load" "sh_identity s \<noteq> None" "CHR ''/'' \<notin> set v" "sh_client s = Some c" "\<not> isOpen c"
    and "find_book v (sh_books s) = Some b" "open_catalog v s = Some cat"
    and "distinct (map bk_vaultId bs)" "list_all (\<lambda>b. CHR ''/'' \<notin> set (bk_vaultId b)) bs" "v \<in> bk_vaultId ` set bs"
  shows "find_book v (sh_books (delete_book v s)) = None \<and> entries_of v (sh_index (delete_book v s)) = [] \<and>
    sh_client (delete_book v s) = Some c \<and> sh_db (delete_book v s) = sh_db s \<and> sh_cache (delete_book v s) = sh_cache s \<and>
    open_catalog v (delete_book v s) = Some cat \<and>
    (\<exists>b' cat'. find_book v (sh_books (load_vaults bs (delete_book v s))) = Some b' \<and>
       open_catalog v (load_vaults bs (delete_book v s)) = Some cat' \<and> ct_recipes cat' = ct_recipes cat \<and>
       entries_of v (sh_index (load_vaults bs (delete_book v s))) = map (index_entry b') (ct_recipes cat))"
proof -
  let ?d = "delete_book v s" and ?l = "load_vaults bs (delete_book v s)"
  have o: "sh_client (first_book x) = sh_client x \<and> sh_db (first_book x) = sh_db x \<and> sh_cache (first_book x) = sh_cache x \<and>
      sh_index (first_book x) = sh_index x \<and> sh_catalogs (first_book x) = sh_catalogs x \<and> sh_identity (first_book x) = sh_identity x"
    for x :: "'a shelf"
    by (simp add: first_book_def show_book_def split: list.split option.split)
  have d: "sh_client ?d = Some c" "sh_db ?d = sh_db s" "sh_cache ?d = sh_cache s" "sh_index ?d = removeBookFromIndex v (sh_index s)"
    "sh_catalogs ?d = sh_catalogs s" "sh_identity ?d = sh_identity s"
    using assms(5,6) o [of "drop_from_shelf v s\<lparr>sh_active := None\<rparr>"]
    by (auto simp: delete_book_def Let_def drop_from_shelf_def deleteVault_def sendMsg_def)
  have none: "find_book v (sh_books ?d) = None" by (auto simp: op_frames find_book_None)
  have ok: "ok_on UNIV s" using assms(1,2) by (simp add: shelf_inv_def waiting_def)
  then have e: "entries_of v (sh_index ?d) = []" using assms(4) by (simp add: d(4) entries_remove ok_on_def base_ok_def)
  have cat: "open_catalog v ?d = Some cat" using assms(8) by (simp add: open_catalog_def d(5))
  have "shelf_inv ?d" using delete_ok [OF ok assms(4)] assms(2) by (simp add: shelf_inv_def waiting_def op_frames)
  then have l: "shelf_inv ?l" "sh_loading ?l = No_Load" "map bk_vaultId (sh_books ?l) = map bk_vaultId bs"
    "map_option ct_recipes (open_catalog v ?l) = Some (ct_recipes cat)"
    using load_vaults_ok [of ?d bs] assms(2,3,9-11) cat by (simp_all add: op_frames d(6) del: map_option_eq_Some)
  from l(4) obtain cat' where cat': "open_catalog v ?l = Some cat'" "ct_recipes cat' = ct_recipes cat" by auto
  from l(3) assms(11) obtain b' where b': "find_book v (sh_books ?l) = Some b'" using find_book_None by (metis not_None_eq set_map)
  have "in_order v ?l" using l(1,2) by (auto simp: shelf_inv_def waiting_def ok_on_def)
  then have "entries_of v (sh_index ?l) = map (index_entry b') (ct_recipes cat)" using b' cat' by (simp add: in_order_def listed_def)
  then show ?thesis using d none e cat b' cat' by simp
qed

text \<open>C0: The loop over the books of a vault list works on the books as they were when it began: a book that is deleted before the loop has
  reached it is opened all the same, and all its recipes come back into the search index, although it is no longer a book of the shelf.\<close>

theorem deleted_while_loading_is_indexed:
  assumes "shelf_inv s" "sh_loading s = Books_Load (b # bs)" "CHR ''/'' \<notin> set (bk_vaultId b)"
  shows "find_book (bk_vaultId b) (sh_books (load_next (delete_book (bk_vaultId b) s))) = None \<and>
    open_catalog (bk_vaultId b) (load_next (delete_book (bk_vaultId b) s)) \<noteq> None \<and>
    map se_recipeId (entries_of (bk_vaultId b) (sh_index (load_next (delete_book (bk_vaultId b) s)))) =
      map ce_id (ct_recipes (loaded_catalog (bk_vaultId b) s))"
proof -
  let ?v = "bk_vaultId b" and ?d = "delete_book (bk_vaultId b) s"
  let ?c = "loaded_catalog (bk_vaultId b) s"
  have ok: "ok_on (- bk_vaultId ` set (b # bs)) s" using assms(1,2) by (simp add: shelf_inv_def waiting_def)
  have o: "sh_catalogs (first_book x) = sh_catalogs x \<and> sh_stored (first_book x) = sh_stored x \<and> sh_index (first_book x) = sh_index x"
    for x :: "'a shelf" by (simp add: first_book_def show_book_def split: list.split option.split)
  have d: "sh_catalogs ?d = sh_catalogs s" "sh_stored ?d = sh_stored s" "sh_index ?d = removeBookFromIndex ?v (sh_index s)"
    using o [of "drop_from_shelf ?v s\<lparr>sh_active := None\<rparr>"] by (auto simp: delete_book_def Let_def drop_from_shelf_def)
  have sto: "sh_stored ?d = sh_stored s"
    using o [of "drop_from_shelf ?v s\<lparr>sh_active := None\<rparr>"] by (auto simp: delete_book_def Let_def drop_from_shelf_def)
  have none: "find_book ?v (sh_books ?d) = None" by (auto simp: op_frames find_book_None)
  have base: "base_ok s" using ok by (simp add: ok_on_def)
  have c: "loaded_catalog ?v ?d = ?c" unfolding loaded_catalog_def open_catalog_def d sto by (rule refl)
  have good: "good_catalog ?c"
    using base by (auto simp: loaded_catalog_def base_ok_def open_catalog_def good_catalog_def split: option.split)
  have same: "set_name ?v n bs = bs" if "find_book ?v bs = None" for n bs using that by (induction bs) (auto split: if_splits)
  let ?s2 = "loaded_named b ?d" and ?b = "loaded_book b ?d"
  have s2: "sh_books ?s2 = sh_books ?d" using none by (simp add: loaded_named_def Let_def same)
  define s3 where "s3 = (if ct_name ?c = [] \<and> ct_recipes ?c \<noteq> [] \<and> bk_name ?b \<noteq> take 8 ?v
      then (if open_catalog ?v ?d = None then put_catalog ?v (?c\<lparr>ct_name := bk_name ?b\<rparr>) ?s2
            else shelf_change ?v (\<lambda>c. c\<lparr>ct_name := bk_name ?b\<rparr>) ?s2) else ?s2)"
  have l: "load_catalog b ?d = s3\<lparr>sh_index := index_all ?b (ct_recipes ?c) (sh_index s3)\<rparr>"
    unfolding load_catalog_parts Let_def c s3_def by (rule refl)
  have cl: "shelf_change ?v f ?s2 = put_catalog ?v (f ?c) ?s2" for f
    using none by (simp add: shelf_change_def loaded_named_frame c listener_closed s2)
  have s3: "sh_books s3 = sh_books ?d" "sh_index s3 = sh_index ?d" "open_catalog ?v s3 \<noteq> None"
    by (auto simp: s3_def cl s2 loaded_named_frame)
  have id: "bk_vaultId ?b = ?v" using none by (simp add: loaded_book_def Let_def)
  have "index_ok (sh_index ?d)" "entries_of ?v (sh_index ?d) = []"
    using base assms(3) by (simp_all add: d(3) base_ok_def index_ok_steps entries_remove)
  then have "entries_of ?v (index_all ?b (ct_recipes ?c) (sh_index ?d)) = map (index_entry ?b) (ct_recipes ?c)"
    using index_all_fresh(2) [of "sh_index ?d" ?b "ct_recipes ?c" ?v] assms(3) good by (simp add: id good_catalog_def)
  moreover have n: "load_next ?d = (load_catalog b ?d)\<lparr>sh_loading := Books_Load bs\<rparr>"
    using assms(2) by (simp add: load_next_def op_frames)
  ultimately show ?thesis using none s3 by (simp add: n l comp_def index_entry_def)
qed


subsection \<open>Witnesses\<close>

definition demo_shelf :: "nat shelf" where
  "demo_shelf = \<lparr>sh_books = [], sh_active = None, sh_listShown = True, sh_catalogs = [], sh_stored = [], sh_index = [],
     sh_client = Some demo_client, sh_db = [], sh_cache = None, sh_masterKey = None, sh_identity = Some ([3], [3]),
     sh_userId = ''u'', sh_username = ''ann'', sh_log = [], sh_loading = No_Load\<rparr>"

definition demo_plum :: catalog_entry where
  "demo_plum = \<lparr>ce_id = ''r1'', ce_title = ''Plum cake'', ce_tags = []\<rparr>"

lemma demo_shelf_facts:
  "aead_law demo_crypto" "ecdh_pair demo_crypto [3] [3] [3] [3]" "ecdh_pair demo_crypto [3] [3] [4] [4]"
  "sh_books demo_shelf = []" "sh_catalogs demo_shelf = []" "sh_index demo_shelf = []" "sh_stored demo_shelf = []"
  "sh_identity demo_shelf = Some ([3], [3])" "sh_client demo_shelf = Some demo_client" "sh_db demo_shelf = []" "isOpen demo_client"
  using demo_world_facts(7) by (simp_all add: demo_aead_law demo_ecdh_pair demo_shelf_def) (simp add: ecdh_pair_def demo_crypto_def)

theorem new_book_has_one_key_witness:
  "\<exists>b pv. find_book ''v'' (sh_books (createBook demo_crypto (replicate 32 5) (replicate 12 1) (replicate 12 2) ''v'' ''Cakes'' True demo_shelf)) = Some b \<and>
    bk_encKey b = Some (AesKey (replicate 32 5) True) \<and>
    pv \<in> set (getAllPendingVaults (sh_db (createBook demo_crypto (replicate 32 5) (replicate 12 1) (replicate 12 2) ''v'' ''Cakes'' True demo_shelf)))"
  using new_book_has_one_key [of demo_crypto "[3]" "[3]" "replicate 32 5" "replicate 12 1" "replicate 12 2" demo_shelf "''v''" "''Cakes''"]
  by (auto simp: demo_shelf_facts)


definition demo_old_book :: book where
  "demo_old_book = \<lparr>bk_vaultId = ''w'', bk_name = ''Cakes'', bk_role = ''owner'', bk_encKey = Some (AesKey (replicate 32 5) True)\<rparr>"

definition demo_full_shelf :: "nat shelf" where
  "demo_full_shelf = demo_shelf\<lparr>sh_books := [demo_old_book],
     sh_catalogs := [(catalog_id ''w'', \<lparr>ct_name = ''Cakes'', ct_recipes = [demo_plum], ct_members = []\<rparr>)],
     sh_index := [(entry_key ''w'' ''r1'', index_entry demo_old_book demo_plum)], sh_client := None\<rparr>"



theorem invited_member_gets_the_key_witness:
  "\<exists>t c' evk spk. invite demo_crypto (replicate 12 1) demo_old_book ''bob'' ''uid'' (toBase64 [4]) demo_shelf = Some t \<and> sh_client t = Some c' \<and>
    sc_sent c' = sc_sent demo_client @ [MInvite ''w'' ''uid'' evk spk ''viewer'', MListMembers ''w''] \<and>
    map_option (bk_encKey \<circ> fst) (vault_book demo_crypto [4] [] \<lparr>vi_vaultId = ''w'', vi_encryptedVaultKey = evk, vi_senderPublicKey = spk,
      vi_role = ''viewer''\<rparr>) = Some (Some (AesKey (replicate 32 5) True))"
  using invited_member_gets_the_key [of demo_crypto "[3]" "[3]" "[4]" "[4]" "replicate 12 1" "replicate 32 5" demo_shelf demo_old_book demo_client
      "''bob''" "''uid''" "[]", OF demo_shelf_facts(1,3) _ _ demo_shelf_facts(8) _ demo_shelf_facts(9,11)]
  by (auto simp: demo_old_book_def)

lemma demo_full_shelf_ok: "shelf_inv demo_full_shelf"
proof -
  have "in_order w demo_full_shelf" for w
    by (simp add: in_order_def demo_full_shelf_def demo_shelf_def demo_old_book_def demo_plum_def entries_of_def listed_def named_def
        open_catalog_def index_entry_def map_get_def)
  moreover have "base_ok demo_full_shelf"
    by (auto simp: base_ok_def demo_full_shelf_def demo_shelf_def demo_old_book_def demo_plum_def good_catalog_def index_entry_def index_ok_def
        map_get_def split: if_splits)
  ultimately show ?thesis by (simp add: shelf_inv_def ok_on_def demo_full_shelf_def demo_shelf_def)
qed

theorem archive_goes_into_the_book_of_that_name_witness:
  "map_option ct_recipes (open_catalog ''w'' (handleZipImport demo_crypto ''a.zip'' None
     [(\<lparr>ab_name = ''Cakes'', ab_recipes = [\<lparr>ce_id = ''r2'', ce_title = ''Tart'', ce_tags = []\<rparr>]\<rparr>, ''v'', replicate 32 5, replicate 12 1, replicate 12 2)]
     demo_full_shelf)) = Some [demo_plum, \<lparr>ce_id = ''r2'', ce_title = ''Tart'', ce_tags = []\<rparr>]"
proof -
  let ?ib = "\<lparr>ab_name = ''Cakes'', ab_recipes = [\<lparr>ce_id = ''r2'', ce_title = ''Tart'', ce_tags = []\<rparr>]\<rparr>"
  have "create_begin demo_crypto (replicate 32 5) (replicate 12 1) (replicate 12 2) ''v'' (ab_name ?ib) True demo_full_shelf \<noteq> None"
    by (simp add: create_begin_def demo_full_shelf_def demo_shelf_def generateBookKey_def import_aes_def encryptBookKeyForUser_def
        deriveSharedKey_def demo_crypto_def Let_def)
  then show ?thesis
    using archive_goes_into_the_book_of_that_name [of ?ib demo_full_shelf demo_old_book "\<lparr>ct_name = ''Cakes'', ct_recipes = [demo_plum], ct_members = []\<rparr>"
        "''v''" demo_crypto "replicate 32 5" "replicate 12 1" "replicate 12 2" "''a.zip''"]
    by (simp add: demo_full_shelf_def demo_shelf_def demo_old_book_def open_catalog_def map_get_def catalog_id_def)
qed

theorem deletion_offline_is_forgotten_witness:
  "find_book ''w'' (sh_books (delete_book ''w'' (demo_full_shelf\<lparr>sh_client := Some (demo_client\<lparr>sc_ws := None\<rparr>)\<rparr>))) = None \<and>
   (\<exists>b'. entries_of ''w'' (sh_index (load_vaults [demo_old_book] (delete_book ''w'' (demo_full_shelf\<lparr>sh_client := Some (demo_client\<lparr>sc_ws := None\<rparr>)\<rparr>)))) =
      [index_entry b' demo_plum])"
proof -
  let ?s = "demo_full_shelf\<lparr>sh_client := Some (demo_client\<lparr>sc_ws := None\<rparr>)\<rparr>"
  have "ok_on D (x\<lparr>sh_client := k\<rparr>) \<longleftrightarrow> ok_on D x" for D k and x :: "nat shelf" by (rule ok_frame) simp_all
  then have i: "shelf_inv ?s" using demo_full_shelf_ok by (simp add: shelf_inv_def waiting_def) (simp add: demo_full_shelf_def demo_shelf_def)
  show ?thesis
    using deletion_offline_is_forgotten [OF i, of "''w''" "demo_client\<lparr>sc_ws := None\<rparr>" demo_old_book
        "\<lparr>ct_name = ''Cakes'', ct_recipes = [demo_plum], ct_members = []\<rparr>" "[demo_old_book]"]
    by (auto simp: isOpen_def demo_old_book_def demo_full_shelf_def demo_shelf_def open_catalog_def map_get_def)
qed

definition demo_loading_shelf :: "nat shelf" where
  "demo_loading_shelf = demo_full_shelf\<lparr>sh_loading := Books_Load [demo_old_book]\<rparr>"

theorem deleted_while_loading_is_indexed_witness:
  "find_book ''w'' (sh_books (load_next (delete_book ''w'' demo_loading_shelf))) = None \<and>
   map se_recipeId (entries_of ''w'' (sh_index (load_next (delete_book ''w'' demo_loading_shelf)))) = [''r1'']"
proof -
  have "ok_on (- {''w''}) demo_full_shelf"
    using demo_full_shelf_ok by (auto simp: shelf_inv_def waiting_def demo_full_shelf_def demo_shelf_def intro: ok_weaken)
  then have "shelf_inv demo_loading_shelf"
    by (simp add: demo_loading_shelf_def shelf_inv_def waiting_def) (simp add: demo_full_shelf_def demo_old_book_def)
  moreover have "ct_recipes (loaded_catalog ''w'' demo_loading_shelf) = [demo_plum]"
    by (simp add: loaded_catalog_def open_catalog_def demo_loading_shelf_def demo_full_shelf_def map_get_def)
  ultimately show ?thesis using deleted_while_loading_is_indexed [of demo_loading_shelf demo_old_book "[]"]
    by (simp add: demo_old_book_def demo_plum_def) (simp add: demo_loading_shelf_def demo_old_book_def)
qed

end
