(* ===== verification/Spec2Isabelle.thy ===== *)
theory Spec2Isabelle
  imports Vaults Blob_Client Search Recipe_Markdown Recipe_Scraper Vector_Search Editor_Bridge Page_Races Accounts Service_Worker Url_Import Books
begin

text \<open>
  A verification development for the web client of LunchLoxs, an end-to-end encrypted, local-first recipe book. All
  paths below are relative to \<^verbatim>\<open>src/frontend/src\<close>; each theory opens with the files it models and what it leaves out.

  \<^bold>\<open>The program.\<close> A user's recipes live in Automerge documents, grouped in books (vaults). A document is opened as a
  store (\<^verbatim>\<open>lib/automerge-store.ts\<close>) that keeps the encrypted document, a dirty flag and the last sequence number in
  IndexedDB; the document manager (\<^verbatim>\<open>lib/document-manager.ts\<close>) owns the open stores. A local change is written with its
  flag, and the push queue (\<^verbatim>\<open>sync/push-queue.ts\<close>) encrypts, signs and sends dirty documents over the sync client
  (\<^verbatim>\<open>lib/sync-client.ts\<close>), a state machine over one WebSocket, until the server acknowledges them. What arrives is verified
  and merged by the callbacks of \<^verbatim>\<open>connect.ts\<close>, which also keep the key hierarchy: passphrase, master key, identity and
  signing keys, one key for each vault. On top of it are the page of a book (\<^verbatim>\<open>ui/recipes.ts\<close>), the view of a recipe
  (\<^verbatim>\<open>views/recipe-detail.ts\<close>), the text formats (units, quantities, markdown, references, scraped pages), the searches, the
  accounts of a device and the service worker that keeps the app and its pictures for offline use.

  \<^bold>\<open>Theories and files.\<close>

  \<^item> \<open>Prelude\<close>: JavaScript's maps, sets and strings with the lemmas every component uses, and the interfaces
    \<open>kv_store\<close> (a map with keys in an order), \<open>run_invariant\<close> (an invariant of a run of steps),
    \<open>guarded_invariant\<close> (of steps with a guard; the former is a case of it), \<open>functional_refinement\<close> (which extends it by
    a specification, lifted to runs). \<open>Js_Text\<close>:
    trimming, cutting and replacing. \<open>Float64\<close>: the arithmetic of numbers. \<open>Json\<close>: \<^verbatim>\<open>JSON.stringify\<close> and \<^verbatim>\<open>JSON.parse\<close>.
  \<^item> \<open>Crypto\<close>: \<^verbatim>\<open>lib/crypto.ts\<close>, \<^verbatim>\<open>lib/encoding.ts\<close>. WebCrypto is the record \<open>webcrypto\<close> of functions; its laws are
    the predicates \<open>aead_law\<close>, \<open>signing_pair\<close> and \<open>ecdh_pair\<close>, and \<open>demo_crypto\<close> shows that they can hold.
  \<^item> \<open>Idb\<close>: the object store of IndexedDB. \<open>Doc_Store\<close>: \<^verbatim>\<open>lib/automerge-store.ts\<close>; Automerge is the record
    \<open>automerge\<close>. A store operation is cut at its awaits; the queued writes are a list, and a crash may come between
    any two of them. \<open>Doc_Manager\<close>: \<^verbatim>\<open>lib/document-manager.ts\<close>.
  \<^item> \<open>Sync_Client\<close>: \<^verbatim>\<open>lib/sync-client.ts\<close>; the socket, the timers, the browser and the app are the events of
    \<open>sc_event\<close>, \<open>sc_step\<close> is one of them.
  \<^item> \<open>Push_Queue\<close>: \<^verbatim>\<open>sync/push-queue.ts\<close>; asynchronous methods are tasks resumed in any order.
  \<^item> \<open>Vaults\<close>: the callbacks of \<^verbatim>\<open>connect.ts\<close> and \<^verbatim>\<open>sync/vault-helpers.ts\<close>. \<open>Accounts\<close>: \<^verbatim>\<open>ui/auth.ts\<close>,
    \<^verbatim>\<open>ui/account.ts\<close>, \<^verbatim>\<open>lib/auth.ts\<close>. \<open>Blob_Client\<close>: \<^verbatim>\<open>lib/blob-client.ts\<close>.
  \<^item> \<open>Units\<close>, \<open>Quantity\<close>, \<open>Conversion\<close>: \<^verbatim>\<open>lib/units.ts\<close>, \<^verbatim>\<open>lib/quantity.ts\<close>, \<^verbatim>\<open>lib/densities.ts\<close>.
  \<^item> \<open>Recipe_Markdown\<close>: \<^verbatim>\<open>lib/export.ts\<close>. \<open>Recipe_Refs\<close>: references to recipes and ingredients in the text
    (\<^verbatim>\<open>views/detail/recipe-links.ts\<close>, \<^verbatim>\<open>lib/html.ts\<close>, \<^verbatim>\<open>components/recipe-preview.ts\<close> and the two completion sources of the
    editor). \<open>Recipe_Scraper\<close>: \<^verbatim>\<open>lib/recipe-scraper.ts\<close>.
  \<^item> \<open>Search\<close>: \<^verbatim>\<open>lib/search.ts\<close>. \<open>Vector_Search\<close>: \<^verbatim>\<open>lib/vector-search.ts\<close> and \<^verbatim>\<open>lib/embedding-store.ts\<close>.
  \<^item> \<open>Editor_Bridge\<close>: \<^verbatim>\<open>lib/codemirror-automerge.ts\<close>. \<open>Tag_Input\<close>: \<^verbatim>\<open>components/tag-input.ts\<close> and
    \<^verbatim>\<open>components/autocomplete-input.ts\<close>.
  \<^item> \<open>Recipe_View\<close> (the handlers of one recipe's page) and \<open>Recipe_Page\<close> (opening, closing and the catalog), from
    \<^verbatim>\<open>views/recipe-detail.ts\<close>, \<^verbatim>\<open>views/detail/\<close>, \<^verbatim>\<open>ui/recipes.ts\<close>, \<^verbatim>\<open>ui/books.ts\<close>, \<^verbatim>\<open>sync/push.ts\<close>, \<^verbatim>\<open>import-export.ts\<close>;
    \<open>Page_Library\<close> states what they promise, \<open>Page_Races\<close> what happens when they overlap.
  \<^item> \<open>Books\<close>: the books of a user, from \<^verbatim>\<open>ui/books.ts\<close>, \<^verbatim>\<open>ui/share.ts\<close>, \<^verbatim>\<open>sync/vault-helpers.ts\<close>, \<^verbatim>\<open>connect.ts\<close>,
    \<^verbatim>\<open>import-export.ts\<close>. \<open>Url_Import\<close>: \<^verbatim>\<open>lib/url-import.ts\<close>.
  \<^item> \<open>Service_Worker\<close>: \<^verbatim>\<open>workers/service-worker.ts\<close>. This theory: properties that span components.

  \<^bold>\<open>What is shown.\<close> The claims carry the numbers C1 to C40 where they stand.

  \<^item> No change is lost, and where one is: a committed change is found again after a restart, a flush pushes every
    dirty document once, one flush at a time; the cases in which an acknowledgement or a background task loses one are
    claims; a crash between two writes and a vault whose key does not decrypt are theorems of \<open>Doc_Store\<close> and \<open>Vaults\<close>.
  \<^item> The connection: a pushed change arrives at another client unchanged, subscriptions resume from the last sequence
    number, vault documents wait for their key, promises settle once.
  \<^item> Keys: a second device gets the first one's keys, rotation reaches the members, stored documents survive it,
    remote changes are authenticated, a device boots offline; what a change of the password breaks.
  \<^item> The page: the operations of \<open>Recipe_Page\<close>, run to their ends, refine the abstract library of \<open>Page_Library\<close>;
    renaming an ingredient rewrites its references; servings and factor agree in every run; tags stay well formed;
    the editor and the document have the same text; a race that puts an edit in the wrong place.
  \<^item> Books: the search index and the names follow the catalogs in every run, a new book has one key on every way back
    to it; a deletion without a connection is forgotten.
  \<^item> Formats: round trips of the recipe's markdown and of amounts; the error of a conversion; export ends with
    names that differ; the scraper finds a recipe when there is one; references are never read as markup. An import from an
    address: the streamed recipe arrives wherever the pieces end, steps keep their pictures; it may end in another book.
  \<^item> Searches: the ranking of the matches; the indexing queue in every run, and that it drains.
  \<^item> Offline use: a picture once loaded is served for ever, and the case in which an update that failed is never repeated.

  Invariants of runs go through the interpretations of \<open>run_invariant\<close> (\<open>dm_wf_steps\<close>, \<open>vs_steps\<close>, \<open>tag_steps\<close>,
  \<open>scale_steps\<close>, \<open>unselected_steps\<close>, \<open>blob_steps\<close>), of \<open>guarded_invariant\<close> (\<open>shelf_steps\<close>) and of \<open>link_invariant\<close> in \<open>Sync_Client\<close>, the refinement of the
  page through that of \<open>functional_refinement\<close> (\<open>page_of_book\<close>), the maps through those of \<open>kv_store\<close> (\<open>idb\<close>, \<open>js_map\<close>).

  \<^bold>\<open>Bounds and fuel.\<close> The loops of the code are recursions over lists or functions with a measure. The search for a free
  file name (\<open>unique_name\<close>) has none that is evident: it is a \<open>partial_function (option)\<close>, and the claim on the export proves that it returns. \<open>parse_json\<close> gives
  its descent one unit of fuel more than the text has characters, which is enough (\<open>parse_json_enough\<close>). The awaits of the indexing loop are steps
  (\<open>index_step\<close>), and the claim on the indexing proves that finitely many of them end it. Words are used where the code has bytes; numbers are those of \<open>Float64\<close>.

  \<^bold>\<open>What the model takes for granted.\<close>

  \<^item> Libraries are parameters with stated laws: WebCrypto, Automerge, CodeMirror's positions, JSZip (a list of files), the
    formats of dates, the rendering of markdown (marked, DOMPurify), the embedding model.
  \<^item> One statement of an asynchronous function and its continuation up to the next await is one step. Reading the
    stored sequence number is part of the step that asks for it. An operation of IndexedDB and what follows it
    are one step. One socket exists at a time; \<open>updateRefs\<close> of the push queue keeps manager and client. An import runs to its end.
  \<^item> Strings are lists of code units below 256. JSON values are parsed values with their numbers as text; objects with a \<^verbatim>\<open>toString\<close> of
    their own are left out. The sign of zero is ignored, and integers from 1e21 on are printed in full.
  \<^item> The local cache of accounts is written and read by a pair of functions of which the latter inverts the former; a failed start shows one
    text. The DOM is given by what the code reads of it.
  \<^item> A store that is closed and opened again for the same document is not told from the first; the view listens to
    the store it shows; the sync client is there when a recipe is deselected. Fields of the catalog in an old format are left out.

  \<^bold>\<open>Not modelled.\<close> Drawing: lists, dialogs, toasts, themes, cursors of other users (\<^verbatim>\<open>components/book-list.ts\<close>,
  \<^verbatim>\<open>views/recipe-list.ts\<close>, \<^verbatim>\<open>lib/remote-cursors.ts\<close> and others), whose state is modelled above. The start of the app
  (\<^verbatim>\<open>index.ts\<close>) and the logger.
  Pictures (\<^verbatim>\<open>lib/asset-processing.ts\<close>): a canvas does the work. The embedding worker: calls of a library.
  Build scripts and development data. The server, written in Go: its replies are arbitrary events.
\<close>

section \<open>Components together\<close>

text \<open>C19: a background task that opens a recipe for a moment closes it under the user: the indexer (the push queue
  and the export do the same) finds the document closed and opens it, the recipe view opens it while that
  is under way and joins the same promise, and the indexer's close takes the store out of the manager. The
  view keeps a store that the manager does not know: remote changes of the recipe are dropped, and not even
  their sequence number is recorded.\<close>

theorem temporary_open_detaches_the_view:
  assumes "dm_get d m = None" "map_get (dm_opening m) d = None"
    and "store_open A C out db d (dm_encKey m) initFn = Inr (st, db')"
  shows "let m1 = snd (dm_open d initFn m);
             (reply, m2) = dm_open d viewInit m1;
             (m3, db3) = dm_settle A C out d (m2, db);
             m4 = dm_close_end d m3
         in reply = Joined (OpenPending (dm_encKey m) initFn) \<and> dm_get d m3 = Some st \<and> dm_get d m4 = None \<and>
            (\<forall>s snapshot seq sender. w_dm (ss_world s) = m4 \<longrightarrow> onRemoteChange A C d snapshot seq sender s = s)"
  using assms
  by (simp add: dm_open_def dm_openWithKey_def dm_get_def dm_settle_def dm_close_end_def map_eqs onRemoteChange_def)

theorem temporary_open_detaches_the_view_witness:
  "let m1 = snd (dm_open ''v/r'' id (dm_init demo_key));
       (reply, m2) = dm_open ''v/r'' id m1;
       (m3, db3) = dm_settle demo_automerge demo_crypto (Committed demo_iv) ''v/r'' (m2, []);
       m4 = dm_close_end ''v/r'' m3
   in dm_get ''v/r'' m3 \<noteq> None \<and> dm_get ''v/r'' m4 = None"
proof -
  obtain st db' where "store_open demo_automerge demo_crypto (Committed demo_iv) [] ''v/r'' (dm_encKey (dm_init demo_key :: bytes doc_mgr)) id = Inr (st, db')"
    by (simp add: store_open_def idb_get_def)
  from temporary_open_detaches_the_view [OF _ _ this, of id]
  show ?thesis by (auto simp: dm_init_def dm_get_def Let_def split: prod.splits)
qed

end
